(* ===== verification/Prelude.thy ===== *)
theory Prelude
  imports Complex_Main "HOL-Library.List_Lexorder" "HOL-Library.Char_ord"
begin

text \<open>
  What the components share.  Python dictionaries keep the order in which their keys were
  inserted, so a dictionary is an association list; the locale \<open>ordered_dict\<close> states the laws
  the components use of it and is interpreted on the operations below.  Points in time are
  counted in microseconds, the resolution of Python's \<open>datetime\<close>; a \<open>float\<close> of the source is
  an exact rational here (rounding of binary floating point is not modelled).  A raised
  exception is the left side of a sum, and an operation that can raise after changing state
  returns the state as well.  The machine locales lift a one-step law to every run.
\<close>

named_theorems dict_simps

type_synonym timestamp = int

definition seconds :: "int \<Rightarrow> int" where
  "seconds s = s * 1000000"

text \<open>FastAPI's exception: a status code and a detail string.\<close>

datatype http_exception = HTTPException nat string

text \<open>Values of JSON.\<close>

datatype json =
    J_Null
  | J_Bool bool
  | J_Int int
  | J_Float rat
  | J_Str string
  | J_List "json list"
  | J_Obj "(string \<times> json) list"

text \<open>The UTF-8 bytes of the dash that several messages of the source contain.\<close>

definition em_dash :: string where
  "em_dash = [CHR 0xE2, CHR 0x80, CHR 0x94]"

subsection \<open>Insertion-ordered dictionaries\<close>

type_synonym ('k, 'v) dict = "('k \<times> 'v) list"

primrec dict_set :: "'k \<Rightarrow> 'v \<Rightarrow> ('k, 'v) dict \<Rightarrow> ('k, 'v) dict" where
  "dict_set k v [] = [(k, v)]"
| "dict_set k v (p # ps) = (if fst p = k then (k, v) # ps else p # dict_set k v ps)"

definition dict_del :: "'k \<Rightarrow> ('k, 'v) dict \<Rightarrow> ('k, 'v) dict" where
  "dict_del k d = filter (\<lambda>p. fst p \<noteq> k) d"

definition dict_keys :: "('k, 'v) dict \<Rightarrow> 'k list" where
  "dict_keys d = map fst d"

text \<open>\<open>OrderedDict.move_to_end\<close>; on a missing key Python raises, and no caller does that.\<close>

definition dict_move_to_end :: "'k \<Rightarrow> ('k, 'v) dict \<Rightarrow> ('k, 'v) dict" where
  "dict_move_to_end k d =
     (case map_of d k of None \<Rightarrow> d | Some v \<Rightarrow> dict_set k v (dict_del k d))"

locale ordered_dict =
  fixes get :: "'d \<Rightarrow> 'k \<Rightarrow> 'v option"
    and put :: "'k \<Rightarrow> 'v \<Rightarrow> 'd \<Rightarrow> 'd"
    and del :: "'k \<Rightarrow> 'd \<Rightarrow> 'd"
    and keys :: "'d \<Rightarrow> 'k list"
  assumes get_put: "get (put k v d) = (get d)(k \<mapsto> v)"
    and get_del: "get (del k d) = (get d)(k := None)"
    and keys_put: "keys (put k v d) = (if k \<in> set (keys d) then keys d else keys d @ [k])"
    and keys_del: "keys (del k d) = filter (\<lambda>x. x \<noteq> k) (keys d)"
    and set_keys: "set (keys d) = dom (get d)"
begin

lemma distinct_put: "distinct (keys d) \<Longrightarrow> distinct (keys (put k v d))"
  by (simp add: keys_put)

lemma distinct_del: "distinct (keys d) \<Longrightarrow> distinct (keys (del k d))"
  by (simp add: keys_del)

lemma get_reinsert: "get d k = Some v \<Longrightarrow> get (put k v (del k d)) = get d"
  by (auto simp: get_put get_del)

lemma keys_reinsert: "keys (put k v (del k d)) = filter (\<lambda>x. x \<noteq> k) (keys d) @ [k]"
  by (auto simp: keys_put keys_del)

lemma del_missing_keys: "get d k = None \<Longrightarrow> keys (del k d) = keys d"
proof -
  assume "get d k = None"
  then have "k \<notin> set (keys d)" by (simp add: set_keys domIff)
  then show ?thesis by (auto simp: keys_del filter_id_conv)
qed

end

lemma map_of_dict_set: "map_of (dict_set k v d) = (map_of d)(k \<mapsto> v)"
  by (induction d) (auto simp: fun_upd_twist)

lemma map_of_dict_del: "map_of (dict_del k d) = (map_of d)(k := None)"
  by (induction d) (auto simp: dict_del_def fun_upd_twist)

lemma dict_keys_set:
  "dict_keys (dict_set k v d) = (if k \<in> set (dict_keys d) then dict_keys d else dict_keys d @ [k])"
  by (induction d) (auto simp: dict_keys_def)

lemma dict_keys_del: "dict_keys (dict_del k d) = filter (\<lambda>x. x \<noteq> k) (dict_keys d)"
  by (induction d) (auto simp: dict_keys_def dict_del_def)

lemma set_dict_keys: "set (dict_keys d) = dom (map_of d)"
  by (simp add: dict_keys_def dom_map_of_conv_image_fst)

interpretation pydict: ordered_dict map_of dict_set dict_del dict_keys
  by unfold_locales
    (simp_all add: map_of_dict_set map_of_dict_del dict_keys_set dict_keys_del set_dict_keys)

lemmas dict_lookup [dict_simps] = pydict.get_put pydict.get_del

lemma dict_move_to_end_get [dict_simps]: "map_of (dict_move_to_end k d) = map_of d"
  by (simp add: dict_move_to_end_def pydict.get_reinsert split: option.split)

lemma dict_move_to_end_keys:
  "k \<in> set (dict_keys d) \<Longrightarrow>
     dict_keys (dict_move_to_end k d) = filter (\<lambda>x. x \<noteq> k) (dict_keys d) @ [k]"
  by (auto simp: dict_move_to_end_def pydict.keys_reinsert set_dict_keys split: option.split)

lemma dict_move_to_end_set_keys [dict_simps]:
  "set (dict_keys (dict_move_to_end k d)) = set (dict_keys d)"
  by (simp add: set_dict_keys dict_simps)

lemma dict_move_to_end_distinct:
  "distinct (dict_keys d) \<Longrightarrow> distinct (dict_keys (dict_move_to_end k d))"
  by (auto simp: dict_move_to_end_def pydict.keys_reinsert split: option.split)

subsection \<open>Machines: one-step laws lifted to runs\<close>

text \<open>\<open>legal\<close> restricts the operations a run may contain, where callers are restricted.\<close>

locale invariant_machine =
  fixes step :: "'s \<Rightarrow> 'op \<Rightarrow> 's"
    and inv :: "'s \<Rightarrow> bool"
    and legal :: "'op \<Rightarrow> bool"
  assumes step_inv: "inv s \<Longrightarrow> legal x \<Longrightarrow> inv (step s x)"
begin

lemma run_inv: "inv s \<Longrightarrow> list_all legal xs \<Longrightarrow> inv (foldl step s xs)"
  by (induction xs arbitrary: s) (auto simp: step_inv)

end

text \<open>Rows that reached a frozen value are never written again.\<close>

locale frozen_machine = invariant_machine step inv legal
  for step :: "'s \<Rightarrow> 'op \<Rightarrow> 's" and inv :: "'s \<Rightarrow> bool" and legal :: "'op \<Rightarrow> bool" +
  fixes row :: "'s \<Rightarrow> 'k \<Rightarrow> 'r option"
    and frozen :: "'r \<Rightarrow> bool"
  assumes step_frozen: "inv s \<Longrightarrow> legal x \<Longrightarrow> row s k = Some r \<Longrightarrow> frozen r \<Longrightarrow>
    row (step s x) k = Some r"
begin

lemma run_frozen:
  "inv s \<Longrightarrow> list_all legal xs \<Longrightarrow> row s k = Some r \<Longrightarrow> frozen r \<Longrightarrow>
     row (foldl step s xs) k = Some r"
  by (induction xs arbitrary: s) (auto simp: step_frozen step_inv)

end

text \<open>A detailed machine that follows an abstract one step for step, as long as its operations
  are within their preconditions.\<close>

fun all_enabled :: "('s \<Rightarrow> 'op \<Rightarrow> 's) \<Rightarrow> ('s \<Rightarrow> 'op \<Rightarrow> bool) \<Rightarrow> 's \<Rightarrow> 'op list \<Rightarrow> bool" where
  "all_enabled step enabled s [] \<longleftrightarrow> True"
| "all_enabled step enabled s (x # xs) \<longleftrightarrow> enabled s x \<and> all_enabled step enabled (step s x) xs"

locale simulation =
  fixes step :: "'s \<Rightarrow> 'op \<Rightarrow> 's"
    and inv :: "'s \<Rightarrow> bool"
    and enabled :: "'s \<Rightarrow> 'op \<Rightarrow> bool"
    and abs_step :: "'a \<Rightarrow> 'op \<Rightarrow> 'a"
    and abs :: "'s \<Rightarrow> 'a"
  assumes step_inv: "inv s \<Longrightarrow> enabled s x \<Longrightarrow> inv (step s x)"
    and step_abs: "inv s \<Longrightarrow> enabled s x \<Longrightarrow> abs (step s x) = abs_step (abs s) x"
begin

lemma run_abs:
  "inv s \<Longrightarrow> all_enabled step enabled s xs \<Longrightarrow>
     inv (foldl step s xs) \<and> abs (foldl step s xs) = foldl abs_step (abs s) xs"
  by (induction xs arbitrary: s) (auto simp: step_abs step_inv)

end

subsection \<open>Tables with a primary key\<close>

text \<open>
  A database table is the list of its rows; \<open>key\<close> reads the primary key.  A query that does not
  order its result sees the rows in the order of the list.
\<close>

definition table_get :: "('r \<Rightarrow> 'k) \<Rightarrow> 'k \<Rightarrow> 'r list \<Rightarrow> 'r option" where
  "table_get key k rows = find (\<lambda>r. key r = k) rows"

definition table_update :: "('r \<Rightarrow> 'k) \<Rightarrow> 'k \<Rightarrow> ('r \<Rightarrow> 'r) \<Rightarrow> 'r list \<Rightarrow> 'r list" where
  "table_update key k f rows = map (\<lambda>r. if key r = k then f r else r) rows"

locale keyed_row =
  fixes key :: "'r \<Rightarrow> 'k"
    and keeps :: "('r \<Rightarrow> 'r) \<Rightarrow> bool"
  assumes keeps_key: "keeps f \<Longrightarrow> key (f r) = key r"
begin

lemma get_update:
  "keeps f \<Longrightarrow> table_get key k' (table_update key k f rows) =
     (if k' = k then map_option f (table_get key k rows) else table_get key k' rows)"
  by (induction rows) (auto simp: table_get_def table_update_def keeps_key)

lemma keys_update: "keeps f \<Longrightarrow> map key (table_update key k f rows) = map key rows"
  by (simp add: table_update_def keeps_key)

end

lemma table_get_Some: "table_get key k rows = Some r \<Longrightarrow> r \<in> set rows \<and> key r = k"
  by (auto simp: table_get_def find_Some_iff)

lemma table_get_None: "table_get key k rows = None \<longleftrightarrow> k \<notin> key ` set rows"
  by (auto simp: table_get_def find_None_iff)

lemma table_get_mem:
  "distinct (map key rows) \<Longrightarrow> r \<in> set rows \<Longrightarrow> table_get key (key r) rows = Some r"
  by (induction rows) (auto simp: table_get_def)

lemma table_get_append:
  "table_get key k (rows @ rows') =
     (case table_get key k rows of None \<Rightarrow> table_get key k rows' | Some r \<Rightarrow> Some r)"
  by (induction rows) (auto simp: table_get_def)

lemma table_get_filter: "k \<noteq> k' \<Longrightarrow> table_get key k (filter (\<lambda>r. key r \<noteq> k') rows) = table_get key k rows"
  by (induction rows) (auto simp: table_get_def)

lemma table_get_map:
  "(\<And>r. r \<in> set rows \<Longrightarrow> key (f r) = key r) \<Longrightarrow>
     table_get key k (map f rows) = map_option f (table_get key k rows)"
  by (induction rows) (auto simp: table_get_def)

end
