(* ===== verification/Py_Strings.thy ===== *)
theory Py_Strings
  imports Prelude
begin

text \<open>
  The string methods of Python that the components use, on UTF-8 bytes (the character type is a
  byte here): \<open>startswith\<close>, \<open>splitlines\<close>, \<open>strip\<close>, \<open>split(sep, 1)\<close>, \<open>str(int)\<close>.  Line breaks and
  white space are Python's, those outside ASCII included.
\<close>

definition startswith :: "string \<Rightarrow> string \<Rightarrow> bool" where
  "startswith p s \<longleftrightarrow> take (length p) s = p"

definition endswith :: "string \<Rightarrow> string \<Rightarrow> bool" where
  "endswith p s \<longleftrightarrow> drop (length s - length p) s = p"

definition LF :: char where "LF = CHR 0x0A"

text \<open>How many bytes of a line break (of white space) a string begins with; 0 is none.\<close>

definition code :: "char \<Rightarrow> nat" where
  "code c = of_char c"

definition break_len :: "string \<Rightarrow> nat" where
  "break_len s =
     (case s of
        [] \<Rightarrow> 0
      | c # cs \<Rightarrow>
          (let n = code c; rest = map code (take 2 cs)
           in if n = 13 \<and> take 1 rest = [10] then 2
              else if n \<in> {10, 11, 12, 13, 28, 29, 30} then 1
              else if n = 0xC2 \<and> take 1 rest = [0x85] then 2
              else if n = 0xE2 \<and> rest \<in> {[0x80, 0xA8], [0x80, 0xA9]} then 3
              else 0))"

definition space_len :: "string \<Rightarrow> nat" where
  "space_len s =
     (case s of
        [] \<Rightarrow> 0
      | c # cs \<Rightarrow>
          (let n = code c; rest = map code (take 2 cs)
           in if n \<in> {9, 10, 11, 12, 13, 28, 29, 30, 31, 32} then 1
              else if n = 0xC2 \<and> take 1 rest \<in> {[0x85], [0xA0]} then 2
              else if n = 0xE1 \<and> rest = [0x9A, 0x80] then 3
              else if n = 0xE2 \<and> (take 1 rest = [0x80] \<and> last rest \<in> {0x80, 0x81, 0x82, 0x83, 0x84,
                0x85, 0x86, 0x87, 0x88, 0x89, 0x8A, 0xA8, 0xA9, 0xAF} \<and> length rest = 2
                \<or> rest = [0x81, 0x9F]) then 3
              else if n = 0xE3 \<and> rest = [0x80, 0x80] then 3
              else 0))"

text \<open>The first argument counts the remaining bytes of a break that has been recognised.\<close>

fun splitlines_from :: "nat \<Rightarrow> string \<Rightarrow> string \<Rightarrow> string list" where
  "splitlines_from skip line [] = (if line = [] then [] else [line])"
| "splitlines_from (Suc skip) line (c # cs) = splitlines_from skip line cs"
| "splitlines_from 0 line (c # cs) =
     (if break_len (c # cs) = 0 then splitlines_from 0 (line @ [c]) cs
      else line # splitlines_from (break_len (c # cs) - 1) [] cs)"

definition splitlines :: "string \<Rightarrow> string list" where
  "splitlines s = splitlines_from 0 [] s"

fun lstrip_from :: "nat \<Rightarrow> string \<Rightarrow> string" where
  "lstrip_from skip [] = []"
| "lstrip_from (Suc skip) (c # cs) = lstrip_from skip cs"
| "lstrip_from 0 (c # cs) =
     (if space_len (c # cs) = 0 then c # cs else lstrip_from (space_len (c # cs) - 1) cs)"

definition lstrip :: "string \<Rightarrow> string" where
  "lstrip s = lstrip_from 0 s"

fun rstrip :: "string \<Rightarrow> string" where
  "rstrip [] = []"
| "rstrip (c # cs) = (if lstrip (c # cs) = [] then [] else c # rstrip cs)"

definition strip :: "string \<Rightarrow> string" where
  "strip s = rstrip (lstrip s)"

text \<open>\<open>s.split(sep, 1)\<close> where \<open>sep\<close> occurs; \<open>None\<close> where it does not.\<close>

fun split_once :: "string \<Rightarrow> string \<Rightarrow> (string \<times> string) option" where
  "split_once sep [] = (if sep = [] then Some ([], []) else None)"
| "split_once sep (c # cs) =
     (if startswith sep (c # cs) then Some ([], drop (length sep) (c # cs))
      else map_option (\<lambda>(a, b). (c # a, b)) (split_once sep cs))"

fun join_with :: "string \<Rightarrow> string list \<Rightarrow> string" where
  "join_with sep [] = []"
| "join_with sep [s] = s"
| "join_with sep (s # t # ts) = s @ sep @ join_with sep (t # ts)"

text \<open>\<open>str(n)\<close> of a natural number.\<close>

definition digit :: "nat \<Rightarrow> char" where
  "digit d = char_of (48 + d)"

fun show_nat :: "nat \<Rightarrow> string" where
  "show_nat n = (if n < 10 then [digit n] else show_nat (n div 10) @ [digit (n mod 10)])"

declare show_nat.simps [simp del]

text \<open>The lower case of an ASCII string.\<close>

definition ascii_lower :: "string \<Rightarrow> string" where
  "ascii_lower s = map (\<lambda>c. if 65 \<le> (of_char c :: nat) \<and> (of_char c :: nat) \<le> 90
     then char_of ((of_char c :: nat) + 32) else c) s"

subsection \<open>Lines\<close>

text \<open>Strings without any line break byte sequence, in any context.\<close>

definition printable :: "char \<Rightarrow> bool" where
  "printable c \<longleftrightarrow> 0x20 \<le> code c \<and> code c < 0x80"

definition line_free :: "string \<Rightarrow> bool" where
  "line_free s \<longleftrightarrow> (\<forall>c \<in> set s. printable c)"

lemma code_LF [simp]: "code LF = 10"
  by (simp add: code_def LF_def)

lemma printable_break: "printable c \<Longrightarrow> break_len (c # cs) = 0"
  by (auto simp: break_len_def printable_def Let_def)

lemma printable_LF: "printable c \<Longrightarrow> c \<noteq> LF"
  by (auto simp: printable_def)

lemma break_LF: "break_len (LF # cs) = 1"
  by (simp add: break_len_def Let_def)

lemma splitlines_line:
  assumes "line_free s"
  shows "splitlines_from 0 line (s @ LF # rest) = (line @ s) # splitlines_from 0 [] rest"
  using assms
proof (induction s arbitrary: line)
  case Nil
  then show ?case by (simp add: break_LF)
next
  case (Cons c s)
  then have "break_len ((c # s) @ LF # rest) = 0"
    by (simp add: line_free_def printable_break)
  then show ?case using Cons by (simp add: line_free_def)
qed

lemma splitlines_end: "line_free s \<Longrightarrow> s \<noteq> [] \<Longrightarrow> splitlines_from 0 line s = [line @ s]"
proof (induction s arbitrary: line)
  case (Cons c s)
  then have "break_len (c # s) = 0" by (simp add: line_free_def printable_break)
  then show ?case using Cons by (cases s) (simp_all add: line_free_def)
qed simp

definition visible :: "char \<Rightarrow> bool" where
  "visible c \<longleftrightarrow> 0x20 < code c \<and> code c < 0x80"

lemma visible_space: "visible c \<Longrightarrow> space_len (c # cs) = 0"
  by (auto simp: visible_def space_len_def Let_def)

lemma space_blank: "code c = 32 \<Longrightarrow> space_len (c # cs) = 1"
  by (simp add: space_len_def Let_def)

lemma lstrip_visible: "visible c \<Longrightarrow> lstrip (c # cs) = c # cs"
  by (simp add: lstrip_def visible_space)

lemma lstrip_blank: "code c = 32 \<Longrightarrow> lstrip (c # cs) = lstrip cs"
  by (simp add: lstrip_def space_blank)

lemma space_len_snoc: "space_len (c # cs @ [d]) \<le> Suc (length cs) \<or> \<not> visible d"
  by (cases cs) (auto simp: space_len_def Let_def visible_def take_Cons' split: if_splits list.splits)

lemma lstrip_from_snoc:
  "visible d \<Longrightarrow> skip \<le> length cs \<Longrightarrow> lstrip_from skip (cs @ [d]) \<noteq> []"
proof (induction cs arbitrary: skip)
  case Nil
  then show ?case by (simp add: visible_space)
next
  case (Cons c cs)
  show ?case
  proof (cases skip)
    case 0
    have "space_len (c # cs @ [d]) - 1 \<le> length cs"
      using space_len_snoc [of c cs d] Cons.prems(1) by auto
    then show ?thesis using Cons.IH Cons.prems(1) 0 by simp
  next
    case (Suc n)
    then show ?thesis using Cons by simp
  qed
qed

lemma rstrip_visible: "visible d \<Longrightarrow> rstrip (s @ [d]) = s @ [d]"
proof (induction s)
  case Nil
  then show ?case by (simp add: lstrip_visible)
next
  case (Cons c s)
  then show ?case using lstrip_from_snoc [of d 0 "c # s"] by (simp add: lstrip_def)
qed

text \<open>A string that begins and ends with a visible ASCII character survives \<open>strip\<close>, also
  behind a blank.\<close>

definition trimmed :: "string \<Rightarrow> bool" where
  "trimmed s \<longleftrightarrow> s \<noteq> [] \<and> visible (hd s) \<and> visible (last s)"

lemma strip_trimmed:
  assumes "trimmed s"
  shows "strip s = s" and "strip (CHR '' '' # s) = s"
proof -
  obtain c cs where c: "s = c # cs" "visible c" using assms by (cases s) (auto simp: trimmed_def)
  obtain d ds where d: "s = ds @ [d]" "visible d"
    using assms by (cases s rule: rev_cases) (auto simp: trimmed_def)
  have "code (CHR '' '') = 32" by (simp add: code_def)
  then show "strip s = s" and "strip (CHR '' '' # s) = s"
    using c d rstrip_visible [of d ds] by (simp_all add: strip_def lstrip_visible lstrip_blank)
qed

subsection \<open>Prefixes, suffixes, splitting at a separator\<close>

lemma endswith_iff: "endswith p s \<longleftrightarrow> (\<exists>r. s = r @ p)"
proof
  assume "endswith p s"
  then have "s = take (length s - length p) s @ p"
    by (metis append_take_drop_id endswith_def)
  then show "\<exists>r. s = r @ p" by blast
qed (auto simp: endswith_def)

lemma endswith_char: "endswith p (s @ t) \<Longrightarrow> length t \<le> length p \<Longrightarrow> set (take (length p - length t) p) \<subseteq> set s"
proof -
  assume "endswith p (s @ t)" and le: "length t \<le> length p"
  then obtain r where r: "s @ t = r @ p" by (auto simp: endswith_iff)
  then have "length s + length t = length r + length p" by (metis length_append)
  then have "s = take (length s) (r @ p)" "length s = length r + (length p - length t)"
    using r le by (metis append_eq_conv_conj, simp)
  then have "s = r @ take (length p - length t) p" by (metis append_eq_append_conv_if append_take_drop_id diff_add_inverse le_add1 take_all take_append)
  then show ?thesis by (metis set_append sup_ge2)
qed

lemma startswith_iff: "startswith p s \<longleftrightarrow> (\<exists>r. s = p @ r)"
  by (metis append_eq_conv_conj append_take_drop_id startswith_def)

lemma split_once_parts: "split_once sep s = Some (a, b) \<Longrightarrow> s = a @ sep @ b"
proof (induction s arbitrary: a)
  case (Cons c s)
  then show ?case by (auto simp: startswith_iff split: if_splits)
qed (auto split: if_splits)

lemma startswith_append: "length p \<le> length s \<Longrightarrow> startswith p (s @ t) = startswith p s"
  by (simp add: startswith_def)

lemma startswith_length: "startswith p s \<Longrightarrow> length p \<le> length s"
  by (auto simp: startswith_iff)

lemma split_once_append:
  "split_once sep s = Some (a, b) \<Longrightarrow> split_once sep (s @ t) = Some (a, b @ t)"
proof (induction s arbitrary: a)
  case (Cons c s)
  have "length sep \<le> length (c # s)"
    using split_once_parts [OF Cons.prems] by simp
  then have same: "startswith sep (c # s @ t) = startswith sep (c # s)"
    and dropped: "drop (length sep) (c # s @ t) = drop (length sep) (c # s) @ t"
    using startswith_append [of sep "c # s" t] drop_append [of "length sep" "c # s" t] by simp_all
  show ?case
  proof (cases "startswith sep (c # s)")
    case True
    then show ?thesis using Cons.prems by (simp only: split_once.simps same dropped append_Cons) simp
  next
    case False
    then obtain a' where "split_once sep s = Some (a', b)" "a = c # a'" using Cons.prems by auto
    moreover from Cons.IH [OF this(1)] have "split_once sep (s @ t) = Some (a', b @ t)" .
    ultimately show ?thesis using False same by simp
  qed
qed (cases t; auto simp: startswith_def split: if_splits)

end
