(* ===== verification/Model_Cache.thy ===== *)
theory Model_Cache
  imports Prelude
begin

text \<open>
  The model cache of one ACE-Step worker (\<open>src/src/acestep_worker/model_cache.py\<close>).
  The class keeps an LRU dictionary of the loaded models, a use count per mode, the pinned
  modes and the mark of the load that is running.  Every mutating method runs under the
  cache's \<open>asyncio.Lock\<close>, so one call is one step here; a call that raises returns the error
  together with the state it leaves behind.

  The loader, the unloader and the VRAM reader are callbacks the cache is constructed with.
  They are the record \<open>ports\<close> and act on a world \<open>'w\<close> (processes, the GPU) that is
  threaded through, so that a reading of the VRAM may change after each unload.  Sizes in GB
  are exact rationals.  The formatted texts of the exceptions are left out; what decides
  which one is raised is kept.
\<close>

subsection \<open>Data\<close>

record 'h loaded_model =
  lm_mode :: string
  lm_handle :: 'h
  lm_port :: int
  lm_loaded_at :: timestamp

record load_result =
  lr_loaded :: "string list"
  lr_evicted :: "string list"

record loaded_model_info =
  info_mode :: string
  info_size_gb :: rat

record vram_stats =
  vs_used_gb :: rat
  vs_total_gb :: rat

record cache_state_snapshot =
  snap_loaded :: "loaded_model_info list"
  snap_target_loading :: "string option"
  snap_vram_used_gb :: rat
  snap_vram_total_gb :: rat
  snap_vram_measured :: bool
  snap_pinned :: "string list"
  snap_loading_started_at :: "timestamp option"
  snap_loading_last_log_line :: "string option"

datatype capacity_reason = TooLarge rat rat | StillInUse int | UntrackedVram | NothingLeftToEvict

datatype 'x cache_error =
    UnknownModeError string
  | CapacityError capacity_reason
  | ModelNotLoadedError string
  | CallbackRaised 'x
  | KeyError string

record 'h model_cache =
  loaded :: "(string, 'h loaded_model) dict"
  target_loading :: "string option"
  loading_started_at :: "timestamp option"
  loading_last_log_line :: "string option"
  budget_gb :: rat
  sizes :: "string \<rightharpoonup> rat"
  in_use :: "string \<rightharpoonup> int"
  pinned :: "string set"

record ('h, 'w, 'x) ports =
  loader :: "string \<Rightarrow> 'w \<Rightarrow> ('x + 'h loaded_model) \<times> 'w"
  unloader :: "'h loaded_model \<Rightarrow> 'w \<Rightarrow> 'x option \<times> 'w"
  vram_reader :: "('w \<Rightarrow> vram_stats option) option"
  utcnow :: "'w \<Rightarrow> timestamp"

type_synonym ('h, 'w, 'x, 'a) cache_call = "('x cache_error + 'a) \<times> 'h model_cache \<times> 'w"

definition init_cache :: "rat \<Rightarrow> (string \<rightharpoonup> rat) \<Rightarrow> 'h model_cache" where
  "init_cache vram_budget_gb model_sizes =
     \<lparr>loaded = [], target_loading = None, loading_started_at = None,
      loading_last_log_line = None, budget_gb = vram_budget_gb, sizes = model_sizes,
      in_use = Map.empty, pinned = {}\<rparr>"

subsection \<open>Reading the cache\<close>

definition set_loading_log_line :: "string \<Rightarrow> 'h model_cache \<Rightarrow> 'h model_cache" where
  "set_loading_log_line line c =
     (if target_loading c = None then c else c\<lparr>loading_last_log_line := Some line\<rparr>)"

definition loaded_modes :: "'h model_cache \<Rightarrow> string list" where
  "loaded_modes c = dict_keys (loaded c)"

definition is_pinned :: "string \<Rightarrow> 'h model_cache \<Rightarrow> bool" where
  "is_pinned mode c \<longleftrightarrow> mode \<in> pinned c"

definition in_use_count :: "string \<Rightarrow> 'h model_cache \<Rightarrow> int" where
  "in_use_count mode c = (case in_use c mode of None \<Rightarrow> 0 | Some n \<Rightarrow> n)"

definition declared_size :: "'h model_cache \<Rightarrow> string \<Rightarrow> rat" where
  "declared_size c mode = (case sizes c mode of None \<Rightarrow> 0 | Some s \<Rightarrow> s)"

definition declared_used_gb :: "'h model_cache \<Rightarrow> rat" where
  "declared_used_gb c = (\<Sum>m\<leftarrow>loaded_modes c. declared_size c m)"

definition measured_vram :: "('h, 'w, 'x) ports \<Rightarrow> 'w \<Rightarrow> vram_stats option" where
  "measured_vram P w = (case vram_reader P of None \<Rightarrow> None | Some read \<Rightarrow> read w)"

definition current_usage :: "('h, 'w, 'x) ports \<Rightarrow> 'h model_cache \<Rightarrow> 'w \<Rightarrow> rat \<times> rat \<times> bool" where
  "current_usage P c w =
     (case measured_vram P w of
        Some measured \<Rightarrow> (vs_used_gb measured, vs_total_gb measured, True)
      | None \<Rightarrow> (declared_used_gb c, budget_gb c, False))"

definition snapshot :: "('h, 'w, 'x) ports \<Rightarrow> 'h model_cache \<Rightarrow> 'w \<Rightarrow> cache_state_snapshot" where
  "snapshot P c w =
     (case current_usage P c w of (used_gb, total_gb, measured) \<Rightarrow>
       \<lparr>snap_loaded = map (\<lambda>m. \<lparr>info_mode = m, info_size_gb = declared_size c m\<rparr>) (loaded_modes c),
        snap_target_loading = target_loading c,
        snap_vram_used_gb = used_gb,
        snap_vram_total_gb = total_gb,
        snap_vram_measured = measured,
        snap_pinned = sorted_list_of_set (pinned c),
        snap_loading_started_at = loading_started_at c,
        snap_loading_last_log_line = loading_last_log_line c\<rparr>)"

text \<open>The number capacity decisions plan against, with whether it was measured.\<close>

definition planning_used_gb :: "('h, 'w, 'x) ports \<Rightarrow> 'h model_cache \<Rightarrow> 'w \<Rightarrow> rat \<times> bool" where
  "planning_used_gb P c w =
     (case current_usage P c w of (used_gb, _, measured) \<Rightarrow>
       (max used_gb (declared_used_gb c), measured))"

subsection \<open>Eviction\<close>

text \<open>
  The loop over the loaded modes, oldest first: it stops when the incoming model fits, and
  passes over pinned modes and modes in use.
\<close>

fun build_plan :: "'h model_cache \<Rightarrow> rat \<Rightarrow> string list \<Rightarrow> rat \<Rightarrow> string list \<times> rat" where
  "build_plan c incoming [] projected = ([], projected)"
| "build_plan c incoming (mode # modes) projected =
     (if projected + incoming \<le> budget_gb c then ([], projected)
      else if mode \<in> pinned c \<or> 0 < in_use_count mode c then build_plan c incoming modes projected
      else (case build_plan c incoming modes (projected - declared_size c mode) of
              (plan, final) \<Rightarrow> (mode # plan, final)))"

definition build_eviction_plan :: "'h model_cache \<Rightarrow> rat \<Rightarrow> rat \<Rightarrow> string list \<times> rat" where
  "build_eviction_plan c planning_used incoming =
     build_plan c incoming (loaded_modes c) planning_used"

definition capacity_error :: "'h model_cache \<Rightarrow> 'x cache_error" where
  "capacity_error c = CapacityError (if loaded c = [] then UntrackedVram else NothingLeftToEvict)"

fun evict_planned ::
  "('h, 'w, 'x) ports \<Rightarrow> rat \<Rightarrow> string list \<Rightarrow> string list \<Rightarrow> rat \<Rightarrow> 'h model_cache \<Rightarrow> 'w
     \<Rightarrow> ('h, 'w, 'x, string list) cache_call" where
  "evict_planned P incoming [] evicted running c w = (Inr evicted, c, w)"
| "evict_planned P incoming (mode # plan) evicted running c w =
     (if running + incoming \<le> budget_gb c then (Inr evicted, c, w)
      else case map_of (loaded c) mode of
        None \<Rightarrow> (Inl (KeyError mode), c, w)
      | Some victim \<Rightarrow>
          (case unloader P victim w of
             (Some x, w') \<Rightarrow> (Inl (CallbackRaised x), c, w')
           | (None, w') \<Rightarrow>
               (let c' = c\<lparr>loaded := dict_del mode (loaded c)\<rparr>
                in evict_planned P incoming plan (evicted @ [mode])
                     (min (fst (planning_used_gb P c' w')) (running - declared_size c' mode))
                     c' w')))"

definition evict_to_fit ::
  "('h, 'w, 'x) ports \<Rightarrow> rat \<Rightarrow> 'h model_cache \<Rightarrow> 'w \<Rightarrow> ('h, 'w, 'x, string list) cache_call" where
  "evict_to_fit P incoming c w =
     (let planning = fst (planning_used_gb P c w)
      in case build_eviction_plan c planning incoming of (plan, projected) \<Rightarrow>
        if projected + incoming > budget_gb c then (Inl (capacity_error c), c, w)
        else evict_planned P incoming plan [] planning c w)"

subsection \<open>The methods\<close>

definition mark_loading :: "string \<Rightarrow> timestamp \<Rightarrow> 'h model_cache \<Rightarrow> 'h model_cache" where
  "mark_loading mode now c =
     c\<lparr>target_loading := Some mode, loading_started_at := Some now, loading_last_log_line := None\<rparr>"

definition clear_loading :: "'h model_cache \<Rightarrow> 'h model_cache" where
  "clear_loading c =
     c\<lparr>target_loading := None, loading_started_at := None, loading_last_log_line := None\<rparr>"

definition load_missing ::
  "('h, 'w, 'x) ports \<Rightarrow> string \<Rightarrow> rat \<Rightarrow> 'h model_cache \<Rightarrow> 'w \<Rightarrow> ('h, 'w, 'x, load_result) cache_call"
where
  "load_missing P mode target_size c w =
     (case evict_to_fit P target_size c w of
        (Inl e, c1, w1) \<Rightarrow> (Inl e, clear_loading c1, w1)
      | (Inr evicted, c1, w1) \<Rightarrow>
          (case loader P mode w1 of
             (Inl x, w2) \<Rightarrow> (Inl (CallbackRaised x), clear_loading c1, w2)
           | (Inr model, w2) \<Rightarrow>
               (let c2 = c1\<lparr>loaded := dict_set mode model (loaded c1)\<rparr>
                in (Inr \<lparr>lr_loaded = loaded_modes c2, lr_evicted = evicted\<rparr>,
                    clear_loading c2, w2))))"

definition load ::
  "('h, 'w, 'x) ports \<Rightarrow> string \<Rightarrow> 'h model_cache \<Rightarrow> 'w \<Rightarrow> ('h, 'w, 'x, load_result) cache_call" where
  "load P mode c w =
     (case sizes c mode of
        None \<Rightarrow> (Inl (UnknownModeError mode), c, w)
      | Some target_size \<Rightarrow>
          if map_of (loaded c) mode \<noteq> None then
            (let c1 = c\<lparr>loaded := dict_move_to_end mode (loaded c)\<rparr>
             in (Inr \<lparr>lr_loaded = loaded_modes c1, lr_evicted = []\<rparr>, c1, w))
          else if target_size > budget_gb c then
            (Inl (CapacityError (TooLarge target_size (budget_gb c))), c, w)
          else load_missing P mode target_size (mark_loading mode (utcnow P w) c) w)"

definition evict ::
  "('h, 'w, 'x) ports \<Rightarrow> string \<Rightarrow> 'h model_cache \<Rightarrow> 'w \<Rightarrow> ('h, 'w, 'x, string list) cache_call" where
  "evict P mode c w =
     (case map_of (loaded c) mode of
        None \<Rightarrow> (Inr [], c, w)
      | Some model \<Rightarrow>
          if 0 < in_use_count mode c then
            (Inl (CapacityError (StillInUse (in_use_count mode c))), c, w)
          else (case unloader P model w of
             (Some x, w') \<Rightarrow> (Inl (CallbackRaised x), c, w')
           | (None, w') \<Rightarrow>
               (Inr [mode], c\<lparr>loaded := dict_del mode (loaded c), pinned := pinned c - {mode}\<rparr>, w')))"

fun unload_each :: "('h, 'w, 'x) ports \<Rightarrow> 'h loaded_model list \<Rightarrow> 'w \<Rightarrow> 'x option \<times> 'w" where
  "unload_each P [] w = (None, w)"
| "unload_each P (model # models) w =
     (case unloader P model w of
        (Some x, w') \<Rightarrow> (Some x, w')
      | (None, w') \<Rightarrow> unload_each P models w')"

definition evict_all ::
  "('h, 'w, 'x) ports \<Rightarrow> 'h model_cache \<Rightarrow> 'w \<Rightarrow> ('h, 'w, 'x, string list) cache_call" where
  "evict_all P c w =
     (case unload_each P (map snd (loaded c)) w of
        (Some x, w') \<Rightarrow> (Inl (CallbackRaised x), c, w')
      | (None, w') \<Rightarrow>
          (Inr (loaded_modes c), c\<lparr>loaded := [], pinned := {}, in_use := Map.empty\<rparr>, w'))"

definition pin :: "string \<Rightarrow> 'h model_cache \<Rightarrow> ('x cache_error + unit) \<times> 'h model_cache" where
  "pin mode c =
     (if map_of (loaded c) mode = None then (Inl (ModelNotLoadedError mode), c)
      else (Inr (), c\<lparr>pinned := insert mode (pinned c)\<rparr>))"

definition unpin :: "string \<Rightarrow> 'h model_cache \<Rightarrow> 'h model_cache" where
  "unpin mode c = c\<lparr>pinned := pinned c - {mode}\<rparr>"

definition acquire_for_use ::
  "string \<Rightarrow> 'h model_cache \<Rightarrow> 'h loaded_model option \<times> 'h model_cache" where
  "acquire_for_use mode c =
     (case map_of (loaded c) mode of
        None \<Rightarrow> (None, c)
      | Some model \<Rightarrow>
          (Some model,
           c\<lparr>loaded := dict_move_to_end mode (loaded c),
             in_use := (in_use c)(mode \<mapsto> in_use_count mode c + 1)\<rparr>))"

definition release :: "string \<Rightarrow> 'h model_cache \<Rightarrow> 'h model_cache" where
  "release mode c =
     (case in_use c mode of
        None \<Rightarrow> c
      | Some n \<Rightarrow>
          if n - 1 \<le> 0 then c\<lparr>in_use := (in_use c)(mode := None)\<rparr>
          else c\<lparr>in_use := (in_use c)(mode \<mapsto> n - 1)\<rparr>)"

definition release_and_stop ::
  "('h, 'w, 'x) ports \<Rightarrow> string \<Rightarrow> 'h model_cache \<Rightarrow> 'w \<Rightarrow> ('h, 'w, 'x, unit) cache_call" where
  "release_and_stop P mode c w =
     (case in_use c mode of
        None \<Rightarrow> (Inr (), c, w)
      | Some n \<Rightarrow>
          if n - 1 > 0 then (Inr (), c\<lparr>in_use := (in_use c)(mode \<mapsto> n - 1)\<rparr>, w)
          else
            (let c1 = c\<lparr>in_use := (in_use c)(mode := None)\<rparr>
             in case map_of (loaded c1) mode of
                  None \<Rightarrow> (Inr (), c1, w)
                | Some model \<Rightarrow>
                    (let c2 = c1\<lparr>loaded := dict_del mode (loaded c1)\<rparr>
                     in case unloader P model w of
                          (Some x, w') \<Rightarrow> (Inl (CallbackRaised x), c2, w')
                        | (None, w') \<Rightarrow> (Inr (), c2, w'))))"

subsection \<open>One call at a time\<close>

datatype cache_op =
    Load string | Evict string | EvictAll | Pin string | Unpin string
  | AcquireForUse string | Release string | ReleaseAndStop string | SetLoadingLogLine string

fun cache_step :: "('h, 'w, 'x) ports \<Rightarrow> 'h model_cache \<times> 'w \<Rightarrow> cache_op \<Rightarrow> 'h model_cache \<times> 'w" where
  "cache_step P (c, w) (Load mode) = snd (load P mode c w)"
| "cache_step P (c, w) (Evict mode) = snd (evict P mode c w)"
| "cache_step P (c, w) EvictAll = snd (evict_all P c w)"
| "cache_step P (c, w) (Pin mode) = (snd (pin mode c :: (unit cache_error + unit) \<times> _), w)"
| "cache_step P (c, w) (Unpin mode) = (unpin mode c, w)"
| "cache_step P (c, w) (AcquireForUse mode) = (snd (acquire_for_use mode c), w)"
| "cache_step P (c, w) (Release mode) = (release mode c, w)"
| "cache_step P (c, w) (ReleaseAndStop mode) = snd (release_and_stop P mode c w)"
| "cache_step P (c, w) (SetLoadingLogLine line) = (set_loading_log_line line c, w)"

text \<open>
  What holds between two calls: no load is marked as running, the loaded modes are distinct
  and known, every mode in use is loaded and counted positively, and the declared sizes of
  the loaded models fit the budget.
\<close>

definition idle :: "'h model_cache \<Rightarrow> bool" where
  "idle c \<longleftrightarrow> target_loading c = None \<and> loading_started_at c = None
     \<and> loading_last_log_line c = None"

definition sizes_ok :: "'h model_cache \<Rightarrow> bool" where
  "sizes_ok c \<longleftrightarrow> 0 \<le> budget_gb c \<and> (\<forall>s \<in> ran (sizes c). 0 \<le> s)"

definition loaded_ok :: "'h model_cache \<Rightarrow> bool" where
  "loaded_ok c \<longleftrightarrow> distinct (loaded_modes c) \<and> set (loaded_modes c) \<subseteq> dom (sizes c)"

definition uses_ok :: "'h model_cache \<Rightarrow> bool" where
  "uses_ok c \<longleftrightarrow> dom (in_use c) \<subseteq> set (loaded_modes c) \<and> (\<forall>n \<in> ran (in_use c). 0 < n)"

definition cache_inv :: "'h model_cache \<Rightarrow> bool" where
  "cache_inv c \<longleftrightarrow> idle c \<and> sizes_ok c \<and> loaded_ok c \<and> uses_ok c
     \<and> declared_used_gb c \<le> budget_gb c"

lemmas cache_inv_defs = cache_inv_def idle_def sizes_ok_def loaded_ok_def uses_ok_def

text \<open>A mode the planner may choose.\<close>

definition evictable :: "'h model_cache \<Rightarrow> string \<Rightarrow> bool" where
  "evictable c mode \<longleftrightarrow> mode \<notin> pinned c \<and> in_use_count mode c \<le> 0"

subsection \<open>The planner\<close>

lemma build_plan_spec:
  "build_plan c incoming modes projected = (plan, final) \<Longrightarrow>
     plan = take (length plan) (filter (evictable c) modes)
     \<and> final = projected - (\<Sum>m\<leftarrow>plan. declared_size c m)"
proof (induction modes arbitrary: projected plan final)
  case Nil
  then show ?case by simp
next
  case (Cons mode modes)
  show ?case
  proof (cases "projected + incoming \<le> budget_gb c")
    case True
    with Cons.prems show ?thesis by simp
  next
    case nofit: False
    show ?thesis
    proof (cases "evictable c mode")
      case True
      obtain plan' where rec: "build_plan c incoming modes (projected - declared_size c mode) = (plan', final)"
        and plan: "plan = mode # plan'"
        using Cons.prems nofit True by (auto simp: evictable_def split: prod.splits if_splits)
      from Cons.IH [OF rec] plan True show ?thesis by simp
    next
      case False
      with Cons.prems nofit have "build_plan c incoming modes projected = (plan, final)"
        by (auto simp: evictable_def split: if_splits)
      from Cons.IH [OF this] False show ?thesis by simp
    qed
  qed
qed

lemma build_plan_subset:
  assumes "build_plan c incoming modes projected = (plan, final)"
  shows "set plan \<subseteq> {m \<in> set modes. evictable c m}" and "distinct modes \<Longrightarrow> distinct plan"
proof -
  from build_plan_spec [OF assms]
  have eq: "plan = take (length plan) (filter (evictable c) modes)" by simp
  have "set (take (length plan) (filter (evictable c) modes)) \<subseteq> set (filter (evictable c) modes)"
    by (rule set_take_subset)
  with eq show "set plan \<subseteq> {m \<in> set modes. evictable c m}" by simp
  show "distinct plan" if "distinct modes"
    using that by (subst eq) simp
qed

subsection \<open>The eviction loop\<close>

lemma loaded_modes_del:
  "loaded_modes (c\<lparr>loaded := dict_del m (loaded c)\<rparr>) = filter (\<lambda>x. x \<noteq> m) (loaded_modes c)"
  by (simp add: loaded_modes_def pydict.keys_del)

lemma declared_size_loaded [simp]: "declared_size (c\<lparr>loaded := l\<rparr>) = declared_size c"
  by (simp add: declared_size_def fun_eq_iff)

lemma sum_list_filter_neq:
  fixes f :: "'b \<Rightarrow> rat"
  shows "distinct xs \<Longrightarrow> x \<in> set xs \<Longrightarrow>
    (\<Sum>y\<leftarrow>filter (\<lambda>y. y \<noteq> x) xs. f y) = (\<Sum>y\<leftarrow>xs. f y) - f x"
proof (induction xs)
  case (Cons y ys)
  show ?case
  proof (cases "y = x")
    case True
    with Cons.prems have "filter (\<lambda>y. y \<noteq> x) ys = ys" by (auto simp: filter_id_conv)
    with True show ?thesis by simp
  next
    case False
    with Cons show ?thesis by simp
  qed
qed simp

lemma declared_used_del:
  assumes "distinct (loaded_modes c)" and "m \<in> set (loaded_modes c)"
  shows "declared_used_gb (c\<lparr>loaded := dict_del m (loaded c)\<rparr>) = declared_used_gb c - declared_size c m"
  by (simp add: declared_used_gb_def loaded_modes_del sum_list_filter_neq [OF assms])

lemma planning_ge_declared: "declared_used_gb c \<le> fst (planning_used_gb P c w)"
  by (simp add: planning_used_gb_def split: prod.split)

lemma evict_planned_state:
  "evict_planned P incoming plan ev running c w = (r, c', w') \<Longrightarrow>
     \<exists>n. c' = c\<lparr>loaded := filter (\<lambda>p. fst p \<notin> set (take n plan)) (loaded c)\<rparr>
       \<and> (\<forall>ev'. r = Inr ev' \<longrightarrow> ev' = ev @ take n plan)
       \<and> (\<forall>reason. r \<noteq> Inl (CapacityError reason))"
proof (induction P incoming plan ev running c w rule: evict_planned.induct)
  case (1 P incoming ev running c w)
  then show ?case by auto
next
  case (2 P incoming mode plan ev running c w)
  show ?case
  proof (cases "running + incoming \<le> budget_gb c")
    case True
    with "2.prems" show ?thesis by (intro exI [of _ 0]) auto
  next
    case nofit: False
    show ?thesis
    proof (cases "map_of (loaded c) mode")
      case None
      with "2.prems" nofit show ?thesis by (intro exI [of _ 0]) auto
    next
      case victim: (Some victim)
      show ?thesis
      proof (cases "unloader P victim w")
        case (Pair x w1)
        show ?thesis
        proof (cases x)
          case (Some e)
          with "2.prems" nofit victim Pair show ?thesis by (intro exI [of _ 0]) auto
        next
          case None
          let ?c1 = "c\<lparr>loaded := dict_del mode (loaded c)\<rparr>"
          from None "2.prems" nofit victim Pair
          have rec: "evict_planned P incoming plan (ev @ [mode])
              (min (fst (planning_used_gb P ?c1 w1)) (running - declared_size ?c1 mode)) ?c1 w1 = (r, c', w')"
            by (simp add: Let_def)
          from "2.IH" [OF nofit victim Pair [symmetric] None refl rec] obtain n where
            "c' = ?c1\<lparr>loaded := filter (\<lambda>p. fst p \<notin> set (take n plan)) (loaded ?c1)\<rparr>"
            and "\<forall>ev'. r = Inr ev' \<longrightarrow> ev' = (ev @ [mode]) @ take n plan"
            and "\<forall>reason. r \<noteq> Inl (CapacityError reason)" by auto
          then show ?thesis
            by (intro exI [of _ "Suc n"]) (auto simp: dict_del_def filter_filter conj_commute)
        qed
      qed
    qed
  qed
qed

lemma evict_planned_fits:
  "evict_planned P incoming plan ev running c w = (Inr ev', c', w') \<Longrightarrow>
     distinct (loaded_modes c) \<Longrightarrow> distinct plan \<Longrightarrow> set plan \<subseteq> set (loaded_modes c) \<Longrightarrow>
     declared_used_gb c \<le> running \<Longrightarrow>
     running - (\<Sum>m\<leftarrow>plan. declared_size c m) + incoming \<le> budget_gb c \<Longrightarrow>
     declared_used_gb c' + incoming \<le> budget_gb c"
proof (induction P incoming plan ev running c w arbitrary: ev' c' w' rule: evict_planned.induct)
  case (1 P incoming ev running c w)
  then show ?case by simp
next
  case (2 P incoming mode plan ev running c w)
  show ?case
  proof (cases "running + incoming \<le> budget_gb c")
    case True
    with "2.prems" show ?thesis by simp
  next
    case nofit: False
    with "2.prems"(1) obtain victim w1 where victim: "map_of (loaded c) mode = Some victim"
      and un: "unloader P victim w = (None, w1)"
      by (auto split: option.splits prod.splits)
    let ?c1 = "c\<lparr>loaded := dict_del mode (loaded c)\<rparr>"
    let ?run = "min (fst (planning_used_gb P ?c1 w1)) (running - declared_size ?c1 mode)"
    from "2.prems"(1) nofit victim un
    have rec: "evict_planned P incoming plan (ev @ [mode]) ?run ?c1 w1 = (Inr ev', c', w')"
      by (simp add: Let_def)
    have mem: "mode \<in> set (loaded_modes c)" using "2.prems"(4) by simp
    have du: "declared_used_gb ?c1 = declared_used_gb c - declared_size c mode"
      by (rule declared_used_del) (use "2.prems"(2) mem in auto)
    have "declared_used_gb ?c1 \<le> ?run"
      using planning_ge_declared [of ?c1 P w1] "2.prems"(5) du by simp
    moreover have "?run - (\<Sum>m\<leftarrow>plan. declared_size ?c1 m) + incoming \<le> budget_gb ?c1"
      using "2.prems"(6) by (simp add: min_def algebra_simps split: if_splits)
    moreover have "set plan \<subseteq> set (loaded_modes ?c1)"
      using "2.prems"(3,4) by (auto simp: loaded_modes_del)
    moreover have "distinct (loaded_modes ?c1)" using "2.prems"(2) by (simp add: loaded_modes_del)
    ultimately show ?thesis
      using "2.IH" [OF nofit victim un [symmetric] refl refl rec] "2.prems"(3) by simp
  qed
qed

text \<open>
  What \<open>evict_to_fit\<close> does on every outcome: it removes a prefix of the evictable modes, in the
  order of the dictionary, and nothing else; a capacity error removes none; and when it
  returns, the declared sizes leave room for the incoming model.
\<close>

lemma evict_to_fit_state:
  assumes ev: "evict_to_fit P incoming c w = (r, c', w')"
  shows "\<exists>n. let vs = take n (filter (evictable c) (loaded_modes c)) in
     c' = c\<lparr>loaded := filter (\<lambda>p. fst p \<notin> set vs) (loaded c)\<rparr>
     \<and> (\<forall>ev'. r = Inr ev' \<longrightarrow> ev' = vs)
     \<and> (\<forall>reason. r = Inl (CapacityError reason) \<longrightarrow> c' = c \<and> w' = w)"
proof -
  let ?run = "fst (planning_used_gb P c w)"
  obtain plan projected where plan: "build_plan c incoming (loaded_modes c) ?run = (plan, projected)"
    by fastforce
  show ?thesis
  proof (cases "projected + incoming > budget_gb c")
    case True
    with ev plan show ?thesis
      by (intro exI [of _ 0]) (auto simp: evict_to_fit_def build_eviction_plan_def Let_def)
  next
    case False
    with ev plan have loop: "evict_planned P incoming plan [] ?run c w = (r, c', w')"
      by (simp add: evict_to_fit_def build_eviction_plan_def Let_def)
    from evict_planned_state [OF this] obtain n where
      st: "c' = c\<lparr>loaded := filter (\<lambda>p. fst p \<notin> set (take n plan)) (loaded c)\<rparr>"
      and res: "\<forall>ev'. r = Inr ev' \<longrightarrow> ev' = [] @ take n plan"
      and nocap: "\<forall>reason. r \<noteq> Inl (CapacityError reason)" by auto
    have "plan = take (length plan) (filter (evictable c) (loaded_modes c))"
      using build_plan_spec [OF plan] by simp
    then have "take n plan = take (min n (length plan)) (filter (evictable c) (loaded_modes c))"
      by (metis take_take)
    with st res nocap show ?thesis
      unfolding Let_def by (intro exI [of _ "min n (length plan)"]) auto
  qed
qed

lemma evict_to_fit_fits:
  assumes ev: "evict_to_fit P incoming c w = (Inr evicted, c', w')" and ok: "loaded_ok c"
  shows "declared_used_gb c' + incoming \<le> budget_gb c"
proof -
  let ?run = "fst (planning_used_gb P c w)"
  obtain plan projected where plan: "build_plan c incoming (loaded_modes c) ?run = (plan, projected)"
    by fastforce
  with ev have fit: "projected + incoming \<le> budget_gb c"
    and loop: "evict_planned P incoming plan [] ?run c w = (Inr evicted, c', w')"
    by (auto simp: evict_to_fit_def build_eviction_plan_def Let_def split: if_splits)
  from build_plan_spec [OF plan]
  have "projected = ?run - (\<Sum>m\<leftarrow>plan. declared_size c m)" by simp
  with fit show ?thesis
    using evict_planned_fits [OF loop] ok build_plan_subset [OF plan]
      planning_ge_declared [of c P w] by (auto simp: loaded_ok_def)
qed

subsection \<open>Every call keeps the invariant\<close>

lemma loaded_modes_filter:
  "loaded_modes (c\<lparr>loaded := filter (\<lambda>p. fst p \<notin> S) (loaded c)\<rparr>)
     = filter (\<lambda>m. m \<notin> S) (loaded_modes c)"
  by (simp add: loaded_modes_def dict_keys_def filter_map o_def)

lemma map_of_filter_keys:
  "map_of (filter (\<lambda>p. fst p \<notin> S) d) k = (if k \<in> S then None else map_of d k)"
  by (induction d) auto

lemma declared_used_filter_le:
  assumes "sizes_ok c"
  shows "(\<Sum>m\<leftarrow>filter Q xs. declared_size c m) \<le> (\<Sum>m\<leftarrow>xs. declared_size c m)"
proof -
  have "0 \<le> declared_size c m" for m
    using assms by (auto simp: sizes_ok_def declared_size_def ran_def split: option.split)
  then show ?thesis by (induction xs) (auto intro: add_mono add_increasing)
qed

lemma in_use_not_evictable: "uses_ok c \<Longrightarrow> m \<in> dom (in_use c) \<Longrightarrow> \<not> evictable c m"
  by (auto simp: uses_ok_def evictable_def in_use_count_def ran_def)

lemma cache_inv_drop:
  assumes inv: "loaded_ok c" "uses_ok c" and free: "\<forall>m \<in> S. m \<notin> dom (in_use c)"
  shows "loaded_ok (c\<lparr>loaded := filter (\<lambda>p. fst p \<notin> S) (loaded c)\<rparr>)"
    and "uses_ok (c\<lparr>loaded := filter (\<lambda>p. fst p \<notin> S) (loaded c)\<rparr>)"
  using assms by (auto simp: loaded_ok_def uses_ok_def loaded_modes_filter)

lemma declared_used_drop:
  assumes "sizes_ok c"
  shows "declared_used_gb (c\<lparr>loaded := filter (\<lambda>p. fst p \<notin> S) (loaded c)\<rparr>) \<le> declared_used_gb c"
  unfolding declared_used_gb_def loaded_modes_filter
  by (simp add: declared_used_filter_le [OF assms])

text \<open>
  A load that had to start the model: the survivors are the loaded modes without an initial
  stretch of the evictable ones, and on success the new model is entered behind them.
\<close>

definition survivors :: "'h model_cache \<Rightarrow> nat \<Rightarrow> (string, 'h loaded_model) dict" where
  "survivors c n =
     filter (\<lambda>p. fst p \<notin> set (take n (filter (evictable c) (loaded_modes c)))) (loaded c)"

lemma load_missing_state:
  assumes "load_missing P mode target_size c w = (r, c', w')"
  shows "\<exists>n. (case r of
       Inr res \<Rightarrow> (\<exists>model. c' = clear_loading (c\<lparr>loaded := dict_set mode model (survivors c n)\<rparr>))
         \<and> lr_loaded res = loaded_modes c'
         \<and> lr_evicted res = take n (filter (evictable c) (loaded_modes c))
     | Inl e \<Rightarrow> c' = clear_loading (c\<lparr>loaded := survivors c n\<rparr>)
         \<and> (\<forall>reason. e = CapacityError reason \<longrightarrow> c' = clear_loading c \<and> w' = w))"
proof -
  obtain r1 c1 w1 where fit: "evict_to_fit P target_size c w = (r1, c1, w1)"
    by (metis prod_cases3)
  from evict_to_fit_state [OF this] obtain n where
    c1: "c1 = c\<lparr>loaded := survivors c n\<rparr>"
    and res: "\<forall>ev'. r1 = Inr ev' \<longrightarrow> ev' = take n (filter (evictable c) (loaded_modes c))"
    and cap: "\<forall>reason. r1 = Inl (CapacityError reason) \<longrightarrow> c1 = c \<and> w1 = w"
    unfolding Let_def survivors_def by blast
  show ?thesis
  proof (cases r1)
    case (Inl e)
    with assms fit c1 cap show ?thesis
      by (intro exI [of _ n]) (auto simp: load_missing_def)
  next
    case (Inr evicted)
    with assms fit c1 res show ?thesis
      by (intro exI [of _ n])
        (auto simp: load_missing_def Let_def loaded_modes_def clear_loading_def
          split: prod.splits sum.splits)
  qed
qed

lemma clear_loading_sel [simp]:
  "loaded (clear_loading c) = loaded c" "in_use (clear_loading c) = in_use c"
  "pinned (clear_loading c) = pinned c" "sizes (clear_loading c) = sizes c"
  "budget_gb (clear_loading c) = budget_gb c"
  by (simp_all add: clear_loading_def)

lemma mark_loading_sel [simp]:
  "loaded (mark_loading m t c) = loaded c" "in_use (mark_loading m t c) = in_use c"
  "pinned (mark_loading m t c) = pinned c" "sizes (mark_loading m t c) = sizes c"
  "budget_gb (mark_loading m t c) = budget_gb c"
  by (simp_all add: mark_loading_def)

lemma mark_loading_read [simp]:
  "evictable (mark_loading m t c) = evictable c"
  "loaded_modes (mark_loading m t c) = loaded_modes c"
  "declared_size (mark_loading m t c) = declared_size c"
  "survivors (mark_loading m t c) n = survivors c n"
proof -
  show ev: "evictable (mark_loading m t c) = evictable c"
    and lm: "loaded_modes (mark_loading m t c) = loaded_modes c"
    and "declared_size (mark_loading m t c) = declared_size c"
    by (simp_all add: evictable_def in_use_count_def loaded_modes_def declared_size_def fun_eq_iff)
  then show "survivors (mark_loading m t c) n = survivors c n"
    by (simp add: survivors_def ev lm)
qed

lemma unmark_loading [simp]:
  "idle c \<Longrightarrow> clear_loading ((mark_loading m t c)\<lparr>loaded := l\<rparr>) = c\<lparr>loaded := l\<rparr>"
  "idle c \<Longrightarrow> clear_loading (mark_loading m t c) = c"
  by (simp_all add: clear_loading_def mark_loading_def idle_def)

lemma cache_preds_cong:
  assumes "loaded c' = loaded c" "in_use c' = in_use c" "sizes c' = sizes c" "budget_gb c' = budget_gb c"
  shows "loaded_ok c' = loaded_ok c" "uses_ok c' = uses_ok c" "sizes_ok c' = sizes_ok c"
    "declared_used_gb c' = declared_used_gb c"
  using assms
  by (simp_all add: loaded_ok_def uses_ok_def sizes_ok_def declared_used_gb_def loaded_modes_def
      declared_size_def)

lemma idle_clear_loading [simp]: "idle (clear_loading c)"
  by (simp add: idle_def clear_loading_def)

lemma clear_loading_idle: "idle c \<Longrightarrow> clear_loading c = c"
  by (simp add: idle_def clear_loading_def)

lemma survivors_ok:
  assumes "loaded_ok c" "uses_ok c" "sizes_ok c"
  shows "loaded_ok (c\<lparr>loaded := survivors c n\<rparr>)" "uses_ok (c\<lparr>loaded := survivors c n\<rparr>)"
    "declared_used_gb (c\<lparr>loaded := survivors c n\<rparr>) \<le> declared_used_gb c"
proof -
  have "m \<notin> dom (in_use c)" if "m \<in> set (take n (filter (evictable c) (loaded_modes c)))" for m
  proof
    assume "m \<in> dom (in_use c)"
    with assms(2) have "\<not> evictable c m" by (rule in_use_not_evictable)
    with that show False by (auto dest!: in_set_takeD)
  qed
  then show "loaded_ok (c\<lparr>loaded := survivors c n\<rparr>)" "uses_ok (c\<lparr>loaded := survivors c n\<rparr>)"
    unfolding survivors_def by (auto intro!: cache_inv_drop assms)
  show "declared_used_gb (c\<lparr>loaded := survivors c n\<rparr>) \<le> declared_used_gb c"
    unfolding survivors_def by (rule declared_used_drop [OF assms(3)])
qed

lemma declared_used_new:
  assumes "mode \<notin> set (loaded_modes c)"
  shows "declared_used_gb (c\<lparr>loaded := dict_set mode model (loaded c)\<rparr>)
    = declared_used_gb c + declared_size c mode"
proof -
  have "mode \<notin> set (dict_keys (loaded c))" using assms by (simp add: loaded_modes_def)
  then show ?thesis by (simp add: declared_used_gb_def loaded_modes_def pydict.keys_put)
qed

lemma load_missing_inv:
  assumes run: "load_missing P mode target_size c w = (r, c', w')"
    and ok: "sizes_ok c" "loaded_ok c" "uses_ok c" "declared_used_gb c \<le> budget_gb c"
    and new: "sizes c mode = Some target_size" "mode \<notin> set (loaded_modes c)"
  shows "cache_inv c'"
proof -
  from load_missing_state [OF run] obtain n where st: "(case r of
       Inr res \<Rightarrow> (\<exists>model. c' = clear_loading (c\<lparr>loaded := dict_set mode model (survivors c n)\<rparr>))
         \<and> lr_loaded res = loaded_modes c'
         \<and> lr_evicted res = take n (filter (evictable c) (loaded_modes c))
     | Inl e \<Rightarrow> c' = clear_loading (c\<lparr>loaded := survivors c n\<rparr>)
         \<and> (\<forall>reason. e = CapacityError reason \<longrightarrow> c' = clear_loading c \<and> w' = w))" by blast
  let ?c1 = "c\<lparr>loaded := survivors c n\<rparr>"
  note surv = survivors_ok [OF ok(2,3,1), of n]
  show ?thesis
  proof (cases r)
    case (Inl e)
    with st have c': "c' = clear_loading ?c1" by simp
    have "declared_used_gb ?c1 \<le> budget_gb c" using surv(3) ok(4) by simp
    moreover have "sizes_ok ?c1" using ok(1) by (simp add: sizes_ok_def)
    ultimately show ?thesis
      using surv(1,2) cache_preds_cong [of c' ?c1] by (simp add: cache_inv_def c')
  next
    case (Inr res)
    with run obtain evicted c2 w2 where "evict_to_fit P target_size c w = (Inr evicted, c2, w2)"
      and c': "\<exists>model. c' = clear_loading (c2\<lparr>loaded := dict_set mode model (loaded c2)\<rparr>)"
      by (auto simp: load_missing_def Let_def split: prod.splits sum.splits)
    note fit = evict_to_fit_fits [OF this(1) ok(2)] evict_to_fit_state [OF this(1)]
    from fit(2) obtain k where c2: "c2 = c\<lparr>loaded := survivors c k\<rparr>"
      unfolding Let_def survivors_def by blast
    note surv = survivors_ok [OF ok(2,3,1), of k, folded c2]
    have notin: "mode \<notin> set (loaded_modes c2)"
      using new(2) by (auto simp: c2 survivors_def loaded_modes_filter)
    from c' obtain model where cc: "c' = clear_loading (c2\<lparr>loaded := dict_set mode model (loaded c2)\<rparr>)"
      by blast
    let ?c3 = "c2\<lparr>loaded := dict_set mode model (loaded c2)\<rparr>"
    have "declared_used_gb ?c3 = declared_used_gb c2 + declared_size c2 mode"
      by (rule declared_used_new [OF notin])
    moreover have "declared_size c2 mode = target_size"
      using new(1) by (simp add: c2 declared_size_def)
    ultimately have "declared_used_gb ?c3 \<le> budget_gb c" using fit(1) by simp
    moreover have "loaded_ok ?c3" using surv(1) new(1)
      by (auto simp: loaded_ok_def loaded_modes_def pydict.keys_put c2)
    moreover have "uses_ok ?c3" using surv(2)
      by (auto simp: uses_ok_def loaded_modes_def pydict.keys_put)
    moreover have "sizes_ok ?c3" using ok(1) by (simp add: sizes_ok_def c2)
    ultimately show ?thesis
      using cache_preds_cong [of c' ?c3] by (simp add: cache_inv_def cc c2)
  qed
qed

lemma cache_inv_move_to_end:
  assumes "cache_inv c"
  shows "cache_inv (c\<lparr>loaded := dict_move_to_end mode (loaded c)\<rparr>)"
proof -
  have keys: "set (dict_keys (dict_move_to_end mode (loaded c))) = set (loaded_modes c)"
    by (simp add: dict_simps loaded_modes_def)
  have dist: "distinct (dict_keys (dict_move_to_end mode (loaded c)))"
    using assms by (auto simp: cache_inv_defs loaded_modes_def intro: dict_move_to_end_distinct)
  have "declared_used_gb (c\<lparr>loaded := dict_move_to_end mode (loaded c)\<rparr>) = declared_used_gb c"
  proof -
    have "distinct (loaded_modes c)" using assms by (simp add: cache_inv_defs)
    with keys dist show ?thesis
      by (simp add: declared_used_gb_def loaded_modes_def sum_list_distinct_conv_sum_set)
  qed
  with assms keys dist show ?thesis
    by (simp add: cache_inv_defs) (simp add: loaded_modes_def)
qed

lemma load_inv:
  assumes inv: "cache_inv c"
  shows "cache_inv (fst (snd (load P mode c w)))"
proof (cases "sizes c mode")
  case None
  with inv show ?thesis by (simp add: load_def)
next
  case (Some target_size)
  let ?c1 = "mark_loading mode (utcnow P w) c"
  show ?thesis
  proof (cases "map_of (loaded c) mode \<noteq> None \<or> target_size > budget_gb c")
    case True
    with Some inv show ?thesis
      by (auto simp: load_def Let_def intro: cache_inv_move_to_end)
  next
    case False
    obtain r c' w' where run: "load_missing P mode target_size ?c1 w = (r, c', w')"
      by (metis prod_cases3)
    have new: "mode \<notin> set (loaded_modes c)"
      using False by (simp add: loaded_modes_def set_dict_keys domIff)
    from inv cache_preds_cong [of ?c1 c]
    have "sizes_ok ?c1" "loaded_ok ?c1" "uses_ok ?c1" "declared_used_gb ?c1 \<le> budget_gb ?c1"
      by (auto simp: cache_inv_def)
    from load_missing_inv [OF run this] Some new have "cache_inv c'" by simp
    moreover have "load P mode c w = (r, c', w')"
      using False Some run by (simp add: load_def)
    ultimately show ?thesis by simp
  qed
qed

lemma cache_inv_del:
  assumes inv: "cache_inv c" and free: "mode \<notin> dom (in_use c)"
  shows "cache_inv (c\<lparr>loaded := dict_del mode (loaded c)\<rparr>)"
proof -
  have eq: "dict_del mode (loaded c) = filter (\<lambda>p. fst p \<notin> {mode}) (loaded c)"
    by (simp add: dict_del_def)
  have "loaded_ok (c\<lparr>loaded := dict_del mode (loaded c)\<rparr>)"
    "uses_ok (c\<lparr>loaded := dict_del mode (loaded c)\<rparr>)"
    using cache_inv_drop [of c "{mode}"] inv free unfolding eq cache_inv_def by blast+
  moreover have "declared_used_gb (c\<lparr>loaded := dict_del mode (loaded c)\<rparr>) \<le> budget_gb c"
    using declared_used_drop [of c "{mode}"] inv unfolding eq by (auto simp: cache_inv_def)
  ultimately show ?thesis using inv by (simp add: cache_inv_def sizes_ok_def idle_def)
qed

lemma cache_inv_pinned [simp]: "cache_inv (c\<lparr>pinned := X\<rparr>) = cache_inv c"
  by (simp add: cache_inv_def idle_def cache_preds_cong [of "c\<lparr>pinned := X\<rparr>" c])

lemma not_in_use_dom: "uses_ok c \<Longrightarrow> \<not> 0 < in_use_count mode c \<Longrightarrow> mode \<notin> dom (in_use c)"
  by (auto simp: uses_ok_def in_use_count_def ran_def)

lemma evict_inv: "cache_inv c \<Longrightarrow> cache_inv (fst (snd (evict P mode c w)))"
proof -
  assume inv: "cache_inv c"
  show ?thesis
  proof (cases "0 < in_use_count mode c")
    case True
    with inv show ?thesis by (simp add: evict_def split: option.split)
  next
    case False
    with inv have "mode \<notin> dom (in_use c)" by (auto simp: cache_inv_def not_in_use_dom)
    from cache_inv_del [OF inv this]
    have "cache_inv (c\<lparr>loaded := dict_del mode (loaded c), pinned := pinned c - {mode}\<rparr>)" by simp
    with inv False show ?thesis
      by (auto simp: evict_def split: option.split prod.split)
  qed
qed

lemma evict_all_inv: "cache_inv c \<Longrightarrow> cache_inv (fst (snd (evict_all P c w)))"
  by (auto simp: evict_all_def cache_inv_defs loaded_modes_def dict_keys_def declared_used_gb_def
      split: option.split prod.split)

lemma pin_inv: "cache_inv c \<Longrightarrow> cache_inv (snd (pin mode c))"
  by (simp add: pin_def)

lemma acquire_inv: "cache_inv c \<Longrightarrow> cache_inv (snd (acquire_for_use mode c))"
proof (cases "map_of (loaded c) mode")
  case (Some model)
  assume inv: "cache_inv c"
  let ?c1 = "c\<lparr>loaded := dict_move_to_end mode (loaded c)\<rparr>"
  from cache_inv_move_to_end [OF inv] have inv1: "cache_inv ?c1" .
  have "mode \<in> set (loaded_modes ?c1)"
    using Some by (simp add: loaded_modes_def dict_simps set_dict_keys domIff)
  moreover have "0 \<le> in_use_count mode c"
    using inv by (auto simp: cache_inv_defs in_use_count_def ran_def split: option.split intro: less_imp_le)
  ultimately show ?thesis
    using inv1 Some cache_preds_cong(1,3,4) [of "?c1\<lparr>in_use := u\<rparr>" ?c1 for u]
    by (auto simp: acquire_for_use_def cache_inv_def uses_ok_def idle_def ran_def
        loaded_ok_def sizes_ok_def declared_used_gb_def loaded_modes_def declared_size_def)
qed (simp add: acquire_for_use_def)

lemma release_inv: "cache_inv c \<Longrightarrow> cache_inv (release mode c)"
  by (auto simp: release_def cache_inv_defs ran_def declared_used_gb_def loaded_modes_def
      declared_size_def split: option.split)

lemma cache_inv_less_use:
  assumes "cache_inv c" "in_use c mode = Some n" "1 < n"
  shows "cache_inv (c\<lparr>in_use := (in_use c)(mode \<mapsto> n - 1)\<rparr>)"
  using assms by (auto simp: cache_inv_defs ran_def declared_used_gb_def loaded_modes_def
      declared_size_def)

lemma cache_inv_no_use:
  assumes "cache_inv c"
  shows "cache_inv (c\<lparr>in_use := (in_use c)(mode := None)\<rparr>)"
  using assms by (auto simp: cache_inv_defs ran_def declared_used_gb_def loaded_modes_def
      declared_size_def)

lemma release_and_stop_inv:
  assumes inv: "cache_inv c"
  shows "cache_inv (fst (snd (release_and_stop P mode c w)))"
proof (cases "in_use c mode")
  case None
  with inv show ?thesis by (simp add: release_and_stop_def)
next
  case (Some n)
  let ?c1 = "c\<lparr>in_use := (in_use c)(mode := None)\<rparr>"
  have "cache_inv (?c1\<lparr>loaded := dict_del mode (loaded ?c1)\<rparr>)"
    by (rule cache_inv_del [OF cache_inv_no_use [OF inv]]) auto
  with Some show ?thesis
    using cache_inv_less_use [OF inv Some] cache_inv_no_use [OF inv, of mode]
    by (auto simp: release_and_stop_def Let_def split: option.split prod.split)
qed

lemma set_loading_log_line_inv: "cache_inv c \<Longrightarrow> cache_inv (set_loading_log_line line c)"
  by (auto simp: set_loading_log_line_def cache_inv_def idle_def)

lemma cache_step_inv: "cache_inv (fst s) \<Longrightarrow> cache_inv (fst (cache_step P s x))"
  by (cases s; cases x)
    (auto simp: load_inv evict_inv evict_all_inv pin_inv unpin_def acquire_inv release_inv
      release_and_stop_inv set_loading_log_line_inv)

interpretation cache_machine: invariant_machine "cache_step P" "\<lambda>s. cache_inv (fst s)" "\<lambda>_. True" for P
  by unfold_locales (rule cache_step_inv)

lemma init_cache_inv:
  "0 \<le> budget \<Longrightarrow> \<forall>s \<in> ran model_sizes. 0 \<le> s \<Longrightarrow> cache_inv (init_cache budget model_sizes)"
  by (auto simp: cache_inv_defs init_cache_def loaded_modes_def dict_keys_def declared_used_gb_def)

subsection \<open>What a load may and may not do\<close>

text \<open>The four ways \<open>load\<close> can go, on a cache that is between calls.\<close>

lemma load_cases:
  assumes run: "load P mode c w = (r, c', w')" and inv: "cache_inv c"
  obtains
    (unknown) "sizes c mode = None" "r = Inl (UnknownModeError mode)" "c' = c" "w' = w"
  | (present) "sizes c mode \<noteq> None" "mode \<in> set (loaded_modes c)" "w' = w"
      "c' = c\<lparr>loaded := dict_move_to_end mode (loaded c)\<rparr>"
      "r = Inr \<lparr>lr_loaded = loaded_modes c', lr_evicted = []\<rparr>"
  | (failed) n e where "mode \<notin> set (loaded_modes c)" "r = Inl e"
      "c' = c\<lparr>loaded := survivors c n\<rparr>"
      "\<forall>reason. e = CapacityError reason \<longrightarrow> c' = c \<and> w' = w"
  | (started) n model where "mode \<notin> set (loaded_modes c)" "sizes c mode \<noteq> None"
      "c' = c\<lparr>loaded := dict_set mode model (survivors c n)\<rparr>"
      "r = Inr \<lparr>lr_loaded = loaded_modes c',
          lr_evicted = take n (filter (evictable c) (loaded_modes c))\<rparr>"
proof (cases "sizes c mode")
  case None
  with run have "r = Inl (UnknownModeError mode)" "c' = c" "w' = w" by (simp_all add: load_def)
  with None show ?thesis by (rule unknown)
next
  case (Some target_size)
  let ?c1 = "mark_loading mode (utcnow P w) c"
  have idle: "idle c" using inv by (simp add: cache_inv_def)
  show ?thesis
  proof (cases "map_of (loaded c) mode")
    case (Some model)
    then have mem: "mode \<in> set (loaded_modes c)" by (auto simp: loaded_modes_def set_dict_keys)
    from Some run \<open>sizes c mode = Some target_size\<close>
    have "c' = c\<lparr>loaded := dict_move_to_end mode (loaded c)\<rparr>" "w' = w"
      "r = Inr \<lparr>lr_loaded = loaded_modes c', lr_evicted = []\<rparr>"
      by (auto simp: load_def Let_def)
    then show ?thesis by (intro present) (simp_all add: mem \<open>sizes c mode = Some target_size\<close>)
  next
    case None
    then have new: "mode \<notin> set (loaded_modes c)" by (simp add: loaded_modes_def set_dict_keys domIff)
    show ?thesis
    proof (cases "target_size > budget_gb c")
      case True
      with None Some run
      have "r = Inl (CapacityError (TooLarge target_size (budget_gb c)))" "c' = c" "w' = w"
        by (auto simp: load_def)
      moreover have "survivors c 0 = loaded c" by (simp add: survivors_def)
      ultimately show ?thesis by (intro failed [of _ 0]) (simp_all add: new)
    next
      case False
      with None Some run have lm: "load_missing P mode target_size ?c1 w = (r, c', w')"
        by (simp add: load_def)
      from load_missing_state [OF lm, unfolded mark_loading_read unmark_loading [OF idle]] obtain n where st: "(case r of
           Inr res \<Rightarrow> (\<exists>model. c' = c\<lparr>loaded := dict_set mode model (survivors c n)\<rparr>)
             \<and> lr_loaded res = loaded_modes c'
             \<and> lr_evicted res = take n (filter (evictable c) (loaded_modes c))
         | Inl e \<Rightarrow> c' = c\<lparr>loaded := survivors c n\<rparr>
             \<and> (\<forall>reason. e = CapacityError reason \<longrightarrow> c' = c \<and> w' = w))" by blast
      show ?thesis
      proof (cases r)
        case (Inl e)
        with st new show ?thesis by (intro failed [of e n]) auto
      next
        case (Inr res)
        with st obtain model where "c' = c\<lparr>loaded := dict_set mode model (survivors c n)\<rparr>" by auto
        with Inr st new Some show ?thesis by (intro started [of model n]) auto
      qed
    qed
  qed
qed

lemma survivors_get:
  "\<not> evictable c m \<Longrightarrow> map_of (survivors c n) m = map_of (loaded c) m"
  by (auto simp: survivors_def map_of_filter_keys dest!: in_set_takeD)

text \<open>C1: A load never disturbs a protected model.  Whatever the outcome of \<open>load\<close> (a result,
  a capacity error, an unloader or loader that raises half way), every model that was loaded and
  is pinned or in use is still loaded afterwards, with the same handle.\<close>

theorem load_spares_protected:
  assumes "load P mode c w = (r, c', w')" and "cache_inv c"
    and "map_of (loaded c) m = Some model" and "m \<in> pinned c \<or> 0 < in_use_count m c"
  shows "map_of (loaded c') m = Some model"
proof -
  have "\<not> evictable c m" using assms(4) by (auto simp: evictable_def)
  moreover have "m \<in> set (loaded_modes c)" using assms(3) by (auto simp: loaded_modes_def set_dict_keys)
  ultimately show ?thesis using assms(3)
    by (cases rule: load_cases [OF assms(1,2)]) (auto simp: dict_simps survivors_get)
qed

text \<open>
  The uses that callers hold, from their own calls and the answers they got: an \<open>acquire_for_use\<close> that
  returned a model opens one, a release closes one.  \<open>evict_all\<close> is the call of the shutdown.
\<close>

fun note_use :: "('h, 'w, 'x) ports \<Rightarrow> 'h model_cache \<times> 'w \<Rightarrow> cache_op \<Rightarrow> (string \<Rightarrow> nat) \<Rightarrow> string \<Rightarrow> nat" where
  "note_use P (c, w) (AcquireForUse m) u = (if fst (acquire_for_use m c) \<noteq> None then u(m := Suc (u m)) else u)"
| "note_use P (c, w) (Release m) u = u(m := u m - 1)"
| "note_use P (c, w) (ReleaseAndStop m) u = u(m := u m - 1)"
| "note_use P (c, w) x u = u"

fun open_uses :: "('h, 'w, 'x) ports \<Rightarrow> 'h model_cache \<times> 'w \<Rightarrow> cache_op list \<Rightarrow> (string \<Rightarrow> nat) \<Rightarrow> string \<Rightarrow> nat" where
  "open_uses P s [] u = u"
| "open_uses P s (x # xs) u = open_uses P (cache_step P s x) xs (note_use P s x u)"

definition uses_counted :: "(string \<Rightarrow> nat) \<Rightarrow> 'h model_cache \<Rightarrow> bool" where
  "uses_counted u c \<longleftrightarrow> (\<forall>m. in_use_count m c = int (u m))"

lemma load_uses: "cache_inv c \<Longrightarrow> in_use (fst (snd (load P mode c w))) = in_use c"
proof -
  assume inv: "cache_inv c"
  obtain r c' w' where run: "load P mode c w = (r, c', w')" by (metis prod_cases3)
  show ?thesis by (cases rule: load_cases [OF run inv]) (simp_all add: run)
qed

lemma counted_change:
  assumes "uses_counted u c" and "\<And>k. in_use_count k c' = (if k = m then int n else in_use_count k c)"
  shows "uses_counted (u(m := n)) c'"
  using assms by (simp add: uses_counted_def)

lemma counted_same: "uses_counted u c \<Longrightarrow> in_use c' = in_use c \<Longrightarrow> uses_counted u c'"
  by (simp add: uses_counted_def in_use_count_def)

lemma released_count:
  assumes "cache_inv c" and "uses_counted u c" and "in_use c m = Some n"
  shows "n = int (u m)" and "0 < u m"
proof -
  show n: "n = int (u m)"
    using assms(2) [unfolded uses_counted_def, rule_format, of m] assms(3) by (simp add: in_use_count_def)
  have "0 < n" using assms(1,3) by (auto simp: cache_inv_defs intro: ranI)
  then show "0 < u m" using n by simp
qed

lemma uses_counted_step:
  assumes inv: "cache_inv c" and counted: "uses_counted u c" and "x \<noteq> EvictAll"
  shows "uses_counted (note_use P (c, w) x u) (fst (cache_step P (c, w) x))"
proof -
  have counted_at: "in_use_count m c = int (u m)" for m using counted by (simp add: uses_counted_def)
  show ?thesis
  proof (cases x)
    case (AcquireForUse m)
    have "uses_counted (u(m := Suc (u m)))
        (c\<lparr>loaded := dict_move_to_end m (loaded c), in_use := (in_use c)(m \<mapsto> in_use_count m c + 1)\<rparr>)"
      using counted by (intro counted_change [OF counted]) (simp add: in_use_count_def uses_counted_def)
    then show ?thesis using counted by (simp add: AcquireForUse acquire_for_use_def split: option.split)
  next
    case (Release m)
    have "uses_counted (u(m := u m - 1)) (release m c)"
      using released_count [OF inv counted, of m] counted_at [of m]
      by (intro counted_change [OF counted]) (auto simp: release_def in_use_count_def split: option.splits)
    then show ?thesis by (simp add: Release)
  next
    case (ReleaseAndStop m)
    have "uses_counted (u(m := u m - 1)) (fst (snd (release_and_stop P m c w)))"
      using released_count [OF inv counted, of m] counted_at [of m]
      by (intro counted_change [OF counted])
        (auto simp: release_and_stop_def Let_def in_use_count_def split: option.splits prod.splits)
    then show ?thesis by (simp add: ReleaseAndStop)
  qed (use assms in \<open>auto simp: load_uses evict_def pin_def unpin_def set_loading_log_line_def
      intro!: counted_same [OF counted] split: option.split prod.split\<close>)
qed

lemma counted_run:
  "cache_inv c \<Longrightarrow> uses_counted u c \<Longrightarrow> EvictAll \<notin> set ops \<Longrightarrow>
     uses_counted (open_uses P (c, w) ops u) (fst (foldl (cache_step P) (c, w) ops))"
proof (induction ops arbitrary: c w u)
  case (Cons x ops)
  obtain c' w' where step: "cache_step P (c, w) x = (c', w')" by fastforce
  have "cache_inv c'" using cache_step_inv [of "(c, w)" P x] Cons.prems(1) step by simp
  moreover have "uses_counted (note_use P (c, w) x u) c'"
    using uses_counted_step [OF Cons.prems(1,2), of x P w] Cons.prems(3) step by auto
  ultimately show ?case using Cons.IH [of c'] Cons.prems(3) by (simp add: step)
qed simp

text \<open>C2: After any sequence of calls on a fresh cache, in any order and with any callback
  raising at any point, the declared sizes of the loaded models fit the VRAM budget and no load is left
  marked as running.  Until the shutdown's \<open>evict_all\<close>, which drops every model, used or not, the cache counts
  for each mode exactly the uses its callers hold, and a mode with a use that is not released is loaded.\<close>

theorem cache_run_within_budget:
  assumes "0 \<le> budget" and "\<forall>s \<in> ran model_sizes. 0 \<le> s"
  shows "let s0 = (init_cache budget model_sizes, w); c = fst (foldl (cache_step P) s0 ops) in
     declared_used_gb c \<le> budget_gb c \<and> distinct (loaded_modes c) \<and> target_loading c = None
     \<and> (EvictAll \<notin> set ops \<longrightarrow> (\<forall>m. in_use_count m c = int (open_uses P s0 ops (\<lambda>_. 0) m)
          \<and> (0 < open_uses P s0 ops (\<lambda>_. 0) m \<longrightarrow> m \<in> set (loaded_modes c))))"
proof -
  let ?s = "foldl (cache_step P) (init_cache budget model_sizes, w) ops"
  have inv: "cache_inv (fst ?s)"
    by (rule cache_machine.run_inv) (simp_all add: init_cache_inv assms list_all_iff)
  have "uses_counted (open_uses P (init_cache budget model_sizes, w) ops (\<lambda>_. 0)) (fst ?s)" if "EvictAll \<notin> set ops"
  proof (rule counted_run [OF init_cache_inv [OF assms] _ that])
    show "uses_counted (\<lambda>_. 0) (init_cache budget model_sizes)"
      by (simp add: uses_counted_def init_cache_def in_use_count_def)
  qed
  moreover have "0 < in_use_count m (fst ?s) \<Longrightarrow> m \<in> set (loaded_modes (fst ?s))" for m
    using inv by (auto simp: cache_inv_defs in_use_count_def split: option.splits)
  ultimately show ?thesis
    using inv by (auto simp: cache_inv_defs Let_def uses_counted_def)
qed

text \<open>A load that succeeds leaves the requested mode as the most recently used one, reports
  exactly the loaded modes, and evicted the oldest evictable modes in order: the modes it
  reports as evicted are an initial stretch of the evictable ones and are the only ones gone.\<close>

theorem load_result_lru:
  assumes "load P mode c w = (Inr res, c', w')" and "cache_inv c"
  shows "lr_loaded res = loaded_modes c'
    \<and> loaded_modes c' =
      filter (\<lambda>m. m \<noteq> mode \<and> m \<notin> set (lr_evicted res)) (loaded_modes c) @ [mode]
    \<and> (\<exists>n. lr_evicted res = take n (filter (evictable c) (loaded_modes c)))"
  using assms
proof (cases rule: load_cases)
  case present
  then show ?thesis
    by (auto simp: loaded_modes_def dict_move_to_end_keys intro: exI [of _ 0])
next
  case (started n model)
  have "dict_keys (survivors c n)
      = filter (\<lambda>m. m \<notin> set (take n (filter (evictable c) (loaded_modes c)))) (loaded_modes c)"
    by (simp add: survivors_def dict_keys_def loaded_modes_def filter_map o_def)
  moreover have "filter (\<lambda>m. m \<noteq> mode \<and> Q m) (loaded_modes c) = filter Q (loaded_modes c)" for Q
    using started(1) by (auto intro!: filter_cong)
  ultimately show ?thesis
    using started by (auto simp: loaded_modes_def pydict.keys_put)
qed simp_all

text \<open>A load refused for capacity has no effect: when \<open>load\<close> raises \<open>CapacityError\<close> no model
  was unloaded, the GPU world is untouched and the cache is as before.\<close>

theorem load_capacity_error_no_effect:
  assumes "load P mode c w = (Inl (CapacityError reason), c', w')" and "cache_inv c"
  shows "c' = c \<and> w' = w"
  by (cases rule: load_cases [OF assms]) auto

text \<open>
  When every callback succeeds and the GPU is unmeasured, a load is refused only if the models
  that may not be evicted really leave too little room.
\<close>

lemma build_plan_complete:
  "build_plan c incoming modes projected = (plan, final) \<Longrightarrow>
     final + incoming \<le> budget_gb c \<or> plan = filter (evictable c) modes"
  by (induction modes arbitrary: projected plan final)
    (auto simp: evictable_def split: if_splits prod.splits)

lemma evict_planned_returns:
  assumes "\<forall>model w. fst (unloader P model w) = None"
  shows "set plan \<subseteq> set (loaded_modes c) \<Longrightarrow> distinct plan \<Longrightarrow>
    \<exists>ev' c' w'. evict_planned P incoming plan ev running c w = (Inr ev', c', w')"
proof (induction plan arbitrary: ev running c w)
  case Nil
  then show ?case by simp
next
  case (Cons mode plan)
  then obtain victim where v: "map_of (loaded c) mode = Some victim"
    by (auto simp: loaded_modes_def set_dict_keys)
  obtain w1 where u: "unloader P victim w = (None, w1)" using assms by (metis prod.collapse)
  have "set plan \<subseteq> set (loaded_modes (c\<lparr>loaded := dict_del mode (loaded c)\<rparr>))"
    using Cons.prems by (auto simp: loaded_modes_del)
  from Cons.IH [OF this] Cons.prems(2) v u show ?case by (simp add: Let_def)
qed

lemma sum_list_split:
  fixes f :: "'b \<Rightarrow> rat"
  shows "(\<Sum>x\<leftarrow>xs. f x) = (\<Sum>x\<leftarrow>filter Q xs. f x) + (\<Sum>x\<leftarrow>filter (\<lambda>x. \<not> Q x) xs. f x)"
  by (induction xs) auto

lemma evict_to_fit_returns:
  assumes ok: "loaded_ok c" and unmeasured: "vram_reader P = None"
    and unload: "\<forall>model w. fst (unloader P model w) = None"
    and room: "(\<Sum>m\<leftarrow>filter (\<lambda>m. \<not> evictable c m) (loaded_modes c). declared_size c m) + incoming
      \<le> budget_gb c"
  shows "\<exists>ev' c' w'. evict_to_fit P incoming c w = (Inr ev', c', w')"
proof -
  let ?run = "fst (planning_used_gb P c w)"
  have run: "?run = declared_used_gb c"
    by (simp add: planning_used_gb_def current_usage_def measured_vram_def unmeasured)
  obtain plan projected where plan: "build_plan c incoming (loaded_modes c) ?run = (plan, projected)"
    by fastforce
  have "projected + incoming \<le> budget_gb c"
  proof (cases "plan = filter (evictable c) (loaded_modes c)")
    case True
    with build_plan_spec [OF plan]
    have "projected = declared_used_gb c - (\<Sum>m\<leftarrow>filter (evictable c) (loaded_modes c). declared_size c m)"
      by (simp add: run)
    also have "\<dots> = (\<Sum>m\<leftarrow>filter (\<lambda>m. \<not> evictable c m) (loaded_modes c). declared_size c m)"
      unfolding declared_used_gb_def
      using sum_list_split [of "declared_size c" "loaded_modes c" "evictable c"] by simp
    finally show ?thesis using room by simp
  next
    case False
    with build_plan_complete [OF plan] show ?thesis by simp
  qed
  moreover have "distinct plan" "set plan \<subseteq> set (loaded_modes c)"
    using build_plan_subset [OF plan] ok by (auto simp: loaded_ok_def)
  ultimately show ?thesis
    using evict_planned_returns [OF unload] plan
    by (auto simp: evict_to_fit_def build_eviction_plan_def Let_def)
qed

text \<open>C16: A load that fits is carried out: with no VRAM reader, an unloader and a loader that do
  not raise, and a known mode, \<open>load\<close> returns a result whenever the pinned and used models plus
  the incoming one fit the budget by their declared sizes.\<close>

theorem load_succeeds_when_it_fits:
  assumes "cache_inv c" and "vram_reader P = None"
    and "\<forall>model w. fst (unloader P model w) = None"
    and "\<forall>m w. isl (fst (loader P m w)) = False"
    and "sizes c mode = Some target_size"
    and "(\<Sum>m\<leftarrow>filter (\<lambda>m. \<not> evictable c m) (loaded_modes c). declared_size c m) + target_size
      \<le> budget_gb c"
  shows "\<exists>res c' w'. load P mode c w = (Inr res, c', w')"
proof (cases "mode \<in> set (loaded_modes c)")
  case True
  with assms(5) show ?thesis by (auto simp: load_def loaded_modes_def set_dict_keys Let_def)
next
  case new: False
  let ?c = "mark_loading mode (utcnow P w) c"
  have pos: "0 \<le> declared_size c m" for m
    using assms(1) by (auto simp: cache_inv_defs declared_size_def ran_def split: option.split)
  have "0 \<le> (\<Sum>m\<leftarrow>xs. declared_size c m)" for xs by (induction xs) (auto simp: pos)
  from this [of "filter (\<lambda>m. \<not> evictable c m) (loaded_modes c)"]
  have small: "\<not> target_size > budget_gb c" using assms(6) by linarith
  have "loaded_ok ?c" using assms(1) by (auto simp: cache_inv_def loaded_ok_def loaded_modes_def)
  with assms(2,3,6) obtain ev' c1 w1 where "evict_to_fit P target_size ?c w = (Inr ev', c1, w1)"
    using evict_to_fit_returns [of ?c P target_size w] by auto
  moreover obtain model w2 where "loader P mode w1 = (Inr model, w2)"
    using assms(4) by (metis isl_def prod.collapse sum.exhaust_sel)
  ultimately show ?thesis
    using new small assms(5)
    by (auto simp: load_def load_missing_def Let_def loaded_modes_def set_dict_keys domIff)
qed

subsection \<open>A concrete cache\<close>

definition demo_ports :: "(unit, nat, unit) ports" where
  "demo_ports = \<lparr>loader = (\<lambda>m w. (Inr \<lparr>lm_mode = m, lm_handle = (), lm_port = 1, lm_loaded_at = 0\<rparr>, Suc w)),
     unloader = (\<lambda>_ w. (None, Suc w)), vram_reader = None, utcnow = (\<lambda>_. 7)\<rparr>"

definition demo_model :: "string \<Rightarrow> unit loaded_model" where
  "demo_model m = \<lparr>lm_mode = m, lm_handle = (), lm_port = 1, lm_loaded_at = 0\<rparr>"

definition demo_cache :: "unit model_cache" where
  "demo_cache = (init_cache 10 [''a'' \<mapsto> 4, ''b'' \<mapsto> 4, ''c'' \<mapsto> 4, ''d'' \<mapsto> 7])
     \<lparr>loaded := [(''a'', demo_model ''a''), (''b'', demo_model ''b'')], pinned := {''a''}\<rparr>"

lemma demo_cache_inv: "cache_inv demo_cache"
  by (auto simp: cache_inv_defs demo_cache_def init_cache_def loaded_modes_def dict_keys_def
      declared_used_gb_def declared_size_def ran_def split: if_splits)

lemmas cache_eval = load_def load_missing_def evict_to_fit_def build_eviction_plan_def
  planning_used_gb_def current_usage_def measured_vram_def declared_used_gb_def declared_size_def
  loaded_modes_def dict_keys_def dict_del_def in_use_count_def mark_loading_def clear_loading_def
  demo_cache_def demo_ports_def demo_model_def init_cache_def capacity_error_def

lemma demo_load_c:
  "load demo_ports ''c'' demo_cache 0 =
     (Inr \<lparr>lr_loaded = [''a'', ''c''], lr_evicted = [''b'']\<rparr>,
      demo_cache\<lparr>loaded := [(''a'', demo_model ''a''), (''c'', demo_model ''c'')]\<rparr>, 2)"
  by (simp add: cache_eval)

lemma demo_load_d:
  "load demo_ports ''d'' demo_cache 0 = (Inl (CapacityError NothingLeftToEvict), demo_cache, 0)"
  by (simp add: cache_eval)

theorem load_spares_protected_witness:
  "map_of (loaded (fst (snd (load demo_ports ''c'' demo_cache 0)))) ''a'' = Some (demo_model ''a'')"
proof -
  have "map_of (loaded demo_cache) ''a'' = Some (demo_model ''a'')" by (simp add: demo_cache_def)
  moreover have "''a'' \<in> pinned demo_cache \<or> 0 < in_use_count ''a'' demo_cache"
    by (simp add: demo_cache_def)
  ultimately show ?thesis
    using load_spares_protected [OF demo_load_c demo_cache_inv] demo_load_c by simp
qed

theorem cache_run_within_budget_witness:
  "let s0 = (init_cache 10 [''a'' \<mapsto> 4, ''b'' \<mapsto> 4, ''c'' \<mapsto> 4], 0);
       ops = [Load ''a'', AcquireForUse ''a'', AcquireForUse ''a'', Load ''b'', Load ''c'', Release ''a'', Evict ''a''];
       c = fst (foldl (cache_step demo_ports) s0 ops)
   in open_uses demo_ports s0 ops (\<lambda>_. 0) ''a'' = 1 \<and> ''a'' \<in> set (loaded_modes c)"
proof -
  let ?s0 = "(init_cache 10 [''a'' \<mapsto> (4 :: rat), ''b'' \<mapsto> 4, ''c'' \<mapsto> 4], 0 :: nat)"
  let ?ops = "[Load ''a'', AcquireForUse ''a'', AcquireForUse ''a'', Load ''b'', Load ''c'', Release ''a'', Evict ''a'']"
  have "\<forall>s \<in> ran [''a'' \<mapsto> (4 :: rat), ''b'' \<mapsto> 4, ''c'' \<mapsto> 4]. 0 \<le> s"
    by (auto simp: ran_def split: if_splits)
  note run = cache_run_within_budget [OF _ this, where budget = 10 and P = demo_ports and w = 0 and ops = ?ops, unfolded Let_def]
  have "open_uses demo_ports ?s0 ?ops (\<lambda>_. 0) ''a'' = 1" by code_simp
  then show ?thesis using run by (simp add: Let_def)
qed

theorem load_result_lru_witness:
  "loaded_modes (fst (snd (load demo_ports ''c'' demo_cache 0))) = [''a'', ''c'']"
  using load_result_lru [OF demo_load_c demo_cache_inv] demo_load_c by simp

theorem load_capacity_error_no_effect_witness:
  "snd (load demo_ports ''d'' demo_cache 0) = (demo_cache, 0)"
  using load_capacity_error_no_effect [OF demo_load_d demo_cache_inv] demo_load_d by simp

theorem load_succeeds_when_it_fits_witness:
  "\<exists>res c' w'. load demo_ports ''c'' demo_cache 0 = (Inr res, c', w')"
proof (rule load_succeeds_when_it_fits [OF demo_cache_inv])
  show "sizes demo_cache ''c'' = Some 4" by (simp add: demo_cache_def init_cache_def)
  show "(\<Sum>m\<leftarrow>filter (\<lambda>m. \<not> evictable demo_cache m) (loaded_modes demo_cache). declared_size demo_cache m)
    + 4 \<le> budget_gb demo_cache"
    by (simp add: cache_eval evictable_def)
qed (simp_all add: demo_ports_def)

end
