(* ===== verification/Job_Types.thy ===== *)
theory Job_Types
  imports Prelude
begin

text \<open>
  The enumerations and the stale-job policy table of \<open>src/src/songmaker_cli/constants.py\<close>.
  The one number that comes from the environment, the poll timeout of the ACE-Step engine
  settings, is the parameter \<open>poll_timeout\<close> (600 seconds by default).
\<close>

datatype job_status = QUEUED | RUNNING | COMPLETED | FAILED | PARTIAL | CANCELLED

definition JOB_ACTIVE_STATUSES :: "job_status set" where
  "JOB_ACTIVE_STATUSES = {QUEUED, RUNNING}"

definition JOB_TERMINAL_STATUSES :: "job_status set" where
  "JOB_TERMINAL_STATUSES = {COMPLETED, FAILED, PARTIAL, CANCELLED}"

datatype job_type =
  COVER | GENERATE | SCORE | CHAT | LORA_TRAINING | LOAD_MODEL_ON_WORKER | DOWNLOAD_MODEL_ON_WORKER

fun job_type_value :: "job_type \<Rightarrow> string" where
  "job_type_value COVER = ''cover''"
| "job_type_value GENERATE = ''generate''"
| "job_type_value SCORE = ''score''"
| "job_type_value CHAT = ''chat''"
| "job_type_value LORA_TRAINING = ''lora_training''"
| "job_type_value LOAD_MODEL_ON_WORKER = ''load_model_on_worker''"
| "job_type_value DOWNLOAD_MODEL_ON_WORKER = ''download_model_on_worker''"

definition all_job_types :: "job_type list" where
  "all_job_types = [COVER, GENERATE, SCORE, CHAT, LORA_TRAINING, LOAD_MODEL_ON_WORKER,
     DOWNLOAD_MODEL_ON_WORKER]"

text \<open>The call \<open>JobType(value)\<close>; \<open>None\<close> is the \<open>ValueError\<close> of an unknown value.\<close>

definition parse_job_type :: "string \<Rightarrow> job_type option" where
  "parse_job_type v = find (\<lambda>t. job_type_value t = v) all_job_types"

datatype generation_phase = LOADING_MODEL | WRITING | RENDERING | SAVING_TAKE

datatype worker_liveness_signal = MUSIC | SCORING | MODEL_EXECUTION

record job_stale_thresholds =
  queued_seconds :: int
  heartbeat_seconds :: int
  liveness_signal :: "worker_liveness_signal option"
  restart_grace_seconds :: "int option"

definition full_queue_bound_seconds :: "job_stale_thresholds \<Rightarrow> int \<Rightarrow> int" where
  "full_queue_bound_seconds t max_queue_depth = max_queue_depth * heartbeat_seconds t"

subsection \<open>The numbers\<close>

definition GENERATE_LOAD_MODEL_TIMEOUT_SECONDS :: int where
  "GENERATE_LOAD_MODEL_TIMEOUT_SECONDS = 600"

definition GENERATE_SUBMIT_TIMEOUT_SECONDS :: int where
  "GENERATE_SUBMIT_TIMEOUT_SECONDS = 30"

definition ACESTEP_SSE_CONNECT_TIMEOUT_SECONDS :: int where
  "ACESTEP_SSE_CONNECT_TIMEOUT_SECONDS = 10"

definition ACESTEP_SSE_READ_TIMEOUT_MARGIN_SECONDS :: int where
  "ACESTEP_SSE_READ_TIMEOUT_MARGIN_SECONDS = 30"

definition JOB_REAPER_INTERVAL_SECONDS :: int where
  "JOB_REAPER_INTERVAL_SECONDS = 120"

text \<open>\<open>int(poll_timeout)\<close> truncates towards zero.\<close>

definition truncate :: "rat \<Rightarrow> int" where
  "truncate x = (if 0 \<le> x then \<lfloor>x\<rfloor> else \<lceil>x\<rceil>)"

definition acestep_sse_read_timeout_seconds :: "rat \<Rightarrow> int" where
  "acestep_sse_read_timeout_seconds poll_timeout =
     truncate poll_timeout + ACESTEP_SSE_READ_TIMEOUT_MARGIN_SECONDS"

definition GENERATE_PRE_FIRST_EVENT_TIMEOUT_SECONDS :: int where
  "GENERATE_PRE_FIRST_EVENT_TIMEOUT_SECONDS =
     GENERATE_LOAD_MODEL_TIMEOUT_SECONDS + GENERATE_SUBMIT_TIMEOUT_SECONDS
     + ACESTEP_SSE_CONNECT_TIMEOUT_SECONDS"

definition generate_job_heartbeat_stale_threshold_seconds :: "int \<Rightarrow> int" where
  "generate_job_heartbeat_stale_threshold_seconds sse_read_timeout_seconds =
     max GENERATE_PRE_FIRST_EVENT_TIMEOUT_SECONDS sse_read_timeout_seconds
     + JOB_REAPER_INTERVAL_SECONDS"

definition worker_thresholds :: "int \<Rightarrow> worker_liveness_signal \<Rightarrow> job_stale_thresholds" where
  "worker_thresholds heartbeat signal =
     \<lparr>queued_seconds = 1100, heartbeat_seconds = heartbeat, liveness_signal = Some signal,
      restart_grace_seconds = Some 300\<rparr>"

definition web_thresholds :: "int \<Rightarrow> job_stale_thresholds" where
  "web_thresholds heartbeat =
     \<lparr>queued_seconds = 900, heartbeat_seconds = heartbeat, liveness_signal = None,
      restart_grace_seconds = None\<rparr>"

fun STALE_JOB_THRESHOLDS :: "rat \<Rightarrow> job_type \<Rightarrow> job_stale_thresholds" where
  "STALE_JOB_THRESHOLDS pt COVER = web_thresholds 120"
| "STALE_JOB_THRESHOLDS pt CHAT = web_thresholds 180"
| "STALE_JOB_THRESHOLDS pt LORA_TRAINING = worker_thresholds 300 MUSIC"
| "STALE_JOB_THRESHOLDS pt SCORE = worker_thresholds 600 SCORING"
| "STALE_JOB_THRESHOLDS pt GENERATE = worker_thresholds
     (generate_job_heartbeat_stale_threshold_seconds (acestep_sse_read_timeout_seconds pt))
     MODEL_EXECUTION"
| "STALE_JOB_THRESHOLDS pt LOAD_MODEL_ON_WORKER = worker_thresholds 1300 MODEL_EXECUTION"
| "STALE_JOB_THRESHOLDS pt DOWNLOAD_MODEL_ON_WORKER = worker_thresholds 180 MODEL_EXECUTION"

text \<open>
  \<open>worker_restart_grace_seconds\<close>: the grace of every type with the signal, which must be one
  number; \<open>None\<close> is the \<open>RuntimeError\<close>.
\<close>

definition worker_restart_grace_seconds :: "rat \<Rightarrow> worker_liveness_signal \<Rightarrow> int option" where
  "worker_restart_grace_seconds pt signal =
     (let graces = remdups (map (\<lambda>t. restart_grace_seconds (STALE_JOB_THRESHOLDS pt t))
            (filter (\<lambda>t. liveness_signal (STALE_JOB_THRESHOLDS pt t) = Some signal) all_job_types))
      in case graces of [Some g] \<Rightarrow> Some g | _ \<Rightarrow> None)"

lemma all_job_types_complete [simp]: "t \<in> set all_job_types"
  by (cases t) (simp_all add: all_job_types_def)

lemma parse_job_type_value [simp]: "parse_job_type (job_type_value t) = Some t"
  by (cases t) (simp_all add: parse_job_type_def all_job_types_def)

lemma parse_job_type_Some: "parse_job_type v = Some t \<Longrightarrow> v = job_type_value t"
  by (auto simp: parse_job_type_def find_Some_iff)

lemma job_type_value_inject [simp]: "job_type_value s = job_type_value t \<longleftrightarrow> s = t"
  by (metis parse_job_type_value option.inject)

lemma active_or_terminal: "s \<in> JOB_TERMINAL_STATUSES \<longleftrightarrow> s \<notin> JOB_ACTIVE_STATUSES"
  by (cases s) (simp_all add: JOB_TERMINAL_STATUSES_def JOB_ACTIVE_STATUSES_def)

text \<open>Every signal has one restart grace, so the lookup never raises.\<close>

lemma worker_restart_grace_total: "worker_restart_grace_seconds pt signal = Some 300"
  by (cases signal)
    (simp_all add: worker_restart_grace_seconds_def all_job_types_def worker_thresholds_def
      web_thresholds_def)

lemma heartbeat_seconds_pos: "0 < heartbeat_seconds (STALE_JOB_THRESHOLDS pt t)"
  by (cases t) (simp_all add: worker_thresholds_def web_thresholds_def
      generate_job_heartbeat_stale_threshold_seconds_def GENERATE_PRE_FIRST_EVENT_TIMEOUT_SECONDS_def
      GENERATE_LOAD_MODEL_TIMEOUT_SECONDS_def GENERATE_SUBMIT_TIMEOUT_SECONDS_def
      ACESTEP_SSE_CONNECT_TIMEOUT_SECONDS_def JOB_REAPER_INTERVAL_SECONDS_def)

end
