(* ===== verification/Redis_Ops.thy ===== *)
theory Redis_Ops
  imports Prelude
begin

text \<open>
  Redis is not part of the repository.  The commands the code sends are the record
  \<open>redis_ops\<close>, an argument of every definition that uses them; \<open>'w\<close> is the server's state, which
  the model never looks into.  \<open>redis_laws\<close> states the documented behaviour the theorems rely
  on: what a read returns after a write, \<open>NX\<close>, and counters.  A key with a time to live may
  vanish between two commands; that is a step of the environment (\<open>only_expires\<close>).  Whether a
  client call reaches the server is \<open>reachable\<close>; a call that does not raises \<open>RedisError\<close>.
\<close>

record 'w redis_ops =
  cmd_get :: "string \<Rightarrow> 'w \<Rightarrow> string option"
  cmd_set :: "string \<Rightarrow> string \<Rightarrow> int option \<Rightarrow> bool \<Rightarrow> 'w \<Rightarrow> bool \<times> 'w"
  cmd_del :: "string \<Rightarrow> 'w \<Rightarrow> 'w"
  cmd_number :: "string \<Rightarrow> 'w \<Rightarrow> int"
  cmd_incrby :: "string \<Rightarrow> int \<Rightarrow> 'w \<Rightarrow> 'w"
  cmd_expire :: "string \<Rightarrow> int \<Rightarrow> 'w \<Rightarrow> 'w"
  reachable :: "string \<Rightarrow> 'w \<Rightarrow> bool"

definition cmd_exists :: "'w redis_ops \<Rightarrow> string \<Rightarrow> 'w \<Rightarrow> bool" where
  "cmd_exists R key w \<longleftrightarrow> cmd_get R key w \<noteq> None"

text \<open>
  \<open>cmd_number\<close> is the value of a counter key (0 when it is missing); \<open>INCR\<close> and \<open>DECR\<close> are
  \<open>cmd_incrby\<close> with 1 and -1.  \<open>SET\<close> with its last argument true is \<open>SET ... NX\<close>.
\<close>

definition redis_laws :: "'w redis_ops \<Rightarrow> bool" where
  "redis_laws R \<longleftrightarrow>
     (\<forall>k v ex nx w. fst (cmd_set R k v ex nx w) \<longleftrightarrow> \<not> (nx \<and> cmd_exists R k w))
     \<and> (\<forall>k v ex nx w. nx \<and> cmd_exists R k w \<longrightarrow> snd (cmd_set R k v ex nx w) = w)
     \<and> (\<forall>k v ex nx w k'. \<not> (nx \<and> cmd_exists R k w) \<longrightarrow>
        cmd_get R k' (snd (cmd_set R k v ex nx w)) = (if k' = k then Some v else cmd_get R k' w))
     \<and> (\<forall>k v ex nx w k'. k' \<noteq> k \<longrightarrow>
        cmd_number R k' (snd (cmd_set R k v ex nx w)) = cmd_number R k' w)
     \<and> (\<forall>k w k'. cmd_get R k' (cmd_del R k w) = (if k' = k then None else cmd_get R k' w))
     \<and> (\<forall>k w k'. cmd_number R k' (cmd_del R k w) = (if k' = k then 0 else cmd_number R k' w))
     \<and> (\<forall>k n w k'. cmd_number R k' (cmd_incrby R k n w) =
        cmd_number R k' w + (if k' = k then n else 0))
     \<and> (\<forall>k n w k'. k' \<noteq> k \<longrightarrow> cmd_get R k' (cmd_incrby R k n w) = cmd_get R k' w)
     \<and> (\<forall>k n w k'. cmd_get R k' (cmd_expire R k n w) = cmd_get R k' w)
     \<and> (\<forall>k n w k'. cmd_number R k' (cmd_expire R k n w) = cmd_number R k' w)"

text \<open>What time may do between two commands: keys expire, nothing appears or changes.\<close>

definition only_expires :: "'w redis_ops \<Rightarrow> 'w \<Rightarrow> 'w \<Rightarrow> bool" where
  "only_expires R w w' \<longleftrightarrow> (\<forall>k. cmd_get R k w' = None \<or> cmd_get R k w' = cmd_get R k w)"

named_theorems redis_simps

lemma redis_set_result:
  assumes "redis_laws R"
  shows "fst (cmd_set R k v ex nx w) \<longleftrightarrow> \<not> (nx \<and> cmd_exists R k w)"
    and "nx \<and> cmd_exists R k w \<Longrightarrow> snd (cmd_set R k v ex nx w) = w"
  using assms by (simp_all add: redis_laws_def)

lemma redis_get_set [redis_simps]:
  assumes "redis_laws R" and "\<not> (nx \<and> cmd_exists R k w)"
  shows "cmd_get R k' (snd (cmd_set R k v ex nx w)) = (if k' = k then Some v else cmd_get R k' w)"
  using assms by (simp add: redis_laws_def)

lemma redis_number_set [redis_simps]:
  "redis_laws R \<Longrightarrow> k' \<noteq> k \<Longrightarrow>
     cmd_number R k' (snd (cmd_set R k v ex nx w)) = cmd_number R k' w"
  by (simp add: redis_laws_def)

lemma redis_get_del [redis_simps]:
  "redis_laws R \<Longrightarrow> cmd_get R k' (cmd_del R k w) = (if k' = k then None else cmd_get R k' w)"
  by (simp add: redis_laws_def)

lemma redis_number_del [redis_simps]:
  "redis_laws R \<Longrightarrow> cmd_number R k' (cmd_del R k w) = (if k' = k then 0 else cmd_number R k' w)"
  by (simp add: redis_laws_def)

lemma redis_number_incrby [redis_simps]:
  "redis_laws R \<Longrightarrow> cmd_number R k' (cmd_incrby R k n w)
     = cmd_number R k' w + (if k' = k then n else 0)"
  by (simp add: redis_laws_def)

lemma redis_get_incrby [redis_simps]:
  "redis_laws R \<Longrightarrow> k' \<noteq> k \<Longrightarrow> cmd_get R k' (cmd_incrby R k n w) = cmd_get R k' w"
  by (simp add: redis_laws_def)

lemma redis_get_expire [redis_simps]:
  "redis_laws R \<Longrightarrow> cmd_get R k' (cmd_expire R k n w) = cmd_get R k' w"
  by (simp add: redis_laws_def)

lemma redis_number_expire [redis_simps]:
  "redis_laws R \<Longrightarrow> cmd_number R k' (cmd_expire R k n w) = cmd_number R k' w"
  by (simp add: redis_laws_def)

subsection \<open>An instance, for the witnesses\<close>

type_synonym demo_redis = "(string \<Rightarrow> string option) \<times> (string \<Rightarrow> int)"

definition demo_ops :: "demo_redis redis_ops" where
  "demo_ops = \<lparr>cmd_get = (\<lambda>k w. fst w k),
     cmd_set = (\<lambda>k v ex nx w. if nx \<and> fst w k \<noteq> None then (False, w)
        else (True, ((fst w)(k \<mapsto> v), snd w))),
     cmd_del = (\<lambda>k w. ((fst w)(k := None), (snd w)(k := 0))),
     cmd_number = (\<lambda>k w. snd w k),
     cmd_incrby = (\<lambda>k n w. (fst w, (snd w)(k := snd w k + n))),
     cmd_expire = (\<lambda>_ _ w. w), reachable = (\<lambda>_ _. True)\<rparr>"

lemma demo_ops_laws: "redis_laws demo_ops"
  by (auto simp: redis_laws_def demo_ops_def cmd_exists_def)

end
