(* ===== verification/Worker_Liveness.thy ===== *)
theory Worker_Liveness
  imports Job_Types Redis_Ops
begin

text \<open>
  Which workers are alive (\<open>src/src/songmaker_cli/worker_liveness.py\<close>) and which state of
  a worker counts as online (\<open>worker_is_online\<close> of \<open>acestep_state.py\<close>).  Redis is the
  parameter \<open>R\<close>; JSON decoding and ISO timestamps are the parameters \<open>json_loads\<close> and
  \<open>fromisoformat\<close>, whose \<open>None\<close> is the exception the code catches.
\<close>

datatype json = JNull | JBool bool | JNum rat | JStr string | JList "json list"
  | JObj "(string \<times> json) list"

datatype worker_liveness = ALIVE | DEAD | UNKNOWN

definition worker_state_key :: "string \<Rightarrow> string" where
  "worker_state_key worker_id = ''songmaker:acestep:worker:'' @ worker_id"

text \<open>The state is the decoded heartbeat object; only the value \<open>true\<close> counts as healthy.\<close>

definition worker_is_online :: "(string \<times> json) list option \<Rightarrow> bool" where
  "worker_is_online state =
     (case state of None \<Rightarrow> False | Some obj \<Rightarrow> map_of obj ''gpu_healthy'' = Some (JBool True))"

text \<open>How a reader finds the clock, the decoders and the start of its own process.\<close>

record readers =
  json_loads :: "string \<Rightarrow> json option"
  fromisoformat :: "string \<Rightarrow> timestamp option"
  isoformat :: "timestamp \<Rightarrow> string"
  process_started_at :: timestamp
  poll_timeout :: rat

definition last_alive_key :: "string \<Rightarrow> string" where
  "last_alive_key signal = ''songmaker:worker_liveness:last_alive:'' @ signal"

definition WORKER_LAST_ALIVE_TTL_SECONDS :: int where
  "WORKER_LAST_ALIVE_TTL_SECONDS = 7 * 24 * 60 * 60"

definition record_alive :: "'w redis_ops \<Rightarrow> readers \<Rightarrow> string \<Rightarrow> timestamp \<Rightarrow> 'w \<Rightarrow> 'w" where
  "record_alive R rd key now w =
     (if reachable R key w
      then snd (cmd_set R key (isoformat rd now) (Some WORKER_LAST_ALIVE_TTL_SECONDS) False w)
      else w)"

definition missing_signal_liveness ::
  "'w redis_ops \<Rightarrow> readers \<Rightarrow> string \<Rightarrow> worker_liveness_signal \<Rightarrow> timestamp \<Rightarrow> 'w \<Rightarrow> worker_liveness" where
  "missing_signal_liveness R rd key signal now w =
     (if \<not> reachable R key w then UNKNOWN
      else case cmd_get R key w of
        None \<Rightarrow> UNKNOWN
      | Some seen_at \<Rightarrow>
          (case fromisoformat rd seen_at of
             None \<Rightarrow> UNKNOWN
           | Some last_alive_at \<Rightarrow>
               (case worker_restart_grace_seconds (poll_timeout rd) signal of
                  None \<Rightarrow> UNKNOWN
                | Some g \<Rightarrow>
                    if now - last_alive_at \<le> seconds g then ALIVE
                    else if now - process_started_at rd > seconds g then DEAD
                    else ALIVE)))"

text \<open>
  The scan over the registered workers: a failed read ends it, an undecodable heartbeat is
  remembered, the first online worker ends it with a durable observation.
\<close>

datatype scan = ScanUnreadable | ScanOnline | ScanDone bool

fun scan_workers ::
  "'w redis_ops \<Rightarrow> readers \<Rightarrow> string list \<Rightarrow> bool \<Rightarrow> 'w \<Rightarrow> scan" where
  "scan_workers R rd [] malformed w = ScanDone malformed"
| "scan_workers R rd (worker_id # worker_ids) malformed w =
     (if \<not> reachable R (worker_state_key worker_id) w then ScanUnreadable
      else case cmd_get R (worker_state_key worker_id) w of
        None \<Rightarrow> scan_workers R rd worker_ids malformed w
      | Some text \<Rightarrow>
          (case json_loads rd text of
             Some (JObj obj) \<Rightarrow>
               if worker_is_online (Some obj) then ScanOnline
               else scan_workers R rd worker_ids malformed w
           | _ \<Rightarrow> scan_workers R rd worker_ids True w))"

definition acestep_worker_liveness ::
  "'w redis_ops \<Rightarrow> readers \<Rightarrow> string list \<Rightarrow> timestamp \<Rightarrow> 'w \<Rightarrow> worker_liveness \<times> 'w" where
  "acestep_worker_liveness R rd worker_ids now w =
     (case scan_workers R rd worker_ids False w of
        ScanUnreadable \<Rightarrow> (UNKNOWN, w)
      | ScanOnline \<Rightarrow> (ALIVE, record_alive R rd (last_alive_key ''acestep'') now w)
      | ScanDone malformed \<Rightarrow>
          if malformed then (UNKNOWN, w)
          else (missing_signal_liveness R rd (last_alive_key ''acestep'') MODEL_EXECUTION now w, w))"

definition arq_worker_liveness ::
  "'w redis_ops \<Rightarrow> readers \<Rightarrow> string \<Rightarrow> string \<Rightarrow> worker_liveness_signal \<Rightarrow> timestamp \<Rightarrow> 'w
     \<Rightarrow> worker_liveness \<times> 'w" where
  "arq_worker_liveness R rd health_key alive_key signal now w =
     (if \<not> reachable R health_key w then (UNKNOWN, w)
      else if cmd_exists R health_key w then (ALIVE, record_alive R rd alive_key now w)
      else (missing_signal_liveness R rd alive_key signal now w, w))"

definition model_execution_liveness :: "worker_liveness \<Rightarrow> worker_liveness \<Rightarrow> worker_liveness" where
  "model_execution_liveness acestep music =
     (if acestep = DEAD \<or> music = DEAD then DEAD
      else if acestep = ALIVE \<and> music = ALIVE then ALIVE
      else UNKNOWN)"

fun worker_liveness_by_job_type ::
  "worker_liveness \<Rightarrow> worker_liveness \<Rightarrow> worker_liveness \<Rightarrow> job_type \<Rightarrow> worker_liveness option" where
  "worker_liveness_by_job_type acestep music scoring COVER = Some UNKNOWN"
| "worker_liveness_by_job_type acestep music scoring GENERATE =
     Some (model_execution_liveness acestep music)"
| "worker_liveness_by_job_type acestep music scoring LOAD_MODEL_ON_WORKER =
     Some (model_execution_liveness acestep music)"
| "worker_liveness_by_job_type acestep music scoring DOWNLOAD_MODEL_ON_WORKER =
     Some (model_execution_liveness acestep music)"
| "worker_liveness_by_job_type acestep music scoring LORA_TRAINING = Some music"
| "worker_liveness_by_job_type acestep music scoring SCORE = Some scoring"
| "worker_liveness_by_job_type acestep music scoring CHAT = Some UNKNOWN"

definition read_worker_liveness ::
  "'w redis_ops \<Rightarrow> readers \<Rightarrow> string list \<Rightarrow> timestamp \<Rightarrow> 'w
     \<Rightarrow> (job_type \<Rightarrow> worker_liveness option) \<times> 'w" where
  "read_worker_liveness R rd worker_ids now w =
     (case acestep_worker_liveness R rd worker_ids now w of (acestep, w1) \<Rightarrow>
       (case arq_worker_liveness R rd ''arq:queue:music:health-check'' (last_alive_key ''music'')
               MUSIC now w1 of (music, w2) \<Rightarrow>
         (case arq_worker_liveness R rd ''arq:queue:scoring:health-check''
                 (last_alive_key ''scoring'') SCORING now w2 of (scoring, w3) \<Rightarrow>
           (worker_liveness_by_job_type acestep music scoring, w3))))"

definition liveness_for_job_type ::
  "job_type \<Rightarrow> (job_type \<Rightarrow> worker_liveness option) option \<Rightarrow> worker_liveness" where
  "liveness_for_job_type job_type liveness_by_type =
     (case liveness_by_type of
        None \<Rightarrow> UNKNOWN
      | Some m \<Rightarrow> (case m job_type of None \<Rightarrow> UNKNOWN | Some l \<Rightarrow> l))"

subsection \<open>What a verdict of death needs\<close>

lemma missing_signal_dead:
  assumes "missing_signal_liveness R rd key signal now w = DEAD"
  shows "now - process_started_at rd > seconds 300"
    and "\<exists>text seen. cmd_get R key w = Some text \<and> fromisoformat rd text = Some seen
      \<and> now - seen > seconds 300"
  using assms
  by (auto simp: missing_signal_liveness_def worker_restart_grace_total
      split: if_splits option.splits)

lemma arq_dead:
  "fst (arq_worker_liveness R rd hk ak signal now w) = DEAD \<Longrightarrow>
     now - process_started_at rd > seconds 300"
  by (auto simp: arq_worker_liveness_def split: if_splits dest: missing_signal_dead)

lemma acestep_dead:
  "fst (acestep_worker_liveness R rd ids now w) = DEAD \<Longrightarrow>
     now - process_started_at rd > seconds 300"
  by (auto simp: acestep_worker_liveness_def split: scan.splits if_splits dest: missing_signal_dead)

lemma model_execution_dead:
  "model_execution_liveness a m = DEAD \<Longrightarrow> a = DEAD \<or> m = DEAD"
  by (auto simp: model_execution_liveness_def split: if_splits)

text \<open>No job type is declared dead early: whatever Redis answers, fails to answer or has
  lost, \<open>read_worker_liveness\<close> calls a type's workers dead only when the observing process
  has itself been up for longer than the restart grace of 300 seconds, and never for the types
  that run in the web process (cover and chat).\<close>

theorem dead_only_after_grace:
  assumes "fst (read_worker_liveness R rd worker_ids now w) t = Some DEAD"
  shows "now - process_started_at rd > seconds 300 \<and> t \<noteq> COVER \<and> t \<noteq> CHAT"
proof -
  obtain a w1 where a: "acestep_worker_liveness R rd worker_ids now w = (a, w1)" by fastforce
  obtain m w2 where m: "arq_worker_liveness R rd ''arq:queue:music:health-check''
      (last_alive_key ''music'') MUSIC now w1 = (m, w2)" by fastforce
  obtain s w3 where s: "arq_worker_liveness R rd ''arq:queue:scoring:health-check''
      (last_alive_key ''scoring'') SCORING now w2 = (s, w3)" by fastforce
  have t: "worker_liveness_by_job_type a m s t = Some DEAD"
    using assms by (simp add: read_worker_liveness_def a m s)
  then have "a = DEAD \<or> m = DEAD \<or> s = DEAD"
    by (cases t) (auto dest: model_execution_dead)
  moreover have "a = DEAD \<Longrightarrow> now - process_started_at rd > seconds 300"
    using acestep_dead [of R rd worker_ids now w] by (simp add: a)
  moreover have "m = DEAD \<Longrightarrow> now - process_started_at rd > seconds 300"
    using arq_dead [of R rd "''arq:queue:music:health-check''" "last_alive_key ''music''" MUSIC now w1]
    by (simp add: m)
  moreover have "s = DEAD \<Longrightarrow> now - process_started_at rd > seconds 300"
    using arq_dead [of R rd "''arq:queue:scoring:health-check''" "last_alive_key ''scoring''" SCORING now w2]
    by (simp add: s)
  ultimately have "now - process_started_at rd > seconds 300" by blast
  with t show ?thesis by (cases t) simp_all
qed

text \<open>One online worker is enough and is remembered: when the scan reaches a worker whose
  heartbeat says \<open>gpu_healthy: true\<close> before any unreadable one, the ACE-Step signal is alive, and
  the observation is stored under the durable key.\<close>

theorem online_worker_is_alive:
  assumes "redis_laws R" and "worker_id \<in> set worker_ids" and "\<And>k. reachable R k w"
    and "cmd_get R (worker_state_key worker_id) w = Some raw"
    and "json_loads rd raw = Some (JObj obj)"
    and "map_of obj ''gpu_healthy'' = Some (JBool True)"
  shows "\<exists>w'. acestep_worker_liveness R rd worker_ids now w = (ALIVE, w')
    \<and> cmd_get R (last_alive_key ''acestep'') w' = Some (isoformat rd now)"
proof -
  have "scan_workers R rd worker_ids malformed w = ScanOnline" for malformed
    using assms(2)
    by (induction worker_ids arbitrary: malformed)
      (auto simp: assms(3-6) worker_is_online_def split: option.split json.split)
  then show ?thesis
    using assms(1,3) by (simp add: acestep_worker_liveness_def record_alive_def redis_get_set)
qed

definition demo_readers :: readers where
  "demo_readers = \<lparr>json_loads = (\<lambda>_. Some (JObj [(''gpu_healthy'', JBool True)])),
     fromisoformat = (\<lambda>_. Some 0), isoformat = (\<lambda>_. ''t''), process_started_at = 0,
     poll_timeout = 600\<rparr>"

theorem dead_only_after_grace_witness:
  "seconds 1000 - process_started_at demo_readers > seconds 300"
proof -
  have "fst (read_worker_liveness demo_ops demo_readers [] (seconds 1000)
      ((\<lambda>k. if k = last_alive_key ''music'' then Some ''t'' else None), \<lambda>_. 0)) LORA_TRAINING = Some DEAD"
    by (simp add: read_worker_liveness_def acestep_worker_liveness_def arq_worker_liveness_def
        missing_signal_liveness_def worker_restart_grace_total demo_ops_def demo_readers_def
        cmd_exists_def last_alive_key_def seconds_def)
  from dead_only_after_grace [OF this] show ?thesis by simp
qed

theorem online_worker_is_alive_witness:
  "fst (acestep_worker_liveness demo_ops demo_readers [''w0''] 5
     ((\<lambda>k. if k = worker_state_key ''w0'' then Some ''{}'' else None), \<lambda>_. 0)) = ALIVE"
proof -
  let ?w = "((\<lambda>k. if k = worker_state_key ''w0'' then Some ''{}'' else None), \<lambda>_. 0) :: demo_redis"
  have "\<exists>w'. acestep_worker_liveness demo_ops demo_readers [''w0''] 5 ?w = (ALIVE, w')
    \<and> cmd_get demo_ops (last_alive_key ''acestep'') w' = Some (isoformat demo_readers 5)"
    by (rule online_worker_is_alive [OF demo_ops_laws, where worker_id = "''w0''" and raw = "''{}''"
          and obj = "[(''gpu_healthy'', JBool True)]"])
      (simp_all add: demo_ops_def demo_readers_def)
  then show ?thesis by auto
qed

end
