(* ===== verification/Job_Store.thy ===== *)
theory Job_Store
  imports Worker_Liveness
begin

text \<open>
  The background jobs (\<open>src/src/songmaker_cli/db/queries/jobs.py\<close>, the table \<open>Job\<close> of
  \<open>db/models.py\<close>).  The table is the list of its rows; a call that the code runs in one
  transaction under a row lock is one function.  The clock reading \<open>now\<close> and the primary key a
  new row gets are arguments.  The \<open>type\<close> column is the string the database stores, so an
  unknown type is a value here too.  Log lines and the aggregate of job durations are left out.
\<close>

record job =
  j_id :: string
  j_type :: string
  j_status :: job_status
  j_progress :: rat
  j_phase :: "generation_phase option"
  j_generation_started_at :: "timestamp option"
  j_take_index :: "int option"
  j_take_count :: "int option"
  j_current_epoch :: "int option"
  j_train_epochs :: "int option"
  j_training_started_at :: "timestamp option"
  j_error :: "string option"
  j_error_type :: "string option"
  j_retry_after_seconds :: "int option"
  j_queue_reason :: "string option"
  j_user_id :: "string option"
  j_song_id :: "string option"
  j_album_id :: "string option"
  j_version_id :: "string option"
  j_session_id :: "string option"
  j_worker_pid :: "int option"
  j_heartbeat_at :: timestamp
  j_started_at :: timestamp
  j_completed_at :: "timestamp option"

type_synonym jobs = "job list"

abbreviation get_row :: "string \<Rightarrow> jobs \<Rightarrow> job option" where
  "get_row \<equiv> table_get j_id"

abbreviation put_row :: "string \<Rightarrow> (job \<Rightarrow> job) \<Rightarrow> jobs \<Rightarrow> jobs" where
  "put_row \<equiv> table_update j_id"

abbreviation active :: "job \<Rightarrow> bool" where
  "active j \<equiv> j_status j \<in> JOB_ACTIVE_STATUSES"

abbreviation terminal :: "job \<Rightarrow> bool" where
  "terminal j \<equiv> j_status j \<in> JOB_TERMINAL_STATUSES"

abbreviation of_type :: "job_type \<Rightarrow> job \<Rightarrow> bool" where
  "of_type t j \<equiv> j_type j = job_type_value t"

subsection \<open>Creating and counting\<close>

definition new_job :: "string \<Rightarrow> timestamp \<Rightarrow> string \<Rightarrow> string option \<Rightarrow> string option \<Rightarrow>
    string option \<Rightarrow> string option \<Rightarrow> string option \<Rightarrow> job" where
  "new_job uuid now jtype user_id song_id album_id version_id session_id =
     \<lparr>j_id = uuid, j_type = jtype, j_status = QUEUED, j_progress = 0, j_phase = None,
      j_generation_started_at = None, j_take_index = None, j_take_count = None,
      j_current_epoch = None, j_train_epochs = None, j_training_started_at = None,
      j_error = None, j_error_type = None, j_retry_after_seconds = None, j_queue_reason = None,
      j_user_id = user_id, j_song_id = song_id, j_album_id = album_id, j_version_id = version_id,
      j_session_id = session_id, j_worker_pid = None, j_heartbeat_at = now, j_started_at = now,
      j_completed_at = None\<rparr>"

text \<open>\<open>None\<close> is the rejection of a primary key that exists (the flush raises).\<close>

definition create_job :: "job \<Rightarrow> jobs \<Rightarrow> jobs option" where
  "create_job j jobs = (if get_row (j_id j) jobs = None then Some (jobs @ [j]) else None)"

definition has_active_job_for_version :: "string \<Rightarrow> jobs \<Rightarrow> bool" where
  "has_active_job_for_version version_id jobs \<longleftrightarrow>
     (\<exists>j \<in> set jobs. j_version_id j = Some version_id \<and> active j)"

definition count_user_jobs_in_window ::
  "timestamp \<Rightarrow> string \<Rightarrow> string \<Rightarrow> int \<Rightarrow> jobs \<Rightarrow> nat" where
  "count_user_jobs_in_window now user_id jtype window_seconds jobs =
     (let cutoff = now - seconds window_seconds
      in length (filter (\<lambda>j. j_user_id j = Some user_id \<and> j_type j = jtype
           \<and> j_started_at j \<ge> cutoff) jobs))"

definition count_cover_jobs_since :: "string \<Rightarrow> timestamp \<Rightarrow> jobs \<Rightarrow> nat" where
  "count_cover_jobs_since album_id since jobs =
     length (filter (\<lambda>j. j_album_id j = Some album_id \<and> of_type COVER j
       \<and> j_status j = COMPLETED \<and> j_started_at j \<ge> since) jobs)"

definition has_active_cover_job :: "string \<Rightarrow> jobs \<Rightarrow> bool" where
  "has_active_cover_job album_id jobs \<longleftrightarrow>
     (\<exists>j \<in> set jobs. j_album_id j = Some album_id \<and> of_type COVER j \<and> active j)"

definition count_user_active_jobs :: "string \<Rightarrow> string option \<Rightarrow> jobs \<Rightarrow> nat" where
  "count_user_active_jobs user_id jtype jobs =
     length (filter (\<lambda>j. j_user_id j = Some user_id \<and> active j
       \<and> (case jtype of None \<Rightarrow> True | Some t \<Rightarrow> j_type j = t)) jobs)"

definition count_total_queued_jobs :: "jobs \<Rightarrow> nat" where
  "count_total_queued_jobs jobs = length (filter active jobs)"

definition count_queued_generation_jobs :: "jobs \<Rightarrow> nat" where
  "count_queued_generation_jobs jobs =
     length (filter (\<lambda>j. j_status j = QUEUED \<and> of_type GENERATE j) jobs)"

definition count_queued_lora_training_jobs :: "jobs \<Rightarrow> nat" where
  "count_queued_lora_training_jobs jobs =
     length (filter (\<lambda>j. j_status j = QUEUED \<and> of_type LORA_TRAINING j) jobs)"

text \<open>
  \<open>order_by(started_at.desc()).first()\<close>: the newest row; of two rows with the same start the
  first in the table (the database leaves that choice open).
\<close>

fun newest :: "jobs \<Rightarrow> job option" where
  "newest [] = None"
| "newest (j # js) =
     (case newest js of
        None \<Rightarrow> Some j
      | Some k \<Rightarrow> if j_started_at j \<ge> j_started_at k then Some j else Some k)"

definition get_last_cover_job_for_album :: "string \<Rightarrow> jobs \<Rightarrow> job option" where
  "get_last_cover_job_for_album album_id jobs =
     newest (filter (\<lambda>j. j_album_id j = Some album_id \<and> of_type COVER j) jobs)"

definition get_last_generate_job_for_song :: "string \<Rightarrow> jobs \<Rightarrow> job option" where
  "get_last_generate_job_for_song song_id jobs =
     newest (filter (\<lambda>j. j_song_id j = Some song_id \<and> of_type GENERATE j) jobs)"

definition get_active_generate_job_for_song :: "string \<Rightarrow> jobs \<Rightarrow> job option" where
  "get_active_generate_job_for_song song_id jobs =
     newest (filter (\<lambda>j. j_song_id j = Some song_id \<and> of_type GENERATE j \<and> active j) jobs)"

definition get_job :: "string \<Rightarrow> jobs \<Rightarrow> job option" where
  "get_job job_id jobs = get_row job_id jobs"

definition lock_active_job :: "string \<Rightarrow> jobs \<Rightarrow> job option" where
  "lock_active_job job_id jobs =
     (case get_row job_id jobs of
        None \<Rightarrow> None
      | Some j \<Rightarrow> if terminal j then None else Some j)"

definition get_queue_position :: "job \<Rightarrow> jobs \<Rightarrow> nat option" where
  "get_queue_position job jobs =
     (if j_status job \<noteq> QUEUED then None
      else Some (length (filter (\<lambda>j. j_status j = QUEUED \<and> j_type j = j_type job
             \<and> j_started_at j < j_started_at job) jobs) + 1))"

subsection \<open>Claiming a cover job\<close>

text \<open>
  The sub-query picks the oldest queued cover job by \<open>(started_at, id)\<close>.  Its answer and the
  UPDATE may see different tables when web processes compete, so the two halves are separate:
  \<open>claim_cover_candidate\<close> repeats the predicate on the row it updates.
\<close>

fun oldest :: "jobs \<Rightarrow> job option" where
  "oldest [] = None"
| "oldest (j # js) =
     (case oldest js of
        None \<Rightarrow> Some j
      | Some k \<Rightarrow>
          if j_started_at k < j_started_at j
             \<or> (j_started_at k = j_started_at j \<and> j_id k < j_id j)
          then Some k else Some j)"

definition claimable :: "job \<Rightarrow> bool" where
  "claimable j \<longleftrightarrow> of_type COVER j \<and> j_status j = QUEUED"

definition cover_candidate :: "jobs \<Rightarrow> string option" where
  "cover_candidate jobs = map_option j_id (oldest (filter claimable jobs))"

definition claim_cover_candidate :: "timestamp \<Rightarrow> string option \<Rightarrow> jobs \<Rightarrow> job option \<times> jobs" where
  "claim_cover_candidate now candidate jobs =
     (case candidate of
        None \<Rightarrow> (None, jobs)
      | Some cid \<Rightarrow>
          (case get_row cid jobs of
             None \<Rightarrow> (None, jobs)
           | Some j \<Rightarrow>
               if claimable j then
                 (let jobs' = put_row cid (\<lambda>j. j\<lparr>j_status := RUNNING, j_heartbeat_at := now\<rparr>) jobs
                  in (get_row cid jobs', jobs'))
               else (None, jobs)))"

definition claim_next_cover_job :: "timestamp \<Rightarrow> jobs \<Rightarrow> job option \<times> jobs" where
  "claim_next_cover_job now jobs = claim_cover_candidate now (cover_candidate jobs) jobs"

subsection \<open>Status writes\<close>

datatype 'a field_write = UNSET | Write 'a

definition apply_write :: "'a field_write \<Rightarrow> 'a option \<Rightarrow> 'a option" where
  "apply_write f old = (case f of UNSET \<Rightarrow> old | Write v \<Rightarrow> Some v)"

record job_status_update =
  u_status :: job_status
  u_progress :: rat
  u_error :: "string option"
  u_error_type :: "string option"
  u_retry_after_seconds :: "int option"
  u_queue_reason :: "string option"
  u_worker_pid :: "int field_write"
  u_current_epoch :: "int field_write"
  u_train_epochs :: "int field_write"
  u_training_started_at :: "timestamp field_write"
  u_take_index :: "int field_write"
  u_take_count :: "int field_write"
  u_phase :: "generation_phase field_write"

definition status_update :: "job_status \<Rightarrow> job_status_update" where
  "status_update status =
     \<lparr>u_status = status, u_progress = 0, u_error = None, u_error_type = None,
      u_retry_after_seconds = None, u_queue_reason = None, u_worker_pid = UNSET,
      u_current_epoch = UNSET, u_train_epochs = UNSET, u_training_started_at = UNSET,
      u_take_index = UNSET, u_take_count = UNSET, u_phase = UNSET\<rparr>"

definition GENERATING_PHASES :: "generation_phase set" where
  "GENERATING_PHASES = {WRITING, RENDERING, SAVING_TAKE}"

definition enters_running :: "job \<Rightarrow> job_status \<Rightarrow> bool" where
  "enters_running job status \<longleftrightarrow> status = RUNNING \<and> j_status job \<noteq> RUNNING"

definition move_generation_start ::
  "job \<Rightarrow> job_status \<Rightarrow> generation_phase field_write \<Rightarrow> timestamp \<Rightarrow> job" where
  "move_generation_start job status phase now =
     (let anchor = (if status \<noteq> RUNNING \<or> enters_running job status then None
                    else j_generation_started_at job);
          generating = (case phase of UNSET \<Rightarrow> False | Write p \<Rightarrow> p \<in> GENERATING_PHASES)
      in job\<lparr>j_generation_started_at :=
           (if status = RUNNING \<and> generating \<and> anchor = None then Some now else anchor)\<rparr>)"

text \<open>The loop over the fields of the update: each writes the column it names, unless unset.\<close>

definition write_fields :: "job_status_update \<Rightarrow> job \<Rightarrow> job" where
  "write_fields u j =
     j\<lparr>j_status := u_status u, j_progress := u_progress u, j_error := u_error u,
       j_error_type := u_error_type u, j_retry_after_seconds := u_retry_after_seconds u,
       j_queue_reason := u_queue_reason u,
       j_worker_pid := apply_write (u_worker_pid u) (j_worker_pid j),
       j_current_epoch := apply_write (u_current_epoch u) (j_current_epoch j),
       j_train_epochs := apply_write (u_train_epochs u) (j_train_epochs j),
       j_training_started_at := apply_write (u_training_started_at u) (j_training_started_at j),
       j_take_index := apply_write (u_take_index u) (j_take_index j),
       j_take_count := apply_write (u_take_count u) (j_take_count j),
       j_phase := apply_write (u_phase u) (j_phase j)\<rparr>"

definition write_status :: "job_status_update \<Rightarrow> timestamp \<Rightarrow> job \<Rightarrow> job" where
  "write_status u now job =
     (let status = u_status u;
          j1 = move_generation_start job status (u_phase u) now;
          j2 = (if enters_running job status then j1\<lparr>j_phase := None\<rparr> else j1);
          j3 = (if status = QUEUED then j2\<lparr>j_take_index := None, j_take_count := None\<rparr> else j2);
          j4 = write_fields u j3;
          j5 = (if status \<in> {RUNNING, PARTIAL} then j4\<lparr>j_heartbeat_at := now\<rparr> else j4)
      in if status \<in> JOB_TERMINAL_STATUSES
         then j5\<lparr>j_completed_at := Some now, j_session_id := None\<rparr> else j5)"

definition update_job_status ::
  "string \<Rightarrow> job_status_update \<Rightarrow> timestamp \<Rightarrow> jobs \<Rightarrow> bool \<times> jobs" where
  "update_job_status job_id u now jobs =
     (case get_row job_id jobs of
        None \<Rightarrow> (False, jobs)
      | Some j \<Rightarrow>
          if terminal j then (False, jobs)
          else (True, put_row job_id (write_status u now) jobs))"

definition update_job_heartbeat :: "string \<Rightarrow> timestamp \<Rightarrow> jobs \<Rightarrow> jobs" where
  "update_job_heartbeat job_id now jobs =
     (case get_row job_id jobs of
        None \<Rightarrow> jobs
      | Some j \<Rightarrow>
          if terminal j then jobs else put_row job_id (\<lambda>j. j\<lparr>j_heartbeat_at := now\<rparr>) jobs)"

subsection \<open>Recovery of stale jobs\<close>

record queued_job_verdict =
  v_error :: string
  v_error_type :: string

definition is_started_stale :: "job \<Rightarrow> timestamp \<Rightarrow> bool" where
  "is_started_stale job cutoff \<longleftrightarrow> j_started_at job < cutoff"

definition is_heartbeat_stale :: "job \<Rightarrow> timestamp \<Rightarrow> bool" where
  "is_heartbeat_stale job cutoff \<longleftrightarrow> j_heartbeat_at job < cutoff"

text \<open>\<open>settings_depth\<close> is \<open>get_settings().max_queue_depth\<close>.\<close>

definition queued_verdict ::
  "int \<Rightarrow> job \<Rightarrow> job_stale_thresholds \<Rightarrow> worker_liveness \<Rightarrow> timestamp \<Rightarrow> int option
     \<Rightarrow> queued_job_verdict option" where
  "queued_verdict settings_depth job thresholds liveness now max_queue_depth =
     (case (if liveness_signal thresholds = None then UNKNOWN else liveness) of
        DEAD \<Rightarrow> Some \<lparr>v_error = ''No worker alive for this job type '' @ em_dash @ '' please retry.'',
                      v_error_type = ''no_worker_alive''\<rparr>
      | ALIVE \<Rightarrow>
          (let depth = (case max_queue_depth of None \<Rightarrow> settings_depth | Some d \<Rightarrow> d);
               full_queue_cutoff = now - seconds (full_queue_bound_seconds thresholds depth)
           in if is_started_stale job full_queue_cutoff
              then Some \<lparr>v_error = ''Queued longer than a full queue could take '' @ em_dash
                           @ '' please retry.'',
                         v_error_type = ''queued_full_queue_bound''\<rparr>
              else None)
      | UNKNOWN \<Rightarrow>
          if is_started_stale job (now - seconds (queued_seconds thresholds))
          then Some \<lparr>v_error = ''Queued too long '' @ em_dash @ '' please retry.'',
                     v_error_type = ''queued_too_long''\<rparr>
          else None)"

text \<open>
  \<open>JobType(job.type)\<close> cannot fail here: the caller has parsed the same column already, so the
  parsed type \<open>t\<close> travels with the candidate.
\<close>

definition stale_job_verdict ::
  "int \<Rightarrow> job \<Rightarrow> job_type \<Rightarrow> job_stale_thresholds \<Rightarrow> timestamp
     \<Rightarrow> (job_type \<Rightarrow> worker_liveness option) option \<Rightarrow> int option \<Rightarrow> queued_job_verdict option" where
  "stale_job_verdict settings_depth job t thresholds now worker_liveness max_queue_depth =
     (if j_status job = QUEUED
      then queued_verdict settings_depth job thresholds (liveness_for_job_type t worker_liveness)
             now max_queue_depth
      else if \<not> is_heartbeat_stale job (now - seconds (heartbeat_seconds thresholds)) then None
      else Some \<lparr>v_error = ''Took too long to finish '' @ em_dash @ '' please retry.'',
                 v_error_type = ''heartbeat_lost''\<rparr>)"

definition fail_job :: "string \<Rightarrow> string \<Rightarrow> timestamp \<Rightarrow> job \<Rightarrow> job" where
  "fail_job error error_type completed_at j =
     j\<lparr>j_status := FAILED, j_error := Some error, j_error_type := Some error_type,
       j_completed_at := Some completed_at, j_queue_reason := None,
       j_generation_started_at := None, j_session_id := None\<rparr>"

definition recover_stale_job_if_unchanged ::
  "string \<Rightarrow> job_status \<Rightarrow> timestamp \<Rightarrow> queued_job_verdict \<Rightarrow> timestamp \<Rightarrow> jobs \<Rightarrow> bool \<times> jobs" where
  "recover_stale_job_if_unchanged job_id status heartbeat_at verdict completed_at jobs =
     (case get_row job_id jobs of
        None \<Rightarrow> (False, jobs)
      | Some row \<Rightarrow>
          if j_status row = status \<and> j_heartbeat_at row = heartbeat_at
          then (True, put_row job_id
                  (fail_job (v_error verdict) (v_error_type verdict) completed_at) jobs)
          else (False, jobs))"

text \<open>
  \<open>job\<close> is the row as it was read; \<open>seam job\<close> is what other processes do to the table before
  the update (\<open>_before_stale_job_recovery_update\<close>, which does nothing itself).
\<close>

definition recover_stale_job ::
  "(job \<Rightarrow> jobs \<Rightarrow> jobs) \<Rightarrow> int \<Rightarrow> job \<Rightarrow> job_type \<Rightarrow> job_stale_thresholds \<Rightarrow> timestamp
     \<Rightarrow> (job_type \<Rightarrow> worker_liveness option) option \<Rightarrow> int option \<Rightarrow> jobs \<Rightarrow> bool \<times> jobs" where
  "recover_stale_job seam settings_depth job t thresholds now worker_liveness max_queue_depth jobs =
     (case stale_job_verdict settings_depth job t thresholds now worker_liveness max_queue_depth of
        None \<Rightarrow> (False, jobs)
      | Some verdict \<Rightarrow>
          recover_stale_job_if_unchanged (j_id job) (j_status job) (j_heartbeat_at job) verdict now
            (seam job jobs))"

text \<open>\<open>None\<close> is the \<open>RuntimeError\<close> for an active job of a type without thresholds.\<close>

fun with_thresholds :: "rat \<Rightarrow> job list \<Rightarrow> (job \<times> job_type \<times> job_stale_thresholds) list option" where
  "with_thresholds pt [] = Some []"
| "with_thresholds pt (j # js) =
     (case parse_job_type (j_type j) of
        None \<Rightarrow> None
      | Some t \<Rightarrow> map_option (\<lambda>cs. (j, t, STALE_JOB_THRESHOLDS pt t) # cs) (with_thresholds pt js))"

definition active_jobs_with_thresholds ::
  "rat \<Rightarrow> string option \<Rightarrow> jobs \<Rightarrow> (job \<times> job_type \<times> job_stale_thresholds) list option" where
  "active_jobs_with_thresholds pt user_id jobs =
     with_thresholds pt (filter (\<lambda>j. active j
       \<and> (case user_id of None \<Rightarrow> True | Some u \<Rightarrow> j_user_id j = Some u)) jobs)"

definition count_one :: "string \<Rightarrow> (string, nat) dict \<Rightarrow> (string, nat) dict" where
  "count_one k d = dict_set k ((case map_of d k of None \<Rightarrow> 0 | Some n \<Rightarrow> n) + 1) d"

fun recover_each ::
  "(job \<Rightarrow> jobs \<Rightarrow> jobs) \<Rightarrow> int \<Rightarrow> timestamp \<Rightarrow> (job_type \<Rightarrow> worker_liveness option) option
     \<Rightarrow> int option \<Rightarrow> (job \<times> job_type \<times> job_stale_thresholds) list \<Rightarrow> (string, nat) dict \<Rightarrow> jobs
     \<Rightarrow> (string, nat) dict \<times> jobs" where
  "recover_each seam sd now live depth [] recovered jobs = (recovered, jobs)"
| "recover_each seam sd now live depth ((job, t, th) # cs) recovered jobs =
     (case recover_stale_job seam sd job t th now live depth jobs of (done, jobs') \<Rightarrow>
        recover_each seam sd now live depth cs
          (if done then count_one (j_type job) recovered else recovered) jobs')"

definition recover_stale_jobs_by_age_and_type ::
  "(job \<Rightarrow> jobs \<Rightarrow> jobs) \<Rightarrow> rat \<Rightarrow> int \<Rightarrow> string option \<Rightarrow> timestamp
     \<Rightarrow> (job_type \<Rightarrow> worker_liveness option) option \<Rightarrow> int option \<Rightarrow> jobs
     \<Rightarrow> ((string, nat) dict \<times> jobs) option" where
  "recover_stale_jobs_by_age_and_type seam pt sd user_id now live depth jobs =
     (case active_jobs_with_thresholds pt user_id jobs of
        None \<Rightarrow> None
      | Some candidates \<Rightarrow> Some (recover_each seam sd now live depth candidates [] jobs))"

text \<open>
  The recovery at a worker's start or shutdown writes through the ORM: its \<open>UPDATE\<close> names a row by its key
  alone, and sets the columns whose assigned value differs from the one the row was read with.
\<close>

definition orm_set :: "'a \<Rightarrow> 'a \<Rightarrow> 'a \<Rightarrow> 'a" where
  "orm_set read assigned current = (if assigned = read then current else assigned)"

definition fail_restarted :: "timestamp \<Rightarrow> job \<Rightarrow> job \<Rightarrow> job" where
  "fail_restarted now read j =
     j\<lparr>j_status := orm_set (j_status read) FAILED (j_status j),
       j_error := orm_set (j_error read) (Some ''Server restarted while job was in progress'') (j_error j),
       j_error_type := orm_set (j_error_type read) (Some ''server_restart'') (j_error_type j),
       j_completed_at := orm_set (j_completed_at read) (Some now) (j_completed_at j),
       j_queue_reason := orm_set (j_queue_reason read) None (j_queue_reason j),
       j_generation_started_at := orm_set (j_generation_started_at read) None (j_generation_started_at j),
       j_session_id := orm_set (j_session_id read) None (j_session_id j)\<rparr>"

definition write_restarted :: "timestamp \<Rightarrow> job \<Rightarrow> jobs \<Rightarrow> jobs" where
  "write_restarted now read jobs = put_row (j_id read) (fail_restarted now read) jobs"

text \<open>\<open>seam job_type\<close> is what other processes do to the table between the query for that type and the flush of
  its rows, which is the autoflush of the next query or the last line.\<close>

fun recover_stale_jobs_by_type ::
  "(string \<Rightarrow> jobs \<Rightarrow> jobs) \<Rightarrow> timestamp \<Rightarrow> (string \<times> job_status list) list \<Rightarrow> (string, nat) dict \<Rightarrow> jobs
     \<Rightarrow> (string, nat) dict \<times> jobs" where
  "recover_stale_jobs_by_type seam now [] recovered jobs = (recovered, jobs)"
| "recover_stale_jobs_by_type seam now ((job_type, statuses) # rest) recovered jobs =
     (let stale = filter (\<lambda>j. j_type j = job_type \<and> j_status j \<in> set statuses) jobs
      in recover_stale_jobs_by_type seam now rest
           (if stale = [] then recovered else dict_set job_type (length stale) recovered)
           (foldl (\<lambda>js job. write_restarted now job js) (seam job_type jobs) stale))"

subsection \<open>Figures of the admin page\<close>

text \<open>A pair that the result of the grouped query lacks has the count 0 here.\<close>

fun job_counts_by_type_and_status ::
  "jobs \<Rightarrow> string \<Rightarrow> job_status \<Rightarrow> nat" where
  "job_counts_by_type_and_status [] t s = 0"
| "job_counts_by_type_and_status (j # js) t s =
     (if j_type j = t \<and> j_status j = s then 1 else 0) + job_counts_by_type_and_status js t s"

fun max_time :: "timestamp option list \<Rightarrow> timestamp option" where
  "max_time [] = None"
| "max_time (None # ts) = max_time ts"
| "max_time (Some t # ts) = (case max_time ts of None \<Rightarrow> Some t | Some u \<Rightarrow> Some (max t u))"

definition last_job_failure_time :: "jobs \<Rightarrow> timestamp option" where
  "last_job_failure_time jobs =
     max_time (map j_completed_at (filter (\<lambda>j. j_status j = FAILED) jobs))"

subsection \<open>The table as a machine\<close>

text \<open>
  Every call that writes the table, as an operation.  \<open>RecoverOne\<close> and \<open>RestartWrite\<close> carry the row as
  some process read it earlier, so a run interleaves the read and the write of a recovery with
  anything; \<open>ClaimCandidate\<close> likewise carries the answer of a sub-query.
\<close>

datatype job_op =
    Create job
  | ClaimCandidate timestamp "string option"
  | ClaimNext timestamp
  | UpdateStatus string job_status_update timestamp
  | Heartbeat string timestamp
  | RecoverOne int job job_type job_stale_thresholds timestamp
      "(job_type \<Rightarrow> worker_liveness option) option" "int option"
  | RestartWrite timestamp job

fun job_step :: "jobs \<Rightarrow> job_op \<Rightarrow> jobs" where
  "job_step jobs (Create j) = (case create_job j jobs of None \<Rightarrow> jobs | Some jobs' \<Rightarrow> jobs')"
| "job_step jobs (ClaimCandidate now c) = snd (claim_cover_candidate now c jobs)"
| "job_step jobs (ClaimNext now) = snd (claim_next_cover_job now jobs)"
| "job_step jobs (UpdateStatus i u now) = snd (update_job_status i u now jobs)"
| "job_step jobs (Heartbeat i now) = update_job_heartbeat i now jobs"
| "job_step jobs (RecoverOne sd j t th now live depth) =
     snd (recover_stale_job (\<lambda>_ js. js) sd j t th now live depth jobs)"
| "job_step jobs (RestartWrite now j) = write_restarted now j jobs"

text \<open>Rows are created by \<open>new_job\<close>; a recovery has read an active row (the workers name only active
  statuses as recoverable).\<close>

fun legal_op :: "job_op \<Rightarrow> bool" where
  "legal_op (Create j) \<longleftrightarrow> j_status j = QUEUED \<and> j_completed_at j = None
     \<and> j_generation_started_at j = None"
| "legal_op (RecoverOne sd j t th now live depth) \<longleftrightarrow> active j"
| "legal_op (RestartWrite now j) \<longleftrightarrow> active j"
| "legal_op _ \<longleftrightarrow> True"

text \<open>The recovery at a restart is the one write that does not look at the row again.\<close>

fun looks_again :: "job_op \<Rightarrow> bool" where
  "looks_again (RestartWrite now j) \<longleftrightarrow> False"
| "looks_again _ \<longleftrightarrow> True"

fun restart_spares :: "string \<Rightarrow> job_op \<Rightarrow> bool" where
  "restart_spares k (RestartWrite now j) \<longleftrightarrow> j_id j \<noteq> k"
| "restart_spares k _ \<longleftrightarrow> True"

definition job_ok :: "job \<Rightarrow> bool" where
  "job_ok j \<longleftrightarrow> (j_completed_at j \<noteq> None \<longleftrightarrow> terminal j)
     \<and> (terminal j \<longrightarrow> j_session_id j = None)
     \<and> (j_generation_started_at j \<noteq> None \<longrightarrow> j_status j = RUNNING)"

definition jobs_inv :: "jobs \<Rightarrow> bool" where
  "jobs_inv jobs \<longleftrightarrow> distinct (map j_id jobs) \<and> list_all job_ok jobs"

text \<open>Row changes that keep the primary key.\<close>

definition keeps_id :: "(job \<Rightarrow> job) \<Rightarrow> bool" where
  "keeps_id f \<longleftrightarrow> (\<forall>j. j_id (f j) = j_id j)"

interpretation job_rows: keyed_row j_id keeps_id
  by unfold_locales (simp add: keeps_id_def)

named_theorems job_writes

lemma id_claim [job_writes]: "keeps_id (\<lambda>j. j\<lparr>j_status := s, j_heartbeat_at := now\<rparr>)"
  by (simp add: keeps_id_def)

lemma id_heartbeat [job_writes]: "keeps_id (\<lambda>j. j\<lparr>j_heartbeat_at := now\<rparr>)"
  by (simp add: keeps_id_def)

lemma id_fail [job_writes]: "keeps_id (fail_job e et now)"
  by (simp add: keeps_id_def fail_job_def)

lemma id_restarted [job_writes]: "keeps_id (fail_restarted now j)"
  by (simp add: keeps_id_def fail_restarted_def)

lemma id_write_status [job_writes]: "keeps_id (write_status u now)"
  by (simp add: keeps_id_def write_status_def write_fields_def move_generation_start_def Let_def)

lemma statuses: "QUEUED \<in> JOB_ACTIVE_STATUSES" "RUNNING \<in> JOB_ACTIVE_STATUSES"
  "QUEUED \<notin> JOB_TERMINAL_STATUSES" "RUNNING \<notin> JOB_TERMINAL_STATUSES"
  "FAILED \<in> JOB_TERMINAL_STATUSES" "FAILED \<notin> JOB_ACTIVE_STATUSES"
  by (simp_all add: JOB_ACTIVE_STATUSES_def JOB_TERMINAL_STATUSES_def)

lemma ok_claim: "job_ok j \<Longrightarrow> claimable j \<Longrightarrow> job_ok (j\<lparr>j_status := RUNNING, j_heartbeat_at := now\<rparr>)"
  by (auto simp: job_ok_def claimable_def statuses)

lemma ok_heartbeat: "job_ok j \<Longrightarrow> job_ok (j\<lparr>j_heartbeat_at := now\<rparr>)"
  by (simp add: job_ok_def)

lemma ok_fail: "job_ok (fail_job e et now j)"
  by (simp add: job_ok_def fail_job_def statuses)

lemma write_status_status [simp]: "j_status (write_status u now j) = u_status u"
  by (simp add: write_status_def Let_def write_fields_def)

lemma write_status_completed:
  "j_completed_at (write_status u now j) =
     (if u_status u \<in> JOB_TERMINAL_STATUSES then Some now else j_completed_at j)"
  by (simp add: write_status_def Let_def write_fields_def move_generation_start_def)

lemma write_status_session:
  "u_status u \<in> JOB_TERMINAL_STATUSES \<Longrightarrow> j_session_id (write_status u now j) = None"
  by (simp add: write_status_def Let_def)

lemma write_status_generation_start:
  "u_status u \<noteq> RUNNING \<Longrightarrow> j_generation_started_at (write_status u now j) = None"
  by (simp add: write_status_def Let_def write_fields_def move_generation_start_def)

lemma ok_write_status: "job_ok j \<Longrightarrow> \<not> terminal j \<Longrightarrow> job_ok (write_status u now j)"
  using write_status_generation_start [of u now j]
  by (cases "u_status u = RUNNING")
    (auto simp: job_ok_def write_status_completed write_status_session statuses)

lemma jobs_inv_map:
  assumes "jobs_inv jobs" and same: "\<And>j. j_id (f j) = j_id j"
    and "\<And>j. j \<in> set jobs \<Longrightarrow> job_ok j \<Longrightarrow> job_ok (f j)"
  shows "jobs_inv (map f jobs)"
proof -
  have "map j_id (map f jobs) = map j_id jobs" by (simp add: same)
  with assms(1,3) show ?thesis
    unfolding jobs_inv_def list_all_iff by (simp only: set_map ball_simps) simp
qed

lemma jobs_inv_update:
  assumes "jobs_inv jobs" and "keeps_id f"
    and "\<And>j. get_row k jobs = Some j \<Longrightarrow> job_ok j \<Longrightarrow> job_ok (f j)"
  shows "jobs_inv (put_row k f jobs)"
  unfolding table_update_def
proof (rule jobs_inv_map [OF assms(1)])
  show "j_id (if j_id j = k then f j else j) = j_id j" for j
    using assms(2) by (simp add: keeps_id_def)
  show "job_ok (if j_id j = k then f j else j)" if "j \<in> set jobs" "job_ok j" for j
    using assms(1,3) that table_get_mem [of j_id jobs j] by (auto simp: jobs_inv_def)
qed

lemma claim_candidate_inv:
  "jobs_inv jobs \<Longrightarrow> jobs_inv (snd (claim_cover_candidate now c jobs))"
  by (auto simp: claim_cover_candidate_def Let_def job_writes ok_claim
      intro!: jobs_inv_update split: option.split)

lemma recover_if_unchanged_inv:
  "jobs_inv jobs \<Longrightarrow> jobs_inv (snd (recover_stale_job_if_unchanged i s h v now jobs))"
  by (auto simp: recover_stale_job_if_unchanged_def job_writes ok_fail
      intro!: jobs_inv_update split: option.split)

lemma job_step_inv: "jobs_inv jobs \<Longrightarrow> legal_op x \<and> looks_again x \<Longrightarrow> jobs_inv (job_step jobs x)"
proof (induction x rule: legal_op.induct)
  case (1 j)
  then show ?case
    by (auto simp: create_job_def jobs_inv_def table_get_None job_ok_def statuses)
qed (auto simp: claim_next_cover_job_def claim_candidate_inv
    update_job_status_def update_job_heartbeat_def recover_stale_job_def recover_if_unchanged_inv
    job_writes ok_write_status ok_heartbeat intro!: jobs_inv_update split: option.split)

lemma terminal_not_active: "terminal j \<Longrightarrow> \<not> active j"
  by (simp add: active_or_terminal)

lemma job_step_frozen:
  "legal_op x \<and> restart_spares k x \<Longrightarrow> get_row k jobs = Some r \<Longrightarrow> terminal r \<Longrightarrow> get_row k (job_step jobs x) = Some r"
  by (induction x rule: legal_op.induct)
    (auto simp: create_job_def table_get_append claim_next_cover_job_def claim_cover_candidate_def
      update_job_status_def update_job_heartbeat_def recover_stale_job_def Let_def
      recover_stale_job_if_unchanged_def write_restarted_def job_rows.get_update job_writes claimable_def statuses
      dest: terminal_not_active split: option.split)

interpretation job_table: invariant_machine job_step jobs_inv "\<lambda>x. legal_op x \<and> looks_again x"
  by unfold_locales (simp add: job_step_inv)

interpretation job_row: frozen_machine job_step "\<lambda>_. True" "\<lambda>x. legal_op x \<and> restart_spares k x"
    "\<lambda>jobs (_ :: unit). get_row k jobs" "\<lambda>j. terminal j" for k
  by unfold_locales (simp_all add: job_step_frozen)

text \<open>The recovery is a run of such writes and of what happens meanwhile.\<close>

lemma recover_by_type_run:
  assumes "\<And>t js. \<exists>ops. list_all legal_op ops \<and> seam t js = foldl job_step js ops"
    and "\<forall>(t, sts) \<in> set recs. set sts \<subseteq> JOB_ACTIVE_STATUSES"
  shows "\<exists>ops. list_all legal_op ops \<and> snd (recover_stale_jobs_by_type seam now recs recovered jobs) = foldl job_step jobs ops"
  using assms
proof (induction seam now recs recovered jobs rule: recover_stale_jobs_by_type.induct)
  case (2 seam now t sts rest recovered jobs)
  let ?stale = "filter (\<lambda>j. j_type j = t \<and> j_status j \<in> set sts) jobs"
  obtain ops where ops: "list_all legal_op ops" "seam t jobs = foldl job_step jobs ops" using 2(2) by blast
  obtain ops' where rest: "list_all legal_op ops'"
    "snd (recover_stale_jobs_by_type seam now rest (if ?stale = [] then recovered else dict_set t (length ?stale) recovered)
       (foldl (\<lambda>js job. write_restarted now job js) (seam t jobs) ?stale))
     = foldl job_step (foldl (\<lambda>js job. write_restarted now job js) (seam t jobs) ?stale) ops'"
    using 2(1) [OF refl 2(2)] 2(3) by auto
  have writes: "foldl (\<lambda>js job. write_restarted now job js) js rows = foldl job_step js (map (RestartWrite now) rows)" for js rows
    by (induction rows arbitrary: js) simp_all
  have "list_all legal_op (map (RestartWrite now) ?stale)" using 2(3) by (auto simp: list_all_iff)
  then have "list_all legal_op (ops @ map (RestartWrite now) ?stale @ ops')" using ops(1) rest(1) by simp
  moreover have "snd (recover_stale_jobs_by_type seam now ((t, sts) # rest) recovered jobs)
      = foldl job_step jobs (ops @ map (RestartWrite now) ?stale @ ops')"
    using rest(2) by (simp add: Let_def writes ops(2) del: if_split)
  ultimately show ?case by blast
qed (auto intro: exI [of _ "[]"])

subsection \<open>Claims\<close>

lemma oldest_in: "oldest js = Some j \<Longrightarrow> j \<in> set js"
  by (induction js) (auto split: option.splits if_splits)

lemma oldest_None: "oldest js = None \<longleftrightarrow> js = []"
  by (cases js) (auto split: option.splits)

lemma oldest_le: "oldest js = Some j \<Longrightarrow> k \<in> set js \<Longrightarrow> j_started_at j \<le> j_started_at k"
proof (induction js arbitrary: j)
  case (Cons a js)
  show ?case
  proof (cases "oldest js")
    case None
    with Cons.prems show ?thesis by (simp add: oldest_None)
  next
    case (Some b)
    with Cons.IH [OF Some] Cons.prems show ?thesis by (auto split: if_splits)
  qed
qed simp

lemma oldest_position:
  assumes "oldest (filter claimable jobs) = Some j"
  shows "get_queue_position j jobs = Some 1"
proof -
  have j: "claimable j" using oldest_in [OF assms] by simp
  have "\<not> (j_status k = QUEUED \<and> j_type k = j_type j \<and> j_started_at k < j_started_at j)"
    if "k \<in> set jobs" for k
  proof
    assume "j_status k = QUEUED \<and> j_type k = j_type j \<and> j_started_at k < j_started_at j"
    then show False using oldest_le [OF assms, of k] that j by (auto simp: claimable_def)
  qed
  then have "filter (\<lambda>k. j_status k = QUEUED \<and> j_type k = j_type j
      \<and> j_started_at k < j_started_at j) jobs = []"
    by (simp add: filter_empty_conv)
  then show ?thesis using j by (simp add: get_queue_position_def claimable_def)
qed

lemma claim_cases:
  assumes "distinct (map j_id jobs)" and "claim_next_cover_job now jobs = (Some c, jobs')"
  obtains j where "oldest (filter claimable jobs) = Some j" and "j \<in> set jobs" and "claimable j"
    and "c = j\<lparr>j_status := RUNNING, j_heartbeat_at := now\<rparr>"
    and "jobs' = put_row (j_id j) (\<lambda>j. j\<lparr>j_status := RUNNING, j_heartbeat_at := now\<rparr>) jobs"
    and "get_row (j_id j) jobs = Some j"
proof -
  from assms(2) obtain j where j: "oldest (filter claimable jobs) = Some j"
    by (auto simp: claim_next_cover_job_def cover_candidate_def claim_cover_candidate_def
        split: option.splits)
  then have mem: "j \<in> set jobs" "claimable j" using oldest_in [OF j] by auto
  then have row: "get_row (j_id j) jobs = Some j" using assms(1) by (simp add: table_get_mem)
  from assms(2) have "c = j\<lparr>j_status := RUNNING, j_heartbeat_at := now\<rparr>"
    and "jobs' = put_row (j_id j) (\<lambda>j. j\<lparr>j_status := RUNNING, j_heartbeat_at := now\<rparr>) jobs"
    by (auto simp: claim_next_cover_job_def cover_candidate_def claim_cover_candidate_def j row mem
        Let_def job_rows.get_update job_writes)
  then show thesis using that j mem row by blast
qed

text \<open>C20: A claim takes the oldest queued cover job and nothing else: the claimed row was queued
  with queue position 1, is returned running with a fresh heartbeat, every other row is as
  before, and a competing process whose sub-query chose the same candidate gets nothing.\<close>

theorem claim_takes_oldest_once:
  assumes "distinct (map j_id jobs)" and "claim_next_cover_job now jobs = (Some c, jobs')"
  shows "(\<exists>j \<in> set jobs. claimable j \<and> get_queue_position j jobs = Some 1
      \<and> c = j\<lparr>j_status := RUNNING, j_heartbeat_at := now\<rparr>)
    \<and> (\<forall>k. get_row k jobs' = (if k = j_id c then Some c else get_row k jobs))
    \<and> claim_cover_candidate now2 (cover_candidate jobs) jobs' = (None, jobs')"
proof -
  obtain j where j: "oldest (filter claimable jobs) = Some j" "j \<in> set jobs" "claimable j"
      "c = j\<lparr>j_status := RUNNING, j_heartbeat_at := now\<rparr>"
      "jobs' = put_row (j_id j) (\<lambda>j. j\<lparr>j_status := RUNNING, j_heartbeat_at := now\<rparr>) jobs"
      "get_row (j_id j) jobs = Some j"
    using claim_cases [OF assms] by metis
  have rows: "get_row k jobs' = (if k = j_id c then Some c else get_row k jobs)" for k
    by (simp add: j(4,5,6) job_rows.get_update job_writes)
  have "\<not> claimable c" by (simp add: j(4) claimable_def)
  then have "claim_cover_candidate now2 (cover_candidate jobs) jobs' = (None, jobs')"
    using rows [of "j_id j"] by (simp add: cover_candidate_def j(1) claim_cover_candidate_def j(4))
  then show ?thesis using j(2,3,4) rows oldest_position [OF j(1)] by blast
qed

subsection \<open>Recovery follows the policy\<close>

definition policy_verdict ::
  "rat \<Rightarrow> int \<Rightarrow> string option \<Rightarrow> timestamp \<Rightarrow> (job_type \<Rightarrow> worker_liveness option) option
     \<Rightarrow> int option \<Rightarrow> job \<Rightarrow> queued_job_verdict option" where
  "policy_verdict pt sd user_id now live depth j =
     (if active j \<and> (case user_id of None \<Rightarrow> True | Some u \<Rightarrow> j_user_id j = Some u)
      then (case parse_job_type (j_type j) of
              None \<Rightarrow> None
            | Some t \<Rightarrow> stale_job_verdict sd j t (STALE_JOB_THRESHOLDS pt t) now live depth)
      else None)"

definition apply_policy ::
  "rat \<Rightarrow> int \<Rightarrow> string option \<Rightarrow> timestamp \<Rightarrow> (job_type \<Rightarrow> worker_liveness option) option
     \<Rightarrow> int option \<Rightarrow> job \<Rightarrow> job" where
  "apply_policy pt sd user_id now live depth j =
     (case policy_verdict pt sd user_id now live depth j of
        None \<Rightarrow> j
      | Some v \<Rightarrow> fail_job (v_error v) (v_error_type v) now j)"

lemma with_thresholds_Some:
  "with_thresholds pt js = Some cs \<longleftrightarrow>
     (\<forall>j \<in> set js. parse_job_type (j_type j) \<noteq> None)
     \<and> cs = map (\<lambda>j. (j, the (parse_job_type (j_type j)),
          STALE_JOB_THRESHOLDS pt (the (parse_job_type (j_type j))))) js"
  by (induction js arbitrary: cs) (auto split: option.splits)

text \<open>The sequence of candidates as the fold sees it, against one pass over the table.\<close>

type_synonym candidate = "job \<times> job_type \<times> job_stale_thresholds"

definition cand_id :: "candidate \<Rightarrow> string" where
  "cand_id c = j_id (fst c)"

fun outcome ::
  "int \<Rightarrow> timestamp \<Rightarrow> (job_type \<Rightarrow> worker_liveness option) option \<Rightarrow> int option \<Rightarrow> candidate
     \<Rightarrow> queued_job_verdict option" where
  "outcome sd now live depth (j, t, th) = stale_job_verdict sd j t th now live depth"

fun settle ::
  "int \<Rightarrow> timestamp \<Rightarrow> (job_type \<Rightarrow> worker_liveness option) option \<Rightarrow> int option
     \<Rightarrow> candidate list \<Rightarrow> job \<Rightarrow> job" where
  "settle sd now live depth [] k = k"
| "settle sd now live depth (c # cs) k =
     (if cand_id c = j_id k
      then (case outcome sd now live depth c of
              None \<Rightarrow> k
            | Some v \<Rightarrow> fail_job (v_error v) (v_error_type v) now k)
      else settle sd now live depth cs k)"

lemma settle_fresh: "j_id k \<notin> cand_id ` set cs \<Longrightarrow> settle sd now live depth cs k = k"
  by (induction cs) auto

definition read_from :: "jobs \<Rightarrow> candidate list \<Rightarrow> bool" where
  "read_from rows cs \<longleftrightarrow> distinct (map cand_id cs)
     \<and> (\<forall>c \<in> set cs. get_row (cand_id c) rows = Some (fst c))"

lemma read_from_Cons:
  "read_from rows ((j, t, th) # cs) \<longleftrightarrow>
     j_id j \<notin> cand_id ` set cs \<and> get_row (j_id j) rows = Some j \<and> read_from rows cs"
proof -
  have "cand_id (j, t, th) = j_id j" by (simp add: cand_id_def)
  then show ?thesis
    by (simp only: read_from_def list.set list.map distinct.simps ball_simps fst_conv set_map) blast
qed

lemma recover_first:
  assumes "read_from rows ((j, t, th) # cs)"
  shows "recover_stale_job (\<lambda>_ js. js) sd j t th now live depth rows =
     (case stale_job_verdict sd j t th now live depth of
        None \<Rightarrow> (False, rows)
      | Some v \<Rightarrow> (True, put_row (j_id j) (fail_job (v_error v) (v_error_type v) now) rows))"
  using assms by (cases "stale_job_verdict sd j t th now live depth")
    (simp_all add: read_from_Cons recover_stale_job_def recover_stale_job_if_unchanged_def)

lemma read_from_rest:
  assumes rf: "read_from rows ((j, t, th) # cs)" and f: "keeps_id f"
  shows "read_from rows cs" and "read_from (put_row (j_id j) f rows) cs"
proof -
  show rest: "read_from rows cs" using rf by (simp add: read_from_Cons)
  have "get_row (cand_id c) (put_row (j_id j) f rows) = Some (fst c)" if "c \<in> set cs" for c
  proof -
    have "cand_id c \<noteq> j_id j" using rf that unfolding read_from_Cons by (metis imageI)
    then show ?thesis using rest that job_rows.get_update [OF f] by (simp add: read_from_def)
  qed
  then show "read_from (put_row (j_id j) f rows) cs" using rest by (simp add: read_from_def)
qed

lemma fail_job_id [simp]: "j_id (fail_job e et now k) = j_id k"
  by (simp add: fail_job_def)

lemma settle_put:
  assumes "read_from rows ((j, t, th) # cs)" and "distinct (map j_id rows)"
    and "stale_job_verdict sd j t th now live depth = Some v"
  shows "map (settle sd now live depth cs)
      (put_row (j_id j) (fail_job (v_error v) (v_error_type v) now) rows)
    = map (settle sd now live depth ((j, t, th) # cs)) rows"
proof -
  have "j_id j \<notin> cand_id ` set cs" using assms(1) unfolding read_from_Cons by blast
  then have "settle sd now live depth cs (fail_job x y now k) = fail_job x y now k"
    if "j_id k = j_id j" for x y k
    by (intro settle_fresh) (simp only: fail_job_id that not_False_eq_True)
  then show ?thesis using assms(3) by (auto simp: table_update_def cand_id_def)
qed

lemma settle_skip:
  assumes "read_from rows ((j, t, th) # cs)"
    and "stale_job_verdict sd j t th now live depth = None"
  shows "settle sd now live depth cs k = settle sd now live depth ((j, t, th) # cs) k"
proof -
  have "j_id j \<notin> cand_id ` set cs" using assms(1) unfolding read_from_Cons by blast
  then show ?thesis using assms(2) by (auto simp: cand_id_def settle_fresh)
qed

lemma recover_each_settles:
  assumes "read_from rows cs" and "distinct (map j_id rows)"
  shows "recover_each (\<lambda>_ js. js) sd now live depth cs recovered rows =
    (fold count_one (map (j_type \<circ> fst) (filter (\<lambda>c. outcome sd now live depth c \<noteq> None) cs)) recovered,
     map (settle sd now live depth cs) rows)"
  using assms
proof (induction cs arbitrary: recovered rows)
  case (Cons c cs)
  obtain j t th where c: "c = (j, t, th)" by (cases c)
  note rf = Cons.prems(1) [unfolded c]
  show ?case
  proof (cases "stale_job_verdict sd j t th now live depth")
    case None
    have "map (settle sd now live depth cs) rows = map (settle sd now live depth ((j, t, th) # cs)) rows"
      using settle_skip [OF rf None] by simp
    then show ?thesis
      using Cons.IH [OF read_from_rest(1) [OF rf id_fail] Cons.prems(2)]
      by (simp add: c recover_first [OF rf] None del: settle.simps)
  next
    case (Some v)
    let ?rows = "put_row (j_id j) (fail_job (v_error v) (v_error_type v) now) rows"
    have "distinct (map j_id ?rows)"
      using Cons.prems(2) by (simp only: job_rows.keys_update [OF id_fail])
    from Cons.IH [OF read_from_rest(2) [OF rf id_fail] this] show ?thesis
      by (simp only: c recover_each.simps recover_first [OF rf] Some option.case prod.case if_True
          settle_put [OF rf Cons.prems(2) Some] filter.simps outcome.simps) simp
  qed
qed (simp add: map_idI)

lemma candidates_read:
  assumes "distinct (map j_id jobs)" and "active_jobs_with_thresholds pt user_id jobs = Some cs"
  shows "read_from jobs cs"
proof -
  obtain P where cs: "map fst cs = filter P jobs"
    using assms(2) by (auto simp: active_jobs_with_thresholds_def with_thresholds_Some o_def)
  have "distinct (map j_id (filter P jobs))" using assms(1) by (rule distinct_map_filter)
  then have "distinct (map cand_id cs)"
    unfolding cs [symmetric] by (simp add: cand_id_def [abs_def] o_def)
  moreover have "get_row (cand_id c) jobs = Some (fst c)" if "c \<in> set cs" for c
  proof -
    have "fst c \<in> set (map fst cs)" using that by simp
    then show ?thesis using assms(1) unfolding cs cand_id_def by (simp add: table_get_mem)
  qed
  ultimately show ?thesis by (simp add: read_from_def)
qed

lemma settle_member:
  "distinct (map cand_id cs) \<Longrightarrow> c \<in> set cs \<Longrightarrow> cand_id c = j_id k \<Longrightarrow>
     settle sd now live depth cs k =
       (case outcome sd now live depth c of
          None \<Rightarrow> k | Some v \<Rightarrow> fail_job (v_error v) (v_error_type v) now k)"
  by (induction cs) (auto simp: image_iff)

lemma settle_policy:
  assumes "distinct (map j_id jobs)" and "active_jobs_with_thresholds pt user_id jobs = Some cs"
    and "k \<in> set jobs"
  shows "settle sd now live depth cs k = apply_policy pt sd user_id now live depth k"
proof -
  let ?P = "\<lambda>j. active j \<and> (case user_id of None \<Rightarrow> True | Some u \<Rightarrow> j_user_id j = Some u)"
  let ?g = "\<lambda>j. (j, the (parse_job_type (j_type j)),
      STALE_JOB_THRESHOLDS pt (the (parse_job_type (j_type j))))"
  have cs: "cs = map ?g (filter ?P jobs)"
    and parsed: "\<And>j. j \<in> set jobs \<Longrightarrow> ?P j \<Longrightarrow> \<exists>t. parse_job_type (j_type j) = Some t"
    using assms(2) by (auto simp: active_jobs_with_thresholds_def with_thresholds_Some)
  note rf = candidates_read [OF assms(1,2), unfolded read_from_def]
  show ?thesis
  proof (cases "?P k")
    case True
    then have "?g k \<in> set cs" using assms(3) by (auto simp: cs)
    from settle_member [OF _ this] rf parsed [OF assms(3) True] True show ?thesis
      by (auto simp: cand_id_def apply_policy_def policy_verdict_def)
  next
    case False
    have "j_id k \<notin> cand_id ` set cs"
      using assms(1,3) False by (auto simp: cs cand_id_def distinct_map dest: inj_onD)
    then have "settle sd now live depth cs k = k" by (rule settle_fresh)
    then show ?thesis using False by (auto simp: apply_policy_def policy_verdict_def)
  qed
qed

lemma map_of_fold_count_one:
  "map_of (fold count_one ts d) t =
     (if t \<in> set ts then Some ((case map_of d t of None \<Rightarrow> 0 | Some n \<Rightarrow> n) + count_list ts t)
      else map_of d t)"
proof (induction ts arbitrary: d)
  case (Cons u ts)
  then show ?case
    by (cases "t \<in> set ts") (auto simp: count_one_def dict_simps count_list_0_iff split: option.split)
qed simp

lemma candidate_verdicts:
  assumes "active_jobs_with_thresholds pt user_id jobs = Some cs"
  shows "map (j_type \<circ> fst) (filter (\<lambda>c. outcome sd now live depth c \<noteq> None) cs)
     = map j_type (filter (\<lambda>j. policy_verdict pt sd user_id now live depth j \<noteq> None) jobs)"
proof -
  let ?P = "\<lambda>j. active j \<and> (case user_id of None \<Rightarrow> True | Some u \<Rightarrow> j_user_id j = Some u)"
  let ?g = "\<lambda>j. (j, the (parse_job_type (j_type j)),
      STALE_JOB_THRESHOLDS pt (the (parse_job_type (j_type j))))"
  let ?Q = "\<lambda>j. policy_verdict pt sd user_id now live depth j \<noteq> None"
  have cs: "cs = map ?g (filter ?P jobs)"
    and parsed: "\<And>j. j \<in> set jobs \<Longrightarrow> ?P j \<Longrightarrow> \<exists>t. parse_job_type (j_type j) = Some t"
    using assms by (auto simp: active_jobs_with_thresholds_def with_thresholds_Some)
  have "filter (\<lambda>j. outcome sd now live depth (?g j) \<noteq> None) (filter ?P jobs) = filter ?Q jobs"
    unfolding filter_filter
  proof (rule filter_cong [OF refl])
    fix j assume j: "j \<in> set jobs"
    show "(?P j \<and> outcome sd now live depth (?g j) \<noteq> None) = ?Q j"
    proof (cases "?P j")
      case True
      with parsed [OF j] obtain t where "parse_job_type (j_type j) = Some t" by blast
      with True show ?thesis by (simp add: policy_verdict_def)
    qed (auto simp: policy_verdict_def)
  qed
  then show ?thesis unfolding cs by (simp add: filter_map o_def)
qed

text \<open>C19: Recovery by age is one pass of the per-type policy: although the code reads the
  candidates, then fails each of them by an optimistic update, the outcome without interference
  is that every active job of the user with a verdict is failed with the verdict's message, no
  other row changes, and the returned counts are the numbers of failed jobs per type.\<close>

theorem recovery_is_policy:
  assumes "distinct (map j_id jobs)"
    and "recover_stale_jobs_by_age_and_type (\<lambda>_ js. js) pt sd user_id now live depth jobs
      = Some (counts, jobs')"
  shows "jobs' = map (apply_policy pt sd user_id now live depth) jobs
    \<and> map_of counts = (\<lambda>t. let n = length (filter (\<lambda>j. j_type j = t
          \<and> policy_verdict pt sd user_id now live depth j \<noteq> None) jobs)
        in if n = 0 then None else Some n)"
proof -
  obtain cs where cs: "active_jobs_with_thresholds pt user_id jobs = Some cs"
    using assms(2) by (auto simp: recover_stale_jobs_by_age_and_type_def split: option.splits)
  let ?failed = "filter (\<lambda>j. policy_verdict pt sd user_id now live depth j \<noteq> None) jobs"
  have res: "counts = fold count_one (map j_type ?failed) []"
      "jobs' = map (settle sd now live depth cs) jobs"
    using assms(2) recover_each_settles [OF candidates_read [OF assms(1) cs] assms(1),
        of sd now live depth "[]", unfolded candidate_verdicts [OF cs]]
    by (simp_all add: recover_stale_jobs_by_age_and_type_def cs)
  have "count_list (map j_type js) t = length (filter (\<lambda>j. j_type j = t) js)" for t and js :: jobs
    by (induction js) auto
  then have n: "count_list (map j_type ?failed) t
      = length (filter (\<lambda>j. j_type j = t \<and> policy_verdict pt sd user_id now live depth j \<noteq> None) jobs)"
    for t by (simp add: conj_commute)
  have "map_of counts t = (let n = length (filter (\<lambda>j. j_type j = t
          \<and> policy_verdict pt sd user_id now live depth j \<noteq> None) jobs)
        in if n = 0 then None else Some n)" for t
    unfolding res(1) map_of_fold_count_one n [symmetric]
    by (simp add: count_list_0_iff Let_def)
  then show ?thesis using res(2) settle_policy [OF assms(1) cs] by auto
qed

subsection \<open>A worker that keeps beating\<close>

definition beating :: "rat \<Rightarrow> timestamp \<Rightarrow> string \<Rightarrow> job_type \<Rightarrow> jobs \<Rightarrow> bool" where
  "beating pt now k t rows \<longleftrightarrow>
     (\<exists>r. get_row k rows = Some r \<and> j_status r = RUNNING \<and> of_type t r
        \<and> \<not> is_heartbeat_stale r (now - seconds (heartbeat_seconds (STALE_JOB_THRESHOLDS pt t))))"

definition is_running :: "string \<Rightarrow> job_type \<Rightarrow> jobs \<Rightarrow> bool" where
  "is_running k t rows \<longleftrightarrow> (\<exists>r. get_row k rows = Some r \<and> j_status r = RUNNING \<and> of_type t r)"

lemma beating_running: "beating pt now k t rows \<Longrightarrow> is_running k t rows"
  by (auto simp: beating_def is_running_def)

lemma recover_one_spares:
  assumes running: "is_running k t rows"
    and seam: "\<And>job js. is_running k t js \<Longrightarrow> beating pt now k t (seam job js)"
    and cand: "cand_id (j, u, th) = k \<Longrightarrow> u = t \<and> th = STALE_JOB_THRESHOLDS pt t"
  shows "is_running k t (snd (recover_stale_job seam sd j u th now live depth rows))"
proof (cases "stale_job_verdict sd j u th now live depth")
  case None
  then show ?thesis using running by (simp add: recover_stale_job_def)
next
  case (Some v)
  obtain r where r: "get_row k (seam j rows) = Some r" "j_status r = RUNNING" "of_type t r"
      "\<not> is_heartbeat_stale r (now - seconds (heartbeat_seconds (STALE_JOB_THRESHOLDS pt t)))"
    using seam [OF running] by (auto simp: beating_def)
  have "recover_stale_job_if_unchanged (j_id j) (j_status j) (j_heartbeat_at j) v now (seam j rows)
      = (False, seam j rows)" if "j_id j = k"
  proof -
    have "j_status j = RUNNING \<Longrightarrow> is_heartbeat_stale j (now - seconds (heartbeat_seconds th))"
      using Some by (auto simp: stale_job_verdict_def split: if_splits)
    then have "\<not> (j_status r = j_status j \<and> j_heartbeat_at r = j_heartbeat_at j)"
      using r(2,4) cand that by (auto simp: is_heartbeat_stale_def cand_id_def)
    then show ?thesis using r(1) that by (simp add: recover_stale_job_if_unchanged_def)
  qed
  moreover have "get_row k (snd (recover_stale_job_if_unchanged (j_id j) s h v now (seam j rows)))
      = Some r" if "j_id j \<noteq> k" for s h
    using that r(1) by (simp add: recover_stale_job_if_unchanged_def job_rows.get_update id_fail
        split: option.split)
  ultimately have "get_row k (snd (recover_stale_job_if_unchanged (j_id j) (j_status j)
      (j_heartbeat_at j) v now (seam j rows))) = Some r"
    using r(1) by (cases "j_id j = k") simp_all
  then show ?thesis using r(2,3) by (simp add: recover_stale_job_def Some is_running_def)
qed

lemma recover_each_spares:
  assumes "is_running k t rows"
    and "\<And>job js. is_running k t js \<Longrightarrow> beating pt now k t (seam job js)"
    and "\<forall>c \<in> set cs. cand_id c = k \<longrightarrow> snd c = (t, STALE_JOB_THRESHOLDS pt t)"
  shows "is_running k t (snd (recover_each seam sd now live depth cs recovered rows))"
  using assms(1,3)
proof (induction cs arbitrary: recovered rows)
  case (Cons c cs)
  obtain j u th where c: "c = (j, u, th)" by (cases c)
  have "is_running k t (snd (recover_stale_job seam sd j u th now live depth rows))"
    by (rule recover_one_spares [OF Cons.prems(1) assms(2)]) (use Cons.prems(2) c in auto)
  then show ?case using Cons by (auto simp: c split: prod.split)
qed simp

text \<open>C18: A worker that keeps beating keeps its job: other processes may rewrite the table between
  the moment the reaper reads a candidate and the moment it updates the row (the \<open>seam\<close>), and
  however old the heartbeat it read, a running job whose row carries a fresh heartbeat by the
  time of each update is never failed by a whole recovery pass.\<close>

theorem beating_worker_keeps_job:
  assumes "distinct (map j_id jobs)" and "is_running k t jobs"
    and "\<And>job js. is_running k t js \<Longrightarrow> beating pt now k t (seam job js)"
    and "recover_stale_jobs_by_age_and_type seam pt sd user_id now live depth jobs
      = Some (counts, jobs')"
  shows "is_running k t jobs'"
proof -
  obtain cs where cs: "active_jobs_with_thresholds pt user_id jobs = Some cs"
      "recover_each seam sd now live depth cs [] jobs = (counts, jobs')"
    using assms(4) by (auto simp: recover_stale_jobs_by_age_and_type_def split: option.splits)
  have "snd c = (t, STALE_JOB_THRESHOLDS pt t)" if "c \<in> set cs" "cand_id c = k" for c
  proof -
    have row: "get_row k jobs = Some (fst c)"
      using candidates_read [OF assms(1) cs(1)] that by (auto simp: read_from_def)
    then have "of_type t (fst c)" using assms(2) by (simp add: is_running_def)
    moreover have "snd c = (the (parse_job_type (j_type (fst c))),
        STALE_JOB_THRESHOLDS pt (the (parse_job_type (j_type (fst c)))))"
      using cs(1) that(1) by (auto simp: active_jobs_with_thresholds_def with_thresholds_Some)
    ultimately show ?thesis by simp
  qed
  then have "\<forall>c \<in> set cs. cand_id c = k \<longrightarrow> snd c = (t, STALE_JOB_THRESHOLDS pt t)" by blast
  then have "is_running k t (snd (recover_each seam sd now live depth cs [] jobs))"
    using assms(2,3) by (blast intro: recover_each_spares [where pt = pt])
  then show ?thesis by (simp add: cs(2))
qed

subsection \<open>Terminal rows, and the shape of every row\<close>

text \<open>C17: A finished job stays as it is.  Once a row is completed, failed, partial or cancelled, no sequence
  of creations, claims, status writes, heartbeats and recoveries of stale jobs, with recoveries acting on
  rows read at any earlier time, changes any column of it, and neither does the recovery of other rows
  at the restart of a worker.  The one write left out is that of a restart for a row it had read while
  the job was still active: \<open>restart_overwrites_finished_job\<close> shows what it does.\<close>

theorem terminal_jobs_frozen:
  assumes "list_all legal_op ops" and "list_all (restart_spares k) ops"
    and "get_row k jobs = Some j" and "j_status j \<in> JOB_TERMINAL_STATUSES"
  shows "get_row k (foldl job_step jobs ops) = Some j"
proof -
  have "list_all (\<lambda>x. legal_op x \<and> restart_spares k x) ops" using assms(1,2) by (simp add: list_all_iff)
  from job_row.run_frozen [OF TrueI this assms(3,4)] show ?thesis .
qed

lemma written_restarted:
  "distinct (map j_id rows) \<Longrightarrow> get_row k js = Some f \<Longrightarrow>
     get_row k (foldl (\<lambda>js job. write_restarted now job js) js rows) =
       Some (case get_row k rows of None \<Rightarrow> f | Some j \<Rightarrow> fail_restarted now j f)"
proof (induction rows arbitrary: js f)
  case (Cons j rows)
  have step: "get_row k (write_restarted now j js) = Some (if j_id j = k then fail_restarted now j f else f)"
    using Cons.prems(2) by (auto simp: write_restarted_def job_rows.get_update job_writes)
  have "j_id j = k \<Longrightarrow> get_row k rows = None" using Cons.prems(1) by (auto simp: table_get_None)
  then show ?case using Cons.IH [OF _ step] Cons.prems(1) by (simp add: table_get_def)
qed (simp add: table_get_def)

text \<open>A job that finishes while a worker restarts is lost.  The recovery at the restart selects the active
  rows and then writes them without looking again: whatever becomes of a row between the two, also
  when its job completes and its result is stored, the row ends as failed, with the message that the
  server restarted.\<close>

theorem restart_overwrites_finished_job:
  assumes "distinct (map j_id jobs)" and "get_row k jobs = Some j" and "j_status j \<in> set statuses" "active j"
    and "get_row k (seam (j_type j) jobs) = Some finished"
    and "j_error j = None"
  shows "\<exists>row. get_row k (snd (recover_stale_jobs_by_type seam now [(j_type j, statuses)] recovered jobs)) = Some row
    \<and> j_status row = FAILED \<and> j_error row = Some ''Server restarted while job was in progress''"
proof -
  let ?stale = "filter (\<lambda>i. j_type i = j_type j \<and> j_status i \<in> set statuses) jobs"
  have j: "j \<in> set jobs" "j_id j = k" using table_get_Some [OF assms(2)] by simp_all
  have ids: "distinct (map j_id ?stale)" using assms(1) by (rule distinct_map_filter)
  have "get_row k ?stale = Some j"
    using table_get_mem [OF ids, of j] j assms(3) by simp
  then have "get_row k (snd (recover_stale_jobs_by_type seam now [(j_type j, statuses)] recovered jobs))
      = Some (fail_restarted now j finished)"
    using written_restarted [OF ids assms(5), of now] by (simp add: Let_def del: if_split)
  moreover have "j_status j \<noteq> FAILED" using assms(4) statuses by auto
  ultimately show ?thesis using assms(6) by (simp add: fail_restarted_def orm_set_def)
qed

text \<open>In every table reached without a restart primary keys are unique, a job has a completion time exactly
  when it is terminal, a terminal job holds no session, and only a running job carries the
  anchor of the remaining-time estimate.\<close>

theorem reachable_rows_well_formed:
  assumes "list_all (\<lambda>x. legal_op x \<and> looks_again x) ops"
  shows "distinct (map j_id (foldl job_step [] ops))
    \<and> list_all job_ok (foldl job_step [] ops)"
proof -
  have "jobs_inv []" by (simp add: jobs_inv_def)
  from job_table.run_inv [OF this assms] show ?thesis by (simp add: jobs_inv_def)
qed

subsection \<open>Examples\<close>

definition demo_job :: "string \<Rightarrow> timestamp \<Rightarrow> job" where
  "demo_job i start = new_job i start ''cover'' (Some ''u'') None None None None"

theorem claim_takes_oldest_once_witness:
  "get_row ''a'' (snd (claim_next_cover_job 9 [demo_job ''b'' 5, demo_job ''a'' 3]))
     = Some ((demo_job ''a'' 3)\<lparr>j_status := RUNNING, j_heartbeat_at := 9\<rparr>)"
proof -
  let ?jobs = "[demo_job ''b'' 5, demo_job ''a'' 3]"
  have "claim_next_cover_job 9 ?jobs
      = (Some ((demo_job ''a'' 3)\<lparr>j_status := RUNNING, j_heartbeat_at := 9\<rparr>),
         [demo_job ''b'' 5, (demo_job ''a'' 3)\<lparr>j_status := RUNNING, j_heartbeat_at := 9\<rparr>])"
    by (simp add: claim_next_cover_job_def cover_candidate_def claimable_def demo_job_def new_job_def
        claim_cover_candidate_def table_get_def table_update_def)
  from this claim_takes_oldest_once [OF _ this] show ?thesis
    by (simp add: demo_job_def new_job_def)
qed

theorem recovery_is_policy_witness:
  "apply_policy 600 50 None (seconds 1000) None None (demo_job ''a'' 0)
     = fail_job (''Queued too long '' @ em_dash @ '' please retry.'') ''queued_too_long'' (seconds 1000)
         (demo_job ''a'' 0)"
proof -
  let ?jobs = "[demo_job ''a'' 0]"
  have parse: "parse_job_type ''cover'' = Some COVER"
    using parse_job_type_value [of COVER] by simp
  have eq: "recover_stale_jobs_by_age_and_type (\<lambda>_ js. js) 600 50 None (seconds 1000) None None ?jobs
      = Some ([(''cover'', 1)], [fail_job (''Queued too long '' @ em_dash @ '' please retry.'')
          ''queued_too_long'' (seconds 1000) (demo_job ''a'' 0)])"
    by (simp add: recover_stale_jobs_by_age_and_type_def active_jobs_with_thresholds_def parse
        demo_job_def new_job_def statuses recover_stale_job_def stale_job_verdict_def
        liveness_for_job_type_def queued_verdict_def web_thresholds_def is_started_stale_def seconds_def
        recover_stale_job_if_unchanged_def table_get_def table_update_def count_one_def fail_job_def)
  from recovery_is_policy [OF _ eq] show ?thesis by simp
qed

theorem beating_worker_keeps_job_witness:
  "is_running ''a'' COVER [(demo_job ''a'' 0)\<lparr>j_status := RUNNING, j_heartbeat_at := seconds 1000\<rparr>]"
proof -
  let ?job = "(demo_job ''a'' 0)\<lparr>j_status := RUNNING\<rparr>"
  let ?seam = "\<lambda>_ :: job. put_row ''a'' (\<lambda>j. j\<lparr>j_heartbeat_at := seconds 1000\<rparr>)"
  have parse: "parse_job_type ''cover'' = Some COVER"
    using parse_job_type_value [of COVER] by simp
  have "recover_stale_jobs_by_age_and_type ?seam 600 50 None (seconds 1000) None None [?job]
      = Some ([], [?job\<lparr>j_heartbeat_at := seconds 1000\<rparr>])"
    by (simp add: recover_stale_jobs_by_age_and_type_def active_jobs_with_thresholds_def parse
        demo_job_def new_job_def statuses recover_stale_job_def stale_job_verdict_def
        is_heartbeat_stale_def web_thresholds_def seconds_def
        recover_stale_job_if_unchanged_def table_get_def table_update_def)
  from beating_worker_keeps_job [OF _ _ _ this, where k = "''a''" and t = COVER]
  show ?thesis
    by (auto simp: demo_job_def new_job_def is_running_def beating_def table_get_def is_heartbeat_stale_def
        web_thresholds_def seconds_def job_rows.get_update id_heartbeat)
qed

theorem terminal_jobs_frozen_witness:
  "get_row ''a'' (foldl job_step [fail_job ''e'' ''t'' 3 (demo_job ''a'' 0)]
     [Heartbeat ''a'' 5, RestartWrite 7 (demo_job ''b'' 1), UpdateStatus ''a'' (status_update RUNNING) 6])
   = Some (fail_job ''e'' ''t'' 3 (demo_job ''a'' 0))"
  by (rule terminal_jobs_frozen)
    (simp_all add: table_get_def, simp_all add: fail_job_def demo_job_def new_job_def statuses)

text \<open>The worker completes the job after the query of the restart has read it as queued.\<close>

theorem restart_overwrites_finished_job_witness:
  "map_option j_status (get_row ''a'' (snd (update_job_status ''a'' (status_update COMPLETED) 6 [demo_job ''a'' 0]))) = Some COMPLETED
   \<and> map_option j_status (get_row ''a'' (snd (recover_stale_jobs_by_type
       (\<lambda>_ js. snd (update_job_status ''a'' (status_update COMPLETED) 6 js)) 7 [(''cover'', [QUEUED, RUNNING])] [] [demo_job ''a'' 0])))
     = Some FAILED"
proof -
  let ?done = "\<lambda>js. snd (update_job_status ''a'' (status_update COMPLETED) 6 js)"
  obtain row where row: "get_row ''a'' (?done [demo_job ''a'' 0]) = Some row" "j_status row = COMPLETED"
  proof -
    have "(case get_row ''a'' (?done [demo_job ''a'' 0]) of None \<Rightarrow> False | Some row \<Rightarrow> j_status row = COMPLETED)"
      by code_simp
    then show ?thesis using that by (auto split: option.splits)
  qed
  have job: "j_type (demo_job ''a'' 0) = ''cover''" "j_status (demo_job ''a'' 0) = QUEUED" "j_error (demo_job ''a'' 0) = None"
    "get_row ''a'' [demo_job ''a'' 0] = Some (demo_job ''a'' 0)"
    by (simp_all add: demo_job_def new_job_def table_get_def)
  show ?thesis
    using restart_overwrites_finished_job [of "[demo_job ''a'' 0]" "''a''" "demo_job ''a'' 0" "[QUEUED, RUNNING]"
        "\<lambda>_. ?done" row 7 "[]"] row job statuses(1) by (auto simp del: recover_stale_jobs_by_type.simps)
qed

theorem reachable_rows_well_formed_witness:
  "list_all job_ok (foldl job_step [] [Create (demo_job ''a'' 0), ClaimNext 4,
     UpdateStatus ''a'' (status_update COMPLETED) 6])"
  using reachable_rows_well_formed [of "[Create (demo_job ''a'' 0), ClaimNext 4,
      UpdateStatus ''a'' (status_update COMPLETED) 6]"]
  by (simp add: demo_job_def new_job_def)

end
