(* ===== verification/Task_Store.thy ===== *)
theory Task_Store
  imports Prelude
begin

text \<open>
  The worker's task store (\<open>src/src/acestep_worker/task_store.py\<close>, task types of
  \<open>models.py\<close>, phases of \<open>acestep_engine/progress.py\<close>).  Every method runs under one lock, so
  it is one function on the store; the queue of a subscriber is a numbered list inside the
  store, because the task and the generator share it.  Result files are the paths that exist
  on disk; \<open>unlinkable\<close> says which of them the operating system lets go.  The clock reading and
  the fresh identifier of a task are arguments.
\<close>

subsection \<open>Tasks, events and the store\<close>

datatype acestep_phase = Loading_Model | Writing | Rendering

datatype task_kind = Generate_Task | Download_Task | Train_Lora_Task

datatype task_state = Pending | Running | Done | Error

datatype task_error_kind = Gpu_Out_Of_Memory

datatype task_result =
    GenerationTaskResult string int string string "int option"
  | TrainLoraTaskResult string string int "rat option"
  | DownloadTaskResult string int

record task_snapshot =
  t_task_id :: string
  t_kind :: task_kind
  t_state :: task_state
  t_progress :: rat
  t_phase :: "acestep_phase option"
  t_current_epoch :: "int option"
  t_train_epochs :: "int option"
  t_training_started_at :: "timestamp option"
  t_result :: "task_result option"
  t_error :: "string option"
  t_error_kind :: "task_error_kind option"
  t_created_at :: timestamp
  t_updated_at :: timestamp

record task = task_snapshot +
  t_terminal_at :: "timestamp option"
  t_result_file :: "string option"
  t_subscribers :: "nat list"

definition snapshot_of :: "task \<Rightarrow> task_snapshot" where
  "snapshot_of t = task_snapshot.truncate t"

datatype event_type = Progress_Event | Done_Event | Error_Event

record worker_task_event =
  ev_type :: event_type
  ev_data :: task_snapshot

definition to_event :: "task \<Rightarrow> worker_task_event" where
  "to_event t = \<lparr>ev_type = (case t_state t of Done \<Rightarrow> Done_Event | Error \<Rightarrow> Error_Event
     | _ \<Rightarrow> Progress_Event), ev_data = snapshot_of t\<rparr>"

definition TERMINAL_STATES :: "task_state set" where
  "TERMINAL_STATES = {Done, Error}"

definition ends_stream :: "worker_task_event \<Rightarrow> bool" where
  "ends_stream e \<longleftrightarrow> ev_type e = Done_Event \<or> ev_type e = Error_Event"

record task_store =
  ts_tasks :: "(string, task) dict"
  ts_queues :: "nat \<Rightarrow> worker_task_event list"
  ts_next_queue :: nat
  ts_files :: "string set"

definition init_store :: task_store where
  "init_store = \<lparr>ts_tasks = [], ts_queues = (\<lambda>_. []), ts_next_queue = 0, ts_files = {}\<rparr>"

definition get_task :: "task_store \<Rightarrow> string \<Rightarrow> task option" where
  "get_task s task_id = map_of (ts_tasks s) task_id"

subsection \<open>Creating and updating\<close>

definition new_task :: "string \<Rightarrow> task_kind \<Rightarrow> acestep_phase option \<Rightarrow> int option \<Rightarrow> timestamp \<Rightarrow> task" where
  "new_task task_id kind phase train_epochs now =
     \<lparr>t_task_id = task_id, t_kind = kind, t_state = Pending, t_progress = 0, t_phase = phase,
      t_current_epoch = (if train_epochs \<noteq> None then Some 0 else None),
      t_train_epochs = train_epochs, t_training_started_at = None, t_result = None,
      t_error = None, t_error_kind = None, t_created_at = now, t_updated_at = now,
      t_terminal_at = None, t_result_file = None, t_subscribers = []\<rparr>"

text \<open>The left side is the message of the \<open>ValueError\<close>.\<close>

definition create_task ::
  "string \<Rightarrow> task_kind \<Rightarrow> int option \<Rightarrow> acestep_phase option \<Rightarrow> timestamp \<Rightarrow> task_store
     \<Rightarrow> string + task_store" where
  "create_task task_id kind train_epochs phase now s =
     (if kind \<noteq> Train_Lora_Task \<and> train_epochs \<noteq> None
      then Inl ''Only LoRA training tasks have epochs''
      else if kind \<noteq> Generate_Task \<and> phase \<noteq> None
      then Inl ''Only generation tasks have phases''
      else Inr (s\<lparr>ts_tasks := dict_set task_id (new_task task_id kind phase train_epochs now)
                   (ts_tasks s)\<rparr>))"

text \<open>The keyword arguments of \<open>_update\<close>.\<close>

record task_update =
  up_state :: "task_state option"
  up_progress :: "rat option"
  up_phase :: "acestep_phase option"
  up_current_epoch :: "int option"
  up_training_started_at :: "timestamp option"
  up_result :: "task_result option"
  up_error :: "string option"
  up_error_kind :: "task_error_kind option"
  up_terminal :: bool
  up_result_file :: "string option"

definition no_update :: task_update where
  "no_update = \<lparr>up_state = None, up_progress = None, up_phase = None, up_current_epoch = None,
     up_training_started_at = None, up_result = None, up_error = None, up_error_kind = None,
     up_terminal = False, up_result_file = None\<rparr>"

definition given :: "'a option \<Rightarrow> 'a \<Rightarrow> 'a" where
  "given arg old = (case arg of None \<Rightarrow> old | Some x \<Rightarrow> x)"

definition given_opt :: "'a option \<Rightarrow> 'a option \<Rightarrow> 'a option" where
  "given_opt arg old = (case arg of None \<Rightarrow> old | Some x \<Rightarrow> Some x)"

definition apply_update :: "task_update \<Rightarrow> timestamp \<Rightarrow> task \<Rightarrow> task" where
  "apply_update u now t =
     (let t1 = t\<lparr>t_state := given (up_state u) (t_state t),
                 t_progress := given (up_progress u) (t_progress t),
                 t_phase := given_opt (up_phase u) (t_phase t),
                 t_current_epoch := given_opt (up_current_epoch u) (t_current_epoch t),
                 t_training_started_at :=
                   given_opt (up_training_started_at u) (t_training_started_at t),
                 t_result := given_opt (up_result u) (t_result t),
                 t_result_file := given_opt (up_result_file u) (t_result_file t)\<rparr>;
          t2 = (if up_error u \<noteq> None
                then t1\<lparr>t_error := up_error u, t_error_kind := up_error_kind u\<rparr> else t1);
          t3 = t2\<lparr>t_updated_at := now\<rparr>
      in if up_terminal u then t3\<lparr>t_terminal_at := Some now\<rparr> else t3)"

text \<open>The event is put into the queue of every subscriber.  \<open>None\<close> is the \<open>KeyError\<close>.\<close>

definition update_task :: "string \<Rightarrow> task_update \<Rightarrow> timestamp \<Rightarrow> task_store \<Rightarrow> task_store option" where
  "update_task task_id u now s =
     (case get_task s task_id of
        None \<Rightarrow> None
      | Some t \<Rightarrow>
          (let t' = apply_update u now t; event = to_event t'
           in Some (s\<lparr>ts_tasks := dict_set task_id t' (ts_tasks s),
                      ts_queues := (\<lambda>q. if q \<in> set (t_subscribers t')
                        then ts_queues s q @ [event] else ts_queues s q)\<rparr>)))"

definition mark_running :: "string \<Rightarrow> timestamp \<Rightarrow> task_store \<Rightarrow> task_store option" where
  "mark_running task_id now = update_task task_id (no_update\<lparr>up_state := Some Running\<rparr>) now"

definition mark_training_started :: "string \<Rightarrow> timestamp \<Rightarrow> task_store \<Rightarrow> task_store option" where
  "mark_training_started task_id now =
     update_task task_id (no_update\<lparr>up_training_started_at := Some now\<rparr>) now"

definition update_progress ::
  "string \<Rightarrow> rat \<Rightarrow> acestep_phase option \<Rightarrow> int option \<Rightarrow> timestamp \<Rightarrow> task_store \<Rightarrow> task_store option" where
  "update_progress task_id progress phase current_epoch now =
     update_task task_id (no_update\<lparr>up_progress := Some progress, up_phase := phase,
       up_current_epoch := current_epoch\<rparr>) now"

definition complete_task ::
  "string \<Rightarrow> task_result \<Rightarrow> string option \<Rightarrow> timestamp \<Rightarrow> task_store \<Rightarrow> task_store option" where
  "complete_task task_id result result_file now =
     update_task task_id (no_update\<lparr>up_state := Some Done, up_progress := Some 1,
       up_result := Some result, up_terminal := True, up_result_file := result_file\<rparr>) now"

definition fail_task ::
  "string \<Rightarrow> string \<Rightarrow> task_error_kind option \<Rightarrow> timestamp \<Rightarrow> task_store \<Rightarrow> task_store option" where
  "fail_task task_id message error_kind now =
     update_task task_id (no_update\<lparr>up_state := Some Error, up_error := Some message,
       up_error_kind := error_kind, up_terminal := True\<rparr>) now"

subsection \<open>Result files\<close>

definition removed :: "(string \<Rightarrow> bool) \<Rightarrow> string option \<Rightarrow> string set \<Rightarrow> bool \<times> string set" where
  "removed unlinkable path files =
     (case path of
        None \<Rightarrow> (True, files)
      | Some p \<Rightarrow> if unlinkable p then (True, files - {p}) else (False, files))"

text \<open>The path whose contents the caller gets a handle on.\<close>

definition open_result :: "string \<Rightarrow> task_store \<Rightarrow> string option" where
  "open_result task_id s =
     (case get_task s task_id of
        None \<Rightarrow> None
      | Some t \<Rightarrow>
          (case t_result_file t of
             None \<Rightarrow> None
           | Some p \<Rightarrow> if p \<in> ts_files s then Some p else None))"

datatype result_discard = UNKNOWN_TASK | REMOVED | KEPT

definition discard_result ::
  "(string \<Rightarrow> bool) \<Rightarrow> string \<Rightarrow> task_store \<Rightarrow> result_discard \<times> task_store" where
  "discard_result unlinkable task_id s =
     (case get_task s task_id of
        None \<Rightarrow> (UNKNOWN_TASK, s)
      | Some t \<Rightarrow>
          (case removed unlinkable (t_result_file t) (ts_files s) of
             (False, files) \<Rightarrow> (KEPT, s\<lparr>ts_files := files\<rparr>)
           | (True, files) \<Rightarrow>
               (REMOVED, s\<lparr>ts_tasks := dict_set task_id (t\<lparr>t_result_file := None\<rparr>) (ts_tasks s),
                           ts_files := files\<rparr>)))"

definition overdue :: "int \<Rightarrow> timestamp \<Rightarrow> task \<Rightarrow> bool" where
  "overdue retention cutoff t \<longleftrightarrow>
     (case t_terminal_at t of None \<Rightarrow> False | Some ended \<Rightarrow> cutoff - ended > retention)"

fun remove_files ::
  "(string \<Rightarrow> bool) \<Rightarrow> (string \<times> task) list \<Rightarrow> string set \<Rightarrow> string list \<times> string set" where
  "remove_files unlinkable [] files = ([], files)"
| "remove_files unlinkable ((tid, t) # rest) files =
     (case removed unlinkable (t_result_file t) files of
        (ok, files1) \<Rightarrow>
          (case remove_files unlinkable rest files1 of
             (tids, files2) \<Rightarrow> (if ok then tid # tids else tids, files2)))"

definition cleanup_terminal ::
  "(string \<Rightarrow> bool) \<Rightarrow> int \<Rightarrow> timestamp \<Rightarrow> task_store \<Rightarrow> nat \<times> task_store" where
  "cleanup_terminal unlinkable retention cutoff s =
     (let to_drop = filter (\<lambda>(tid, t). overdue retention cutoff t) (ts_tasks s)
      in case remove_files unlinkable to_drop (ts_files s) of
           (gone, files) \<Rightarrow>
             (length gone, s\<lparr>ts_tasks := foldl (\<lambda>d tid. dict_del tid d) (ts_tasks s) gone,
                             ts_files := files\<rparr>))"

definition store_size :: "task_store \<Rightarrow> nat" where
  "store_size s = length (ts_tasks s)"

subsection \<open>Subscriptions\<close>

text \<open>
  The generator after a \<open>yield\<close>: it knows its task and its queue, and whether the event it
  yielded ends the stream.  The first call registers the queue and yields the current state.
\<close>

record subscription =
  sub_task :: string
  sub_queue :: nat
  sub_ends :: bool

definition subscribe ::
  "string \<Rightarrow> task_store \<Rightarrow> (worker_task_event \<times> subscription \<times> task_store) option" where
  "subscribe task_id s =
     (case get_task s task_id of
        None \<Rightarrow> None
      | Some t \<Rightarrow>
          (let q = ts_next_queue s
           in Some (to_event t,
                \<lparr>sub_task = task_id, sub_queue = q, sub_ends = t_state t \<in> TERMINAL_STATES\<rparr>,
                s\<lparr>ts_tasks := dict_set task_id (t\<lparr>t_subscribers := t_subscribers t @ [q]\<rparr>) (ts_tasks s),
                  ts_queues := (ts_queues s)(q := []), ts_next_queue := q + 1\<rparr>)))"

text \<open>The \<open>finally\<close> block.\<close>

definition unsubscribe :: "subscription \<Rightarrow> task_store \<Rightarrow> task_store" where
  "unsubscribe sub s =
     (case get_task s (sub_task sub) of
        None \<Rightarrow> s
      | Some t \<Rightarrow>
          if sub_queue sub \<in> set (t_subscribers t)
          then s\<lparr>ts_tasks := dict_set (sub_task sub)
                   (t\<lparr>t_subscribers := remove1 (sub_queue sub) (t_subscribers t)\<rparr>) (ts_tasks s)\<rparr>
          else s)"

datatype next_result = Stopped | Blocked | Yielded worker_task_event subscription

definition next_event :: "subscription \<Rightarrow> task_store \<Rightarrow> next_result \<times> task_store" where
  "next_event sub s =
     (if sub_ends sub then (Stopped, unsubscribe sub s)
      else case ts_queues s (sub_queue sub) of
        [] \<Rightarrow> (Blocked, s)
      | e # es \<Rightarrow> (Yielded e (sub\<lparr>sub_ends := ends_stream e\<rparr>),
                   s\<lparr>ts_queues := (ts_queues s)(sub_queue sub := es)\<rparr>))"

subsection \<open>Runs of the store\<close>

datatype store_op =
    Create string task_kind "int option" "acestep_phase option" timestamp
  | Update string task_update timestamp
  | Discard "string \<Rightarrow> bool" string
  | Cleanup "string \<Rightarrow> bool" int timestamp
  | Write_File string
  | Subscribe string
  | Next subscription
  | Close subscription

fun store_step :: "task_store \<Rightarrow> store_op \<Rightarrow> task_store" where
  "store_step s (Create tid kind epochs phase now) =
     (case create_task tid kind epochs phase now s of Inl _ \<Rightarrow> s | Inr s' \<Rightarrow> s')"
| "store_step s (Update tid u now) = (case update_task tid u now s of None \<Rightarrow> s | Some s' \<Rightarrow> s')"
| "store_step s (Discard ul tid) = snd (discard_result ul tid s)"
| "store_step s (Cleanup ul retention now) = snd (cleanup_terminal ul retention now s)"
| "store_step s (Write_File p) = s\<lparr>ts_files := insert p (ts_files s)\<rparr>"
| "store_step s (Subscribe tid) = (case subscribe tid s of None \<Rightarrow> s | Some (_, _, s') \<Rightarrow> s')"
| "store_step s (Next sub) = snd (next_event sub s)"
| "store_step s (Close sub) = unsubscribe sub s"

text \<open>The events one task produces during a run, whoever listens.\<close>

definition step_events :: "string \<Rightarrow> task_store \<Rightarrow> store_op \<Rightarrow> worker_task_event list" where
  "step_events tid s x =
     (case x of
        Update tid' u now \<Rightarrow>
          (if tid' = tid
           then (case get_task s tid of None \<Rightarrow> [] | Some t \<Rightarrow> [to_event (apply_update u now t)])
           else [])
      | _ \<Rightarrow> [])"

fun task_events :: "string \<Rightarrow> task_store \<Rightarrow> store_op list \<Rightarrow> worker_task_event list" where
  "task_events tid s [] = []"
| "task_events tid s (x # xs) = step_events tid s x @ task_events tid (store_step s x) xs"

text \<open>What a consumer receives that keeps asking until the stream stops or would wait.\<close>

fun drain :: "nat \<Rightarrow> subscription \<Rightarrow> task_store \<Rightarrow> worker_task_event list \<times> bool" where
  "drain 0 sub s = ([], False)"
| "drain (Suc n) sub s =
     (case next_event sub s of
        (Stopped, s') \<Rightarrow> ([], True)
      | (Blocked, s') \<Rightarrow> ([], False)
      | (Yielded e sub', s') \<Rightarrow> (case drain n sub' s' of (es, stopped) \<Rightarrow> (e # es, stopped)))"

fun upto_end :: "worker_task_event list \<Rightarrow> worker_task_event list" where
  "upto_end [] = []"
| "upto_end (e # es) = (if ends_stream e then [e] else e # upto_end es)"

text \<open>Operations of others: identifiers are not reused, and the queue belongs to one consumer.\<close>

fun others :: "string \<Rightarrow> nat \<Rightarrow> store_op \<Rightarrow> bool" where
  "others tid q (Create tid' kind epochs phase now) \<longleftrightarrow> tid' \<noteq> tid"
| "others tid q (Next sub) \<longleftrightarrow> sub_queue sub \<noteq> q"
| "others tid q (Close sub) \<longleftrightarrow> sub_queue sub \<noteq> q"
| "others tid q _ \<longleftrightarrow> True"

text \<open>The queue is subscribed to at most the one task, and the next number is fresh.\<close>

definition listens :: "string \<Rightarrow> nat \<Rightarrow> task_store \<Rightarrow> bool" where
  "listens tid q s \<longleftrightarrow> q < ts_next_queue s
     \<and> (\<forall>tid' t. get_task s tid' = Some t \<longrightarrow> (q \<in> set (t_subscribers t) \<longleftrightarrow> tid' = tid))"

definition queues_fresh :: "task_store \<Rightarrow> bool" where
  "queues_fresh s \<longleftrightarrow>
     (\<forall>tid t q. get_task s tid = Some t \<longrightarrow> q \<in> set (t_subscribers t) \<longrightarrow> q < ts_next_queue s)"

named_theorems store_simps

lemma get_task_put [store_simps]:
  "get_task (s\<lparr>ts_tasks := dict_set tid t (ts_tasks s)\<rparr>) = (get_task s)(tid \<mapsto> t)"
  by (simp add: get_task_def [abs_def] dict_simps)

lemma get_task_put_queues [store_simps]:
  "get_task (s\<lparr>ts_tasks := dict_set tid t (ts_tasks s), ts_queues := qs\<rparr>) = (get_task s)(tid \<mapsto> t)"
  "get_task (s\<lparr>ts_tasks := dict_set tid t (ts_tasks s), ts_queues := qs, ts_next_queue := n\<rparr>)
     = (get_task s)(tid \<mapsto> t)"
  "get_task (s\<lparr>ts_tasks := dict_set tid t (ts_tasks s), ts_files := fs\<rparr>) = (get_task s)(tid \<mapsto> t)"
  "get_task (s\<lparr>ts_queues := qs\<rparr>) = get_task s"
  "get_task (s\<lparr>ts_files := fs\<rparr>) = get_task s"
  by (simp_all add: get_task_def [abs_def] dict_simps)

lemma subscribers_apply_update [store_simps]: "t_subscribers (apply_update u now t) = t_subscribers t"
  by (simp add: apply_update_def Let_def)

lemma foldl_dict_del:
  "map_of (foldl (\<lambda>d tid. dict_del tid d) d tids) = (map_of d) |` (- set tids)"
  by (induction tids arbitrary: d) (auto simp: dict_simps restrict_map_def fun_eq_iff)

lemma cleanup_tasks:
  "get_task (snd (cleanup_terminal ul retention now s)) = (get_task s) |`
     (- set (fst (remove_files ul (filter (\<lambda>(tid, t). overdue retention now t) (ts_tasks s)) (ts_files s))))"
  by (simp add: cleanup_terminal_def get_task_def [abs_def] foldl_dict_del split: prod.split)

lemma cleanup_queues:
  "ts_queues (snd (cleanup_terminal ul retention now s)) = ts_queues s"
  "ts_next_queue (snd (cleanup_terminal ul retention now s)) = ts_next_queue s"
  by (simp_all add: cleanup_terminal_def split: prod.split)

lemma queues_fresh_step: "queues_fresh s \<Longrightarrow> queues_fresh (store_step s x)"
proof (induction s x rule: store_step.induct)
  case (4 s ul retention now)
  then show ?case by (simp add: queues_fresh_def cleanup_tasks cleanup_queues restrict_map_def)
next
  case (6 s tid)
  then show ?case
    by (fastforce simp: queues_fresh_def subscribe_def Let_def store_simps split: option.split if_splits)
qed (auto simp: queues_fresh_def create_task_def new_task_def update_task_def Let_def store_simps
    discard_result_def removed_def next_event_def unsubscribe_def
    split: option.splits if_splits list.split dest!: notin_set_remove1 set_remove1_subset [THEN subsetD])

lemma listens_step:
  "listens tid q s \<Longrightarrow> others tid q x \<Longrightarrow> listens tid q (store_step s x)"
proof (induction s x rule: store_step.induct)
  case (4 s ul retention now)
  then show ?case by (simp add: listens_def cleanup_tasks cleanup_queues restrict_map_def)
next
  case (8 s sub)
  then show ?case
    by (auto simp: listens_def unsubscribe_def store_simps in_set_remove1 split: option.splits)
next
  case (7 s sub)
  then show ?case
    by (auto simp: listens_def next_event_def unsubscribe_def store_simps in_set_remove1
        split: option.splits list.split)
qed (auto simp: listens_def create_task_def new_task_def update_task_def Let_def store_simps
    subscribe_def discard_result_def removed_def split: option.splits if_splits)

lemma queue_step:
  "listens tid q s \<Longrightarrow> others tid q x \<Longrightarrow>
     ts_queues (store_step s x) q = ts_queues s q @ step_events tid s x"
proof (induction s x rule: store_step.induct)
  case (2 s tid' u now)
  then show ?case
    by (auto simp: listens_def update_task_def Let_def store_simps step_events_def split: option.split)
next
  case (7 s sub)
  then show ?case
    by (auto simp: next_event_def unsubscribe_def step_events_def split: option.split list.split)
next
  case (8 s sub)
  then show ?case by (auto simp: unsubscribe_def step_events_def split: option.split)
qed (auto simp: listens_def create_task_def cleanup_queues subscribe_def Let_def step_events_def
    discard_result_def split: option.splits if_splits prod.split bool.split)

lemma queue_run:
  "listens tid q s \<Longrightarrow> list_all (others tid q) xs \<Longrightarrow>
     ts_queues (foldl store_step s xs) q = ts_queues s q @ task_events tid s xs"
  by (induction xs arbitrary: s) (simp_all add: queue_step listens_step)

lemma subscribe_listens:
  assumes "subscribe tid s = Some (e, sub, s')" and "queues_fresh s"
  shows "listens tid (sub_queue sub) s'" and "ts_queues s' (sub_queue sub) = []"
    and "sub_ends sub = ends_stream e"
proof -
  obtain t where t: "get_task s tid = Some t" using assms(1)
    by (auto simp: subscribe_def split: option.splits)
  note def = assms(1) [unfolded subscribe_def t Let_def, simplified]
  have q: "sub_queue sub = ts_next_queue s" using def by auto
  have fresh: "ts_next_queue s \<notin> set (t_subscribers t')" if "get_task s tid' = Some t'" for tid' t'
    using assms(2) that by (auto simp: queues_fresh_def)
  show "listens tid (sub_queue sub) s'"
    using def fresh t by (auto simp: listens_def store_simps split: if_splits)
  show "ts_queues s' (sub_queue sub) = []" using def by auto
  show "sub_ends sub = ends_stream e"
    using def by (auto simp: ends_stream_def to_event_def TERMINAL_STATES_def split: task_state.splits)
qed

lemma drain_upto_end:
  "\<not> sub_ends sub \<Longrightarrow> length (ts_queues s (sub_queue sub)) + 1 < n \<Longrightarrow>
     drain n sub s = (upto_end (ts_queues s (sub_queue sub)),
        \<exists>e \<in> set (ts_queues s (sub_queue sub)). ends_stream e)"
proof (induction n sub s rule: drain.induct)
  case (2 n sub s)
  show ?case
  proof (cases "ts_queues s (sub_queue sub)")
    case Nil
    then show ?thesis using 2 by (simp add: next_event_def)
  next
    case (Cons e es)
    then have next_e: "next_event sub s = (Yielded e (sub\<lparr>sub_ends := ends_stream e\<rparr>),
        s\<lparr>ts_queues := (ts_queues s)(sub_queue sub := es)\<rparr>)"
      using 2 by (simp add: next_event_def)
    show ?thesis
    proof (cases "ends_stream e")
      case True
      obtain m where "n = Suc m" using 2 Cons by (cases n) auto
      then show ?thesis using True 2(2) by (simp add: next_e Cons) (simp add: next_event_def)
    next
      case False
      then show ?thesis
        using 2(1) [OF next_e [symmetric]] 2(3) by (simp add: next_e Cons)
    qed
  qed
qed simp

lemma queues_fresh_run: "queues_fresh s \<Longrightarrow> queues_fresh (foldl store_step s xs)"
  by (induction xs arbitrary: s) (simp_all add: queues_fresh_step)

text \<open>A subscriber sees the whole rest of its task's history, in order and once: from the
  moment of the subscription, whatever creations, updates, removals, sweeps and other
  subscribers are interleaved, a consumer that drains its queue receives the events of every
  later update of the task up to and including the first \<open>done\<close> or \<open>error\<close>, and its stream
  stops exactly when such an event was among them (or was the first one).\<close>

theorem subscriber_sees_history:
  assumes "subscribe tid (foldl store_step init_store before) = Some (e, sub, s)"
    and "list_all (others tid (sub_queue sub)) after"
    and "length (task_events tid s after) + 1 < n"
  shows "drain n sub (foldl store_step s after) =
    (if ends_stream e then ([], True)
     else (upto_end (task_events tid s after), \<exists>x \<in> set (task_events tid s after). ends_stream x))"
proof -
  have "queues_fresh init_store" by (simp add: queues_fresh_def init_store_def get_task_def)
  then have "queues_fresh (foldl store_step init_store before)" by (rule queues_fresh_run)
  note sub = subscribe_listens [OF assms(1) this]
  have queue: "ts_queues (foldl store_step s after) (sub_queue sub) = task_events tid s after"
    using queue_run [OF sub(1) assms(2)] sub(2) by simp
  show ?thesis
  proof (cases "ends_stream e")
    case True
    then show ?thesis using sub(3) assms(3) by (cases n) (simp_all add: next_event_def)
  next
    case False
    then show ?thesis
      using drain_upto_end [of sub "foldl store_step s after" n] sub(3) assms(3)
      by (simp add: queue)
  qed
qed

subsection \<open>The sweep\<close>

definition releasable :: "(string \<Rightarrow> bool) \<Rightarrow> task \<Rightarrow> bool" where
  "releasable unlinkable t = (case t_result_file t of None \<Rightarrow> True | Some p \<Rightarrow> unlinkable p)"

lemma remove_files_eq:
  "remove_files ul ts files = (map fst (filter (\<lambda>(tid, t). releasable ul t) ts),
     files - {p. ul p \<and> (\<exists>(tid, t) \<in> set ts. t_result_file t = Some p)})"
  by (induction ul ts files rule: remove_files.induct)
    (auto simp: removed_def releasable_def split: option.splits if_splits)

definition swept :: "(string \<Rightarrow> bool) \<Rightarrow> int \<Rightarrow> timestamp \<Rightarrow> task \<Rightarrow> bool" where
  "swept ul retention now t \<longleftrightarrow> overdue retention now t \<and> releasable ul t"

lemma foldl_dict_del_filter:
  "foldl (\<lambda>d tid. dict_del tid d) d tids = filter (\<lambda>p. fst p \<notin> set tids) d"
  by (induction tids arbitrary: d) (auto simp: dict_del_def intro: filter_cong)

lemma cleanup_eq:
  assumes "distinct (dict_keys (ts_tasks s))"
  shows "cleanup_terminal ul retention now s =
    (length (filter (\<lambda>(tid, t). swept ul retention now t) (ts_tasks s)),
     s\<lparr>ts_tasks := filter (\<lambda>(tid, t). \<not> swept ul retention now t) (ts_tasks s),
       ts_files := ts_files s - {p. ul p \<and> (\<exists>(tid, t) \<in> set (ts_tasks s).
         overdue retention now t \<and> t_result_file t = Some p)}\<rparr>)"
proof -
  let ?gone = "map fst (filter (\<lambda>(tid, t). swept ul retention now t) (ts_tasks s))"
  have "tid \<in> set ?gone \<longleftrightarrow> swept ul retention now t" if "(tid, t) \<in> set (ts_tasks s)" for tid t
  proof
    assume "tid \<in> set ?gone"
    then obtain t' where "(tid, t') \<in> set (ts_tasks s)" "swept ul retention now t'" by auto
    then show "swept ul retention now t"
      using eq_key_imp_eq_value [OF assms [unfolded dict_keys_def] that] by simp
  next
    assume "swept ul retention now t"
    then show "tid \<in> set ?gone" using that by (force simp: image_iff)
  qed
  then have "filter (\<lambda>p. fst p \<notin> set ?gone) (ts_tasks s)
      = filter (\<lambda>(tid, t). \<not> swept ul retention now t) (ts_tasks s)"
    by (intro filter_cong) (simp_all only: split_paired_all fst_conv case_prod_conv)
  moreover have "map fst (filter (\<lambda>(tid, t). releasable ul t)
      (filter (\<lambda>(tid, t). overdue retention now t) (ts_tasks s))) = ?gone"
    by (simp add: swept_def split_def conj_commute)
  ultimately show ?thesis
    by (simp add: cleanup_terminal_def Let_def remove_files_eq foldl_dict_del_filter split_def
        swept_def [symmetric]) (simp add: Bex_def split_paired_Ex)
qed

lemma map_of_filter_value:
  "distinct (map fst d) \<Longrightarrow> map_of (filter (\<lambda>(k, v). \<not> P v) d) k
     = (case map_of d k of None \<Rightarrow> None | Some v \<Rightarrow> if P v then None else Some v)"
proof (induction d)
  case (Cons p d)
  obtain k' v where p: "p = (k', v)" by (cases p)
  have "map_of (filter (\<lambda>(k, v). \<not> P v) d) k' = None"
    using Cons.prems by (auto simp: p map_of_eq_None_iff)
  then show ?case using Cons by (simp add: p)
qed simp

text \<open>C24: A sweep forgets exactly the tasks whose retention has passed and whose result file the
  operating system let go: every other task is kept as it is, so a file that would not go stays
  recorded for the next sweep; no forgotten task leaves its file on disk; and the returned
  number is the number of forgotten tasks.\<close>

theorem sweep_forgets_only_freed_tasks:
  assumes "distinct (dict_keys (ts_tasks s))"
    and "cleanup_terminal ul retention now s = (n, s')"
  shows "(\<forall>tid. get_task s' tid = (case get_task s tid of
        None \<Rightarrow> None | Some t \<Rightarrow> if swept ul retention now t then None else Some t))
    \<and> (\<forall>tid t p. get_task s tid = Some t \<and> get_task s' tid = None \<and> t_result_file t = Some p
         \<longrightarrow> p \<notin> ts_files s')
    \<and> n + store_size s' = store_size s"
proof -
  have s': "s' = s\<lparr>ts_tasks := filter (\<lambda>(tid, t). \<not> swept ul retention now t) (ts_tasks s),
       ts_files := ts_files s - {p. ul p \<and> (\<exists>(tid, t) \<in> set (ts_tasks s).
         overdue retention now t \<and> t_result_file t = Some p)}\<rparr>"
    and n: "n = length (filter (\<lambda>(tid, t). swept ul retention now t) (ts_tasks s))"
    using assms(2) by (simp_all add: cleanup_eq [OF assms(1)])
  have tasks: "get_task s' tid = (case get_task s tid of
        None \<Rightarrow> None | Some t \<Rightarrow> if swept ul retention now t then None else Some t)" for tid
    using assms(1) by (simp add: s' get_task_def dict_keys_def map_of_filter_value)
  have "p \<notin> ts_files s'"
    if "get_task s tid = Some t" "get_task s' tid = None" "t_result_file t = Some p" for tid t p
  proof -
    have "swept ul retention now t" using tasks [of tid] that by (simp split: if_splits)
    moreover have "(tid, t) \<in> set (ts_tasks s)" using that(1) by (simp add: get_task_def map_of_SomeD)
    ultimately show ?thesis using that(3) by (auto simp: s' swept_def releasable_def)
  qed
  moreover have "n + store_size s' = store_size s"
    using sum_length_filter_compl [of "\<lambda>(tid, t). swept ul retention now t" "ts_tasks s"]
    by (simp add: n s' store_size_def split_def)
  ultimately show ?thesis using tasks by blast
qed

subsection \<open>Examples\<close>

theorem subscriber_sees_history_witness:
  "drain 9 \<lparr>sub_task = ''gen-1'', sub_queue = 0, sub_ends = False\<rparr>
     (foldl store_step
        ((init_store\<lparr>ts_tasks := [(''gen-1'', (new_task ''gen-1'' Generate_Task None None 0)
            \<lparr>t_subscribers := [0]\<rparr>)], ts_next_queue := 1\<rparr>))
        [Update ''gen-1'' (no_update\<lparr>up_state := Some Error, up_terminal := True\<rparr>) 5])
   = ([to_event (apply_update (no_update\<lparr>up_state := Some Error, up_terminal := True\<rparr>) 5
        ((new_task ''gen-1'' Generate_Task None None 0)\<lparr>t_subscribers := [0]\<rparr>))], True)"
proof -
  let ?s = "(init_store\<lparr>ts_tasks := [(''gen-1'', (new_task ''gen-1'' Generate_Task None None 0)
            \<lparr>t_subscribers := [0]\<rparr>)], ts_next_queue := 1\<rparr>)"
  let ?sub = "\<lparr>sub_task = ''gen-1'', sub_queue = 0 :: nat, sub_ends = False\<rparr>"
  let ?after = "[Update ''gen-1'' (no_update\<lparr>up_state := Some Error, up_terminal := True\<rparr>) 5]"
  have "subscribe ''gen-1'' (foldl store_step init_store [Create ''gen-1'' Generate_Task None None 0])
      = Some (to_event (new_task ''gen-1'' Generate_Task None None 0), ?sub, ?s)"
    by (simp add: create_task_def subscribe_def get_task_def init_store_def new_task_def
        TERMINAL_STATES_def to_event_def snapshot_of_def task_snapshot.truncate_def fun_eq_iff)
  from subscriber_sees_history [OF this, of ?after 9] show ?thesis
    by (simp add: step_events_def get_task_def new_task_def to_event_def ends_stream_def apply_update_def
        no_update_def given_def)
qed

theorem sweep_forgets_only_freed_tasks_witness:
  "get_task (snd (cleanup_terminal (\<lambda>p. False) 60 100
      (init_store\<lparr>ts_tasks := [(''t'', (new_task ''t'' Generate_Task None None 0)
         \<lparr>t_terminal_at := Some 1, t_result_file := Some ''f''\<rparr>)], ts_files := {''f''}\<rparr>))) ''t'' \<noteq> None"
proof -
  let ?t = "(new_task ''t'' Generate_Task None None 0)
      \<lparr>t_terminal_at := Some 1, t_result_file := Some ''f''\<rparr>"
  let ?s = "init_store\<lparr>ts_tasks := [(''t'', ?t)], ts_files := {''f''}\<rparr>"
  have "\<not> swept (\<lambda>p. False) 60 100 ?t" by (simp add: swept_def releasable_def)
  moreover have "get_task ?s ''t'' = Some ?t" by (simp add: get_task_def)
  ultimately show ?thesis
    using sweep_forgets_only_freed_tasks [of ?s "\<lambda>p. False" 60 100,
        OF _ prod.collapse [symmetric]]
    by (simp add: dict_keys_def)
qed

end
