(* ===== verification/Worker_Gpu.thy ===== *)
theory Worker_Gpu
  imports Model_Cache Task_Store Redis_Ops
begin

text \<open>
  Who may use a worker's GPU: the requests of \<open>src/src/acestep_worker/wrapper.py\<close>, the Redis
  scripts of \<open>heartbeat.py\<close> and of the control plane's \<open>acestep_state.py\<close>, and the restart
  after a language-model failure (\<open>lm_failure.py\<close>).  A Lua script is atomic in Redis, so it is
  one function; a request handler is one function too, since the locks it takes serialise it
  against the handlers that touch the same variables.  A background coroutine is a \<open>runner\<close>
  with the values it captured; its end is a step of its own.  Keys expire as a step of the
  environment.  The model cache and its ports come from \<open>Model_Cache\<close>, tasks from \<open>Task_Store\<close>.
\<close>

subsection \<open>Redis keys and scripts\<close>

definition queue_depth_key :: "string \<Rightarrow> string" where
  "queue_depth_key worker_id = ''songmaker:acestep:queue:'' @ worker_id"

definition gpu_hold_key :: "string \<Rightarrow> string" where
  "gpu_hold_key worker_id = ''songmaker:acestep:hold:'' @ worker_id"

definition lm_failure_key :: "string \<Rightarrow> string" where
  "lm_failure_key worker_id = ''songmaker:acestep:lm-failure:'' @ worker_id"

definition DEFAULT_TTL_SECONDS :: int where
  "DEFAULT_TTL_SECONDS = 15"

definition admit_generation :: "'w redis_ops \<Rightarrow> string \<Rightarrow> 'w \<Rightarrow> bool \<times> 'w" where
  "admit_generation R wid w =
     (if cmd_exists R (gpu_hold_key wid) w then (False, w)
      else (True, cmd_incrby R (queue_depth_key wid) 1 w))"

definition decr_queue_depth :: "'w redis_ops \<Rightarrow> string \<Rightarrow> 'w \<Rightarrow> int \<times> 'w" where
  "decr_queue_depth R wid w =
     (let w' = cmd_incrby R (queue_depth_key wid) (-1) w
      in (cmd_number R (queue_depth_key wid) w', w'))"

definition read_queue_depth :: "'w redis_ops \<Rightarrow> string \<Rightarrow> 'w \<Rightarrow> int" where
  "read_queue_depth R wid w = cmd_number R (queue_depth_key wid) w"

definition gpu_hold_matches :: "'w redis_ops \<Rightarrow> string \<Rightarrow> string \<Rightarrow> 'w \<Rightarrow> bool" where
  "gpu_hold_matches R wid token w \<longleftrightarrow> cmd_get R (gpu_hold_key wid) w = Some token"

definition reserve_gpu_hold :: "'w redis_ops \<Rightarrow> string \<Rightarrow> string \<Rightarrow> int \<Rightarrow> 'w \<Rightarrow> bool \<times> 'w" where
  "reserve_gpu_hold R wid token ttl w =
     (if cmd_exists R (gpu_hold_key wid) w then (False, w)
      else if cmd_number R (queue_depth_key wid) w > 0 then (False, w)
      else cmd_set R (gpu_hold_key wid) token (Some ttl) True w)"

definition renew_gpu_hold :: "'w redis_ops \<Rightarrow> string \<Rightarrow> string \<Rightarrow> int \<Rightarrow> 'w \<Rightarrow> bool \<times> 'w" where
  "renew_gpu_hold R wid token ttl w =
     (if cmd_get R (gpu_hold_key wid) w \<noteq> Some token then (False, w)
      else (True, cmd_expire R (gpu_hold_key wid) ttl w))"

definition release_gpu_hold :: "'w redis_ops \<Rightarrow> string \<Rightarrow> string \<Rightarrow> 'w \<Rightarrow> bool \<times> 'w" where
  "release_gpu_hold R wid token w =
     (if cmd_get R (gpu_hold_key wid) w \<noteq> Some token then (False, w)
      else (True, cmd_del R (gpu_hold_key wid) w))"

text \<open>At start-up the worker forgets what a previous process left.\<close>

definition clear_orphaned_queue :: "'w redis_ops \<Rightarrow> string \<Rightarrow> 'w \<Rightarrow> 'w" where
  "clear_orphaned_queue R wid w = cmd_del R (gpu_hold_key wid) (cmd_del R (queue_depth_key wid) w)"

subsection \<open>The worker's state\<close>

datatype runner = Generation_Runner string string | Training_Runner string string string

fun runner_mode :: "runner \<Rightarrow> string" where
  "runner_mode (Generation_Runner task_id mode) = mode"
| "runner_mode (Training_Runner task_id mode token) = mode"

record ('h, 'v, 'w) worker =
  w_cache :: "'h model_cache"
  w_store :: task_store
  w_generations :: "string set"
  w_handover_tokens :: "string set"
  w_handover_tasks :: "(string, string) dict"
  w_last_error :: "(string \<times> timestamp) option"
  w_runners :: "runner list"
  w_ports_world :: 'v
  w_redis :: 'w

datatype worker_error = Http http_exception | Value_Error string | Runtime_Error string

type_synonym ('h, 'v, 'w, 'a) handler = "(worker_error + 'a) \<times> ('h, 'v, 'w) worker"

definition mode_not_loaded :: "string \<Rightarrow> worker_error" where
  "mode_not_loaded mode =
     Http (HTTPException 409 (''Mode '' @ mode @ '' not loaded; call /load_model first''))"

subsection \<open>Generations\<close>

definition reserve_generation_task ::
  "'w redis_ops \<Rightarrow> string \<Rightarrow> string \<Rightarrow> string \<Rightarrow> timestamp \<Rightarrow> ('h, 'v, 'w) worker
     \<Rightarrow> ('h, 'v, 'w, 'h loaded_model) handler" where
  "reserve_generation_task R wid mode task_id now s =
     (if cmd_exists R (gpu_hold_key wid) (w_redis s)
      then (Inl (Http (HTTPException 409 ''GPU is held for LoRA training'')), s)
      else case acquire_for_use mode (w_cache s) of
        (None, c) \<Rightarrow> (Inl (mode_not_loaded mode), s\<lparr>w_cache := c\<rparr>)
      | (Some model, c) \<Rightarrow>
          (case create_task task_id Generate_Task None (Some Loading_Model) now (w_store s) of
             Inl e \<Rightarrow> (Inl (Value_Error e), s\<lparr>w_cache := release mode c\<rparr>)
           | Inr store \<Rightarrow>
               (Inr model, s\<lparr>w_cache := c, w_store := store,
                              w_generations := insert task_id (w_generations s)\<rparr>)))"

definition release_generation_task ::
  "string \<Rightarrow> string \<Rightarrow> ('h, 'v, 'w) worker \<Rightarrow> ('h, 'v, 'w) worker" where
  "release_generation_task mode task_id s =
     s\<lparr>w_cache := release mode (w_cache s), w_generations := w_generations s - {task_id}\<rparr>"

text \<open>\<open>spawn\<close> is the \<open>RuntimeError\<close> of a failed \<open>spawn_background\<close>, if it fails.\<close>

definition generate ::
  "'w redis_ops \<Rightarrow> string \<Rightarrow> string \<Rightarrow> string \<Rightarrow> timestamp \<Rightarrow> string option \<Rightarrow> ('h, 'v, 'w) worker
     \<Rightarrow> ('h, 'v, 'w, string) handler" where
  "generate R wid mode task_id now spawn s =
     (case reserve_generation_task R wid mode task_id now s of
        (Inl e, s1) \<Rightarrow> (Inl e, s1)
      | (Inr model, s1) \<Rightarrow>
          (case spawn of
             Some e \<Rightarrow> (Inl (Runtime_Error e), release_generation_task mode task_id s1)
           | None \<Rightarrow> (Inr task_id, s1\<lparr>w_runners := Generation_Runner task_id mode # w_runners s1\<rparr>)))"

text \<open>
  The end of \<open>_run_generation_with_release\<close>; \<open>returned\<close> is false when the engine's runner
  raised or was cancelled.  What the runner did to its task is in the store by then.
\<close>

definition end_generation ::
  "string \<Rightarrow> string \<Rightarrow> bool \<Rightarrow> ('h, 'v, 'w) worker \<Rightarrow> ('h, 'v, 'w) worker" where
  "end_generation mode task_id returned s =
     (let s1 = (if returned
           then (case get_task (w_store s) task_id of
                   None \<Rightarrow> s
                 | Some t \<Rightarrow>
                     (case t_error t of
                        Some e \<Rightarrow> if t_state t = Error
                          then s\<lparr>w_last_error := Some (e, t_updated_at t)\<rparr> else s
                      | None \<Rightarrow> s))
           else s)
      in release_generation_task mode task_id
           (s1\<lparr>w_runners := remove1 (Generation_Runner task_id mode) (w_runners s1)\<rparr>))"

subsection \<open>The hold of a training coordinator\<close>

definition reserve_hold ::
  "'w redis_ops \<Rightarrow> string \<Rightarrow> string \<Rightarrow> ('h, 'v, 'w) worker \<Rightarrow> ('h, 'v, 'w, string) handler" where
  "reserve_hold R wid token s =
     (if w_generations s \<noteq> {} then (Inl (Http (HTTPException 409 ''GPU is busy or held'')), s)
      else case reserve_gpu_hold R wid token DEFAULT_TTL_SECONDS (w_redis s) of
        (ok, w) \<Rightarrow>
          (if \<not> ok then Inl (Http (HTTPException 409 ''GPU is busy or held'')) else Inr token,
           s\<lparr>w_redis := w\<rparr>))"

definition renew_hold ::
  "'w redis_ops \<Rightarrow> string \<Rightarrow> string \<Rightarrow> ('h, 'v, 'w) worker \<Rightarrow> ('h, 'v, 'w, unit) handler" where
  "renew_hold R wid token s =
     (case renew_gpu_hold R wid token DEFAULT_TTL_SECONDS (w_redis s) of
        (ok, w) \<Rightarrow>
          (if \<not> ok then Inl (Http (HTTPException 409 ''GPU hold token is invalid'')) else Inr (),
           s\<lparr>w_redis := w\<rparr>))"

definition release_hold ::
  "'w redis_ops \<Rightarrow> string \<Rightarrow> string \<Rightarrow> ('h, 'v, 'w) worker \<Rightarrow> ('h, 'v, 'w, unit) handler" where
  "release_hold R wid token s =
     (if token \<in> w_handover_tokens s
      then (Inl (Http (HTTPException 409 ''GPU hold is owned by a training task'')), s)
      else case release_gpu_hold R wid token (w_redis s) of
        (ok, w) \<Rightarrow>
          (if \<not> ok then Inl (Http (HTTPException 409 ''GPU hold token is invalid'')) else Inr (),
           s\<lparr>w_redis := w\<rparr>))"

text \<open>The answer is \<open>claimed\<close> together with the task.\<close>

definition hold_handover :: "string \<Rightarrow> ('h, 'v, 'w) worker \<Rightarrow> bool \<times> string option" where
  "hold_handover token s =
     (let task_id = map_of (w_handover_tasks s) token in (task_id \<noteq> None, task_id))"

subsection \<open>Trainings\<close>

definition acquire_training_model ::
  "string \<Rightarrow> ('h, 'v, 'w) worker \<Rightarrow> ('h, 'v, 'w, 'h loaded_model) handler" where
  "acquire_training_model mode s =
     (case acquire_for_use mode (w_cache s) of
        (None, c) \<Rightarrow> (Inl (mode_not_loaded mode), s\<lparr>w_cache := c\<rparr>)
      | (Some model, c) \<Rightarrow> (Inr model, s\<lparr>w_cache := c\<rparr>))"

definition start_gpu_hold_renewal ::
  "'w redis_ops \<Rightarrow> string \<Rightarrow> string \<Rightarrow> 'w \<Rightarrow> (string + unit) \<times> 'w" where
  "start_gpu_hold_renewal R wid token w =
     (case renew_gpu_hold R wid token DEFAULT_TTL_SECONDS w of
        (ok, w') \<Rightarrow>
          (if \<not> ok then Inl ''GPU hold token was lost before LoRA training started'' else Inr (), w'))"

definition renew_training_hold ::
  "'w redis_ops \<Rightarrow> string \<Rightarrow> string \<Rightarrow> ('h, 'v, 'w) worker \<Rightarrow> ('h, 'v, 'w, unit) handler" where
  "renew_training_hold R wid token s =
     (case start_gpu_hold_renewal R wid token (w_redis s) of
        (Inl e, w) \<Rightarrow> (Inl (Http (HTTPException 409 e)), s\<lparr>w_redis := w\<rparr>)
      | (Inr _, w) \<Rightarrow> (Inr (), s\<lparr>w_redis := w\<rparr>))"

definition create_gpu_hold_handover_task ::
  "'w redis_ops \<Rightarrow> string \<Rightarrow> string \<Rightarrow> int \<Rightarrow> string \<Rightarrow> timestamp \<Rightarrow> ('h, 'v, 'w) worker
     \<Rightarrow> ('h, 'v, 'w, string option) handler" where
  "create_gpu_hold_handover_task R wid token train_epochs task_id now s =
     (if token \<in> w_handover_tokens s then (Inr None, s)
      else if \<not> gpu_hold_matches R wid token (w_redis s) then (Inr None, s)
      else case create_task task_id Train_Lora_Task (Some train_epochs) None now (w_store s) of
        Inl e \<Rightarrow> (Inl (Value_Error e), s)
      | Inr store \<Rightarrow>
          (Inr (Some task_id),
           s\<lparr>w_store := store, w_handover_tokens := insert token (w_handover_tokens s),
             w_handover_tasks := dict_set token task_id (w_handover_tasks s)\<rparr>))"

definition claim_training_handover ::
  "'w redis_ops \<Rightarrow> string \<Rightarrow> string \<Rightarrow> int \<Rightarrow> string \<Rightarrow> timestamp \<Rightarrow> ('h, 'v, 'w) worker
     \<Rightarrow> ('h, 'v, 'w, string) handler" where
  "claim_training_handover R wid token train_epochs task_id now s =
     (case create_gpu_hold_handover_task R wid token train_epochs task_id now s of
        (Inl e, s1) \<Rightarrow> (Inl e, s1)
      | (Inr None, s1) \<Rightarrow>
          (Inl (Http (HTTPException 409 ''GPU hold token is invalid or already handed over'')), s1)
      | (Inr (Some tid), s1) \<Rightarrow> (Inr tid, s1))"

definition release_gpu_hold_handover ::
  "string \<Rightarrow> ('h, 'v, 'w) worker \<Rightarrow> ('h, 'v, 'w) worker" where
  "release_gpu_hold_handover token s =
     s\<lparr>w_handover_tokens := w_handover_tokens s - {token},
       w_handover_tasks := dict_del token (w_handover_tasks s)\<rparr>"

text \<open>The renewal coroutine is cancelled first; it has no state of its own.\<close>

definition clean_up_train_lora_setup ::
  "string \<Rightarrow> string \<Rightarrow> bool \<Rightarrow> ('h, 'v, 'w) worker \<Rightarrow> ('h, 'v, 'w) worker" where
  "clean_up_train_lora_setup mode token acquired s =
     release_gpu_hold_handover token
       (if acquired then s\<lparr>w_cache := release mode (w_cache s)\<rparr> else s)"

definition acquire_train_lora_resources ::
  "'w redis_ops \<Rightarrow> string \<Rightarrow> string \<Rightarrow> string \<Rightarrow> int \<Rightarrow> string \<Rightarrow> timestamp \<Rightarrow> ('h, 'v, 'w) worker
     \<Rightarrow> ('h, 'v, 'w, string) handler" where
  "acquire_train_lora_resources R wid mode token train_epochs task_id now s =
     (case acquire_training_model mode s of
        (Inl e, s1) \<Rightarrow> (Inl e, clean_up_train_lora_setup mode token False s1)
      | (Inr model, s1) \<Rightarrow>
          (case renew_training_hold R wid token s1 of
             (Inl e, s2) \<Rightarrow> (Inl e, clean_up_train_lora_setup mode token True s2)
           | (Inr _, s2) \<Rightarrow>
               (case claim_training_handover R wid token train_epochs task_id now s2 of
                  (Inl e, s3) \<Rightarrow> (Inl e, clean_up_train_lora_setup mode token True s3)
                | (Inr tid, s3) \<Rightarrow> (Inr tid, s3))))"

text \<open>
  \<open>release_and_stop\<close> may raise what the unloader raises; the \<open>finally\<close> blocks release the
  hold and the handover all the same.
\<close>

definition release_train_lora_resources ::
  "('h, 'v, 'x) ports \<Rightarrow> 'w redis_ops \<Rightarrow> string \<Rightarrow> string \<Rightarrow> string \<Rightarrow> ('h, 'v, 'w) worker
     \<Rightarrow> 'x cache_error option \<times> ('h, 'v, 'w) worker" where
  "release_train_lora_resources P R wid mode token s =
     (case release_and_stop P mode (w_cache s) (w_ports_world s) of
        (r, c, v) \<Rightarrow>
          ((case r of Inl e \<Rightarrow> Some e | Inr _ \<Rightarrow> None),
           release_gpu_hold_handover token
             (s\<lparr>w_cache := c, w_ports_world := v,
                w_redis := snd (release_gpu_hold R wid token (w_redis s))\<rparr>)))"

text \<open>
  \<open>POST /tasks/train_lora\<close>: \<open>invalid\<close> is the message of a rejected path, \<open>configured\<close> says
  that the worker has a training runner, \<open>spawn\<close> is as in \<open>generate\<close>.
\<close>

definition train_lora ::
  "('h, 'v, 'x) ports \<Rightarrow> 'w redis_ops \<Rightarrow> string \<Rightarrow> string option \<Rightarrow> bool \<Rightarrow> string \<Rightarrow> string \<Rightarrow> int
     \<Rightarrow> string \<Rightarrow> timestamp \<Rightarrow> string option \<Rightarrow> ('h, 'v, 'w) worker \<Rightarrow> ('h, 'v, 'w, string) handler" where
  "train_lora P R wid invalid configured mode token train_epochs task_id now spawn s =
     (case invalid of
        Some detail \<Rightarrow> (Inl (Http (HTTPException 422 detail)), s)
      | None \<Rightarrow>
          if \<not> configured
          then (Inl (Http (HTTPException 501 ''Worker not configured with a train_lora runner'')), s)
          else case acquire_train_lora_resources R wid mode token train_epochs task_id now s of
            (Inl e, s1) \<Rightarrow> (Inl e, s1)
          | (Inr tid, s1) \<Rightarrow>
              (case spawn of
                 Some e \<Rightarrow> (Inl (Runtime_Error e), snd (release_train_lora_resources P R wid mode token s1))
               | None \<Rightarrow>
                   (Inr tid, s1\<lparr>w_runners := Training_Runner tid mode token # w_runners s1\<rparr>)))"

text \<open>A renewal attempt of a running training: \<open>False\<close> cancels the training.\<close>

definition renewal_attempt ::
  "'w redis_ops \<Rightarrow> string \<Rightarrow> string \<Rightarrow> ('h, 'v, 'w) worker \<Rightarrow> bool \<times> ('h, 'v, 'w) worker" where
  "renewal_attempt R wid token s =
     (case renew_gpu_hold R wid token DEFAULT_TTL_SECONDS (w_redis s) of
        (ok, w) \<Rightarrow> (ok, s\<lparr>w_redis := w\<rparr>))"

text \<open>The end of \<open>_run_train_lora_with_cleanup\<close>, however the training ended.\<close>

definition end_training ::
  "('h, 'v, 'x) ports \<Rightarrow> 'w redis_ops \<Rightarrow> string \<Rightarrow> string \<Rightarrow> string \<Rightarrow> string \<Rightarrow> ('h, 'v, 'w) worker
     \<Rightarrow> ('h, 'v, 'w) worker" where
  "end_training P R wid task_id mode token s =
     snd (release_train_lora_resources P R wid mode token
       (s\<lparr>w_runners := remove1 (Training_Runner task_id mode token) (w_runners s)\<rparr>))"

subsection \<open>Runs of a worker\<close>

text \<open>
  The requests of the worker, the ends of its background runs (a run ends only while it is
  running), the two Redis calls of the control plane, the expiry of the hold, what runners and
  streams do to the store, and the model routes.
\<close>

datatype ('v, 'w) worker_op =
    Op_Generate string string timestamp "string option"
  | Op_End_Generation string string bool
  | Op_Reserve string
  | Op_Renew string
  | Op_Release string
  | Op_Train "string option" bool string string int string timestamp "string option"
  | Op_Renewal string
  | Op_End_Training string string string
  | Op_Admit
  | Op_Decr
  | Op_Expire
  | Op_Store store_op
  | Op_Cache cache_op

fun worker_step ::
  "('h, 'v, 'x) ports \<Rightarrow> 'w redis_ops \<Rightarrow> string \<Rightarrow> ('h, 'v, 'w) worker \<Rightarrow> ('v, 'w) worker_op
     \<Rightarrow> ('h, 'v, 'w) worker" where
  "worker_step P R wid s (Op_Generate mode tid now spawn) = snd (generate R wid mode tid now spawn s)"
| "worker_step P R wid s (Op_End_Generation mode tid returned) =
     (if Generation_Runner tid mode \<in> set (w_runners s) then end_generation mode tid returned s else s)"
| "worker_step P R wid s (Op_Reserve token) = snd (reserve_hold R wid token s)"
| "worker_step P R wid s (Op_Renew token) = snd (renew_hold R wid token s)"
| "worker_step P R wid s (Op_Release token) = snd (release_hold R wid token s)"
| "worker_step P R wid s (Op_Train invalid configured mode token epochs tid now spawn) =
     snd (train_lora P R wid invalid configured mode token epochs tid now spawn s)"
| "worker_step P R wid s (Op_Renewal token) = snd (renewal_attempt R wid token s)"
| "worker_step P R wid s (Op_End_Training tid mode token) =
     (if Training_Runner tid mode token \<in> set (w_runners s)
      then end_training P R wid tid mode token s else s)"
| "worker_step P R wid s Op_Admit = s\<lparr>w_redis := snd (admit_generation R wid (w_redis s))\<rparr>"
| "worker_step P R wid s Op_Decr = s\<lparr>w_redis := snd (decr_queue_depth R wid (w_redis s))\<rparr>"
| "worker_step P R wid s Op_Expire = s\<lparr>w_redis := cmd_del R (gpu_hold_key wid) (w_redis s)\<rparr>"
| "worker_step P R wid s (Op_Store x) = s\<lparr>w_store := store_step (w_store s) x\<rparr>"
| "worker_step P R wid s (Op_Cache x) =
     (case cache_step P (w_cache s, w_ports_world s) x of
        (c, v) \<Rightarrow> s\<lparr>w_cache := c, w_ports_world := v\<rparr>)"

definition start_worker ::
  "'w redis_ops \<Rightarrow> string \<Rightarrow> rat \<Rightarrow> (string \<rightharpoonup> rat) \<Rightarrow> 'v \<Rightarrow> 'w \<Rightarrow> ('h, 'v, 'w) worker" where
  "start_worker R wid budget msizes v w =
     \<lparr>w_cache = init_cache budget msizes, w_store = init_store, w_generations = {},
      w_handover_tokens = {}, w_handover_tasks = [], w_last_error = None, w_runners = [],
      w_ports_world = v, w_redis = clear_orphaned_queue R wid w\<rparr>"

text \<open>The routes call the cache only to load, evict, pin and unpin; use counts belong to runs.\<close>

fun route_op :: "cache_op \<Rightarrow> bool" where
  "route_op EvictAll \<longleftrightarrow> False"
| "route_op (AcquireForUse m) \<longleftrightarrow> False"
| "route_op (Release m) \<longleftrightarrow> False"
| "route_op (ReleaseAndStop m) \<longleftrightarrow> False"
| "route_op _ \<longleftrightarrow> True"

fun worker_legal :: "('v, 'w) worker_op \<Rightarrow> bool" where
  "worker_legal (Op_Cache x) \<longleftrightarrow> route_op x"
| "worker_legal _ \<longleftrightarrow> True"

definition users :: "('h, 'v, 'w) worker \<Rightarrow> string \<Rightarrow> nat" where
  "users s mode = length (filter (\<lambda>r. runner_mode r = mode) (w_runners s))"

definition uses_counted :: "('h, 'v, 'w) worker \<Rightarrow> bool" where
  "uses_counted s \<longleftrightarrow> (\<forall>mode. in_use_count mode (w_cache s) = int (users s mode))"

definition hold_exclusive :: "'w redis_ops \<Rightarrow> string \<Rightarrow> ('h, 'v, 'w) worker \<Rightarrow> bool" where
  "hold_exclusive R wid s \<longleftrightarrow>
     (cmd_exists R (gpu_hold_key wid) (w_redis s) \<longrightarrow>
        w_generations s = {} \<and> cmd_number R (queue_depth_key wid) (w_redis s) \<le> 0)"

definition worker_inv :: "'w redis_ops \<Rightarrow> string \<Rightarrow> ('h, 'v, 'w) worker \<Rightarrow> bool" where
  "worker_inv R wid s \<longleftrightarrow> redis_laws R \<and> cache_inv (w_cache s) \<and> uses_counted s
     \<and> hold_exclusive R wid s"

subsection \<open>Use counts\<close>

lemma in_use_count_acquire:
  "acquire_for_use mode c = (Some model, c') \<Longrightarrow>
     in_use_count m c' = in_use_count m c + (if m = mode then 1 else 0)"
  by (auto simp: acquire_for_use_def in_use_count_def split: option.splits)

lemma acquire_None: "acquire_for_use mode c = (None, c') \<Longrightarrow> c' = c"
  by (auto simp: acquire_for_use_def split: option.splits)

lemma in_use_count_release:
  assumes "cache_inv c" and "0 < in_use_count mode c"
  shows "in_use_count m (release mode c) = in_use_count m c - (if m = mode then 1 else 0)"
  using assms by (auto simp: release_def in_use_count_def split: option.splits)

lemma in_use_count_release_and_stop:
  assumes "cache_inv c" and "0 < in_use_count mode c"
  shows "in_use_count m (fst (snd (release_and_stop P mode c w)))
    = in_use_count m c - (if m = mode then 1 else 0)"
  using assms by (auto simp: release_and_stop_def Let_def in_use_count_def
      split: option.splits prod.splits)

lemma load_missing_in_use: "in_use (fst (snd (load_missing P mode sz c w))) = in_use c"
proof -
  obtain r c' w' where res: "load_missing P mode sz c w = (r, c', w')" by (metis prod_cases3)
  from load_missing_state [OF res] have "in_use c' = in_use c" by (cases r) auto
  then show ?thesis by (simp add: res)
qed

lemma route_in_use:
  "route_op x \<Longrightarrow> in_use (fst (cache_step P (c, v) x)) = in_use c"
  by (cases x) (auto simp: load_def load_missing_in_use evict_def pin_def unpin_def
      set_loading_log_line_def Let_def split: option.split prod.split)

lemma route_in_use_count:
  "route_op x \<Longrightarrow> in_use_count m (fst (cache_step P (c, v) x)) = in_use_count m c"
  using route_in_use [of x P c v] by (simp add: in_use_count_def)

text \<open>What the invariant says of the cache, apart from the rest of the state.\<close>

definition counted :: "'h model_cache \<Rightarrow> runner list \<Rightarrow> bool" where
  "counted c rs \<longleftrightarrow> cache_inv c
     \<and> (\<forall>mode. in_use_count mode c = int (length (filter (\<lambda>r. runner_mode r = mode) rs)))"

lemma counted_state: "cache_inv (w_cache s) \<and> uses_counted s \<longleftrightarrow> counted (w_cache s) (w_runners s)"
  by (simp add: counted_def uses_counted_def users_def)

lemma counted_nonneg: "counted c rs \<Longrightarrow> 0 \<le> in_use_count mode c"
  by (simp add: counted_def)

lemma counted_acquire:
  assumes "counted c rs" and "acquire_for_use mode c = (Some model, c')" and "runner_mode r = mode"
  shows "counted c' (r # rs)"
  using assms acquire_inv [of c mode] in_use_count_acquire [OF assms(2)]
  by (auto simp: counted_def)

lemma counted_remove:
  assumes "r \<in> set rs" and "runner_mode r = mode"
  shows "int (length (filter (\<lambda>x. runner_mode x = m) rs)) =
    int (length (filter (\<lambda>x. runner_mode x = m) (remove1 r rs))) + (if m = mode then 1 else 0)"
  using assms by (induction rs) auto

lemma counted_use_pos: "counted c rs \<Longrightarrow> r \<in> set rs \<Longrightarrow> 0 < in_use_count (runner_mode r) c"
  using counted_remove [of r rs "runner_mode r" "runner_mode r"] by (simp add: counted_def)

lemma counted_release:
  assumes "counted c rs" and "r \<in> set rs"
  shows "counted (release (runner_mode r) c) (remove1 r rs)"
  using assms(1) in_use_count_release [of c "runner_mode r"] counted_use_pos [OF assms]
    counted_remove [OF assms(2) refl] release_inv [of c "runner_mode r"]
  by (simp add: counted_def)

lemma counted_release_and_stop:
  assumes "counted c rs" and "r \<in> set rs"
  shows "counted (fst (snd (release_and_stop P (runner_mode r) c v))) (remove1 r rs)"
  using assms(1) in_use_count_release_and_stop [of c "runner_mode r" _ P v] counted_use_pos [OF assms]
    counted_remove [OF assms(2) refl] release_and_stop_inv [of c P "runner_mode r" v]
  by (simp add: counted_def)

text \<open>An acquisition that is undone leaves the counts as they were.\<close>

lemma counted_undo:
  assumes "counted c rs" and "acquire_for_use mode c = (Some model, c')"
  shows "counted (release mode c') rs" and "counted (fst (snd (release_and_stop P mode c' v))) rs"
proof -
  let ?r = "Generation_Runner [] mode"
  have c': "counted c' (?r # rs)" by (rule counted_acquire [OF assms]) simp
  from counted_release [OF c', of ?r] counted_release_and_stop [OF c', of ?r]
  show "counted (release mode c') rs" and "counted (fst (snd (release_and_stop P mode c' v))) rs"
    by simp_all
qed

lemma counted_generate:
  assumes "counted (w_cache s) (w_runners s)"
  shows "counted (w_cache (snd (generate R wid mode tid now spawn s)))
    (w_runners (snd (generate R wid mode tid now spawn s)))"
proof (cases "acquire_for_use mode (w_cache s)")
  case (Pair m c)
  show ?thesis
  proof (cases m)
    case None
    then show ?thesis
      using assms acquire_None [OF Pair [unfolded None]] Pair
      by (simp add: generate_def reserve_generation_task_def)
  next
    case (Some model)
    note acq = Pair [unfolded Some]
    show ?thesis
      using assms acq counted_undo(1) [OF assms acq] counted_acquire [OF assms acq]
      by (auto simp: generate_def reserve_generation_task_def release_generation_task_def
          split: sum.splits option.splits)
  qed
qed

lemma acquire_train_redis_only:
  "w_cache (snd (renew_training_hold R wid token s)) = w_cache s"
  "w_runners (snd (renew_training_hold R wid token s)) = w_runners s"
  "w_cache (snd (claim_training_handover R wid token n tid now s)) = w_cache s"
  "w_runners (snd (claim_training_handover R wid token n tid now s)) = w_runners s"
  by (auto simp: renew_training_hold_def claim_training_handover_def create_gpu_hold_handover_task_def
      split: sum.split prod.split option.split)

lemma acquire_train_cases:
  assumes "acquire_train_lora_resources R wid mode token n tid now s = (r, s')"
  obtains (not_loaded) "r = Inl (mode_not_loaded mode)" "w_cache s' = w_cache s"
      "w_runners s' = w_runners s"
  | (failed) e model c where "r = Inl e" "acquire_for_use mode (w_cache s) = (Some model, c)"
      "w_cache s' = release mode c" "w_runners s' = w_runners s"
  | (granted) tid' model c where "r = Inr tid'" "acquire_for_use mode (w_cache s) = (Some model, c)"
      "w_cache s' = c" "w_runners s' = w_runners s"
proof (cases "acquire_for_use mode (w_cache s)")
  case (Pair m c)
  show thesis
  proof (cases m)
    case None
    then show thesis
      using assms Pair acquire_None [OF Pair [unfolded None]]
      by (intro not_loaded) (auto simp: acquire_train_lora_resources_def acquire_training_model_def
          clean_up_train_lora_setup_def release_gpu_hold_handover_def)
  next
    case (Some model)
    let ?s1 = "s\<lparr>w_cache := c\<rparr>"
    obtain r2 s2 where renew: "renew_training_hold R wid token ?s1 = (r2, s2)" by fastforce
    obtain r3 s3 where claim: "claim_training_handover R wid token n tid now s2 = (r3, s3)" by fastforce
    have kept: "w_cache s2 = c" "w_runners s2 = w_runners s" "w_cache s3 = c" "w_runners s3 = w_runners s"
      using acquire_train_redis_only(1,2) [of R wid token ?s1]
        acquire_train_redis_only(3,4) [of R wid token n tid now s2] renew claim by simp_all
    note unfolded = assms [unfolded acquire_train_lora_resources_def acquire_training_model_def
        Pair Some prod.case option.case sum.case renew]
    show thesis
    proof (cases r2)
      case (Inl e)
      then show thesis
        using unfolded kept Pair Some by (intro failed [of e model c])
          (auto simp: clean_up_train_lora_setup_def release_gpu_hold_handover_def)
    next
      case (Inr u)
      show thesis
      proof (cases r3)
        case (Inl e)
        then show thesis
          using unfolded kept Pair Some Inr claim by (intro failed [of e model c])
            (auto simp: clean_up_train_lora_setup_def release_gpu_hold_handover_def)
      next
        case r3: (Inr tid')
        then show thesis
          using unfolded kept Pair Some Inr claim by (intro granted [of tid' model c]) auto
      qed
    qed
  qed
qed

lemma release_train_cache:
  "w_cache (snd (release_train_lora_resources P R wid mode token s))
     = fst (snd (release_and_stop P mode (w_cache s) (w_ports_world s)))"
  "w_runners (snd (release_train_lora_resources P R wid mode token s)) = w_runners s"
  by (simp_all add: release_train_lora_resources_def release_gpu_hold_handover_def split: prod.split)

lemma counted_train:
  assumes "counted (w_cache s) (w_runners s)"
  shows "counted (w_cache (snd (train_lora P R wid invalid configured mode token n tid now spawn s)))
    (w_runners (snd (train_lora P R wid invalid configured mode token n tid now spawn s)))"
proof -
  obtain r s' where acq: "acquire_train_lora_resources R wid mode token n tid now s = (r, s')" by fastforce
  from acq show ?thesis
  proof (cases rule: acquire_train_cases)
    case not_loaded
    then show ?thesis using assms by (simp add: train_lora_def acq split: option.split)
  next
    case (failed e model c)
    then show ?thesis
      using assms counted_undo(1) [OF assms failed(2)] by (simp add: train_lora_def acq split: option.split)
  next
    case (granted tid' model c)
    then show ?thesis
      using assms counted_undo(2) [OF assms granted(2), of P "w_ports_world s'"]
        counted_acquire [OF assms granted(2), of "Training_Runner tid' mode token"]
      by (simp add: train_lora_def acq release_train_cache split: option.split)
  qed
qed

subsection \<open>The hold\<close>

definition holder :: "'w redis_ops \<Rightarrow> string \<Rightarrow> 'w \<Rightarrow> string option" where
  "holder R wid w = cmd_get R (gpu_hold_key wid) w"

definition depth :: "'w redis_ops \<Rightarrow> string \<Rightarrow> 'w \<Rightarrow> int" where
  "depth R wid w = cmd_number R (queue_depth_key wid) w"

lemma keys_differ [simp]: "queue_depth_key wid \<noteq> gpu_hold_key wid" "gpu_hold_key wid \<noteq> queue_depth_key wid"
  by (simp_all add: queue_depth_key_def gpu_hold_key_def)

lemma hold_exclusive_iff:
  "hold_exclusive R wid s \<longleftrightarrow>
     (holder R wid (w_redis s) \<noteq> None \<longrightarrow> w_generations s = {} \<and> depth R wid (w_redis s) \<le> 0)"
  by (simp add: hold_exclusive_def holder_def depth_def cmd_exists_def)

named_theorems hold_simps

lemma holder_scripts [hold_simps]:
  assumes "redis_laws R"
  shows "holder R wid (snd (renew_gpu_hold R wid token ttl w)) = holder R wid w"
    and "holder R wid (snd (release_gpu_hold R wid token w))
      = (if holder R wid w = Some token then None else holder R wid w)"
    and "holder R wid (snd (reserve_gpu_hold R wid token ttl w))
      = (if holder R wid w = None \<and> depth R wid w \<le> 0 then Some token else holder R wid w)"
    and "holder R wid (snd (admit_generation R wid w)) = holder R wid w"
    and "holder R wid (snd (decr_queue_depth R wid w)) = holder R wid w"
    and "holder R wid (cmd_del R (gpu_hold_key wid) w) = None"
  using assms
  by (simp_all add: holder_def depth_def renew_gpu_hold_def release_gpu_hold_def reserve_gpu_hold_def
      admit_generation_def decr_queue_depth_def Let_def cmd_exists_def redis_simps)

lemma depth_scripts [hold_simps]:
  assumes "redis_laws R"
  shows "depth R wid (snd (renew_gpu_hold R wid token ttl w)) = depth R wid w"
    and "depth R wid (snd (release_gpu_hold R wid token w)) = depth R wid w"
    and "depth R wid (snd (reserve_gpu_hold R wid token ttl w)) = depth R wid w"
    and "depth R wid (snd (admit_generation R wid w))
      = (if holder R wid w = None then depth R wid w + 1 else depth R wid w)"
    and "depth R wid (snd (decr_queue_depth R wid w)) = depth R wid w - 1"
    and "depth R wid (cmd_del R (gpu_hold_key wid) w) = depth R wid w"
  using assms
  by (simp_all add: holder_def depth_def renew_gpu_hold_def release_gpu_hold_def reserve_gpu_hold_def
      admit_generation_def decr_queue_depth_def Let_def cmd_exists_def redis_simps)

lemma renew_result: "fst (renew_gpu_hold R wid token ttl w) \<longleftrightarrow> holder R wid w = Some token"
  by (simp add: renew_gpu_hold_def holder_def)

lemma reserve_result:
  "redis_laws R \<Longrightarrow> fst (reserve_gpu_hold R wid token ttl w) \<longleftrightarrow> holder R wid w = None \<and> depth R wid w \<le> 0"
  by (simp add: reserve_gpu_hold_def holder_def depth_def cmd_exists_def redis_set_result)

text \<open>How a training request leaves Redis: renewed, or released when nothing could be spawned.\<close>

lemma acquire_train_redis:
  assumes "redis_laws R"
  shows "holder R wid (w_redis (snd (acquire_train_lora_resources R wid mode token n tid now s)))
      = holder R wid (w_redis s)"
    and "depth R wid (w_redis (snd (acquire_train_lora_resources R wid mode token n tid now s)))
      = depth R wid (w_redis s)"
    and "w_generations (snd (acquire_train_lora_resources R wid mode token n tid now s)) = w_generations s"
proof -
  obtain r1 s1 where model: "acquire_training_model mode s = (r1, s1)" by fastforce
  obtain r2 s2 where renew: "renew_training_hold R wid token s1 = (r2, s2)" by fastforce
  obtain r3 s3 where claim: "claim_training_handover R wid token n tid now s2 = (r3, s3)" by fastforce
  have s1: "w_redis s1 = w_redis s \<and> w_generations s1 = w_generations s"
    using model by (auto simp: acquire_training_model_def split: prod.splits option.splits)
  have s2: "w_redis s2 = snd (renew_gpu_hold R wid token DEFAULT_TTL_SECONDS (w_redis s1))
      \<and> w_generations s2 = w_generations s1"
    using renew by (auto simp: renew_training_hold_def start_gpu_hold_renewal_def
        split: sum.splits prod.splits)
  have s3: "w_redis s3 = w_redis s2 \<and> w_generations s3 = w_generations s2"
    using claim by (auto simp: claim_training_handover_def create_gpu_hold_handover_task_def
        split: sum.splits prod.splits option.splits if_splits)
  have clean: "w_redis (clean_up_train_lora_setup mode token l s) = w_redis s"
      "w_generations (clean_up_train_lora_setup mode token l s) = w_generations s" for l s
    by (simp_all add: clean_up_train_lora_setup_def release_gpu_hold_handover_def)
  have step: "w_redis (snd (acquire_train_lora_resources R wid mode token n tid now s))
        \<in> {w_redis s, snd (renew_gpu_hold R wid token DEFAULT_TTL_SECONDS (w_redis s))}
      \<and> w_generations (snd (acquire_train_lora_resources R wid mode token n tid now s)) = w_generations s"
    using s1 s2 s3 by (cases r1; cases r2; cases r3)
      (simp_all add: acquire_train_lora_resources_def model renew claim clean)
  with assms show "holder R wid (w_redis (snd (acquire_train_lora_resources R wid mode token n tid now s)))
      = holder R wid (w_redis s)"
    and "depth R wid (w_redis (snd (acquire_train_lora_resources R wid mode token n tid now s)))
      = depth R wid (w_redis s)"
    and "w_generations (snd (acquire_train_lora_resources R wid mode token n tid now s)) = w_generations s"
    by (auto simp: hold_simps)
qed

lemma release_train_redis:
  "w_redis (snd (release_train_lora_resources P R wid mode token s))
     = snd (release_gpu_hold R wid token (w_redis s))"
  "w_generations (snd (release_train_lora_resources P R wid mode token s)) = w_generations s"
  by (simp_all add: release_train_lora_resources_def release_gpu_hold_handover_def split: prod.split)

lemma train_redis:
  assumes "redis_laws R"
  shows "holder R wid (w_redis (snd (train_lora P R wid invalid configured mode token n tid now spawn s)))
      \<in> {holder R wid (w_redis s)} \<union> (if spawn \<noteq> None \<and> holder R wid (w_redis s) = Some token then {None} else {})"
    and "depth R wid (w_redis (snd (train_lora P R wid invalid configured mode token n tid now spawn s)))
      = depth R wid (w_redis s)"
    and "w_generations (snd (train_lora P R wid invalid configured mode token n tid now spawn s)) = w_generations s"
proof -
  obtain r s1 where acq: "acquire_train_lora_resources R wid mode token n tid now s = (r, s1)" by fastforce
  note kept = acquire_train_redis [OF assms, of wid mode token n tid now s, unfolded acq snd_conv]
  show "holder R wid (w_redis (snd (train_lora P R wid invalid configured mode token n tid now spawn s)))
      \<in> {holder R wid (w_redis s)} \<union> (if spawn \<noteq> None \<and> holder R wid (w_redis s) = Some token then {None} else {})"
    and "depth R wid (w_redis (snd (train_lora P R wid invalid configured mode token n tid now spawn s)))
      = depth R wid (w_redis s)"
    and "w_generations (snd (train_lora P R wid invalid configured mode token n tid now spawn s)) = w_generations s"
    using assms kept
    by (auto simp: train_lora_def acq release_train_redis hold_simps split: option.split sum.split)
qed

lemma hold_exclusive_generate:
  "hold_exclusive R wid s \<Longrightarrow> hold_exclusive R wid (snd (generate R wid mode tid now spawn s))"
  by (auto simp: hold_exclusive_def generate_def reserve_generation_task_def release_generation_task_def
      split: prod.splits option.splits sum.splits)

lemma end_generation_keeps [simp]:
  "w_redis (end_generation mode tid returned s) = w_redis s"
  "w_generations (end_generation mode tid returned s) = w_generations s - {tid}"
  "w_cache (end_generation mode tid returned s) = release mode (w_cache s)"
  "w_runners (end_generation mode tid returned s) = remove1 (Generation_Runner tid mode) (w_runners s)"
  by (auto simp: end_generation_def release_generation_task_def Let_def split: option.split)

lemma end_training_keeps [simp]:
  "w_redis (end_training P R wid tid mode token s) = snd (release_gpu_hold R wid token (w_redis s))"
  "w_generations (end_training P R wid tid mode token s) = w_generations s"
  by (simp_all add: end_training_def release_train_redis)

lemma hold_routes:
  "w_redis (snd (reserve_hold R wid token s)) = (if w_generations s = {}
     then snd (reserve_gpu_hold R wid token DEFAULT_TTL_SECONDS (w_redis s)) else w_redis s)"
  "w_redis (snd (renew_hold R wid token s)) = snd (renew_gpu_hold R wid token DEFAULT_TTL_SECONDS (w_redis s))"
  "w_redis (snd (release_hold R wid token s)) = (if token \<in> w_handover_tokens s then w_redis s
     else snd (release_gpu_hold R wid token (w_redis s)))"
  "w_redis (snd (renewal_attempt R wid token s)) = snd (renew_gpu_hold R wid token DEFAULT_TTL_SECONDS (w_redis s))"
  by (simp_all add: reserve_hold_def renew_hold_def release_hold_def renewal_attempt_def split: prod.split)

lemma hold_routes_keep:
  "w_generations (snd (reserve_hold R wid token s)) = w_generations s"
  "w_generations (snd (renew_hold R wid token s)) = w_generations s"
  "w_generations (snd (release_hold R wid token s)) = w_generations s"
  "w_generations (snd (renewal_attempt R wid token s)) = w_generations s"
  "w_cache (snd (reserve_hold R wid token s)) = w_cache s"
  "w_cache (snd (renew_hold R wid token s)) = w_cache s"
  "w_cache (snd (release_hold R wid token s)) = w_cache s"
  "w_cache (snd (renewal_attempt R wid token s)) = w_cache s"
  "w_runners (snd (reserve_hold R wid token s)) = w_runners s"
  "w_runners (snd (renew_hold R wid token s)) = w_runners s"
  "w_runners (snd (release_hold R wid token s)) = w_runners s"
  "w_runners (snd (renewal_attempt R wid token s)) = w_runners s"
  by (simp_all add: reserve_hold_def renew_hold_def release_hold_def renewal_attempt_def split: prod.split)

lemma hold_exclusive_step:
  assumes laws: "redis_laws R" and excl: "hold_exclusive R wid s"
  shows "hold_exclusive R wid (worker_step P R wid s x)"
proof (cases x)
  case (Op_Train invalid configured mode token n tid now spawn)
  then show ?thesis
    using excl train_redis [OF laws, where wid = wid and P = P and s = s]
    by (auto simp: hold_exclusive_iff split: if_splits)
qed (use excl laws in \<open>auto simp: hold_exclusive_generate, auto simp: hold_exclusive_iff hold_simps hold_routes
    hold_routes_keep split: if_splits prod.splits\<close>)

lemma counted_step:
  assumes "counted (w_cache s) (w_runners s)" and "worker_legal x"
  shows "counted (w_cache (worker_step P R wid s x)) (w_runners (worker_step P R wid s x))"
proof (cases x)
  case (Op_End_Training tid mode token)
  then show ?thesis
    using assms counted_release_and_stop [OF assms(1), of "Training_Runner tid mode token" P]
    by (simp add: end_training_def release_train_cache)
next
  case (Op_End_Generation mode tid returned)
  then show ?thesis
    using assms counted_release [OF assms(1), of "Generation_Runner tid mode"] by simp
next
  case (Op_Cache y)
  then have "route_op y" using assms(2) by simp
  then show ?thesis
    using assms(1) cache_step_inv [of "(w_cache s, w_ports_world s)" P y]
      route_in_use_count [of y _ P "w_cache s" "w_ports_world s"]
    by (cases "cache_step P (w_cache s, w_ports_world s) y") (simp add: Op_Cache counted_def)
qed (use assms in \<open>simp_all add: counted_generate counted_train hold_routes_keep\<close>)

lemma worker_step_inv:
  "worker_inv R wid s \<Longrightarrow> worker_legal x \<Longrightarrow> worker_inv R wid (worker_step P R wid s x)"
  unfolding worker_inv_def
  using hold_exclusive_step [of R wid s P x] counted_step [of s x P R wid] counted_state by blast

interpretation gpu_machine: invariant_machine "worker_step P R wid" "worker_inv R wid" worker_legal
  for P R wid
  by unfold_locales (rule worker_step_inv)

lemma start_worker_inv:
  assumes "redis_laws R" and "0 \<le> budget" and "\<forall>sz \<in> ran msizes. 0 \<le> sz"
  shows "worker_inv R wid (start_worker R wid budget msizes v w)"
  using assms init_cache_inv [OF assms(2,3)]
  by (simp add: worker_inv_def start_worker_def hold_exclusive_iff
      clear_orphaned_queue_def hold_simps uses_counted_def users_def)
    (simp add: in_use_count_def init_cache_def)

subsection \<open>Properties\<close>

text \<open>The generations that run, and the ids that requests for a generation draw.\<close>

definition generations_running :: "runner list \<Rightarrow> string list" where
  "generations_running rs = List.map_filter (\<lambda>r. case r of Generation_Runner tid mode \<Rightarrow> Some tid | _ \<Rightarrow> None) rs"

definition ids_drawn :: "('v, 'w) worker_op list \<Rightarrow> string list" where
  "ids_drawn ops = List.map_filter (\<lambda>x. case x of Op_Generate mode tid now spawn \<Rightarrow> Some tid | _ \<Rightarrow> None) ops"

lemma generations_running_simps [simp]:
  "generations_running [] = []"
  "generations_running (Generation_Runner tid mode # rs) = tid # generations_running rs"
  "generations_running (Training_Runner tid mode token # rs) = generations_running rs"
  by (simp_all add: generations_running_def)

lemma ids_drawn_simps:
  "ids_drawn [] = []" "ids_drawn (Op_Generate mode tid now spawn # ops) = tid # ids_drawn ops"
  "\<forall>mode tid now spawn. x \<noteq> Op_Generate mode tid now spawn \<Longrightarrow> ids_drawn (x # ops) = ids_drawn ops"
  by (auto simp: ids_drawn_def split: worker_op.split)

lemma running_member: "Generation_Runner tid mode \<in> set rs \<Longrightarrow> tid \<in> set (generations_running rs)"
  proof (induction rs)
  case (Cons r rs)
  then show ?case by (cases r) auto
qed simp

lemma running_remove_training [simp]:
  "generations_running (remove1 (Training_Runner tid mode token) rs) = generations_running rs"
proof (induction rs)
  case (Cons r rs)
  then show ?case by (cases r) auto
qed simp

lemma running_remove_generation:
  "distinct (generations_running rs) \<Longrightarrow> Generation_Runner tid mode \<in> set rs \<Longrightarrow>
     generations_running (remove1 (Generation_Runner tid mode) rs) = remove1 tid (generations_running rs)"
proof (induction rs)
  case (Cons r rs)
  show ?case
  proof (cases "r = Generation_Runner tid mode")
    case False
    then have "Generation_Runner tid mode \<in> set rs" using Cons.prems(2) by simp
    then show ?thesis using Cons False running_member [of tid mode rs] by (cases r) auto
  qed simp
qed simp

lemma train_keeps_running:
  "generations_running (w_runners (snd (train_lora P R wid invalid configured mode token n tid now spawn s)))
     = generations_running (w_runners s)"
proof -
  obtain r s' where acq: "acquire_train_lora_resources R wid mode token n tid now s = (r, s')" by fastforce
  then show ?thesis
    by (cases rule: acquire_train_cases) (simp_all add: train_lora_def acq release_train_cache split: option.split)
qed

text \<open>Every generation that runs is one the hold knows of.\<close>

definition generations_known :: "('h, 'v, 'w) worker \<Rightarrow> bool" where
  "generations_known s \<longleftrightarrow> distinct (generations_running (w_runners s))
     \<and> set (generations_running (w_runners s)) \<subseteq> w_generations s"

lemma known_generate:
  assumes "generations_known s" and "tid \<notin> w_generations s"
  shows "generations_known (snd (generate R wid mode tid now spawn s))
    \<and> w_generations (snd (generate R wid mode tid now spawn s)) \<subseteq> insert tid (w_generations s)"
  using assms
  by (auto simp: generations_known_def generate_def reserve_generation_task_def release_generation_task_def
      split: prod.split option.split sum.split)

lemma known_step:
  assumes "redis_laws R" and "generations_known s" and "w_generations s \<inter> set (ids_drawn [x]) = {}"
  shows "generations_known (worker_step P R wid s x)
    \<and> w_generations (worker_step P R wid s x) \<subseteq> w_generations s \<union> set (ids_drawn [x])"
proof (cases x)
  case (Op_Generate mode tid now spawn)
  then show ?thesis using assms known_generate [of s tid] by (simp add: ids_drawn_simps)
next
  case (Op_End_Generation mode tid returned)
  then show ?thesis using assms(2) running_remove_generation [of "w_runners s" tid mode]
    by (auto simp: generations_known_def)
next
  case (Op_End_Training tid mode token)
  then show ?thesis using assms(2)
    by (simp add: generations_known_def end_training_def release_train_cache release_train_redis)
next
  case (Op_Train invalid configured mode token n tid now spawn)
  then show ?thesis using assms(2) by (simp add: generations_known_def train_keeps_running train_redis(3) [OF assms(1)])
qed (use assms(2) in \<open>auto simp: generations_known_def hold_routes_keep split: prod.split\<close>)

lemma known_run:
  assumes "redis_laws R"
  shows "generations_known s \<Longrightarrow> distinct (ids_drawn ops) \<Longrightarrow> w_generations s \<inter> set (ids_drawn ops) = {} \<Longrightarrow>
    generations_known (foldl (worker_step P R wid) s ops)"
proof (induction ops arbitrary: s)
  case (Cons x ops)
  have ids: "ids_drawn (x # ops) = ids_drawn [x] @ ids_drawn ops"
    by (simp add: ids_drawn_def map_filter_def)
  with Cons.prems have "w_generations s \<inter> set (ids_drawn [x]) = {}" by auto
  from known_step [OF assms Cons.prems(1) this, of P wid] Cons.prems(2,3) show ?case
    by (auto simp: ids intro!: Cons.IH)
qed simp

text \<open>C21: One GPU, one user: in every state a worker can reach, whatever requests, control-plane
  admissions, expiries and ends of runs are interleaved, a training coordinator's hold excludes
  generations: while the hold key exists no generation runs on the worker, the set its guard looks at
  is empty and the control plane's queue depth is not positive.  The ids of the worker's tasks are
  random (\<open>uuid4\<close>); the property assumes that no two requests for a generation draw the same one.\<close>

theorem gpu_hold_excludes_generations:
  assumes "redis_laws R" and "0 \<le> budget" and "\<forall>sz \<in> ran msizes. 0 \<le> sz"
    and "list_all worker_legal ops" and "distinct (ids_drawn ops)"
    and "s = foldl (worker_step P R wid) (start_worker R wid budget msizes v w) ops"
    and "cmd_exists R (gpu_hold_key wid) (w_redis s)"
  shows "Generation_Runner tid mode \<notin> set (w_runners s)
    \<and> w_generations s = {} \<and> read_queue_depth R wid (w_redis s) \<le> 0"
proof -
  have "w_generations s = {} \<and> read_queue_depth R wid (w_redis s) \<le> 0"
    using gpu_machine.run_inv [OF start_worker_inv [OF assms(1-3)] assms(4)] assms(6,7)
    by (auto simp: worker_inv_def hold_exclusive_def read_queue_depth_def)
  moreover have "generations_known s"
    unfolding assms(6) by (rule known_run [OF assms(1) _ assms(5)]) (simp_all add: generations_known_def start_worker_def)
  ultimately show ?thesis by (auto simp: generations_known_def dest: running_member)
qed

text \<open>C22: A running job's model stays loaded: use counts are exactly the numbers of background
  runs per mode, in spite of every rejected request, failed spawn and cleanup path, so the model
  of a generation or training that is still running is never evicted or unloaded.\<close>

theorem running_model_stays_loaded:
  assumes "redis_laws R" and "0 \<le> budget" and "\<forall>sz \<in> ran msizes. 0 \<le> sz"
    and "list_all worker_legal ops"
    and "s = foldl (worker_step P R wid) (start_worker R wid budget msizes v w) ops"
  shows "(\<forall>mode. in_use_count mode (w_cache s) = int (users s mode))
    \<and> (\<forall>r \<in> set (w_runners s). runner_mode r \<in> set (loaded_modes (w_cache s)))"
proof -
  have inv: "cache_inv (w_cache s)" "uses_counted s"
    using gpu_machine.run_inv [OF start_worker_inv [OF assms(1-3)] assms(4)] assms(5)
    by (auto simp: worker_inv_def)
  have "runner_mode r \<in> set (loaded_modes (w_cache s))" if "r \<in> set (w_runners s)" for r
  proof -
    have "0 < in_use_count (runner_mode r) (w_cache s)"
      using counted_use_pos [of "w_cache s" "w_runners s" r] inv that counted_state by blast
    then have "runner_mode r \<in> dom (in_use (w_cache s))"
      by (auto simp: in_use_count_def split: option.splits)
    then show ?thesis using inv(1) by (auto simp: cache_inv_def uses_ok_def)
  qed
  then show ?thesis using inv(2) by (simp add: uses_counted_def)
qed

text \<open>Operations that may end the hold of \<open>token\<close> are left out.\<close>

fun spares :: "string \<Rightarrow> ('v, 'w) worker_op \<Rightarrow> bool" where
  "spares token (Op_Release t) \<longleftrightarrow> t \<noteq> token"
| "spares token (Op_End_Training tid mode t) \<longleftrightarrow> t \<noteq> token"
| "spares token (Op_Train invalid configured mode t n tid now spawn) \<longleftrightarrow> t \<noteq> token \<or> spawn = None"
| "spares token Op_Expire \<longleftrightarrow> False"
| "spares token _ \<longleftrightarrow> True"

lemma holder_step:
  assumes "redis_laws R" and "holder R wid (w_redis s) = Some token" and "spares token x"
  shows "holder R wid (w_redis (worker_step P R wid s x)) = Some token"
proof (cases x)
  case (Op_Train invalid configured mode t n tid now spawn)
  then show ?thesis
    using assms train_redis(1) [OF assms(1), where wid = wid and P = P and s = s and token = t
        and invalid = invalid and configured = configured and mode = mode and n = n and tid = tid
        and now = now and spawn = spawn]
    by (auto split: if_splits)
next
  case (Op_Generate mode tid now spawn)
  then show ?thesis
    using assms by (auto simp: generate_def reserve_generation_task_def holder_def cmd_exists_def)
qed (use assms in \<open>auto simp: hold_simps hold_routes split: if_splits prod.splits\<close>)

interpretation hold_kept: frozen_machine "worker_step P R wid" "\<lambda>s. redis_laws R" "spares token"
  "\<lambda>s (_ :: unit). holder R wid (w_redis s)" "\<lambda>t. t = token"
  for P R wid token
  by unfold_locales (auto intro: holder_step)

text \<open>A hold is granted exactly to an idle GPU and then belongs to its token: the reservation
  succeeds if and only if no generation is admitted, no hold exists and the queue depth is not
  positive; from then on, until the key expires, the token itself releases it or its training
  ends, no request of another coordinator, generation or control-plane call takes it away or
  changes its owner.\<close>

theorem hold_granted_to_idle_gpu_and_kept:
  assumes "redis_laws R" and "list_all (spares token) ops"
  shows "((\<exists>s1. reserve_hold R wid token s = (Inr token, s1)) \<longleftrightarrow>
      w_generations s = {} \<and> \<not> cmd_exists R (gpu_hold_key wid) (w_redis s)
      \<and> read_queue_depth R wid (w_redis s) \<le> 0)
    \<and> (\<forall>s1. reserve_hold R wid token s = (Inr token, s1) \<longrightarrow>
        gpu_hold_matches R wid token (w_redis (foldl (worker_step P R wid) s1 ops)))"
proof -
  have granted: "(\<exists>s1. reserve_hold R wid token s = (Inr token, s1)) \<longleftrightarrow>
      w_generations s = {} \<and> holder R wid (w_redis s) = None \<and> depth R wid (w_redis s) \<le> 0"
    using reserve_result [OF assms(1), of wid token DEFAULT_TTL_SECONDS "w_redis s"]
    by (auto simp: reserve_hold_def split: prod.splits)
  have "gpu_hold_matches R wid token (w_redis (foldl (worker_step P R wid) s1 ops))"
    if res: "reserve_hold R wid token s = (Inr token, s1)" for s1
  proof -
    have "w_redis s1 = snd (reserve_gpu_hold R wid token DEFAULT_TTL_SECONDS (w_redis s))"
      using hold_routes(1) [of R wid token s] granted res by (auto split: if_splits)
    then have "holder R wid (w_redis s1) = Some token"
      using granted res by (auto simp: hold_simps [OF assms(1)])
    from hold_kept.run_frozen [OF assms(1,2) this refl]
    show ?thesis by (simp add: gpu_hold_matches_def holder_def)
  qed
  then show ?thesis using granted by (auto simp: holder_def depth_def cmd_exists_def read_queue_depth_def)
qed

lemma release_loaded: "loaded (release mode c) = loaded c"
  by (simp add: release_def split: option.split)

text \<open>C23: A rejected duplicate forgets the first training's claim.  When a training runs under a
  token and a second \<open>POST /tasks/train_lora\<close> with the same token arrives, it is refused with
  409 \<open>already handed over\<close>, but its cleanup drops the handover record of the running training:
  afterwards the handover route denies the claim, the client may release the hold under the
  running training, and a third request with the same token is accepted.\<close>

theorem rejected_duplicate_forgets_claim:
  assumes "redis_laws R" and "token \<in> w_handover_tokens s"
    and "gpu_hold_matches R wid token (w_redis s)"
    and "map_of (loaded (w_cache s)) mode \<noteq> None"
    and "train_lora P R wid None True mode token n tid now None s = (r, s1)"
    and "train_lora P R wid None True mode token n tid3 now3 None s1 = (r3, s3)"
  shows "r = Inl (Http (HTTPException 409 ''GPU hold token is invalid or already handed over''))
    \<and> hold_handover token s1 = (False, None)
    \<and> fst (release_hold R wid token s1) = Inr ()
    \<and> r3 = Inr tid3 \<and> set (w_runners s3) = insert (Training_Runner tid3 mode token) (set (w_runners s))"
proof -
  obtain model where model: "map_of (loaded (w_cache s)) mode = Some model" using assms(4) by blast
  obtain c where acq: "acquire_for_use mode (w_cache s) = (Some model, c)"
      "map_of (loaded c) mode = Some model"
    using model by (auto simp: acquire_for_use_def dict_simps)
  have renewed: "renew_gpu_hold R wid token DEFAULT_TTL_SECONDS w
      = (True, cmd_expire R (gpu_hold_key wid) DEFAULT_TTL_SECONDS w)"
    if "gpu_hold_matches R wid token w" for w
    using that by (simp add: renew_gpu_hold_def gpu_hold_matches_def)
  let ?w = "cmd_expire R (gpu_hold_key wid) DEFAULT_TTL_SECONDS (w_redis s)"
  have held: "gpu_hold_matches R wid token ?w"
    "gpu_hold_matches R wid token (cmd_expire R (gpu_hold_key wid) DEFAULT_TTL_SECONDS ?w)"
    using assms(1,3) by (simp_all add: gpu_hold_matches_def redis_simps)
  have first: "acquire_train_lora_resources R wid mode token n tid now s =
      (Inl (Http (HTTPException 409 ''GPU hold token is invalid or already handed over'')),
       s\<lparr>w_cache := release mode c, w_redis := ?w, w_handover_tokens := w_handover_tokens s - {token},
         w_handover_tasks := dict_del token (w_handover_tasks s)\<rparr>)" (is "_ = (_, ?s1)")
    using assms(2) by (simp add: acquire_train_lora_resources_def acquire_training_model_def acq
        renew_training_hold_def start_gpu_hold_renewal_def renewed [OF assms(3)]
        claim_training_handover_def create_gpu_hold_handover_task_def
        clean_up_train_lora_setup_def release_gpu_hold_handover_def)
  then have s1: "s1 = ?s1"
    and r: "r = Inl (Http (HTTPException 409 ''GPU hold token is invalid or already handed over''))"
    using assms(5) by (auto simp: train_lora_def)
  obtain c' where acq': "acquire_for_use mode (release mode c) = (Some model, c')"
    using acq(2) by (simp add: acquire_for_use_def release_loaded)
  have "r3 = Inr tid3 \<and> set (w_runners s3) = insert (Training_Runner tid3 mode token) (set (w_runners s))"
    using assms(6) by (auto simp: s1 train_lora_def acquire_train_lora_resources_def
        acquire_training_model_def acq' renew_training_hold_def start_gpu_hold_renewal_def
        renewed [OF held(1)] held claim_training_handover_def create_gpu_hold_handover_task_def
        create_task_def)
  moreover have "fst (release_hold R wid token s1) = Inr ()"
    using held(1) by (simp add: release_hold_def s1 release_gpu_hold_def gpu_hold_matches_def)
  ultimately show ?thesis using r by (simp add: hold_handover_def s1 dict_simps)
qed

subsection \<open>Examples\<close>

definition demo_worker :: "(unit, nat, demo_redis) worker" where
  "demo_worker = start_worker demo_ops ''w'' 8 [''a'' \<mapsto> 4] 0 ((\<lambda>_. None), \<lambda>_. 0)"

definition demo_holding :: "demo_redis" where
  "demo_holding = ((\<lambda>k. if k = gpu_hold_key ''w'' then Some ''t'' else None), \<lambda>_. 0)"

lemma demo_reserved:
  "w_redis (snd (reserve_hold demo_ops ''w'' ''t'' demo_worker)) = demo_holding"
  "reserve_hold demo_ops ''w'' ''t'' demo_worker = (Inr ''t'', demo_worker\<lparr>w_redis := demo_holding\<rparr>)"
  by (simp_all add: reserve_hold_def demo_worker_def start_worker_def clear_orphaned_queue_def
      reserve_gpu_hold_def cmd_exists_def demo_ops_def demo_holding_def fun_eq_iff)

theorem gpu_hold_excludes_generations_witness:
  "Generation_Runner ''gen-1'' ''a'' \<notin> set (w_runners (foldl (worker_step demo_ports demo_ops ''w'') demo_worker
     [Op_Cache (Load ''a''), Op_Reserve ''t'', Op_Generate ''a'' ''gen-1'' 0 None]))"
proof -
  let ?ops = "[Op_Cache (Load ''a''), Op_Reserve ''t'', Op_Generate ''a'' ''gen-1'' 0 None]"
  have "w_redis (foldl (worker_step demo_ports demo_ops ''w'') demo_worker ?ops) = demo_holding"
    by (simp add: demo_worker_def start_worker_def clear_orphaned_queue_def reserve_hold_def reserve_gpu_hold_def
      generate_def reserve_generation_task_def cmd_exists_def demo_ops_def demo_holding_def fun_eq_iff split: prod.split)
  then have "cmd_exists demo_ops (gpu_hold_key ''w'') (w_redis (foldl (worker_step demo_ports demo_ops ''w'')
      demo_worker ?ops))"
    by (simp add: cmd_exists_def demo_ops_def demo_holding_def)
  from gpu_hold_excludes_generations [OF demo_ops_laws _ _ _ _ refl this [unfolded demo_worker_def]]
  show ?thesis by (simp add: demo_worker_def ids_drawn_def)
qed

theorem running_model_stays_loaded_witness:
  "runner_mode (Generation_Runner ''gen-1'' ''a'') \<in> set (loaded_modes (w_cache
     (foldl (worker_step demo_ports demo_ops ''w'') demo_worker
        [Op_Cache (Load ''a''), Op_Generate ''a'' ''gen-1'' 0 None, Op_Cache (Evict ''a'')])))"
proof -
  let ?s = "foldl (worker_step demo_ports demo_ops ''w'') demo_worker
      [Op_Cache (Load ''a''), Op_Generate ''a'' ''gen-1'' 0 None, Op_Cache (Evict ''a'')]"
  have "Generation_Runner ''gen-1'' ''a'' \<in> set (w_runners ?s)"
    by (simp add: demo_worker_def start_worker_def clear_orphaned_queue_def generate_def
        reserve_generation_task_def cmd_exists_def demo_ops_def demo_ports_def init_cache_def
        cache_eval acquire_for_use_def create_task_def split: prod.split)
  moreover have "\<forall>r \<in> set (w_runners ?s). runner_mode r \<in> set (loaded_modes (w_cache ?s))"
    using running_model_stays_loaded [OF demo_ops_laws _ _ _ refl, where budget = 8
        and msizes = "[''a'' \<mapsto> 4]" and P = demo_ports and wid = "''w''"
        and ops = "[Op_Cache (Load ''a''), Op_Generate ''a'' ''gen-1'' 0 None, Op_Cache (Evict ''a'')]"
        and v = 0 and w = "((\<lambda>_. None), \<lambda>_. 0)"]
    by (simp add: demo_worker_def)
  ultimately show ?thesis by blast
qed

theorem hold_granted_to_idle_gpu_and_kept_witness:
  "gpu_hold_matches demo_ops ''w'' ''t'' (w_redis (foldl (worker_step demo_ports demo_ops ''w'')
     (demo_worker\<lparr>w_redis := demo_holding\<rparr>) [Op_Reserve ''u'', Op_Release ''u'', Op_Admit]))"
  using hold_granted_to_idle_gpu_and_kept [OF demo_ops_laws, of "''t''" "[Op_Reserve ''u'', Op_Release ''u'', Op_Admit]"
      "''w''" demo_worker demo_ports] demo_reserved(2)
  by simp

theorem rejected_duplicate_forgets_claim_witness:
  "fst (release_hold demo_ops ''w'' ''t'' (snd (train_lora demo_ports demo_ops ''w'' None True ''a'' ''t'' 5
     ''tra-2'' 1 None (demo_worker\<lparr>w_redis := demo_holding, w_handover_tokens := {''t''},
       w_cache := demo_cache\<rparr>)))) = Inr ()"
proof -
  let ?s = "demo_worker\<lparr>w_redis := demo_holding, w_handover_tokens := {''t''}, w_cache := demo_cache\<rparr>"
  have held: "gpu_hold_matches demo_ops ''w'' ''t'' (w_redis ?s)"
    by (simp add: gpu_hold_matches_def demo_ops_def demo_holding_def)
  have model: "map_of (loaded (w_cache ?s)) ''a'' \<noteq> None" by (simp add: demo_cache_def)
  obtain r s1 where a: "train_lora demo_ports demo_ops ''w'' None True ''a'' ''t'' 5 ''tra-2'' 1 None ?s
      = (r, s1)" by fastforce
  obtain r3 s3 where b: "train_lora demo_ports demo_ops ''w'' None True ''a'' ''t'' 5 ''tra-3'' 2 None s1
      = (r3, s3)" by fastforce
  have "''t'' \<in> w_handover_tokens ?s" by simp
  from rejected_duplicate_forgets_claim [OF demo_ops_laws this held model a b] show ?thesis
    by (simp only: a snd_conv)
qed

end
