(* ===== verification/Worker_Routes.thy ===== *)
theory Worker_Routes
  imports Worker_Gpu
begin

text \<open>
  The worker's model routes (\<open>wrapper.py\<close>), the restart after a language-model failure
  (\<open>lm_failure.py\<close>), the check of training paths, and the progress figures that the engine's
  single value is turned into (\<open>acestep_engine/progress.py\<close>, \<open>downloads.py\<close>).  The texts of cache
  errors are the parameter \<open>text_of\<close>.
\<close>

subsection \<open>Loading, evicting, pinning\<close>

text \<open>What the loader and unloader callbacks may raise.\<close>

datatype subprocess_error =
    SubprocessStartError string | LmInitFailedError string | OSError string | OtherException string

datatype route_error = Rejected http_exception | Raised "subprocess_error cache_error"

definition LM_FAILURE_EXIT_CODE :: nat where
  "LM_FAILURE_EXIT_CODE = 75"

text \<open>
  \<open>leave_if_lm_failed\<close>: the second component is the exit code of the requested shutdown.  A
  Redis failure is logged and the process leaves all the same.
\<close>

definition leave_if_lm_failed ::
  "'w redis_ops \<Rightarrow> string \<Rightarrow> string \<Rightarrow> subprocess_error \<Rightarrow> ('h, 'v, 'w) worker
     \<Rightarrow> ('h, 'v, 'w) worker \<times> nat option" where
  "leave_if_lm_failed R wid mode err s =
     (case err of
        LmInitFailedError m \<Rightarrow>
          ((if reachable R (lm_failure_key wid) (w_redis s)
            then s\<lparr>w_redis := snd (cmd_set R (lm_failure_key wid) mode None False (w_redis s))\<rparr>
            else s),
           Some LM_FAILURE_EXIT_CODE)
      | _ \<Rightarrow> (s, None))"

record load_model_response =
  resp_loaded :: "string list"
  resp_evicted :: "string list"
  resp_target_loading :: "string option"

definition load_model ::
  "('h, 'v, subprocess_error) ports \<Rightarrow> 'w redis_ops \<Rightarrow> string
     \<Rightarrow> (subprocess_error cache_error \<Rightarrow> string) \<Rightarrow> string \<Rightarrow> timestamp \<Rightarrow> ('h, 'v, 'w) worker
     \<Rightarrow> (route_error + load_model_response) \<times> ('h, 'v, 'w) worker \<times> nat option" where
  "load_model P R wid text_of mode now s =
     (case load P mode (w_cache s) (w_ports_world s) of (result, c, v) \<Rightarrow>
       (let s1 = s\<lparr>w_cache := c, w_ports_world := v\<rparr> in
        case result of
          Inr res \<Rightarrow>
            (Inr \<lparr>resp_loaded = lr_loaded res, resp_evicted = lr_evicted res,
                  resp_target_loading = target_loading c\<rparr>, s1, None)
        | Inl e \<Rightarrow>
            (case e of
               UnknownModeError m \<Rightarrow> (Inl (Rejected (HTTPException 400 (''Unknown mode: '' @ m))), s1, None)
             | CapacityError reason \<Rightarrow>
                 (Inl (Rejected (HTTPException 409 (text_of e))),
                  s1\<lparr>w_last_error := Some (text_of e, now)\<rparr>, None)
             | CallbackRaised x \<Rightarrow>
                 (case x of
                    OSError m \<Rightarrow> (Inl (Raised e), s1, None)
                  | OtherException m \<Rightarrow> (Inl (Raised e), s1, None)
                  | _ \<Rightarrow>
                      (case leave_if_lm_failed R wid mode x (s1\<lparr>w_last_error := Some (text_of e, now)\<rparr>) of
                         (s2, shutdown) \<Rightarrow> (Inl (Rejected (HTTPException 502 (text_of e))), s2, shutdown)))
             | _ \<Rightarrow> (Inl (Raised e), s1, None))))"

definition evict_model ::
  "('h, 'v, subprocess_error) ports \<Rightarrow> (subprocess_error cache_error \<Rightarrow> string) \<Rightarrow> string
     \<Rightarrow> ('h, 'v, 'w) worker \<Rightarrow> (route_error + string list \<times> string list) \<times> ('h, 'v, 'w) worker" where
  "evict_model P text_of mode s =
     (case evict P mode (w_cache s) (w_ports_world s) of (result, c, v) \<Rightarrow>
       (let s1 = s\<lparr>w_cache := c, w_ports_world := v\<rparr> in
        case result of
          Inr evicted \<Rightarrow> (Inr (loaded_modes c, evicted), s1)
        | Inl (CapacityError reason) \<Rightarrow>
            (Inl (Rejected (HTTPException 409 (text_of (CapacityError reason)))), s1)
        | Inl e \<Rightarrow> (Inl (Raised e), s1)))"

text \<open>The answer is the mode with the sorted list of pinned modes.\<close>

definition pin_model ::
  "('h, 'v, subprocess_error) ports \<Rightarrow> (subprocess_error cache_error \<Rightarrow> string) \<Rightarrow> string
     \<Rightarrow> ('h, 'v, 'w) worker \<Rightarrow> (route_error + string \<times> string list) \<times> ('h, 'v, 'w) worker" where
  "pin_model P text_of mode s =
     (case pin mode (w_cache s) of
        (Inl (ModelNotLoadedError m), c) \<Rightarrow>
          (Inl (Rejected (HTTPException 409 (text_of (ModelNotLoadedError m)))), s\<lparr>w_cache := c\<rparr>)
      | (Inl e, c) \<Rightarrow> (Inl (Raised e), s\<lparr>w_cache := c\<rparr>)
      | (Inr _, c) \<Rightarrow> (Inr (mode, snap_pinned (snapshot P c (w_ports_world s))), s\<lparr>w_cache := c\<rparr>))"

definition unpin_model ::
  "('h, 'v, subprocess_error) ports \<Rightarrow> string \<Rightarrow> ('h, 'v, 'w) worker
     \<Rightarrow> (string \<times> string list) \<times> ('h, 'v, 'w) worker" where
  "unpin_model P mode s =
     (let c = unpin mode (w_cache s)
      in ((mode, snap_pinned (snapshot P c (w_ports_world s))), s\<lparr>w_cache := c\<rparr>))"

subsection \<open>The start after a language-model failure\<close>

text \<open>\<open>Inl\<close> is the exception that makes the start fail.\<close>

definition retry_failed_load ::
  "('h, 'v, subprocess_error) ports \<Rightarrow> 'w redis_ops \<Rightarrow> string
     \<Rightarrow> (subprocess_error cache_error \<Rightarrow> string) \<Rightarrow> timestamp \<Rightarrow> ('h, 'v, 'w) worker
     \<Rightarrow> (subprocess_error cache_error + unit) \<times> ('h, 'v, 'w) worker" where
  "retry_failed_load P R wid text_of now s =
     (case cmd_get R (lm_failure_key wid) (w_redis s) of
        None \<Rightarrow> (Inr (), s)
      | Some mode \<Rightarrow>
          (case load P mode (w_cache s) (w_ports_world s) of (result, c, v) \<Rightarrow>
            (let s1 = s\<lparr>w_cache := c, w_ports_world := v\<rparr>;
                 clear = (\<lambda>s. s\<lparr>w_redis := cmd_del R (lm_failure_key wid) (w_redis s)\<rparr>);
                 note_error = (\<lambda>e s. s\<lparr>w_last_error := Some (text_of e, now)\<rparr>)
             in case result of
                  Inr _ \<Rightarrow> (Inr (), clear s1)
                | Inl e \<Rightarrow>
                    (case e of
                       CallbackRaised (LmInitFailedError m) \<Rightarrow> (Inl e, s1)
                     | CallbackRaised (SubprocessStartError m) \<Rightarrow> (Inr (), clear (note_error e s1))
                     | CallbackRaised (OSError m) \<Rightarrow> (Inr (), clear (note_error e s1))
                     | CapacityError reason \<Rightarrow> (Inr (), clear (note_error e s1))
                     | UnknownModeError m \<Rightarrow> (Inr (), clear (note_error e s1))
                     | _ \<Rightarrow> (Inl e, s1)))))"

subsection \<open>Training paths\<close>

text \<open>A resolved path is the list of its components.\<close>

record file_system =
  is_symlink :: "string \<Rightarrow> bool"
  resolve :: "string \<Rightarrow> string list"
  is_dir :: "string list \<Rightarrow> bool"
  path_exists :: "string list \<Rightarrow> bool"

definition is_relative_to :: "string list \<Rightarrow> string list \<Rightarrow> bool" where
  "is_relative_to p shared_root \<longleftrightarrow> take (length shared_root) p = shared_root"

datatype path_kind = Dataset | Output

fun kind_name :: "path_kind \<Rightarrow> string" where
  "kind_name Dataset = ''dataset''"
| "kind_name Output = ''output''"

definition shared_audio_path ::
  "file_system \<Rightarrow> string \<Rightarrow> string \<Rightarrow> path_kind \<Rightarrow> string + string list" where
  "shared_audio_path fs path shared_root kind =
     (if is_symlink fs path
      then Inl (''LoRA '' @ kind_name kind @ '' path must not be a symlink: '' @ path)
      else let resolved_root = resolve fs shared_root; resolved = resolve fs path in
        if \<not> is_relative_to resolved resolved_root
        then Inl (''LoRA '' @ kind_name kind @ '' path is outside shared audio root: '' @ path)
        else if kind = Dataset \<and> \<not> is_dir fs resolved
        then Inl (''LoRA dataset path is not a directory: '' @ path)
        else if kind = Output \<and> (resolved = resolved_root \<or> path_exists fs resolved)
        then Inl (''LoRA output path must be a new shared directory: '' @ path)
        else Inr resolved)"

definition validated_train_lora_request ::
  "file_system \<Rightarrow> string \<Rightarrow> string \<Rightarrow> string \<Rightarrow> http_exception + string list \<times> string list" where
  "validated_train_lora_request fs shared_root dataset_dir output_dir =
     (case shared_audio_path fs dataset_dir shared_root Dataset of
        Inl e \<Rightarrow> Inl (HTTPException 422 e)
      | Inr dataset \<Rightarrow>
          (case shared_audio_path fs output_dir shared_root Output of
             Inl e \<Rightarrow> Inl (HTTPException 422 e)
           | Inr output \<Rightarrow> Inr (dataset, output)))"

subsection \<open>Progress\<close>

definition RUNNING_STARTS_AT :: rat where "RUNNING_STARTS_AT = 1 / 100"
definition WRITING_STARTS_AT :: rat where "WRITING_STARTS_AT = 1 / 10"
definition RENDERING_STARTS_AT :: rat where "RENDERING_STARTS_AT = 51 / 100"
definition RENDERING_ENDS_AT :: rat where "RENDERING_ENDS_AT = 99 / 100"

definition fraction_between :: "rat \<Rightarrow> rat \<Rightarrow> rat \<Rightarrow> rat" where
  "fraction_between x start stop = min (max ((x - start) / (stop - start)) 0) 1"

definition progress_from_result :: "rat option \<Rightarrow> (acestep_phase \<times> rat) option" where
  "progress_from_result progress =
     (case progress of
        None \<Rightarrow> None
      | Some p \<Rightarrow>
          if p < RUNNING_STARTS_AT then Some (Loading_Model, 0)
          else if p < RENDERING_STARTS_AT
          then Some (Writing, fraction_between p WRITING_STARTS_AT RENDERING_STARTS_AT)
          else Some (Rendering, fraction_between p RENDERING_STARTS_AT RENDERING_ENDS_AT))"

definition download_ratio :: "int \<Rightarrow> int \<Rightarrow> rat" where
  "download_ratio actual expected_size =
     (if expected_size > 0 then min (of_int actual / of_int expected_size) (99 / 100) else 0)"

fun phase_rank :: "acestep_phase \<Rightarrow> nat" where
  "phase_rank Loading_Model = 0"
| "phase_rank Writing = 1"
| "phase_rank Rendering = 2"

lemma fraction_bounds: "0 \<le> fraction_between x a b \<and> fraction_between x a b \<le> 1"
  by (simp add: fraction_between_def)

lemma fraction_mono: "a < b \<Longrightarrow> x \<le> y \<Longrightarrow> fraction_between x a b \<le> fraction_between y a b"
  unfolding fraction_between_def
  by (intro min.mono max.mono divide_right_mono) auto

text \<open>The progress a listener sees never goes back while the engine's value does not: for
  values \<open>p \<le> q\<close> the phase of \<open>q\<close> is the same or a later one, within one phase the fraction does
  not fall, and every fraction lies between 0 and 1.\<close>

theorem progress_is_monotone:
  assumes "p \<le> q" and "progress_from_result (Some p) = Some (ph, x)"
    and "progress_from_result (Some q) = Some (ph', y)"
  shows "phase_rank ph \<le> phase_rank ph' \<and> (ph = ph' \<longrightarrow> x \<le> y) \<and> 0 \<le> x \<and> y \<le> 1"
  using assms fraction_bounds fraction_mono [of WRITING_STARTS_AT RENDERING_STARTS_AT p q]
    fraction_mono [of RENDERING_STARTS_AT RENDERING_ENDS_AT p q]
  by (auto simp: progress_from_result_def RUNNING_STARTS_AT_def WRITING_STARTS_AT_def
      RENDERING_STARTS_AT_def RENDERING_ENDS_AT_def split: if_splits)

theorem progress_is_monotone_witness:
  "phase_rank Writing \<le> phase_rank Rendering \<and> (0 :: rat) \<le> 1"
proof -
  have "progress_from_result (Some (1/2)) = Some (Writing, 40 / 41)"
    and "progress_from_result (Some 1) = Some (Rendering, 1)"
    by (simp_all add: progress_from_result_def RUNNING_STARTS_AT_def WRITING_STARTS_AT_def
        RENDERING_STARTS_AT_def RENDERING_ENDS_AT_def fraction_between_def)
  from progress_is_monotone [OF _ this] show ?thesis by simp
qed

text \<open>A model whose language model failed to start is retried at the next start and only
  then forgotten: the failing load records the mode and asks for the exit code 75; the next
  process, whatever its cache, tries exactly that mode, keeps the record if and only if the
  start fails (on the language model again, or on an error the code does not expect), and
  otherwise removes it and starts.\<close>

theorem lm_failure_is_retried:
  assumes "redis_laws R" and "\<And>w. reachable R (lm_failure_key wid) w"
    and "load P mode (w_cache s) (w_ports_world s) = (Inl (CallbackRaised (LmInitFailedError m)), c, v)"
    and "load_model P R wid text_of mode now s = (r, s1, shutdown)"
    and "w_redis s2 = w_redis s1"
    and "retry_failed_load P2 R wid text_of now2 s2 = (outcome, s3)"
  shows "shutdown = Some 75
    \<and> w_cache s3 = fst (snd (load P2 mode (w_cache s2) (w_ports_world s2)))
    \<and> (cmd_get R (lm_failure_key wid) (w_redis s3) = (if isl outcome then Some mode else None))
    \<and> (fst (load P2 mode (w_cache s2) (w_ports_world s2)) = Inl (CallbackRaised (LmInitFailedError m2))
        \<longrightarrow> isl outcome)"
proof -
  have redis: "w_redis s1 = snd (cmd_set R (lm_failure_key wid) mode None False (w_redis s))"
    and shutdown: "shutdown = Some 75"
    using assms(4) by (auto simp: load_model_def assms(2,3) Let_def leave_if_lm_failed_def
        LM_FAILURE_EXIT_CODE_def)
  then have key: "cmd_get R (lm_failure_key wid) (w_redis s2) = Some mode"
    using assms(1,5) by (simp add: redis_simps)
  obtain r2 c2 v2 where load2: "load P2 mode (w_cache s2) (w_ports_world s2) = (r2, c2, v2)"
    by (metis prod_cases3)
  show ?thesis
    using assms(6) shutdown key assms(1)
    by (auto simp: retry_failed_load_def load2 Let_def redis_simps
        split: sum.splits cache_error.splits subprocess_error.splits)
qed

text \<open>Training paths stay inside the shared audio root: whenever a request is accepted, both
  resolved paths lie below the resolved root, neither given path is a symbolic link, the dataset
  is a directory, and the output is a new path that is not the root itself.\<close>

theorem training_paths_stay_inside:
  assumes "validated_train_lora_request fs shared_root dataset_dir output_dir = Inr (dataset, output)"
  shows "is_relative_to dataset (resolve fs shared_root) \<and> is_relative_to output (resolve fs shared_root)
    \<and> dataset = resolve fs dataset_dir \<and> output = resolve fs output_dir
    \<and> \<not> is_symlink fs dataset_dir \<and> \<not> is_symlink fs output_dir
    \<and> is_dir fs dataset \<and> output \<noteq> resolve fs shared_root \<and> \<not> path_exists fs output"
  using assms by (auto simp: validated_train_lora_request_def shared_audio_path_def Let_def
      split: sum.splits if_splits)

definition demo_fs :: file_system where
  "demo_fs = \<lparr>is_symlink = (\<lambda>_. False), resolve = (\<lambda>p. if p = ''/r'' then [''r''] else [''r'', p]),
     is_dir = (\<lambda>p. p = [''r'', ''d'']), path_exists = (\<lambda>p. p = [''r'', ''d''])\<rparr>"

theorem training_paths_stay_inside_witness:
  "is_relative_to [''r'', ''o''] [''r'']"
proof -
  have "validated_train_lora_request demo_fs ''/r'' ''d'' ''o'' = Inr ([''r'', ''d''], [''r'', ''o''])"
    by (simp add: validated_train_lora_request_def shared_audio_path_def demo_fs_def is_relative_to_def)
  from training_paths_stay_inside [OF this] show ?thesis by (simp add: demo_fs_def)
qed

definition lm_broken_ports :: "(unit, nat, subprocess_error) ports" where
  "lm_broken_ports = \<lparr>loader = (\<lambda>m w. (Inl (LmInitFailedError ''lm''), w)),
     unloader = (\<lambda>_ w. (None, w)), vram_reader = None, utcnow = (\<lambda>_. 7)\<rparr>"

theorem lm_failure_is_retried_witness:
  "fst (retry_failed_load lm_broken_ports demo_ops ''w'' (\<lambda>_. ''e'') 9
     (demo_worker\<lparr>w_redis := ((\<lambda>k. if k = lm_failure_key ''w'' then Some ''a'' else None), \<lambda>_. 0)\<rparr>))
   = Inl (CallbackRaised (LmInitFailedError ''lm''))"
proof -
  have load: "load lm_broken_ports ''a'' (w_cache demo_worker) (w_ports_world demo_worker)
      = (Inl (CallbackRaised (LmInitFailedError ''lm'')), w_cache demo_worker, 0)"
    by (simp add: demo_worker_def start_worker_def lm_broken_ports_def cache_eval)
  have start_redis: "w_redis demo_worker = ((\<lambda>_. None), \<lambda>_. 0)"
    by (simp add: demo_worker_def start_worker_def clear_orphaned_queue_def demo_ops_def fun_eq_iff)
  obtain r s1 shutdown where a: "load_model lm_broken_ports demo_ops ''w'' (\<lambda>_. ''e'') ''a'' 5 demo_worker
      = (r, s1, shutdown)" by (metis prod_cases3)
  obtain outcome s3 where b: "retry_failed_load lm_broken_ports demo_ops ''w'' (\<lambda>_. ''e'') 9
      (demo_worker\<lparr>w_redis := w_redis s1\<rparr>) = (outcome, s3)" by fastforce
  have s1: "w_redis s1 = ((\<lambda>k. if k = lm_failure_key ''w'' then Some ''a'' else None), \<lambda>_. 0)"
    using a unfolding load_model_def load
    by (auto simp: Let_def leave_if_lm_failed_def start_redis LM_FAILURE_EXIT_CODE_def demo_ops_def fun_eq_iff)
  have "isl outcome"
    using lm_failure_is_retried [OF demo_ops_laws _ load a _ b, of "''lm''"] load
    by (simp add: demo_ops_def)
  then show ?thesis
    using b load by (auto simp: s1 retry_failed_load_def demo_ops_def Let_def)
qed

end
