(* ===== verification/Scheduler.thy ===== *)
theory Scheduler
  imports Worker_Gpu Worker_Liveness Py_Strings
begin

text \<open>
  The control plane's side of a generation (\<open>src/src/songmaker_cli/scheduler.py\<close>): picking a
  worker, its event stream with reconnects, the consumption of events, the dispatch with one
  reload, and the fetch of the finished take.  The workers answer over HTTP; what they answer is
  the record \<open>worker_answers\<close>, an argument: the reply to the n-th call of a kind, the contents
  of the n-th connection to a stream.  JSON, float and integer parsing and the validation of
  results (pydantic) are the record \<open>decoders\<close>.  Every call made to the worker is recorded, so
  that a property can count them.
\<close>

subsection \<open>Errors and picked workers\<close>

datatype httpx_error = ReadTimeout string | TransportError string | HTTPStatusError string

datatype sched_error =
    NoCapacityError string
  | AllWorkersHeld string
  | WorkerTaskFailed string
  | WorkerGenerationFailed string
  | WorkerGpuOutOfMemory string
  | WorkerGenerationUnavailable string
  | WorkerModeNotLoaded string
  | WorkerProtocolError string
  | HttpxError httpx_error
  | UnexpectedError string

record picked_worker =
  pw_id :: string
  pw_host :: string
  pw_port :: int
  pw_loaded_modes :: "string list"
  pw_queue_depth :: int

definition record_loaded :: "string \<Rightarrow> picked_worker \<Rightarrow> picked_worker" where
  "record_loaded mode wk =
     (if mode \<notin> set (pw_loaded_modes wk)
      then wk\<lparr>pw_loaded_modes := pw_loaded_modes wk @ [mode]\<rparr> else wk)"

type_synonym json_object = "(string \<times> json) list"

record decoders =
  loads :: "string \<Rightarrow> json option"
  float_of :: "string \<Rightarrow> rat option"
  int_of :: "string \<Rightarrow> int option"
  text_of_json :: "json \<Rightarrow> string"
  heartbeat_modes :: "json_object \<Rightarrow> string list option"

definition NO_ONLINE_DETAIL :: string where
  "NO_ONLINE_DETAIL = ''No online ACE-Step workers''"

fun list_online_workers ::
  "'w redis_ops \<Rightarrow> decoders \<Rightarrow> (string \<times> string \<times> int) list \<Rightarrow> 'w
     \<Rightarrow> sched_error + picked_worker list" where
  "list_online_workers R D [] w = Inr []"
| "list_online_workers R D ((i, host, port) # idents) w =
     (let rest = list_online_workers R D idents w in
      case cmd_get R (worker_state_key i) w of
        None \<Rightarrow> rest
      | Some text \<Rightarrow>
          (case loads D text of
             None \<Rightarrow> Inl (UnexpectedError ''JSONDecodeError'')
           | Some JNull \<Rightarrow> rest
           | Some (JObj state) \<Rightarrow>
               if \<not> worker_is_online (Some state) then rest
               else (case heartbeat_modes D state of
                       None \<Rightarrow> rest
                     | Some modes \<Rightarrow>
                         map_sum id ((#) \<lparr>pw_id = i, pw_host = host, pw_port = port, pw_loaded_modes = modes,
                           pw_queue_depth = read_queue_depth R i w\<rparr>) rest)
           | Some _ \<Rightarrow> Inl (UnexpectedError ''AttributeError'')))"

text \<open>\<open>min(pool, key=...)\<close>: the first of the minimal elements; the pool is not empty.\<close>

fun first_min :: "('a \<Rightarrow> 'b :: linorder) \<Rightarrow> 'a \<Rightarrow> 'a list \<Rightarrow> 'a" where
  "first_min key best [] = best"
| "first_min key best (x # xs) = first_min key (if key x < key best then x else best) xs"

definition pick_from :: "picked_worker list \<Rightarrow> string \<Rightarrow> sched_error + picked_worker" where
  "pick_from workers target_mode =
     (case workers of
        [] \<Rightarrow> Inl (NoCapacityError NO_ONLINE_DETAIL)
      | _ \<Rightarrow>
          (let ready = filter (\<lambda>wk. target_mode \<in> set (pw_loaded_modes wk)) workers;
               pool = (if ready \<noteq> [] then ready else workers)
           in Inr (first_min pw_queue_depth (hd pool) (tl pool))))"

definition pick_worker ::
  "'w redis_ops \<Rightarrow> decoders \<Rightarrow> (string \<times> string \<times> int) list \<Rightarrow> string \<Rightarrow> 'w
     \<Rightarrow> sched_error + picked_worker" where
  "pick_worker R D idents target_mode w =
     (case list_online_workers R D idents w of
        Inl e \<Rightarrow> Inl e
      | Inr [] \<Rightarrow> Inl (NoCapacityError NO_ONLINE_DETAIL)
      | Inr workers \<Rightarrow>
          (let available = filter (\<lambda>wk. \<not> cmd_exists R (gpu_hold_key (pw_id wk)) w) workers
           in if available = []
              then Inl (AllWorkersHeld ''All online ACE-Step workers are held for LoRA training'')
              else pick_from available target_mode))"

definition pick_any_online_worker ::
  "'w redis_ops \<Rightarrow> decoders \<Rightarrow> (string \<times> string \<times> int) list \<Rightarrow> 'w \<Rightarrow> sched_error + picked_worker" where
  "pick_any_online_worker R D idents w =
     (case list_online_workers R D idents w of
        Inl e \<Rightarrow> Inl e
      | Inr [] \<Rightarrow> Inl (NoCapacityError NO_ONLINE_DETAIL)
      | Inr (wk # wks) \<Rightarrow> Inr (first_min pw_id wk wks))"

text \<open>\<open>env\<close> is what happens in Redis between the pick and the admission script.\<close>

definition admit_generation_worker ::
  "'w redis_ops \<Rightarrow> decoders \<Rightarrow> (string \<times> string \<times> int) list \<Rightarrow> string \<Rightarrow> ('w \<Rightarrow> 'w) \<Rightarrow> 'w
     \<Rightarrow> (sched_error + picked_worker) \<times> 'w" where
  "admit_generation_worker R D idents target_mode env w =
     (case pick_worker R D idents target_mode w of
        Inl e \<Rightarrow> (Inl e, w)
      | Inr wk \<Rightarrow>
          (case admit_generation R (pw_id wk) (env w) of
             (False, w') \<Rightarrow>
               (Inl (AllWorkersHeld ''ACE-Step worker became held before generation admission''), w')
           | (True, w') \<Rightarrow> (Inr wk, w')))"

subsection \<open>Server-sent events\<close>

text \<open>The worker's side: \<open>_format_sse\<close> of \<open>acestep_worker/wrapper.py\<close>.\<close>

definition format_sse :: "string \<Rightarrow> string \<Rightarrow> string" where
  "format_sse ev payload = ''event: '' @ ev @ [LF] @ ''data: '' @ payload @ [LF, LF]"

fun sse_fields :: "string list \<Rightarrow> string option \<Rightarrow> string list \<Rightarrow> string option \<times> string list" where
  "sse_fields [] ev data = (ev, data)"
| "sse_fields (line # rest) ev data =
     (if startswith ''event:'' line then sse_fields rest (Some (strip (drop 6 line))) data
      else if startswith ''data:'' line then sse_fields rest ev (data @ [strip (drop 5 line)])
      else sse_fields rest ev data)"

type_synonym sse_event = "string \<times> json_object"

definition parse_sse_event :: "decoders \<Rightarrow> string \<Rightarrow> sse_event option" where
  "parse_sse_event D buffer =
     (case sse_fields (splitlines buffer) None [] of
        (None, data) \<Rightarrow> None
      | (Some ev, data) \<Rightarrow>
          if data = [] then None
          else (case loads D (join_with [LF] data) of
                  Some (JObj obj) \<Rightarrow> Some (ev, obj)
                | _ \<Rightarrow> None))"

text \<open>\<open>while "\n\n" in buffer\<close>: the events of the complete blocks, and the rest.\<close>

function drain_buffer :: "decoders \<Rightarrow> string \<Rightarrow> sse_event list \<times> string" where
  "drain_buffer D buffer =
     (case split_once [LF, LF] buffer of
        None \<Rightarrow> ([], buffer)
      | Some (raw, rest) \<Rightarrow>
          (case drain_buffer D rest of
             (es, left) \<Rightarrow>
               ((case parse_sse_event D raw of None \<Rightarrow> es | Some e \<Rightarrow> e # es), left)))"
  by pat_completeness auto
termination
  by (relation "measure (\<lambda>(D, buffer). length buffer)") (auto dest: split_once_parts)

declare drain_buffer.simps [simp del]

fun stream_events :: "decoders \<Rightarrow> string \<Rightarrow> string list \<Rightarrow> sse_event list" where
  "stream_events D buffer [] = []"
| "stream_events D buffer (chunk # chunks) =
     (case drain_buffer D (buffer @ chunk) of (es, rest) \<Rightarrow> es @ stream_events D rest chunks)"

datatype stream_connection = Refused httpx_error | Connected "string list" "httpx_error option"

definition ends_task :: "sse_event \<Rightarrow> bool" where
  "ends_task e \<longleftrightarrow> fst e = ''done'' \<or> fst e = ''error''"

fun upto_task_end :: "sse_event list \<Rightarrow> sse_event list \<times> bool" where
  "upto_task_end [] = ([], False)"
| "upto_task_end (e # es) =
     (if ends_task e then ([e], True)
      else case upto_task_end es of (es', ended) \<Rightarrow> (e # es', ended))"

record dispatch_options =
  max_sse_reconnects :: nat
  initial_reconnect_backoff_seconds :: rat
  max_reconnect_backoff_seconds :: rat
  generation_result_max_bytes :: nat

definition sse_reconnect_delay :: "dispatch_options \<Rightarrow> nat \<Rightarrow> rat" where
  "sse_reconnect_delay opt reconnects =
     min (initial_reconnect_backoff_seconds opt * 2 ^ (reconnects - 1)) (max_reconnect_backoff_seconds opt)"

text \<open>
  \<open>_iterate_task_events\<close>: \<open>conn n\<close> is the n-th connection, \<open>attempt\<close> the number of reconnects so
  far and \<open>left\<close> what remains of the budget.  The result is the events that are yielded, the
  error the generator ends with, and the pauses between connections.
\<close>

fun iterate_from ::
  "decoders \<Rightarrow> dispatch_options \<Rightarrow> (nat \<Rightarrow> stream_connection) \<Rightarrow> nat \<Rightarrow> nat
     \<Rightarrow> sse_event list \<times> httpx_error option \<times> rat list" where
  "iterate_from D opt conn attempt left =
     (let (es, ended, err) =
        (case conn attempt of
           Refused e \<Rightarrow> ([], False, Some e)
         | Connected chunks e \<Rightarrow>
             (case upto_task_end (stream_events D [] chunks) of (es, ended) \<Rightarrow> (es, ended, e)))
      in if ended then (es, None, [])
         else case err of
           None \<Rightarrow> (es, None, [])
         | Some (TransportError m) \<Rightarrow>
             (case left of
                0 \<Rightarrow> (es, Some (TransportError m), [])
              | Suc left' \<Rightarrow>
                  (case iterate_from D opt conn (attempt + 1) left' of
                     (es', err', pauses) \<Rightarrow>
                       (es @ es', err', sse_reconnect_delay opt (attempt + 1) # pauses)))
         | Some e \<Rightarrow> (es, Some e, []))"

declare iterate_from.simps [simp del]

definition iterate_task_events ::
  "decoders \<Rightarrow> dispatch_options \<Rightarrow> (nat \<Rightarrow> stream_connection)
     \<Rightarrow> sse_event list \<times> httpx_error option \<times> rat list" where
  "iterate_task_events D opt conn = iterate_from D opt conn 0 (max_sse_reconnects opt)"

subsection \<open>Consuming a task's stream\<close>

fun truthy :: "json \<Rightarrow> bool" where
  "truthy JNull = False"
| "truthy (JBool b) = b"
| "truthy (JNum r) = (r \<noteq> 0)"
| "truthy (JStr s) = (s \<noteq> [])"
| "truthy (JList xs) = (xs \<noteq> [])"
| "truthy (JObj kvs) = (kvs \<noteq> [])"

text \<open>Python's \<open>float(...)\<close> of a decoded value.\<close>

fun to_float :: "decoders \<Rightarrow> json \<Rightarrow> rat option" where
  "to_float D (JNum r) = Some r"
| "to_float D (JBool b) = Some (if b then 1 else 0)"
| "to_float D (JStr s) = float_of D s"
| "to_float D _ = None"

datatype progress_call = Plain_Progress rat | Generation_Progress acestep_phase rat

record 'r stream_kind =
  sk_validate :: "json \<Rightarrow> string + 'r"
  sk_label :: string
  sk_classify :: "json_object \<Rightarrow> string \<Rightarrow> sched_error"
  sk_progress :: "json_object \<Rightarrow> sched_error + progress_call option"
  sk_silence :: "string \<Rightarrow> sched_error"

definition plain_progress_events :: "decoders \<Rightarrow> json_object \<Rightarrow> sched_error + progress_call option" where
  "plain_progress_events D data =
     (case to_float D (case map_of data ''progress'' of None \<Rightarrow> JNum 0 | Some j \<Rightarrow> j) of
        None \<Rightarrow> Inl (UnexpectedError ''float'')
      | Some x \<Rightarrow> Inr (Some (Plain_Progress x)))"

definition parse_acestep_phase :: "json option \<Rightarrow> acestep_phase option" where
  "parse_acestep_phase j =
     (if j = Some (JStr ''loading_model'') then Some Loading_Model
      else if j = Some (JStr ''writing'') then Some Writing
      else if j = Some (JStr ''rendering'') then Some Rendering
      else None)"

definition generation_progress_events ::
  "decoders \<Rightarrow> json_object \<Rightarrow> sched_error + progress_call option" where
  "generation_progress_events D data =
     (case parse_acestep_phase (map_of data ''phase'') of
        None \<Rightarrow> Inr None
      | Some phase \<Rightarrow>
          (case map_of data ''progress'' of
             None \<Rightarrow> Inr None
           | Some j \<Rightarrow>
               (case to_float D j of
                  None \<Rightarrow> Inl (UnexpectedError ''float'')
                | Some x \<Rightarrow> Inr (Some (Generation_Progress phase x)))))"

definition validate_task_result :: "'r stream_kind \<Rightarrow> json_object \<Rightarrow> sched_error + 'r" where
  "validate_task_result K data =
     (case map_of data ''result'' of
        None \<Rightarrow> Inl (WorkerProtocolError ''Worker done event missing 'result' field'')
      | Some j \<Rightarrow>
          (case sk_validate K j of
             Inl exc \<Rightarrow> Inl (WorkerTaskFailed (''Worker returned '' @ sk_label K @ '': '' @ exc))
           | Inr r \<Rightarrow> Inr r))"

definition generation_error_class :: "json_object \<Rightarrow> string \<Rightarrow> sched_error" where
  "generation_error_class data =
     (if map_of data ''error_kind'' = Some (JStr ''gpu_out_of_memory'')
      then WorkerGpuOutOfMemory else WorkerGenerationFailed)"

definition worker_event_error :: "decoders \<Rightarrow> 'r stream_kind \<Rightarrow> json_object \<Rightarrow> sched_error" where
  "worker_event_error D K data =
     (case map_of data ''error'' of
        None \<Rightarrow> WorkerProtocolError ''Worker error event missing 'error' field''
      | Some message \<Rightarrow>
          if \<not> truthy message
          then WorkerProtocolError ''Worker error event has an empty 'error' field''
          else sk_classify K data (text_of_json D message))"

datatype 'r event_outcome = Go_On "progress_call option" | Stop "sched_error + 'r"

definition consume_stream_event :: "decoders \<Rightarrow> 'r stream_kind \<Rightarrow> sse_event \<Rightarrow> 'r event_outcome" where
  "consume_stream_event D K e =
     (if fst e = ''progress'' then
        (case sk_progress K (snd e) of Inl err \<Rightarrow> Stop (Inl err) | Inr call \<Rightarrow> Go_On call)
      else if fst e = ''done'' then Stop (validate_task_result K (snd e))
      else if fst e = ''error'' then Stop (Inl (worker_event_error D K (snd e)))
      else Go_On None)"

text \<open>The loop over the yielded events: its outcome if it stops, the progress calls it makes, and
  the number of heartbeats.\<close>

fun consume_events ::
  "decoders \<Rightarrow> 'r stream_kind \<Rightarrow> sse_event list
     \<Rightarrow> (sched_error + 'r) option \<times> progress_call list \<times> nat" where
  "consume_events D K [] = (None, [], 0)"
| "consume_events D K (e # es) =
     (case consume_stream_event D K e of
        Stop r \<Rightarrow> (Some r, [], 1)
      | Go_On call \<Rightarrow>
          (case consume_events D K es of
             (r, calls, beats) \<Rightarrow>
               (r, (case call of None \<Rightarrow> calls | Some c \<Rightarrow> c # calls), Suc beats)))"

definition WORKER_STREAM_WENT_SILENT :: string where
  "WORKER_STREAM_WENT_SILENT = ''Worker stream went silent''"

definition consume_task_stream_of ::
  "decoders \<Rightarrow> dispatch_options \<Rightarrow> 'r stream_kind \<Rightarrow> (nat \<Rightarrow> stream_connection)
     \<Rightarrow> (sched_error + 'r) \<times> progress_call list \<times> nat" where
  "consume_task_stream_of D opt K conn =
     (case iterate_task_events D opt conn of (events, err, pauses) \<Rightarrow>
       (case consume_events D K events of (outcome, calls, beats) \<Rightarrow>
         ((case outcome of
             Some r \<Rightarrow> r
           | None \<Rightarrow>
               (case err of
                  None \<Rightarrow> Inl (WorkerTaskFailed ''SSE stream ended without done/error event'')
                | Some (ReadTimeout m) \<Rightarrow> Inl (sk_silence K WORKER_STREAM_WENT_SILENT)
                | Some e \<Rightarrow> Inl (HttpxError e))),
          calls, beats)))"

text \<open>
  How many connections the consumption opens.  The generator is lazy: the next connection is opened
  only when the events of the last one were all consumed without an outcome, it broke off with a
  transport error, and budget is left.
\<close>

definition connection_events :: "decoders \<Rightarrow> stream_connection \<Rightarrow> sse_event list \<times> bool \<times> httpx_error option" where
  "connection_events D c =
     (case c of
        Refused e \<Rightarrow> ([], False, Some e)
      | Connected chunks e \<Rightarrow>
          (case upto_task_end (stream_events D [] chunks) of (es, ended) \<Rightarrow> (es, ended, e)))"

fun connections_opened ::
  "decoders \<Rightarrow> 'r stream_kind \<Rightarrow> (nat \<Rightarrow> stream_connection) \<Rightarrow> nat \<Rightarrow> nat \<Rightarrow> nat" where
  "connections_opened D K conn attempt left =
     (case connection_events D (conn attempt) of (es, ended, err) \<Rightarrow>
        if ended \<or> fst (consume_events D K es) \<noteq> None then 1
        else (case (err, left) of
                (Some (TransportError m), Suc left') \<Rightarrow> Suc (connections_opened D K conn (attempt + 1) left')
              | _ \<Rightarrow> 1))"

declare connections_opened.simps [simp del]

record generation_result =
  gr_mode :: string
  gr_seed :: int
  gr_cot_caption :: string
  gr_cot_lyrics :: string
  gr_delivered_batch_size :: "int option"

definition generation_kind ::
  "decoders \<Rightarrow> (json \<Rightarrow> string + generation_result) \<Rightarrow> generation_result stream_kind" where
  "generation_kind D validate =
     \<lparr>sk_validate = validate, sk_label = ''invalid result'', sk_classify = generation_error_class,
      sk_progress = generation_progress_events D, sk_silence = WorkerGenerationUnavailable\<rparr>"

definition consume_task_stream ::
  "decoders \<Rightarrow> dispatch_options \<Rightarrow> (json \<Rightarrow> string + generation_result) \<Rightarrow> (nat \<Rightarrow> stream_connection)
     \<Rightarrow> (sched_error + generation_result) \<times> progress_call list \<times> nat" where
  "consume_task_stream D opt validate conn =
     (case consume_task_stream_of D opt (generation_kind D validate) conn of (r, calls, beats) \<Rightarrow>
       ((case r of
           Inl (HttpxError (TransportError m)) \<Rightarrow> Inl (WorkerGenerationUnavailable m)
         | _ \<Rightarrow> r), calls, beats))"

definition consume_download_task_stream ::
  "decoders \<Rightarrow> dispatch_options \<Rightarrow> (json \<Rightarrow> string + 'r) \<Rightarrow> (nat \<Rightarrow> stream_connection)
     \<Rightarrow> (sched_error + 'r) \<times> progress_call list \<times> nat" where
  "consume_download_task_stream D opt validate conn =
     consume_task_stream_of D opt
       \<lparr>sk_validate = validate, sk_label = ''invalid download result'',
        sk_classify = (\<lambda>_. WorkerTaskFailed), sk_progress = plain_progress_events D,
        sk_silence = WorkerTaskFailed\<rparr> conn"

subsection \<open>Loading, submitting, fetching\<close>

datatype http_reply = Reply nat string | Unreachable string

datatype worker_call =
    Call_Load string | Call_Generate string | Call_Stream string | Call_Result string | Call_Delete string

text \<open>How a transfer goes wrong: with an error of httpx, or with any other exception (a write that
  fails, a cancellation).  The body of a result: the failure instead of an answer, or its headers,
  its chunks and the failure its transfer breaks off with.  A \<open>DELETE\<close> is answered, fails with an
  error of httpx, or ends with another exception.\<close>

datatype transfer_failure = Http_Failure httpx_error | Other_Failure string

datatype result_reply =
    Result_Refused transfer_failure
  | Result_Body "string option" "string option" "string list" "transfer_failure option"

datatype delete_reply = Deleted | Delete_Failed httpx_error | Delete_Raised string

record worker_answers =
  ans_load :: "nat \<Rightarrow> http_reply"
  ans_generate :: "nat \<Rightarrow> http_reply"
  ans_stream :: "string \<Rightarrow> nat \<Rightarrow> stream_connection"
  ans_result :: "string \<Rightarrow> result_reply"
  ans_delete :: "string \<Rightarrow> delete_reply"

definition worker_response_cause :: "decoders \<Rightarrow> nat \<Rightarrow> string \<Rightarrow> string" where
  "worker_response_cause D status text =
     (if strip text = [] then ''Worker returned '' @ show_nat status @ '' with no detail''
      else case loads D text of
        Some (JObj obj) \<Rightarrow> (case map_of obj ''detail'' of Some (JStr d) \<Rightarrow> d | _ \<Rightarrow> text)
      | _ \<Rightarrow> text)"

text \<open>\<open>raise_for_status\<close> raises for every status outside 2xx (redirects are not followed).\<close>

definition is_success :: "nat \<Rightarrow> bool" where
  "is_success status \<longleftrightarrow> 200 \<le> status \<and> status < 300"

text \<open>\<open>_load_model\<close>; the n-th load call of the job.  The call first reports the loading phase.\<close>

definition load_on_worker ::
  "decoders \<Rightarrow> worker_answers \<Rightarrow> nat \<Rightarrow> string \<Rightarrow> picked_worker \<Rightarrow> sched_error + picked_worker" where
  "load_on_worker D A n target_mode wk =
     (case ans_load A n of
        Unreachable m \<Rightarrow> Inl (WorkerGenerationUnavailable m)
      | Reply status text \<Rightarrow>
          if \<not> is_success status then Inl (WorkerGenerationUnavailable (worker_response_cause D status text))
          else Inr (record_loaded target_mode wk))"

definition answers_mode_not_loaded :: "decoders \<Rightarrow> nat \<Rightarrow> string \<Rightarrow> string \<Rightarrow> bool" where
  "answers_mode_not_loaded D status text mode \<longleftrightarrow>
     status = 409
     \<and> worker_response_cause D status text = ''Mode '' @ mode @ '' not loaded; call /load_model first''"

definition submit_generation ::
  "decoders \<Rightarrow> worker_answers \<Rightarrow> nat \<Rightarrow> string \<Rightarrow> sched_error + string" where
  "submit_generation D A n target_mode =
     (case ans_generate A n of
        Unreachable m \<Rightarrow> Inl (WorkerGenerationUnavailable m)
      | Reply status text \<Rightarrow>
          if answers_mode_not_loaded D status text target_mode
          then Inl (WorkerModeNotLoaded (worker_response_cause D status text))
          else if \<not> is_success status then Inl (HttpxError (HTTPStatusError text))
          else (case loads D text of
                  Some (JObj obj) \<Rightarrow>
                    (case map_of obj ''task_id'' of
                       Some t \<Rightarrow> Inr (text_of_json D t) | None \<Rightarrow> Inl (UnexpectedError ''KeyError''))
                | _ \<Rightarrow> Inl (UnexpectedError ''task_id'')))"

fun httpx_text :: "httpx_error \<Rightarrow> string" where
  "httpx_text (ReadTimeout m) = m"
| "httpx_text (TransportError m) = m"
| "httpx_text (HTTPStatusError m) = m"

definition WORKER_RESULT_TOO_LARGE :: string where
  "WORKER_RESULT_TOO_LARGE = ''Worker result is larger than the longest take allowed''"

text \<open>The chunks are counted before they are written.\<close>

fun write_chunks :: "nat \<Rightarrow> nat \<Rightarrow> string list \<Rightarrow> string \<Rightarrow> sched_error option \<times> string" where
  "write_chunks limit received [] take_file = (None, take_file)"
| "write_chunks limit received (chunk # chunks) take_file =
     (if received + length chunk > limit then (Some (WorkerTaskFailed WORKER_RESULT_TOO_LARGE), take_file)
      else write_chunks limit (received + length chunk) chunks (take_file @ chunk))"

fun fetch_failed :: "transfer_failure \<Rightarrow> sched_error" where
  "fetch_failed (Http_Failure e) = WorkerTaskFailed (''Worker result fetch failed: '' @ httpx_text e)"
| "fetch_failed (Other_Failure m) = UnexpectedError m"

definition stream_generation_result ::
  "decoders \<Rightarrow> dispatch_options \<Rightarrow> result_reply \<Rightarrow> sched_error option \<times> string" where
  "stream_generation_result D opt reply =
     (case reply of
        Result_Refused e \<Rightarrow> (Some (fetch_failed e), [])
      | Result_Body encoding len chunks broken \<Rightarrow>
          if ascii_lower (strip (case encoding of None \<Rightarrow> ''identity'' | Some e \<Rightarrow> e)) \<noteq> ''identity''
          then (Some (WorkerTaskFailed ''Worker result arrived content-encoded''), [])
          else (case (case len of None \<Rightarrow> Some 0 | Some l \<Rightarrow> int_of D l) of
                  None \<Rightarrow> (Some (UnexpectedError ''content-length''), [])
                | Some n \<Rightarrow>
                    if n > int (generation_result_max_bytes opt)
                    then (Some (WorkerTaskFailed WORKER_RESULT_TOO_LARGE), [])
                    else (case write_chunks (generation_result_max_bytes opt) 0 chunks [] of
                            (Some e, got) \<Rightarrow> (Some e, got)
                          | (None, got) \<Rightarrow> (map_option fetch_failed broken, got))))"

text \<open>\<open>_release_generation_result\<close>: the exception it raises, if any; an error of httpx is only
  logged.\<close>

definition release_generation_result :: "delete_reply \<Rightarrow> sched_error option" where
  "release_generation_result reply =
     (case reply of Deleted \<Rightarrow> None | Delete_Failed e \<Rightarrow> None | Delete_Raised m \<Rightarrow> Some (UnexpectedError m))"

text \<open>
  Music's own files are \<open>files\<close>; \<open>path\<close> is the fresh temporary name, already opened.  The worker's
  copy is freed after a complete transfer.  Whatever the transfer or the release raises, the file
  is unlinked and the exception raised on.
\<close>

definition fetch_generation_result ::
  "decoders \<Rightarrow> dispatch_options \<Rightarrow> worker_answers \<Rightarrow> string \<Rightarrow> string \<Rightarrow> (string, string) dict
     \<Rightarrow> (sched_error + string) \<times> (string, string) dict \<times> worker_call list" where
  "fetch_generation_result D opt A path task_id files =
     (case stream_generation_result D opt (ans_result A task_id) of (err, got) \<Rightarrow>
       (let files1 = dict_set path got files in
        case err of
          Some e \<Rightarrow> (Inl e, dict_del path files1, [Call_Result task_id])
        | None \<Rightarrow>
            (case release_generation_result (ans_delete A task_id) of
               Some e \<Rightarrow> (Inl e, dict_del path files1, [Call_Result task_id, Call_Delete task_id])
             | None \<Rightarrow> (Inr path, files1, [Call_Result task_id, Call_Delete task_id]))))"

record dispatch_outcome =
  do_result :: "sched_error + generation_result \<times> string"
  do_worker :: picked_worker
  do_files :: "(string, string) dict"
  do_progress :: "progress_call list"
  do_calls :: "worker_call list"

definition consume_and_fetch ::
  "decoders \<Rightarrow> dispatch_options \<Rightarrow> worker_answers \<Rightarrow> (json \<Rightarrow> string + generation_result) \<Rightarrow> string
     \<Rightarrow> string \<Rightarrow> picked_worker \<Rightarrow> progress_call list \<Rightarrow> worker_call list \<Rightarrow> (string, string) dict
     \<Rightarrow> dispatch_outcome" where
  "consume_and_fetch D opt A validate path task_id wk progress calls files =
     (let streams = replicate (connections_opened D (generation_kind D validate) (ans_stream A task_id)
                                 0 (max_sse_reconnects opt)) (Call_Stream task_id)
      in case consume_task_stream D opt validate (ans_stream A task_id) of
        (Inl e, ps, beats) \<Rightarrow>
          \<lparr>do_result = Inl e, do_worker = wk, do_files = files, do_progress = progress @ ps,
           do_calls = calls @ streams\<rparr>
      | (Inr r, ps, beats) \<Rightarrow>
          (case fetch_generation_result D opt A path task_id files of (res, files', fetches) \<Rightarrow>
            \<lparr>do_result = (case res of Inl e \<Rightarrow> Inl e | Inr p \<Rightarrow> Inr (r, p)), do_worker = wk,
             do_files = files', do_progress = progress @ ps,
             do_calls = calls @ streams @ fetches\<rparr>))"

definition failed_dispatch ::
  "sched_error \<Rightarrow> picked_worker \<Rightarrow> (string, string) dict \<Rightarrow> progress_call list \<Rightarrow> worker_call list
     \<Rightarrow> dispatch_outcome" where
  "failed_dispatch e wk files progress calls =
     \<lparr>do_result = Inl e, do_worker = wk, do_files = files, do_progress = progress, do_calls = calls\<rparr>"

text \<open>
  \<open>dispatch_generation_on_worker\<close>: load if the job's view lacks the mode, submit, and after one
  \<open>not loaded\<close> answer load again and submit again.
\<close>

definition dispatch_generation_on_worker ::
  "decoders \<Rightarrow> dispatch_options \<Rightarrow> worker_answers \<Rightarrow> (json \<Rightarrow> string + generation_result) \<Rightarrow> string
     \<Rightarrow> string \<Rightarrow> picked_worker \<Rightarrow> (string, string) dict \<Rightarrow> dispatch_outcome" where
  "dispatch_generation_on_worker D opt A validate path target_mode wk files =
     (let present = target_mode \<in> set (pw_loaded_modes wk);
          n = (if present then 0 else 1);
          calls1 = (if present then [] else [Call_Load target_mode]);
          progress1 = (if present then [] else [Generation_Progress Loading_Model 0])
      in case (if present then Inr wk else load_on_worker D A 0 target_mode wk) of
           Inl e \<Rightarrow> failed_dispatch e wk files progress1 calls1
         | Inr wk1 \<Rightarrow>
             (let calls2 = calls1 @ [Call_Generate target_mode] in
              case submit_generation D A 0 target_mode of
                Inr task_id \<Rightarrow> consume_and_fetch D opt A validate path task_id wk1 progress1 calls2 files
              | Inl (WorkerModeNotLoaded m) \<Rightarrow>
                  (let calls3 = calls2 @ [Call_Load target_mode];
                       progress3 = progress1 @ [Generation_Progress Loading_Model 0]
                   in case load_on_worker D A n target_mode wk1 of
                        Inl e \<Rightarrow> failed_dispatch e wk1 files progress3 calls3
                      | Inr wk2 \<Rightarrow>
                          (let calls4 = calls3 @ [Call_Generate target_mode] in
                           case submit_generation D A 1 target_mode of
                             Inr task_id \<Rightarrow>
                               consume_and_fetch D opt A validate path task_id wk2 progress3 calls4 files
                           | Inl (WorkerModeNotLoaded m2) \<Rightarrow>
                               failed_dispatch (WorkerGenerationUnavailable m2) wk2 files progress3 calls4
                           | Inl e \<Rightarrow> failed_dispatch e wk2 files progress3 calls4))
              | Inl e \<Rightarrow> failed_dispatch e wk1 files progress1 calls2))"

subsection \<open>The wire format\<close>

lemma drain_buffer_append:
  "drain_buffer D (s @ t) =
     (case drain_buffer D s of (es, rest) \<Rightarrow>
       (case drain_buffer D (rest @ t) of (es', rest') \<Rightarrow> (es @ es', rest')))"
proof (induction D s rule: drain_buffer.induct)
  case (1 D s)
  show ?case
  proof (cases "split_once [LF, LF] s")
    case None
    then have "drain_buffer D s = ([], s)" by (subst drain_buffer.simps) simp
    then show ?thesis by (simp split: prod.split)
  next
    case (Some p)
    obtain raw rest where p: "p = (raw, rest)" by (cases p)
    note IH = 1 [OF Some p [symmetric]]
    show ?thesis
      by (subst (1 3) drain_buffer.simps)
        (simp add: Some [unfolded p] split_once_append [OF Some [unfolded p]] IH
          split: prod.split option.split)
  qed
qed

lemma stream_events_concat:
  "stream_events D buffer chunks = (case chunks of [] \<Rightarrow> []
     | _ \<Rightarrow> fst (drain_buffer D (buffer @ concat chunks)))"
proof (induction D buffer chunks rule: stream_events.induct)
  case (2 D buffer chunk chunks)
  obtain es rest where drained: "drain_buffer D (buffer @ chunk) = (es, rest)" by fastforce
  have "fst (drain_buffer D (buffer @ chunk @ concat chunks)) = es @ fst (drain_buffer D (rest @ concat chunks))"
    using drain_buffer_append [of D "buffer @ chunk" "concat chunks"] by (simp add: drained split: prod.split)
  moreover have "fst (drain_buffer D rest) = []"
    using drain_buffer_append [of D "buffer @ chunk" "[]"] by (auto simp: drained split: prod.splits)
  ultimately show ?case using 2 [OF drained [symmetric]] by (simp add: drained split: list.split)
qed simp

lemma split_after_line:
  assumes "line_free s" and "c \<noteq> LF"
  shows "split_once [LF, LF] (s @ LF # c # t) =
    map_option (\<lambda>p. (s @ LF # fst p, snd p)) (split_once [LF, LF] (c # t))"
  using assms(1)
proof (induction s)
  case Nil
  have "\<not> startswith [LF, LF] (LF # c # t)" using assms(2) by (simp add: startswith_def)
  then show ?case by (simp add: split_def del: split_once.simps(2)) (simp add: split_def)
next
  case (Cons x s)
  have "x \<noteq> LF" using Cons.prems by (auto simp: line_free_def dest: printable_LF)
  then have "\<not> startswith [LF, LF] (x # s @ LF # c # t)" by (simp add: startswith_def)
  then have "split_once [LF, LF] (x # s @ LF # c # t)
      = map_option (\<lambda>p. (x # fst p, snd p)) (split_once [LF, LF] (s @ LF # c # t))"
    by (simp add: split_def)
  also have "split_once [LF, LF] (s @ LF # c # t)
      = map_option (\<lambda>p. (s @ LF # fst p, snd p)) (split_once [LF, LF] (c # t))"
    using Cons by (simp add: line_free_def)
  finally show ?case by (simp add: option.map_comp o_def)
qed

lemma split_at_blank_line:
  assumes "line_free s"
  shows "split_once [LF, LF] (s @ LF # LF # t) = Some (s, t)"
  using assms
proof (induction s)
  case Nil
  then show ?case by (simp add: startswith_def)
next
  case (Cons x s)
  have "x \<noteq> LF" using Cons.prems by (auto simp: line_free_def dest: printable_LF)
  then have "\<not> startswith [LF, LF] (x # s @ LF # LF # t)" by (simp add: startswith_def)
  then show ?case using Cons by (simp add: line_free_def)
qed

lemma split_two_lines:
  assumes "line_free a" and "line_free b" and "b \<noteq> []"
  shows "split_once [LF, LF] (a @ LF # b @ LF # LF # t) = Some (a @ LF # b, t)"
proof -
  obtain c b' where b: "b = c # b'" using assms(3) by (cases b) auto
  then have "c \<noteq> LF" using assms(2) by (auto simp: line_free_def dest: printable_LF)
  from split_after_line [OF assms(1) this, of "b' @ LF # LF # t"]
  show ?thesis using split_at_blank_line [OF assms(2), of t] by (simp add: b)
qed

lemma splitlines_two_lines:
  "line_free a \<Longrightarrow> line_free b \<Longrightarrow> b \<noteq> [] \<Longrightarrow> splitlines (a @ LF # b) = [a, b]"
  by (simp add: splitlines_def splitlines_line splitlines_end)

lemma line_free_append: "line_free (a @ b) \<longleftrightarrow> line_free a \<and> line_free b"
  by (auto simp: line_free_def)

lemma line_free_prefixes: "line_free ''event: ''" "line_free ''data: ''"
  by (simp_all add: line_free_def printable_def code_def)

lemma parse_formatted:
  assumes "line_free ev" and "trimmed ev" and "line_free payload" and "trimmed payload"
    and "loads D payload = Some (JObj obj)"
  shows "parse_sse_event D ((''event: '' @ ev) @ LF # (''data: '' @ payload)) = Some (ev, obj)"
proof -
  have "splitlines ((''event: '' @ ev) @ LF # (''data: '' @ payload))
      = [''event: '' @ ev, ''data: '' @ payload]"
    using assms line_free_prefixes by (intro splitlines_two_lines) (simp_all only: line_free_append, simp)
  then show ?thesis
    unfolding parse_sse_event_def using assms by (simp add: startswith_def strip_trimmed)
qed

lemma drain_formatted:
  assumes "line_free ev" and "trimmed ev" and "line_free payload" and "trimmed payload"
    and "loads D payload = Some (JObj obj)"
  shows "drain_buffer D (format_sse ev payload @ rest)
    = (case drain_buffer D rest of (es, left) \<Rightarrow> ((ev, obj) # es, left))"
proof -
  have "split_once [LF, LF] ((''event: '' @ ev) @ LF # (''data: '' @ payload) @ LF # LF # rest)
      = Some ((''event: '' @ ev) @ LF # (''data: '' @ payload), rest)"
    using assms line_free_prefixes by (intro split_two_lines) (simp_all only: line_free_append, simp)
  moreover have "format_sse ev payload @ rest
      = (''event: '' @ ev) @ LF # (''data: '' @ payload) @ LF # LF # rest"
    by (simp add: format_sse_def)
  ultimately have split: "split_once [LF, LF] (format_sse ev payload @ rest)
      = Some ((''event: '' @ ev) @ LF # (''data: '' @ payload), rest)"
    by (simp only:)
  show ?thesis
    by (subst drain_buffer.simps) (simp only: split option.case prod.case parse_formatted [OF assms])
qed

text \<open>C25: What the worker sends is what the scheduler receives: however the transport cuts the
  bytes into chunks, the events that the worker formats, each with a JSON payload on one line, are
  parsed back in order, none lost, split or duplicated.\<close>

theorem sse_stream_roundtrip:
  assumes "\<forall>(ev, payload, obj) \<in> set sent. line_free ev \<and> trimmed ev \<and> line_free payload
      \<and> trimmed payload \<and> loads D payload = Some (JObj obj)"
    and "concat chunks = concat (map (\<lambda>(ev, payload, obj). format_sse ev payload) sent)"
  shows "stream_events D [] chunks = map (\<lambda>(ev, payload, obj). (ev, obj)) sent"
proof -
  have "drain_buffer D (concat (map (\<lambda>(ev, payload, obj). format_sse ev payload) sent))
      = (map (\<lambda>(ev, payload, obj). (ev, obj)) sent, [])"
    using assms(1)
  proof (induction sent)
    case Nil
    then show ?case by (simp add: drain_buffer.simps)
  next
    case (Cons e sent)
    then show ?case by (cases e) (simp add: drain_formatted split: prod.split)
  qed
  moreover have "stream_events D [] chunks = fst (drain_buffer D (concat chunks))"
    by (simp add: stream_events_concat drain_buffer.simps [of D "[]"] split: list.split)
  ultimately show ?thesis using assms(2) by simp
qed

subsection \<open>Picking and admitting\<close>

lemma first_min_in: "first_min key x xs \<in> insert x (set xs)"
  by (induction key x xs rule: first_min.induct) auto

lemma first_min_le: "y \<in> insert x (set xs) \<Longrightarrow> key (first_min key x xs) \<le> key y"
proof (induction key x xs arbitrary: y rule: first_min.induct)
  case (2 key best x xs)
  let ?b = "if key x < key best then x else best"
  have "key (first_min key ?b xs) \<le> key ?b" by (rule "2.IH") simp
  moreover have "key ?b \<le> key best" "key ?b \<le> key x" by auto
  ultimately show ?case using "2.IH" [of y] "2.prems" by auto
qed simp

lemma pick_from_spec:
  assumes "pick_from workers mode = Inr wk"
  shows "wk \<in> set workers"
    and "\<forall>k \<in> set workers. mode \<in> set (pw_loaded_modes k) \<longrightarrow>
      mode \<in> set (pw_loaded_modes wk) \<and> pw_queue_depth wk \<le> pw_queue_depth k"
    and "mode \<notin> set (pw_loaded_modes wk) \<Longrightarrow> \<forall>k \<in> set workers. pw_queue_depth wk \<le> pw_queue_depth k"
proof -
  let ?ready = "filter (\<lambda>k. mode \<in> set (pw_loaded_modes k)) workers"
  let ?pool = "if ?ready \<noteq> [] then ?ready else workers"
  have nonempty: "?pool \<noteq> []" using assms by (auto simp: pick_from_def split: if_splits)
  then obtain p ps where pool: "?pool = p # ps" by (cases ?pool) auto
  have wk: "wk = first_min pw_queue_depth p ps"
    using assms pool by (cases workers) (auto simp: pick_from_def Let_def)
  have mem: "wk \<in> set ?pool" using first_min_in [of pw_queue_depth p ps] by (simp add: pool wk)
  have le: "pw_queue_depth wk \<le> pw_queue_depth k" if "k \<in> set ?pool" for k
    using first_min_le [of k p ps pw_queue_depth] that by (simp add: pool wk)
  show "wk \<in> set workers" using mem by (auto split: if_splits)
  show "\<forall>k \<in> set workers. mode \<in> set (pw_loaded_modes k) \<longrightarrow>
      mode \<in> set (pw_loaded_modes wk) \<and> pw_queue_depth wk \<le> pw_queue_depth k"
    using mem le by (auto simp: filter_empty_conv split: if_splits)
  show "\<forall>k \<in> set workers. pw_queue_depth wk \<le> pw_queue_depth k"
    if "mode \<notin> set (pw_loaded_modes wk)"
    using mem le that by (auto split: if_splits)
qed

lemma map_sum_Inr: "map_sum id f x = Inr y \<longleftrightarrow> (\<exists>z. x = Inr z \<and> y = f z)"
  by (cases x) auto

lemma online_worker_facts:
  "list_online_workers R D idents w = Inr workers \<Longrightarrow> wk \<in> set workers \<Longrightarrow>
     (\<exists>text state. cmd_get R (worker_state_key (pw_id wk)) w = Some text
        \<and> loads D text = Some (JObj state) \<and> worker_is_online (Some state))
     \<and> pw_queue_depth wk = read_queue_depth R (pw_id wk) w"
  by (induction R D idents w arbitrary: workers rule: list_online_workers.induct)
    (auto simp: Let_def map_sum_Inr split: option.splits json.splits if_splits)

text \<open>The admitted worker is one that can serve the job: it is online, it was free of a training
  hold at the pick and still is when the admission script runs (whatever happened in between), no
  free online worker that has the model loaded had a shorter queue, a worker without the model is
  taken only if no free one has it, and exactly its queue depth is raised by one.\<close>

theorem admitted_worker_is_best_and_free:
  assumes "redis_laws R"
    and "admit_generation_worker R D idents mode env w = (Inr wk, w')"
    and "list_online_workers R D idents w = Inr workers"
  shows "wk \<in> set workers
    \<and> (\<exists>text state. cmd_get R (worker_state_key (pw_id wk)) w = Some text
         \<and> loads D text = Some (JObj state) \<and> worker_is_online (Some state))
    \<and> \<not> cmd_exists R (gpu_hold_key (pw_id wk)) w \<and> \<not> cmd_exists R (gpu_hold_key (pw_id wk)) (env w)
    \<and> (\<forall>k \<in> set workers. \<not> cmd_exists R (gpu_hold_key (pw_id k)) w \<longrightarrow>
         (mode \<in> set (pw_loaded_modes k) \<or> mode \<notin> set (pw_loaded_modes wk)) \<longrightarrow>
         pw_queue_depth wk \<le> pw_queue_depth k
         \<and> (mode \<in> set (pw_loaded_modes k) \<longrightarrow> mode \<in> set (pw_loaded_modes wk)))
    \<and> (\<forall>i. read_queue_depth R i w' = read_queue_depth R i (env w) + (if i = pw_id wk then 1 else 0))"
proof -
  let ?free = "filter (\<lambda>k. \<not> cmd_exists R (gpu_hold_key (pw_id k)) w) workers"
  have pick: "pick_worker R D idents mode w = Inr wk"
    and adm: "admit_generation R (pw_id wk) (env w) = (True, w')"
    using assms(2) by (auto simp: admit_generation_worker_def split: sum.splits prod.splits bool.splits)
  have from_free: "pick_from ?free mode = Inr wk"
    using pick assms(3) by (auto simp: pick_worker_def Let_def split: list.splits if_splits)
  note spec = pick_from_spec [OF from_free]
  have wk: "wk \<in> set workers" "\<not> cmd_exists R (gpu_hold_key (pw_id wk)) w" using spec(1) by auto
  have env: "\<not> cmd_exists R (gpu_hold_key (pw_id wk)) (env w)"
    and w': "w' = cmd_incrby R (queue_depth_key (pw_id wk)) 1 (env w)"
    using adm by (auto simp: admit_generation_def split: if_splits)
  have "queue_depth_key i = queue_depth_key j \<longleftrightarrow> i = j" for i j by (simp add: queue_depth_key_def)
  then have "read_queue_depth R i w' = read_queue_depth R i (env w) + (if i = pw_id wk then 1 else 0)" for i
    by (simp add: w' read_queue_depth_def redis_number_incrby [OF assms(1)])
  moreover have "\<forall>k \<in> set workers. \<not> cmd_exists R (gpu_hold_key (pw_id k)) w \<longrightarrow>
         (mode \<in> set (pw_loaded_modes k) \<or> mode \<notin> set (pw_loaded_modes wk)) \<longrightarrow>
         pw_queue_depth wk \<le> pw_queue_depth k
         \<and> (mode \<in> set (pw_loaded_modes k) \<longrightarrow> mode \<in> set (pw_loaded_modes wk))"
    using spec(2,3) by auto
  ultimately show ?thesis using wk env online_worker_facts [OF assms(3) wk(1)] by blast
qed

subsection \<open>Reconnects\<close>

text \<open>A connection that breaks off with a transport error before the task ended.\<close>

definition dropped :: "decoders \<Rightarrow> stream_connection \<Rightarrow> sse_event list option" where
  "dropped D c =
     (case c of
        Refused (TransportError m) \<Rightarrow> Some []
      | Connected chunks (Some (TransportError m)) \<Rightarrow>
          (case upto_task_end (stream_events D [] chunks) of (es, ended) \<Rightarrow> if ended then None else Some es)
      | _ \<Rightarrow> None)"

lemma iterate_dropped:
  assumes "dropped D (conn attempt) = Some es"
  shows "iterate_from D opt conn attempt (Suc left) =
    (case iterate_from D opt conn (attempt + 1) left of
       (es', err, pauses) \<Rightarrow> (es @ es', err, sse_reconnect_delay opt (attempt + 1) # pauses))"
  using assms
  by (subst iterate_from.simps)
    (auto simp: dropped_def Let_def split: stream_connection.splits httpx_error.splits option.splits
      prod.splits if_splits)

lemma iterate_ended:
  assumes "conn attempt = Connected chunks e" and "upto_task_end (stream_events D [] chunks) = (es, True)"
  shows "iterate_from D opt conn attempt left = (es, None, [])"
  using assms by (subst iterate_from.simps) simp

lemma iterate_resumed:
  assumes "\<forall>i < k. dropped D (conn (attempt + i)) = Some (parts i)" and "k \<le> left"
    and "conn (attempt + k) = Connected chunks e"
    and "upto_task_end (stream_events D [] chunks) = (es, True)"
  shows "iterate_from D opt conn attempt left =
    (concat (map parts [0..<k]) @ es, None, map (\<lambda>i. sse_reconnect_delay opt (attempt + i + 1)) [0..<k])"
  using assms
proof (induction k arbitrary: attempt left parts)
  case 0
  then show ?case using iterate_ended [of conn attempt] by simp
next
  case (Suc k)
  then obtain left' where left: "left = Suc left'" "k \<le> left'" by (cases left) auto
  have first: "dropped D (conn attempt) = Some (parts 0)" using Suc.prems(1) by force
  have "\<forall>i < k. dropped D (conn (attempt + 1 + i)) = Some (parts (Suc i))"
    using Suc.prems(1) by (metis Suc_eq_plus1 add.assoc add.commute not_less_eq)
  from Suc.IH [OF this left(2)] Suc.prems(3,4)
  have "iterate_from D opt conn (attempt + 1) left' =
      (concat (map (\<lambda>i. parts (Suc i)) [0..<k]) @ es, None,
       map (\<lambda>i. sse_reconnect_delay opt (attempt + 1 + i + 1)) [0..<k])" by simp
  then show ?case
    unfolding left(1) iterate_dropped [where conn = conn and attempt = attempt, OF first]
    by (simp add: upt_conv_Cons map_Suc_upt [symmetric] o_def del: upt_Suc map_Suc_upt)
qed

text \<open>C27: A dropped stream is resumed, within a budget and with bounded pauses: if the first \<open>k\<close>
  connections break off with a transport error, \<open>k\<close> not above the reconnect budget, and the next
  one delivers the end of the task, the consumer sees the events of all connections in order and
  the stream ends without an error, after exactly \<open>k\<close> pauses, each within the maximum.\<close>

theorem dropped_stream_is_resumed:
  assumes "\<forall>i < k. dropped D (conn i) = Some (parts i)" and "k \<le> max_sse_reconnects opt"
    and "conn k = Connected chunks e"
    and "upto_task_end (stream_events D [] chunks) = (es, True)"
  shows "\<exists>pauses. iterate_task_events D opt conn = (concat (map parts [0..<k]) @ es, None, pauses)
    \<and> length pauses = k \<and> (\<forall>p \<in> set pauses. p \<le> max_reconnect_backoff_seconds opt)"
proof -
  have "iterate_from D opt conn 0 (max_sse_reconnects opt) =
      (concat (map parts [0..<k]) @ es, None, map (\<lambda>i. sse_reconnect_delay opt (i + 1)) [0..<k])"
    using iterate_resumed [of k D conn 0 parts "max_sse_reconnects opt" chunks e es opt] assms by simp
  then show ?thesis by (auto simp: iterate_task_events_def sse_reconnect_delay_def)
qed

subsection \<open>One dispatch\<close>

lemma write_chunks_ok:
  "write_chunks limit (length f) chunks f = (None, got) \<Longrightarrow> length f \<le> limit \<Longrightarrow>
     got = f @ concat chunks \<and> length got \<le> limit"
proof (induction chunks arbitrary: f)
  case (Cons c cs)
  then have "write_chunks limit (length (f @ c)) cs (f @ c) = (None, got)" and "length (f @ c) \<le> limit"
    by (auto split: if_splits)
  from Cons.IH [OF this] show ?case by auto
qed simp

lemma stream_result_ok:
  assumes "stream_generation_result D opt reply = (None, got)"
  shows "\<exists>enc len chunks. reply = Result_Body enc len chunks None \<and> got = concat chunks
    \<and> length got \<le> generation_result_max_bytes opt"
  using assms write_chunks_ok [of "generation_result_max_bytes opt" "[]"]
  by (fastforce simp: stream_generation_result_def split: result_reply.splits if_splits option.splits prod.splits)

lemma dict_set_fresh: "k \<notin> set (dict_keys d) \<Longrightarrow> dict_set k v d = d @ [(k, v)]"
  by (induction d) (auto simp: dict_keys_def)

lemma dict_del_fresh: "k \<notin> set (dict_keys d) \<Longrightarrow> dict_del k (dict_set k v d) = d"
  by (auto simp: dict_set_fresh) (auto simp: dict_del_def dict_keys_def filter_id_conv)

definition is_load :: "worker_call \<Rightarrow> bool" where
  "is_load c \<longleftrightarrow> (case c of Call_Load m \<Rightarrow> True | _ \<Rightarrow> False)"

definition is_submit :: "worker_call \<Rightarrow> bool" where
  "is_submit c \<longleftrightarrow> (case c of Call_Generate m \<Rightarrow> True | _ \<Rightarrow> False)"

definition is_stream :: "worker_call \<Rightarrow> bool" where
  "is_stream c \<longleftrightarrow> (case c of Call_Stream t \<Rightarrow> True | _ \<Rightarrow> False)"

definition count_calls :: "(worker_call \<Rightarrow> bool) \<Rightarrow> worker_call list \<Rightarrow> nat" where
  "count_calls P cs = length (filter P cs)"

lemma count_calls_simps [simp]:
  "count_calls P [] = 0" "count_calls P (c # cs) = (if P c then 1 else 0) + count_calls P cs"
  "count_calls P (cs @ cs') = count_calls P cs + count_calls P cs'"
  "is_load (Call_Load m)" "\<not> is_load (Call_Generate m)" "\<not> is_load (Call_Stream m)"
  "\<not> is_load (Call_Result m)" "\<not> is_load (Call_Delete m)"
  "\<not> is_submit (Call_Load m)" "is_submit (Call_Generate m)" "\<not> is_submit (Call_Stream m)"
  "\<not> is_submit (Call_Result m)" "\<not> is_submit (Call_Delete m)"
  "\<not> is_stream (Call_Load m)" "\<not> is_stream (Call_Generate m)" "is_stream (Call_Stream m)"
  "\<not> is_stream (Call_Result m)" "\<not> is_stream (Call_Delete m)"
  by (simp_all add: count_calls_def is_load_def is_submit_def is_stream_def)

lemma count_calls_replicate [simp]: "count_calls P (replicate n c) = (if P c then n else 0)"
  by (simp add: count_calls_def)

lemma connections_opened_bound: "connections_opened D K conn attempt left \<le> Suc left"
proof (induction left arbitrary: attempt)
  case 0
  then show ?case by (subst connections_opened.simps) (auto split: prod.split option.split httpx_error.split)
next
  case (Suc left)
  show ?case
    by (subst connections_opened.simps)
      (use Suc.IH [of "attempt + 1"] in \<open>auto split: prod.split option.split httpx_error.split\<close>)
qed

text \<open>One connection and one more for each pause of the generator, when the consumption does not end
  before the generator does.\<close>

lemma consume_append_none:
  "fst (consume_events D K (xs @ ys)) = None \<Longrightarrow>
     fst (consume_events D K xs) = None \<and> fst (consume_events D K ys) = None"
  by (induction xs) (auto split: event_outcome.splits prod.splits)

lemma connections_are_pauses:
  assumes "iterate_from D opt conn attempt left = (es, err, pauses)" and "fst (consume_events D K es) = None"
  shows "connections_opened D K conn attempt left = Suc (length pauses)"
  using assms
proof (induction left arbitrary: attempt es err pauses)
  case 0
  then show ?case
    by (subst connections_opened.simps, subst (asm) iterate_from.simps)
      (auto simp: connection_events_def Let_def split: stream_connection.splits option.splits
        httpx_error.splits prod.splits if_splits)
next
  case (Suc left)
  obtain es1 ended err1 where here: "connection_events D (conn attempt) = (es1, ended, err1)"
    by (metis prod_cases3)
  obtain es2 err2 pauses2 where rest: "iterate_from D opt conn (attempt + 1) left = (es2, err2, pauses2)"
    by (metis prod_cases3)
  have step: "(es, err, pauses) =
      (if ended then (es1, None, [])
       else case err1 of
         None \<Rightarrow> (es1, None, [])
       | Some (TransportError m) \<Rightarrow> (es1 @ es2, err2, sse_reconnect_delay opt (attempt + 1) # pauses2)
       | Some e \<Rightarrow> (es1, Some e, []))"
    using Suc.prems(1) here rest
    by (subst (asm) iterate_from.simps)
      (auto simp: connection_events_def Let_def split: stream_connection.splits option.splits
        httpx_error.splits prod.splits if_splits)
  show ?case
  proof (cases "\<not> ended \<and> (\<exists>m. err1 = Some (TransportError m))")
    case True
    with step have parts: "es = es1 @ es2" "pauses = sse_reconnect_delay opt (attempt + 1) # pauses2" by auto
    from consume_append_none [OF Suc.prems(2) [unfolded parts(1)]] Suc.IH [OF rest] parts(2) True
    show ?thesis by (subst connections_opened.simps) (auto simp: here)
  next
    case False
    with step have "pauses = []" by (auto split: if_splits option.splits httpx_error.splits)
    with False show ?thesis
      by (subst connections_opened.simps) (auto simp: here split: option.split httpx_error.split)
  qed
qed

text \<open>What a dispatch may leave behind, given the calls made so far.\<close>

definition clean_outcome ::
  "dispatch_options \<Rightarrow> worker_answers \<Rightarrow> string \<Rightarrow> (string, string) dict \<Rightarrow> nat \<Rightarrow> nat \<Rightarrow> dispatch_outcome \<Rightarrow> bool" where
  "clean_outcome opt A path files max_loads max_submits out \<longleftrightarrow>
     count_calls is_load (do_calls out) \<le> max_loads \<and> count_calls is_submit (do_calls out) \<le> max_submits
     \<and> count_calls is_stream (do_calls out) \<le> Suc (max_sse_reconnects opt)
     \<and> (case do_result out of
          Inl e \<Rightarrow> do_files out = files
            \<and> (\<forall>t. Call_Delete t \<in> set (do_calls out) \<longrightarrow> (\<exists>m. ans_delete A t = Delete_Raised m))
        | Inr (r, p) \<Rightarrow> p = path \<and> (\<exists>t enc len chunks. ans_result A t = Result_Body enc len chunks None
            \<and> do_files out = files @ [(path, concat chunks)]
            \<and> length (concat chunks) \<le> generation_result_max_bytes opt
            \<and> Call_Delete t \<in> set (do_calls out) \<and> (\<forall>m. ans_delete A t \<noteq> Delete_Raised m)))"

lemma clean_failed:
  "count_calls is_load calls \<le> l \<Longrightarrow> count_calls is_submit calls \<le> n \<Longrightarrow> count_calls is_stream calls = 0 \<Longrightarrow>
     \<forall>t. Call_Delete t \<notin> set calls \<Longrightarrow>
     clean_outcome opt A path files l n (failed_dispatch e wk files progress calls)"
  by (simp add: clean_outcome_def failed_dispatch_def)

lemma clean_fetch:
  assumes "path \<notin> set (dict_keys files)"
    and "count_calls is_load calls \<le> l" "count_calls is_submit calls \<le> n" "count_calls is_stream calls = 0"
    and "\<forall>t. Call_Delete t \<notin> set calls"
  shows "clean_outcome opt A path files l n
    (consume_and_fetch D opt A validate path task_id wk progress calls files)"
proof -
  note bound = connections_opened_bound [of D "generation_kind D validate" "ans_stream A task_id" 0
      "max_sse_reconnects opt"]
  obtain r ps beats where res: "consume_task_stream D opt validate (ans_stream A task_id) = (r, ps, beats)"
    by (metis prod_cases3)
  show ?thesis
  proof (cases r)
    case (Inl e)
    then show ?thesis
      using assms bound by (auto simp: consume_and_fetch_def res clean_outcome_def Let_def)
  next
    case (Inr gr)
    obtain err got where got: "stream_generation_result D opt (ans_result A task_id) = (err, got)" by fastforce
    show ?thesis
    proof (cases err)
      case None
      note simps = consume_and_fetch_def res Inr fetch_generation_result_def got None
        clean_outcome_def release_generation_result_def Let_def
      show ?thesis
      proof (cases "\<exists>m. ans_delete A task_id = Delete_Raised m")
        case True
        then show ?thesis using assms bound by (auto simp: simps dict_del_fresh)
      next
        case False
        with stream_result_ok [OF got [unfolded None]] show ?thesis
          using assms bound
          by (cases "ans_delete A task_id") (auto simp: simps dict_set_fresh intro!: exI [of _ task_id])
      qed
    next
      case (Some e)
      then show ?thesis
        using assms bound by (auto simp: consume_and_fetch_def res Inr fetch_generation_result_def got
            clean_outcome_def dict_del_fresh Let_def)
    qed
  qed
qed

lemma failed_calls: "do_calls (failed_dispatch e wk files progress calls) = calls"
  by (simp add: failed_dispatch_def)

lemma submit_error:
  "submit_generation D A n mode = Inl (WorkerModeNotLoaded m) \<Longrightarrow>
     \<exists>status text. ans_generate A n = Reply status text \<and> answers_mode_not_loaded D status text mode"
  by (auto simp: submit_generation_def split: http_reply.splits if_splits option.splits json.splits)

text \<open>C26: A dispatch is bounded and leaves nothing behind.  Bounded: at most two loads, two submissions
  (the second pair only after a \<open>mode not loaded\<close> answer) and, reconnects counted, one stream
  connection more than the reconnect budget.  Clean: a dispatch that fails, in the transfer or in
  the release of the worker's copy too, leaves music's files as they were (the temporary name being
  fresh); the worker's copy was then not asked to be deleted, unless that very call raised something
  else than an HTTP error.  A successful one adds exactly one file that holds the complete result
  within the size limit, and only then is the worker's copy deleted.\<close>

theorem dispatch_is_bounded_and_clean:
  assumes "path \<notin> set (dict_keys files)"
    and "out = dispatch_generation_on_worker D opt A validate path mode wk files"
  shows "clean_outcome opt A path files 2 2 out
    \<and> (count_calls is_submit (do_calls out) = 2 \<longrightarrow>
        (\<exists>status text. ans_generate A 0 = Reply status text \<and> answers_mode_not_loaded D status text mode))"
proof -
  have one_submit: "count_calls is_submit (do_calls (consume_and_fetch D opt A validate path t w ps calls files))
      = count_calls is_submit calls" for t w ps calls
    by (auto simp: consume_and_fetch_def fetch_generation_result_def Let_def
        split: prod.split sum.split option.split)
  show ?thesis
    unfolding assms(2) dispatch_generation_on_worker_def Let_def
    using submit_error [of D A 0 mode]
    by (auto simp: clean_failed clean_fetch [OF assms(1)] one_submit failed_calls
        split: sum.split sched_error.split)
qed

subsection \<open>Examples\<close>

definition demo_decoders :: decoders where
  "demo_decoders = \<lparr>loads = (\<lambda>s. if s = ''{}'' then Some (JObj [(''gpu_healthy'', JBool True)]) else None),
     float_of = (\<lambda>_. None), int_of = (\<lambda>_. None), text_of_json = (\<lambda>_. []),
     heartbeat_modes = (\<lambda>_. Some [''a''])\<rparr>"

definition demo_options :: dispatch_options where
  "demo_options = \<lparr>max_sse_reconnects = 5, initial_reconnect_backoff_seconds = 1,
     max_reconnect_backoff_seconds = 30, generation_result_max_bytes = 100\<rparr>"

lemma demo_text: "line_free ''done''" "trimmed ''done''" "line_free ''{}''" "trimmed ''{}''"
  by (simp_all add: line_free_def trimmed_def printable_def visible_def code_def)

lemma demo_loads: "loads demo_decoders ''{}'' = Some (JObj [(''gpu_healthy'', JBool True)])"
  by (simp add: demo_decoders_def)

lemma demo_stream:
  "stream_events demo_decoders [] [format_sse ''done'' ''{}''] = [(''done'', [(''gpu_healthy'', JBool True)])]"
  using drain_formatted [OF demo_text demo_loads, of "[]"]
  by (simp add: drain_buffer.simps [of _ "[]"])

theorem sse_stream_roundtrip_witness:
  "stream_events demo_decoders [] [''event: do'', ''ne'' @ [LF] @ ''data: {}'' @ [LF], [LF]]
     = [(''done'', [(''gpu_healthy'', JBool True)])]"
  using sse_stream_roundtrip [of "[(''done'', ''{}'', [(''gpu_healthy'', JBool True)])]" demo_decoders
      "[''event: do'', ''ne'' @ [LF] @ ''data: {}'' @ [LF], [LF]]"] demo_text demo_loads
  by (simp add: format_sse_def)

theorem dropped_stream_is_resumed_witness:
  "\<exists>pauses. iterate_task_events demo_decoders demo_options
      (\<lambda>n. if n = 0 then Refused (TransportError ''reset'') else Connected [format_sse ''done'' ''{}''] None)
    = ([(''done'', [(''gpu_healthy'', JBool True)])], None, pauses) \<and> length pauses = 1"
proof -
  let ?conn = "\<lambda>n :: nat. if n = 0 then Refused (TransportError ''reset'')
      else Connected [format_sse ''done'' ''{}''] None"
  have "upto_task_end (stream_events demo_decoders [] [format_sse ''done'' ''{}''])
      = ([(''done'', [(''gpu_healthy'', JBool True)])], True)"
    by (simp add: demo_stream ends_task_def del: stream_events.simps)
  from dropped_stream_is_resumed [of 1 demo_decoders ?conn "\<lambda>_. []" demo_options, OF _ _ _ this, of None]
  show ?thesis by (auto simp: dropped_def demo_options_def)
qed

theorem admitted_worker_is_best_and_free_witness:
  "\<not> cmd_exists demo_ops (gpu_hold_key ''w'')
     ((\<lambda>k. if k = worker_state_key ''w'' then Some ''{}'' else None), \<lambda>_. 0)"
proof -
  let ?w = "((\<lambda>k. if k = worker_state_key ''w'' then Some ''{}'' else None), \<lambda>_. 0) :: demo_redis"
  let ?wk = "\<lparr>pw_id = ''w'', pw_host = ''h'', pw_port = 1, pw_loaded_modes = [''a''], pw_queue_depth = 0\<rparr>"
  have keys: "gpu_hold_key ''w'' \<noteq> worker_state_key ''w''" by (simp add: gpu_hold_key_def worker_state_key_def)
  have online: "list_online_workers demo_ops demo_decoders [(''w'', ''h'', 1)] ?w = Inr [?wk]"
    by (simp add: demo_ops_def demo_decoders_def worker_is_online_def read_queue_depth_def)
  moreover have "\<exists>w'. admit_generation_worker demo_ops demo_decoders [(''w'', ''h'', 1)] ''a'' id ?w = (Inr ?wk, w')"
    using keys by (simp add: admit_generation_worker_def pick_worker_def online pick_from_def
        admit_generation_def cmd_exists_def demo_ops_def [THEN arg_cong [of _ _ cmd_get]]
        del: list_online_workers.simps)
  ultimately show ?thesis
    using admitted_worker_is_best_and_free [OF demo_ops_laws, of demo_decoders "[(''w'', ''h'', 1)]" "''a''" id ?w ?wk]
    by auto
qed

text \<open>A dispatch that loads the mode first, loses its stream twice, gets the whole take and then
  fails with a cancellation while it releases the worker's copy.\<close>

definition take_decoders :: decoders where
  "take_decoders = demo_decoders\<lparr>loads := (\<lambda>s.
     if s = ''{}'' then Some (JObj [(''task_id'', JStr ''t''), (''result'', JNull)]) else None)\<rparr>"

definition take_result :: generation_result where
  "take_result = \<lparr>gr_mode = ''a'', gr_seed = 1, gr_cot_caption = [], gr_cot_lyrics = [], gr_delivered_batch_size = None\<rparr>"

definition take_answers :: "delete_reply \<Rightarrow> worker_answers" where
  "take_answers deleted =
     \<lparr>ans_load = (\<lambda>_. Reply 200 []), ans_generate = (\<lambda>_. Reply 200 ''{}''),
      ans_stream = (\<lambda>_ n. if n < 2 then Refused (TransportError ''reset'')
        else Connected [format_sse ''done'' ''{}''] None),
      ans_result = (\<lambda>_. Result_Body None None [''RIFF'', ''data''] None), ans_delete = (\<lambda>_. deleted)\<rparr>"

definition take_dispatch :: "delete_reply \<Rightarrow> dispatch_outcome" where
  "take_dispatch deleted =
     dispatch_generation_on_worker take_decoders demo_options (take_answers deleted) (\<lambda>_. Inr take_result)
       ''/tmp/take'' ''a''
       \<lparr>pw_id = ''w'', pw_host = ''h'', pw_port = 1, pw_loaded_modes = [], pw_queue_depth = 0\<rparr>
       [(''/tmp/other'', ''x'')]"

lemma take_dispatch_cancelled:
  "do_files (take_dispatch (Delete_Raised ''cancelled'')) = [(''/tmp/other'', ''x'')]
   \<and> do_result (take_dispatch (Delete_Raised ''cancelled'')) = Inl (UnexpectedError ''cancelled'')
   \<and> count_calls is_stream (do_calls (take_dispatch (Delete_Raised ''cancelled''))) = 3"
  by code_simp

lemma take_dispatch_delivered:
  "do_files (take_dispatch (Delete_Failed (ReadTimeout []))) = [(''/tmp/other'', ''x''), (''/tmp/take'', ''RIFFdata'')]
   \<and> do_result (take_dispatch (Delete_Failed (ReadTimeout []))) = Inr (take_result, ''/tmp/take'')"
  by code_simp

theorem dispatch_is_bounded_and_clean_witness:
  "clean_outcome demo_options (take_answers (Delete_Raised ''cancelled'')) ''/tmp/take'' [(''/tmp/other'', ''x'')] 2 2
     (take_dispatch (Delete_Raised ''cancelled''))
   \<and> clean_outcome demo_options (take_answers (Delete_Failed (ReadTimeout []))) ''/tmp/take'' [(''/tmp/other'', ''x'')] 2 2
     (take_dispatch (Delete_Failed (ReadTimeout [])))
   \<and> do_files (take_dispatch (Delete_Raised ''cancelled'')) = [(''/tmp/other'', ''x'')]
   \<and> do_files (take_dispatch (Delete_Failed (ReadTimeout []))) = [(''/tmp/other'', ''x''), (''/tmp/take'', ''RIFFdata'')]"
proof -
  have fresh: "''/tmp/take'' \<notin> set (dict_keys [(''/tmp/other'', ''x'')])" by (simp add: dict_keys_def)
  show ?thesis
    using dispatch_is_bounded_and_clean [OF fresh take_dispatch_def [of "Delete_Raised ''cancelled''"]]
      dispatch_is_bounded_and_clean [OF fresh take_dispatch_def [of "Delete_Failed (ReadTimeout [])"]]
      take_dispatch_cancelled take_dispatch_delivered by blast
qed

end
