(* ===== verification/Queue_Cache.thy ===== *)
theory Queue_Cache
  imports Py_Strings "HOL-Library.Product_Lexorder" "HOL-Library.Multiset"
begin

text \<open>
  The on-disk cache of queue streams (\<open>queue_streams.py\<close>): the manifest record, snapshot ids and
  file names, deletion, expiry, the clean-up of expired snapshots and orphaned files, the cache
  quota, and the two look-ups.  The directory is an ordered dictionary from file names to files;
  a directory that does not exist yet is the empty one.  It holds regular files only (nothing
  else is ever created there), so \<open>is_file\<close> holds of every entry and no path resolves elsewhere.
  A file's content is the manifest pydantic reads from it, or anything else.
\<close>

datatype snapshot_scope = Scope_Auth | Scope_Shared_Playlist | Scope_Shared_Album

record queue_track =
  q_key :: string
  q_index :: nat
  q_entry_id :: "string option"
  q_generation_id :: string
  q_song_id :: string
  q_song_title :: string
  q_artist :: string
  q_album_title :: string
  q_lyrics :: "string option"
  q_generation_number :: int
  q_mp3_path :: string
  q_audio_url :: string
  q_seed :: "int option"
  q_model_mode :: string
  q_duration :: rat
  q_start_offset :: rat
  q_end_offset :: rat

record queue_manifest =
  m_snapshot_id :: string
  m_scope :: snapshot_scope
  m_scope_id :: string
  m_content_hash :: string
  m_expires_at :: timestamp
  m_total_duration :: rat
  m_tracks :: "queue_track list"
  m_windowed :: bool

record manifest_response =
  r_snapshot_id :: string
  r_stream_url :: string
  r_expires_at :: timestamp
  r_total_duration :: rat
  r_tracks :: "queue_track list"
  r_windowed :: bool

datatype file_content = Manifest_Text queue_manifest | Other_Bytes

record cache_file =
  f_mtime :: timestamp
  f_size :: nat
  f_content :: file_content

type_synonym stream_files = "(string, cache_file) dict"

definition QUEUE_STREAM_TTL :: int where
  "QUEUE_STREAM_TTL = seconds (8 * 3600)"

definition QUEUE_STREAM_ORPHAN_MAX_AGE :: int where
  "QUEUE_STREAM_ORPHAN_MAX_AGE = seconds (24 * 3600)"

definition QUEUE_STREAM_MAX_CACHE_BYTES :: int where
  "QUEUE_STREAM_MAX_CACHE_BYTES = 1024 * 1024 * 1024"

definition SNAPSHOT_FILE_SUFFIXES :: "string list" where
  "SNAPSHOT_FILE_SUFFIXES = [''.tmp.mp3'', ''.concat.txt'', ''.json'', ''.mp3'']"

definition valid_snapshot_id :: "string \<Rightarrow> bool" where
  "valid_snapshot_id s \<longleftrightarrow> length s = 32 \<and> list_all (\<lambda>c. c \<in> set ''0123456789abcdef'') s"

fun id_from_suffixes :: "string list \<Rightarrow> string \<Rightarrow> string option" where
  "id_from_suffixes [] name = None"
| "id_from_suffixes (suffix # rest) name =
     (if \<not> endswith suffix name then id_from_suffixes rest name
      else let snapshot_id = take (length name - length suffix) name
           in if valid_snapshot_id snapshot_id then Some snapshot_id else None)"

definition snapshot_id_from_cache_file :: "string \<Rightarrow> string option" where
  "snapshot_id_from_cache_file name =
     id_from_suffixes (SNAPSHOT_FILE_SUFFIXES @ [''.json.tmp'']) name"

definition delete_snapshot_files :: "string \<Rightarrow> stream_files \<Rightarrow> stream_files" where
  "delete_snapshot_files snapshot_id d =
     (if \<not> valid_snapshot_id snapshot_id then d
      else fold (\<lambda>suffix. dict_del (snapshot_id @ suffix)) SNAPSHOT_FILE_SUFFIXES d)"

text \<open>\<open>QueueStreamManifest.load\<close>: a missing, unreadable or invalid file is \<open>None\<close>.\<close>

definition load_manifest :: "string \<Rightarrow> stream_files \<Rightarrow> queue_manifest option" where
  "load_manifest name d =
     (case map_of d name of
        None \<Rightarrow> None
      | Some f \<Rightarrow> (case f_content f of Manifest_Text m \<Rightarrow> Some m | Other_Bytes \<Rightarrow> None))"

text \<open>\<open>QueueStreamManifest.save\<close>: a temporary file, renamed over the target, then unlinked if it
  is still there; \<open>mtime\<close> and \<open>bytes\<close> are what the file system records of the written text.\<close>

definition dict_rename :: "string \<Rightarrow> string \<Rightarrow> stream_files \<Rightarrow> stream_files" where
  "dict_rename src dst d =
     (case map_of d src of None \<Rightarrow> d | Some f \<Rightarrow> dict_set dst f (dict_del src d))"

definition save_manifest ::
    "queue_manifest \<Rightarrow> string \<Rightarrow> timestamp \<Rightarrow> nat \<Rightarrow> stream_files \<Rightarrow> stream_files" where
  "save_manifest m name mtime bytes d =
     (let tmp = name @ ''.tmp'';
          d1 = dict_set tmp \<lparr>f_mtime = mtime, f_size = bytes, f_content = Manifest_Text m\<rparr> d;
          d2 = dict_rename tmp name d1
      in dict_del tmp d2)"

subsection \<open>Clean-up\<close>

definition manifest_names :: "stream_files \<Rightarrow> string list" where
  "manifest_names d = filter (endswith ''.json'') (dict_keys d)"

definition manifest_stem :: "string \<Rightarrow> string" where
  "manifest_stem name = (if name = ''.json'' then name else take (length name - 5) name)"

fun remove_expired_snapshots ::
    "timestamp \<Rightarrow> string list \<Rightarrow> string list \<Rightarrow> stream_files \<Rightarrow> string list \<times> stream_files" where
  "remove_expired_snapshots now [] live d = (live, d)"
| "remove_expired_snapshots now (name # names) live d =
     (case load_manifest name d of
        None \<Rightarrow> remove_expired_snapshots now names live
                  (delete_snapshot_files (manifest_stem name) d)
      | Some m \<Rightarrow>
          if now \<le> m_expires_at m then
            remove_expired_snapshots now names (live @ [manifest_stem name]) d
          else remove_expired_snapshots now names live
                 (delete_snapshot_files (manifest_stem name) d))"

fun remove_orphans ::
    "timestamp \<Rightarrow> string list \<Rightarrow> string list \<Rightarrow> stream_files \<Rightarrow> stream_files" where
  "remove_orphans cutoff live [] d = d"
| "remove_orphans cutoff live (name # names) d =
     (case map_of d name of
        None \<Rightarrow> remove_orphans cutoff live names d
      | Some f \<Rightarrow>
          (case snapshot_id_from_cache_file name of
             None \<Rightarrow> remove_orphans cutoff live names d
           | Some snapshot_id \<Rightarrow>
               if snapshot_id \<in> set live then remove_orphans cutoff live names d
               else if f_mtime f < cutoff then remove_orphans cutoff live names (dict_del name d)
               else remove_orphans cutoff live names d))"

text \<open>\<open>sorted\<close> compares the tuples of modification time, size and path.\<close>

definition eviction_key :: "string \<times> cache_file \<Rightarrow> int \<times> nat \<times> string" where
  "eviction_key p = (f_mtime (snd p), f_size (snd p), fst p)"

definition mp3_files :: "stream_files \<Rightarrow> (string \<times> cache_file) list" where
  "mp3_files d = filter (\<lambda>p. endswith ''.mp3'' (fst p)) d"

definition total_bytes :: "(string \<times> cache_file) list \<Rightarrow> int" where
  "total_bytes ps = sum_list (map (\<lambda>p. int (f_size (snd p))) ps)"

fun evict_until_fits ::
    "string list \<Rightarrow> (string \<times> cache_file) list \<Rightarrow> int \<Rightarrow> stream_files \<Rightarrow> stream_files" where
  "evict_until_fits protected [] used d = d"
| "evict_until_fits protected ((name, f) # rest) used d =
     (if used \<le> QUEUE_STREAM_MAX_CACHE_BYTES then d
      else (case snapshot_id_from_cache_file name of
              Some snapshot_id \<Rightarrow>
                if snapshot_id \<in> set protected then evict_until_fits protected rest used d
                else evict_until_fits protected rest (used - int (f_size f))
                       (delete_snapshot_files snapshot_id d)
            | None \<Rightarrow> evict_until_fits protected rest (used - int (f_size f)) (dict_del name d)))"

definition enforce_cache_quota :: "string list \<Rightarrow> stream_files \<Rightarrow> stream_files" where
  "enforce_cache_quota protected d =
     (if total_bytes (mp3_files d) \<le> QUEUE_STREAM_MAX_CACHE_BYTES then d
      else evict_until_fits protected (sort_key eviction_key (mp3_files d))
             (total_bytes (mp3_files d)) d)"

definition cleanup_expired_queue_streams :: "timestamp \<Rightarrow> stream_files \<Rightarrow> stream_files" where
  "cleanup_expired_queue_streams now d =
     (let (live, d1) = remove_expired_snapshots now (manifest_names d) [] d;
          d2 = remove_orphans (now - QUEUE_STREAM_ORPHAN_MAX_AGE) live (dict_keys d1) d1
      in enforce_cache_quota [] d2)"

subsection \<open>Look-ups\<close>

definition queue_stream_audio_path :: "string \<Rightarrow> http_exception + string" where
  "queue_stream_audio_path snapshot_id =
     (if \<not> valid_snapshot_id snapshot_id then Inl (HTTPException 404 ''Queue stream not found'')
      else Inr (snapshot_id @ ''.mp3''))"

definition manifest_response_of :: "string \<Rightarrow> queue_manifest \<Rightarrow> manifest_response" where
  "manifest_response_of stream_url m =
     \<lparr>r_snapshot_id = m_snapshot_id m, r_stream_url = stream_url, r_expires_at = m_expires_at m,
      r_total_duration = m_total_duration m, r_tracks = m_tracks m, r_windowed = m_windowed m\<rparr>"

text \<open>\<open>sorted(..., reverse=True)\<close> keeps the order of equal elements.\<close>

definition newest_first :: "stream_files \<Rightarrow> string list" where
  "newest_first d =
     sort_key (\<lambda>name. case map_of d name of None \<Rightarrow> 0 | Some f \<Rightarrow> - f_mtime f) (manifest_names d)"

fun find_reusable_in ::
    "timestamp \<Rightarrow> string \<Rightarrow> string \<Rightarrow> string list \<Rightarrow> stream_files
     \<Rightarrow> http_exception + manifest_response option" where
  "find_reusable_in now content_hash stream_url [] d = Inr None"
| "find_reusable_in now content_hash stream_url (name # names) d =
     (case load_manifest name d of
        None \<Rightarrow> find_reusable_in now content_hash stream_url names d
      | Some m \<Rightarrow>
          if m_content_hash m \<noteq> content_hash \<or> m_expires_at m < now
          then find_reusable_in now content_hash stream_url names d
          else (case queue_stream_audio_path (m_snapshot_id m) of
                  Inl e \<Rightarrow> Inl e
                | Inr audio \<Rightarrow>
                    if audio \<notin> set (dict_keys d)
                    then find_reusable_in now content_hash stream_url names d
                    else Inr (Some (manifest_response_of stream_url m))))"

definition find_reusable_snapshot ::
    "timestamp \<Rightarrow> string \<Rightarrow> string \<Rightarrow> stream_files \<Rightarrow> http_exception + manifest_response option" where
  "find_reusable_snapshot now content_hash stream_url d =
     find_reusable_in now content_hash stream_url (newest_first d) d"

definition load_queue_stream_manifest ::
    "timestamp \<Rightarrow> string \<Rightarrow> stream_files \<Rightarrow> (http_exception + queue_manifest) \<times> stream_files" where
  "load_queue_stream_manifest now snapshot_id d =
     (if \<not> valid_snapshot_id snapshot_id then (Inl (HTTPException 404 ''Queue stream not found''), d)
      else if snapshot_id @ ''.json'' \<notin> set (dict_keys d)
      then (Inl (HTTPException 404 ''Queue stream not found''), d)
      else (case load_manifest (snapshot_id @ ''.json'') d of
              None \<Rightarrow> (Inl (HTTPException 404 ''Queue stream not found''), d)
            | Some m \<Rightarrow>
                if m_expires_at m < now then
                  (Inl (HTTPException 404 ''Queue stream expired''),
                   delete_snapshot_files snapshot_id d)
                else if snapshot_id @ ''.mp3'' \<notin> set (dict_keys d)
                then (Inl (HTTPException 404 ''Queue stream audio not found''), d)
                else (Inr m, d)))"

subsection \<open>File names\<close>

definition snapshot_names :: "string \<Rightarrow> string set" where
  "snapshot_names snapshot_id = (\<lambda>suffix. snapshot_id @ suffix) ` set SNAPSHOT_FILE_SUFFIXES"

lemma valid_id_chars: "valid_snapshot_id s \<Longrightarrow> c \<in> set s \<Longrightarrow> c \<noteq> CHR ''.''"
proof
  assume "valid_snapshot_id s" and "c \<in> set s" and "c = CHR ''.''"
  then have "CHR ''.'' \<in> set ''0123456789abcdef''"
    unfolding valid_snapshot_id_def list_all_iff by blast
  then show False by simp
qed

lemma fold_dict_del:
  "fold (\<lambda>suffix. dict_del (i @ suffix)) suffixes d =
     filter (\<lambda>p. fst p \<notin> (\<lambda>suffix. i @ suffix) ` set suffixes) d"
proof (induction suffixes arbitrary: d)
  case (Cons s suffixes)
  have "fold (\<lambda>suffix. dict_del (i @ suffix)) (s # suffixes) d =
      filter (\<lambda>p. fst p \<notin> (\<lambda>suffix. i @ suffix) ` set suffixes) (dict_del (i @ s) d)"
    by (simp only: fold_Cons comp_def Cons.IH)
  also have "\<dots> = filter (\<lambda>p. fst p \<notin> (\<lambda>suffix. i @ suffix) ` set (s # suffixes)) d"
    by (auto simp: dict_del_def intro!: filter_cong)
  finally show ?case .
qed simp

lemma delete_snapshot_files_filter:
  "valid_snapshot_id snapshot_id \<Longrightarrow>
     delete_snapshot_files snapshot_id d = filter (\<lambda>p. fst p \<notin> snapshot_names snapshot_id) d"
  by (simp only: delete_snapshot_files_def snapshot_names_def fold_dict_del simp_thms if_False)

lemma map_of_filter_fst: "map_of (filter (\<lambda>p. P (fst p)) d) k = (if P k then map_of d k else None)"
  by (induction d) auto

lemma delete_snapshot_files_get:
  "map_of (delete_snapshot_files snapshot_id d) name =
     (if valid_snapshot_id snapshot_id \<and> name \<in> snapshot_names snapshot_id then None
      else map_of d name)"
  by (cases "valid_snapshot_id snapshot_id")
    (simp add: delete_snapshot_files_filter map_of_filter_fst [where P = "\<lambda>n. n \<notin> snapshot_names snapshot_id"],
     simp add: delete_snapshot_files_def)

lemma id_from_suffixes_Some:
  "id_from_suffixes suffixes name = Some i \<Longrightarrow>
     valid_snapshot_id i \<and> (\<exists>suffix \<in> set suffixes. name = i @ suffix)"
proof (induction suffixes)
  case (Cons s suffixes)
  then show ?case
    by (cases "endswith s name") (auto simp: Let_def endswith_iff split: if_splits)
qed simp

lemma snapshot_id_cases:
  assumes "snapshot_id_from_cache_file name = Some i"
  shows "valid_snapshot_id i" and "name \<in> snapshot_names i \<or> name = i @ ''.json.tmp''"
  using id_from_suffixes_Some [OF assms [unfolded snapshot_id_from_cache_file_def]]
  by (auto simp: snapshot_names_def)

lemma mp3_snapshot_names:
  assumes "snapshot_id_from_cache_file name = Some i" and "endswith ''.mp3'' name"
  shows "name \<in> snapshot_names i"
  using snapshot_id_cases(2) [OF assms(1)] assms(2) by (auto simp: endswith_iff)

lemma snapshot_id_of_name:
  assumes "valid_snapshot_id i" and "name \<in> snapshot_names i"
  shows "snapshot_id_from_cache_file name = Some i"
proof -
  have no: "\<not> endswith ''.tmp.mp3'' (i @ ''.mp3'')"
    using endswith_char [of "''.tmp.mp3''" i "''.mp3''"] valid_id_chars [OF assms(1)] by auto
  show ?thesis
    using assms no
    by (auto simp: snapshot_names_def snapshot_id_from_cache_file_def SNAPSHOT_FILE_SUFFIXES_def
        endswith_iff)
qed

lemma snapshot_names_inj:
  "valid_snapshot_id i \<Longrightarrow> valid_snapshot_id j \<Longrightarrow> name \<in> snapshot_names i \<Longrightarrow>
     name \<in> snapshot_names j \<Longrightarrow> i = j"
  by (metis option.inject snapshot_id_of_name)

subsection \<open>The quota\<close>

text \<open>The files one eviction removes.\<close>

definition evicted_names :: "string \<Rightarrow> string set" where
  "evicted_names name =
     (case snapshot_id_from_cache_file name of
        Some i \<Rightarrow> snapshot_names i | None \<Rightarrow> {name})"

definition is_protected :: "string list \<Rightarrow> string \<Rightarrow> bool" where
  "is_protected protected name \<longleftrightarrow>
     (\<exists>i \<in> set protected. snapshot_id_from_cache_file name = Some i)"

lemma evict_until_fits_Cons:
  "evict_until_fits protected (p # rest) used d =
     (if used \<le> QUEUE_STREAM_MAX_CACHE_BYTES then d
      else if is_protected protected (fst p) then evict_until_fits protected rest used d
      else evict_until_fits protected rest (used - int (f_size (snd p)))
             (filter (\<lambda>q. fst q \<notin> evicted_names (fst p)) d))"
  by (cases p; cases "snapshot_id_from_cache_file (fst p)")
    (auto simp: is_protected_def evicted_names_def dict_del_def delete_snapshot_files_filter
      snapshot_id_cases(1))

text \<open>The evicted files are those of the unprotected entries of a prefix of the list.\<close>

lemma evict_until_fits_prefix:
  "\<exists>n. evict_until_fits protected ps used d =
     filter (\<lambda>q. \<forall>p \<in> set (take n ps). \<not> is_protected protected (fst p) \<longrightarrow>
               fst q \<notin> evicted_names (fst p)) d"
proof (induction ps arbitrary: used d)
  case Nil
  show ?case by simp
next
  case (Cons p ps)
  consider (fits) "used \<le> QUEUE_STREAM_MAX_CACHE_BYTES"
    | (kept) "\<not> used \<le> QUEUE_STREAM_MAX_CACHE_BYTES" "is_protected protected (fst p)"
    | (evicted) "\<not> used \<le> QUEUE_STREAM_MAX_CACHE_BYTES" "\<not> is_protected protected (fst p)"
    by blast
  then show ?case
  proof cases
    case fits
    then show ?thesis by (intro exI [of _ 0]) (simp add: evict_until_fits_Cons)
  next
    case kept
    obtain n where "evict_until_fits protected ps used d = filter (\<lambda>q. \<forall>p \<in> set (take n ps).
        \<not> is_protected protected (fst p) \<longrightarrow> fst q \<notin> evicted_names (fst p)) d"
      using Cons.IH by blast
    with kept show ?thesis by (intro exI [of _ "Suc n"]) (simp add: evict_until_fits_Cons)
  next
    case evicted
    obtain n where "evict_until_fits protected ps (used - int (f_size (snd p)))
        (filter (\<lambda>q. fst q \<notin> evicted_names (fst p)) d) = filter (\<lambda>q. \<forall>p \<in> set (take n ps).
        \<not> is_protected protected (fst p) \<longrightarrow> fst q \<notin> evicted_names (fst p))
        (filter (\<lambda>q. fst q \<notin> evicted_names (fst p)) d)"
      using Cons.IH by blast
    with evicted show ?thesis
      by (intro exI [of _ "Suc n"]) (simp add: evict_until_fits_Cons conj_commute)
  qed
qed

lemma evicted_names_mp3: "endswith ''.mp3'' name \<Longrightarrow> name \<in> evicted_names name"
  by (cases "snapshot_id_from_cache_file name")
    (simp_all add: evicted_names_def mp3_snapshot_names)

lemma evicted_names_protected:
  assumes "is_protected protected name" and "\<not> is_protected protected other"
    and "name \<in> evicted_names other"
  shows False
proof (cases "snapshot_id_from_cache_file other")
  case None
  then show ?thesis using assms by (simp add: evicted_names_def)
next
  case (Some i)
  then have "name \<in> snapshot_names i" using assms(3) by (simp add: evicted_names_def)
  from snapshot_id_of_name [OF snapshot_id_cases(1) [OF Some] this]
  show ?thesis using assms(1,2) Some unfolding is_protected_def by simp
qed

lemma total_bytes_mset: "total_bytes ps = (\<Sum>p\<in>#mset ps. int (f_size (snd p)))"
  by (simp add: total_bytes_def flip: mset_map sum_mset_sum_list)

lemma total_bytes_mono: "mset ps \<subseteq># mset qs \<Longrightarrow> total_bytes ps \<le> total_bytes qs"
proof -
  have "0 \<le> (\<Sum>p\<in>#C. int (f_size (snd p)))" for C :: "(string \<times> cache_file) multiset"
    by (induction C) auto
  then show "mset ps \<subseteq># mset qs \<Longrightarrow> total_bytes ps \<le> total_bytes qs"
    by (auto simp: total_bytes_mset mset_subset_eq_exists_conv)
qed

lemma total_bytes_Cons: "total_bytes (p # ps) = int (f_size (snd p)) + total_bytes ps"
  by (simp add: total_bytes_def)

lemma mset_filter_drop:
  assumes "mset ps \<subseteq># mset (skipped @ p # rest)"
  shows "mset (filter (\<lambda>q. fst q \<notin> S) ps) \<subseteq># mset (skipped @ rest) \<or> fst p \<notin> S"
proof (rule disjCI)
  assume "\<not> fst p \<notin> S"
  then have "filter_mset (\<lambda>q. fst q \<notin> S) (mset (skipped @ p # rest)) =
      filter_mset (\<lambda>q. fst q \<notin> S) (mset (skipped @ rest))"
    by simp
  then show "mset (filter (\<lambda>q. fst q \<notin> S) ps) \<subseteq># mset (skipped @ rest)"
    using multiset_filter_mono [OF assms, of "\<lambda>q. fst q \<notin> S"] multiset_filter_subset
    by (metis mset_filter subset_mset.order_trans)
qed

lemma mp3_files_filter:
  "mp3_files (filter (\<lambda>q. P (fst q)) d) = filter (\<lambda>q. P (fst q)) (mp3_files d)"
  by (simp add: mp3_files_def conj_commute)

lemma evict_until_fits_bound:
  assumes "mset (mp3_files d) \<subseteq># mset (skipped @ ps)"
    and "\<forall>p \<in> set ps. endswith ''.mp3'' (fst p)"
    and "\<forall>p \<in> set skipped. is_protected protected (fst p)"
    and "used = total_bytes (skipped @ ps)"
  shows "total_bytes (mp3_files (evict_until_fits protected ps used d)) \<le> QUEUE_STREAM_MAX_CACHE_BYTES
     \<or> (\<forall>p \<in> set (mp3_files (evict_until_fits protected ps used d)). is_protected protected (fst p))"
  using assms
proof (induction ps arbitrary: used d skipped)
  case Nil
  then have "set (mp3_files d) \<subseteq> set skipped" by (metis append_Nil2 set_mset_mono set_mset_mset)
  then show ?case using Nil.prems(3) by auto
next
  case (Cons p ps)
  show ?case
  proof (cases "used \<le> QUEUE_STREAM_MAX_CACHE_BYTES")
    case True
    then show ?thesis
      using total_bytes_mono [OF Cons.prems(1)] Cons.prems(4) by (simp add: evict_until_fits_Cons)
  next
    case over: False
    show ?thesis
    proof (cases "is_protected protected (fst p)")
      case True
      with Cons.IH [of d "skipped @ [p]" used] Cons.prems over show ?thesis
        by (simp add: evict_until_fits_Cons)
    next
      case False
      let ?d = "filter (\<lambda>q. fst q \<notin> evicted_names (fst p)) d"
      have "mset (mp3_files ?d) \<subseteq># mset (skipped @ ps)"
        using mset_filter_drop [OF Cons.prems(1), of "evicted_names (fst p)"] Cons.prems(2)
          mp3_files_filter [of "\<lambda>n. n \<notin> evicted_names (fst p)"] evicted_names_mp3 by auto
      moreover have "used - int (f_size (snd p)) = total_bytes (skipped @ ps)"
        using Cons.prems(4) by (simp add: total_bytes_def)
      ultimately show ?thesis
        using Cons.IH [of ?d skipped] Cons.prems(2,3) over False
        by (simp add: evict_until_fits_Cons)
    qed
  qed
qed

lemma enforce_cache_quota_prefix:
  "\<exists>n. enforce_cache_quota protected d =
     filter (\<lambda>q. \<forall>p \<in> set (take n (sort_key eviction_key (mp3_files d))).
       \<not> is_protected protected (fst p) \<longrightarrow> fst q \<notin> evicted_names (fst p)) d"
proof (cases "total_bytes (mp3_files d) \<le> QUEUE_STREAM_MAX_CACHE_BYTES")
  case True
  then show ?thesis by (intro exI [of _ 0]) (simp add: enforce_cache_quota_def)
next
  case False
  then show ?thesis using evict_until_fits_prefix by (simp add: enforce_cache_quota_def)
qed

lemma enforce_cache_quota_filter:
  "\<exists>P. enforce_cache_quota protected d = filter (\<lambda>q. P (fst q)) d
     \<and> (\<forall>name. is_protected protected name \<longrightarrow> P name)"
proof -
  obtain n where n: "enforce_cache_quota protected d =
     filter (\<lambda>q. \<forall>p \<in> set (take n (sort_key eviction_key (mp3_files d))).
       \<not> is_protected protected (fst p) \<longrightarrow> fst q \<notin> evicted_names (fst p)) d" (is "_ = filter (\<lambda>q. ?P (fst q)) d")
    using enforce_cache_quota_prefix by blast
  have "\<forall>name. is_protected protected name \<longrightarrow> ?P name"
    using evicted_names_protected by blast
  then show ?thesis using n by (intro exI [of _ ?P]) simp
qed

text \<open>C28: \<open>_enforce_cache_quota\<close> meets the quota: afterwards the \<open>.mp3\<close> files of the cache
  hold at most \<open>QUEUE_STREAM_MAX_CACHE_BYTES\<close>, or every one that is left belongs to a protected
  snapshot; files of protected snapshots are never touched, and a cache within the quota is left
  alone.  The evicted files are those of the unprotected entries of a prefix of the files sorted
  by modification time, size and name, so nothing newer goes before something older.\<close>

theorem quota_enforced:
  "(total_bytes (mp3_files (enforce_cache_quota protected d)) \<le> QUEUE_STREAM_MAX_CACHE_BYTES
     \<or> (\<forall>p \<in> set (mp3_files (enforce_cache_quota protected d)). is_protected protected (fst p)))
   \<and> (\<forall>name. is_protected protected name \<longrightarrow>
        map_of (enforce_cache_quota protected d) name = map_of d name)
   \<and> (total_bytes (mp3_files d) \<le> QUEUE_STREAM_MAX_CACHE_BYTES \<longrightarrow> enforce_cache_quota protected d = d)
   \<and> (\<exists>n. enforce_cache_quota protected d =
        filter (\<lambda>q. \<forall>p \<in> set (take n (sort_key eviction_key (mp3_files d))).
          \<not> is_protected protected (fst p) \<longrightarrow> fst q \<notin> evicted_names (fst p)) d)"
proof (intro conjI)
  show "total_bytes (mp3_files (enforce_cache_quota protected d)) \<le> QUEUE_STREAM_MAX_CACHE_BYTES
     \<or> (\<forall>p \<in> set (mp3_files (enforce_cache_quota protected d)). is_protected protected (fst p))"
  proof (cases "total_bytes (mp3_files d) \<le> QUEUE_STREAM_MAX_CACHE_BYTES")
    case True
    then show ?thesis by (simp add: enforce_cache_quota_def)
  next
    case False
    let ?ps = "sort_key eviction_key (mp3_files d)"
    have "used = total_bytes ([] @ ?ps) \<Longrightarrow> used = total_bytes (mp3_files d)" for used
      by (simp add: total_bytes_mset)
    moreover have "\<forall>p \<in> set ?ps. endswith ''.mp3'' (fst p)" by (auto simp: mp3_files_def)
    ultimately show ?thesis
      using evict_until_fits_bound [of d "[]" ?ps protected "total_bytes (mp3_files d)"] False
      by (simp add: enforce_cache_quota_def total_bytes_mset)
  qed
  show "\<forall>name. is_protected protected name \<longrightarrow>
      map_of (enforce_cache_quota protected d) name = map_of d name"
    using enforce_cache_quota_filter [of protected d] by (auto simp: map_of_filter_fst)
  show "total_bytes (mp3_files d) \<le> QUEUE_STREAM_MAX_CACHE_BYTES \<longrightarrow> enforce_cache_quota protected d = d"
    by (simp add: enforce_cache_quota_def)
qed (rule enforce_cache_quota_prefix)

lemma quota_enforced_witness:
  "let i = replicate 32 (CHR ''a''); name = i @ ''.mp3'';
       d = [(name, \<lparr>f_mtime = 0, f_size = 5, f_content = Other_Bytes\<rparr>)]
   in is_protected [i] name \<and> map_of (enforce_cache_quota [i] d) name = map_of d name
      \<and> enforce_cache_quota [i] d = d"
proof -
  let ?i = "replicate 32 (CHR ''a'')"
  let ?d = "[(?i @ ''.mp3'', \<lparr>f_mtime = 0, f_size = 5, f_content = Other_Bytes\<rparr>)]"
  have "valid_snapshot_id ?i" by (simp add: valid_snapshot_id_def list_all_iff)
  then have "is_protected [?i] (?i @ ''.mp3'')"
    using snapshot_id_of_name [of ?i "?i @ ''.mp3''"]
    unfolding is_protected_def snapshot_names_def SNAPSHOT_FILE_SUFFIXES_def by simp
  moreover have "total_bytes (mp3_files ?d) \<le> QUEUE_STREAM_MAX_CACHE_BYTES"
    by (simp add: total_bytes_def mp3_files_def QUEUE_STREAM_MAX_CACHE_BYTES_def)
  ultimately show ?thesis
    using quota_enforced [of "[?i]" ?d] unfolding Let_def by blast
qed

subsection \<open>Clean-up\<close>

definition fresh_manifest :: "timestamp \<Rightarrow> string \<Rightarrow> stream_files \<Rightarrow> bool" where
  "fresh_manifest now name d =
     (case load_manifest name d of None \<Rightarrow> False | Some m \<Rightarrow> now \<le> m_expires_at m)"

text \<open>Which files the clean-up may collect: those of a snapshot without a fresh manifest, at once
  when its manifest is there, expired or unreadable, and after a day otherwise.\<close>

definition collectable :: "timestamp \<Rightarrow> stream_files \<Rightarrow> string \<Rightarrow> bool" where
  "collectable now d name =
     (case (snapshot_id_from_cache_file name, map_of d name) of
        (Some i, Some f) \<Rightarrow>
          \<not> fresh_manifest now (i @ ''.json'') d
          \<and> (name \<in> snapshot_names i \<and> i @ ''.json'' \<in> set (dict_keys d)
             \<or> f_mtime f < now - QUEUE_STREAM_ORPHAN_MAX_AGE)
      | _ \<Rightarrow> False)"

lemma manifest_stem_valid:
  assumes "endswith ''.json'' name" and "valid_snapshot_id (manifest_stem name)"
  shows "name = manifest_stem name @ ''.json''"
proof -
  obtain r where r: "name = r @ ''.json''" using assms(1) by (auto simp: endswith_iff)
  have "name \<noteq> ''.json''"
  proof
    assume eq: "name = ''.json''"
    show False using assms(2) unfolding eq by (simp add: manifest_stem_def valid_snapshot_id_def)
  qed
  with r show ?thesis by (simp add: manifest_stem_def)
qed

lemma manifest_stem_json: "valid_snapshot_id i \<Longrightarrow> manifest_stem (i @ ''.json'') = i"
  by (auto simp: manifest_stem_def valid_snapshot_id_def)

lemma json_snapshot_name:
  assumes "endswith ''.json'' name" and "name \<in> snapshot_names i"
  shows "name = i @ ''.json''"
  using assms by (auto simp: snapshot_names_def SNAPSHOT_FILE_SUFFIXES_def endswith_iff)

lemma load_manifest_delete:
  assumes "endswith ''.json'' name" and "name \<noteq> i @ ''.json''"
  shows "load_manifest name (delete_snapshot_files i d) = load_manifest name d"
  using json_snapshot_name [OF assms(1)] assms(2)
  by (auto simp: load_manifest_def delete_snapshot_files_get)

lemma delete_snapshot_files_as_filter:
  "delete_snapshot_files i d =
     filter (\<lambda>p. \<not> (valid_snapshot_id i \<and> fst p \<in> snapshot_names i)) d"
  by (cases "valid_snapshot_id i")
    (simp_all add: delete_snapshot_files_filter, simp add: delete_snapshot_files_def)

lemma remove_expired_Cons:
  "remove_expired_snapshots now (name # names) live d =
     (if fresh_manifest now name d
      then remove_expired_snapshots now names (live @ [manifest_stem name]) d
      else remove_expired_snapshots now names live (delete_snapshot_files (manifest_stem name) d))"
  by (simp add: fresh_manifest_def split: option.split)

declare remove_expired_snapshots.simps(2) [simp del]

lemma remove_expired_spec:
  assumes "distinct names" and "\<forall>n \<in> set names. endswith ''.json'' n"
  shows "remove_expired_snapshots now names live d =
    (live @ map manifest_stem (filter (\<lambda>n. fresh_manifest now n d) names),
     filter (\<lambda>p. \<forall>n \<in> set names. \<not> fresh_manifest now n d \<longrightarrow>
       \<not> (valid_snapshot_id (manifest_stem n) \<and> fst p \<in> snapshot_names (manifest_stem n))) d)"
  using assms
proof (induction names arbitrary: live d)
  case Nil
  show ?case by simp
next
  case (Cons name names)
  show ?case
  proof (cases "fresh_manifest now name d")
    case True
    with Cons show ?thesis by (simp add: remove_expired_Cons)
  next
    case False
    let ?d = "delete_snapshot_files (manifest_stem name) d"
    have same: "fresh_manifest now n ?d = fresh_manifest now n d" if "n \<in> set names" for n
    proof (cases "valid_snapshot_id (manifest_stem name)")
      case True
      then have "name = manifest_stem name @ ''.json''"
        using manifest_stem_valid Cons.prems(2) by simp
      then have "n \<noteq> manifest_stem name @ ''.json''" using that Cons.prems(1) by auto
      then show ?thesis
        using load_manifest_delete that Cons.prems(2) by (simp add: fresh_manifest_def)
    next
      case False
      then show ?thesis by (simp add: delete_snapshot_files_def)
    qed
    have "remove_expired_snapshots now (name # names) live d =
        remove_expired_snapshots now names live ?d"
      using False by (simp add: remove_expired_Cons)
    also have "\<dots> = (live @ map manifest_stem (filter (\<lambda>n. fresh_manifest now n d) names),
       filter (\<lambda>p. \<forall>n \<in> set names. \<not> fresh_manifest now n d \<longrightarrow>
         \<not> (valid_snapshot_id (manifest_stem n) \<and> fst p \<in> snapshot_names (manifest_stem n))) ?d)"
      using Cons.IH [of live ?d] Cons.prems same by (simp cong: filter_cong)
    finally show ?thesis using False
      by (auto simp: delete_snapshot_files_as_filter intro!: filter_cong)
  qed
qed

definition is_orphan :: "timestamp \<Rightarrow> string list \<Rightarrow> stream_files \<Rightarrow> string \<Rightarrow> bool" where
  "is_orphan cutoff live d name =
     (case (snapshot_id_from_cache_file name, map_of d name) of
        (Some i, Some f) \<Rightarrow> i \<notin> set live \<and> f_mtime f < cutoff
      | _ \<Rightarrow> False)"

lemma remove_orphans_Cons:
  "remove_orphans cutoff live (name # names) d =
     remove_orphans cutoff live names (if is_orphan cutoff live d name then dict_del name d else d)"
  by (simp add: is_orphan_def split: option.split)

lemma remove_orphans_spec:
  "remove_orphans cutoff live names d =
     filter (\<lambda>p. \<not> (fst p \<in> set names \<and> is_orphan cutoff live d (fst p))) d"
proof (induction names arbitrary: d)
  case Nil
  show ?case by simp
next
  case (Cons name names)
  have same: "n \<noteq> name \<Longrightarrow> is_orphan cutoff live (dict_del name d) n = is_orphan cutoff live d n" for n
    by (simp add: is_orphan_def dict_lookup)
  have "filter (\<lambda>p. \<not> (fst p \<in> set names \<and> is_orphan cutoff live (dict_del name d) (fst p)))
      (dict_del name d) = filter (\<lambda>p. \<not> (fst p \<in> set (name # names) \<and> is_orphan cutoff live d (fst p))) d"
    if "is_orphan cutoff live d name"
  proof -
    have "fst p \<noteq> name" if "p \<in> set (dict_del name d)" for p
      using that by (simp add: dict_del_def)
    then have "filter (\<lambda>p. \<not> (fst p \<in> set names \<and> is_orphan cutoff live (dict_del name d) (fst p)))
        (dict_del name d) =
        filter (\<lambda>p. \<not> (fst p \<in> set names \<and> is_orphan cutoff live d (fst p))) (dict_del name d)"
      by (intro filter_cong) (simp_all add: same)
    also have "\<dots> = filter (\<lambda>p. \<not> (fst p \<in> set (name # names) \<and> is_orphan cutoff live d (fst p))) d"
      using that by (auto simp: dict_del_def intro!: filter_cong)
    finally show ?thesis .
  qed
  moreover have "filter (\<lambda>p. \<not> (fst p \<in> set names \<and> is_orphan cutoff live d (fst p))) d =
      filter (\<lambda>p. \<not> (fst p \<in> set (name # names) \<and> is_orphan cutoff live d (fst p))) d"
    if "\<not> is_orphan cutoff live d name"
    using that by (intro filter_cong) auto
  ultimately show ?case by (simp only: remove_orphans_Cons Cons.IH split: if_split) blast
qed

lemma live_snapshot_iff:
  assumes "valid_snapshot_id i"
  shows "i \<in> set (map manifest_stem (filter (\<lambda>n. fresh_manifest now n d) (manifest_names d)))
     \<longleftrightarrow> fresh_manifest now (i @ ''.json'') d" (is "?live \<longleftrightarrow> _")
proof
  assume ?live
  then obtain n where "endswith ''.json'' n" "fresh_manifest now n d" "manifest_stem n = i"
    by (auto simp: manifest_names_def)
  then show "fresh_manifest now (i @ ''.json'') d" using manifest_stem_valid assms by metis
next
  assume fresh: "fresh_manifest now (i @ ''.json'') d"
  then have "i @ ''.json'' \<in> set (dict_keys d)"
    by (auto simp: fresh_manifest_def load_manifest_def set_dict_keys split: option.splits)
  then have "i @ ''.json'' \<in> set (manifest_names d)"
    by (simp add: manifest_names_def endswith_iff)
  then have "manifest_stem (i @ ''.json'')
      \<in> set (map manifest_stem (filter (\<lambda>n. fresh_manifest now n d) (manifest_names d)))"
    using fresh by (auto intro: image_eqI)
  then show ?live using manifest_stem_json [OF assms] by simp
qed

lemma stale_manifest_iff:
  "(\<exists>n \<in> set (manifest_names d). \<not> fresh_manifest now n d
      \<and> valid_snapshot_id (manifest_stem n) \<and> name \<in> snapshot_names (manifest_stem n))
   \<longleftrightarrow> (\<exists>i. snapshot_id_from_cache_file name = Some i \<and> name \<in> snapshot_names i
      \<and> i @ ''.json'' \<in> set (dict_keys d) \<and> \<not> fresh_manifest now (i @ ''.json'') d)"
   (is "?stale \<longleftrightarrow> ?by_id")
proof
  assume ?stale
  then obtain n where n: "n \<in> set (dict_keys d)" "endswith ''.json'' n" "\<not> fresh_manifest now n d"
      "valid_snapshot_id (manifest_stem n)" "name \<in> snapshot_names (manifest_stem n)"
    by (auto simp: manifest_names_def)
  from manifest_stem_valid [OF n(2,4)] snapshot_id_of_name [OF n(4,5)] n(1,3,5) show ?by_id
    by metis
next
  assume ?by_id
  then obtain i where i: "snapshot_id_from_cache_file name = Some i" "name \<in> snapshot_names i"
      "i @ ''.json'' \<in> set (dict_keys d)" "\<not> fresh_manifest now (i @ ''.json'') d"
    by blast
  have "valid_snapshot_id i" by (rule snapshot_id_cases(1) [OF i(1)])
  moreover have "i @ ''.json'' \<in> set (manifest_names d)"
    using i(3) by (simp add: manifest_names_def endswith_iff)
  ultimately show ?stale using i manifest_stem_json by metis
qed

definition without_collectable :: "timestamp \<Rightarrow> stream_files \<Rightarrow> stream_files" where
  "without_collectable now d = filter (\<lambda>p. \<not> collectable now d (fst p)) d"

lemma collected:
  assumes "distinct (dict_keys d)"
  shows "cleanup_expired_queue_streams now d = enforce_cache_quota [] (without_collectable now d)"
proof -
  let ?names = "manifest_names d"
  let ?live = "map manifest_stem (filter (\<lambda>n. fresh_manifest now n d) ?names)"
  let ?cutoff = "now - QUEUE_STREAM_ORPHAN_MAX_AGE"
  define keep where "keep name = (\<forall>n \<in> set ?names. \<not> fresh_manifest now n d \<longrightarrow>
       \<not> (valid_snapshot_id (manifest_stem n) \<and> name \<in> snapshot_names (manifest_stem n)))" for name
  define d1 where "d1 = filter (\<lambda>p. keep (fst p)) d"
  have names: "distinct ?names" "\<forall>n \<in> set ?names. endswith ''.json'' n"
    using assms by (simp_all add: manifest_names_def)
  have expired: "remove_expired_snapshots now ?names [] d = (?live, d1)"
    unfolding remove_expired_spec [OF names] d1_def keep_def by simp
  have orphans: "remove_orphans ?cutoff ?live (dict_keys d1) d1 =
      filter (\<lambda>p. \<not> is_orphan ?cutoff ?live d1 (fst p)) d1"
    unfolding remove_orphans_spec by (intro filter_cong) (auto simp: dict_keys_def)
  have "(keep name \<and> \<not> is_orphan ?cutoff ?live d1 name) \<longleftrightarrow> \<not> collectable now d name"
    if f: "map_of d name = Some f" for name f
  proof (cases "snapshot_id_from_cache_file name")
    case None
    then have "keep name" using stale_manifest_iff [of d now name] by (auto simp: keep_def)
    then show ?thesis using None by (simp add: is_orphan_def collectable_def)
  next
    case (Some i)
    have live: "i \<in> set ?live \<longleftrightarrow> fresh_manifest now (i @ ''.json'') d"
      by (rule live_snapshot_iff [OF snapshot_id_cases(1) [OF Some]])
    have kept: "keep name \<longleftrightarrow> \<not> (name \<in> snapshot_names i \<and> i @ ''.json'' \<in> set (dict_keys d)
        \<and> \<not> fresh_manifest now (i @ ''.json'') d)"
      using stale_manifest_iff [of d now name] Some by (auto simp: keep_def)
    have "map_of d1 name = (if keep name then map_of d name else None)"
      unfolding d1_def by (rule map_of_filter_fst)
    then show ?thesis
      using live kept by (cases "keep name") (simp_all only: is_orphan_def collectable_def Some f
          option.case prod.case simp_thms if_True, blast+)
  qed
  then have due: "(keep (fst p) \<and> \<not> is_orphan ?cutoff ?live d1 (fst p)) \<longleftrightarrow> \<not> collectable now d (fst p)"
    if "p \<in> set d" for p
    using that weak_map_of_SomeI [of "fst p" "snd p" d] by auto
  have "filter (\<lambda>p. \<not> is_orphan ?cutoff ?live d1 (fst p)) d1 =
      filter (\<lambda>p. keep (fst p) \<and> \<not> is_orphan ?cutoff ?live d1 (fst p)) d"
    by (subst (2) d1_def) (simp only: filter_filter)
  also have "\<dots> = without_collectable now d"
    unfolding without_collectable_def using due by (intro filter_cong) auto
  finally have "filter (\<lambda>p. \<not> is_orphan ?cutoff ?live d1 (fst p)) d1 = without_collectable now d" .
  then show ?thesis
    by (simp only: cleanup_expired_queue_streams_def expired prod.case Let_def orphans)
qed

lemma no_protection: "\<not> is_protected [] name"
  by (simp add: is_protected_def)

lemma filter_total_le: "total_bytes (mp3_files (filter P d)) \<le> total_bytes (mp3_files d)"
  by (rule total_bytes_mono) (simp add: mp3_files_def filter_filter conj_commute multiset_filter_mono flip: filter_filter)

lemma quota_unprotected:
  "total_bytes (mp3_files (enforce_cache_quota [] d)) \<le> QUEUE_STREAM_MAX_CACHE_BYTES"
proof (cases "total_bytes (mp3_files d) \<le> QUEUE_STREAM_MAX_CACHE_BYTES")
  case True
  then show ?thesis by (simp add: enforce_cache_quota_def)
next
  case False
  let ?ps = "sort_key eviction_key (mp3_files d)"
  have "\<forall>p \<in> set ?ps. endswith ''.mp3'' (fst p)" by (auto simp: mp3_files_def)
  then have "total_bytes (mp3_files (enforce_cache_quota [] d)) \<le> QUEUE_STREAM_MAX_CACHE_BYTES
      \<or> (\<forall>p \<in> set (mp3_files (enforce_cache_quota [] d)). is_protected [] (fst p))"
    using evict_until_fits_bound [of d "[]" ?ps "[]" "total_bytes (mp3_files d)"] False
    by (simp add: enforce_cache_quota_def total_bytes_mset)
  then show ?thesis
  proof
    assume "\<forall>p \<in> set (mp3_files (enforce_cache_quota [] d)). is_protected [] (fst p)"
    then have "mp3_files (enforce_cache_quota [] d) = []"
      using no_protection by (metis last_in_set)
    then show ?thesis by (simp add: total_bytes_def QUEUE_STREAM_MAX_CACHE_BYTES_def)
  qed
qed

text \<open>\<open>cleanup_expired_queue_streams\<close> collects exactly what is due.  A file goes when its
  name belongs to a snapshot that has no fresh manifest and either the snapshot's manifest is there
  (expired or unreadable) or the file is older than a day; files of live snapshots and files with
  other names stay, unless the cache is over its quota.  Afterwards the quota holds and what is
  left is unchanged.\<close>

theorem cleanup_collects:
  assumes "distinct (dict_keys d)"
  shows "total_bytes (mp3_files (cleanup_expired_queue_streams now d)) \<le> QUEUE_STREAM_MAX_CACHE_BYTES
    \<and> (\<forall>name f. map_of (cleanup_expired_queue_streams now d) name = Some f \<longrightarrow>
         map_of d name = Some f \<and> \<not> collectable now d name)
    \<and> (total_bytes (mp3_files d) \<le> QUEUE_STREAM_MAX_CACHE_BYTES \<longrightarrow>
         (\<forall>name. map_of (cleanup_expired_queue_streams now d) name =
            (if collectable now d name then None else map_of d name)))"
proof -
  have kept: "map_of (without_collectable now d) name =
      (if collectable now d name then None else map_of d name)" for name
    unfolding without_collectable_def
    by (subst map_of_filter_fst [where P = "\<lambda>n. \<not> collectable now d n"]) simp
  have "map_of d name = Some f \<and> \<not> collectable now d name"
    if "map_of (enforce_cache_quota [] (without_collectable now d)) name = Some f" for name f
    using that enforce_cache_quota_filter [of "[]" "without_collectable now d"] kept
    by (auto simp: map_of_filter_fst split: if_splits)
  moreover have "enforce_cache_quota [] (without_collectable now d) = without_collectable now d"
    if "total_bytes (mp3_files d) \<le> QUEUE_STREAM_MAX_CACHE_BYTES"
    using that filter_total_le [of "\<lambda>p. \<not> collectable now d (fst p)" d]
    by (simp add: enforce_cache_quota_def without_collectable_def)
  ultimately show ?thesis unfolding collected [OF assms] using quota_unprotected kept by metis
qed

lemma cleanup_collects_witness:
  "let i = replicate 32 (CHR ''a'');
       d = [(i @ ''.mp3'', \<lparr>f_mtime = 0, f_size = 5, f_content = Other_Bytes\<rparr>),
            (''notes.txt'', \<lparr>f_mtime = 0, f_size = 7, f_content = Other_Bytes\<rparr>)]
   in \<forall>name. map_of (cleanup_expired_queue_streams (seconds 90000) d) name =
        (if collectable (seconds 90000) d name then None else map_of d name)"
proof -
  let ?d = "[(replicate 32 (CHR ''a'') @ ''.mp3'', \<lparr>f_mtime = 0, f_size = 5, f_content = Other_Bytes\<rparr>),
            (''notes.txt'', \<lparr>f_mtime = 0, f_size = 7, f_content = Other_Bytes\<rparr>)]"
  have "distinct (dict_keys ?d)" by (simp add: dict_keys_def numeral_eq_Suc)
  moreover have "total_bytes (mp3_files ?d) \<le> QUEUE_STREAM_MAX_CACHE_BYTES"
    by (simp add: total_bytes_def mp3_files_def QUEUE_STREAM_MAX_CACHE_BYTES_def)
  ultimately show ?thesis unfolding Let_def using cleanup_collects [of ?d "seconds 90000"] by blast
qed

subsection \<open>Look-ups\<close>

lemma find_reusable_in_Some:
  "find_reusable_in now content_hash stream_url names d = Inr (Some r) \<Longrightarrow>
     \<exists>name \<in> set names. \<exists>m. load_manifest name d = Some m \<and> m_content_hash m = content_hash
       \<and> now \<le> m_expires_at m \<and> valid_snapshot_id (m_snapshot_id m)
       \<and> m_snapshot_id m @ ''.mp3'' \<in> set (dict_keys d) \<and> r = manifest_response_of stream_url m"
proof (induction names)
  case (Cons name names)
  show ?case
  proof (cases "find_reusable_in now content_hash stream_url names d = Inr (Some r)")
    case True
    then show ?thesis using Cons.IH by auto
  next
    case False
    then show ?thesis using Cons.prems
      by (auto simp: queue_stream_audio_path_def split: option.splits if_splits)
  qed
qed simp

lemma find_reusable_in_None:
  "find_reusable_in now content_hash stream_url names d = Inr None \<Longrightarrow> name \<in> set names \<Longrightarrow>
     load_manifest name d = Some m \<Longrightarrow> m_content_hash m = content_hash \<Longrightarrow> now \<le> m_expires_at m \<Longrightarrow>
     m_snapshot_id m @ ''.mp3'' \<notin> set (dict_keys d)"
  by (induction names)
    (auto simp: queue_stream_audio_path_def split: option.splits if_splits)

text \<open>\<open>_find_reusable_snapshot\<close> returns a snapshot only if its manifest carries the wanted
  content hash, has not expired and its audio file is there; it returns none only if no such
  manifest exists.\<close>

theorem find_reusable_sound_complete:
  "(find_reusable_snapshot now content_hash stream_url d = Inr (Some r) \<longrightarrow>
     (\<exists>name m. load_manifest name d = Some m \<and> m_content_hash m = content_hash
        \<and> now \<le> m_expires_at m \<and> m_snapshot_id m @ ''.mp3'' \<in> set (dict_keys d)
        \<and> r = manifest_response_of stream_url m))
   \<and> (find_reusable_snapshot now content_hash stream_url d = Inr None \<longrightarrow>
     (\<forall>name m. endswith ''.json'' name \<and> load_manifest name d = Some m
        \<and> m_content_hash m = content_hash \<and> now \<le> m_expires_at m \<longrightarrow>
        m_snapshot_id m @ ''.mp3'' \<notin> set (dict_keys d)))"
proof (intro conjI impI)
  assume "find_reusable_snapshot now content_hash stream_url d = Inr (Some r)"
  then show "\<exists>name m. load_manifest name d = Some m \<and> m_content_hash m = content_hash
        \<and> now \<le> m_expires_at m \<and> m_snapshot_id m @ ''.mp3'' \<in> set (dict_keys d)
        \<and> r = manifest_response_of stream_url m"
    using find_reusable_in_Some unfolding find_reusable_snapshot_def by blast
next
  assume none: "find_reusable_snapshot now content_hash stream_url d = Inr None"
  have "name \<in> set (newest_first d)" if "endswith ''.json'' name" "load_manifest name d = Some m" for name m
  proof -
    have "name \<in> set (dict_keys d)"
      using that(2) by (auto simp: load_manifest_def set_dict_keys split: option.splits)
    then show ?thesis using that(1) by (simp add: newest_first_def manifest_names_def)
  qed
  then show "\<forall>name m. endswith ''.json'' name \<and> load_manifest name d = Some m
        \<and> m_content_hash m = content_hash \<and> now \<le> m_expires_at m \<longrightarrow>
        m_snapshot_id m @ ''.mp3'' \<notin> set (dict_keys d)"
    using find_reusable_in_None [OF none [unfolded find_reusable_snapshot_def]] by blast
qed

lemma find_reusable_sound_complete_witness:
  "let i = replicate 32 (CHR ''a'');
       m = \<lparr>m_snapshot_id = i, m_scope = Scope_Auth, m_scope_id = ''u'', m_content_hash = ''h'',
            m_expires_at = 9, m_total_duration = 1, m_tracks = [], m_windowed = False\<rparr>;
       d = [(''x.json'', \<lparr>f_mtime = 0, f_size = 5, f_content = Manifest_Text m\<rparr>)]
   in find_reusable_snapshot 3 ''h'' ''url'' d = Inr None
      \<and> m_snapshot_id m @ ''.mp3'' \<notin> set (dict_keys d)"
proof -
  define i where "i = replicate 32 (CHR ''a'')"
  define m where "m = \<lparr>m_snapshot_id = i, m_scope = Scope_Auth, m_scope_id = ''u'', m_content_hash = ''h'',
            m_expires_at = 9, m_total_duration = 1, m_tracks = [], m_windowed = False\<rparr>"
  define d where "d = [(''x.json'', \<lparr>f_mtime = 0, f_size = 5, f_content = Manifest_Text m\<rparr>)]"
  have id: "valid_snapshot_id i" by (simp add: i_def valid_snapshot_id_def list_all_iff)
  have "i @ ''.mp3'' \<noteq> ''x.json''" by (simp add: i_def numeral_eq_Suc)
  then have none: "find_reusable_snapshot 3 ''h'' ''url'' d = Inr None"
    using id by (simp add: d_def m_def find_reusable_snapshot_def newest_first_def manifest_names_def
        dict_keys_def endswith_def queue_stream_audio_path_def load_manifest_def)
  have "endswith ''.json'' ''x.json'' \<and> load_manifest ''x.json'' d = Some m"
    by (simp add: endswith_def load_manifest_def d_def)
  moreover have "m_content_hash m = ''h''" "3 \<le> m_expires_at m" by (simp_all add: m_def)
  ultimately have "m_snapshot_id m @ ''.mp3'' \<notin> set (dict_keys d)"
    using find_reusable_sound_complete [of 3 "''h''" "''url''" d] none by blast
  then show ?thesis using none unfolding Let_def d_def m_def i_def by blast
qed

end
