(* ===== verification/Audio_Paths.thy ===== *)
theory Audio_Paths
  imports Py_Strings
begin

text \<open>
  Stored audio paths (\<open>audio_paths.py\<close>) and audio files (\<open>audio_files.py\<close>).  A POSIX path is
  read into its parts the way \<open>pathlib\<close> does (empty and \<open>.\<close> components vanish, \<open>..\<close> stays);
  \<open>resolve\<close> removes \<open>..\<close>.  Symbolic links are not modelled: a resolved path is the list of its
  components below the root of the file system.  The file system under the audio directory is a
  dictionary from resolved paths to entries; what mutagen reads from a file is a field of its
  entry.
\<close>

datatype audio_path_error = Audio_Path_Rejected | Audio_File_Not_Found

record audio_entry =
  a_is_file :: bool
  a_readable :: bool
  a_size :: nat
  a_mtime_ns :: int
  a_length :: "rat option"

type_synonym audio_fs = "(string list, audio_entry) dict"

definition SLASH :: char where "SLASH = CHR ''/''"

text \<open>\<open>PurePosixPath\<close>: whether a path is absolute, and its parts.\<close>

fun path_split :: "string \<Rightarrow> string \<Rightarrow> string list" where
  "path_split cur [] = [cur]"
| "path_split cur (c # cs) =
     (if c = SLASH then cur # path_split [] cs else path_split (cur @ [c]) cs)"

definition is_absolute :: "string \<Rightarrow> bool" where
  "is_absolute s \<longleftrightarrow> startswith [SLASH] s"

definition path_parts :: "string \<Rightarrow> string list" where
  "path_parts s = filter (\<lambda>p. p \<noteq> [] \<and> p \<noteq> ''.'') (path_split [] s)"

text \<open>\<open>as_posix\<close> of a relative path.\<close>

definition as_posix :: "string list \<Rightarrow> string" where
  "as_posix ps = (if ps = [] then ''.'' else join_with [SLASH] ps)"

fun resolve_from :: "string list \<Rightarrow> string list \<Rightarrow> string list" where
  "resolve_from done [] = rev done"
| "resolve_from done (p # ps) =
     (if p = ''..'' then resolve_from (tl done) ps else resolve_from (p # done) ps)"

definition resolve_path :: "string list \<Rightarrow> string list" where
  "resolve_path ps = resolve_from [] ps"

definition confined_under :: "string list \<Rightarrow> string list \<Rightarrow> string list option" where
  "confined_under dir path =
     (let resolved_root = resolve_path dir; resolved_path = resolve_path path
      in if resolved_path = resolved_root
            \<or> take (length resolved_root) resolved_path \<noteq> resolved_root
         then None else Some resolved_path)"

text \<open>\<open>audio_dir / filename\<close>: an absolute right operand replaces the left one.\<close>

definition path_join :: "string list \<Rightarrow> string \<Rightarrow> string list" where
  "path_join dir filename =
     (if is_absolute filename then path_parts filename else dir @ path_parts filename)"

definition resolved_within_root :: "string list \<Rightarrow> string \<Rightarrow> string list option" where
  "resolved_within_root audio_dir filename =
     confined_under audio_dir (path_join audio_dir filename)"

definition require_canonical_audio_filename :: "string \<Rightarrow> audio_path_error + unit" where
  "require_canonical_audio_filename filename =
     (if is_absolute filename \<or> ''..'' \<in> set (path_parts filename)
         \<or> as_posix (path_parts filename) \<noteq> filename
      then Inl Audio_Path_Rejected else Inr ())"

definition canonical_audio_filename :: "string list \<Rightarrow> string \<Rightarrow> string option" where
  "canonical_audio_filename audio_dir filename =
     map_option (\<lambda>path. as_posix (drop (length (resolve_path audio_dir)) path))
       (resolved_within_root audio_dir filename)"

definition resolve_audio_path ::
    "string list \<Rightarrow> audio_fs \<Rightarrow> string \<Rightarrow> audio_path_error + string list" where
  "resolve_audio_path audio_dir fs relative_path =
     (case resolved_within_root audio_dir relative_path of
        None \<Rightarrow> Inl Audio_Path_Rejected
      | Some path \<Rightarrow>
          if map_of fs path = None then Inl Audio_File_Not_Found else Inr path)"

definition canonical_audio_path :: "string list \<Rightarrow> string \<Rightarrow> audio_path_error + string list" where
  "canonical_audio_path audio_dir filename =
     (case resolved_within_root audio_dir filename of
        None \<Rightarrow> Inl Audio_Path_Rejected
      | Some path \<Rightarrow>
          if as_posix (drop (length (resolve_path audio_dir)) path) \<noteq> filename
          then Inl Audio_Path_Rejected else Inr path)"

definition require_existing_audio_path ::
    "audio_fs \<Rightarrow> string list \<Rightarrow> audio_path_error + string list" where
  "require_existing_audio_path fs path =
     (if map_of fs path = None then Inl Audio_File_Not_Found else Inr path)"

text \<open>\<open>read_audio_duration\<close>: what mutagen reports, if it is positive.\<close>

definition read_audio_duration :: "audio_entry \<Rightarrow> rat option" where
  "read_audio_duration f =
     (case a_length f of None \<Rightarrow> None | Some l \<Rightarrow> if 0 < l then Some l else None)"

subsection \<open>Parts\<close>

definition clean_part :: "string \<Rightarrow> bool" where
  "clean_part p \<longleftrightarrow> p \<noteq> [] \<and> p \<noteq> ''.'' \<and> SLASH \<notin> set p"

lemma path_split_no_slash: "SLASH \<notin> set cur \<Longrightarrow> p \<in> set (path_split cur s) \<Longrightarrow> SLASH \<notin> set p"
proof (induction s arbitrary: cur)
  case (Cons c s)
  then show ?case
    using Cons.IH [of "[]"] Cons.IH [of "cur @ [c]"] by (auto split: if_splits)
qed simp

lemma path_parts_clean: "p \<in> set (path_parts s) \<Longrightarrow> clean_part p"
  using path_split_no_slash [of "[]" p s] by (auto simp: path_parts_def clean_part_def)

lemma resolve_from_clean:
  "\<forall>p \<in> set done \<union> set ps. clean_part p \<Longrightarrow> ''..'' \<notin> set done \<Longrightarrow> p \<in> set (resolve_from done ps) \<Longrightarrow>
     clean_part p \<and> p \<noteq> ''..''"
proof (induction ps arbitrary: "done")
  case Nil
  then show ?case by auto
next
  case (Cons q ps)
  have "set (tl done) \<subseteq> set done" by (cases "done") auto
  then show ?case
    using Cons.IH [of "tl done"] Cons.IH [of "q # done"] Cons.prems by (auto split: if_splits)
qed

lemma resolve_from_plain: "''..'' \<notin> set ps \<Longrightarrow> resolve_from done ps = rev done @ ps"
  by (induction ps arbitrary: "done") auto

lemma resolve_path_plain: "''..'' \<notin> set ps \<Longrightarrow> resolve_path ps = ps"
  by (simp add: resolve_path_def resolve_from_plain)

lemma resolve_from_append:
  "resolve_from done (ps @ qs) = resolve_from (rev (resolve_from done ps)) qs"
  by (induction ps arbitrary: "done") auto

lemma resolve_path_append:
  "''..'' \<notin> set qs \<Longrightarrow> resolve_path (ps @ qs) = resolve_path ps @ qs"
  by (simp add: resolve_path_def resolve_from_append resolve_from_plain)

lemma path_split_part: "SLASH \<notin> set p \<Longrightarrow> path_split cur (p @ SLASH # s) = (cur @ p) # path_split [] s"
  by (induction p arbitrary: cur) auto

lemma path_split_last: "SLASH \<notin> set p \<Longrightarrow> path_split cur p = [cur @ p]"
  by (induction p arbitrary: cur) auto

lemma path_parts_join:
  "ps \<noteq> [] \<Longrightarrow> \<forall>p \<in> set ps. clean_part p \<Longrightarrow> path_parts (join_with [SLASH] ps) = ps"
proof (induction ps)
  case (Cons p ps)
  then have p: "p \<noteq> []" "p \<noteq> ''.''" "SLASH \<notin> set p" by (simp_all add: clean_part_def)
  show ?case
  proof (cases ps)
    case Nil
    then show ?thesis using p by (simp add: path_parts_def path_split_last)
  next
    case (Cons q qs)
    then have "path_parts (join_with [SLASH] ps) = ps" using Cons.IH Cons.prems by simp
    then show ?thesis using p Cons by (simp add: path_parts_def path_split_part)
  qed
qed simp

lemma join_not_absolute:
  assumes "ps \<noteq> []" and "\<forall>p \<in> set ps. clean_part p"
  shows "\<not> is_absolute (join_with [SLASH] ps)"
proof -
  obtain p qs where ps: "ps = p # qs" using assms(1) by (cases ps) auto
  then obtain c cs where "p = c # cs" "c \<noteq> SLASH"
    using assms(2) by (cases p) (auto simp: clean_part_def)
  then show ?thesis by (cases qs) (simp_all add: ps is_absolute_def startswith_def)
qed

lemma join_not_dot:
  assumes "ps \<noteq> []" and "\<forall>p \<in> set ps. clean_part p"
  shows "join_with [SLASH] ps \<noteq> ''.''"
proof
  assume dot: "join_with [SLASH] ps = ''.''"
  have "path_parts ''.'' = []" by (simp add: path_parts_def SLASH_def)
  then show False using path_parts_join [OF assms] assms(1) dot by simp
qed

lemma resolve_no_dotdot: "''..'' \<notin> set (resolve_path ps)"
proof -
  have "''..'' \<notin> set done \<Longrightarrow> ''..'' \<notin> set (resolve_from done ps)" for "done"
  proof (induction ps arbitrary: "done")
    case (Cons q ps)
    have "set (tl done) \<subseteq> set done" by (cases "done") auto
    then show ?case using Cons.IH [of "tl done"] Cons.IH [of "q # done"] Cons.prems by auto
  qed simp
  then show ?thesis by (simp add: resolve_path_def)
qed

lemma confined_under_Some:
  "confined_under dir path = Some r \<Longrightarrow>
     r = resolve_path path \<and> (\<exists>below. below \<noteq> [] \<and> r = resolve_path dir @ below)"
  by (auto simp: confined_under_def Let_def split: if_splits)
    (metis append_take_drop_id append_Nil2)

text \<open>C34: A path that \<open>resolve_audio_path\<close> returns lies strictly below the resolved audio
  directory, contains no \<open>..\<close> component and names an existing entry, whatever string was
  stored.\<close>

theorem resolve_audio_path_confined:
  assumes "resolve_audio_path audio_dir fs relative_path = Inr path"
  shows "(\<exists>below. below \<noteq> [] \<and> path = resolve_path audio_dir @ below)
    \<and> ''..'' \<notin> set path \<and> map_of fs path \<noteq> None"
proof -
  have within: "resolved_within_root audio_dir relative_path = Some path" "map_of fs path \<noteq> None"
    using assms by (auto simp: resolve_audio_path_def split: option.splits if_splits)
  then show ?thesis
    using confined_under_Some resolve_no_dotdot unfolding resolved_within_root_def by metis
qed

lemma resolve_audio_path_confined_witness:
  "let fs = [([''data'', ''a'', ''x.mp3''], \<lparr>a_is_file = True, a_readable = True, a_size = 3,
                a_mtime_ns = 1, a_length = Some 2\<rparr>)]
   in resolve_audio_path [''data''] fs ''b/../a//x.mp3'' = Inr [''data'', ''a'', ''x.mp3'']
      \<and> ''..'' \<notin> set [''data'', ''a'', ''x.mp3'']"
proof -
  let ?fs = "[([''data'', ''a'', ''x.mp3''], \<lparr>a_is_file = True, a_readable = True, a_size = 3,
                a_mtime_ns = 1, a_length = Some 2\<rparr>)]"
  have "resolve_audio_path [''data''] ?fs ''b/../a//x.mp3'' = Inr [''data'', ''a'', ''x.mp3'']"
    by (simp add: resolve_audio_path_def resolved_within_root_def confined_under_def Let_def
        resolve_path_def path_join_def is_absolute_def startswith_def path_parts_def SLASH_def)
  then show ?thesis using resolve_audio_path_confined unfolding Let_def by blast
qed

subsection \<open>Canonical names\<close>

lemma path_join_clean:
  "\<forall>p \<in> set audio_dir. clean_part p \<Longrightarrow> p \<in> set (path_join audio_dir f) \<Longrightarrow> clean_part p"
  using path_parts_clean by (auto simp: path_join_def split: if_splits)

lemma resolved_below:
  assumes "\<forall>p \<in> set audio_dir. clean_part p" and "resolved_within_root audio_dir f = Some path"
  obtains below where "path = resolve_path audio_dir @ below" "below \<noteq> []"
    "\<forall>p \<in> set below. clean_part p" "''..'' \<notin> set below"
proof -
  from confined_under_Some [OF assms(2) [unfolded resolved_within_root_def]]
  obtain below where b: "path = resolve_path audio_dir @ below" "below \<noteq> []"
      "path = resolve_path (path_join audio_dir f)"
    by blast
  have "clean_part p \<and> p \<noteq> ''..''" if "p \<in> set path" for p
    using that resolve_from_clean [of "[]" "path_join audio_dir f" p] path_join_clean [OF assms(1)]
    by (auto simp: b(3) resolve_path_def)
  then show thesis using that b(1,2) by auto
qed

lemma canonical_name_resolves:
  assumes "below \<noteq> []" and "\<forall>p \<in> set below. clean_part p" and "''..'' \<notin> set below"
  shows "path_parts (as_posix below) = below"
    and "resolved_within_root audio_dir (as_posix below) = Some (resolve_path audio_dir @ below)"
proof -
  show parts: "path_parts (as_posix below) = below"
    using assms by (simp add: as_posix_def path_parts_join)
  have "\<not> is_absolute (as_posix below)" using assms join_not_absolute by (simp add: as_posix_def)
  then show "resolved_within_root audio_dir (as_posix below) = Some (resolve_path audio_dir @ below)"
    using assms(1,3) parts
    by (simp add: resolved_within_root_def path_join_def confined_under_def resolve_path_append)
qed

lemma canonical_audio_path_below:
  assumes "below \<noteq> []" and "\<forall>p \<in> set below. clean_part p" and "''..'' \<notin> set below"
  shows "canonical_audio_path audio_dir (as_posix below) = Inr (resolve_path audio_dir @ below)"
    and "require_canonical_audio_filename (as_posix below) = Inr ()"
    and "as_posix below \<noteq> ''.''"
  using canonical_name_resolves [OF assms] assms join_not_absolute [of below] join_not_dot [of below]
  by (simp_all add: canonical_audio_path_def require_canonical_audio_filename_def as_posix_def)

text \<open>The lexical check \<open>require_canonical_audio_filename\<close>, which does not look at the file
  system, accepts exactly the names \<open>canonical_audio_path\<close> accepts, the name of the directory
  itself apart; and the name \<open>canonical_audio_filename\<close> gives is accepted by both and leads to the
  path its argument resolves to.\<close>

theorem canonical_audio_names:
  assumes "\<forall>p \<in> set audio_dir. clean_part p"
  shows "((\<exists>path. canonical_audio_path audio_dir f = Inr path) \<longleftrightarrow>
      require_canonical_audio_filename f = Inr () \<and> f \<noteq> ''.'')
    \<and> (\<forall>g. canonical_audio_filename audio_dir f = Some g \<longrightarrow>
      require_canonical_audio_filename g = Inr () \<and>
      (\<exists>path. resolved_within_root audio_dir f = Some path
         \<and> canonical_audio_path audio_dir g = Inr path))"
proof -
  have "(\<exists>path. canonical_audio_path audio_dir f = Inr path) \<longleftrightarrow>
      require_canonical_audio_filename f = Inr () \<and> f \<noteq> ''.''"
  proof
    assume "\<exists>path. canonical_audio_path audio_dir f = Inr path"
    then obtain path where p: "resolved_within_root audio_dir f = Some path"
        "as_posix (drop (length (resolve_path audio_dir)) path) = f"
      by (auto simp: canonical_audio_path_def split: option.splits if_splits)
    from resolved_below [OF assms p(1)] obtain below where
      "path = resolve_path audio_dir @ below" "below \<noteq> []" "\<forall>p \<in> set below. clean_part p"
      "''..'' \<notin> set below" by blast
    with p(2) canonical_audio_path_below(2,3) [of below]
    show "require_canonical_audio_filename f = Inr () \<and> f \<noteq> ''.''" by auto
  next
    assume ok: "require_canonical_audio_filename f = Inr () \<and> f \<noteq> ''.''"
    then have f: "''..'' \<notin> set (path_parts f)" "as_posix (path_parts f) = f"
      by (auto simp: require_canonical_audio_filename_def split: if_splits)
    then have "path_parts f \<noteq> []" using ok by (auto simp: as_posix_def)
    with canonical_audio_path_below(1) [of "path_parts f" audio_dir] f path_parts_clean
    show "\<exists>path. canonical_audio_path audio_dir f = Inr path" by auto
  qed
  moreover
  have "require_canonical_audio_filename g = Inr () \<and>
      (\<exists>path. resolved_within_root audio_dir f = Some path
         \<and> canonical_audio_path audio_dir g = Inr path)"
    if "canonical_audio_filename audio_dir f = Some g" for g
  proof -
    from that obtain path where p: "resolved_within_root audio_dir f = Some path"
        "as_posix (drop (length (resolve_path audio_dir)) path) = g"
      by (auto simp: canonical_audio_filename_def)
    from resolved_below [OF assms p(1)] obtain below where
      "path = resolve_path audio_dir @ below" "below \<noteq> []" "\<forall>p \<in> set below. clean_part p"
      "''..'' \<notin> set below" by blast
    with p canonical_audio_path_below(1,2) [of below]
    show "require_canonical_audio_filename g = Inr () \<and>
        (\<exists>path. resolved_within_root audio_dir f = Some path
           \<and> canonical_audio_path audio_dir g = Inr path)"
      by auto
  qed
  ultimately show ?thesis by blast
qed

lemma canonical_audio_names_witness:
  "canonical_audio_filename [''data''] ''b/../a//x.mp3'' = Some ''a/x.mp3''
   \<and> clean_part ''data''
   \<and> canonical_audio_path [''data''] ''a/x.mp3'' = Inr [''data'', ''a'', ''x.mp3'']"
proof -
  have name: "canonical_audio_filename [''data''] ''b/../a//x.mp3'' = Some ''a/x.mp3''"
    and path: "resolved_within_root [''data''] ''b/../a//x.mp3'' = Some [''data'', ''a'', ''x.mp3'']"
    by (simp_all add: canonical_audio_filename_def resolved_within_root_def confined_under_def Let_def
        resolve_path_def path_join_def is_absolute_def startswith_def path_parts_def SLASH_def
        as_posix_def)
  have clean: "\<forall>p \<in> set [''data'']. clean_part p" by (simp add: clean_part_def SLASH_def)
  from canonical_audio_names [OF clean, of "''b/../a//x.mp3''"] path name clean show ?thesis by auto
qed

end
