(* ===== verification/Song_Types.thy ===== *)
theory Song_Types
  imports Prelude
begin

text \<open>
  The rows of \<open>db/models.py\<close> that several components read: albums, songs, versions and
  generations (takes), with the columns those components use.  \<open>is_playable_take\<close> is the
  predicate of \<open>db/queries/sharing.py\<close> that they share.
\<close>

record album_info =
  al_title :: string
  al_artist :: string

record song_info =
  so_id :: string
  so_title :: string
  so_track_number :: int
  so_album :: "album_info option"

record version_info =
  ve_lyrics :: "string option"

record generation =
  g_id :: string
  g_song_id :: string
  g_song :: "song_info option"
  g_version_id :: "string option"
  g_version :: "version_info option"
  g_number :: int
  g_mp3_path :: string
  g_seed :: "int option"
  g_model_mode :: string
  g_is_archived :: bool
  g_is_picked :: bool
  g_is_kept :: bool
  g_created_at :: "timestamp option"

definition is_playable_take :: "'a generation_scheme \<Rightarrow> bool" where
  "is_playable_take gen \<longleftrightarrow> g_mp3_path gen \<noteq> '''' \<and> \<not> g_is_archived gen"

definition has_playable_pick :: "'a generation_scheme list \<Rightarrow> bool" where
  "has_playable_pick gens \<longleftrightarrow> list_ex (\<lambda>gen. g_is_picked gen \<and> is_playable_take gen) gens"

end
