(* ===== verification/Queue_Build.thy ===== *)
theory Queue_Build
  imports Queue_Cache Audio_Paths Song_Types
begin

text \<open>
  Building a queue stream (\<open>queue_streams.py\<close>): the sources, admission (what may be
  concatenated, how many, how long), the track list, the content hash, and the build that writes
  the snapshot's files.  SHA-256 is a parameter; so is \<open>format(x, '.3f')\<close>.  What ffmpeg does with
  the files is an input (\<open>ffmpeg_outcome\<close>), as are the clock, the uuid and the sizes of the
  written files (\<open>build_env\<close>).
\<close>

record queue_source =
  s_key :: string
  s_index :: nat
  s_entry_id :: "string option"
  s_generation :: generation
  s_audio_url :: string

record prepared_source =
  p_source :: queue_source
  p_audio_path :: "string list"
  p_duration :: rat
  p_size :: nat
  p_mtime_ns :: int

record queue_admission =
  prepared_sources :: "prepared_source list"
  windowed_by_count :: bool

datatype queue_error =
    Queue_Http http_exception
  | Queue_Audio_Path audio_path_error
  | Queue_Runtime string

definition track_source_from_generation ::
    "generation \<Rightarrow> string \<Rightarrow> nat \<Rightarrow> string option \<Rightarrow> string \<Rightarrow> queue_source" where
  "track_source_from_generation gen key index entry_id audio_url =
     \<lparr>s_key = key, s_index = index, s_entry_id = entry_id, s_generation = gen,
      s_audio_url = audio_url\<rparr>"

definition generation_version_lyrics :: "generation \<Rightarrow> queue_error + string option" where
  "generation_version_lyrics gen =
     (if g_version_id gen \<in> {None, Some ''''} then Inr None
      else (case g_version gen of
              None \<Rightarrow> Inl (Queue_Runtime (''Generation '' @ g_id gen @ '' references version ''
                        @ the (g_version_id gen) @ '' which is not loaded''))
            | Some v \<Rightarrow> if ve_lyrics v \<in> {None, Some ''''} then Inr None else Inr (ve_lyrics v)))"

subsection \<open>Admission\<close>

definition QUEUE_STREAM_MAX_TRACKS :: nat where
  "QUEUE_STREAM_MAX_TRACKS = 200"

definition QUEUE_STREAM_MAX_DURATION_SECONDS :: rat where
  "QUEUE_STREAM_MAX_DURATION_SECONDS = 60 * 60 * 6"

definition queue_stream_ffmpeg_timeout_seconds :: "rat \<Rightarrow> int" where
  "queue_stream_ffmpeg_timeout_seconds duration_seconds = \<lceil>duration_seconds / 100\<rceil> + 120"

definition FFMPEG_TIMEOUT_SECONDS :: int where
  "FFMPEG_TIMEOUT_SECONDS = queue_stream_ffmpeg_timeout_seconds QUEUE_STREAM_MAX_DURATION_SECONDS"

definition queue_stream_duration_fits_ffmpeg_timeout :: "rat \<Rightarrow> bool" where
  "queue_stream_duration_fits_ffmpeg_timeout duration_seconds \<longleftrightarrow>
     queue_stream_ffmpeg_timeout_seconds duration_seconds \<le> FFMPEG_TIMEOUT_SECONDS"

definition probe_audio_duration :: "audio_entry \<Rightarrow> http_exception + rat" where
  "probe_audio_duration f =
     (case read_audio_duration f of
        None \<Rightarrow> Inl (HTTPException 422 ''Could not read audio duration'')
      | Some d \<Rightarrow> Inr d)"

text \<open>The loop of \<open>prepare_queue_stream_admission\<close>.  A file that is there when the path is
  resolved is there when it is read: the file system does not change during admission.\<close>

fun prepare_each ::
    "string list \<Rightarrow> audio_fs \<Rightarrow> queue_source list \<Rightarrow> prepared_source list \<Rightarrow> rat
     \<Rightarrow> queue_error + prepared_source list \<times> rat" where
  "prepare_each audio_dir fs [] prepared duration_sum = Inr (prepared, duration_sum)"
| "prepare_each audio_dir fs (source # sources) prepared duration_sum =
     (let gen = s_generation source
      in if g_mp3_path gen = '''' then
           Inl (Queue_Http (HTTPException 422 ''Queue contains a generation without audio''))
         else (case resolve_audio_path audio_dir fs (g_mp3_path gen) of
                 Inl e \<Rightarrow> Inl (Queue_Audio_Path e)
               | Inr audio_path \<Rightarrow>
                   (case map_of fs audio_path of
                      None \<Rightarrow> Inl (Queue_Http (HTTPException 404 ''Audio file not found''))
                    | Some f \<Rightarrow>
                        (case probe_audio_duration f of
                           Inl e \<Rightarrow> Inl (Queue_Http e)
                         | Inr duration \<Rightarrow>
                             if QUEUE_STREAM_MAX_DURATION_SECONDS < duration_sum + duration then
                               Inl (Queue_Http (HTTPException 422
                                 ''Queue duration exceeds the maximum stream duration''))
                             else prepare_each audio_dir fs sources
                                    (prepared @ [\<lparr>p_source = source, p_audio_path = audio_path,
                                       p_duration = duration, p_size = a_size f,
                                       p_mtime_ns = a_mtime_ns f\<rparr>])
                                    (duration_sum + duration)))))"

definition prepare_queue_stream_admission ::
    "string list \<Rightarrow> audio_fs \<Rightarrow> queue_source list \<Rightarrow> queue_error + queue_admission" where
  "prepare_queue_stream_admission audio_dir fs sources =
     (if sources = [] then Inl (Queue_Http (HTTPException 422 ''Queue has no playable tracks''))
      else (case prepare_each audio_dir fs (take QUEUE_STREAM_MAX_TRACKS sources) [] 0 of
              Inl e \<Rightarrow> Inl e
            | Inr (prepared, duration_sum) \<Rightarrow>
                if \<not> queue_stream_duration_fits_ffmpeg_timeout duration_sum then
                  Inl (Queue_Runtime ''Queue stream duration exceeds the ffmpeg timeout budget'')
                else Inr \<lparr>prepared_sources = prepared,
                          windowed_by_count = QUEUE_STREAM_MAX_TRACKS < length sources\<rparr>))"

subsection \<open>Tracks\<close>

text \<open>\<open>round(x, 3)\<close>: to the nearest thousandth, ties to the even one.\<close>

definition round_half_even :: "rat \<Rightarrow> int" where
  "round_half_even y =
     (let n = \<lfloor>y\<rfloor>; r = y - of_int n
      in if r < 1 / 2 then n else if 1 / 2 < r then n + 1 else if even n then n else n + 1)"

definition round3 :: "rat \<Rightarrow> rat" where
  "round3 x = of_int (round_half_even (x * 1000)) / 1000"

definition track_response ::
    "queue_source \<Rightarrow> generation \<Rightarrow> rat \<Rightarrow> rat \<Rightarrow> rat \<Rightarrow> queue_error + queue_track" where
  "track_response source gen duration start end =
     (case generation_version_lyrics gen of
        Inl e \<Rightarrow> Inl e
      | Inr lyrics \<Rightarrow>
          (let album = (case g_song gen of None \<Rightarrow> None | Some song \<Rightarrow> so_album song)
           in Inr \<lparr>q_key = s_key source, q_index = s_index source, q_entry_id = s_entry_id source,
               q_generation_id = g_id gen,
               q_song_id = (case g_song gen of None \<Rightarrow> '''' | Some song \<Rightarrow> so_id song),
               q_song_title = (case g_song gen of None \<Rightarrow> '''' | Some song \<Rightarrow> so_title song),
               q_artist = (case album of None \<Rightarrow> '''' | Some a \<Rightarrow> al_artist a),
               q_album_title = (case album of None \<Rightarrow> '''' | Some a \<Rightarrow> al_title a),
               q_lyrics = lyrics, q_generation_number = g_number gen, q_mp3_path = g_mp3_path gen,
               q_audio_url = s_audio_url source, q_seed = g_seed gen, q_model_mode = g_model_mode gen,
               q_duration = round3 duration, q_start_offset = round3 start,
               q_end_offset = round3 end\<rparr>))"

fun build_tracks ::
    "prepared_source list \<Rightarrow> queue_track list \<Rightarrow> rat \<Rightarrow> queue_error + queue_track list \<times> rat" where
  "build_tracks [] tracks offset = Inr (tracks, offset)"
| "build_tracks (p # ps) tracks offset =
     (case track_response (p_source p) (s_generation (p_source p)) (p_duration p) offset
             (offset + p_duration p) of
        Inl e \<Rightarrow> Inl e
      | Inr track \<Rightarrow> build_tracks ps (tracks @ [track]) (offset + p_duration p))"

definition public_track :: "queue_track \<Rightarrow> queue_track" where
  "public_track t = t\<lparr>q_lyrics := None, q_seed := None, q_mp3_path := ''''\<rparr>"

definition public_queue_stream_manifest :: "manifest_response \<Rightarrow> manifest_response" where
  "public_queue_stream_manifest snapshot =
     snapshot\<lparr>r_tracks := map public_track (r_tracks snapshot)\<rparr>"

subsection \<open>Content hash\<close>

definition NUL :: char where "NUL = CHR 0x00"
definition UNIT_SEP :: char where "UNIT_SEP = CHR 0x1F"

definition show_int :: "int \<Rightarrow> string" where
  "show_int n = (if n < 0 then CHR ''-'' # show_nat (nat (- n)) else show_nat (nat n))"

definition scope_value :: "snapshot_scope \<Rightarrow> string" where
  "scope_value s =
     (case s of Scope_Auth \<Rightarrow> ''auth'' | Scope_Shared_Playlist \<Rightarrow> ''shared-playlist''
      | Scope_Shared_Album \<Rightarrow> ''shared-album'')"

definition hash_parts :: "(rat \<Rightarrow> string) \<Rightarrow> prepared_source \<Rightarrow> string list" where
  "hash_parts format_3f p =
     (let source = p_source p; gen = s_generation source
      in [show_nat (s_index source), s_key source,
          (case s_entry_id source of None \<Rightarrow> '''' | Some e \<Rightarrow> e), g_id gen,
          (case g_version_id gen of None \<Rightarrow> '''' | Some v \<Rightarrow> v), g_mp3_path gen,
          s_audio_url source, show_nat (p_size p), show_int (p_mtime_ns p),
          format_3f (p_duration p)])"

text \<open>The bytes fed to the hash, in order.\<close>

definition hash_input ::
    "(rat \<Rightarrow> string) \<Rightarrow> snapshot_scope \<Rightarrow> string \<Rightarrow> prepared_source list \<Rightarrow> bool \<Rightarrow> string" where
  "hash_input format_3f scope scope_id prepared windowed =
     scope_value scope @ [NUL] @ scope_id @ [NUL] @ (if windowed then ''True'' else ''False'')
     @ concat (map (\<lambda>p. [NUL] @ join_with [UNIT_SEP] (hash_parts format_3f p)) prepared)"

definition content_hash ::
    "(string \<Rightarrow> string) \<Rightarrow> (rat \<Rightarrow> string) \<Rightarrow> snapshot_scope \<Rightarrow> string \<Rightarrow> prepared_source list
     \<Rightarrow> bool \<Rightarrow> string" where
  "content_hash sha256_hex format_3f scope scope_id prepared windowed =
     sha256_hex (hash_input format_3f scope scope_id prepared windowed)"

subsection \<open>The build\<close>

fun escape_quotes :: "string \<Rightarrow> string" where
  "escape_quotes [] = []"
| "escape_quotes (c # cs) =
     (if c = CHR 0x27 then [CHR 0x27, CHR 0x5C, CHR 0x27, CHR 0x27] else [c]) @ escape_quotes cs"

definition path_text :: "string list \<Rightarrow> string" where
  "path_text ps = SLASH # join_with [SLASH] ps"

definition concat_text :: "string list list \<Rightarrow> string" where
  "concat_text audio_paths =
     join_with [LF] (map (\<lambda>path. ''file '' @ [CHR 0x27] @ escape_quotes (path_text path)
       @ [CHR 0x27]) audio_paths) @ [LF]"

datatype ffmpeg_outcome =
    Ffmpeg_Missing
  | Ffmpeg_Timed_Out "nat option"
  | Ffmpeg_Failed "nat option"
  | Ffmpeg_Encoded nat

record build_env =
  be_snapshot_id :: string
  be_ffmpeg :: ffmpeg_outcome
  be_encoded_at :: timestamp
  be_saved_at :: timestamp
  be_manifest_bytes :: nat

definition written_file :: "timestamp \<Rightarrow> nat \<Rightarrow> cache_file" where
  "written_file mtime bytes = \<lparr>f_mtime = mtime, f_size = bytes, f_content = Other_Bytes\<rparr>"

definition write_partial ::
    "string \<Rightarrow> timestamp \<Rightarrow> nat option \<Rightarrow> stream_files \<Rightarrow> stream_files" where
  "write_partial name mtime bytes d =
     (case bytes of None \<Rightarrow> d | Some n \<Rightarrow> dict_set name (written_file mtime n) d)"

text \<open>\<open>run_ffmpeg_concat\<close>; an attempt that fails may have written a part of its output.\<close>

definition run_ffmpeg_concat ::
    "ffmpeg_outcome \<Rightarrow> timestamp \<Rightarrow> string \<Rightarrow> stream_files
     \<Rightarrow> (http_exception + unit) \<times> stream_files" where
  "run_ffmpeg_concat outcome mtime output d =
     (case outcome of
        Ffmpeg_Missing \<Rightarrow> (Inl (HTTPException 503 ''ffmpeg is not available''), d)
      | Ffmpeg_Timed_Out part \<Rightarrow>
          (Inl (HTTPException 504 ''Queue stream build timed out''),
           dict_del output (write_partial output mtime part d))
      | Ffmpeg_Failed part \<Rightarrow>
          (Inl (HTTPException 422 ''Could not build queue stream''),
           dict_del output (write_partial output mtime part d))
      | Ffmpeg_Encoded bytes \<Rightarrow> (Inr (), dict_set output (written_file mtime bytes) d))"

definition built_manifest ::
    "build_env \<Rightarrow> snapshot_scope \<Rightarrow> string \<Rightarrow> string \<Rightarrow> rat \<Rightarrow> bool \<Rightarrow> queue_track list
     \<Rightarrow> queue_manifest" where
  "built_manifest env scope scope_id hash offset windowed tracks =
     \<lparr>m_snapshot_id = be_snapshot_id env, m_scope = scope, m_scope_id = scope_id,
      m_content_hash = hash, m_expires_at = be_saved_at env + QUEUE_STREAM_TTL,
      m_total_duration = round3 offset, m_tracks = tracks, m_windowed = windowed\<rparr>"

definition build_new_snapshot ::
    "build_env \<Rightarrow> prepared_source list \<Rightarrow> snapshot_scope \<Rightarrow> string \<Rightarrow> string \<Rightarrow> string \<Rightarrow> bool
     \<Rightarrow> stream_files \<Rightarrow> (queue_error + manifest_response) \<times> stream_files" where
  "build_new_snapshot env prepared scope scope_id stream_url hash windowed d =
     (case build_tracks prepared [] 0 of
        Inl e \<Rightarrow> (Inl e, d)
      | Inr (tracks, offset) \<Rightarrow>
          (let snapshot_id = be_snapshot_id env;
               output = snapshot_id @ ''.mp3'';
               output_tmp = snapshot_id @ ''.tmp.mp3'';
               concat_name = snapshot_id @ ''.concat.txt'';
               d1 = dict_set concat_name (written_file (be_encoded_at env)
                      (length (concat_text (map p_audio_path prepared)))) d
           in case run_ffmpeg_concat (be_ffmpeg env) (be_encoded_at env) output_tmp d1 of
                (Inl e, d2) \<Rightarrow> (Inl (Queue_Http e), dict_del output_tmp (dict_del concat_name d2))
              | (Inr _, d2) \<Rightarrow>
                  (let d3 = dict_del output_tmp (dict_del concat_name
                              (dict_rename output_tmp output d2));
                       manifest = built_manifest env scope scope_id hash offset windowed tracks;
                       d4 = save_manifest manifest (snapshot_id @ ''.json'') (be_saved_at env)
                              (be_manifest_bytes env) d3;
                       d5 = enforce_cache_quota [snapshot_id] d4
                   in (Inr (manifest_response_of stream_url manifest), d5))))"

text \<open>\<open>build_queue_stream_snapshot\<close>; the lock around its second half is modelled in
  \<open>Build_Lock\<close>.  \<open>now\<close> is the time of the look-up.\<close>

definition build_queue_stream_snapshot ::
    "(string \<Rightarrow> string) \<Rightarrow> (rat \<Rightarrow> string) \<Rightarrow> string list \<Rightarrow> audio_fs \<Rightarrow> timestamp \<Rightarrow> build_env
     \<Rightarrow> queue_source list \<Rightarrow> snapshot_scope \<Rightarrow> string \<Rightarrow> string \<Rightarrow> stream_files
     \<Rightarrow> (queue_error + manifest_response) \<times> stream_files" where
  "build_queue_stream_snapshot sha256_hex format_3f audio_dir fs now env sources scope scope_id
       stream_url d =
     (case prepare_queue_stream_admission audio_dir fs sources of
        Inl e \<Rightarrow> (Inl e, d)
      | Inr admission \<Rightarrow>
          (let prepared = prepared_sources admission; windowed = windowed_by_count admission;
               hash = content_hash sha256_hex format_3f scope scope_id prepared windowed
           in case find_reusable_snapshot now hash stream_url d of
                Inl e \<Rightarrow> (Inl (Queue_Http e), d)
              | Inr (Some reusable) \<Rightarrow> (Inr reusable, d)
              | Inr None \<Rightarrow>
                  build_new_snapshot env prepared scope scope_id stream_url hash windowed d))"

subsection \<open>What admission guarantees\<close>

definition durations :: "prepared_source list \<Rightarrow> rat" where
  "durations ps = sum_list (map p_duration ps)"

definition admitted :: "string list \<Rightarrow> audio_fs \<Rightarrow> prepared_source \<Rightarrow> bool" where
  "admitted audio_dir fs p \<longleftrightarrow> 0 < p_duration p
     \<and> resolve_audio_path audio_dir fs (g_mp3_path (s_generation (p_source p))) = Inr (p_audio_path p)"

lemma prepare_each_Cons:
  assumes "prepare_each audio_dir fs (source # sources) prepared t = Inr r"
  obtains p where "admitted audio_dir fs p" "p_source p = source"
    "t + p_duration p \<le> QUEUE_STREAM_MAX_DURATION_SECONDS"
    "prepare_each audio_dir fs sources (prepared @ [p]) (t + p_duration p) = Inr r"
proof -
  obtain path f d where ok: "resolve_audio_path audio_dir fs (g_mp3_path (s_generation source)) = Inr path"
      "map_of fs path = Some f" "probe_audio_duration f = Inr d"
      "t + d \<le> QUEUE_STREAM_MAX_DURATION_SECONDS"
      "prepare_each audio_dir fs sources (prepared @ [\<lparr>p_source = source, p_audio_path = path,
         p_duration = d, p_size = a_size f, p_mtime_ns = a_mtime_ns f\<rparr>]) (t + d) = Inr r"
    using assms by (auto simp: Let_def not_less split: if_splits sum.splits option.splits)
  have "0 < d" using ok(3)
    by (auto simp: probe_audio_duration_def read_audio_duration_def split: option.splits if_splits)
  then show thesis
    using ok that [of "\<lparr>p_source = source, p_audio_path = path,
         p_duration = d, p_size = a_size f, p_mtime_ns = a_mtime_ns f\<rparr>"]
    by (simp add: admitted_def)
qed

lemma prepare_each_spec:
  "prepare_each audio_dir fs sources prepared t = Inr (result, t') \<Longrightarrow>
     \<exists>new. result = prepared @ new \<and> map p_source new = sources \<and> t' = t + durations new
       \<and> (\<forall>p \<in> set new. admitted audio_dir fs p)
       \<and> (new \<noteq> [] \<longrightarrow> t' \<le> QUEUE_STREAM_MAX_DURATION_SECONDS)"
proof (induction sources arbitrary: prepared t)
  case Nil
  then show ?case by (simp add: durations_def)
next
  case (Cons source sources)
  from prepare_each_Cons [OF Cons.prems] obtain p where p: "admitted audio_dir fs p"
      "p_source p = source" "t + p_duration p \<le> QUEUE_STREAM_MAX_DURATION_SECONDS"
      "prepare_each audio_dir fs sources (prepared @ [p]) (t + p_duration p) = Inr (result, t')"
    by metis
  from Cons.IH [OF p(4)] obtain new where new: "result = (prepared @ [p]) @ new"
      "map p_source new = sources" "t' = t + p_duration p + durations new"
      "\<forall>p \<in> set new. admitted audio_dir fs p"
      "new \<noteq> [] \<longrightarrow> t' \<le> QUEUE_STREAM_MAX_DURATION_SECONDS"
    by blast
  then show ?case using p
    by (intro exI [of _ "p # new"]) (cases "new = []"; auto simp: durations_def)
qed

lemma prepare_each_no_runtime:
  "prepare_each audio_dir fs sources prepared t \<noteq> Inl (Queue_Runtime msg)"
  by (induction sources arbitrary: prepared t)
    (auto simp: Let_def split: sum.splits option.splits)

lemma fits_ffmpeg:
  "t \<le> QUEUE_STREAM_MAX_DURATION_SECONDS \<Longrightarrow> queue_stream_duration_fits_ffmpeg_timeout t"
  by (auto simp: queue_stream_duration_fits_ffmpeg_timeout_def FFMPEG_TIMEOUT_SECONDS_def
      queue_stream_ffmpeg_timeout_seconds_def intro!: ceiling_mono divide_right_mono)

text \<open>Admission.  What \<open>prepare_queue_stream_admission\<close> admits are the first
  \<open>QUEUE_STREAM_MAX_TRACKS\<close> sources in order (\<open>windowed_by_count\<close> says whether any were left out),
  each with a path confined to the audio directory and a positive duration, together no longer
  than six hours and therefore within ffmpeg's time limit; the \<open>RuntimeError\<close> about that limit is
  never raised.\<close>

theorem admission_bounds:
  "(\<forall>adm. prepare_queue_stream_admission audio_dir fs sources = Inr adm \<longrightarrow>
      map p_source (prepared_sources adm) = take QUEUE_STREAM_MAX_TRACKS sources
      \<and> prepared_sources adm \<noteq> [] \<and> length (prepared_sources adm) \<le> QUEUE_STREAM_MAX_TRACKS
      \<and> (windowed_by_count adm \<longleftrightarrow> length (prepared_sources adm) < length sources)
      \<and> (\<forall>p \<in> set (prepared_sources adm). admitted audio_dir fs p)
      \<and> durations (prepared_sources adm) \<le> QUEUE_STREAM_MAX_DURATION_SECONDS
      \<and> queue_stream_ffmpeg_timeout_seconds (durations (prepared_sources adm))
          \<le> FFMPEG_TIMEOUT_SECONDS)
   \<and> (\<forall>msg. prepare_queue_stream_admission audio_dir fs sources \<noteq> Inl (Queue_Runtime msg))"
proof (cases "sources = []")
  case True
  then show ?thesis by (simp add: prepare_queue_stream_admission_def)
next
  case False
  let ?taken = "take QUEUE_STREAM_MAX_TRACKS sources"
  have taken: "?taken \<noteq> []" using False by (simp add: QUEUE_STREAM_MAX_TRACKS_def)
  show ?thesis
  proof (cases "prepare_each audio_dir fs ?taken [] 0")
    case (Inl e)
    then show ?thesis using False prepare_each_no_runtime
      by (auto simp: prepare_queue_stream_admission_def)
  next
    case (Inr r)
    obtain prepared t where r: "r = (prepared, t)" by (cases r)
    from prepare_each_spec [OF Inr [unfolded r]] have p: "map p_source prepared = ?taken"
        "t = durations prepared" "\<forall>p \<in> set prepared. admitted audio_dir fs p"
        "prepared \<noteq> [] \<longrightarrow> t \<le> QUEUE_STREAM_MAX_DURATION_SECONDS"
      by auto
    have "prepared \<noteq> []" using p(1) taken by auto
    moreover have "length prepared = min QUEUE_STREAM_MAX_TRACKS (length sources)"
      using arg_cong [OF p(1), of length] by simp
    ultimately show ?thesis
      using p False fits_ffmpeg [of t] Inr r
      by (auto simp: prepare_queue_stream_admission_def queue_stream_duration_fits_ffmpeg_timeout_def)
  qed
qed

subsection \<open>The track list\<close>

lemma round_half_even_near: "\<bar>of_int (round_half_even y) - y\<bar> \<le> 1 / 2"
proof -
  have "0 \<le> y - of_int \<lfloor>y\<rfloor>" "y - of_int \<lfloor>y\<rfloor> < 1" by linarith+
  then show ?thesis
    unfolding round_half_even_def Let_def abs_if
    by (simp only: of_int_add of_int_1 split: if_split) linarith
qed

lemma round_half_even_mono: "y \<le> z \<Longrightarrow> round_half_even y \<le> round_half_even z"
proof (rule ccontr)
  assume le: "y \<le> z" and "\<not> round_half_even y \<le> round_half_even z"
  then have "of_int (round_half_even z) + 1 \<le> (of_int (round_half_even y) :: rat)" by linarith
  then have "z = y" using round_half_even_near [of y] round_half_even_near [of z] le by linarith
  then show False using \<open>\<not> _\<close> by simp
qed

lemma round3_mono: "y \<le> z \<Longrightarrow> round3 y \<le> round3 z"
  using round_half_even_mono [of "y * 1000" "z * 1000"] by (simp add: round3_def divide_right_mono)

lemma round3_near: "\<bar>round3 y - y\<bar> \<le> 1 / 2000"
  using round_half_even_near [of "y * 1000"] by (auto simp: round3_def abs_if field_simps)

definition track_of :: "prepared_source \<Rightarrow> rat \<Rightarrow> queue_track \<Rightarrow> bool" where
  "track_of p offset t \<longleftrightarrow> q_key t = s_key (p_source p) \<and> q_index t = s_index (p_source p)
     \<and> q_generation_id t = g_id (s_generation (p_source p))
     \<and> q_audio_url t = s_audio_url (p_source p) \<and> q_duration t = round3 (p_duration p)
     \<and> q_start_offset t = round3 offset \<and> q_end_offset t = round3 (offset + p_duration p)"

lemma build_tracks_spec:
  "build_tracks ps tracks offset = Inr (result, total_offset) \<Longrightarrow>
     total_offset = offset + durations ps \<and> (\<exists>new. result = tracks @ new \<and> length new = length ps
       \<and> (\<forall>i < length ps. track_of (ps ! i) (offset + durations (take i ps)) (new ! i)))"
proof (induction ps arbitrary: tracks offset)
  case Nil
  then show ?case by (simp add: durations_def)
next
  case (Cons p ps)
  obtain t where t: "track_response (p_source p) (s_generation (p_source p)) (p_duration p) offset
        (offset + p_duration p) = Inr t"
      "build_tracks ps (tracks @ [t]) (offset + p_duration p) = Inr (result, total_offset)"
    using Cons.prems by (auto split: sum.splits)
  have first: "track_of p offset t"
    using t(1) by (auto simp: track_response_def track_of_def Let_def split: sum.splits)
  from Cons.IH [OF t(2)] obtain new where new: "total_offset = offset + p_duration p + durations ps"
      "result = (tracks @ [t]) @ new" "length new = length ps"
      "\<forall>i < length ps. track_of (ps ! i) (offset + p_duration p + durations (take i ps)) (new ! i)"
    by blast
  have "track_of ((p # ps) ! i) (offset + durations (take i (p # ps))) ((t # new) ! i)"
    if "i < length (p # ps)" for i
    using that first new(4) by (cases i) (auto simp: durations_def add.assoc)
  then show ?case using new by (intro conjI exI [of _ "t # new"]) (simp_all add: durations_def)
qed

lemma durations_take_Suc:
  "i < length ps \<Longrightarrow> durations (take (Suc i) ps) = durations (take i ps) + p_duration (ps ! i)"
  by (simp add: durations_def take_Suc_conv_app_nth)

text \<open>The track list of a build tiles the stream: the first track starts at 0, each track
  starts exactly where the one before it ended (after rounding, too), none ends before it starts,
  the last one ends at the reported total, and a track's printed duration differs from its printed
  extent by at most 1.5 milliseconds.\<close>

theorem tracks_tile_stream:
  assumes "build_tracks ps [] 0 = Inr (tracks, offset)" and "\<forall>p \<in> set ps. 0 < p_duration p"
    and "ps \<noteq> []"
  shows "length tracks = length ps \<and> offset = durations ps
    \<and> q_start_offset (hd tracks) = 0 \<and> q_end_offset (last tracks) = round3 offset
    \<and> (\<forall>i. Suc i < length tracks \<longrightarrow> q_start_offset (tracks ! Suc i) = q_end_offset (tracks ! i))
    \<and> (\<forall>t \<in> set tracks. q_start_offset t \<le> q_end_offset t
         \<and> \<bar>q_duration t - (q_end_offset t - q_start_offset t)\<bar> \<le> 3 / 2000)"
proof -
  from build_tracks_spec [OF assms(1)] have
    offset: "offset = durations ps" and len: "length tracks = length ps"
    and nth: "\<And>i. i < length ps \<Longrightarrow> track_of (ps ! i) (durations (take i ps)) (tracks ! i)"
    by auto
  have next_start: "q_end_offset (tracks ! i) = round3 (durations (take (Suc i) ps))" if "i < length ps" for i
    using nth [OF that] durations_take_Suc [OF that] by (simp add: track_of_def)
  have first: "q_start_offset (hd tracks) = 0"
    using nth [of 0] assms(3) len
    by (cases tracks) (simp_all add: track_of_def durations_def round3_def round_half_even_def)
  obtain n where n: "length ps = Suc n" using assms(3) by (cases ps) auto
  then have "last tracks = tracks ! n" using len by (metis diff_Suc_1 last_conv_nth length_0_conv nat.distinct(1))
  then have last: "q_end_offset (last tracks) = round3 offset"
    using next_start [of n] n offset by simp
  have chain: "q_start_offset (tracks ! Suc i) = q_end_offset (tracks ! i)" if "Suc i < length tracks" for i
    using next_start [of i] nth [of "Suc i"] that len by (simp add: track_of_def)
  have each: "q_start_offset t \<le> q_end_offset t
      \<and> \<bar>q_duration t - (q_end_offset t - q_start_offset t)\<bar> \<le> 3 / 2000" if "t \<in> set tracks" for t
  proof -
    from that obtain i where "i < length tracks" "tracks ! i = t"
      unfolding in_set_conv_nth by blast
    then have i: "i < length ps" "t = tracks ! i" using len by simp_all
    let ?o = "durations (take i ps)" let ?d = "p_duration (ps ! i)"
    have t: "q_duration t = round3 ?d" "q_start_offset t = round3 ?o" "q_end_offset t = round3 (?o + ?d)"
      using nth [OF i(1)] i(2) by (simp_all add: track_of_def)
    have "0 < ?d" using assms(2) i(1) by simp
    then have "round3 ?o \<le> round3 (?o + ?d)" by (intro round3_mono) simp
    moreover have "\<bar>round3 ?d - (round3 (?o + ?d) - round3 ?o)\<bar> \<le> 3 / 2000"
      using round3_near [of ?o] round3_near [of ?d] round3_near [of "?o + ?d"] by linarith
    ultimately show ?thesis unfolding t by blast
  qed
  show ?thesis using len offset first last chain each by blast
qed

definition sample_generation :: generation where
  "sample_generation = \<lparr>g_id = ''g1'', g_song_id = ''s1'', g_song = None, g_version_id = None,
     g_version = None, g_number = 1, g_mp3_path = ''x.mp3'', g_seed = None, g_model_mode = ''m'',
     g_is_archived = False, g_is_picked = False, g_is_kept = False, g_created_at = None\<rparr>"

definition sample_source :: queue_source where
  "sample_source = track_source_from_generation sample_generation ''k'' 0 None ''/audio/x.mp3''"

definition sample_prepared :: prepared_source where
  "sample_prepared = \<lparr>p_source = sample_source, p_audio_path = [''data'', ''x.mp3''],
     p_duration = 5 / 2, p_size = 3, p_mtime_ns = 1\<rparr>"

definition sample_fs :: audio_fs where
  "sample_fs = [([''data'', ''x.mp3''], \<lparr>a_is_file = True, a_readable = True, a_size = 3,
     a_mtime_ns = 1, a_length = Some (5 / 2)\<rparr>)]"

lemma sample_resolves: "resolve_audio_path [''data''] sample_fs ''x.mp3'' = Inr [''data'', ''x.mp3'']"
  by (simp add: sample_fs_def resolve_audio_path_def resolved_within_root_def confined_under_def
      Let_def resolve_path_def path_join_def is_absolute_def startswith_def path_parts_def SLASH_def)

lemma sample_admission:
  "prepare_queue_stream_admission [''data''] sample_fs [sample_source] =
     Inr \<lparr>prepared_sources = [sample_prepared], windowed_by_count = False\<rparr>"
proof -
  have "queue_stream_duration_fits_ffmpeg_timeout (5 / 2)"
    by (rule fits_ffmpeg) (simp add: QUEUE_STREAM_MAX_DURATION_SECONDS_def)
  moreover have "map_of sample_fs [''data'', ''x.mp3''] = Some \<lparr>a_is_file = True, a_readable = True,
      a_size = 3, a_mtime_ns = 1, a_length = Some (5 / 2)\<rparr>"
    by (simp add: sample_fs_def)
  ultimately show ?thesis
    using sample_resolves
    by (simp add: prepare_queue_stream_admission_def QUEUE_STREAM_MAX_TRACKS_def sample_source_def
        sample_prepared_def track_source_from_generation_def sample_generation_def
        probe_audio_duration_def read_audio_duration_def QUEUE_STREAM_MAX_DURATION_SECONDS_def)
qed

lemma admission_bounds_witness:
  "prepare_queue_stream_admission [''data''] sample_fs [sample_source] =
     Inr \<lparr>prepared_sources = [sample_prepared], windowed_by_count = False\<rparr>
   \<and> admitted [''data''] sample_fs sample_prepared"
  using admission_bounds [of "[''data'']" sample_fs "[sample_source]"] sample_admission by simp

lemma sample_tracks: "\<exists>t. build_tracks [sample_prepared] [] 0 = Inr ([t], 5 / 2)"
  by (simp add: sample_prepared_def sample_source_def track_source_from_generation_def
      sample_generation_def track_response_def generation_version_lyrics_def Let_def)

lemma tracks_tile_stream_witness:
  "\<exists>t. build_tracks [sample_prepared] [] 0 = Inr ([t], 5 / 2) \<and> q_start_offset t = 0
     \<and> q_end_offset t = round3 (5 / 2)"
proof -
  obtain t where t: "build_tracks [sample_prepared] [] 0 = Inr ([t], 5 / 2)" using sample_tracks by blast
  moreover have "\<forall>p \<in> set [sample_prepared]. 0 < p_duration p" by (simp add: sample_prepared_def)
  ultimately show ?thesis using tracks_tile_stream [OF t] by simp
qed

subsection \<open>The content hash\<close>

lemma split_unique:
  "x \<notin> set p \<Longrightarrow> x \<notin> set q \<Longrightarrow> p @ x # r = q @ x # s \<Longrightarrow> p = q \<and> r = s"
proof (induction p arbitrary: q)
  case Nil
  then show ?case by (cases q) auto
next
  case (Cons c p)
  then show ?case by (cases q) auto
qed

lemma join_with_inj:
  "join_with [x] ps = join_with [x] qs \<Longrightarrow> ps \<noteq> [] \<Longrightarrow> qs \<noteq> [] \<Longrightarrow> \<forall>p \<in> set ps. x \<notin> set p \<Longrightarrow>
     \<forall>q \<in> set qs. x \<notin> set q \<Longrightarrow> ps = qs"
proof (induction ps arbitrary: qs)
  case (Cons p ps)
  obtain q qs' where qs: "qs = q # qs'" using Cons.prems(3) by (cases qs) auto
  have free: "x \<notin> set p" "x \<notin> set q" using Cons.prems(4,5) qs by simp_all
  show ?case
  proof (cases ps; cases qs')
    fix p' ps' q' qs''
    assume ps: "ps = p' # ps'" and qs': "qs' = q' # qs''"
    then have "p @ x # join_with [x] ps = q @ x # join_with [x] qs'"
      using Cons.prems(1) qs by simp
    from split_unique [OF free this] have "p = q" "join_with [x] ps = join_with [x] qs'" by simp_all
    then show ?thesis using Cons.IH [of qs'] Cons.prems(4,5) ps qs' qs by simp
  next
    fix q' qs''
    assume "ps = []" and "qs' = q' # qs''"
    then have "p = q @ x # join_with [x] qs'" using Cons.prems(1) qs by simp
    then show ?thesis using free by simp
  next
    fix p' ps'
    assume "ps = p' # ps'" and "qs' = []"
    then have "q = p @ x # join_with [x] ps" using Cons.prems(1) qs by simp
    then show ?thesis using free by simp
  qed (use Cons.prems(1) qs in simp)
qed simp

definition hash_frames ::
    "(rat \<Rightarrow> string) \<Rightarrow> snapshot_scope \<Rightarrow> string \<Rightarrow> prepared_source list \<Rightarrow> bool \<Rightarrow> string list" where
  "hash_frames format_3f scope scope_id prepared windowed =
     scope_value scope # scope_id # (if windowed then ''True'' else ''False'')
     # map (\<lambda>p. join_with [UNIT_SEP] (hash_parts format_3f p)) prepared"

lemma join_with_Cons: "join_with sep (p # ps) = p @ concat (map (\<lambda>q. sep @ q) ps)"
  by (induction ps arbitrary: p) auto

lemma hash_input_frames:
  "hash_input format_3f scope scope_id prepared windowed =
     join_with [NUL] (hash_frames format_3f scope scope_id prepared windowed)"
  by (simp add: hash_input_def hash_frames_def join_with_Cons comp_def)

definition unframed :: "string \<Rightarrow> bool" where
  "unframed s \<longleftrightarrow> NUL \<notin> set s \<and> UNIT_SEP \<notin> set s"

lemma join_with_free:
  "c \<notin> set sep \<Longrightarrow> \<forall>p \<in> set ps. c \<notin> set p \<Longrightarrow> c \<notin> set (join_with sep ps)"
  by (induction sep ps rule: join_with.induct) auto

lemma hash_frames_free:
  assumes "unframed scope_id" and "\<forall>p \<in> set prepared. \<forall>part \<in> set (hash_parts format_3f p). unframed part"
  shows "\<forall>f \<in> set (hash_frames format_3f scope scope_id prepared windowed). NUL \<notin> set f"
proof -
  have "NUL \<notin> set (scope_value scope)" by (cases scope) (simp_all add: scope_value_def NUL_def)
  moreover have "NUL \<notin> set (join_with [UNIT_SEP] (hash_parts format_3f p))" if "p \<in> set prepared" for p
    using assms(2) that by (intro join_with_free) (auto simp: unframed_def NUL_def UNIT_SEP_def)
  moreover have "NUL \<notin> set ''True''" "NUL \<notin> set ''False''" by (simp_all add: NUL_def)
  ultimately show ?thesis using assms(1) by (simp add: hash_frames_def unframed_def)
qed

lemma scope_value_inj: "scope_value s = scope_value t \<Longrightarrow> s = t"
  by (cases s; cases t) (simp_all add: scope_value_def)

text \<open>The framing of the content hash is unambiguous: as long as no field contains the two
  separator characters, two requests feed the hash the same bytes only if scope, scope id,
  windowing and, source by source, every hashed field agree.  A snapshot is therefore shared only
  between identical requests, collisions of SHA-256 apart.\<close>

theorem hash_input_injective:
  assumes "hash_input format_3f scope scope_id prepared windowed =
      hash_input format_3f scope' scope_id' prepared' windowed'"
    and "unframed scope_id" and "unframed scope_id'"
    and "\<forall>p \<in> set prepared \<union> set prepared'. \<forall>part \<in> set (hash_parts format_3f p). unframed part"
  shows "scope = scope' \<and> scope_id = scope_id' \<and> windowed = windowed'
    \<and> map (hash_parts format_3f) prepared = map (hash_parts format_3f) prepared'"
proof -
  let ?frames = "hash_frames format_3f scope scope_id prepared windowed"
  let ?frames' = "hash_frames format_3f scope' scope_id' prepared' windowed'"
  have parts: "\<forall>p \<in> set prepared. \<forall>part \<in> set (hash_parts format_3f p). unframed part"
      "\<forall>p \<in> set prepared'. \<forall>part \<in> set (hash_parts format_3f p). unframed part"
    using assms(4) by blast+
  have "?frames \<noteq> []" "?frames' \<noteq> []" by (simp_all add: hash_frames_def)
  from join_with_inj [OF assms(1) [unfolded hash_input_frames] this
      hash_frames_free [OF assms(2) parts(1)] hash_frames_free [OF assms(3) parts(2)]]
  have "?frames = ?frames'" .
  then have same: "scope_value scope = scope_value scope'" "scope_id = scope_id'"
      "(if windowed then ''True'' else ''False'') = (if windowed' then ''True'' else ''False'')"
      "map (\<lambda>p. join_with [UNIT_SEP] (hash_parts format_3f p)) prepared =
       map (\<lambda>p. join_with [UNIT_SEP] (hash_parts format_3f p)) prepared'"
    by (simp_all add: hash_frames_def)
  have "hash_parts format_3f p = hash_parts format_3f q"
    if "p \<in> set prepared" "q \<in> set prepared'"
      "join_with [UNIT_SEP] (hash_parts format_3f p) = join_with [UNIT_SEP] (hash_parts format_3f q)" for p q
  proof (rule join_with_inj [OF that(3)])
    show "hash_parts format_3f p \<noteq> []" "hash_parts format_3f q \<noteq> []"
      by (simp_all add: hash_parts_def Let_def)
    show "\<forall>part \<in> set (hash_parts format_3f p). UNIT_SEP \<notin> set part"
        "\<forall>part \<in> set (hash_parts format_3f q). UNIT_SEP \<notin> set part"
      using parts that(1,2) unfolding unframed_def by blast+
  qed
  then have "map (hash_parts format_3f) prepared = map (hash_parts format_3f) prepared'"
    using same(4) by (auto simp: list_eq_iff_nth_eq)
  then show ?thesis using same scope_value_inj by (auto split: if_splits)
qed

lemma hash_input_injective_witness:
  "unframed ''u'' \<and> list_all unframed (hash_parts (\<lambda>_. ''2.500'') sample_prepared)
   \<and> map (hash_parts (\<lambda>_. ''2.500'')) [sample_prepared] = map (hash_parts (\<lambda>_. ''2.500'')) [sample_prepared]"
proof -
  have u: "unframed ''u''" by (simp add: unframed_def NUL_def UNIT_SEP_def)
  have "show_nat 0 = ''0''" "show_nat 3 = ''3''" "show_int 1 = ''1''"
    unfolding show_int_def by (subst show_nat.simps, code_simp)+
  then have parts: "\<forall>part \<in> set (hash_parts (\<lambda>_. ''2.500'') sample_prepared). unframed part"
    by (simp add: hash_parts_def Let_def sample_prepared_def sample_source_def
        track_source_from_generation_def sample_generation_def unframed_def NUL_def UNIT_SEP_def)
  then have "\<forall>p \<in> set [sample_prepared] \<union> set [sample_prepared].
      \<forall>part \<in> set (hash_parts (\<lambda>_. ''2.500'') p). unframed part" by simp
  from hash_input_injective [OF refl u u this] u parts show ?thesis by (simp add: list_all_iff)
qed

subsection \<open>What a build leaves behind\<close>

definition fresh_snapshot :: "string \<Rightarrow> stream_files \<Rightarrow> bool" where
  "fresh_snapshot i d \<longleftrightarrow> valid_snapshot_id i \<and> i @ ''.json.tmp'' \<notin> set (dict_keys d)
     \<and> (\<forall>name \<in> snapshot_names i. name \<notin> set (dict_keys d))"

lemma fresh_snapshot_get:
  "fresh_snapshot i d \<Longrightarrow> map_of d (i @ ''.json'') = None \<and> map_of d (i @ ''.mp3'') = None
     \<and> map_of d (i @ ''.tmp.mp3'') = None \<and> map_of d (i @ ''.concat.txt'') = None
     \<and> map_of d (i @ ''.json.tmp'') = None"
  by (auto simp: fresh_snapshot_def snapshot_names_def SNAPSHOT_FILE_SUFFIXES_def set_dict_keys)

lemma dict_rename_get:
  "map_of d src = Some f \<Longrightarrow> map_of (dict_rename src dst d) = (map_of d)(src := None, dst \<mapsto> f)"
  by (simp add: dict_rename_def dict_lookup)

lemma save_manifest_get:
  "map_of (save_manifest m name mtime bytes d) = (map_of d)
     (name @ ''.tmp'' := None, name \<mapsto> \<lparr>f_mtime = mtime, f_size = bytes, f_content = Manifest_Text m\<rparr>)"
proof -
  have "name @ ''.tmp'' \<noteq> name" by simp
  then show ?thesis by (auto simp: save_manifest_def Let_def dict_lookup dict_rename_get fun_eq_iff)
qed

definition installed ::
    "build_env \<Rightarrow> queue_manifest \<Rightarrow> nat \<Rightarrow> stream_files \<Rightarrow> string \<Rightarrow> cache_file option" where
  "installed env m bytes d = (map_of d)
     (be_snapshot_id env @ ''.mp3'' \<mapsto> written_file (be_encoded_at env) bytes,
      be_snapshot_id env @ ''.json'' \<mapsto> \<lparr>f_mtime = be_saved_at env, f_size = be_manifest_bytes env,
        f_content = Manifest_Text m\<rparr>)"

lemma build_new_snapshot_ok:
  assumes "build_new_snapshot env prepared scope scope_id stream_url hash windowed d = (Inr r, d')"
    and "fresh_snapshot (be_snapshot_id env) d"
  obtains tracks offset bytes d4 where "build_tracks prepared [] 0 = Inr (tracks, offset)"
    "be_ffmpeg env = Ffmpeg_Encoded bytes"
    "map_of d4 = installed env (built_manifest env scope scope_id hash offset windowed tracks) bytes d"
    "d' = enforce_cache_quota [be_snapshot_id env] d4"
    "r = manifest_response_of stream_url (built_manifest env scope scope_id hash offset windowed tracks)"
proof -
  obtain tracks offset where t: "build_tracks prepared [] 0 = Inr (tracks, offset)"
    using assms(1) by (auto simp: build_new_snapshot_def split: sum.splits)
  obtain bytes where b: "be_ffmpeg env = Ffmpeg_Encoded bytes"
    using assms(1) t by (cases "be_ffmpeg env") (auto simp: build_new_snapshot_def Let_def run_ffmpeg_concat_def)
  let ?i = "be_snapshot_id env"
  let ?m = "built_manifest env scope scope_id hash offset windowed tracks"
  define d2 where "d2 = dict_set (?i @ ''.tmp.mp3'') (written_file (be_encoded_at env) bytes)
    (dict_set (?i @ ''.concat.txt'') (written_file (be_encoded_at env)
       (length (concat_text (map p_audio_path prepared)))) d)"
  define d3 where "d3 = dict_del (?i @ ''.tmp.mp3'') (dict_del (?i @ ''.concat.txt'')
    (dict_rename (?i @ ''.tmp.mp3'') (?i @ ''.mp3'') d2))"
  define d4 where "d4 = save_manifest ?m (?i @ ''.json'') (be_saved_at env) (be_manifest_bytes env) d3"
  have result: "d' = enforce_cache_quota [?i] d4" "r = manifest_response_of stream_url ?m"
    using assms(1) t b
    by (simp_all add: build_new_snapshot_def Let_def run_ffmpeg_concat_def d4_def d3_def d2_def)
  have d3: "map_of d3 = (map_of d)(?i @ ''.mp3'' \<mapsto> written_file (be_encoded_at env) bytes)"
    using fresh_snapshot_get [OF assms(2)]
    by (auto simp: d3_def d2_def dict_lookup dict_rename_get fun_eq_iff)
  have "map_of d4 = installed env ?m bytes d"
    using fresh_snapshot_get [OF assms(2)]
    by (auto simp: d4_def save_manifest_get d3 installed_def fun_eq_iff)
  then show thesis using that t b result by blast
qed

lemma own_name_protected:
  "valid_snapshot_id i \<Longrightarrow> name \<in> snapshot_names i \<Longrightarrow> is_protected [i] name"
  using snapshot_id_of_name by (simp add: is_protected_def)

lemma quota_keeps_own:
  assumes "valid_snapshot_id i" and "name \<in> snapshot_names i"
  shows "map_of (enforce_cache_quota [i] d) name = map_of d name"
  using enforce_cache_quota_filter [of "[i]" d] own_name_protected [OF assms]
  by (auto simp: map_of_filter_fst)

text \<open>The snapshot is served, and another file is as before or was evicted.\<close>

definition serves :: "string \<Rightarrow> queue_manifest \<Rightarrow> stream_files \<Rightarrow> bool" where
  "serves i m d \<longleftrightarrow> load_manifest (i @ ''.json'') d = Some m \<and> i @ ''.mp3'' \<in> set (dict_keys d)"

lemma serves_load:
  "serves i m d \<Longrightarrow> valid_snapshot_id i \<Longrightarrow> now \<le> m_expires_at m \<Longrightarrow>
     load_queue_stream_manifest now i d = (Inr m, d)"
  by (auto simp: serves_def load_queue_stream_manifest_def load_manifest_def set_dict_keys
      split: option.splits file_content.splits)

lemma build_serves:
  assumes "build_new_snapshot env prepared scope scope_id stream_url hash windowed d = (Inr r, d')"
    and "fresh_snapshot (be_snapshot_id env) d"
  obtains m where "serves (be_snapshot_id env) m d'" "r = manifest_response_of stream_url m"
    "m_snapshot_id m = be_snapshot_id env" "m_content_hash m = hash"
    "m_expires_at m = be_saved_at env + QUEUE_STREAM_TTL"
    "\<forall>name. name \<noteq> be_snapshot_id env @ ''.json'' \<and> name \<noteq> be_snapshot_id env @ ''.mp3'' \<longrightarrow>
       map_of d' name \<in> {None, map_of d name}"
proof -
  let ?i = "be_snapshot_id env"
  from build_new_snapshot_ok [OF assms] obtain tracks offset bytes d4 where ok:
    "map_of d4 = installed env (built_manifest env scope scope_id hash offset windowed tracks) bytes d"
    "d' = enforce_cache_quota [?i] d4"
    "r = manifest_response_of stream_url (built_manifest env scope scope_id hash offset windowed tracks)"
    by metis
  let ?m = "built_manifest env scope scope_id hash offset windowed tracks"
  have valid: "valid_snapshot_id ?i" using assms(2) by (simp add: fresh_snapshot_def)
  have own: "?i @ ''.json'' \<in> snapshot_names ?i" "?i @ ''.mp3'' \<in> snapshot_names ?i"
    by (simp_all add: snapshot_names_def SNAPSHOT_FILE_SUFFIXES_def)
  have "serves ?i ?m d'"
    unfolding serves_def load_manifest_def ok(2) set_dict_keys domIff
      quota_keeps_own [OF valid own(1)] quota_keeps_own [OF valid own(2)] ok(1)
    by (simp add: installed_def)
  moreover have "map_of d' name \<in> {None, map_of d name}"
    if "name \<noteq> ?i @ ''.json''" "name \<noteq> ?i @ ''.mp3''" for name
    using enforce_cache_quota_filter [of "[?i]" d4] that ok(1,2)
    by (auto simp: map_of_filter_fst installed_def)
  ultimately show thesis using that [of ?m] ok(3) by (simp add: built_manifest_def)
qed

text \<open>C31: A successful build publishes its snapshot: the manifest that was returned is on disk
  beside the audio file, \<open>load_queue_stream_manifest\<close> serves it until it expires eight hours later,
  and of the other files none is changed (the quota may remove some, never the new ones).\<close>

theorem build_publishes:
  assumes "build_new_snapshot env prepared scope scope_id stream_url hash windowed d = (Inr r, d')"
    and "fresh_snapshot (be_snapshot_id env) d"
  shows "\<exists>m. r = manifest_response_of stream_url m \<and> m_content_hash m = hash
      \<and> m_expires_at m = be_saved_at env + QUEUE_STREAM_TTL
      \<and> (\<forall>now \<le> m_expires_at m. load_queue_stream_manifest now (be_snapshot_id env) d' = (Inr m, d'))
      \<and> (\<forall>name. name \<noteq> be_snapshot_id env @ ''.json'' \<and> name \<noteq> be_snapshot_id env @ ''.mp3'' \<longrightarrow>
            map_of d' name \<in> {None, map_of d name})"
proof -
  from build_serves [OF assms] obtain m where m: "serves (be_snapshot_id env) m d'"
    "r = manifest_response_of stream_url m" "m_content_hash m = hash"
    "m_expires_at m = be_saved_at env + QUEUE_STREAM_TTL"
    "\<forall>name. name \<noteq> be_snapshot_id env @ ''.json'' \<and> name \<noteq> be_snapshot_id env @ ''.mp3'' \<longrightarrow>
       map_of d' name \<in> {None, map_of d name}"
    by metis
  have "valid_snapshot_id (be_snapshot_id env)" using assms(2) by (simp add: fresh_snapshot_def)
  with m serves_load [OF m(1)] show ?thesis by (intro exI [of _ m]) simp
qed

text \<open>C32: A build that fails, in ffmpeg or before it, leaves the cache as it found it: no concat
  list and no partial audio file stays behind.\<close>

theorem failed_build_restores:
  assumes "build_new_snapshot env prepared scope scope_id stream_url hash windowed d = (Inl e, d')"
    and "fresh_snapshot (be_snapshot_id env) d"
  shows "map_of d' = map_of d"
proof (cases "build_tracks prepared [] 0")
  case (Inl e)
  then show ?thesis using assms(1) by (simp add: build_new_snapshot_def)
next
  case (Inr r)
  obtain tracks offset where r: "r = (tracks, offset)" by (cases r)
  let ?tmp = "be_snapshot_id env @ ''.tmp.mp3''"
  let ?concat = "be_snapshot_id env @ ''.concat.txt''"
  define d1 where "d1 = dict_set ?concat (written_file (be_encoded_at env)
    (length (concat_text (map p_audio_path prepared)))) d"
  obtain e2 d2 where run: "run_ffmpeg_concat (be_ffmpeg env) (be_encoded_at env) ?tmp d1 = (Inl e2, d2)"
      and d': "d' = dict_del ?tmp (dict_del ?concat d2)"
    using assms(1) Inr r
    by (auto simp: build_new_snapshot_def Let_def d1_def split: prod.splits sum.splits)
  have "map_of d2 name = map_of d1 name" if "name \<noteq> ?tmp" for name
    using run that by (cases "be_ffmpeg env")
      (auto simp: run_ffmpeg_concat_def write_partial_def dict_lookup split: option.splits)
  moreover have "map_of d1 name = map_of d name" if "name \<noteq> ?concat" for name
    using that by (simp add: d1_def dict_lookup)
  ultimately have "map_of d' name = map_of d name" for name
    using fresh_snapshot_get [OF assms(2)] unfolding d' dict_lookup
    by (cases "name = ?tmp"; cases "name = ?concat") simp_all
  then show ?thesis by blast
qed

definition sample_env :: "ffmpeg_outcome \<Rightarrow> build_env" where
  "sample_env outcome = \<lparr>be_snapshot_id = replicate 32 (CHR ''a''), be_ffmpeg = outcome,
     be_encoded_at = 1, be_saved_at = 2, be_manifest_bytes = 10\<rparr>"

lemma sample_env_fresh: "fresh_snapshot (be_snapshot_id (sample_env outcome)) []"
  by (simp add: fresh_snapshot_def sample_env_def valid_snapshot_id_def list_all_iff dict_keys_def)

lemma build_publishes_witness:
  "\<exists>r d' m. build_new_snapshot (sample_env (Ffmpeg_Encoded 5)) [sample_prepared] Scope_Auth ''u''
        ''url'' ''h'' False [] = (Inr r, d') \<and> r = manifest_response_of ''url'' m
     \<and> load_queue_stream_manifest 3 (be_snapshot_id (sample_env (Ffmpeg_Encoded 5))) d' = (Inr m, d')"
proof -
  let ?env = "sample_env (Ffmpeg_Encoded 5)"
  obtain t where t: "build_tracks [sample_prepared] [] 0 = Inr ([t], 5 / 2)" using sample_tracks by blast
  then obtain r d' where b: "build_new_snapshot ?env [sample_prepared] Scope_Auth ''u'' ''url'' ''h'' False [] = (Inr r, d')"
    by (simp add: build_new_snapshot_def Let_def run_ffmpeg_concat_def sample_env_def)
  from build_publishes [OF b sample_env_fresh] obtain m where
    "r = manifest_response_of ''url'' m" "m_expires_at m = be_saved_at ?env + QUEUE_STREAM_TTL"
    "\<forall>now \<le> m_expires_at m. load_queue_stream_manifest now (be_snapshot_id ?env) d' = (Inr m, d')"
    by blast
  then have "load_queue_stream_manifest 3 (be_snapshot_id ?env) d' = (Inr m, d')"
    by (simp add: sample_env_def QUEUE_STREAM_TTL_def seconds_def)
  with b \<open>r = _\<close> show ?thesis by blast
qed

lemma failed_build_restores_witness:
  "\<exists>e d'. build_new_snapshot (sample_env (Ffmpeg_Timed_Out (Some 7))) [sample_prepared] Scope_Auth ''u''
        ''url'' ''h'' False [] = (Inl e, d') \<and> map_of d' = map_of []"
proof -
  let ?env = "sample_env (Ffmpeg_Timed_Out (Some 7))"
  obtain t where t: "build_tracks [sample_prepared] [] 0 = Inr ([t], 5 / 2)" using sample_tracks by blast
  then obtain e d' where b: "build_new_snapshot ?env [sample_prepared] Scope_Auth ''u'' ''url'' ''h'' False [] = (Inl e, d')"
    by (simp add: build_new_snapshot_def Let_def run_ffmpeg_concat_def sample_env_def)
  from failed_build_restores [OF b sample_env_fresh] b show ?thesis by blast
qed

subsection \<open>Asking again\<close>

definition manifests_valid :: "stream_files \<Rightarrow> bool" where
  "manifests_valid d \<longleftrightarrow>
     (\<forall>name m. load_manifest name d = Some m \<longrightarrow> valid_snapshot_id (m_snapshot_id m))"

lemma find_reusable_no_error:
  "manifests_valid d \<Longrightarrow> find_reusable_in now hash stream_url names d \<noteq> Inl e"
  by (induction names)
    (auto simp: manifests_valid_def queue_stream_audio_path_def split: option.splits if_splits)

lemma build_keeps_manifests_valid:
  assumes "build_new_snapshot env prepared scope scope_id stream_url hash windowed d = (Inr r, d')"
    and "fresh_snapshot (be_snapshot_id env) d" and "manifests_valid d"
  shows "manifests_valid d'"
proof -
  from build_new_snapshot_ok [OF assms(1,2)] obtain tracks offset bytes d4 where ok:
    "map_of d4 = installed env (built_manifest env scope scope_id hash offset windowed tracks) bytes d"
    "d' = enforce_cache_quota [be_snapshot_id env] d4"
    by metis
  have old: "valid_snapshot_id (m_snapshot_id m)"
    if "map_of d name = Some f" "f_content f = Manifest_Text m" for name f m
  proof -
    have "load_manifest name d = Some m" using that by (simp add: load_manifest_def)
    then show ?thesis using assms(3) unfolding manifests_valid_def by blast
  qed
  have "valid_snapshot_id (m_snapshot_id m)" if "load_manifest name d' = Some m" for name m
  proof -
    from that obtain f where "map_of d' name = Some f" and f: "f_content f = Manifest_Text m"
      by (auto simp: load_manifest_def split: option.splits file_content.splits)
    then have "map_of d4 name = Some f"
      using enforce_cache_quota_filter [of "[be_snapshot_id env]" d4] ok(2)
      by (auto simp: map_of_filter_fst split: if_splits)
    then show ?thesis
      using f old assms(2) unfolding ok(1) installed_def
      by (auto simp: written_file_def built_manifest_def fresh_snapshot_def split: if_splits)
  qed
  then show ?thesis by (simp add: manifests_valid_def)
qed

definition reusable_at :: "timestamp \<Rightarrow> string \<Rightarrow> stream_files \<Rightarrow> bool" where
  "reusable_at now hash d \<longleftrightarrow> (\<exists>name m. endswith ''.json'' name \<and> load_manifest name d = Some m
     \<and> m_content_hash m = hash \<and> now \<le> m_expires_at m \<and> m_snapshot_id m @ ''.mp3'' \<in> set (dict_keys d))"

lemma newest_first_mem:
  "endswith ''.json'' name \<Longrightarrow> load_manifest name d = Some m \<Longrightarrow> name \<in> set (newest_first d)"
  by (auto simp: newest_first_def manifest_names_def load_manifest_def set_dict_keys
      split: option.splits)

lemma reusable_found:
  assumes "manifests_valid d" and "reusable_at now hash d"
  obtains r where "find_reusable_snapshot now hash stream_url d = Inr (Some r)"
proof -
  obtain name m where m: "endswith ''.json'' name" "load_manifest name d = Some m"
      "m_content_hash m = hash" "now \<le> m_expires_at m" "m_snapshot_id m @ ''.mp3'' \<in> set (dict_keys d)"
    using assms(2) by (auto simp: reusable_at_def)
  have "find_reusable_snapshot now hash stream_url d \<noteq> Inr None"
    using find_reusable_in_None [of now hash stream_url "newest_first d" d name m]
      newest_first_mem [OF m(1,2)] m(2-5)
    unfolding find_reusable_snapshot_def by blast
  moreover have "find_reusable_snapshot now hash stream_url d \<noteq> Inl e" for e
    unfolding find_reusable_snapshot_def by (rule find_reusable_no_error [OF assms(1)])
  ultimately show thesis using that
    by (metis option.exhaust sum.exhaust)
qed

lemma found_reusable:
  assumes "find_reusable_snapshot now hash stream_url d = Inr (Some r)" and "now' \<le> r_expires_at r"
  shows "reusable_at now' hash d"
proof -
  from find_reusable_in_Some [OF assms(1) [unfolded find_reusable_snapshot_def]] obtain name m where m:
    "name \<in> set (newest_first d)" "load_manifest name d = Some m" "m_content_hash m = hash"
    "m_snapshot_id m @ ''.mp3'' \<in> set (dict_keys d)" "r = manifest_response_of stream_url m"
    by blast
  then have "endswith ''.json'' name" by (simp add: newest_first_def manifest_names_def)
  with m assms(2) show ?thesis by (auto simp: reusable_at_def manifest_response_of_def)
qed

text \<open>Asking again for the same queue while the returned snapshot has not expired builds
  nothing: the request is answered from the cache and the directory does not change.\<close>

theorem second_request_reuses:
  assumes "build_queue_stream_snapshot sha fmt audio_dir fs now env sources scope scope_id url d = (Inr r, d')"
    and "fresh_snapshot (be_snapshot_id env) d" and "manifests_valid d"
    and "now' \<le> r_expires_at r"
  shows "\<exists>r'. build_queue_stream_snapshot sha fmt audio_dir fs now' env' sources scope scope_id url d' = (Inr r', d')"
proof -
  obtain adm where adm: "prepare_queue_stream_admission audio_dir fs sources = Inr adm"
    using assms(1) by (auto simp: build_queue_stream_snapshot_def split: sum.splits)
  let ?hash = "content_hash sha fmt scope scope_id (prepared_sources adm) (windowed_by_count adm)"
  have valid: "valid_snapshot_id (be_snapshot_id env)" using assms(2) by (simp add: fresh_snapshot_def)
  have "manifests_valid d' \<and> reusable_at now' ?hash d'"
  proof (cases "find_reusable_snapshot now ?hash url d")
    case (Inl e)
    then show ?thesis using assms(1) adm by (simp add: build_queue_stream_snapshot_def Let_def)
  next
    case (Inr found)
    show ?thesis
    proof (cases found)
      case (Some r2)
      then have "r2 = r" "d' = d" using assms(1) adm Inr
        by (simp_all add: build_queue_stream_snapshot_def Let_def)
      then show ?thesis using found_reusable Inr Some assms(3,4) by blast
    next
      case None
      then have b: "build_new_snapshot env (prepared_sources adm) scope scope_id url ?hash
          (windowed_by_count adm) d = (Inr r, d')"
        using assms(1) adm Inr by (simp add: build_queue_stream_snapshot_def Let_def)
      from build_serves [OF b assms(2)] obtain m where m: "serves (be_snapshot_id env) m d'"
        "r = manifest_response_of url m" "m_snapshot_id m = be_snapshot_id env" "m_content_hash m = ?hash"
        by metis
      then have "reusable_at now' ?hash d'"
        unfolding reusable_at_def
        using assms(4) by (intro exI [of _ "be_snapshot_id env @ ''.json''"] exI [of _ m])
          (auto simp: serves_def endswith_iff manifest_response_of_def)
      then show ?thesis using build_keeps_manifests_valid [OF b assms(2,3)] by blast
    qed
  qed
  then obtain r' where "find_reusable_snapshot now' ?hash url d' = Inr (Some r')"
    using reusable_found by blast
  then show ?thesis using adm by (simp add: build_queue_stream_snapshot_def Let_def)
qed

lemma second_request_reuses_witness:
  "\<exists>r d' r'. build_queue_stream_snapshot (\<lambda>s. s) (\<lambda>_. ''2.500'') [''data''] sample_fs 0
        (sample_env (Ffmpeg_Encoded 5)) [sample_source] Scope_Auth ''u'' ''url'' [] = (Inr r, d')
     \<and> build_queue_stream_snapshot (\<lambda>s. s) (\<lambda>_. ''2.500'') [''data''] sample_fs 7
        (sample_env Ffmpeg_Missing) [sample_source] Scope_Auth ''u'' ''url'' d' = (Inr r', d')"
proof -
  let ?env = "sample_env (Ffmpeg_Encoded 5)"
  let ?build = "build_queue_stream_snapshot (\<lambda>s. s) (\<lambda>_. ''2.500'') [''data''] sample_fs 0 ?env
    [sample_source] Scope_Auth ''u'' ''url'' []"
  obtain t where t: "build_tracks [sample_prepared] [] 0 = Inr ([t], 5 / 2)" using sample_tracks by blast
  have "find_reusable_snapshot 0 hash ''url'' [] = Inr None" for hash
    by (simp add: find_reusable_snapshot_def newest_first_def manifest_names_def dict_keys_def)
  then obtain r d' where b: "?build = (Inr r, d')" and e: "r_expires_at r = 2 + QUEUE_STREAM_TTL"
    using t by (simp add: build_queue_stream_snapshot_def sample_admission build_new_snapshot_def
        Let_def run_ffmpeg_concat_def sample_env_def manifest_response_of_def built_manifest_def)
  have "manifests_valid []" by (simp add: manifests_valid_def load_manifest_def)
  moreover have "7 \<le> r_expires_at r" by (simp add: e QUEUE_STREAM_TTL_def seconds_def)
  ultimately show ?thesis using second_request_reuses [OF b sample_env_fresh] b by blast
qed

end
