(* ===== verification/Build_Lock.thy ===== *)
theory Build_Lock
  imports Prelude
begin

text \<open>
  The per-hash build lock of \<open>queue_streams.py\<close> (\<open>_build_lock\<close>), as a machine of concurrent
  threads.  An entry object is a number; \<open>_build_locks\<close> maps content hashes to entries, and the
  fields of an entry (its lock's owner, its waiter count) are two maps over entries.  The two
  sections under \<open>_build_locks_guard\<close> are one step each; acquiring and releasing the entry's lock
  are steps of their own, so threads interleave between them.
\<close>

datatype 'h thread_pc =
    Outside
  | Registered 'h nat   \<comment> \<open>counted as a waiter, not holding the entry's lock yet\<close>
  | Inside 'h nat       \<comment> \<open>in the body of the \<open>with\<close> statement\<close>
  | Leaving 'h nat      \<comment> \<open>lock released, not yet deregistered\<close>

record ('t, 'h) lock_state =
  registry :: "'h \<Rightarrow> nat option"
  lock_owner :: "nat \<Rightarrow> 't option"
  waiters :: "nat \<Rightarrow> nat"
  next_entry :: nat
  pcs :: "'t \<Rightarrow> 'h thread_pc"

definition init_locks :: "('t, 'h) lock_state" where
  "init_locks = \<lparr>registry = (\<lambda>_. None), lock_owner = (\<lambda>_. None), waiters = (\<lambda>_. 0), next_entry = 0,
     pcs = (\<lambda>_. Outside)\<rparr>"

text \<open>\<open>_build_locks.setdefault(content_hash, _BuildLockEntry())\<close>, then \<open>waiters += 1\<close>.\<close>

definition register :: "'t \<Rightarrow> 'h \<Rightarrow> ('t, 'h) lock_state \<Rightarrow> ('t, 'h) lock_state" where
  "register t h s =
     (case registry s h of
        Some e \<Rightarrow> s\<lparr>waiters := (waiters s)(e := waiters s e + 1), pcs := (pcs s)(t := Registered h e)\<rparr>
      | None \<Rightarrow>
          (let e = next_entry s
           in s\<lparr>registry := (registry s)(h \<mapsto> e), waiters := (waiters s)(e := 1),
                lock_owner := (lock_owner s)(e := None), next_entry := e + 1,
                pcs := (pcs s)(t := Registered h e)\<rparr>))"

definition deregister :: "'t \<Rightarrow> 'h \<Rightarrow> nat \<Rightarrow> ('t, 'h) lock_state \<Rightarrow> ('t, 'h) lock_state" where
  "deregister t h e s =
     (let n = waiters s e - 1
      in s\<lparr>waiters := (waiters s)(e := n),
           registry := (if n = 0 \<and> registry s h = Some e then (registry s)(h := None) else registry s),
           pcs := (pcs s)(t := Outside)\<rparr>)"

inductive lock_step :: "('t, 'h) lock_state \<Rightarrow> ('t, 'h) lock_state \<Rightarrow> bool" where
  enter: "lock_step s (register t h s)" if "pcs s t = Outside"
| acquire: "lock_step s (s\<lparr>lock_owner := (lock_owner s)(e \<mapsto> t), pcs := (pcs s)(t := Inside h e)\<rparr>)"
    if "pcs s t = Registered h e" and "lock_owner s e = None"
| release: "lock_step s (s\<lparr>lock_owner := (lock_owner s)(e := None), pcs := (pcs s)(t := Leaving h e)\<rparr>)"
    if "pcs s t = Inside h e"
| leave: "lock_step s (deregister t h e s)" if "pcs s t = Leaving h e"

inductive reachable_locks :: "('t, 'h) lock_state \<Rightarrow> bool" where
  start: "reachable_locks init_locks"
| step: "reachable_locks s'" if "reachable_locks s" and "lock_step s s'"

inductive_cases lock_stepE: "lock_step s s'"

subsection \<open>The invariant\<close>

definition uses :: "'h thread_pc \<Rightarrow> ('h \<times> nat) option" where
  "uses p = (case p of Outside \<Rightarrow> None | Registered h e \<Rightarrow> Some (h, e) | Inside h e \<Rightarrow> Some (h, e)
     | Leaving h e \<Rightarrow> Some (h, e))"

definition users_of :: "nat \<Rightarrow> ('t \<Rightarrow> 'h thread_pc) \<Rightarrow> 't set" where
  "users_of e p = {t. \<exists>h. uses (p t) = Some (h, e)}"

text \<open>Every registered thread holds a reference to the entry the registry has for its hash; the
  waiter count of an entry is the number of threads that refer to it; the owner of an entry's lock
  is the thread inside.\<close>

definition lock_inv :: "('t, 'h) lock_state \<Rightarrow> bool" where
  "lock_inv s \<longleftrightarrow>
     (\<forall>t h e. uses (pcs s t) = Some (h, e) \<longrightarrow> registry s h = Some e)
   \<and> (\<forall>e. finite (users_of e (pcs s)) \<and> waiters s e = card (users_of e (pcs s)))
   \<and> (\<forall>t e. lock_owner s e = Some t \<longleftrightarrow> (\<exists>h. pcs s t = Inside h e))
   \<and> (\<forall>h e. registry s h = Some e \<longrightarrow> e < next_entry s \<and> 0 < waiters s e)
   \<and> (\<forall>h h' e. registry s h = Some e \<and> registry s h' = Some e \<longrightarrow> h = h')"

lemma uses_simps [simp]:
  "uses Outside = None" "uses (Registered h e) = Some (h, e)" "uses (Inside h e) = Some (h, e)"
  "uses (Leaving h e) = Some (h, e)"
  by (simp_all add: uses_def)

lemma init_locks_inv: "lock_inv init_locks"
  by (simp add: lock_inv_def init_locks_def users_of_def)

lemma users_of_upd:
  "users_of e (p(t := q)) =
     (if \<exists>h. uses q = Some (h, e) then insert t (users_of e p) else users_of e p - {t})"
  by (auto simp: users_of_def)

lemma lock_invD:
  assumes "lock_inv s"
  shows "uses (pcs s t) = Some (h, e) \<Longrightarrow> registry s h = Some e"
    and "finite (users_of e (pcs s))" and "waiters s e = card (users_of e (pcs s))"
    and "lock_owner s e = Some t \<longleftrightarrow> (\<exists>h. pcs s t = Inside h e)"
    and "registry s h = Some e \<Longrightarrow> e < next_entry s" and "registry s h = Some e \<Longrightarrow> 0 < waiters s e"
    and "registry s h = Some e \<Longrightarrow> registry s h' = Some e \<Longrightarrow> h = h'"
  using assms unfolding lock_inv_def by blast+

lemma lock_invI:
  assumes "\<And>t h e. uses (pcs s t) = Some (h, e) \<Longrightarrow> registry s h = Some e"
    and "\<And>e. finite (users_of e (pcs s))" and "\<And>e. waiters s e = card (users_of e (pcs s))"
    and "\<And>t e. lock_owner s e = Some t \<longleftrightarrow> (\<exists>h. pcs s t = Inside h e)"
    and "\<And>h e. registry s h = Some e \<Longrightarrow> e < next_entry s \<and> 0 < waiters s e"
    and "\<And>h h' e. registry s h = Some e \<Longrightarrow> registry s h' = Some e \<Longrightarrow> h = h'"
  shows "lock_inv s"
  unfolding lock_inv_def using assms by blast

lemma outside_not_user: "pcs s t = Outside \<Longrightarrow> t \<notin> users_of e (pcs s)"
  by (simp add: users_of_def)

lemma unused_entry:
  assumes "lock_inv s"
  shows "users_of (next_entry s) (pcs s) = {}" and "lock_owner s (next_entry s) = None"
proof -
  show none: "users_of (next_entry s) (pcs s) = {}"
    using lock_invD(1,5) [OF assms] by (fastforce simp: users_of_def)
  show "lock_owner s (next_entry s) = None"
  proof (rule ccontr)
    assume "lock_owner s (next_entry s) \<noteq> None"
    then obtain t h where "pcs s t = Inside h (next_entry s)" using lock_invD(4) [OF assms] by auto
    then have "t \<in> users_of (next_entry s) (pcs s)" by (simp add: users_of_def)
    then show False using none by simp
  qed
qed

lemma register_inv:
  assumes inv: "lock_inv s" and out: "pcs s t = Outside"
  shows "lock_inv (register t h s)"
proof (cases "registry s h")
  case None
  note unused = unused_entry [OF inv]
  show ?thesis
  proof (rule lock_invI)
    fix t' h' e assume "uses (pcs (register t h s) t') = Some (h', e)"
    then show "registry (register t h s) h' = Some e"
      using None lock_invD(1) [OF inv, of t' h' e]
      by (auto simp: register_def Let_def split: if_splits)
  next
    fix e show "finite (users_of e (pcs (register t h s)))"
      using None lock_invD(2) [OF inv] by (simp add: register_def Let_def users_of_upd)
  next
    fix e show "waiters (register t h s) e = card (users_of e (pcs (register t h s)))"
      using None lock_invD(3) [OF inv] unused outside_not_user [OF out]
      by (simp add: register_def Let_def users_of_upd)
  next
    fix t' e show "lock_owner (register t h s) e = Some t' \<longleftrightarrow> (\<exists>h'. pcs (register t h s) t' = Inside h' e)"
      using None lock_invD(4) [OF inv, of e t'] unused(2) out
      by (auto simp: register_def Let_def)
  next
    fix h' e assume "registry (register t h s) h' = Some e"
    then show "e < next_entry (register t h s) \<and> 0 < waiters (register t h s) e"
      using None lock_invD(5,6) [OF inv, of h' e]
      by (auto simp: register_def Let_def split: if_splits)
  next
    fix h1 h2 e assume "registry (register t h s) h1 = Some e" "registry (register t h s) h2 = Some e"
    then show "h1 = h2"
      using None lock_invD(5,7) [OF inv] by (fastforce simp: register_def Let_def split: if_splits)
  qed
next
  case (Some e0)
  show ?thesis
  proof (rule lock_invI)
    fix t' h' e assume "uses (pcs (register t h s) t') = Some (h', e)"
    then show "registry (register t h s) h' = Some e"
      using Some lock_invD(1) [OF inv, of t' h' e] by (auto simp: register_def split: if_splits)
  next
    fix e show "finite (users_of e (pcs (register t h s)))"
      using Some lock_invD(2) [OF inv] by (simp add: register_def users_of_upd)
  next
    fix e show "waiters (register t h s) e = card (users_of e (pcs (register t h s)))"
      using Some lock_invD(2,3) [OF inv] outside_not_user [OF out]
      by (simp add: register_def users_of_upd)
  next
    fix t' e show "lock_owner (register t h s) e = Some t' \<longleftrightarrow> (\<exists>h'. pcs (register t h s) t' = Inside h' e)"
      using Some lock_invD(4) [OF inv] out by (auto simp: register_def)
  next
    fix h' e assume "registry (register t h s) h' = Some e"
    then show "e < next_entry (register t h s) \<and> 0 < waiters (register t h s) e"
      using Some lock_invD(5,6) [OF inv, of h' e] by (auto simp: register_def split: if_splits)
  next
    fix h1 h2 e assume "registry (register t h s) h1 = Some e" "registry (register t h s) h2 = Some e"
    then show "h1 = h2" using Some lock_invD(7) [OF inv] by (simp add: register_def)
  qed
qed

text \<open>Taking and giving back the lock does not change which entry a thread refers to.\<close>

lemma relock_inv:
  assumes inv: "lock_inv s" and same: "\<And>t. uses (p t) = uses (pcs s t)"
    and owner: "\<And>t e. own e = Some t \<longleftrightarrow> (\<exists>h. p t = Inside h e)"
  shows "lock_inv (s\<lparr>lock_owner := own, pcs := p\<rparr>)"
proof -
  have users: "users_of e p = users_of e (pcs s)" for e by (simp add: users_of_def same)
  let ?s = "s\<lparr>lock_owner := own, pcs := p\<rparr>"
  show ?thesis
  proof (rule lock_invI)
    show "uses (pcs ?s t) = Some (h, e) \<Longrightarrow> registry ?s h = Some e" for t h e
      using lock_invD(1) [OF inv] by (simp add: same)
    show "finite (users_of e (pcs ?s))" for e using lock_invD(2) [OF inv] by (simp add: users)
    show "waiters ?s e = card (users_of e (pcs ?s))" for e
      using lock_invD(3) [OF inv] by (simp add: users)
    show "lock_owner ?s e = Some t \<longleftrightarrow> (\<exists>h. pcs ?s t = Inside h e)" for t e by (simp add: owner)
    show "registry ?s h = Some e \<Longrightarrow> e < next_entry ?s \<and> 0 < waiters ?s e" for h e
      using lock_invD(5,6) [OF inv] by simp
    show "registry ?s h = Some e \<Longrightarrow> registry ?s h' = Some e \<Longrightarrow> h = h'" for h h' e
      using lock_invD(7) [OF inv] by simp
  qed
qed

lemma take_lock_inv:
  assumes inv: "lock_inv s" and pc: "pcs s t = Registered h e" and free: "lock_owner s e = None"
  shows "lock_inv (s\<lparr>lock_owner := (lock_owner s)(e \<mapsto> t), pcs := (pcs s)(t := Inside h e)\<rparr>)"
proof (rule relock_inv [OF inv])
  show "uses (((pcs s)(t := Inside h e)) t') = uses (pcs s t')" for t' using pc by simp
  show "((lock_owner s)(e \<mapsto> t)) e' = Some t' \<longleftrightarrow> (\<exists>h'. ((pcs s)(t := Inside h e)) t' = Inside h' e')"
    for t' e'
    using lock_invD(4) [OF inv, of e' t'] free pc by (cases "t' = t"; cases "e' = e") auto
qed

lemma give_lock_inv:
  assumes inv: "lock_inv s" and pc: "pcs s t = Inside h e"
  shows "lock_inv (s\<lparr>lock_owner := (lock_owner s)(e := None), pcs := (pcs s)(t := Leaving h e)\<rparr>)"
proof (rule relock_inv [OF inv])
  have owner: "lock_owner s e = Some t" using lock_invD(4) [OF inv] pc by blast
  show "uses (((pcs s)(t := Leaving h e)) t') = uses (pcs s t')" for t' using pc by simp
  show "((lock_owner s)(e := None)) e' = Some t' \<longleftrightarrow> (\<exists>h'. ((pcs s)(t := Leaving h e)) t' = Inside h' e')"
    for t' e'
    using lock_invD(4) [OF inv, of e' t'] owner pc by (cases "t' = t"; cases "e' = e") auto
qed

lemma deregister_inv:
  assumes inv: "lock_inv s" and pc: "pcs s t = Leaving h e"
  shows "lock_inv (deregister t h e s)"
proof -
  have reg: "registry s h = Some e" using lock_invD(1) [OF inv, of t h e] pc by simp
  have mem: "t \<in> users_of e (pcs s)" using pc by (simp add: users_of_def)
  have other: "t \<notin> users_of e' (pcs s)" if "e' \<noteq> e" for e' using that pc by (simp add: users_of_def)
  have users: "users_of e' (pcs (deregister t h e s)) =
      (if e' = e then users_of e (pcs s) - {t} else users_of e' (pcs s))" for e'
    using other by (simp add: deregister_def Let_def users_of_upd)
  have wait: "waiters (deregister t h e s) e' = card (users_of e' (pcs (deregister t h e s)))" for e'
    using lock_invD(2,3) [OF inv] mem users by (simp add: deregister_def Let_def)
  have reg': "registry (deregister t h e s) h' =
      (if h' = h \<and> users_of e (pcs s) - {t} = {} then None else registry s h')" for h'
    using reg wait [of e] users [of e] lock_invD(2) [OF inv, of e]
    by (simp add: deregister_def Let_def)
  show ?thesis
  proof (rule lock_invI)
    fix t' h' e' assume u: "uses (pcs (deregister t h e s) t') = Some (h', e')"
    then have "t' \<noteq> t" "uses (pcs s t') = Some (h', e')"
      by (auto simp: deregister_def Let_def split: if_splits)
    moreover from this have "registry s h' = Some e'" using lock_invD(1) [OF inv] by blast
    moreover have "t' \<in> users_of e (pcs s) - {t}" if "h' = h"
      using calculation that reg by (auto simp: users_of_def)
    ultimately show "registry (deregister t h e s) h' = Some e'" by (auto simp: reg')
  next
    fix e' show "finite (users_of e' (pcs (deregister t h e s)))"
      using lock_invD(2) [OF inv] by (simp add: users)
  next
    fix t' e' show "lock_owner (deregister t h e s) e' = Some t' \<longleftrightarrow>
        (\<exists>h'. pcs (deregister t h e s) t' = Inside h' e')"
      using lock_invD(4) [OF inv] pc by (auto simp: deregister_def Let_def)
  next
    fix h' e' assume r: "registry (deregister t h e s) h' = Some e'"
    then have old: "registry s h' = Some e'" by (auto simp: reg' split: if_splits)
    have "users_of e' (pcs (deregister t h e s)) \<noteq> {}"
    proof (cases "e' = e")
      case True
      then have "h' = h" using lock_invD(7) [OF inv old] reg by blast
      then show ?thesis using r True by (auto simp: reg' users split: if_splits)
    next
      case False
      then show ?thesis using lock_invD(2,3,6) [OF inv] old by (metis card.empty less_irrefl users)
    qed
    then have "0 < waiters (deregister t h e s) e'"
      unfolding wait using lock_invD(2) [OF inv] by (simp add: users card_gt_0_iff)
    moreover have "next_entry (deregister t h e s) = next_entry s" by (simp add: deregister_def Let_def)
    ultimately show "e' < next_entry (deregister t h e s) \<and> 0 < waiters (deregister t h e s) e'"
      using lock_invD(5) [OF inv old] by simp
  next
    fix h1 h2 e' assume "registry (deregister t h e s) h1 = Some e'" "registry (deregister t h e s) h2 = Some e'"
    then show "h1 = h2" using lock_invD(7) [OF inv] by (auto simp: reg' split: if_splits)
  qed (rule wait)
qed

lemma lock_step_inv: "lock_step s s' \<Longrightarrow> lock_inv s \<Longrightarrow> lock_inv s'"
  by (induction rule: lock_step.induct)
    (simp_all add: register_inv take_lock_inv give_lock_inv deregister_inv)

lemma reachable_locks_inv: "reachable_locks s \<Longrightarrow> lock_inv s"
  by (induction rule: reachable_locks.induct) (auto simp: init_locks_inv lock_step_inv)

lemma inside_owner: "lock_inv s \<Longrightarrow> pcs s t = Inside h e \<Longrightarrow> registry s h = Some e \<and> lock_owner s e = Some t"
  using lock_invD(1) [of s t h e] lock_invD(4) [of s e t] by auto

text \<open>C33: However threads interleave, \<open>_build_lock\<close> lets at most one thread at a time build for
  a content hash; the entry it locks is the registered one (so no waiter is left with a stale
  entry); and an entry stays registered only while some thread refers to it, so the registry is
  empty once nobody builds.\<close>

theorem build_lock_exclusive:
  assumes "reachable_locks s"
  shows "(\<forall>t t' h e e'. pcs s t = Inside h e \<and> pcs s t' = Inside h e' \<longrightarrow> t = t')
    \<and> (\<forall>t h e. uses (pcs s t) = Some (h, e) \<longrightarrow> registry s h = Some e)
    \<and> (\<forall>h e. registry s h = Some e \<longrightarrow> (\<exists>t. uses (pcs s t) = Some (h, e)))"
proof (intro conjI allI impI)
  note inv = reachable_locks_inv [OF assms]
  show "t = t'" if "pcs s t = Inside h e \<and> pcs s t' = Inside h e'" for t t' h e e'
    using that inside_owner [OF inv] by (metis option.inject)
  show "registry s h = Some e" if "uses (pcs s t) = Some (h, e)" for t h e
    using that lock_invD(1) [OF inv] by blast
  show "\<exists>t. uses (pcs s t) = Some (h, e)" if "registry s h = Some e" for h e
  proof -
    have "users_of e (pcs s) \<noteq> {}"
      using lock_invD(3,6) [OF inv] that by (metis card.empty less_irrefl)
    then obtain t h' where "uses (pcs s t) = Some (h', e)" by (auto simp: users_of_def)
    then show ?thesis using lock_invD(1,7) [OF inv] that by metis
  qed
qed

text \<open>Nobody waits for a lock that nobody holds: when a thread waits for a hash, either it can
  take the lock at once or another thread is building for this very hash and can release it.\<close>

theorem build_lock_progress:
  assumes "reachable_locks s" and "pcs s t = Registered h e"
  shows "(\<exists>s'. lock_step s s' \<and> pcs s' t = Inside h e)
    \<or> (\<exists>t' s'. t' \<noteq> t \<and> pcs s t' = Inside h e \<and> lock_step s s' \<and> pcs s' t' = Leaving h e)"
proof (cases "lock_owner s e")
  case None
  from lock_step.acquire [of s t h e, OF assms(2) None] show ?thesis
    by (intro disjI1 exI conjI) (assumption, simp)
next
  case (Some t')
  note inv = reachable_locks_inv [OF assms(1)]
  obtain h' where i: "pcs s t' = Inside h' e" using Some lock_invD(4) [OF inv] by blast
  have "registry s h = Some e" "registry s h' = Some e"
    using lock_invD(1) [OF inv, of t h e] lock_invD(1) [OF inv, of t' h' e] assms(2) i by simp_all
  then have "h' = h" using lock_invD(7) [OF inv] by blast
  with i have i: "pcs s t' = Inside h e" by simp
  then have "t' \<noteq> t" using assms(2) by auto
  with i lock_step.release [of s t' h e, OF i] show ?thesis
    by (intro disjI2 exI conjI) (assumption, assumption, assumption, simp)
qed

text \<open>Two threads asking for the same hash: one is inside, the other waits.\<close>

definition contended :: "(nat, nat) lock_state" where
  "contended = (let s = register 1 7 (register 0 7 init_locks)
     in s\<lparr>lock_owner := (lock_owner s)(0 \<mapsto> 0), pcs := (pcs s)(0 := Inside 7 0)\<rparr>)"

lemma contended_pcs: "pcs contended 0 = Inside 7 0" "pcs contended 1 = Registered 7 0"
  by (simp_all add: contended_def register_def init_locks_def Let_def)

lemma contended_reachable: "reachable_locks contended"
proof -
  have "reachable_locks (register 0 (7::nat) (init_locks :: (nat, nat) lock_state))"
    by (rule reachable_locks.step [OF reachable_locks.start lock_step.enter])
      (simp add: init_locks_def)
  moreover have "pcs (register 0 (7::nat) (init_locks :: (nat, nat) lock_state)) 1 = Outside"
    by (simp add: register_def init_locks_def)
  ultimately have "reachable_locks (register 1 7 (register 0 (7::nat) (init_locks :: (nat, nat) lock_state)))"
      (is "reachable_locks ?s")
    by (rule reachable_locks.step [OF _ lock_step.enter])
  moreover have "pcs ?s 0 = Registered 7 0" "lock_owner ?s 0 = None"
    by (simp_all add: register_def init_locks_def Let_def)
  ultimately show ?thesis
    unfolding contended_def Let_def by (intro reachable_locks.step [OF _ lock_step.acquire])
qed

lemma build_lock_exclusive_witness: "reachable_locks contended \<and> registry contended 7 = Some 0"
  using build_lock_exclusive [OF contended_reachable] contended_reachable contended_pcs
  by (metis uses_simps(3))

lemma build_lock_progress_witness:
  "pcs contended 1 = Registered 7 0 \<and> (\<exists>t' s'. pcs contended t' = Inside 7 0
     \<and> lock_step contended s' \<and> pcs s' t' = Leaving 7 0)"
proof -
  have busy: "lock_owner contended 0 = Some 0" by (simp add: contended_def Let_def)
  have "\<not> (\<exists>s'. lock_step contended s' \<and> pcs s' 1 = Inside 7 0)"
  proof
    assume "\<exists>s'. lock_step contended s' \<and> pcs s' 1 = Inside 7 0"
    then obtain s' where st: "lock_step contended s'" "pcs s' 1 = Inside 7 0" by blast
    from st(1) show False
      using st(2) busy contended_pcs
      by (cases rule: lock_stepE)
        (auto simp: register_def deregister_def Let_def split: option.splits if_splits)
  qed
  then show ?thesis
    using build_lock_progress [OF contended_reachable contended_pcs(2)] contended_pcs(2) by blast
qed

end
