(* ===== verification/Library_Pool.thy ===== *)
theory Library_Pool
  imports Queue_Build
begin

text \<open>
  The library pool of \<open>queue_streams.py\<close>: which takes of a user's songs belong to a pool, in which
  order they are tried (rotated or shuffled to the take playback starts from), how many are
  scanned, which are skipped and why.  The rows \<open>list_songs\<close> returns and the outcome of
  \<open>check_generation_access\<close> are inputs; \<open>random.shuffle\<close> is the parameter \<open>mix\<close>.
\<close>

datatype take_pool = Pool_Mix | Pool_Picks | Pool_Keeps | Pool_All

datatype skip_reason = Missing_Path | Missing_File | Unreadable_File

record skip_response =
  sk_song_id :: string
  sk_generation_id :: string
  sk_reason :: skip_reason

record library_song =
  ls_id :: string
  ls_track_number :: int
  ls_album :: "album_info option"
  ls_generations :: "generation list"

record pool_membership =
  pm_pool :: take_pool
  pm_sources :: "queue_source list"
  pm_skipped :: "skip_response list"
  pm_skipped_complete :: bool

definition LIBRARY_QUEUE_STREAM_SCAN_LIMIT :: nat where
  "LIBRARY_QUEUE_STREAM_SCAN_LIMIT = 1000"

definition generation_matches_pool :: "generation \<Rightarrow> take_pool \<Rightarrow> bool" where
  "generation_matches_pool gen pool \<longleftrightarrow>
     (if g_is_archived gen then False
      else case pool of
             Pool_Mix \<Rightarrow> g_is_picked gen \<or> g_is_kept gen
           | Pool_Picks \<Rightarrow> g_is_picked gen
           | Pool_Keeps \<Rightarrow> g_is_kept gen
           | Pool_All \<Rightarrow> True)"

text \<open>Newest first, ties by id.\<close>

definition take_sort_key :: "generation \<Rightarrow> int \<times> string" where
  "take_sort_key gen =
     (case g_created_at gen of Some created \<Rightarrow> - created | None \<Rightarrow> 0, g_id gen)"

fun add_takes :: "generation list \<Rightarrow> string list \<Rightarrow> generation list \<Rightarrow> string list \<times> generation list" where
  "add_takes [] seen selected = (seen, selected)"
| "add_takes (gen # gens) seen selected =
     (if g_id gen \<in> set seen then add_takes gens seen selected
      else add_takes gens (seen @ [g_id gen]) (selected @ [gen]))"

fun collect_songs ::
    "take_pool \<Rightarrow> library_song list \<Rightarrow> string list \<Rightarrow> generation list
     \<Rightarrow> string list \<times> generation list" where
  "collect_songs pool [] seen selected = (seen, selected)"
| "collect_songs pool (song # songs) seen selected =
     (let takes = sort_key take_sort_key
                    (filter (\<lambda>gen. generation_matches_pool gen pool) (ls_generations song));
          (seen', selected') = add_takes takes seen selected
      in collect_songs pool songs seen' selected')"

definition collect_library_pool_generations ::
    "library_song list \<Rightarrow> take_pool \<Rightarrow> generation option \<Rightarrow> generation list" where
  "collect_library_pool_generations songs pool start_gen =
     (let (seen, selected) = collect_songs pool songs [] []
      in case start_gen of
           Some gen \<Rightarrow> if g_id gen \<notin> set seen \<and> \<not> g_is_archived gen then gen # selected else selected
         | None \<Rightarrow> selected)"

definition skip_of :: "generation \<Rightarrow> skip_reason \<Rightarrow> skip_response" where
  "skip_of gen reason =
     \<lparr>sk_song_id = g_song_id gen, sk_generation_id = g_id gen, sk_reason = reason\<rparr>"

definition library_skip ::
    "string list \<Rightarrow> audio_fs \<Rightarrow> generation \<Rightarrow> skip_response option" where
  "library_skip audio_dir fs gen =
     (if g_mp3_path gen = '''' then Some (skip_of gen Missing_Path)
      else (case resolve_audio_path audio_dir fs (g_mp3_path gen) of
              Inl _ \<Rightarrow> Some (skip_of gen Missing_File)
            | Inr path \<Rightarrow>
                (case map_of fs path of
                   None \<Rightarrow> Some (skip_of gen Missing_File)
                 | Some f \<Rightarrow>
                     if \<not> a_is_file f \<or> \<not> a_readable f then Some (skip_of gen Unreadable_File)
                     else (case probe_audio_duration f of
                             Inl _ \<Rightarrow> Some (skip_of gen Unreadable_File)
                           | Inr _ \<Rightarrow> None))))"

definition library_candidate_sources :: "generation list \<Rightarrow> queue_source list" where
  "library_candidate_sources gens =
     map (\<lambda>(index, gen). track_source_from_generation gen (g_id gen) index None
            (''/audio/'' @ g_mp3_path gen)) (zip [0..<length gens] gens)"

subsection \<open>Order\<close>

definition source_id :: "queue_source \<Rightarrow> string" where
  "source_id s = g_id (s_generation s)"

fun unique_sources :: "queue_source list \<Rightarrow> string list \<Rightarrow> queue_source list" where
  "unique_sources [] seen = []"
| "unique_sources (s # ss) seen =
     (if source_id s \<in> set seen then unique_sources ss seen
      else s # unique_sources ss (seen @ [source_id s]))"

text \<open>The first source with the id, and the others.\<close>

fun split_start :: "string \<Rightarrow> queue_source list \<Rightarrow> queue_source option \<times> queue_source list" where
  "split_start i [] = (None, [])"
| "split_start i (s # ss) =
     (if source_id s = i then (Some s, ss)
      else (let (start, rest) = split_start i ss in (start, s # rest)))"

definition shuffle_library_sources ::
    "(queue_source list \<Rightarrow> queue_source list) \<Rightarrow> queue_source list \<Rightarrow> string option
     \<Rightarrow> queue_source list" where
  "shuffle_library_sources mix sources start_generation_id =
     (if length sources \<le> 1 then sources
      else (let unique = unique_sources sources []
            in case start_generation_id of
                 None \<Rightarrow> mix unique
               | Some i \<Rightarrow>
                   (case split_start i unique of
                      (None, rest) \<Rightarrow> mix rest
                    | (Some start, rest) \<Rightarrow> start # mix rest)))"

fun position_of :: "string \<Rightarrow> queue_source list \<Rightarrow> nat option" where
  "position_of i [] = None"
| "position_of i (s # ss) =
     (if source_id s = i then Some 0 else map_option Suc (position_of i ss))"

definition rotate_sources_to_start :: "queue_source list \<Rightarrow> string \<Rightarrow> queue_source list" where
  "rotate_sources_to_start sources start_generation_id =
     (case position_of start_generation_id sources of
        None \<Rightarrow> sources
      | Some n \<Rightarrow> drop n sources @ take n sources)"

definition order_library_candidates ::
    "(queue_source list \<Rightarrow> queue_source list) \<Rightarrow> queue_source list \<Rightarrow> generation option \<Rightarrow> bool
     \<Rightarrow> queue_source list" where
  "order_library_candidates mix sources start_gen shuffle =
     (if shuffle then shuffle_library_sources mix sources (map_option g_id start_gen)
      else (case start_gen of
              None \<Rightarrow> sources
            | Some gen \<Rightarrow> rotate_sources_to_start sources (g_id gen)))"

subsection \<open>Scan\<close>

definition unplayable_start :: http_exception where
  "unplayable_start = HTTPException 422 ''Requested take is not playable''"

fun scan_from ::
    "string list \<Rightarrow> audio_fs \<Rightarrow> string option \<Rightarrow> queue_source list \<Rightarrow> nat \<Rightarrow> skip_response list
     \<Rightarrow> queue_source list \<Rightarrow> http_exception + skip_response list \<times> queue_source list \<times> nat" where
  "scan_from audio_dir fs start [] scanned skipped playable = Inr (skipped, playable, scanned)"
| "scan_from audio_dir fs start (s # ss) scanned skipped playable =
     (if LIBRARY_QUEUE_STREAM_SCAN_LIMIT \<le> scanned \<or> QUEUE_STREAM_MAX_TRACKS + 1 \<le> length playable
      then Inr (skipped, playable, scanned)
      else (case library_skip audio_dir fs (s_generation s) of
              Some skip \<Rightarrow>
                if start = Some (source_id s) then Inl unplayable_start
                else scan_from audio_dir fs start ss (scanned + 1) (skipped @ [skip]) playable
            | None \<Rightarrow>
                scan_from audio_dir fs start ss (scanned + 1) skipped (playable @ [s])))"

definition scan_library_candidates ::
    "string list \<Rightarrow> audio_fs \<Rightarrow> queue_source list \<Rightarrow> generation option
     \<Rightarrow> http_exception + skip_response list \<times> queue_source list \<times> bool" where
  "scan_library_candidates audio_dir fs candidates start_gen =
     (case scan_from audio_dir fs (map_option g_id start_gen) candidates 0 [] [] of
        Inl e \<Rightarrow> Inl e
      | Inr (skipped, playable, scanned) \<Rightarrow> Inr (skipped, playable, scanned < length candidates))"

definition pool_value :: "take_pool \<Rightarrow> string" where
  "pool_value pool =
     (case pool of Pool_Mix \<Rightarrow> ''mix'' | Pool_Picks \<Rightarrow> ''picks'' | Pool_Keeps \<Rightarrow> ''keeps''
      | Pool_All \<Rightarrow> ''all'')"

definition empty_library_pool :: "take_pool \<Rightarrow> bool \<Rightarrow> http_exception" where
  "empty_library_pool pool unscanned_tail =
     (if unscanned_tail then HTTPException 422 ''No playable takes in scanned library window''
      else HTTPException 422 (''No playable takes in pool'' @ '' '' @ [CHR 0x27] @ pool_value pool
             @ [CHR 0x27]))"

subsection \<open>Membership\<close>

definition song_sort_key :: "library_song \<Rightarrow> string \<times> int \<times> string" where
  "song_sort_key song =
     (case ls_album song of Some a \<Rightarrow> al_title a | None \<Rightarrow> '''', ls_track_number song, ls_id song)"

text \<open>\<open>canonical_rank\<close>: the last position of an id among the candidates.\<close>

definition canonical_rank :: "queue_source list \<Rightarrow> string \<Rightarrow> nat option" where
  "canonical_rank sources i =
     map_of (rev (zip (map source_id sources) [0..<length sources])) i"

definition renumber :: "queue_source list \<Rightarrow> queue_source list" where
  "renumber sources = map (\<lambda>(index, s). s\<lparr>s_index := index\<rparr>) (zip [0..<length sources] sources)"

definition resolve_library_pool_membership ::
    "(queue_source list \<Rightarrow> queue_source list) \<Rightarrow> string list \<Rightarrow> audio_fs \<Rightarrow> library_song list
     \<Rightarrow> take_pool \<Rightarrow> (http_exception + generation) option \<Rightarrow> bool
     \<Rightarrow> http_exception + pool_membership" where
  "resolve_library_pool_membership mix audio_dir fs songs pool start_access shuffle =
     (case start_access of
        Some (Inl e) \<Rightarrow> Inl e
      | _ \<Rightarrow>
          (let start_gen = (case start_access of Some (Inr gen) \<Rightarrow> Some gen | _ \<Rightarrow> None)
           in if (case start_gen of Some gen \<Rightarrow> g_is_archived gen | None \<Rightarrow> False)
              then Inl unplayable_start
              else (let gens = collect_library_pool_generations (sort_key song_sort_key songs)
                                 pool start_gen;
                        sources = library_candidate_sources gens;
                        candidates = order_library_candidates mix sources start_gen shuffle
                    in case scan_library_candidates audio_dir fs candidates start_gen of
                         Inl e \<Rightarrow> Inl e
                       | Inr (skipped, playable, unscanned_tail) \<Rightarrow>
                           if playable = [] then Inl (empty_library_pool pool unscanned_tail)
                           else Inr \<lparr>pm_pool = pool, pm_sources = renumber playable,
                                  pm_skipped = sort_key (\<lambda>k. the (canonical_rank sources
                                    (sk_generation_id k))) skipped,
                                  pm_skipped_complete = \<not> unscanned_tail\<rparr>)))"

subsection \<open>Collecting\<close>

lemma add_takes_spec:
  "add_takes gens (map g_id selected) selected = (seen', selected') \<Longrightarrow> distinct (map g_id selected) \<Longrightarrow>
     seen' = map g_id selected' \<and> distinct (map g_id selected')
     \<and> g_id ` set selected' = g_id ` set selected \<union> g_id ` set gens
     \<and> set selected' \<subseteq> set selected \<union> set gens"
proof (induction gens arbitrary: selected)
  case Nil
  then show ?case by auto
next
  case (Cons gen gens)
  show ?case
  proof (cases "g_id gen \<in> g_id ` set selected")
    case True
    then have "add_takes gens (map g_id selected) selected = (seen', selected')"
      using Cons.prems(1) by simp
    from Cons.IH [OF this Cons.prems(2)] show ?thesis
      using True unfolding list.set image_insert by blast
  next
    case False
    then have "add_takes gens (map g_id (selected @ [gen])) (selected @ [gen]) = (seen', selected')"
      and "distinct (map g_id (selected @ [gen]))"
      using Cons.prems by simp_all
    from Cons.IH [OF this] show ?thesis unfolding set_append list.set image_insert image_Un by blast
  qed
qed

definition pool_takes :: "take_pool \<Rightarrow> library_song list \<Rightarrow> generation set" where
  "pool_takes pool songs =
     {gen. \<exists>song \<in> set songs. gen \<in> set (ls_generations song) \<and> generation_matches_pool gen pool}"

lemma subset_chain: "A \<subseteq> B \<union> C \<Longrightarrow> B \<subseteq> D \<union> E \<Longrightarrow> A \<subseteq> D \<union> (E \<union> C)"
  by blast

lemma collect_songs_spec:
  "collect_songs pool songs (map g_id selected) selected = (seen', selected') \<Longrightarrow>
     distinct (map g_id selected) \<Longrightarrow>
     seen' = map g_id selected' \<and> distinct (map g_id selected')
     \<and> g_id ` set selected' = g_id ` set selected \<union> g_id ` pool_takes pool songs
     \<and> set selected' \<subseteq> set selected \<union> pool_takes pool songs"
proof (induction songs arbitrary: selected)
  case Nil
  then show ?case by (auto simp: pool_takes_def)
next
  case (Cons song songs)
  let ?takes = "sort_key take_sort_key (filter (\<lambda>gen. generation_matches_pool gen pool) (ls_generations song))"
  obtain seen1 selected1 where a: "add_takes ?takes (map g_id selected) selected = (seen1, selected1)"
    by fastforce
  note a1 = add_takes_spec [OF a Cons.prems(2)]
  have "collect_songs pool songs seen1 selected1 = (seen', selected')"
    using Cons.prems(1) unfolding collect_songs.simps Let_def a prod.case .
  then have "collect_songs pool songs (map g_id selected1) selected1 = (seen', selected')"
    by (simp only: conjunct1 [OF a1])
  note c = Cons.IH [OF this conjunct1 [OF conjunct2 [OF a1]]]
  have split: "pool_takes pool (song # songs) = set ?takes \<union> pool_takes pool songs"
    by (auto simp: pool_takes_def)
  have "g_id ` set selected' = g_id ` set selected \<union> g_id ` pool_takes pool (song # songs)"
    using c a1 by (simp only: split image_Un Un_assoc)
  moreover have "set selected' \<subseteq> set selected \<union> pool_takes pool (song # songs)"
    using conjunct2 [OF conjunct2 [OF conjunct2 [OF c]]] conjunct2 [OF conjunct2 [OF conjunct2 [OF a1]]]
    unfolding split by (rule subset_chain)
  ultimately show ?case using c by (simp only: simp_thms)
qed

lemma collect_library_spec:
  fixes songs pool start_gen
  defines "gens \<equiv> collect_library_pool_generations songs pool start_gen"
  shows "distinct (map g_id gens)"
    and "set gens \<subseteq> pool_takes pool songs \<union> set_option start_gen"
    and "g_id ` pool_takes pool songs \<subseteq> g_id ` set gens"
    and "start_gen = Some g \<Longrightarrow> \<not> g_is_archived g \<Longrightarrow> g_id g \<in> g_id ` set gens"
proof -
  obtain seen selected where c: "collect_songs pool songs [] [] = (seen, selected)" by fastforce
  then have s: "seen = map g_id selected" "distinct (map g_id selected)"
      "g_id ` set selected = g_id ` pool_takes pool songs" "set selected \<subseteq> pool_takes pool songs"
    using collect_songs_spec [of pool songs "[]" seen selected] by auto
  show "distinct (map g_id gens)" and "set gens \<subseteq> pool_takes pool songs \<union> set_option start_gen"
    and "g_id ` pool_takes pool songs \<subseteq> g_id ` set gens"
    and "start_gen = Some g \<Longrightarrow> \<not> g_is_archived g \<Longrightarrow> g_id g \<in> g_id ` set gens"
    using c s by (auto simp: gens_def collect_library_pool_generations_def split: option.split)
qed

lemma candidate_generations: "map s_generation (library_candidate_sources gens) = gens"
proof -
  have "map s_generation (map (\<lambda>(index, gen). track_source_from_generation gen (g_id gen) index None
            (''/audio/'' @ g_mp3_path gen)) (zip is gens)) = gens" if "length is = length gens" for "is"
    using that by (induction "is" gens rule: list_induct2) (simp_all add: track_source_from_generation_def)
  then show ?thesis by (simp add: library_candidate_sources_def)
qed

subsection \<open>Ordering\<close>

lemma unique_sources_distinct:
  "distinct (map source_id ss) \<Longrightarrow> \<forall>s \<in> set ss. source_id s \<notin> set seen \<Longrightarrow> unique_sources ss seen = ss"
proof (induction ss arbitrary: seen)
  case (Cons s ss)
  have "source_id t \<noteq> source_id s" if "t \<in> set ss" for t
    using Cons.prems(1) that by (metis distinct.simps(2) image_eqI list.set_map list.simps(9))
  then have "\<forall>t \<in> set ss. source_id t \<notin> set (seen @ [source_id s])" using Cons.prems(2) by simp
  then show ?case using Cons by simp
qed simp

lemma split_start_spec:
  "i \<in> source_id ` set ss \<Longrightarrow>
     \<exists>s rest. split_start i ss = (Some s, rest) \<and> source_id s = i \<and> mset (s # rest) = mset ss"
proof (induction ss)
  case (Cons t ss)
  show ?case
  proof (cases "source_id t = i")
    case False
    then obtain s rest where "split_start i ss = (Some s, rest)" "source_id s = i" "mset (s # rest) = mset ss"
      using Cons by auto
    then show ?thesis using False by (auto simp: add_mset_commute)
  qed simp
qed simp

lemma position_of_spec:
  "i \<in> source_id ` set ss \<Longrightarrow> \<exists>n < length ss. position_of i ss = Some n \<and> source_id (ss ! n) = i"
proof (induction ss)
  case (Cons t ss)
  show ?case
  proof (cases "source_id t = i")
    case False
    then obtain n where "n < length ss" "position_of i ss = Some n" "source_id (ss ! n) = i"
      using Cons by auto
    then show ?thesis using False by (intro exI [of _ "Suc n"]) simp
  qed simp
qed simp

lemma order_spec:
  assumes mix: "\<forall>xs. mset (mix xs) = mset xs" and "distinct (map source_id ss)"
    and start: "\<forall>g. start_gen = Some g \<longrightarrow> g_id g \<in> source_id ` set ss"
  shows "mset (order_library_candidates mix ss start_gen shuffle) = mset ss
    \<and> (\<forall>g. start_gen = Some g \<longrightarrow>
         source_id (hd (order_library_candidates mix ss start_gen shuffle)) = g_id g)"
proof (cases start_gen)
  case None
  then show ?thesis using mix unique_sources_distinct [of ss "[]"] assms(2)
    by (simp add: order_library_candidates_def shuffle_library_sources_def)
next
  case (Some g)
  then have i: "g_id g \<in> source_id ` set ss" using start by blast
  show ?thesis
  proof (cases shuffle)
    case True
    from split_start_spec [OF i] obtain s rest where
      s: "split_start (g_id g) ss = (Some s, rest)" "source_id s = g_id g" "mset (s # rest) = mset ss"
      by blast
    show ?thesis
    proof (cases "length ss \<le> 1")
      case True
      then obtain t where "ss = [t]" using i by (cases ss) auto
      then show ?thesis using Some i \<open>shuffle\<close>
        by (simp add: order_library_candidates_def shuffle_library_sources_def)
    next
      case False
      then show ?thesis using Some s mix unique_sources_distinct [of ss "[]"] assms(2) \<open>shuffle\<close>
        by (simp add: order_library_candidates_def shuffle_library_sources_def)
    qed
  next
    case False
    from position_of_spec [OF i] obtain n where n: "n < length ss" "position_of (g_id g) ss = Some n"
      "source_id (ss ! n) = g_id g" by blast
    then have "hd (drop n ss @ take n ss) = ss ! n" by (simp add: hd_append hd_drop_conv_nth)
    moreover have "mset (drop n ss @ take n ss) = mset ss"
      by (metis append_take_drop_id mset_append union_commute)
    ultimately show ?thesis using Some False n
      by (simp add: order_library_candidates_def rotate_sources_to_start_def del: mset_append)
  qed
qed

subsection \<open>Scanning\<close>

definition plays :: "string list \<Rightarrow> audio_fs \<Rightarrow> queue_source \<Rightarrow> bool" where
  "plays audio_dir fs s \<longleftrightarrow> library_skip audio_dir fs (s_generation s) = None"

lemma library_skip_id: "library_skip audio_dir fs gen = Some k \<Longrightarrow> sk_generation_id k = g_id gen"
  by (auto simp: library_skip_def skip_of_def split: if_splits sum.splits option.splits)

text \<open>What the loop has done once it stops after \<open>n\<close> of the candidates.\<close>

definition scan_post ::
    "string list \<Rightarrow> audio_fs \<Rightarrow> string option \<Rightarrow> queue_source list \<Rightarrow> nat \<Rightarrow> skip_response list
     \<Rightarrow> queue_source list \<Rightarrow> skip_response list \<times> queue_source list \<times> nat \<Rightarrow> nat \<Rightarrow> bool" where
  "scan_post audio_dir fs start cs scanned skipped playable r n \<longleftrightarrow>
     (case r of (skipped', playable', scanned') \<Rightarrow>
       n \<le> length cs \<and> scanned' = scanned + n
     \<and> playable' = playable @ filter (plays audio_dir fs) (take n cs)
     \<and> map sk_generation_id skipped' = map sk_generation_id skipped
         @ map source_id (filter (\<lambda>s. \<not> plays audio_dir fs s) (take n cs))
     \<and> scanned' \<le> LIBRARY_QUEUE_STREAM_SCAN_LIMIT \<and> length playable' \<le> QUEUE_STREAM_MAX_TRACKS + 1
     \<and> (n < length cs \<longrightarrow> scanned' = LIBRARY_QUEUE_STREAM_SCAN_LIMIT
          \<or> length playable' = QUEUE_STREAM_MAX_TRACKS + 1)
     \<and> (\<forall>s \<in> set (take n cs). start = Some (source_id s) \<longrightarrow> plays audio_dir fs s))"

lemma scan_post_plays:
  assumes "plays audio_dir fs c" and "scan_post audio_dir fs start cs (scanned + 1) skipped (playable @ [c]) r n"
  shows "scan_post audio_dir fs start (c # cs) scanned skipped playable r (Suc n)"
  using assms by (auto simp: scan_post_def)

lemma scan_post_skips:
  assumes "\<not> plays audio_dir fs c" and "sk_generation_id k = source_id c" and "start \<noteq> Some (source_id c)"
    and "scan_post audio_dir fs start cs (scanned + 1) (skipped @ [k]) playable r n"
  shows "scan_post audio_dir fs start (c # cs) scanned skipped playable r (Suc n)"
  using assms by (auto simp: scan_post_def)

lemma scan_from_spec:
  "scan_from audio_dir fs start cs scanned skipped playable = Inr r \<Longrightarrow>
   scanned \<le> LIBRARY_QUEUE_STREAM_SCAN_LIMIT \<Longrightarrow> length playable \<le> QUEUE_STREAM_MAX_TRACKS + 1 \<Longrightarrow>
   \<exists>n. scan_post audio_dir fs start cs scanned skipped playable r n"
proof (induction cs arbitrary: scanned skipped playable)
  case Nil
  then show ?case by (auto simp: scan_post_def)
next
  case (Cons c cs)
  show ?case
  proof (cases "LIBRARY_QUEUE_STREAM_SCAN_LIMIT \<le> scanned \<or> QUEUE_STREAM_MAX_TRACKS + 1 \<le> length playable")
    case True
    then show ?thesis using Cons.prems by (intro exI [of _ 0]) (auto simp: scan_post_def)
  next
    case False
    show ?thesis
    proof (cases "library_skip audio_dir fs (s_generation c)")
      case None
      then have "scan_from audio_dir fs start cs (scanned + 1) skipped (playable @ [c]) = Inr r"
        using Cons.prems(1) False by simp
      from Cons.IH [OF this] False obtain n where
        "scan_post audio_dir fs start cs (scanned + 1) skipped (playable @ [c]) r n" by fastforce
      from scan_post_plays [OF _ this] show ?thesis using None plays_def by blast
    next
      case (Some k)
      then have "start \<noteq> Some (source_id c)"
          and "scan_from audio_dir fs start cs (scanned + 1) (skipped @ [k]) playable = Inr r"
        using Cons.prems(1) False by (auto split: if_splits)
      from Cons.IH [OF this(2)] False obtain n where
        "scan_post audio_dir fs start cs (scanned + 1) (skipped @ [k]) playable r n" by fastforce
      from scan_post_skips [OF _ _ \<open>start \<noteq> _\<close> this] show ?thesis
        using Some library_skip_id [OF Some] unfolding plays_def source_id_def by (metis option.distinct(1))
    qed
  qed
qed

subsection \<open>Membership\<close>

lemma renumber_spec:
  "map s_index (renumber ss) = [0..<length ss]" "map s_generation (renumber ss) = map s_generation ss"
proof -
  have "map s_index (map (\<lambda>(index, s). s\<lparr>s_index := index\<rparr>) (zip is ss)) = is"
    "map s_generation (map (\<lambda>(index, s). s\<lparr>s_index := index\<rparr>) (zip is ss)) = map s_generation ss"
    if "length is = length ss" for "is"
    using that by (induction "is" ss rule: list_induct2) simp_all
  then show "map s_index (renumber ss) = [0..<length ss]"
    and "map s_generation (renumber ss) = map s_generation ss"
    by (simp_all add: renumber_def)
qed

lemma source_ids: "map source_id ss = map g_id (map s_generation ss)"
  by (simp add: source_id_def)

text \<open>The steps of a successful resolution: the collected takes, the candidates in the order they
  are tried, and how many were scanned.\<close>

definition resolved ::
    "string list \<Rightarrow> audio_fs \<Rightarrow> library_song list \<Rightarrow> take_pool \<Rightarrow> generation option
     \<Rightarrow> pool_membership \<Rightarrow> generation list \<Rightarrow> queue_source list \<Rightarrow> nat \<Rightarrow> bool" where
  "resolved audio_dir fs songs pool start_gen m gens candidates n \<longleftrightarrow>
     gens = collect_library_pool_generations (sort_key song_sort_key songs) pool start_gen
   \<and> mset candidates = mset (library_candidate_sources gens)
   \<and> (\<forall>g. start_gen = Some g \<longrightarrow> \<not> g_is_archived g \<and> source_id (hd candidates) = g_id g)
   \<and> (\<exists>skipped playable. scan_post audio_dir fs (map_option g_id start_gen) candidates 0 [] []
         (skipped, playable, n) n \<and> playable \<noteq> [] \<and> pm_sources m = renumber playable
       \<and> mset (pm_skipped m) = mset skipped \<and> (pm_skipped_complete m \<longleftrightarrow> n = length candidates))"

definition start_of :: "(http_exception + generation) option \<Rightarrow> generation option" where
  "start_of access = (case access of Some (Inr gen) \<Rightarrow> Some gen | _ \<Rightarrow> None)"

lemma membership_resolved:
  assumes mix: "\<forall>xs. mset (mix xs) = mset xs"
    and ok: "resolve_library_pool_membership mix audio_dir fs songs pool access shuffle = Inr m"
  obtains gens candidates n where "resolved audio_dir fs songs pool (start_of access) m gens candidates n"
proof -
  let ?start = "start_of access"
  define gens where "gens = collect_library_pool_generations (sort_key song_sort_key songs) pool ?start"
  define sources where "sources = library_candidate_sources gens"
  define candidates where "candidates = order_library_candidates mix sources ?start shuffle"
  have no_error: "\<not> (\<exists>e. access = Some (Inl e))"
    using ok by (auto simp: resolve_library_pool_membership_def)
  then have unarchived: "\<forall>g. ?start = Some g \<longrightarrow> \<not> g_is_archived g"
    using ok by (auto simp: resolve_library_pool_membership_def start_of_def Let_def
        split: option.splits sum.splits)
  have start_case: "(case access of Some (Inr gen) \<Rightarrow> Some gen | _ \<Rightarrow> None) = ?start"
    by (simp add: start_of_def)
  have unfolded: "resolve_library_pool_membership mix audio_dir fs songs pool access shuffle =
      (case scan_library_candidates audio_dir fs candidates ?start of
         Inl e \<Rightarrow> Inl e
       | Inr (skipped, playable, unscanned_tail) \<Rightarrow>
           if playable = [] then Inl (empty_library_pool pool unscanned_tail)
           else Inr \<lparr>pm_pool = pool, pm_sources = renumber playable,
                  pm_skipped = sort_key (\<lambda>k. the (canonical_rank sources (sk_generation_id k))) skipped,
                  pm_skipped_complete = \<not> unscanned_tail\<rparr>)"
    using no_error unarchived
    unfolding resolve_library_pool_membership_def candidates_def sources_def gens_def start_of_def
    by (cases access) (auto simp: Let_def split: sum.splits)
  obtain skipped playable scanned where scan:
    "scan_from audio_dir fs (map_option g_id ?start) candidates 0 [] [] = Inr (skipped, playable, scanned)"
    and m: "playable \<noteq> []" "pm_sources m = renumber playable" "mset (pm_skipped m) = mset skipped"
      "pm_skipped_complete m \<longleftrightarrow> \<not> scanned < length candidates"
    using ok unfolding unfolded scan_library_candidates_def
    by (auto split: sum.splits if_splits)
  from scan_from_spec [OF scan] obtain n where
    post: "scan_post audio_dir fs (map_option g_id ?start) candidates 0 [] [] (skipped, playable, scanned) n"
    by auto
  then have n: "scanned = n" "n \<le> length candidates" by (auto simp: scan_post_def)
  have ids: "source_id ` set sources = g_id ` set gens" "distinct (map source_id sources)"
    using candidate_generations [of gens] collect_library_spec(1) [of "sort_key song_sort_key songs" pool ?start]
    unfolding source_ids sources_def gens_def [symmetric]
    by (simp_all add: source_id_def image_image flip: set_map) (metis image_image list.set_map source_id_def)
  have "\<forall>g. ?start = Some g \<longrightarrow> g_id g \<in> source_id ` set sources"
    using collect_library_spec(4) unarchived unfolding ids(1) gens_def by blast
  from order_spec [OF mix ids(2) this, of shuffle] have
    "mset candidates = mset sources" "\<forall>g. ?start = Some g \<longrightarrow> source_id (hd candidates) = g_id g"
    by (simp_all add: candidates_def)
  then have "resolved audio_dir fs songs pool ?start m gens candidates n"
    unfolding resolved_def using m post n unarchived by (auto simp: gens_def sources_def)
  then show thesis by (rule that)
qed

lemma filter_distinct_ids: "distinct (map f ss) \<Longrightarrow> distinct (map f (filter P (take n ss)))"
  by (metis distinct_map_filter distinct_take take_map)

lemma resolved_candidates:
  assumes "resolved audio_dir fs songs pool start_gen m gens candidates n"
  shows "distinct (map source_id candidates)" and "set (map s_generation candidates) = set gens"
    and "source_id ` set candidates = g_id ` set gens"
proof -
  have same: "mset candidates = mset (library_candidate_sources gens)"
    and gens: "gens = collect_library_pool_generations (sort_key song_sort_key songs) pool start_gen"
    using assms by (simp_all add: resolved_def)
  have "mset (map s_generation candidates) = mset (map s_generation (library_candidate_sources gens))"
    using same by (simp only: mset_map)
  then have generations: "mset (map s_generation candidates) = mset gens"
    by (simp only: candidate_generations)
  then show gs: "set (map s_generation candidates) = set gens" by (rule mset_eq_setD)
  have "mset (map source_id candidates) = mset (map g_id gens)"
    unfolding source_ids using generations by (simp only: mset_map)
  then show "distinct (map source_id candidates)"
    using collect_library_spec(1) unfolding gens by (metis mset_eq_imp_distinct_iff)
  show "source_id ` set candidates = g_id ` set gens"
    unfolding gs [symmetric] by (simp add: source_id_def image_image)
qed

lemma renumbered_ids: "map source_id (renumber ss) = map source_id ss"
  by (simp only: source_ids renumber_spec(2))

text \<open>A resolved library pool can be played: its sources are numbered 0, 1, 2, ... without
  repeating a take; each belongs to the pool (or is the take playback starts from) and has a
  readable audio file; there are at most \<open>QUEUE_STREAM_MAX_TRACKS + 1\<close> of them; and the requested
  start comes first, whether the pool is shuffled or not.\<close>

theorem library_pool_playable:
  assumes "\<forall>xs. mset (mix xs) = mset xs"
    and "resolve_library_pool_membership mix audio_dir fs songs pool access shuffle = Inr m"
  shows "pm_sources m \<noteq> [] \<and> length (pm_sources m) \<le> QUEUE_STREAM_MAX_TRACKS + 1
    \<and> map s_index (pm_sources m) = [0..<length (pm_sources m)]
    \<and> distinct (map source_id (pm_sources m))
    \<and> (\<forall>s \<in> set (pm_sources m). library_skip audio_dir fs (s_generation s) = None
         \<and> (s_generation s \<in> pool_takes pool songs \<or> access = Some (Inr (s_generation s))))
    \<and> (\<forall>g. access = Some (Inr g) \<longrightarrow> source_id (hd (pm_sources m)) = g_id g)"
proof -
  from membership_resolved [OF assms] obtain gens candidates n where
    r: "resolved audio_dir fs songs pool (start_of access) m gens candidates n" .
  then obtain skipped playable where
    post: "scan_post audio_dir fs (map_option g_id (start_of access)) candidates 0 [] [] (skipped, playable, n) n"
    and p: "playable \<noteq> []" "pm_sources m = renumber playable"
    and first: "\<forall>g. start_of access = Some g \<longrightarrow> source_id (hd candidates) = g_id g"
    and gens: "gens = collect_library_pool_generations (sort_key song_sort_key songs) pool (start_of access)"
    by (auto simp: resolved_def)
  note cand = resolved_candidates [OF r]
  have playable: "playable = filter (plays audio_dir fs) (take n candidates)"
      and bound: "length playable \<le> QUEUE_STREAM_MAX_TRACKS + 1"
      and start: "\<forall>s \<in> set (take n candidates). map_option g_id (start_of access) = Some (source_id s)
        \<longrightarrow> plays audio_dir fs s"
    using post by (auto simp: scan_post_def)
  have generations: "set (map s_generation (pm_sources m)) = set (map s_generation playable)"
    by (simp only: p(2) renumber_spec(2))
  have "library_skip audio_dir fs g = None \<and> (g \<in> pool_takes pool songs \<or> access = Some (Inr g))"
    if mem: "g \<in> set (map s_generation playable)" for g
  proof -
    from mem obtain s where s: "s \<in> set (take n candidates)" "plays audio_dir fs s" "g = s_generation s"
      by (auto simp: playable)
    then have "g \<in> set gens" using cand(2) set_take_subset [of n candidates] by auto
    then have "g \<in> pool_takes pool (sort_key song_sort_key songs) \<union> set_option (start_of access)"
      using collect_library_spec(2) gens by blast
    then show ?thesis using s by (auto simp: pool_takes_def start_of_def plays_def split: option.splits sum.splits)
  qed
  moreover have "source_id (hd playable) = g_id g" if acc: "access = Some (Inr g)" for g
  proof -
    have st: "start_of access = Some g" using acc by (simp add: start_of_def)
    obtain c cs where t: "take n candidates = c # cs"
      using p(1) playable by (cases "take n candidates") auto
    then have "c = hd candidates" by (cases candidates; cases n) auto
    then have "source_id c = g_id g" using first st by simp
    then have "plays audio_dir fs c" using start st t by simp
    then show ?thesis using t playable \<open>source_id c = _\<close> by simp
  qed
  moreover have "hd (map source_id (pm_sources m)) = hd (map source_id playable)"
    by (simp only: p(2) renumbered_ids)
  moreover have "length (pm_sources m) = length playable"
    by (metis length_map p(2) renumbered_ids)
  moreover have "distinct (map source_id (pm_sources m))"
    unfolding p(2) renumbered_ids playable by (rule filter_distinct_ids [OF cand(1)])
  moreover have "map s_index (pm_sources m) = [0..<length playable]"
    by (simp only: p(2) renumber_spec(1))
  moreover have "pm_sources m \<noteq> []" using calculation(4) p(1) by auto
  ultimately show ?thesis
    using bound p(1) generations by (simp add: hd_map) blast
qed

text \<open>Nothing is lost silently: a take of the pool is among the sources or among the skipped
  ones whenever \<open>skipped_complete\<close> is reported; no take is both; and when it is not reported, either
  201 playable takes were found or 1000 takes were scanned.\<close>

theorem library_pool_complete:
  assumes "\<forall>xs. mset (mix xs) = mset xs"
    and "resolve_library_pool_membership mix audio_dir fs songs pool access shuffle = Inr m"
  shows "(pm_skipped_complete m \<longrightarrow> (\<forall>gen \<in> pool_takes pool songs.
        g_id gen \<in> source_id ` set (pm_sources m) \<union> sk_generation_id ` set (pm_skipped m)))
    \<and> source_id ` set (pm_sources m) \<inter> sk_generation_id ` set (pm_skipped m) = {}
    \<and> (\<not> pm_skipped_complete m \<longrightarrow> length (pm_sources m) = QUEUE_STREAM_MAX_TRACKS + 1
        \<or> length (pm_sources m) + length (pm_skipped m) = LIBRARY_QUEUE_STREAM_SCAN_LIMIT)"
proof -
  from membership_resolved [OF assms] obtain gens candidates n where
    r: "resolved audio_dir fs songs pool (start_of access) m gens candidates n" .
  then obtain skipped playable where
    post: "scan_post audio_dir fs (map_option g_id (start_of access)) candidates 0 [] [] (skipped, playable, n) n"
    and p: "pm_sources m = renumber playable" "mset (pm_skipped m) = mset skipped"
    and complete: "pm_skipped_complete m \<longleftrightarrow> n = length candidates"
    and gens: "gens = collect_library_pool_generations (sort_key song_sort_key songs) pool (start_of access)"
    by (auto simp: resolved_def)
  note cand = resolved_candidates [OF r]
  let ?taken = "take n candidates"
  have n: "n \<le> length candidates" and playable: "playable = filter (plays audio_dir fs) ?taken"
      and skipped: "map sk_generation_id skipped = map source_id (filter (\<lambda>s. \<not> plays audio_dir fs s) ?taken)"
      and stop: "n < length candidates \<longrightarrow> n = LIBRARY_QUEUE_STREAM_SCAN_LIMIT
          \<or> length playable = QUEUE_STREAM_MAX_TRACKS + 1"
    using post by (auto simp: scan_post_def)
  have src: "source_id ` set (pm_sources m) = source_id ` set playable"
    by (metis list.set_map p(1) renumbered_ids)
  have "set (pm_skipped m) = set skipped" using p(2) by (rule mset_eq_setD)
  then have skp: "sk_generation_id ` set (pm_skipped m) =
      source_id ` {s \<in> set ?taken. \<not> plays audio_dir fs s}"
    using arg_cong [OF skipped, of set] by simp
  have "inj_on source_id (set ?taken)"
    using cand(1) by (meson distinct_map inj_on_subset set_take_subset)
  then have "source_id ` set (pm_sources m) \<inter> sk_generation_id ` set (pm_skipped m) = {}"
    unfolding src skp playable by (auto simp: inj_on_def)
  moreover have "g_id gen \<in> source_id ` set (pm_sources m) \<union> sk_generation_id ` set (pm_skipped m)"
    if "pm_skipped_complete m" "gen \<in> pool_takes pool songs" for gen
  proof -
    have "g_id gen \<in> g_id ` set gens"
      using that(2) collect_library_spec(3) [of pool "sort_key song_sort_key songs" "start_of access"]
      by (auto simp: gens pool_takes_def)
    then have "g_id gen \<in> source_id ` set ?taken" using that(1) complete cand(3) by simp
    then show ?thesis unfolding src skp playable by auto
  qed
  moreover have "length (pm_sources m) + length (pm_skipped m) = n"
  proof -
    have "length (pm_skipped m) = length skipped" using p(2) by (metis size_mset)
    also have "\<dots> = length (filter (\<lambda>s. \<not> plays audio_dir fs s) ?taken)"
      using arg_cong [OF skipped, of length] by simp
    finally have "length (pm_skipped m) = length (filter (\<lambda>s. \<not> plays audio_dir fs s) ?taken)" .
    moreover have "length (pm_sources m) = length playable" by (metis length_map p(1) renumbered_ids)
    ultimately show ?thesis
      using sum_length_filter_compl [of "plays audio_dir fs" ?taken] n by (simp add: playable)
  qed
  moreover have "length (pm_sources m) = length playable" by (metis length_map p(1) renumbered_ids)
  ultimately show ?thesis using complete n stop by (metis le_neq_implies_less)
qed

definition sample_song :: library_song where
  "sample_song = \<lparr>ls_id = ''s1'', ls_track_number = 1, ls_album = None,
     ls_generations = [sample_generation]\<rparr>"

definition sample_membership :: pool_membership where
  "sample_membership = \<lparr>pm_pool = Pool_All,
     pm_sources = [track_source_from_generation sample_generation ''g1'' 0 None ''/audio/x.mp3''],
     pm_skipped = [], pm_skipped_complete = True\<rparr>"

lemma sample_skip: "library_skip [''data''] sample_fs sample_generation = None"
  using sample_resolves
  by (simp add: library_skip_def sample_generation_def sample_fs_def probe_audio_duration_def
      read_audio_duration_def)

lemma sample_resolution:
  "resolve_library_pool_membership (\<lambda>xs. xs) [''data''] sample_fs [sample_song] Pool_All None False =
     Inr sample_membership"
proof -
  have "generation_matches_pool sample_generation Pool_All" "g_id sample_generation = ''g1''"
      "g_mp3_path sample_generation = ''x.mp3''"
    by (simp_all add: generation_matches_pool_def sample_generation_def)
  then show ?thesis
    using sample_skip
    by (simp add: resolve_library_pool_membership_def collect_library_pool_generations_def
        sample_song_def library_candidate_sources_def order_library_candidates_def
        scan_library_candidates_def track_source_from_generation_def renumber_def
        LIBRARY_QUEUE_STREAM_SCAN_LIMIT_def QUEUE_STREAM_MAX_TRACKS_def sample_membership_def)
qed

lemma library_pool_playable_witness:
  "resolve_library_pool_membership (\<lambda>xs. xs) [''data''] sample_fs [sample_song] Pool_All None False =
     Inr sample_membership \<and> map s_index (pm_sources sample_membership) = [0..<1]
   \<and> list_all (\<lambda>s. library_skip [''data''] sample_fs (s_generation s) = None)
        (pm_sources sample_membership)"
proof -
  have "\<forall>xs :: queue_source list. mset xs = mset xs" by simp
  from library_pool_playable [OF this sample_resolution] sample_resolution show ?thesis
    by (simp add: sample_membership_def)
qed

lemma library_pool_complete_witness:
  "pm_skipped_complete sample_membership
   \<and> g_id sample_generation \<in> source_id ` set (pm_sources sample_membership)"
proof -
  have "sample_generation \<in> pool_takes Pool_All [sample_song]"
    by (simp add: pool_takes_def sample_song_def generation_matches_pool_def) (simp add: sample_generation_def)
  moreover
  have "\<forall>xs :: queue_source list. mset xs = mset xs" by simp
  from library_pool_complete [OF this sample_resolution]
  have "pm_skipped_complete sample_membership \<longrightarrow> (\<forall>gen \<in> pool_takes Pool_All [sample_song].
      g_id gen \<in> source_id ` set (pm_sources sample_membership)
        \<union> sk_generation_id ` set (pm_skipped sample_membership))"
    by (rule conjunct1)
  moreover have "pm_skipped_complete sample_membership" "pm_skipped sample_membership = []"
    by (simp_all add: sample_membership_def)
  ultimately show ?thesis by (metis Un_empty_right image_is_empty list.set(1))
qed

end
