(* ===== verification/Playlists.thy ===== *)
theory Playlists
  imports Song_Types "HOL-Library.Multiset" "HOL-Library.Product_Lexorder"
begin

text \<open>
  Playlists (\<open>db/queries/playlists.py\<close>, the sharing helpers of \<open>db/queries/sharing.py\<close>): the
  tables of playlists and entries, and the operations that keep the positions of a playlist's
  entries.  Ids of new rows and share slugs (uuids) are arguments.  Deleting a take deletes the
  entries that hold it (\<open>ON DELETE CASCADE\<close>).  A playlist's page lists the entries by position
  (\<open>playlist_view\<close>).
\<close>

record playlist_entry =
  e_id :: string
  e_playlist_id :: string
  e_generation_id :: string
  e_position :: int

record playlist_row =
  pl_id :: string
  pl_title :: string
  pl_slug :: string
  pl_cover_key :: "string option"
  pl_created_by :: "string option"
  pl_is_shared :: bool
  pl_share_slug :: "string option"

record playlist_song =
  ps_id :: string
  ps_title :: string
  ps_track_number :: int
  ps_takes :: "string list"

record playlist_db =
  pd_playlists :: "playlist_row list"
  pd_entries :: "playlist_entry list"
  pd_takes :: "generation list"

datatype playlist_error = Playlist_Value_Error string | Archived_Take string

record album_skip =
  as_song_id :: string
  as_title :: string
  as_reason :: string

subsection \<open>Which take stands for a song\<close>

definition newest_take_key :: "generation \<Rightarrow> int \<times> string" where
  "newest_take_key gen =
     (case g_created_at gen of Some created \<Rightarrow> - created | None \<Rightarrow> 0, g_id gen)"

definition best_playable_generation :: "generation list \<Rightarrow> generation option" where
  "best_playable_generation gens =
     (let live = filter is_playable_take gens
      in if live = [] then None
         else case find g_is_picked live of
                Some gen \<Rightarrow> Some gen
              | None \<Rightarrow> Some (hd (sort_key newest_take_key live)))"

definition song_takes :: "playlist_db \<Rightarrow> playlist_song \<Rightarrow> generation list" where
  "song_takes db song = List.map_filter (\<lambda>i. table_get g_id i (pd_takes db)) (ps_takes song)"

subsection \<open>Playlists\<close>

definition find_playlist :: "string \<Rightarrow> playlist_db \<Rightarrow> playlist_row option" where
  "find_playlist pid db = table_get pl_id pid (pd_playlists db)"

definition create_playlist ::
    "string \<Rightarrow> string \<Rightarrow> string \<Rightarrow> string \<Rightarrow> playlist_db \<Rightarrow> playlist_row \<times> playlist_db" where
  "create_playlist new_id title user_id slug db =
     (let p = \<lparr>pl_id = new_id, pl_title = title, pl_slug = slug, pl_cover_key = None,
               pl_created_by = Some user_id, pl_is_shared = False, pl_share_slug = None\<rparr>
      in (p, db\<lparr>pd_playlists := pd_playlists db @ [p]\<rparr>))"

definition playlist_missing :: "string \<Rightarrow> playlist_error" where
  "playlist_missing pid = Playlist_Value_Error (''Playlist not found: '' @ pid)"

definition change_playlist ::
    "string \<Rightarrow> (playlist_row \<Rightarrow> playlist_row) \<Rightarrow> playlist_db
     \<Rightarrow> (playlist_error + playlist_row) \<times> playlist_db" where
  "change_playlist pid f db =
     (case find_playlist pid db of
        None \<Rightarrow> (Inl (playlist_missing pid), db)
      | Some p \<Rightarrow> (Inr (f p), db\<lparr>pd_playlists := table_update pl_id pid f (pd_playlists db)\<rparr>))"

text \<open>\<open>session.delete\<close> of a playlist deletes its entries with it.\<close>

definition delete_playlist :: "string \<Rightarrow> playlist_db \<Rightarrow> (playlist_error + unit) \<times> playlist_db" where
  "delete_playlist pid db =
     (case find_playlist pid db of
        None \<Rightarrow> (Inl (playlist_missing pid), db)
      | Some _ \<Rightarrow>
          (Inr (), db\<lparr>pd_playlists := filter (\<lambda>p. pl_id p \<noteq> pid) (pd_playlists db),
                      pd_entries := filter (\<lambda>e. e_playlist_id e \<noteq> pid) (pd_entries db)\<rparr>))"

definition update_playlist ::
    "string \<Rightarrow> string \<Rightarrow> string \<Rightarrow> playlist_db \<Rightarrow> (playlist_error + playlist_row) \<times> playlist_db" where
  "update_playlist pid title slug = change_playlist pid (\<lambda>p. p\<lparr>pl_title := title, pl_slug := slug\<rparr>)"

definition set_playlist_cover_key ::
    "string \<Rightarrow> string option \<Rightarrow> playlist_db \<Rightarrow> (playlist_error + playlist_row) \<times> playlist_db" where
  "set_playlist_cover_key pid cover_key = change_playlist pid (\<lambda>p. p\<lparr>pl_cover_key := cover_key\<rparr>)"

definition enable_sharing ::
    "string \<Rightarrow> string \<Rightarrow> playlist_db \<Rightarrow> (playlist_error + playlist_row) \<times> playlist_db" where
  "enable_sharing new_slug pid =
     change_playlist pid (\<lambda>p. p\<lparr>pl_share_slug :=
         (if pl_share_slug p \<in> {None, Some ''''} then Some new_slug else pl_share_slug p),
       pl_is_shared := True\<rparr>)"

definition disable_sharing ::
    "string \<Rightarrow> playlist_db \<Rightarrow> (playlist_error + playlist_row) \<times> playlist_db" where
  "disable_sharing pid = change_playlist pid (\<lambda>p. p\<lparr>pl_share_slug := None, pl_is_shared := False\<rparr>)"

definition get_playlist_by_slug :: "string \<Rightarrow> playlist_db \<Rightarrow> playlist_row option" where
  "get_playlist_by_slug slug db =
     find (\<lambda>p. pl_share_slug p = Some slug \<and> pl_is_shared p) (pd_playlists db)"

subsection \<open>Entries\<close>

definition entries_of :: "string \<Rightarrow> playlist_db \<Rightarrow> playlist_entry list" where
  "entries_of pid db = filter (\<lambda>e. e_playlist_id e = pid) (pd_entries db)"

definition playlist_view :: "string \<Rightarrow> playlist_db \<Rightarrow> playlist_entry list" where
  "playlist_view pid db = sort_key e_position (entries_of pid db)"

definition next_position :: "string \<Rightarrow> playlist_db \<Rightarrow> int" where
  "next_position pid db =
     (case sort_key (\<lambda>e. - e_position e) (entries_of pid db) of
        [] \<Rightarrow> 0
      | e # _ \<Rightarrow> e_position e + 1)"

definition lock_unarchived_generation :: "string \<Rightarrow> playlist_db \<Rightarrow> playlist_error + generation" where
  "lock_unarchived_generation gid db =
     (case table_get g_id gid (pd_takes db) of
        None \<Rightarrow> Inl (Playlist_Value_Error (''Generation not found: '' @ gid))
      | Some gen \<Rightarrow> if g_is_archived gen then Inl (Archived_Take gid) else Inr gen)"

definition add_generation_to_playlist ::
    "string \<Rightarrow> string \<Rightarrow> string \<Rightarrow> playlist_db \<Rightarrow> (playlist_error + playlist_entry) \<times> playlist_db" where
  "add_generation_to_playlist new_id pid gid db =
     (case lock_unarchived_generation gid db of
        Inl e \<Rightarrow> (Inl e, db)
      | Inr _ \<Rightarrow>
          (let entry = \<lparr>e_id = new_id, e_playlist_id = pid, e_generation_id = gid,
                        e_position = next_position pid db\<rparr>
           in (Inr entry,
               db\<lparr>pd_entries := pd_entries db @ [entry],
                  pd_takes := table_update g_id gid (\<lambda>g. g\<lparr>g_is_kept := True\<rparr>) (pd_takes db)\<rparr>)))"

definition add_song_to_playlist ::
    "string \<Rightarrow> string \<Rightarrow> playlist_song \<Rightarrow> playlist_db
     \<Rightarrow> (playlist_error + playlist_entry option) \<times> playlist_db" where
  "add_song_to_playlist new_id pid song db =
     (case best_playable_generation (song_takes db song) of
        None \<Rightarrow> (Inr None, db)
      | Some gen \<Rightarrow>
          (case add_generation_to_playlist new_id pid (g_id gen) db of
             (Inl e, db') \<Rightarrow> (Inl e, db')
           | (Inr entry, db') \<Rightarrow> (Inr (Some entry), db')))"

definition skip_song :: "playlist_song \<Rightarrow> string \<Rightarrow> album_skip" where
  "skip_song song reason = \<lparr>as_song_id = ps_id song, as_title = ps_title song, as_reason = reason\<rparr>"

text \<open>The loop of \<open>add_album_to_playlist\<close>; it catches \<open>ArchivedTakeError\<close> only.\<close>

fun add_album_songs ::
    "(generation \<Rightarrow> bool) \<Rightarrow> string \<Rightarrow> (playlist_song \<times> string) list \<Rightarrow> playlist_db
     \<Rightarrow> playlist_entry list \<Rightarrow> album_skip list
     \<Rightarrow> (playlist_error + playlist_entry list \<times> album_skip list) \<times> playlist_db" where
  "add_album_songs is_readable pid [] db entries skipped = (Inr (entries, skipped), db)"
| "add_album_songs is_readable pid ((song, new_id) # songs) db entries skipped =
     (case best_playable_generation (song_takes db song) of
        None \<Rightarrow> add_album_songs is_readable pid songs db entries
                  (skipped @ [skip_song song ''no_playable_take''])
      | Some gen \<Rightarrow>
          if \<not> is_readable gen
          then add_album_songs is_readable pid songs db entries
                 (skipped @ [skip_song song ''missing_audio''])
          else (case add_generation_to_playlist new_id pid (g_id gen) db of
                  (Inr entry, db') \<Rightarrow>
                    add_album_songs is_readable pid songs db' (entries @ [entry]) skipped
                | (Inl (Archived_Take _), db') \<Rightarrow>
                    add_album_songs is_readable pid songs db' entries
                      (skipped @ [skip_song song ''no_playable_take''])
                | (Inl e, db') \<Rightarrow> (Inl e, db')))"

definition album_order :: "(playlist_song \<times> string) list \<Rightarrow> (playlist_song \<times> string) list" where
  "album_order = sort_key (\<lambda>(song, _). (ps_track_number song, ps_id song))"

text \<open>Each song comes with the id its entry gets if one is added.\<close>

definition add_album_to_playlist ::
    "(generation \<Rightarrow> bool) \<Rightarrow> string \<Rightarrow> (playlist_song \<times> string) list \<Rightarrow> playlist_db
     \<Rightarrow> (playlist_error + playlist_entry list \<times> album_skip list) \<times> playlist_db" where
  "add_album_to_playlist is_readable pid songs db =
     add_album_songs is_readable pid (album_order songs) db [] []"

definition find_entry :: "string \<Rightarrow> string \<Rightarrow> playlist_db \<Rightarrow> playlist_entry option" where
  "find_entry pid eid db = find (\<lambda>e. e_id e = eid \<and> e_playlist_id e = pid) (pd_entries db)"

definition entry_missing :: "string \<Rightarrow> playlist_error" where
  "entry_missing eid = Playlist_Value_Error (''Playlist entry not found: '' @ eid)"

definition remove_from_playlist ::
    "string \<Rightarrow> string \<Rightarrow> playlist_db \<Rightarrow> (playlist_error + unit) \<times> playlist_db" where
  "remove_from_playlist pid eid db =
     (case find_entry pid eid db of
        None \<Rightarrow> (Inl (entry_missing eid), db)
      | Some entry \<Rightarrow>
          (let removed_pos = e_position entry;
               rest = filter (\<lambda>e. e_id e \<noteq> eid) (pd_entries db)
           in (Inr (), db\<lparr>pd_entries := map (\<lambda>e.
                 if e_playlist_id e = pid \<and> removed_pos < e_position e
                 then e\<lparr>e_position := e_position e - 1\<rparr> else e) rest\<rparr>)))"

definition reorder_playlist_entry ::
    "string \<Rightarrow> string \<Rightarrow> int \<Rightarrow> playlist_db \<Rightarrow> (playlist_error + unit) \<times> playlist_db" where
  "reorder_playlist_entry pid eid new_position db =
     (case find_entry pid eid db of
        None \<Rightarrow> (Inl (entry_missing eid), db)
      | Some entry \<Rightarrow>
          (let old_pos = e_position entry
           in if old_pos = new_position then (Inr (), db)
              else (let shifted =
                      (if new_position < old_pos
                       then map (\<lambda>e. if e_playlist_id e = pid \<and> new_position \<le> e_position e
                                        \<and> e_position e < old_pos
                                     then e\<lparr>e_position := e_position e + 1\<rparr> else e) (pd_entries db)
                       else map (\<lambda>e. if e_playlist_id e = pid \<and> old_pos < e_position e
                                        \<and> e_position e \<le> new_position
                                     then e\<lparr>e_position := e_position e - 1\<rparr> else e) (pd_entries db))
                    in (Inr (), db\<lparr>pd_entries := map (\<lambda>e. if e_id e = eid
                          then e\<lparr>e_position := new_position\<rparr> else e) shifted\<rparr>))))"

text \<open>The effect of deleting a take (\<open>delete_generation\<close>) on the tables: the foreign key of
  \<open>playlist_entries\<close> cascades.\<close>

definition delete_take :: "string \<Rightarrow> playlist_db \<Rightarrow> playlist_db" where
  "delete_take gid db =
     db\<lparr>pd_takes := filter (\<lambda>g. g_id g \<noteq> gid) (pd_takes db),
        pd_entries := filter (\<lambda>e. e_generation_id e \<noteq> gid) (pd_entries db)\<rparr>"

subsection \<open>Positions\<close>

definition positions :: "nat \<Rightarrow> playlist_entry list \<Rightarrow> bool" where
  "positions k es \<longleftrightarrow> map e_position es = map int [k..<k + length es]"

lemma positions_Nil [simp]: "positions k []"
  by (simp add: positions_def)

lemma positions_Cons: "positions k (e # es) \<longleftrightarrow> e_position e = int k \<and> positions (Suc k) es"
proof -
  have "[k..<k + length (e # es)] = k # [Suc k..<Suc k + length es]"
    by (simp add: upt_conv_Cons del: upt_Suc)
  then show ?thesis by (simp add: positions_def del: upt_Suc)
qed

lemma positions_append: "positions k (es @ fs) \<longleftrightarrow> positions k es \<and> positions (k + length es) fs"
  by (induction es arbitrary: k) (auto simp: positions_Cons)

lemma positions_range: "positions k es \<Longrightarrow> e \<in> set es \<Longrightarrow> int k \<le> e_position e \<and> e_position e < int (k + length es)"
  by (induction es arbitrary: k) (fastforce simp: positions_Cons)+

definition shift :: "int \<Rightarrow> playlist_entry \<Rightarrow> playlist_entry" where
  "shift d e = e\<lparr>e_position := e_position e + d\<rparr>"

lemma shift_id [simp]: "e_id (shift d e) = e_id e" "e_playlist_id (shift d e) = e_playlist_id e"
  by (simp_all add: shift_def)

lemma shift_ids: "map e_id (map (shift d) es) = map e_id es"
  by simp

lemma positions_shift_down: "positions (Suc k) es \<Longrightarrow> positions k (map (shift (- 1)) es)"
  by (induction es arbitrary: k) (simp_all add: positions_Cons shift_def)

lemma positions_shift_up: "positions k es \<Longrightarrow> positions (Suc k) (map (shift 1) es)"
  by (induction es arbitrary: k) (simp_all add: positions_Cons shift_def)

text \<open>The positions of a playlist are 0, 1, 2, ... without a gap.\<close>

definition tidy :: "string \<Rightarrow> playlist_db \<Rightarrow> bool" where
  "tidy pid db \<longleftrightarrow> positions 0 (playlist_view pid db)"

definition playlists_ok :: "playlist_db \<Rightarrow> bool" where
  "playlists_ok db \<longleftrightarrow> distinct (map e_id (pd_entries db)) \<and> (\<forall>pid. tidy pid db)"

lemma view_unique:
  assumes "mset es = mset (entries_of pid db)" and "positions 0 es"
  shows "playlist_view pid db = es" and "tidy pid db"
proof -
  have "distinct (map e_position es)" and sorted: "sorted (map e_position es)"
    using assms(2) by (simp_all add: positions_def distinct_map inj_on_def sorted_map)
  then have "inj_on e_position (set (entries_of pid db))"
    using mset_eq_setD [OF assms(1)] by (metis distinct_map)
  then show view: "playlist_view pid db = es"
    unfolding playlist_view_def by (rule sort_key_inj_key_eq [OF assms(1) [symmetric] _ sorted])
  show "tidy pid db" using assms(2) by (simp add: tidy_def view)
qed

lemma view_mset: "mset (playlist_view pid db) = mset (entries_of pid db)"
  by (simp add: playlist_view_def)

lemma view_ids_distinct: "distinct (map e_id (pd_entries db)) \<Longrightarrow> distinct (map e_id (playlist_view pid db))"
proof -
  assume "distinct (map e_id (pd_entries db))"
  then have "distinct (map e_id (entries_of pid db))"
    by (simp add: entries_of_def distinct_map_filter)
  then show ?thesis by (metis mset_map mset_eq_imp_distinct_iff view_mset)
qed

lemma find_entry_Some:
  "find_entry pid eid db = Some e \<Longrightarrow> e \<in> set (pd_entries db) \<and> e_id e = eid \<and> e_playlist_id e = pid"
  by (auto simp: find_entry_def find_Some_iff)

lemma find_entry_view:
  assumes "distinct (map e_id (pd_entries db))"
  shows "find_entry pid eid db = None \<longleftrightarrow> eid \<notin> e_id ` set (playlist_view pid db)"
    and "find_entry pid eid db = Some e \<Longrightarrow> e \<in> set (playlist_view pid db)"
proof -
  have mem: "x \<in> set (playlist_view pid db) \<longleftrightarrow> x \<in> set (pd_entries db) \<and> e_playlist_id x = pid" for x
    by (auto simp: playlist_view_def entries_of_def)
  show "find_entry pid eid db = None \<longleftrightarrow> eid \<notin> e_id ` set (playlist_view pid db)"
    unfolding find_entry_def find_None_iff image_iff using mem by blast
  show "find_entry pid eid db = Some e \<Longrightarrow> e \<in> set (playlist_view pid db)"
    using find_entry_Some by (simp add: mem)
qed

subsection \<open>Operations that rewrite positions\<close>

text \<open>A row-wise rewriting that keeps ids and playlists, and touches one playlist only.\<close>

definition repositions :: "string \<Rightarrow> (playlist_entry \<Rightarrow> playlist_entry) \<Rightarrow> playlist_db \<Rightarrow> bool" where
  "repositions pid f db \<longleftrightarrow> (\<forall>e \<in> set (pd_entries db). e_id (f e) = e_id e
     \<and> e_playlist_id (f e) = e_playlist_id e \<and> (e_playlist_id e \<noteq> pid \<longrightarrow> f e = e))"

lemma repositions_entries:
  assumes "repositions pid f db"
  shows "entries_of pid' (db\<lparr>pd_entries := map f (pd_entries db)\<rparr>) =
      (if pid' = pid then map f (entries_of pid db) else entries_of pid' db)"
    and "map e_id (map f (pd_entries db)) = map e_id (pd_entries db)"
proof -
  have "filter (\<lambda>e. e_playlist_id e = pid') (map f es) =
      (if pid' = pid then map f (filter (\<lambda>e. e_playlist_id e = pid) es)
       else filter (\<lambda>e. e_playlist_id e = pid') es)"
    if "\<forall>e \<in> set es. e_playlist_id (f e) = e_playlist_id e \<and> (e_playlist_id e \<noteq> pid \<longrightarrow> f e = e)" for es
    using that by (induction es) auto
  then show "entries_of pid' (db\<lparr>pd_entries := map f (pd_entries db)\<rparr>) =
      (if pid' = pid then map f (entries_of pid db) else entries_of pid' db)"
    using assms by (simp add: entries_of_def repositions_def)
  show "map e_id (map f (pd_entries db)) = map e_id (pd_entries db)"
    using assms by (simp add: repositions_def)
qed

lemma view_cong: "entries_of pid db' = entries_of pid db \<Longrightarrow> playlist_view pid db' = playlist_view pid db"
  by (simp add: playlist_view_def)

lemma rewritten_ok:
  assumes ok: "playlists_ok db" and rw: "repositions pid f db"
    and es: "mset es = mset (map f (playlist_view pid db))" and pos: "positions 0 es"
  defines "db' \<equiv> db\<lparr>pd_entries := map f (pd_entries db)\<rparr>"
  shows "playlists_ok db'" and "playlist_view pid db' = es"
    and "pid' \<noteq> pid \<Longrightarrow> playlist_view pid' db' = playlist_view pid' db"
proof -
  have "mset es = mset (entries_of pid db')"
    unfolding db'_def repositions_entries(1) [OF rw] using es by (simp add: view_mset)
  note own = view_unique [OF this pos]
  then show "playlist_view pid db' = es" by simp
  have other: "playlist_view p db' = playlist_view p db" if "p \<noteq> pid" for p
    using repositions_entries(1) [OF rw, of p] that unfolding db'_def by (intro view_cong) simp
  then show "pid' \<noteq> pid \<Longrightarrow> playlist_view pid' db' = playlist_view pid' db" by blast
  have "tidy p db'" for p
    using own other [of p] ok by (cases "p = pid") (simp_all add: playlists_ok_def tidy_def)
  moreover have "map e_id (pd_entries db') = map e_id (pd_entries db)"
    using repositions_entries(2) [OF rw] by (simp add: db'_def)
  ultimately show "playlists_ok db'" using ok unfolding playlists_ok_def by metis
qed

definition move_to :: "'a \<Rightarrow> nat \<Rightarrow> 'a list \<Rightarrow> 'a list" where
  "move_to x n xs = (let ys = filter (\<lambda>y. y \<noteq> x) xs in take n ys @ x # drop n ys)"

lemma move_to_split:
  assumes "distinct (as @ x # bs)" and "length ps = n" and "as @ bs = ps @ qs"
  shows "move_to x n (as @ x # bs) = ps @ x # qs"
proof -
  have "filter (\<lambda>y. y \<noteq> x) as = as" "filter (\<lambda>y. y \<noteq> x) bs = bs"
    using assms(1) by (auto simp: filter_id_conv)
  then show ?thesis using assms(2,3) by (simp add: move_to_def)
qed

definition reorder_row ::
    "string \<Rightarrow> string \<Rightarrow> int \<Rightarrow> int \<Rightarrow> playlist_entry \<Rightarrow> playlist_entry" where
  "reorder_row pid eid old_pos new_position e =
     (if e_id e = eid then e\<lparr>e_position := new_position\<rparr>
      else if e_playlist_id e = pid \<and> new_position \<le> e_position e \<and> e_position e < old_pos
      then shift 1 e
      else if e_playlist_id e = pid \<and> old_pos < e_position e \<and> e_position e \<le> new_position
      then shift (- 1) e else e)"

lemma reorder_rows:
  assumes "find_entry pid eid db = Some entry" and "e_position entry \<noteq> new_position"
    and "distinct (map e_id (pd_entries db))"
  shows "snd (reorder_playlist_entry pid eid new_position db) =
      db\<lparr>pd_entries := map (reorder_row pid eid (e_position entry) new_position) (pd_entries db)\<rparr>"
    and "repositions pid (reorder_row pid eid (e_position entry) new_position) db"
proof -
  have own: "e = entry" if "e \<in> set (pd_entries db)" "e_id e = eid" for e
    using that find_entry_Some [OF assms(1)] assms(3) by (metis distinct_map inj_onD)
  show "snd (reorder_playlist_entry pid eid new_position db) =
      db\<lparr>pd_entries := map (reorder_row pid eid (e_position entry) new_position) (pd_entries db)\<rparr>"
    using assms(1,2)
    by (auto simp: reorder_playlist_entry_def Let_def reorder_row_def shift_def)
  show "repositions pid (reorder_row pid eid (e_position entry) new_position) db"
    using own find_entry_Some [OF assms(1)] by (auto simp: repositions_def reorder_row_def)
qed

lemma map_idI: "(\<And>x. x \<in> set xs \<Longrightarrow> f x = x) \<Longrightarrow> map f xs = xs"
  by (induction xs) auto

text \<open>The view around an entry.\<close>

lemma view_split:
  assumes "playlists_ok db" and "find_entry pid eid db = Some entry"
  obtains as bs where "playlist_view pid db = as @ entry # bs" "e_position entry = int (length as)"
    "positions 0 as" "positions (Suc (length as)) bs" "\<forall>e \<in> set (as @ bs). e_id e \<noteq> eid"
    "\<forall>e \<in> set (as @ bs). e_playlist_id e = pid"
proof -
  have ids: "distinct (map e_id (pd_entries db))" and tidy: "positions 0 (playlist_view pid db)"
    using assms(1) by (auto simp: playlists_ok_def tidy_def)
  from split_list [OF find_entry_view(2) [OF ids assms(2)]] obtain as bs where
    view: "playlist_view pid db = as @ entry # bs" by blast
  have "distinct (map e_id (as @ entry # bs))" using view_ids_distinct [OF ids, of pid] by (simp only: view)
  then have "eid \<notin> e_id ` set (as @ bs)" using find_entry_Some [OF assms(2)] by auto
  then have "\<forall>e \<in> set (as @ bs). e_id e \<noteq> eid" by (metis image_eqI)
  moreover have "\<forall>e \<in> set (playlist_view pid db). e_playlist_id e = pid"
    by (simp add: playlist_view_def entries_of_def)
  ultimately show thesis using that view tidy by (simp add: view positions_append positions_Cons)
qed

lemma reorder_effect:
  assumes ok: "playlists_ok db" and found: "find_entry pid eid db = Some entry"
    and n: "n < length (playlist_view pid db)"
  defines "db' \<equiv> snd (reorder_playlist_entry pid eid (int n) db)"
  shows "playlists_ok db'"
    and "map e_id (playlist_view pid db') = move_to eid n (map e_id (playlist_view pid db))"
    and "pid' \<noteq> pid \<Longrightarrow> playlist_view pid' db' = playlist_view pid' db"
proof -
  from view_split [OF ok found] obtain as bs where v: "playlist_view pid db = as @ entry # bs"
    "e_position entry = int (length as)" "positions 0 as" "positions (Suc (length as)) bs"
    "\<forall>e \<in> set (as @ bs). e_id e \<noteq> eid" "\<forall>e \<in> set (as @ bs). e_playlist_id e = pid" .
  have ids: "distinct (map e_id (pd_entries db))" using ok by (simp add: playlists_ok_def)
  have own: "e_id entry = eid" using find_entry_Some [OF found] by blast
  have dist: "distinct (map e_id as @ eid # map e_id bs)"
    using view_ids_distinct [OF ids, of pid] by (simp add: v(1) own)
  have "playlists_ok db' \<and> map e_id (playlist_view pid db') = move_to eid n (map e_id (playlist_view pid db))
      \<and> (\<forall>pid'. pid' \<noteq> pid \<longrightarrow> playlist_view pid' db' = playlist_view pid' db)"
  proof (cases "n = length as")
    case True
    then have "db' = db" using found v(2) by (simp add: db'_def reorder_playlist_entry_def)
    moreover have "move_to eid n (map e_id as @ eid # map e_id bs) = map e_id as @ eid # map e_id bs"
      using True by (intro move_to_split [OF dist]) simp_all
    ultimately show ?thesis using ok by (simp add: v(1) own)
  next
    case False
    then have differ: "e_position entry \<noteq> int n" using v(2) by simp
    let ?f = "reorder_row pid eid (e_position entry) (int n)"
    note rows = reorder_rows [OF found differ ids]
    have db': "db' = db\<lparr>pd_entries := map ?f (pd_entries db)\<rparr>" unfolding db'_def by (rule rows(1))
    let ?entry = "entry\<lparr>e_position := int n\<rparr>"
    have fentry: "?f entry = ?entry" by (simp add: reorder_row_def own)
    have range_as: "0 \<le> e_position e \<and> e_position e < int (length as)" if "e \<in> set as" for e
      using positions_range [OF v(3) that] by simp
    have range_bs: "int (length as) < e_position e" if "e \<in> set bs" for e
      using positions_range [OF v(4) that] by simp
    obtain ps qs rs where part: "mset (ps @ ?entry # qs) = mset (map ?f (playlist_view pid db))"
      "positions 0 (ps @ ?entry # qs)" "length ps = n" "map e_id as @ map e_id bs = map e_id ps @ map e_id qs"
    proof (cases "n < length as")
      case True
      let ?ps = "take n as" and ?qs = "drop n as"
      have split: "positions 0 ?ps" "positions n ?qs"
        using v(3) positions_append [of 0 ?ps ?qs] True by simp_all
      have "map ?f ?ps = ?ps"
      proof (rule map_idI)
        fix e assume e: "e \<in> set ?ps"
        then have "e \<in> set as" by (rule in_set_takeD)
        then show "?f e = e"
          using positions_range [OF split(1) e] range_as [of e] v(5) True by (auto simp: reorder_row_def v(2))
      qed
      moreover have "map ?f ?qs = map (shift 1) ?qs"
      proof (rule map_cong [OF refl])
        fix e assume e: "e \<in> set ?qs"
        then have "e \<in> set as" by (rule in_set_dropD)
        then show "?f e = shift 1 e"
          using positions_range [OF split(2) e] range_as v(5,6) by (auto simp: reorder_row_def v(2))
      qed
      moreover have "map ?f bs = bs"
      proof (rule map_idI)
        fix e assume e: "e \<in> set bs"
        then show "?f e = e" using range_bs [OF e] v(5) True by (auto simp: reorder_row_def v(2))
      qed
      ultimately have "map ?f (playlist_view pid db) = ?ps @ map (shift 1) ?qs @ ?entry # bs"
        unfolding v(1) by (metis (no_types, lifting) append_assoc append_take_drop_id fentry list.simps(9) map_append)
      then have "mset (?ps @ ?entry # map (shift 1) ?qs @ bs) = mset (map ?f (playlist_view pid db))"
        by simp
      moreover have "positions 0 (?ps @ ?entry # map (shift 1) ?qs @ bs)"
        using split positions_shift_up [OF split(2)] v(4) True
        by (simp add: positions_append positions_Cons)
      moreover have "map e_id as @ map e_id bs = map e_id ?ps @ map e_id (map (shift 1) ?qs @ bs)"
        by (simp only: map_append shift_ids append_assoc [symmetric])
          (simp only: map_append [symmetric] append_take_drop_id)
      ultimately show thesis using True by (intro that) auto
    next
      case False
      with \<open>n \<noteq> length as\<close> have gt: "length as < n" by simp
      let ?k = "n - length as"
      let ?qs = "take ?k bs" and ?rs = "drop ?k bs"
      have le: "?k \<le> length bs" using n gt by (simp add: v(1))
      have split: "positions (Suc (length as)) ?qs" "positions (Suc n) ?rs"
        using v(4) positions_append [of "Suc (length as)" ?qs ?rs] le gt by simp_all
      have "map ?f as = as"
      proof (rule map_idI)
        fix e assume e: "e \<in> set as"
        then show "?f e = e" using range_as [OF e] v(5) gt by (auto simp: reorder_row_def v(2))
      qed
      moreover have "map ?f ?qs = map (shift (- 1)) ?qs"
      proof (rule map_cong [OF refl])
        fix e assume e: "e \<in> set ?qs"
        then have "e \<in> set bs" by (rule in_set_takeD)
        then show "?f e = shift (- 1) e"
          using positions_range [OF split(1) e] range_bs v(5,6) le gt by (auto simp: reorder_row_def v(2))
      qed
      moreover have "map ?f ?rs = ?rs"
      proof (rule map_idI)
        fix e assume e: "e \<in> set ?rs"
        then have "e \<in> set bs" by (rule in_set_dropD)
        then show "?f e = e"
          using positions_range [OF split(2) e] range_bs v(5) gt by (auto simp: reorder_row_def v(2))
      qed
      ultimately have "map ?f (playlist_view pid db) = as @ ?entry # map (shift (- 1)) ?qs @ ?rs"
        unfolding v(1) by (metis (no_types, lifting) append_take_drop_id fentry list.simps(9) map_append)
      then have "mset ((as @ map (shift (- 1)) ?qs) @ ?entry # ?rs) = mset (map ?f (playlist_view pid db))"
        by simp
      moreover have "positions 0 ((as @ map (shift (- 1)) ?qs) @ ?entry # ?rs)"
        using split positions_shift_down [OF split(1)] v(3) le gt
        by (simp add: positions_append positions_Cons)
      moreover have "map e_id as @ map e_id bs = map e_id (as @ map (shift (- 1)) ?qs) @ map e_id ?rs"
        by (simp only: map_append shift_ids append_assoc)
          (simp only: map_append [symmetric] append_take_drop_id)
      moreover have "length (as @ map (shift (- 1)) ?qs) = n" using le gt by simp
      ultimately show thesis by (intro that)
    qed
    have "map e_id (ps @ ?entry # qs) = move_to eid n (map e_id (playlist_view pid db))"
      using move_to_split [OF dist _ part(4)] part(3) by (simp add: v(1) own)
    then show ?thesis
      using rewritten_ok [OF ok rows(2) part(1,2)] unfolding db' by simp
  qed
  then show "playlists_ok db'"
    and "map e_id (playlist_view pid db') = move_to eid n (map e_id (playlist_view pid db))"
    and "pid' \<noteq> pid \<Longrightarrow> playlist_view pid' db' = playlist_view pid' db"
    by blast+
qed

lemma entries_of_filter:
  "entries_of pid (db\<lparr>pd_entries := filter P (pd_entries db)\<rparr>) = filter P (entries_of pid db)"
  by (simp add: entries_of_def conj_commute)

lemma remove_effect:
  assumes ok: "playlists_ok db" and found: "find_entry pid eid db = Some entry"
  defines "db' \<equiv> snd (remove_from_playlist pid eid db)"
  shows "playlists_ok db'"
    and "map e_id (playlist_view pid db') = filter (\<lambda>i. i \<noteq> eid) (map e_id (playlist_view pid db))"
    and "pid' \<noteq> pid \<Longrightarrow> playlist_view pid' db' = playlist_view pid' db"
proof -
  from view_split [OF ok found] obtain as bs where v: "playlist_view pid db = as @ entry # bs"
    "e_position entry = int (length as)" "positions 0 as" "positions (Suc (length as)) bs"
    "\<forall>e \<in> set (as @ bs). e_id e \<noteq> eid" "\<forall>e \<in> set (as @ bs). e_playlist_id e = pid" .
  have ids: "distinct (map e_id (pd_entries db))" using ok by (simp add: playlists_ok_def)
  have own: "e_id entry = eid" "e_playlist_id entry = pid" "entry \<in> set (pd_entries db)"
    using find_entry_Some [OF found] by blast+
  have only: "e = entry" if "e \<in> set (pd_entries db)" "e_id e = eid" for e
    using that own(1,3) ids by (metis distinct_map inj_onD)
  define db0 where "db0 = db\<lparr>pd_entries := filter (\<lambda>e. e_id e \<noteq> eid) (pd_entries db)\<rparr>"
  define g where "g = (\<lambda>e. if e_playlist_id e = pid \<and> e_position entry < e_position e then shift (- 1) e else e)"
  have db': "db' = db0\<lparr>pd_entries := map g (pd_entries db0)\<rparr>"
    using found by (simp add: db'_def remove_from_playlist_def Let_def db0_def g_def shift_def)
  have rw: "repositions pid g db0" by (simp add: repositions_def g_def)
  have "mset (entries_of pid db0) = filter_mset (\<lambda>e. e_id e \<noteq> eid) (mset (playlist_view pid db))"
    by (simp add: db0_def entries_of_filter view_mset)
  also have "\<dots> = mset (filter (\<lambda>e. e_id e \<noteq> eid) (as @ entry # bs))" by (simp only: v(1) mset_filter)
  also have "\<dots> = mset (as @ bs)" using v(5) own(1) by (simp add: filter_id_conv)
  finally have "mset (map g (entries_of pid db0)) = mset (map g (as @ bs))" by (simp only: mset_map)
  moreover have "map g as = as"
  proof (rule map_idI)
    fix e assume "e \<in> set as"
    then show "g e = e" using positions_range [OF v(3)] by (fastforce simp: g_def v(2))
  qed
  moreover have "map g bs = map (shift (- 1)) bs"
  proof (rule map_cong [OF refl])
    fix e assume "e \<in> set bs"
    then show "g e = shift (- 1) e" using positions_range [OF v(4)] v(6) by (fastforce simp: g_def v(2))
  qed
  ultimately have ms: "mset (as @ map (shift (- 1)) bs) = mset (entries_of pid db')"
    unfolding db' repositions_entries(1) [OF rw] by simp
  have pos: "positions 0 (as @ map (shift (- 1)) bs)"
    using v(3) positions_shift_down [OF v(4)] by (simp add: positions_append)
  note view = view_unique [OF ms pos]
  have other: "playlist_view p db' = playlist_view p db" if "p \<noteq> pid" for p
  proof (rule view_cong)
    have "entries_of p db' = entries_of p db0" using rw that unfolding db' by (simp add: repositions_entries)
    also have "\<dots> = entries_of p db" using only own(2) that
      by (auto simp: db0_def entries_of_def filter_id_conv intro!: filter_cong)
    finally show "entries_of p db' = entries_of p db" .
  qed
  then show "pid' \<noteq> pid \<Longrightarrow> playlist_view pid' db' = playlist_view pid' db" by blast
  have "tidy p db'" for p
    using view other [of p] ok by (cases "p = pid") (simp_all add: playlists_ok_def tidy_def)
  moreover have "distinct (map e_id (pd_entries db'))"
    using ids rw by (simp add: db' repositions_entries(2) del: map_map) (simp add: db0_def distinct_map_filter)
  ultimately show "playlists_ok db'" by (simp add: playlists_ok_def)
  show "map e_id (playlist_view pid db') = filter (\<lambda>i. i \<noteq> eid) (map e_id (playlist_view pid db))"
    using v(5) own(1) by (auto simp: view(1) v(1) filter_map comp_def filter_id_conv)
qed

lemma next_position_tidy:
  assumes "tidy pid db"
  shows "next_position pid db = int (length (playlist_view pid db))"
proof -
  let ?v = "playlist_view pid db"
  have pos: "map e_position ?v = map int [0..<length ?v]"
    using assms by (simp add: tidy_def positions_def)
  have "inj_on (\<lambda>e. - e_position e) (set ?v)"
  proof -
    have "distinct (map e_position ?v)" by (simp add: pos distinct_map inj_on_def)
    then show ?thesis by (auto simp: distinct_map inj_on_def)
  qed
  then have "inj_on (\<lambda>e. - e_position e) (set (entries_of pid db))"
    using mset_eq_setD [OF view_mset] by metis
  moreover have "sorted (map (\<lambda>e. - e_position e) (rev ?v))"
  proof -
    have "map (\<lambda>e. - e_position e) (rev ?v) = map uminus (rev (map int [0..<length ?v]))"
      by (simp only: pos [symmetric] rev_map map_map comp_def)
    moreover have "sorted (map uminus (rev (map int [0..<n])))" for n
      by (induction n) (auto simp: sorted_append)
    ultimately show ?thesis by metis
  qed
  ultimately have "sort_key (\<lambda>e. - e_position e) (entries_of pid db) = rev ?v"
    by (intro sort_key_inj_key_eq) (simp_all add: view_mset)
  moreover have "e_position (last ?v) = int (length ?v) - 1" if "?v \<noteq> []"
    using that assms by (cases ?v rule: rev_cases) (auto simp: tidy_def positions_append positions_Cons)
  ultimately show ?thesis
    by (cases ?v rule: rev_cases) (auto simp: next_position_def)
qed

lemma add_effect:
  assumes ok: "playlists_ok db" and fresh: "new_id \<notin> e_id ` set (pd_entries db)"
    and add: "add_generation_to_playlist new_id pid gid db = (Inr entry, db')"
  shows "playlists_ok db'" and "playlist_view pid db' = playlist_view pid db @ [entry]"
    and "pid' \<noteq> pid \<Longrightarrow> playlist_view pid' db' = playlist_view pid' db"
    and "e_id entry = new_id" and "e_generation_id entry = gid"
    and "pd_entries db' = pd_entries db @ [entry]"
    and "pd_takes db' = table_update g_id gid (\<lambda>g. g\<lparr>g_is_kept := True\<rparr>) (pd_takes db)"
proof -
  have e: "entry = \<lparr>e_id = new_id, e_playlist_id = pid, e_generation_id = gid,
      e_position = next_position pid db\<rparr>" and db': "pd_entries db' = pd_entries db @ [entry]"
    and takes: "pd_takes db' = table_update g_id gid (\<lambda>g. g\<lparr>g_is_kept := True\<rparr>) (pd_takes db)"
    using add by (auto simp: add_generation_to_playlist_def Let_def split: sum.splits)
  have tidy: "tidy pid db" using ok by (simp add: playlists_ok_def)
  have "mset (playlist_view pid db @ [entry]) = mset (entries_of pid db')"
    by (simp add: view_mset entries_of_def db' e)
  moreover have "positions 0 (playlist_view pid db @ [entry])"
    using tidy next_position_tidy [OF tidy] by (simp add: tidy_def positions_append positions_Cons e)
  ultimately have view: "playlist_view pid db' = playlist_view pid db @ [entry]" "tidy pid db'"
    by (rule view_unique)+
  have other: "playlist_view p db' = playlist_view p db" if "p \<noteq> pid" for p
    using that by (intro view_cong) (simp add: entries_of_def db' e)
  have "tidy p db'" for p
    using view(2) other [of p] ok by (cases "p = pid") (simp_all add: playlists_ok_def tidy_def)
  then show "playlists_ok db'" using ok fresh by (simp add: playlists_ok_def db' e)
  show "playlist_view pid db' = playlist_view pid db @ [entry]" by (rule view(1))
  show "pid' \<noteq> pid \<Longrightarrow> playlist_view pid' db' = playlist_view pid' db" by (rule other)
  show "e_id entry = new_id" "e_generation_id entry = gid" by (simp_all add: e)
  show "pd_entries db' = pd_entries db @ [entry]" by (rule db')
  show "pd_takes db' = table_update g_id gid (\<lambda>g. g\<lparr>g_is_kept := True\<rparr>) (pd_takes db)" by (rule takes)
qed

subsection \<open>Refinement: a playlist is a list\<close>

datatype playlist_op =
    Op_Add string string string   \<comment> \<open>new entry's id, playlist, take\<close>
  | Op_Remove string string       \<comment> \<open>playlist, entry\<close>
  | Op_Move string string nat     \<comment> \<open>playlist, entry, index\<close>

fun playlist_step :: "playlist_db \<Rightarrow> playlist_op \<Rightarrow> playlist_db" where
  "playlist_step db (Op_Add new_id pid gid) = snd (add_generation_to_playlist new_id pid gid db)"
| "playlist_step db (Op_Remove pid eid) = snd (remove_from_playlist pid eid db)"
| "playlist_step db (Op_Move pid eid n) = snd (reorder_playlist_entry pid eid (int n) db)"

fun playlist_enabled :: "playlist_db \<Rightarrow> playlist_op \<Rightarrow> bool" where
  "playlist_enabled db (Op_Add new_id pid gid) \<longleftrightarrow>
     new_id \<notin> e_id ` set (pd_entries db) \<and> (\<exists>gen. lock_unarchived_generation gid db = Inr gen)"
| "playlist_enabled db (Op_Remove pid eid) \<longleftrightarrow> True"
| "playlist_enabled db (Op_Move pid eid n) \<longleftrightarrow> n < length (playlist_view pid db)"

definition playlist_lists :: "playlist_db \<Rightarrow> string \<Rightarrow> string list" where
  "playlist_lists db pid = map e_id (playlist_view pid db)"

fun list_step :: "(string \<Rightarrow> string list) \<Rightarrow> playlist_op \<Rightarrow> string \<Rightarrow> string list" where
  "list_step f (Op_Add new_id pid gid) = f(pid := f pid @ [new_id])"
| "list_step f (Op_Remove pid eid) = f(pid := filter (\<lambda>i. i \<noteq> eid) (f pid))"
| "list_step f (Op_Move pid eid n) = (if eid \<in> set (f pid) then f(pid := move_to eid n (f pid)) else f)"

lemma playlist_simulates:
  assumes ok: "playlists_ok db" and en: "playlist_enabled db x"
  shows "playlists_ok (playlist_step db x) \<and> playlist_lists (playlist_step db x) = list_step (playlist_lists db) x"
proof (cases x)
  case (Op_Add new_id pid gid)
  then obtain gen where "lock_unarchived_generation gid db = Inr gen" using en by auto
  then obtain entry db' where add: "add_generation_to_playlist new_id pid gid db = (Inr entry, db')"
    by (simp add: add_generation_to_playlist_def Let_def)
  from add_effect [OF ok _ add] en Op_Add show ?thesis
    by (auto simp: add playlist_lists_def fun_eq_iff)
next
  case (Op_Remove pid eid)
  have ids: "distinct (map e_id (pd_entries db))" using ok by (simp add: playlists_ok_def)
  show ?thesis
  proof (cases "find_entry pid eid db")
    case None
    then have "eid \<notin> set (playlist_lists db pid)"
      using find_entry_view(1) [OF ids, of pid eid] by (simp add: playlist_lists_def)
    then have "filter (\<lambda>i. i \<noteq> eid) (playlist_lists db pid) = playlist_lists db pid"
      by (auto simp: filter_id_conv)
    then show ?thesis using None ok Op_Remove by (simp add: remove_from_playlist_def)
  next
    case (Some entry)
    from remove_effect [OF ok Some] Op_Remove show ?thesis by (auto simp: playlist_lists_def fun_eq_iff)
  qed
next
  case (Op_Move pid eid n)
  have ids: "distinct (map e_id (pd_entries db))" using ok by (simp add: playlists_ok_def)
  show ?thesis
  proof (cases "find_entry pid eid db")
    case None
    then have "eid \<notin> set (playlist_lists db pid)"
      using find_entry_view(1) [OF ids, of pid eid] by (simp add: playlist_lists_def)
    then show ?thesis using None ok Op_Move by (simp add: reorder_playlist_entry_def)
  next
    case (Some entry)
    then have "eid \<in> set (playlist_lists db pid)"
      using find_entry_view(1) [OF ids, of pid eid] by (simp add: playlist_lists_def)
    with reorder_effect [OF ok Some] en Op_Move show ?thesis
      by (auto simp: playlist_lists_def fun_eq_iff)
  qed
qed

interpretation playlist_machine: simulation playlist_step playlists_ok playlist_enabled list_step playlist_lists
  by unfold_locales (simp_all add: playlist_simulates)

text \<open>C29: A playlist is a list.  From tables whose positions are 0, 1, 2, ..., every sequence of
  additions, removals and moves within the playlist keeps the positions contiguous and does to the
  order shown exactly what appending, deleting and moving to an index do to a list; other playlists
  are untouched.\<close>

theorem playlist_refines_list:
  assumes "playlists_ok db" and "all_enabled playlist_step playlist_enabled db ops"
  shows "playlists_ok (foldl playlist_step db ops)
    \<and> playlist_lists (foldl playlist_step db ops) = foldl list_step (playlist_lists db) ops"
  using playlist_machine.run_abs [OF assms] .

text \<open>A playlist \<open>p\<close> of three entries; the second playlist is empty.\<close>

definition sample_take :: "string \<Rightarrow> int \<Rightarrow> generation" where
  "sample_take gid n = \<lparr>g_id = gid, g_song_id = ''s'', g_song = None, g_version_id = None,
     g_version = None, g_number = n, g_mp3_path = gid @ ''.mp3'', g_seed = None, g_model_mode = ''m'',
     g_is_archived = False, g_is_picked = False, g_is_kept = False, g_created_at = None\<rparr>"

definition sample_entry :: "string \<Rightarrow> string \<Rightarrow> int \<Rightarrow> playlist_entry" where
  "sample_entry eid gid k =
     \<lparr>e_id = eid, e_playlist_id = ''p'', e_generation_id = gid, e_position = k\<rparr>"

definition sample_playlists :: playlist_db where
  "sample_playlists = \<lparr>pd_playlists = [],
     pd_entries = [sample_entry ''a'' ''ta'' 0, sample_entry ''c'' ''tc'' 2, sample_entry ''b'' ''tb'' 1],
     pd_takes = [sample_take ''ta'' 1, sample_take ''tb'' 2, sample_take ''tc'' 3]\<rparr>"

lemmas sample_playlist_simps = sample_playlists_def sample_entry_def sample_take_def
  playlist_view_def entries_of_def playlist_lists_def

lemma sample_playlists_ok: "playlists_ok sample_playlists"
proof -
  have "tidy pid sample_playlists" for pid
    by (cases "pid = ''p''") (simp_all add: sample_playlist_simps tidy_def positions_def)
  then show ?thesis by (simp add: playlists_ok_def sample_playlist_simps)
qed

definition sample_playlist_ops :: "playlist_op list" where
  "sample_playlist_ops = [Op_Move ''p'' ''c'' 0, Op_Add ''d'' ''p'' ''tb'', Op_Remove ''p'' ''a'']"

theorem playlist_refines_list_witness:
  "playlists_ok (foldl playlist_step sample_playlists sample_playlist_ops)
   \<and> playlist_lists (foldl playlist_step sample_playlists sample_playlist_ops)
       = foldl list_step (playlist_lists sample_playlists) sample_playlist_ops
   \<and> foldl list_step (playlist_lists sample_playlists) sample_playlist_ops ''p'' = [''c'', ''b'', ''d'']"
proof -
  have "all_enabled playlist_step playlist_enabled sample_playlists sample_playlist_ops"
    by (simp add: sample_playlist_ops_def sample_playlist_simps reorder_playlist_entry_def find_entry_def
        lock_unarchived_generation_def table_get_def add_generation_to_playlist_def next_position_def)
  from playlist_refines_list [OF sample_playlists_ok this] show ?thesis
    by (simp add: sample_playlist_ops_def sample_playlist_simps move_to_def)
qed

text \<open>Deleting a take leaves a gap in the positions of its playlist.\<close>

lemma view_after_delete:
  assumes "playlist_view pid db = xs @ b # ys"
    and "\<forall>e \<in> set (xs @ ys). e_generation_id e \<noteq> e_generation_id b"
  shows "playlist_view pid (delete_take (e_generation_id b) db) = xs @ ys"
proof -
  let ?keep = "\<lambda>e. e_generation_id e \<noteq> e_generation_id b"
  have "playlist_view pid (delete_take (e_generation_id b) db) = filter ?keep (playlist_view pid db)"
    by (simp add: playlist_view_def entries_of_def delete_take_def filter_sort conj_commute)
  moreover have "filter ?keep xs = xs" "filter ?keep ys = ys" using assms(2) by (simp_all add: filter_id_conv)
  ultimately show ?thesis using assms(1) by simp
qed

lemma reorder_over_gap:
  assumes ids: "distinct (map e_id (pd_entries db))" and view: "playlist_view pid db = xs @ a # ys"
    and pos: "positions 0 (xs @ [a])" "positions (length xs + 2) ys"
  shows "fst (reorder_playlist_entry pid (e_id a) (int (length xs) + 1) db) = Inr ()
    \<and> map e_id (playlist_view pid (snd (reorder_playlist_entry pid (e_id a) (int (length xs) + 1) db))) = map e_id (xs @ a # ys)"
proof -
  let ?new = "int (length xs) + 1"
  have at: "e_position a = int (length xs)" using pos(1) by (simp add: positions_append positions_Cons)
  have "find_entry pid (e_id a) db \<noteq> None" by (simp add: find_entry_view(1) [OF ids] view)
  then obtain e where e: "find_entry pid (e_id a) db = Some e" by blast
  have dist: "distinct (map e_id (xs @ a # ys))" using view_ids_distinct [OF ids, of pid] by (simp add: view)
  have "e = a" using find_entry_view(2) [OF ids e] find_entry_Some [OF e] dist
    by (auto simp: view) (metis image_eqI)+
  note found = e [unfolded this]
  let ?f = "reorder_row pid (e_id a) (e_position a) ?new"
  have rows: "snd (reorder_playlist_entry pid (e_id a) ?new db) = db\<lparr>pd_entries := map ?f (pd_entries db)\<rparr>"
    "repositions pid ?f db"
    by (rule reorder_rows [OF found _ ids], simp add: at)+
  have others: "?f x = x" if "x \<in> set (xs @ ys)" for x
  proof -
    have "e_position x < int (length xs) \<or> int (length xs) + 2 \<le> e_position x"
      using that positions_range [of 0 xs x] positions_range [OF pos(2), of x] pos(1) by (auto simp: positions_append)
    moreover have "e_id x \<noteq> e_id a" using that dist by (auto simp: image_iff)
    ultimately show ?thesis by (auto simp: reorder_row_def at)
  qed
  have moved: "map ?f (xs @ a # ys) = xs @ a\<lparr>e_position := ?new\<rparr> # ys"
    using others by (auto simp: reorder_row_def intro!: map_idI)
  have keys: "map e_position (xs @ a\<lparr>e_position := ?new\<rparr> # ys)
      = map int ([0..<length xs] @ [length xs + 1] @ [length xs + 2..<length xs + 2 + length ys])"
  proof -
    have "positions 0 xs" using pos(1) by (simp add: positions_append)
    then show ?thesis using pos(2) by (simp add: positions_def del: upt_Suc)
  qed
  have sorted: "sorted (map e_position (xs @ a\<lparr>e_position := ?new\<rparr> # ys))"
    and "distinct (map e_position (xs @ a\<lparr>e_position := ?new\<rparr> # ys))"
    unfolding keys by (auto simp: sorted_append sorted_map distinct_map inj_on_def simp del: upt_Suc)
  let ?db = "snd (reorder_playlist_entry pid (e_id a) ?new db)"
  have mset: "mset (xs @ a\<lparr>e_position := ?new\<rparr> # ys) = mset (entries_of pid ?db)"
    unfolding rows(1) repositions_entries(1) [OF rows(2)] moved [symmetric] view [symmetric]
    by (simp add: view_mset)
  have "inj_on e_position (set (entries_of pid ?db))"
    using mset_eq_setD [OF mset] \<open>distinct (map e_position _)\<close> by (metis distinct_map)
  then have "playlist_view pid ?db = xs @ a\<lparr>e_position := ?new\<rparr> # ys"
    unfolding playlist_view_def by (rule sort_key_inj_key_eq [OF mset [symmetric] _ sorted])
  moreover have "fst (reorder_playlist_entry pid (e_id a) ?new db) = Inr ()"
    by (simp add: reorder_playlist_entry_def found Let_def)
  ultimately show ?thesis by simp
qed

text \<open>C30: A gap stops a move.  Deleting a take leaves a gap in the positions of its playlist: wherever in a
  playlist the take between two others is deleted, moving the entry before it to the next index, the
  request a \<^emph>\<open>move down\<close> makes, succeeds and leaves the order as it was, where a list would have swapped
  the two.\<close>

theorem gap_stops_move:
  assumes "playlists_ok db" and "playlist_view pid db = xs @ a # b # c # ys"
    and "\<forall>e \<in> set (xs @ a # c # ys). e_generation_id e \<noteq> e_generation_id b"
    and "db1 = delete_take (e_generation_id b) db"
    and "reorder_playlist_entry pid (e_id a) (int (length xs) + 1) db1 = (r, db2)"
  shows "r = Inr () \<and> map e_id (playlist_view pid db1) = map e_id (xs @ a # c # ys)
    \<and> map e_id (playlist_view pid db2) = map e_id (xs @ a # c # ys)
    \<and> list_step (playlist_lists db1) (Op_Move pid (e_id a) (length xs + 1)) pid = map e_id (xs @ c # a # ys)"
proof -
  have view: "playlist_view pid db1 = xs @ a # c # ys"
    using view_after_delete [of pid db "xs @ [a]" b "c # ys"] assms(2-4) by simp
  have "distinct (map e_id (pd_entries db))" using assms(1) by (simp add: playlists_ok_def)
  then have ids: "distinct (map e_id (pd_entries db1))"
    by (simp add: assms(4) delete_take_def distinct_map_filter)
  have "positions 0 (xs @ a # b # c # ys)" using assms(1) unfolding playlists_ok_def tidy_def assms(2) [symmetric] by blast
  then have pos: "positions 0 (xs @ [a])" "positions (length xs + 2) (c # ys)"
    by (simp_all add: positions_append positions_Cons)
  have dist: "distinct (map e_id (xs @ a # c # ys))" using view_ids_distinct [OF ids, of pid] by (simp add: view)
  have "move_to (e_id a) (length xs + 1) (map e_id xs @ e_id a # map e_id (c # ys)) = (map e_id xs @ [e_id c]) @ e_id a # map e_id ys"
    by (rule move_to_split) (use dist in simp_all)
  then show ?thesis
    using reorder_over_gap [OF ids view pos] assms(5) by (simp add: playlist_lists_def view)
qed

theorem gap_stops_move_witness:
  "let db = delete_take ''tb'' sample_playlists;
       (r, db') = reorder_playlist_entry ''p'' ''a'' 1 db
   in map e_id (playlist_view ''p'' db) = [''a'', ''c''] \<and> r = Inr ()
      \<and> map e_id (playlist_view ''p'' db') = [''a'', ''c'']
      \<and> list_step (playlist_lists db) (Op_Move ''p'' ''a'' 1) ''p'' = [''c'', ''a'']"
proof -
  have view: "playlist_view ''p'' sample_playlists
      = [] @ sample_entry ''a'' ''ta'' 0 # sample_entry ''b'' ''tb'' 1 # sample_entry ''c'' ''tc'' 2 # []"
    by (simp add: sample_playlist_simps)
  show ?thesis
    using gap_stops_move [OF sample_playlists_ok view _ refl surjective_pairing]
    by (simp add: sample_entry_def Let_def case_prod_beta)
qed

end
