(* ===== verification/Library_Cursor.thy ===== *)
theory Library_Cursor
  imports Py_Strings
begin

text \<open>
  Signed cursors of the library index (\<open>library_cursor.py\<close>).  The base64 functions of the standard
  library are modelled on bytes, the lenient decoding of CPython included; the keyed hash and the
  JSON text are parameters: \<open>sign secret raw\<close> stands for \<open>hmac.new(secret, raw, sha256).hexdigest()\<close>,
  \<open>dumps\<close> for \<open>json.dumps(payload, separators, sort_keys)\<close>, \<open>loads\<close> for \<open>json.loads\<close> (\<open>None\<close> where it
  raises), \<open>fromisoformat\<close> for the parser of \<open>datetime\<close>.
\<close>

subsection \<open>URL-safe base64\<close>

definition b64_char :: "nat \<Rightarrow> char" where
  "b64_char n =
     (if n < 26 then char_of (65 + n)
      else if n < 52 then char_of (97 + (n - 26))
      else if n < 62 then char_of (48 + (n - 52))
      else if n = 62 then CHR ''-'' else CHR ''_'')"

fun urlsafe_b64encode :: "string \<Rightarrow> string" where
  "urlsafe_b64encode [] = []"
| "urlsafe_b64encode [a] =
     [b64_char (code a div 4), b64_char (code a mod 4 * 16), CHR ''='', CHR ''='']"
| "urlsafe_b64encode [a, b] =
     [b64_char (code a div 4), b64_char (code a mod 4 * 16 + code b div 16),
      b64_char (code b mod 16 * 4), CHR ''='']"
| "urlsafe_b64encode (a # b # c # rest) =
     b64_char (code a div 4) # b64_char (code a mod 4 * 16 + code b div 16)
     # b64_char (code b mod 16 * 4 + code c div 64) # b64_char (code c mod 64)
     # urlsafe_b64encode rest"

text \<open>\<open>urlsafe_b64decode\<close> first replaces \<open>-\<close> and \<open>_\<close> by \<open>+\<close> and \<open>/\<close>.\<close>

definition b64_value :: "char \<Rightarrow> nat option" where
  "b64_value ch =
     (let n = code ch
      in if 65 \<le> n \<and> n \<le> 90 then Some (n - 65)
         else if 97 \<le> n \<and> n \<le> 122 then Some (n - 97 + 26)
         else if 48 \<le> n \<and> n \<le> 57 then Some (n - 48 + 52)
         else if ch = CHR ''-'' \<or> ch = CHR ''+'' then Some 62
         else if ch = CHR ''_'' \<or> ch = CHR ''/'' then Some 63
         else None)"

text \<open>
  The loop of \<open>binascii.a2b_base64\<close> outside its strict mode: other characters are skipped, a
  complete pad ends the data.  \<open>quad\<close> counts the digits of the current group, \<open>left\<close> holds the bits
  not yet written, \<open>pads\<close> the pad characters seen.
\<close>

fun a2b_base64 :: "nat \<Rightarrow> nat \<Rightarrow> nat \<Rightarrow> string \<Rightarrow> string option" where
  "a2b_base64 quad left pads [] = (if quad = 0 then Some [] else None)"
| "a2b_base64 quad left pads (ch # chs) =
     (if ch = CHR ''=''
      then if 2 \<le> quad \<and> 4 \<le> quad + Suc pads then Some []
           else a2b_base64 quad left (if 2 \<le> quad then Suc pads else pads) chs
      else case b64_value ch of
             None \<Rightarrow> a2b_base64 quad left pads chs
           | Some v \<Rightarrow>
               if quad = 0 then a2b_base64 1 v 0 chs
               else if quad = 1
               then map_option ((#) (char_of (left * 4 + v div 16))) (a2b_base64 2 (v mod 16) 0 chs)
               else if quad = 2
               then map_option ((#) (char_of (left * 16 + v div 4))) (a2b_base64 3 (v mod 4) 0 chs)
               else map_option ((#) (char_of (left * 64 + v))) (a2b_base64 0 0 0 chs))"

definition b64_padding :: "string \<Rightarrow> string" where
  "b64_padding data = replicate ((4 - length data mod 4) mod 4) (CHR ''='')"

definition b64url_decode :: "string \<Rightarrow> string option" where
  "b64url_decode data =
     (if list_all (\<lambda>ch. code ch < 128) data then a2b_base64 0 0 0 (data @ b64_padding data) else None)"

fun rstrip_pad :: "string \<Rightarrow> string" where
  "rstrip_pad [] = []"
| "rstrip_pad (ch # chs) =
     (let r = rstrip_pad chs in if r = [] \<and> ch = CHR ''='' then [] else ch # r)"

text \<open>\<open>cursor.rsplit(".", 1)\<close>; \<open>None\<close> where there is no dot.\<close>

fun rsplit_dot :: "string \<Rightarrow> (string \<times> string) option" where
  "rsplit_dot [] = None"
| "rsplit_dot (ch # chs) =
     (case rsplit_dot chs of
        Some (a, b) \<Rightarrow> Some (ch # a, b)
      | None \<Rightarrow> if ch = CHR ''.'' then Some ([], chs) else None)"

subsection \<open>Cursors\<close>

record library_cursor =
  lc_q :: string
  lc_sort :: string
  lc_item_type :: string
  lc_sort_value :: string
  lc_id :: string

datatype cursor_error = Cursor_Invalid | Cursor_Mismatch

definition CURSOR_KEYS :: "string set" where
  "CURSOR_KEYS = {''v'', ''q'', ''sort'', ''type'', ''sort_value'', ''id''}"

definition LIBRARY_SORTS :: "string set" where
  "LIBRARY_SORTS = {''newest'', ''oldest'', ''title''}"

definition ITEM_TYPES :: "string set" where
  "ITEM_TYPES = {''album'', ''song''}"

definition TIME_SORTS :: "string set" where
  "TIME_SORTS = {''newest'', ''oldest''}"

definition cursor_payload :: "library_cursor \<Rightarrow> json" where
  "cursor_payload cursor = J_Obj
     [(''v'', J_Int 1), (''q'', J_Str (lc_q cursor)), (''sort'', J_Str (lc_sort cursor)),
      (''type'', J_Str (lc_item_type cursor)), (''sort_value'', J_Str (lc_sort_value cursor)),
      (''id'', J_Str (lc_id cursor))]"

definition encode_library_cursor ::
    "(string \<Rightarrow> string \<Rightarrow> string) \<Rightarrow> (json \<Rightarrow> string) \<Rightarrow> library_cursor \<Rightarrow> string \<Rightarrow> string" where
  "encode_library_cursor sign dumps cursor secret =
     (let raw = dumps (cursor_payload cursor);
          packed = rstrip_pad (urlsafe_b64encode raw)
      in packed @ ''.'' @ sign secret raw)"

text \<open>\<open>payload["v"] != 1\<close>: in Python \<open>True\<close> and \<open>1.0\<close> equal 1.\<close>

definition json_is_one :: "json \<Rightarrow> bool" where
  "json_is_one v \<longleftrightarrow> v = J_Int 1 \<or> v = J_Bool True \<or> v = J_Float 1"

definition cursor_from_payload ::
    "(string \<Rightarrow> int option) \<Rightarrow> json \<Rightarrow> cursor_error + library_cursor" where
  "cursor_from_payload fromisoformat payload =
     (case payload of
        J_Obj d \<Rightarrow>
          (if set (map fst d) \<noteq> CURSOR_KEYS then Inl Cursor_Invalid
           else case (map_of d ''v'', map_of d ''q'', map_of d ''sort'', map_of d ''type'',
                      map_of d ''sort_value'', map_of d ''id'') of
                  (Some version, Some (J_Str q), Some (J_Str sorting), Some (J_Str item_type),
                   Some (J_Str sort_value), Some (J_Str item_id)) \<Rightarrow>
                    if \<not> json_is_one version then Inl Cursor_Invalid
                    else if q = '''' then Inl Cursor_Invalid
                    else if sorting \<notin> LIBRARY_SORTS then Inl Cursor_Invalid
                    else if item_type \<notin> ITEM_TYPES then Inl Cursor_Invalid
                    else if item_id = '''' then Inl Cursor_Invalid
                    else if sorting \<in> TIME_SORTS \<and> fromisoformat sort_value = None
                    then Inl Cursor_Invalid
                    else Inr \<lparr>lc_q = q, lc_sort = sorting, lc_item_type = item_type,
                               lc_sort_value = sort_value, lc_id = item_id\<rparr>
                | _ \<Rightarrow> Inl Cursor_Invalid)
      | _ \<Rightarrow> Inl Cursor_Invalid)"

definition parse_signed_cursor ::
    "(string \<Rightarrow> string \<Rightarrow> string) \<Rightarrow> (string \<Rightarrow> json option) \<Rightarrow> (string \<Rightarrow> int option)
     \<Rightarrow> string \<Rightarrow> string \<Rightarrow> cursor_error + library_cursor" where
  "parse_signed_cursor sign loads fromisoformat cursor secret =
     (case rsplit_dot cursor of
        None \<Rightarrow> Inl Cursor_Invalid
      | Some (packed, signature) \<Rightarrow>
          if packed = '''' \<or> signature = '''' then Inl Cursor_Invalid
          else case b64url_decode packed of
                 None \<Rightarrow> Inl Cursor_Invalid
               | Some raw \<Rightarrow>
                   if signature \<noteq> sign secret raw then Inl Cursor_Invalid
                   else case loads raw of
                          None \<Rightarrow> Inl Cursor_Invalid
                        | Some payload \<Rightarrow> cursor_from_payload fromisoformat payload)"

definition decode_library_cursor ::
    "(string \<Rightarrow> string \<Rightarrow> string) \<Rightarrow> (string \<Rightarrow> json option) \<Rightarrow> (string \<Rightarrow> int option)
     \<Rightarrow> string \<Rightarrow> string \<Rightarrow> string \<Rightarrow> string \<Rightarrow> cursor_error + library_cursor" where
  "decode_library_cursor sign loads fromisoformat cursor secret q sorting =
     (case parse_signed_cursor sign loads fromisoformat cursor secret of
        Inl e \<Rightarrow> Inl e
      | Inr parsed \<Rightarrow>
          if lc_q parsed \<noteq> q \<or> lc_sort parsed \<noteq> sorting then Inl Cursor_Mismatch else Inr parsed)"

subsection \<open>Base64 decodes what it encodes\<close>

lemma code_less [simp]: "code ch < 256"
  by (simp add: code_def)

lemma char_of_code [simp]: "char_of (code ch) = ch"
  by (simp add: code_def)

lemma code_char_of: "n < 256 \<Longrightarrow> code (char_of n) = n"
  by (simp add: code_def)

lemma code_literals: "code (CHR ''-'') = 45" "code (CHR ''_'') = 95" "code (CHR ''='') = 61"
  by (simp_all add: code_def)

lemma b64_char_code:
  "n < 64 \<Longrightarrow> code (b64_char n) =
     (if n < 26 then 65 + n else if n < 52 then 71 + n else if n < 62 then n - 4
      else if n = 62 then 45 else 95)"
  by (auto simp: b64_char_def code_char_of code_literals)

lemma b64_value_char: "n < 64 \<Longrightarrow> b64_value (b64_char n) = Some n"
proof -
  assume n: "n < 64"
  consider "n < 26" | "26 \<le> n" "n < 52" | "52 \<le> n" "n < 62" | "n = 62" | "n = 63" using n by linarith
  then show ?thesis
    using b64_char_code [OF n] by cases (auto simp: b64_value_def Let_def b64_char_def code_literals)
qed

lemma b64_char_not_pad: "n < 64 \<Longrightarrow> b64_char n \<noteq> CHR ''='' \<and> b64_char n \<noteq> CHR ''.'' \<and> code (b64_char n) < 128"
proof -
  assume n: "n < 64"
  have "code (CHR ''.'') = 46" by (simp add: code_def)
  moreover have "code (b64_char n) \<notin> {46, 61} \<and> code (b64_char n) < 128"
    using n by (auto simp: b64_char_code)
  ultimately show ?thesis by (auto simp: code_literals)
qed

lemma byte_parts: "n < 256 \<Longrightarrow> n div 4 < 64 \<and> n div 16 < 16 \<and> n div 64 < (4::nat)"
  by (simp add: less_mult_imp_div_less)

lemma sextets:
  "a div 4 < 64" "a mod 4 * 16 < 64" "a mod 16 * 4 < 64" "a mod 64 < 64" if "a < (256::nat)"
proof -
  have "a mod 4 < 4" "a mod 16 < 16" "a mod 64 < 64" by simp_all
  with byte_parts [OF that] show "a div 4 < 64" "a mod 4 * 16 < 64" "a mod 16 * 4 < 64" "a mod 64 < 64"
    by linarith+
qed

lemma sextets2:
  "a mod 4 * 16 + b div 16 < 64" "a mod 16 * 4 + b div 64 < 64" if "b < (256::nat)"
proof -
  have "a mod 4 < 4" "a mod 16 < 16" by simp_all
  with byte_parts [OF that] show "a mod 4 * 16 + b div 16 < 64" "a mod 16 * 4 + b div 64 < 64"
    by linarith+
qed

lemma byte_halves:
  "code ch div 16 div 16 = 0" "code ch div 16 mod 16 = code ch div 16"
  "code ch div 64 div 4 = 0" "code ch div 64 mod 4 = code ch div 64"
  using byte_parts [OF code_less [of ch]] by (simp_all add: div_less mod_less)

lemma a2b_digit:
  assumes "v < 64"
  shows "a2b_base64 0 left pads (b64_char v # chs) = a2b_base64 (Suc 0) v 0 chs"
    and "a2b_base64 (Suc 0) left pads (b64_char v # chs) =
      map_option ((#) (char_of (left * 4 + v div 16))) (a2b_base64 2 (v mod 16) 0 chs)"
    and "a2b_base64 2 left pads (b64_char v # chs) =
      map_option ((#) (char_of (left * 16 + v div 4))) (a2b_base64 3 (v mod 4) 0 chs)"
    and "a2b_base64 3 left pads (b64_char v # chs) =
      map_option ((#) (char_of (left * 64 + v))) (a2b_base64 0 0 0 chs)"
  using assms by (simp_all add: b64_char_not_pad b64_value_char)

lemma a2b_pad:
  "a2b_base64 2 left 0 [CHR ''='', CHR ''=''] = Some []" "a2b_base64 3 left 0 [CHR ''=''] = Some []"
  by simp_all

lemma a2b_encode: "a2b_base64 0 0 0 (urlsafe_b64encode raw) = Some raw"
proof (induction raw rule: urlsafe_b64encode.induct)
  case (4 a b c rest)
  then show ?case
    by (simp add: a2b_digit sextets sextets2 byte_halves del: a2b_base64.simps(2))
qed (simp_all add: a2b_digit a2b_pad sextets sextets2 byte_halves del: a2b_base64.simps(2))

lemma rstrip_pad_Cons: "ch \<noteq> CHR ''='' \<Longrightarrow> rstrip_pad (ch # chs) = ch # rstrip_pad chs"
  by (simp add: Let_def)

lemma rstrip_pad_digit: "v < 64 \<Longrightarrow> rstrip_pad (b64_char v # chs) = b64_char v # rstrip_pad chs"
  by (simp add: rstrip_pad_Cons b64_char_not_pad)

lemmas b64_step = rstrip_pad_digit b64_char_not_pad sextets sextets2

lemma rstrip_pads: "rstrip_pad [CHR ''=''] = []" "rstrip_pad [CHR ''='', CHR ''=''] = []"
  by simp_all

lemma packed_padded:
  "rstrip_pad (urlsafe_b64encode raw) @ b64_padding (rstrip_pad (urlsafe_b64encode raw)) = urlsafe_b64encode raw"
proof (induction raw rule: urlsafe_b64encode.induct)
  case (4 a b c rest)
  have "b64_padding (w # x # y # z # s) = b64_padding s" for w x y z s
    by (simp add: b64_padding_def)
  with 4 show ?case by (simp add: b64_step del: rstrip_pad.simps(2))
qed (simp_all add: b64_step rstrip_pads b64_padding_def numeral_2_eq_2 del: rstrip_pad.simps(2))

lemma packed_plain:
  "ch \<in> set (rstrip_pad (urlsafe_b64encode raw)) \<Longrightarrow> ch \<noteq> CHR ''.'' \<and> code ch < 128"
  by (induction raw rule: urlsafe_b64encode.induct) (auto simp: b64_step rstrip_pads simp del: rstrip_pad.simps(2))

lemma encode_no_dot: "CHR ''.'' \<notin> set (urlsafe_b64encode raw)"
proof -
  have "CHR ''.'' \<notin> set (b64_padding s)" for s by (simp add: b64_padding_def)
  with packed_plain show ?thesis by (metis packed_padded Un_iff set_append)
qed

lemma b64_roundtrip: "b64url_decode (rstrip_pad (urlsafe_b64encode raw)) = Some raw"
  using packed_plain by (simp add: b64url_decode_def list_all_iff packed_padded a2b_encode)

lemma packed_nonempty: "raw \<noteq> [] \<Longrightarrow> rstrip_pad (urlsafe_b64encode raw) \<noteq> []"
  by (induction raw rule: urlsafe_b64encode.induct) (simp_all add: b64_step del: rstrip_pad.simps(2))

lemma rsplit_dot_None: "rsplit_dot s = None \<longleftrightarrow> CHR ''.'' \<notin> set s"
  by (induction s) (auto split: option.splits)

lemma rsplit_dot_last: "CHR ''.'' \<notin> set b \<Longrightarrow> rsplit_dot (a @ CHR ''.'' # b) = Some (a, b)"
proof (induction a)
  case Nil
  then show ?case using rsplit_dot_None [of b] by simp
qed simp

lemma rsplit_dot_Some: "rsplit_dot s = Some (a, b) \<Longrightarrow> s = a @ CHR ''.'' # b \<and> CHR ''.'' \<notin> set b"
proof (induction s arbitrary: a)
  case (Cons ch s)
  then show ?case using rsplit_dot_None [of s] by (auto split: option.splits if_splits)
qed simp

subsection \<open>Issued cursors\<close>

definition valid_cursor :: "(string \<Rightarrow> int option) \<Rightarrow> library_cursor \<Rightarrow> bool" where
  "valid_cursor fromisoformat c \<longleftrightarrow>
     lc_q c \<noteq> '''' \<and> lc_sort c \<in> LIBRARY_SORTS \<and> lc_item_type c \<in> ITEM_TYPES \<and> lc_id c \<noteq> ''''
     \<and> (lc_sort c \<in> TIME_SORTS \<longrightarrow> fromisoformat (lc_sort_value c) \<noteq> None)"

text \<open>What the code relies on: \<open>json.loads\<close> reads back what \<open>json.dumps\<close> wrote (the keys may come in
  another order), and \<open>hexdigest\<close> writes hexadecimal digits.\<close>

definition reads_back :: "(json \<Rightarrow> string) \<Rightarrow> (string \<Rightarrow> json option) \<Rightarrow> library_cursor \<Rightarrow> bool" where
  "reads_back dumps loads c \<longleftrightarrow> dumps (cursor_payload c) \<noteq> '''' \<and>
     (\<exists>d. loads (dumps (cursor_payload c)) = Some (J_Obj d)
          \<and> (case cursor_payload c of J_Obj d' \<Rightarrow> map_of d = map_of d' | _ \<Rightarrow> False))"

definition digest_text :: "string \<Rightarrow> bool" where
  "digest_text s \<longleftrightarrow> s \<noteq> '''' \<and> CHR ''.'' \<notin> set s"

lemma cursor_from_payload_back:
  assumes "valid_cursor fromisoformat c" and "map_of d = map_of d'" and "cursor_payload c = J_Obj d'"
  shows "cursor_from_payload fromisoformat (J_Obj d) = Inr c"
proof -
  have d': "d' = [(''v'', J_Int 1), (''q'', J_Str (lc_q c)), (''sort'', J_Str (lc_sort c)),
      (''type'', J_Str (lc_item_type c)), (''sort_value'', J_Str (lc_sort_value c)), (''id'', J_Str (lc_id c))]"
    using assms(3) by (simp add: cursor_payload_def)
  have "set (map fst d) = set (map fst d')"
    using assms(2) by (metis dom_map_of_conv_image_fst set_map)
  also have "\<dots> = CURSOR_KEYS" by (simp add: d' CURSOR_KEYS_def)
  finally have keys: "set (map fst d) = CURSOR_KEYS" .
  show ?thesis
    using assms(1)
    by (auto simp: cursor_from_payload_def keys assms(2) d' json_is_one_def valid_cursor_def
        simp del: set_map)
qed

lemma parse_issued:
  assumes "valid_cursor fromisoformat c" and rb: "reads_back dumps loads c"
    and "digest_text (sign secret (dumps (cursor_payload c)))"
    and "b64url_decode packed = Some (dumps (cursor_payload c))" and "packed \<noteq> ''''"
  shows "parse_signed_cursor sign loads fromisoformat
    (packed @ ''.'' @ sign secret (dumps (cursor_payload c))) secret = Inr c"
proof -
  from rb obtain d where d: "loads (dumps (cursor_payload c)) = Some (J_Obj d)"
    and same: "case cursor_payload c of J_Obj d' \<Rightarrow> map_of d = map_of d' | _ \<Rightarrow> False"
    by (auto simp: reads_back_def)
  from same obtain d' where "map_of d = map_of d'" "cursor_payload c = J_Obj d'"
    by (cases "cursor_payload c") simp_all
  from cursor_from_payload_back [OF assms(1) this] assms(3-5) d show ?thesis
    by (simp add: parse_signed_cursor_def rsplit_dot_last digest_text_def)
qed

lemma decode_Inr:
  assumes "decode_library_cursor sign loads fromisoformat (packed @ ''.'' @ signature) secret q sorting = Inr c"
    and "digest_text signature"
  obtains raw payload where "b64url_decode packed = Some raw" and "signature = sign secret raw"
    and "loads raw = Some payload" and "cursor_from_payload fromisoformat payload = Inr c"
    and "packed \<noteq> ''''"
  using assms
  by (auto simp: decode_library_cursor_def parse_signed_cursor_def rsplit_dot_last digest_text_def
      split: sum.splits option.splits if_splits)

text \<open>C38: Cursors are tamper-proof.  A cursor the server issued reads back as itself for the query and
  sort order it was issued for, and is refused as a mismatch for any other.  Whatever text is put in
  front of an issued signature, the result is that cursor or a refusal, as long as no other text has
  the same signature.\<close>

theorem signed_cursor_roundtrip:
  assumes valid: "valid_cursor fromisoformat c" and rb: "reads_back dumps loads c"
    and sig: "signature = sign secret (dumps (cursor_payload c))" and digest: "digest_text signature"
    and no_collision: "\<And>raw. sign secret raw = signature \<Longrightarrow> raw = dumps (cursor_payload c)"
  shows "decode_library_cursor sign loads fromisoformat (encode_library_cursor sign dumps c secret)
      secret q sorting = (if q = lc_q c \<and> sorting = lc_sort c then Inr c else Inl Cursor_Mismatch)
    \<and> decode_library_cursor sign loads fromisoformat (packed @ ''.'' @ signature) secret q sorting
      \<in> {Inr c, Inl Cursor_Invalid, Inl Cursor_Mismatch}"
proof
  let ?raw = "dumps (cursor_payload c)"
  have "?raw \<noteq> ''''" using rb by (simp add: reads_back_def)
  from parse_issued [OF valid rb _ b64_roundtrip packed_nonempty [OF this]] digest sig
  show "decode_library_cursor sign loads fromisoformat (encode_library_cursor sign dumps c secret)
      secret q sorting = (if q = lc_q c \<and> sorting = lc_sort c then Inr c else Inl Cursor_Mismatch)"
    by (auto simp: decode_library_cursor_def encode_library_cursor_def Let_def)
  show "decode_library_cursor sign loads fromisoformat (packed @ ''.'' @ signature) secret q sorting
      \<in> {Inr c, Inl Cursor_Invalid, Inl Cursor_Mismatch}"
  proof (cases "decode_library_cursor sign loads fromisoformat (packed @ ''.'' @ signature) secret q sorting")
    case (Inl e)
    then show ?thesis by (cases e) simp_all
  next
    case (Inr c')
    from decode_Inr [OF Inr digest] obtain raw
      where raw: "b64url_decode packed = Some raw" "signature = sign secret raw" "packed \<noteq> ''''" .
    with no_collision have "raw = ?raw" by metis
    with parse_issued [OF valid rb, of sign secret packed] raw sig digest
    have "parse_signed_cursor sign loads fromisoformat (packed @ ''.'' @ signature) secret = Inr c"
      by simp
    with Inr show ?thesis by (simp add: decode_library_cursor_def split: if_splits)
  qed
qed

definition sample_cursor :: library_cursor where
  "sample_cursor = \<lparr>lc_q = ''sea'', lc_sort = ''title'', lc_item_type = ''song'',
     lc_sort_value = ''seaside'', lc_id = ''s1''\<rparr>"

definition sample_dumps :: "json \<Rightarrow> string" where
  "sample_dumps p = (case p of
     J_Obj d \<Rightarrow> concat (map (\<lambda>(k, v). k @ '':'' @ (case v of J_Str t \<Rightarrow> t | _ \<Rightarrow> ''1'') @ '','') d)
   | _ \<Rightarrow> ''null'')"

definition sample_loads :: "string \<Rightarrow> json option" where
  "sample_loads raw =
     (if raw = sample_dumps (cursor_payload sample_cursor) then Some (cursor_payload sample_cursor) else None)"

definition sample_sign :: "string \<Rightarrow> string \<Rightarrow> string" where
  "sample_sign secret raw = urlsafe_b64encode (secret @ raw)"

lemma sample_sign_inject: "sample_sign k raw = sample_sign k raw' \<longleftrightarrow> raw = raw'"
  unfolding sample_sign_def using a2b_encode by (metis option.inject same_append_eq)

lemma sample_reads_back: "reads_back sample_dumps sample_loads sample_cursor"
  by (simp add: reads_back_def sample_loads_def sample_dumps_def cursor_payload_def sample_cursor_def)

lemma sample_valid: "valid_cursor (\<lambda>_. None) sample_cursor"
  by (simp add: valid_cursor_def sample_cursor_def LIBRARY_SORTS_def ITEM_TYPES_def TIME_SORTS_def)

lemma sample_digest: "digest_text (sample_sign ''k'' (sample_dumps (cursor_payload sample_cursor)))"
proof -
  have "sample_sign ''k'' raw \<noteq> ''''" for raw
    using a2b_encode [of "''k'' @ raw"] by (auto simp: sample_sign_def)
  then show ?thesis using encode_no_dot by (simp add: digest_text_def sample_sign_def)
qed

theorem signed_cursor_roundtrip_witness:
  "decode_library_cursor sample_sign sample_loads (\<lambda>_. None)
     (encode_library_cursor sample_sign sample_dumps sample_cursor ''k'') ''k'' ''sea'' ''title'' = Inr sample_cursor
   \<and> decode_library_cursor sample_sign sample_loads (\<lambda>_. None)
       (''abcd'' @ ''.'' @ sample_sign ''k'' (sample_dumps (cursor_payload sample_cursor))) ''k'' ''sea'' ''title''
     \<in> {Inr sample_cursor, Inl Cursor_Invalid, Inl Cursor_Mismatch}"
proof -
  have "raw = sample_dumps (cursor_payload sample_cursor)"
    if "sample_sign ''k'' raw = sample_sign ''k'' (sample_dumps (cursor_payload sample_cursor))" for raw
    using that by (simp only: sample_sign_inject)
  from signed_cursor_roundtrip [where sign = sample_sign and secret = "''k''",
      OF sample_valid sample_reads_back refl sample_digest this]
  show ?thesis by (metis sample_cursor_def library_cursor.select_convs(1,2))
qed

end
