(* ===== verification/Merging.thy ===== *)
theory Merging
  imports Prelude "HOL-Library.Product_Lexorder" "HOL-Library.Sublist"
begin

text \<open>
  Ordered results read from several tables: merging two ordered lists, cutting the merged list at a
  limit, and continuing behind a given row.  The locale \<open>ranking\<close> states what an order of rows has
  to satisfy for that; \<open>ident\<close> names a row.
\<close>

fun merge_by :: "('a \<Rightarrow> 'a \<Rightarrow> bool) \<Rightarrow> 'a list \<Rightarrow> 'a list \<Rightarrow> 'a list" where
  "merge_by before [] ys = ys"
| "merge_by before xs [] = xs"
| "merge_by before (x # xs) (y # ys) =
     (if before x y then x # merge_by before xs (y # ys) else y # merge_by before (x # xs) ys)"

lemma merge_by_Nil2 [simp]: "merge_by before xs [] = xs"
  by (cases xs) simp_all

lemma set_merge_by [simp]: "set (merge_by before xs ys) = set xs \<union> set ys"
  by (induction before xs ys rule: merge_by.induct) auto

lemma length_merge_by [simp]: "length (merge_by before xs ys) = length xs + length ys"
  by (induction before xs ys rule: merge_by.induct) simp_all

lemma take_merge_by:
  "k \<le> m \<Longrightarrow> k \<le> n \<Longrightarrow> take k (merge_by before (take m xs) (take n ys)) = take k (merge_by before xs ys)"
proof (induction before xs ys arbitrary: k m n rule: merge_by.induct)
  case (1 before ys)
  then show ?case by (simp add: min_absorb1)
next
  case (2 before x xs)
  then show ?case by (simp add: min_absorb1)
next
  case (3 before x xs y ys)
  show ?case
  proof (cases k)
    case (Suc k')
    then obtain m' n' where mn: "m = Suc m'" "n = Suc n'" and le: "k' \<le> m'" "k' \<le> n'"
      using 3(3,4) by (cases m; cases n) auto
    then show ?thesis
      using 3(1)[of k' m' n] 3(2)[of k' m n'] Suc by (simp add: le_SucI)
  qed simp
qed

lemma more_than_limit:
  "limit < length (merge_by before (take (Suc limit) xs) (take (Suc limit) ys)) \<longleftrightarrow> limit < length xs + length ys"
  by auto

lemma distinct_map_merge_by:
  "distinct (map f xs) \<Longrightarrow> distinct (map f ys) \<Longrightarrow> f ` set xs \<inter> f ` set ys = {} \<Longrightarrow>
     distinct (map f (merge_by before xs ys))"
  by (induction before xs ys rule: merge_by.induct) auto

lemma sort_key_strict: "distinct (map f xs) \<Longrightarrow> sorted_wrt (\<lambda>a b. f a < f b) (sort_key f xs)"
proof -
  assume "distinct (map f xs)"
  then have "distinct (map f (sort_key f xs))" by (simp add: distinct_map)
  then have "sorted_wrt (<) (map f (sort_key f xs))" by (simp add: strict_sorted_iff)
  then show ?thesis by (simp add: sorted_wrt_map)
qed

locale ranking =
  fixes before :: "'a \<Rightarrow> 'a \<Rightarrow> bool"
    and ident :: "'a \<Rightarrow> 'k"
  assumes before_irrefl: "\<not> before x x"
    and before_trans: "before x y \<Longrightarrow> before y z \<Longrightarrow> before x z"
    and before_total: "ident x \<noteq> ident y \<Longrightarrow> before x y \<or> before y x"
begin

lemma before_asym: "before x y \<Longrightarrow> \<not> before y x"
  using before_irrefl before_trans by blast

lemma ranked_distinct: "sorted_wrt before xs \<Longrightarrow> distinct xs"
  by (induction xs) (auto simp: before_irrefl)

text \<open>A set of rows has one ranked list.\<close>

lemma ranked_unique: "sorted_wrt before xs \<Longrightarrow> sorted_wrt before ys \<Longrightarrow> set xs = set ys \<Longrightarrow> xs = ys"
proof (induction xs arbitrary: ys)
  case (Cons x xs)
  then obtain y ys' where ys: "ys = y # ys'" by (cases ys) auto
  have "x = y"
  proof (rule ccontr)
    assume "x \<noteq> y"
    with Cons.prems(3) ys have "x \<in> set ys'" "y \<in> set xs" by auto
    with Cons.prems(1,2) ys show False using before_asym by auto
  qed
  moreover have "x \<notin> set xs" "y \<notin> set ys'"
    using Cons.prems(1,2) ys before_irrefl by auto
  ultimately have "set xs = set ys'" using Cons.prems(3) ys by auto
  with Cons ys \<open>x = y\<close> show ?case by simp
qed simp

lemma merge_ranked_of:
  "r = before \<Longrightarrow> sorted_wrt before xs \<Longrightarrow> sorted_wrt before ys \<Longrightarrow>
     ident ` set xs \<inter> ident ` set ys = {} \<Longrightarrow> sorted_wrt before (merge_by r xs ys)"
proof (induction r xs ys rule: merge_by.induct)
  case (3 r x xs y ys)
  note 3 = 3(1-2) 3(4-6) 3(3)
  show ?case
  proof (cases "before x y")
    case True
    have "\<forall>z \<in> set ys. before x z"
    proof
      fix z assume "z \<in> set ys"
      then have "before y z" using 3(4) by simp
      with True show "before x z" by (rule before_trans)
    qed
    with True 3 show ?thesis by (auto simp del: sorted_wrt.simps(2) simp: sorted_wrt.simps(2) [of before x])
  next
    case False
    with 3(5) before_total have yx: "before y x" by (metis IntI empty_iff image_eqI list.set_intros(1))
    have "\<forall>z \<in> set xs. before y z"
    proof
      fix z assume "z \<in> set xs"
      then have "before x z" using 3(3) by simp
      with yx show "before y z" by (rule before_trans)
    qed
    with False yx 3 show ?thesis by (auto simp del: sorted_wrt.simps(2) simp: sorted_wrt.simps(2) [of before y])
  qed
qed simp_all

lemmas merge_ranked = merge_ranked_of [OF refl]

lemma filter_merge:
  assumes "sorted_wrt before xs" and "sorted_wrt before ys" and "ident ` set xs \<inter> ident ` set ys = {}"
  shows "merge_by before (filter P xs) (filter P ys) = filter P (merge_by before xs ys)"
proof (rule ranked_unique)
  show "sorted_wrt before (merge_by before (filter P xs) (filter P ys))"
    using assms by (intro merge_ranked) (auto simp: sorted_wrt_filter)
  show "sorted_wrt before (filter P (merge_by before xs ys))"
    using merge_ranked [OF assms] by (rule sorted_wrt_filter)
qed auto

lemma rest_behind: "sorted_wrt before (as @ x # bs) \<Longrightarrow> filter (before x) (as @ x # bs) = bs"
  by (auto simp: sorted_wrt_append before_irrefl filter_empty_conv before_asym intro!: filter_True)

end

end
