(* ===== verification/Library_Search.thy ===== *)
theory Library_Search
  imports Library_Cursor Merging "HOL-Library.Multiset"
begin

text \<open>
  The search of the library index (\<open>db/queries/library.py\<close>): albums and songs whose title contains
  the query, merged into one ordered list and read page by page behind a cursor.  A table holds the
  rows the soft-delete filter lets through.  Python and the database have their own rules for text: how
  they lower-case it, how \<open>ILIKE\<close> folds it and how the database's collation orders it (the order of a key,
  as \<open>strxfrm\<close> gives it); \<open>text_rules\<close> names the four, and only a hypothesis makes them agree.  Ids are
  ordered by their bytes.  \<open>isoformat\<close> and \<open>fromisoformat\<close> stand for the text form of a point in time.
\<close>

subsection \<open>Rows, hits and cursors\<close>

datatype library_sort = Sort_Newest | Sort_Oldest | Sort_Title

primrec library_sort_value :: "library_sort \<Rightarrow> string" where
  "library_sort_value Sort_Newest = ''newest''"
| "library_sort_value Sort_Oldest = ''oldest''"
| "library_sort_value Sort_Title = ''title''"

record library_row =
  lr_id :: string
  lr_title :: string
  lr_created_at :: timestamp
  lr_created_by :: "string option"   \<comment> \<open>of the album, for a song the album it is on\<close>
  lr_is_archived :: bool             \<comment> \<open>likewise\<close>

datatype library_hit = Album_Hit (hit_row: library_row) | Song_Hit (hit_row: library_row)

definition LIBRARY_ITEM_ALBUM :: string where "LIBRARY_ITEM_ALBUM = ''album''"
definition LIBRARY_ITEM_SONG :: string where "LIBRARY_ITEM_SONG = ''song''"

definition hit_type :: "library_hit \<Rightarrow> string" where
  "hit_type hit = (case hit of Album_Hit _ \<Rightarrow> LIBRARY_ITEM_ALBUM | Song_Hit _ \<Rightarrow> LIBRARY_ITEM_SONG)"

definition hit_id :: "library_hit \<Rightarrow> string" where
  "hit_id hit = lr_id (hit_row hit)"

definition cursor_from_hit ::
    "(string \<Rightarrow> string) \<Rightarrow> (timestamp \<Rightarrow> string) \<Rightarrow> library_hit \<Rightarrow> string \<Rightarrow> library_sort \<Rightarrow> library_cursor" where
  "cursor_from_hit lower isoformat hit q srt =
     \<lparr>lc_q = q, lc_sort = library_sort_value srt, lc_item_type = hit_type hit,
      lc_sort_value = (if srt = Sort_Title then lower (lr_title (hit_row hit))
                       else isoformat (lr_created_at (hit_row hit))),
      lc_id = hit_id hit\<rparr>"

record text_rules =
  py_lower :: "string \<Rightarrow> string"        \<comment> \<open>\<open>str.lower\<close>\<close>
  ilike_lower :: "string \<Rightarrow> string"     \<comment> \<open>the folding of \<open>ILIKE\<close>\<close>
  sql_lower :: "string \<Rightarrow> string"       \<comment> \<open>\<open>func.lower\<close>\<close>
  collation_key :: "string \<Rightarrow> string"   \<comment> \<open>what the database orders strings by\<close>

definition sql_title_key :: "text_rules \<Rightarrow> string \<Rightarrow> string" where
  "sql_title_key X title = collation_key X (sql_lower X title)"

record library_page =
  pg_items :: "library_hit list"
  pg_has_more :: bool

record library_db =
  ld_albums :: "library_row list"
  ld_songs :: "library_row list"

subsection \<open>Titles that contain the query\<close>

definition replace_char :: "char \<Rightarrow> string \<Rightarrow> string \<Rightarrow> string" where
  "replace_char ch t s = concat (map (\<lambda>x. if x = ch then t else [x]) s)"

definition LIKE_ESCAPE_CHAR :: char where "LIKE_ESCAPE_CHAR = CHR 0x5C"

definition like_contains_pattern :: "string \<Rightarrow> string" where
  "like_contains_pattern raw =
     (let escaped = replace_char (CHR ''_'') [LIKE_ESCAPE_CHAR, CHR ''_'']
            (replace_char (CHR ''%'') [LIKE_ESCAPE_CHAR, CHR ''%'']
              (replace_char LIKE_ESCAPE_CHAR [LIKE_ESCAPE_CHAR, LIKE_ESCAPE_CHAR] raw))
      in ''%'' @ escaped @ ''%'')"

text \<open>SQL's \<open>LIKE ... ESCAPE\<close>: \<open>%\<close> stands for any text, \<open>_\<close> for one character, an escaped character
  for itself.\<close>

fun like_match :: "string \<Rightarrow> string \<Rightarrow> bool" where
  "like_match [] s \<longleftrightarrow> s = []"
| "like_match (c # p) s \<longleftrightarrow>
     (if c = LIKE_ESCAPE_CHAR
      then (case p of [] \<Rightarrow> False
            | d # p' \<Rightarrow> (case s of [] \<Rightarrow> False | x # s' \<Rightarrow> x = d \<and> like_match p' s'))
      else if c = CHR ''%'' then list_ex (\<lambda>k. like_match p (drop k s)) [0..<Suc (length s)]
      else (case s of [] \<Rightarrow> False | x # s' \<Rightarrow> (c = CHR ''_'' \<or> x = c) \<and> like_match p s'))"

definition title_matches :: "(string \<Rightarrow> string) \<Rightarrow> string \<Rightarrow> string \<Rightarrow> bool" where
  "title_matches lower q title \<longleftrightarrow> like_match (lower (like_contains_pattern q)) (lower title)"

subsection \<open>Queries\<close>

definition visible_row :: "string option \<Rightarrow> library_row \<Rightarrow> bool" where
  "visible_row owner_id r \<longleftrightarrow>
     \<not> lr_is_archived r \<and> (case owner_id of None \<Rightarrow> True | Some u \<Rightarrow> lr_created_by r = Some u)"

definition apply_library_sort ::
    "(string \<Rightarrow> string) \<Rightarrow> library_sort \<Rightarrow> library_row list \<Rightarrow> library_row list" where
  "apply_library_sort title_key srt rows =
     (case srt of
        Sort_Title \<Rightarrow> sort_key (\<lambda>r. (title_key (lr_title r), lr_id r)) rows
      | Sort_Oldest \<Rightarrow> sort_key (\<lambda>r. (lr_created_at r, lr_id r)) rows
      | Sort_Newest \<Rightarrow> rev (sort_key (\<lambda>r. (lr_created_at r, lr_id r)) rows))"

definition ascending_keyset_clause ::
    "'a::linorder \<Rightarrow> 'a \<Rightarrow> string \<Rightarrow> string \<Rightarrow> bool \<Rightarrow> bool \<Rightarrow> bool" where
  "ascending_keyset_clause key v model_id cursor_id same_type type_after =
     (if type_after then key > v \<or> key = v
      else if same_type then key > v \<or> (key = v \<and> model_id > cursor_id)
      else key > v)"

definition descending_keyset_clause ::
    "'a::linorder \<Rightarrow> 'a \<Rightarrow> string \<Rightarrow> string \<Rightarrow> bool \<Rightarrow> bool \<Rightarrow> bool" where
  "descending_keyset_clause key v model_id cursor_id same_type type_after =
     (if type_after then key < v \<or> key = v
      else if same_type then key < v \<or> (key = v \<and> model_id < cursor_id)
      else key < v)"

text \<open>\<open>None\<close> is the \<open>ValueError\<close> of \<open>fromisoformat\<close>.\<close>

definition keyset_clause ::
    "text_rules \<Rightarrow> (string \<Rightarrow> timestamp option) \<Rightarrow> library_sort \<Rightarrow> library_cursor option \<Rightarrow> string
     \<Rightarrow> (library_row \<Rightarrow> bool) option" where
  "keyset_clause X fromisoformat srt after item_type =
     (case after of
        None \<Rightarrow> Some (\<lambda>_. True)
      | Some cursor \<Rightarrow>
          (let same_type = (item_type = lc_item_type cursor);
               type_after = (item_type > lc_item_type cursor)
           in if srt = Sort_Title
              then Some (\<lambda>r. ascending_keyset_clause (sql_title_key X (lr_title r)) (collation_key X (lc_sort_value cursor))
                               (lr_id r) (lc_id cursor) same_type type_after)
              else case fromisoformat (lc_sort_value cursor) of
                     None \<Rightarrow> None
                   | Some ts \<Rightarrow>
                       if srt = Sort_Oldest
                       then Some (\<lambda>r. ascending_keyset_clause (lr_created_at r) ts
                                        (lr_id r) (lc_id cursor) same_type type_after)
                       else Some (\<lambda>r. descending_keyset_clause (lr_created_at r) ts
                                        (lr_id r) (lc_id cursor) same_type type_after)))"

definition matching_rows ::
    "text_rules \<Rightarrow> (string \<Rightarrow> timestamp option) \<Rightarrow> string option \<Rightarrow> string \<Rightarrow> library_sort
     \<Rightarrow> library_cursor option \<Rightarrow> nat \<Rightarrow> string \<Rightarrow> library_row list \<Rightarrow> library_row list option" where
  "matching_rows X fromisoformat owner_id q srt after limit item_type rows =
     (case keyset_clause X fromisoformat srt after item_type of
        None \<Rightarrow> None
      | Some keyset \<Rightarrow>
          Some (take limit (apply_library_sort (sql_title_key X) srt
            (filter keyset (filter (visible_row owner_id)
              (filter (\<lambda>r. title_matches (ilike_lower X) q (lr_title r)) rows))))))"

definition hit_before :: "(string \<Rightarrow> string) \<Rightarrow> library_sort \<Rightarrow> library_hit \<Rightarrow> library_hit \<Rightarrow> bool" where
  "hit_before lower srt left right \<longleftrightarrow>
     (let left_type = hit_type left; right_type = hit_type right
      in case srt of
           Sort_Title \<Rightarrow>
             (let left_title = lower (lr_title (hit_row left)); right_title = lower (lr_title (hit_row right))
              in if left_title \<noteq> right_title then left_title < right_title
                 else if left_type \<noteq> right_type then left_type < right_type
                 else hit_id left < hit_id right)
         | Sort_Oldest \<Rightarrow>
             (let left_ts = lr_created_at (hit_row left); right_ts = lr_created_at (hit_row right)
              in if left_ts \<noteq> right_ts then left_ts < right_ts
                 else if left_type \<noteq> right_type then left_type < right_type
                 else hit_id left < hit_id right)
         | Sort_Newest \<Rightarrow>
             (let left_ts = lr_created_at (hit_row left); right_ts = lr_created_at (hit_row right)
              in if left_ts \<noteq> right_ts then left_ts > right_ts
                 else if left_type \<noteq> right_type then left_type < right_type
                 else hit_id left > hit_id right))"

definition merge_hits ::
    "(string \<Rightarrow> string) \<Rightarrow> library_row list \<Rightarrow> library_row list \<Rightarrow> library_sort \<Rightarrow> library_hit list" where
  "merge_hits lower albums songs srt =
     merge_by (hit_before lower srt) (map Album_Hit albums) (map Song_Hit songs)"

fun dedupe_from :: "(string \<times> string) set \<Rightarrow> library_hit list \<Rightarrow> library_hit list" where
  "dedupe_from seen [] = []"
| "dedupe_from seen (hit # hits) =
     (let key = (hit_type hit, hit_id hit)
      in if key \<in> seen then dedupe_from seen hits
         else hit # dedupe_from (insert key seen) hits)"

definition dedupe_hits :: "library_hit list \<Rightarrow> library_hit list" where
  "dedupe_hits = dedupe_from {}"

definition search_library ::
    "text_rules \<Rightarrow> (string \<Rightarrow> timestamp option) \<Rightarrow> library_db \<Rightarrow> string option \<Rightarrow> string
     \<Rightarrow> library_sort \<Rightarrow> nat \<Rightarrow> library_cursor option \<Rightarrow> library_page option" where
  "search_library X fromisoformat db owner_id q srt limit after =
     (let fetch_limit = limit + 1
      in case (matching_rows X fromisoformat owner_id q srt after fetch_limit LIBRARY_ITEM_ALBUM (ld_albums db),
               matching_rows X fromisoformat owner_id q srt after fetch_limit LIBRARY_ITEM_SONG (ld_songs db)) of
           (Some albums, Some songs) \<Rightarrow>
             (let unique = dedupe_hits (merge_hits (py_lower X) albums songs srt)
              in Some \<lparr>pg_items = take limit unique, pg_has_more = limit < length unique\<rparr>)
         | _ \<Rightarrow> None)"

text \<open>
  A client that reads on until a page says there is no more; each request starts behind the last hit
  of the page before (\<open>api_library_search\<close>).  The first argument bounds the number of requests;
  \<open>None\<close> is a failed request or the bound.
\<close>

fun read_pages ::
    "nat \<Rightarrow> text_rules \<Rightarrow> (timestamp \<Rightarrow> string) \<Rightarrow> (string \<Rightarrow> timestamp option) \<Rightarrow> library_db
     \<Rightarrow> string option \<Rightarrow> string \<Rightarrow> library_sort \<Rightarrow> nat \<Rightarrow> library_cursor option \<Rightarrow> library_hit list list option" where
  "read_pages 0 X isoformat fromisoformat db owner_id q srt limit after = None"
| "read_pages (Suc n) X isoformat fromisoformat db owner_id q srt limit after =
     (case search_library X fromisoformat db owner_id q srt limit after of
        None \<Rightarrow> None
      | Some page \<Rightarrow>
          if \<not> pg_has_more page then Some [pg_items page]
          else if pg_items page = [] then None
          else map_option ((#) (pg_items page))
                 (read_pages n X isoformat fromisoformat db owner_id q srt limit
                   (Some (cursor_from_hit (py_lower X) isoformat (last (pg_items page)) q srt))))"

subsection \<open>One order on all hits\<close>

definition hit_key :: "library_hit \<Rightarrow> string \<times> string" where
  "hit_key hit = (hit_type hit, hit_id hit)"

lemma hit_before_iff:
  "hit_before lower Sort_Title l r \<longleftrightarrow>
     (lower (lr_title (hit_row l)), hit_type l, hit_id l) < (lower (lr_title (hit_row r)), hit_type r, hit_id r)"
  "hit_before lower Sort_Oldest l r \<longleftrightarrow>
     (lr_created_at (hit_row l), hit_type l, hit_id l) < (lr_created_at (hit_row r), hit_type r, hit_id r)"
  "hit_before lower Sort_Newest l r \<longleftrightarrow>
     (- lr_created_at (hit_row l), hit_type l) < (- lr_created_at (hit_row r), hit_type r)
     \<or> (lr_created_at (hit_row l), hit_type l) = (lr_created_at (hit_row r), hit_type r) \<and> hit_id r < hit_id l"
  by (auto simp: hit_before_def Let_def)

interpretation hits: ranking "hit_before lower srt" hit_key for lower srt
proof
  show "\<not> hit_before lower srt x x" for x
    by (cases srt) (simp_all only: hit_before_iff less_irrefl simp_thms)
  show "hit_before lower srt x z" if "hit_before lower srt x y" "hit_before lower srt y z" for x y z
  proof (cases srt)
    case Sort_Newest
    with that show ?thesis by (auto simp only: hit_before_iff prod.inject dest: less_trans)
  qed (use that in \<open>auto simp only: hit_before_iff dest: less_trans\<close>)
  show "hit_before lower srt x y \<or> hit_before lower srt y x" if "hit_key x \<noteq> hit_key y" for x y
    using that by (cases srt) (auto simp: hit_before_def hit_key_def Let_def)
qed

definition hit_of :: "string \<Rightarrow> library_row \<Rightarrow> library_hit" where
  "hit_of item_type = (if item_type = LIBRARY_ITEM_ALBUM then Album_Hit else Song_Hit)"

lemma hit_of_simps [simp]:
  "hit_of LIBRARY_ITEM_ALBUM = Album_Hit" "hit_of LIBRARY_ITEM_SONG = Song_Hit"
  "hit_type (Album_Hit r) = LIBRARY_ITEM_ALBUM" "hit_type (Song_Hit r) = LIBRARY_ITEM_SONG"
  "hit_id (Album_Hit r) = lr_id r" "hit_id (Song_Hit r) = lr_id r"
  "LIBRARY_ITEM_ALBUM < LIBRARY_ITEM_SONG" "LIBRARY_ITEM_ALBUM \<noteq> LIBRARY_ITEM_SONG"
  by (simp_all add: hit_of_def hit_type_def hit_id_def LIBRARY_ITEM_ALBUM_def LIBRARY_ITEM_SONG_def less_char_def)

lemma hit_of_row:
  assumes "item_type \<in> {LIBRARY_ITEM_ALBUM, LIBRARY_ITEM_SONG}"
  shows "hit_type (hit_of item_type r) = item_type" and "hit_id (hit_of item_type r) = lr_id r"
    and "hit_row (hit_of item_type r) = r"
  using assms by auto

lemma sort_filter: "apply_library_sort lower srt (filter P rows) = filter P (apply_library_sort lower srt rows)"
  by (cases srt) (simp_all add: apply_library_sort_def filter_sort [symmetric] rev_filter)

lemma set_apply_library_sort [simp]: "set (apply_library_sort lower srt rows) = set rows"
  by (cases srt) (simp_all add: apply_library_sort_def)

lemma sorted_rows:
  assumes "distinct (map lr_id rows)" and "item_type \<in> {LIBRARY_ITEM_ALBUM, LIBRARY_ITEM_SONG}"
  shows "sorted_wrt (hit_before lower srt) (map (hit_of item_type) (apply_library_sort lower srt rows))"
proof -
  have keys: "distinct (map (\<lambda>r. (f r, lr_id r)) rows)" for f :: "library_row \<Rightarrow> 'k"
    using assms(1) by (auto simp: distinct_map inj_on_def)
  have mono: "sorted_wrt P xs \<Longrightarrow> (\<And>a b. P a b \<Longrightarrow> Q a b) \<Longrightarrow> sorted_wrt Q xs" for P Q and xs :: "library_row list"
    by (rule sorted_wrt_mono_rel)
  note row = hit_of_row [OF assms(2)]
  show ?thesis
    by (cases srt)
      (auto simp: apply_library_sort_def sorted_wrt_map sorted_wrt_rev hit_before_iff row
        intro!: mono [OF sort_key_strict [OF keys]])
qed

lemma sorted_rows_distinct:
  "distinct (map lr_id rows) \<Longrightarrow> item_type \<in> {LIBRARY_ITEM_ALBUM, LIBRARY_ITEM_SONG} \<Longrightarrow>
     distinct (map hit_key (map (hit_of item_type) (apply_library_sort lower srt rows)))"
proof -
  assume ids: "distinct (map lr_id rows)" and it: "item_type \<in> {LIBRARY_ITEM_ALBUM, LIBRARY_ITEM_SONG}"
  have "mset (apply_library_sort lower srt rows) = mset rows"
    by (cases srt) (simp_all add: apply_library_sort_def)
  with ids have "distinct (map lr_id (apply_library_sort lower srt rows))"
    by (metis mset_eq_imp_distinct_iff mset_map)
  then show ?thesis using hit_of_row [OF it] by (auto simp: distinct_map inj_on_def hit_key_def)
qed

subsection \<open>A page is a slice of the whole list\<close>

text \<open>The database and Python agree on text; \<open>il\<close> is the folding of \<open>ILIKE\<close>.\<close>

definition one_text :: "(string \<Rightarrow> string) \<Rightarrow> (string \<Rightarrow> string) \<Rightarrow> text_rules" where
  "one_text lower il = \<lparr>py_lower = lower, ilike_lower = il, sql_lower = lower, collation_key = (\<lambda>s. s)\<rparr>"

lemma one_text_simps [simp]:
  "py_lower (one_text lower il) = lower" "ilike_lower (one_text lower il) = il" "sql_title_key (one_text lower il) = lower"
  "collation_key (one_text lower il) = (\<lambda>s. s)"
  by (simp_all add: one_text_def sql_title_key_def fun_eq_iff)

definition selected_rows ::
    "(string \<Rightarrow> string) \<Rightarrow> string option \<Rightarrow> string \<Rightarrow> library_row list \<Rightarrow> library_row list" where
  "selected_rows il owner_id q rows =
     filter (\<lambda>r. visible_row owner_id r \<and> title_matches il q (lr_title r)) rows"

definition library_list ::
    "(string \<Rightarrow> string) \<Rightarrow> (string \<Rightarrow> string) \<Rightarrow> library_db \<Rightarrow> string option \<Rightarrow> string \<Rightarrow> library_sort \<Rightarrow> library_hit list" where
  "library_list lower il db owner_id q srt =
     merge_hits lower (apply_library_sort lower srt (selected_rows il owner_id q (ld_albums db)))
       (apply_library_sort lower srt (selected_rows il owner_id q (ld_songs db))) srt"

definition unique_ids :: "library_db \<Rightarrow> bool" where
  "unique_ids db \<longleftrightarrow> distinct (map lr_id (ld_albums db)) \<and> distinct (map lr_id (ld_songs db))"

lemma keyset_clause_before:
  assumes iso: "\<And>t. fromisoformat (isoformat t) = Some t"
    and item: "item_type \<in> {LIBRARY_ITEM_ALBUM, LIBRARY_ITEM_SONG}"
  shows "keyset_clause (one_text lower il) fromisoformat srt (Some (cursor_from_hit lower isoformat h q srt)) item_type
    = Some (\<lambda>r. hit_before lower srt h (hit_of item_type r))"
proof -
  note row = hit_of_row [OF item]
  show ?thesis
    by (cases srt)
      (auto simp: keyset_clause_def Let_def cursor_from_hit_def iso ascending_keyset_clause_def
        descending_keyset_clause_def fun_eq_iff hit_before_def row)
qed

definition behind :: "(string \<Rightarrow> string) \<Rightarrow> library_sort \<Rightarrow> library_hit option \<Rightarrow> library_hit \<Rightarrow> bool" where
  "behind lower srt after h \<longleftrightarrow> (case after of None \<Rightarrow> True | Some c \<Rightarrow> hit_before lower srt c h)"

lemma behind_Some [simp]: "behind lower srt (Some h) = hit_before lower srt h"
  by (simp add: behind_def fun_eq_iff)

lemma matching_rows_behind:
  assumes "\<And>t. fromisoformat (isoformat t) = Some t"
    and "item_type \<in> {LIBRARY_ITEM_ALBUM, LIBRARY_ITEM_SONG}"
  shows "matching_rows (one_text lower il) fromisoformat owner_id q srt
      (map_option (\<lambda>h. cursor_from_hit lower isoformat h q srt) after) limit item_type rows
    = Some (take limit (filter (\<lambda>r. behind lower srt after (hit_of item_type r))
        (apply_library_sort lower srt (selected_rows il owner_id q rows))))"
proof -
  have "keyset_clause (one_text lower il) fromisoformat srt
      (map_option (\<lambda>h. cursor_from_hit lower isoformat h q srt) after) item_type
    = Some (\<lambda>r. behind lower srt after (hit_of item_type r))"
    using keyset_clause_before [OF assms] by (cases after) (simp_all add: behind_def keyset_clause_def)
  then show ?thesis
    by (simp add: matching_rows_def selected_rows_def sort_filter [symmetric] conj_commute)
qed

lemma dedupe_distinct:
  "distinct (map hit_key hs) \<Longrightarrow> hit_key ` set hs \<inter> seen = {} \<Longrightarrow> dedupe_from seen hs = hs"
  by (induction hs arbitrary: seen) (auto simp: Let_def hit_key_def)

definition kind_hits ::
    "(string \<Rightarrow> string) \<Rightarrow> (string \<Rightarrow> string) \<Rightarrow> string option \<Rightarrow> string \<Rightarrow> library_sort \<Rightarrow> string \<Rightarrow> library_row list \<Rightarrow> library_hit list" where
  "kind_hits lower il owner_id q srt item_type rows =
     map (hit_of item_type) (apply_library_sort lower srt (selected_rows il owner_id q rows))"

lemma kind_hits_facts:
  assumes "distinct (map lr_id rows)" and "item_type \<in> {LIBRARY_ITEM_ALBUM, LIBRARY_ITEM_SONG}"
  shows "sorted_wrt (hit_before lower srt) (kind_hits lower il owner_id q srt item_type rows)"
    and "distinct (map hit_key (kind_hits lower il owner_id q srt item_type rows))"
    and "set (kind_hits lower il owner_id q srt item_type rows) = hit_of item_type ` set (selected_rows il owner_id q rows)"
proof -
  have "distinct (map lr_id (selected_rows il owner_id q rows))"
    using assms(1) by (simp add: selected_rows_def distinct_map_filter)
  from sorted_rows [OF this assms(2)] sorted_rows_distinct [OF this assms(2)]
  show "sorted_wrt (hit_before lower srt) (kind_hits lower il owner_id q srt item_type rows)"
    and "distinct (map hit_key (kind_hits lower il owner_id q srt item_type rows))"
    unfolding kind_hits_def by blast+
  show "set (kind_hits lower il owner_id q srt item_type rows) = hit_of item_type ` set (selected_rows il owner_id q rows)"
    by (simp add: kind_hits_def)
qed

lemma library_list_merge:
  "library_list lower il db owner_id q srt = merge_by (hit_before lower srt)
     (kind_hits lower il owner_id q srt LIBRARY_ITEM_ALBUM (ld_albums db))
     (kind_hits lower il owner_id q srt LIBRARY_ITEM_SONG (ld_songs db))"
  by (simp add: library_list_def merge_hits_def kind_hits_def)

lemma kinds_disjoint:
  "hit_key ` set (kind_hits lower il owner_id q srt LIBRARY_ITEM_ALBUM rows)
     \<inter> hit_key ` set (kind_hits lower il owner_id q srt LIBRARY_ITEM_SONG rows') = {}"
proof -
  have "hit_type a \<noteq> hit_type s" if "a \<in> Album_Hit ` A" "s \<in> Song_Hit ` B" for a s A B
    using that by auto
  then show ?thesis by (fastforce simp: kind_hits_def hit_key_def)
qed

lemma library_list_ranked:
  assumes "unique_ids db"
  shows "sorted_wrt (hit_before lower srt) (library_list lower il db owner_id q srt)"
proof -
  have "distinct (map lr_id (ld_albums db))" "distinct (map lr_id (ld_songs db))"
    using assms by (simp_all add: unique_ids_def)
  from kind_hits_facts(1) [OF this(1)] kind_hits_facts(1) [OF this(2)] show ?thesis
    unfolding library_list_merge by (intro hits.merge_ranked kinds_disjoint) simp_all
qed

lemma set_library_list:
  "set (library_list lower il db owner_id q srt) =
     Album_Hit ` set (selected_rows il owner_id q (ld_albums db))
     \<union> Song_Hit ` set (selected_rows il owner_id q (ld_songs db))"
  by (simp add: library_list_merge kind_hits_def)

definition rest_of ::
    "(string \<Rightarrow> string) \<Rightarrow> (string \<Rightarrow> string) \<Rightarrow> library_db \<Rightarrow> string option \<Rightarrow> string \<Rightarrow> library_sort \<Rightarrow> library_hit option \<Rightarrow> library_hit list" where
  "rest_of lower il db owner_id q srt after = filter (behind lower srt after) (library_list lower il db owner_id q srt)"

lemma search_library_page:
  assumes ids: "unique_ids db" and iso: "\<And>t. fromisoformat (isoformat t) = Some t"
    and "rest = rest_of lower il db owner_id q srt after"
  shows "search_library (one_text lower il) fromisoformat db owner_id q srt limit
      (map_option (\<lambda>h. cursor_from_hit lower isoformat h q srt) after)
    = Some \<lparr>pg_items = take limit rest, pg_has_more = limit < length rest\<rparr>"
proof -
  let ?B = "behind lower srt after"
  define A where "A = filter ?B (kind_hits lower il owner_id q srt LIBRARY_ITEM_ALBUM (ld_albums db))"
  define S where "S = filter ?B (kind_hits lower il owner_id q srt LIBRARY_ITEM_SONG (ld_songs db))"
  have dist: "distinct (map lr_id (ld_albums db))" "distinct (map lr_id (ld_songs db))"
    using ids by (simp_all add: unique_ids_def)
  note albums = kind_hits_facts [where item_type = LIBRARY_ITEM_ALBUM and lower = lower and il = il and srt = srt and owner_id = owner_id and q = q, OF dist(1)]
  note songs = kind_hits_facts [where item_type = LIBRARY_ITEM_SONG and lower = lower and il = il and srt = srt and owner_id = owner_id and q = q, OF dist(2)]
  have rest: "rest = merge_by (hit_before lower srt) A S"
    using hits.filter_merge [OF albums(1) songs(1) kinds_disjoint]
    by (simp add: assms(3) rest_of_def library_list_merge A_def S_def)
  let ?m = "merge_by (hit_before lower srt) (take (Suc limit) A) (take (Suc limit) S)"
  have "distinct (map hit_key ?m)"
  proof (rule distinct_map_merge_by)
    show "distinct (map hit_key (take (Suc limit) A))" "distinct (map hit_key (take (Suc limit) S))"
      using albums(2) songs(2) by (simp_all add: A_def S_def distinct_map_filter distinct_take take_map [symmetric])
    show "hit_key ` set (take (Suc limit) A) \<inter> hit_key ` set (take (Suc limit) S) = {}"
      using kinds_disjoint [of lower il owner_id q srt "ld_albums db" "ld_songs db"]
        set_take_subset [of "Suc limit" A] set_take_subset [of "Suc limit" S]
        filter_is_subset [of ?B] unfolding A_def S_def by blast
  qed
  then have "dedupe_hits ?m = ?m" by (simp add: dedupe_hits_def dedupe_distinct)
  moreover have "map (hit_of item_type) (take n (filter (\<lambda>r. ?B (hit_of item_type r)) rows))
      = take n (filter ?B (map (hit_of item_type) rows))" for n item_type rows
    by (simp add: filter_map take_map comp_def)
  from this [of LIBRARY_ITEM_ALBUM] this [of LIBRARY_ITEM_SONG]
  have "merge_hits lower
      (take (Suc limit) (filter (\<lambda>r. ?B (Album_Hit r)) (apply_library_sort lower srt (selected_rows il owner_id q (ld_albums db)))))
      (take (Suc limit) (filter (\<lambda>r. ?B (Song_Hit r)) (apply_library_sort lower srt (selected_rows il owner_id q (ld_songs db))))) srt = ?m"
    by (simp add: merge_hits_def A_def S_def kind_hits_def)
  moreover have "take limit ?m = take limit rest"
    by (simp add: rest take_merge_by)
  moreover have "limit < length ?m \<longleftrightarrow> limit < length rest"
    unfolding rest length_merge_by [of _ A S] by (rule more_than_limit)
  ultimately show ?thesis
    by (simp add: search_library_def matching_rows_behind [OF iso] Let_def del: length_merge_by)
qed

subsection \<open>Reading every page\<close>

lemma rest_of_None [simp]: "rest_of lower il db owner_id q srt None = library_list lower il db owner_id q srt"
  by (simp add: rest_of_def behind_def)

lemma rest_of_next:
  assumes "unique_ids db" and rest: "rest_of lower il db owner_id q srt after = xs @ h # ys"
  shows "rest_of lower il db owner_id q srt (Some h) = ys"
proof -
  let ?L = "library_list lower il db owner_id q srt"
  have ranked: "sorted_wrt (hit_before lower srt) ?L" using assms(1) by (rule library_list_ranked)
  have "h \<in> set (rest_of lower il db owner_id q srt after)" using rest by simp
  then have "behind lower srt after h" by (simp add: rest_of_def)
  then have "hit_before lower srt h x \<Longrightarrow> behind lower srt after x" for x
    by (cases after) (auto simp: behind_def intro: hits.before_trans)
  then have "filter (hit_before lower srt h) (filter (behind lower srt after) ?L) = filter (hit_before lower srt h) ?L"
    by (auto intro!: filter_cong)
  moreover have "sorted_wrt (hit_before lower srt) (xs @ h # ys)"
    using sorted_wrt_filter [OF ranked] rest by (metis rest_of_def)
  ultimately have "filter (hit_before lower srt h) ?L = ys"
    using hits.rest_behind rest by (metis rest_of_def)
  then show ?thesis by (simp add: rest_of_def)
qed

definition page_list :: "nat \<Rightarrow> 'a list list \<Rightarrow> 'a list \<Rightarrow> bool" where
  "page_list limit pages xs \<longleftrightarrow> concat pages = xs \<and> pages \<noteq> []
     \<and> list_all (\<lambda>p. length p = limit) (butlast pages) \<and> length (last pages) \<le> limit"

lemma page_list_Cons:
  "page_list limit pages (drop limit xs) \<Longrightarrow> limit < length xs \<Longrightarrow> page_list limit (take limit xs # pages) xs"
  by (auto simp: page_list_def)

lemma read_pages_rest:
  assumes ids: "unique_ids db" and iso: "\<And>t. fromisoformat (isoformat t) = Some t" and limit: "0 < limit"
  shows "length (rest_of lower il db owner_id q srt after) div limit < n \<Longrightarrow>
    \<exists>pages. read_pages n (one_text lower il) isoformat fromisoformat db owner_id q srt limit
        (map_option (\<lambda>h. cursor_from_hit lower isoformat h q srt) after) = Some pages
      \<and> page_list limit pages (rest_of lower il db owner_id q srt after)"
proof (induction n arbitrary: after)
  case (Suc n)
  define R where "R = rest_of lower il db owner_id q srt after"
  note page = search_library_page [OF ids iso R_def]
  show ?case
  proof (cases "limit < length R")
    case False
    then show ?thesis using R_def page by (simp add: page_list_def)
  next
    case True
    define h where "h = last (take limit R)"
    have "R = butlast (take limit R) @ h # drop limit R"
      using True limit unfolding h_def
      by (metis append_Cons append_Nil append_assoc append_butlast_last_id append_take_drop_id
          length_greater_0_conv length_take less_imp_le_nat min.absorb2)
    then have next_rest: "rest_of lower il db owner_id q srt (Some h) = drop limit R"
      using rest_of_next [OF ids] R_def by metis
    have "length (drop limit R) div limit < n"
      using Suc.prems True limit by (simp add: R_def [symmetric] le_div_geq)
    with Suc.IH [of "Some h"] next_rest obtain pages where
      "read_pages n (one_text lower il) isoformat fromisoformat db owner_id q srt limit
         (Some (cursor_from_hit lower isoformat h q srt)) = Some pages"
      "page_list limit pages (drop limit R)" by auto
    then show ?thesis
      using page True limit by (auto simp: R_def [symmetric] h_def intro!: page_list_Cons)
  qed
qed simp

subsection \<open>The database and Python on the same titles\<close>

text \<open>On the titles of the tables the database lower-cases as Python does and its collation orders the
  results as Python compares them.\<close>

definition text_agrees :: "text_rules \<Rightarrow> library_db \<Rightarrow> bool" where
  "text_agrees X db \<longleftrightarrow> (let titles = set (map lr_title (ld_albums db @ ld_songs db)) in
     (\<forall>s\<in>titles. sql_lower X s = py_lower X s)
     \<and> (\<forall>s\<in>titles. \<forall>t\<in>titles.
          collation_key X (py_lower X s) < collation_key X (py_lower X t) \<longleftrightarrow> py_lower X s < py_lower X t))"

definition in_tables :: "library_db \<Rightarrow> library_row \<Rightarrow> bool" where
  "in_tables db r \<longleftrightarrow> r \<in> set (ld_albums db) \<union> set (ld_songs db)"

lemma text_agreesD:
  assumes "text_agrees X db" and "in_tables db r" and "in_tables db r'"
  shows "sql_title_key X (lr_title r) = collation_key X (py_lower X (lr_title r))"
    and "collation_key X (py_lower X (lr_title r)) < collation_key X (py_lower X (lr_title r'))
      \<longleftrightarrow> py_lower X (lr_title r) < py_lower X (lr_title r')"
    and "collation_key X (py_lower X (lr_title r)) = collation_key X (py_lower X (lr_title r'))
      \<longleftrightarrow> py_lower X (lr_title r) = py_lower X (lr_title r')"
proof -
  from assms(1) have eq: "\<And>r. in_tables db r \<Longrightarrow> sql_lower X (lr_title r) = py_lower X (lr_title r)"
    and ord: "\<And>r r'. in_tables db r \<Longrightarrow> in_tables db r' \<Longrightarrow>
      (collation_key X (py_lower X (lr_title r)) < collation_key X (py_lower X (lr_title r'))
        \<longleftrightarrow> py_lower X (lr_title r) < py_lower X (lr_title r'))"
    by (auto simp: text_agrees_def Let_def in_tables_def)
  show "sql_title_key X (lr_title r) = collation_key X (py_lower X (lr_title r))"
    using eq [OF assms(2)] by (simp add: sql_title_key_def)
  show "collation_key X (py_lower X (lr_title r)) < collation_key X (py_lower X (lr_title r'))
      \<longleftrightarrow> py_lower X (lr_title r) < py_lower X (lr_title r')"
    by (rule ord [OF assms(2,3)])
  show "collation_key X (py_lower X (lr_title r)) = collation_key X (py_lower X (lr_title r'))
      \<longleftrightarrow> py_lower X (lr_title r) = py_lower X (lr_title r')"
    using ord [OF assms(2,3)] ord [OF assms(3,2)] by (metis linorder_neq_iff)
qed

lemma keyset_agrees:
  assumes "text_agrees X db" and "in_tables db (hit_row h)" and "in_tables db r"
  shows "map_option (\<lambda>k. k r) (keyset_clause X fromisoformat srt (Some (cursor_from_hit (py_lower X) isoformat h q srt)) item_type)
    = map_option (\<lambda>k. k r) (keyset_clause (one_text (py_lower X) (ilike_lower X)) fromisoformat srt
        (Some (cursor_from_hit (py_lower X) isoformat h q srt)) item_type)"
  using text_agreesD [OF assms(1,3,2)] text_agreesD [OF assms(1,2,3)]
  by (cases srt)
    (simp_all add: keyset_clause_def Let_def cursor_from_hit_def ascending_keyset_clause_def split: option.split)

lemma sort_key_agree:
  assumes "\<And>x y. x \<in> set xs \<Longrightarrow> y \<in> set xs \<Longrightarrow> f x < f y \<longleftrightarrow> g x < g y"
  shows "sort_key f xs = sort_key g xs"
  using assms
proof (induction xs)
  case (Cons x xs)
  have "insort_key f x ys = insort_key g x ys" if "set ys \<subseteq> set xs" for ys
    using that
  proof (induction ys)
    case (Cons y ys)
    have "f x \<le> f y \<longleftrightarrow> g x \<le> g y"
      using Cons.prems Cons.IH \<open>\<And>x' y'. x' \<in> set (x # xs) \<Longrightarrow> y' \<in> set (x # xs) \<Longrightarrow> f x' < f y' \<longleftrightarrow> g x' < g y'\<close> [of y x]
      by (auto simp: not_less [symmetric])
    then show ?case using Cons by simp
  qed simp
  from this [of "sort_key g xs"] show ?case using Cons by simp
qed simp

lemma sort_agrees:
  assumes "text_agrees X db" and "\<And>r. r \<in> set rows \<Longrightarrow> in_tables db r"
  shows "apply_library_sort (sql_title_key X) Sort_Title rows = apply_library_sort (py_lower X) Sort_Title rows"
proof -
  have "sort_key (\<lambda>r. (sql_title_key X (lr_title r), lr_id r)) rows
      = sort_key (\<lambda>r. (py_lower X (lr_title r), lr_id r)) rows"
  proof (rule sort_key_agree)
    fix x y assume "x \<in> set rows" "y \<in> set rows"
    then have "in_tables db x" "in_tables db y" using assms(2) by blast+
    from text_agreesD [OF assms(1) this] text_agreesD(1) [OF assms(1) this(2,1)]
    show "(sql_title_key X (lr_title x), lr_id x) < (sql_title_key X (lr_title y), lr_id y)
        \<longleftrightarrow> (py_lower X (lr_title x), lr_id x) < (py_lower X (lr_title y), lr_id y)"
      by (auto simp: less_prod_def le_less)
  qed
  then show ?thesis by (simp add: apply_library_sort_def)
qed

lemma matching_agrees:
  assumes agrees: "srt = Sort_Title \<longrightarrow> text_agrees X db" and rows: "\<And>r. r \<in> set rows \<Longrightarrow> in_tables db r"
    and after: "pred_option (\<lambda>h. in_tables db (hit_row h)) after"
  shows "matching_rows X fromisoformat owner_id q srt
      (map_option (\<lambda>h. cursor_from_hit (py_lower X) isoformat h q srt) after) limit item_type rows
    = matching_rows (one_text (py_lower X) (ilike_lower X)) fromisoformat owner_id q srt
      (map_option (\<lambda>h. cursor_from_hit (py_lower X) isoformat h q srt) after) limit item_type rows"
proof (cases "srt = Sort_Title")
  case False
  then show ?thesis
    by (cases srt) (simp_all add: matching_rows_def keyset_clause_def apply_library_sort_def Let_def split: option.split)
next
  case True
  then have agrees: "text_agrees X db" using agrees by simp
  define after' where "after' = map_option (\<lambda>h. cursor_from_hit (py_lower X) isoformat h q srt) after"
  obtain k k' where k: "keyset_clause X fromisoformat srt after' item_type = Some k"
      "keyset_clause (one_text (py_lower X) (ilike_lower X)) fromisoformat srt after' item_type = Some k'"
    using True by (cases after') (auto simp: keyset_clause_def Let_def)
  have "k r = k' r" if "in_tables db r" for r
  proof (cases after)
    case None
    then show ?thesis using k by (simp add: after'_def keyset_clause_def)
  next
    case (Some h)
    then have "map_option (\<lambda>k. k r) (Some k) = map_option (\<lambda>k. k r) (Some k')"
      using keyset_agrees [OF agrees _ that, of h fromisoformat srt isoformat q item_type] after
      unfolding k [symmetric] after'_def by simp
    then show ?thesis by simp
  qed
  then have same: "filter k (filter P (filter Q rows)) = filter k' (filter P (filter Q rows))" for P Q
    using rows by (auto intro!: filter_cong)
  show ?thesis
    using sort_agrees [OF agrees, of "filter k' (filter P (filter Q rows))" for P Q] rows True
    by (simp add: matching_rows_def k [unfolded after'_def True] same del: filter_filter)
qed

lemma search_agrees:
  assumes "srt = Sort_Title \<longrightarrow> text_agrees X db" and "pred_option (\<lambda>h. in_tables db (hit_row h)) after"
  shows "search_library X fromisoformat db owner_id q srt limit
      (map_option (\<lambda>h. cursor_from_hit (py_lower X) isoformat h q srt) after)
    = search_library (one_text (py_lower X) (ilike_lower X)) fromisoformat db owner_id q srt limit
      (map_option (\<lambda>h. cursor_from_hit (py_lower X) isoformat h q srt) after)"
  using matching_agrees [OF assms(1) _ assms(2), of "ld_albums db" fromisoformat owner_id q isoformat "limit + 1" LIBRARY_ITEM_ALBUM]
    matching_agrees [OF assms(1) _ assms(2), of "ld_songs db" fromisoformat owner_id q isoformat "limit + 1" LIBRARY_ITEM_SONG]
  by (simp add: search_library_def in_tables_def split: option.split)

lemma dedupe_subset: "set (dedupe_from seen hs) \<subseteq> set hs"
  by (induction hs arbitrary: seen) (auto simp: Let_def)

lemma matching_subset:
  "matching_rows X fromisoformat owner_id q srt after limit item_type rows = Some rs \<Longrightarrow> set rs \<subseteq> set rows"
  by (auto simp: matching_rows_def split: option.splits dest!: in_set_takeD)

lemma search_in_tables:
  assumes "search_library X fromisoformat db owner_id q srt limit after = Some page" and "h \<in> set (pg_items page)"
  shows "in_tables db (hit_row h)"
proof -
  from assms(1) obtain albums songs where
    rows: "set albums \<subseteq> set (ld_albums db)" "set songs \<subseteq> set (ld_songs db)"
    and page: "pg_items page = take limit (dedupe_hits (merge_hits (py_lower X) albums songs srt))"
    by (auto simp: search_library_def Let_def split: option.splits dest!: matching_subset)
  have "h \<in> set (merge_hits (py_lower X) albums songs srt)"
    using assms(2) dedupe_subset [of "{}"] by (auto simp: page dedupe_hits_def dest: in_set_takeD)
  then show ?thesis using rows by (auto simp: merge_hits_def in_tables_def)
qed

lemma read_pages_agree:
  assumes "srt = Sort_Title \<longrightarrow> text_agrees X db"
  shows "pred_option (\<lambda>h. in_tables db (hit_row h)) after \<Longrightarrow>
    read_pages n X isoformat fromisoformat db owner_id q srt limit
      (map_option (\<lambda>h. cursor_from_hit (py_lower X) isoformat h q srt) after)
    = read_pages n (one_text (py_lower X) (ilike_lower X)) isoformat fromisoformat db owner_id q srt limit
      (map_option (\<lambda>h. cursor_from_hit (py_lower X) isoformat h q srt) after)"
proof (induction n arbitrary: after)
  case (Suc n)
  show ?case
  proof (cases "search_library X fromisoformat db owner_id q srt limit
      (map_option (\<lambda>h. cursor_from_hit (py_lower X) isoformat h q srt) after)")
    case None
    then show ?thesis using search_agrees [OF assms Suc.prems, of fromisoformat owner_id q limit isoformat] by simp
  next
    case (Some page)
    then have other: "search_library (one_text (py_lower X) (ilike_lower X)) fromisoformat db owner_id q srt limit
        (map_option (\<lambda>h. cursor_from_hit (py_lower X) isoformat h q srt) after) = Some page"
      using search_agrees [OF assms Suc.prems, of fromisoformat owner_id q limit isoformat] by simp
    show ?thesis
    proof (cases "pg_items page = []")
      case False
      then have "in_tables db (hit_row (last (pg_items page)))"
        using search_in_tables [OF Some] by simp
      with Suc.IH [of "Some (last (pg_items page))"] show ?thesis by (simp add: Some other)
    qed (simp add: Some other)
  qed
qed simp

text \<open>C37: Reading the pages of a search terminates and gives the whole result once.  With ids that are
  unique, time stamps that survive their text form and a positive limit, reading on behind the last
  hit of each page needs at most one request more than full pages fit in the result; the pages are full
  except the last and, put together, are the albums and songs the viewer may see whose title matches,
  each once, in the order of the sort.  A search sorted by title compares lower-cased titles twice,
  in the database and in Python, and for it, and only for it, the property assumes that on the titles
  stored the two agree: that the database lower-cases them as Python does and that its collation orders
  them as Python orders strings.  How \<open>ILIKE\<close> folds case is left open.\<close>

theorem pages_are_the_result:
  assumes "unique_ids db" and "\<And>t. fromisoformat (isoformat t) = Some t" and "0 < limit"
    and "srt = Sort_Title \<longrightarrow> text_agrees X db"
  shows "\<exists>pages xs. read_pages (Suc (length xs div limit)) X isoformat fromisoformat db owner_id q srt limit None
      = Some pages \<and> page_list limit pages xs \<and> sorted_wrt (hit_before (py_lower X) srt) xs \<and> distinct xs
    \<and> set xs = Album_Hit ` set (selected_rows (ilike_lower X) owner_id q (ld_albums db))
        \<union> Song_Hit ` set (selected_rows (ilike_lower X) owner_id q (ld_songs db))"
proof -
  let ?lower = "py_lower X" and ?il = "ilike_lower X"
  let ?L = "library_list ?lower ?il db owner_id q srt"
  have "read_pages n X isoformat fromisoformat db owner_id q srt limit None
      = read_pages n (one_text ?lower ?il) isoformat fromisoformat db owner_id q srt limit None" for n
    using read_pages_agree [OF assms(4), of None] by simp
  moreover from read_pages_rest [OF assms(1-3), of ?lower ?il owner_id q srt None "Suc (length ?L div limit)"]
  obtain pages where "read_pages (Suc (length ?L div limit)) (one_text ?lower ?il) isoformat fromisoformat db owner_id q
      srt limit None = Some pages" "page_list limit pages ?L" by auto
  moreover have "sorted_wrt (hit_before ?lower srt) ?L" using assms(1) by (rule library_list_ranked)
  ultimately show ?thesis using hits.ranked_distinct set_library_list by metis
qed

text \<open>A tally stands for the text of a point in time.\<close>

definition tally_iso :: "timestamp \<Rightarrow> string" where
  "tally_iso t = (if t < 0 then CHR ''-'' # replicate (nat (- t)) (CHR ''1'') else replicate (nat t) (CHR ''1''))"

definition tally_parse :: "string \<Rightarrow> timestamp option" where
  "tally_parse s = Some (case s of CHR ''-'' # ds \<Rightarrow> - int (length ds) | _ \<Rightarrow> int (length s))"

lemma tally_roundtrip: "tally_parse (tally_iso t) = Some t"
proof (cases "t < 0")
  case False
  then show ?thesis by (cases "nat t") (auto simp: tally_parse_def tally_iso_def)
qed (simp add: tally_parse_def tally_iso_def)

definition sample_row :: "string \<Rightarrow> string \<Rightarrow> timestamp \<Rightarrow> library_row" where
  "sample_row i t c = \<lparr>lr_id = i, lr_title = t, lr_created_at = c, lr_created_by = Some ''u'', lr_is_archived = False\<rparr>"

definition sample_library :: library_db where
  "sample_library = \<lparr>ld_albums = [sample_row ''x'' ''sea'' 5, sample_row ''y'' ''land'' 6],
     ld_songs = [sample_row ''p'' ''seaside'' 5, sample_row ''x'' ''the sea'' 7, sample_row ''q'' ''sky'' 9]\<rparr>"

text \<open>A database whose collation keys all begin with one letter.\<close>

definition marked_keys :: text_rules where
  "marked_keys = \<lparr>py_lower = ascii_lower, ilike_lower = ascii_lower, sql_lower = ascii_lower,
     collation_key = (\<lambda>s. CHR ''k'' # s)\<rparr>"

theorem pages_are_the_result_witness:
  "\<exists>pages xs. read_pages (Suc (length xs div 2)) marked_keys tally_iso tally_parse sample_library (Some ''u'')
      ''sea'' Sort_Title 2 None = Some pages
    \<and> page_list 2 pages xs \<and> sorted_wrt (hit_before (py_lower marked_keys) Sort_Title) xs \<and> distinct xs
    \<and> set xs = Album_Hit ` set (selected_rows (ilike_lower marked_keys) (Some ''u'') ''sea'' (ld_albums sample_library))
        \<union> Song_Hit ` set (selected_rows (ilike_lower marked_keys) (Some ''u'') ''sea'' (ld_songs sample_library))"
  by (rule pages_are_the_result)
    (simp_all add: unique_ids_def sample_library_def sample_row_def tally_roundtrip text_agrees_def marked_keys_def)

subsection \<open>When the two disagree\<close>

lemma title_search_songs:
  assumes "ld_albums db = []" and "keyset_clause X fromisoformat Sort_Title after LIBRARY_ITEM_SONG = Some K"
  shows "search_library X fromisoformat db owner_id q Sort_Title limit after =
    (let songs = take (limit + 1) (filter K (apply_library_sort (sql_title_key X) Sort_Title
           (selected_rows (ilike_lower X) owner_id q (ld_songs db))));
         unique = dedupe_hits (map Song_Hit songs)
     in Some \<lparr>pg_items = take limit unique, pg_has_more = limit < length unique\<rparr>)"
proof -
  obtain K' where "keyset_clause X fromisoformat Sort_Title after LIBRARY_ITEM_ALBUM = Some K'"
    by (cases after) (auto simp: keyset_clause_def Let_def)
  then show ?thesis
    using assms by (simp add: search_library_def matching_rows_def merge_hits_def selected_rows_def sort_filter [symmetric]
      apply_library_sort_def [of _ _ "[]"] Let_def conj_commute)
qed

text \<open>Where the two disagree the reader of a title search may never come to the end.  If the database's
  key for the title on a page of one song lies behind its key for Python's lower-casing of that title,
  the song passes the condition of its own cursor: the page behind it is the same page, and reading on
  never ends.\<close>

theorem title_page_repeats:
  assumes "ld_albums db = []" and page: "search_library X fromisoformat db owner_id q Sort_Title 1 None = Some page"
    and more: "pg_has_more page"
    and disagree: "collation_key X (py_lower X (lr_title (hit_row (last (pg_items page)))))
      < sql_title_key X (lr_title (hit_row (last (pg_items page))))"
  shows "search_library X fromisoformat db owner_id q Sort_Title 1
      (Some (cursor_from_hit (py_lower X) isoformat (last (pg_items page)) q Sort_Title)) = Some page
    \<and> read_pages n X isoformat fromisoformat db owner_id q Sort_Title 1 None = None"
proof -
  let ?h = "last (pg_items page)" let ?c = "Some (cursor_from_hit (py_lower X) isoformat ?h q Sort_Title)"
  let ?S = "apply_library_sort (sql_title_key X) Sort_Title (selected_rows (ilike_lower X) owner_id q (ld_songs db))"
  note search = title_search_songs [OF assms(1), of X fromisoformat]
  have None: "search_library X fromisoformat db owner_id q Sort_Title 1 None =
      Some \<lparr>pg_items = take 1 (dedupe_hits (map Song_Hit (take 2 ?S))),
        pg_has_more = 1 < length (dedupe_hits (map Song_Hit (take 2 ?S)))\<rparr>"
    using search [of None "\<lambda>_. True"] by (simp add: keyset_clause_def Let_def numeral_2_eq_2)
  obtain r rs where S: "?S = r # rs"
    using None page more by (cases ?S) (auto simp: dedupe_hits_def)
  have items: "pg_items page = [Song_Hit r]"
    using None page by (auto simp: S dedupe_hits_def Let_def numeral_2_eq_2)
  have first: "sql_title_key X (lr_title r) \<le> sql_title_key X (lr_title x)" if "x \<in> set ?S" for x
  proof -
    have "sorted (map (\<lambda>r. (sql_title_key X (lr_title r), lr_id r)) ?S)"
      by (simp add: apply_library_sort_def)
    then show ?thesis using that unfolding S by (auto simp: less_eq_prod_def)
  qed
  obtain K where K: "keyset_clause X fromisoformat Sort_Title ?c LIBRARY_ITEM_SONG = Some K"
    and "\<And>x. sql_title_key X (lr_title x) > collation_key X (py_lower X (lr_title r)) \<Longrightarrow> K x"
    by (auto simp: keyset_clause_def Let_def items cursor_from_hit_def ascending_keyset_clause_def)
  then have "filter K ?S = ?S"
    using first disagree items by (fastforce simp: filter_id_conv intro: less_le_trans)
  then have again: "search_library X fromisoformat db owner_id q Sort_Title 1 ?c = Some page"
    using search [OF K] None page by (simp add: Let_def numeral_2_eq_2)
  have "read_pages n X isoformat fromisoformat db owner_id q Sort_Title 1 ?c = None" for n
    by (induction n) (simp_all add: again more del: One_nat_def)
  then show ?thesis using again page more by (cases n) (simp_all del: One_nat_def)
qed

definition late_sigma :: text_rules where
  "late_sigma = \<lparr>py_lower = map (\<lambda>c. if c = CHR ''S'' then CHR ''r'' else c), ilike_lower = ascii_lower,
     sql_lower = ascii_lower, collation_key = (\<lambda>s. s)\<rparr>"

theorem title_page_repeats_witness:
  "read_pages 9 late_sigma tally_iso tally_parse \<lparr>ld_albums = [], ld_songs = [sample_row ''a'' ''S'' 1, sample_row ''b'' ''Sb'' 2]\<rparr>
     None '''' Sort_Title 1 None = None"
proof -
  have "search_library late_sigma tally_parse \<lparr>ld_albums = [], ld_songs = [sample_row ''a'' ''S'' 1, sample_row ''b'' ''Sb'' 2]\<rparr>
     None '''' Sort_Title 1 None = Some \<lparr>pg_items = [Song_Hit (sample_row ''a'' ''S'' 1)], pg_has_more = True\<rparr>"
    by code_simp
  moreover have "collation_key late_sigma (py_lower late_sigma ''S'') < sql_title_key late_sigma ''S''"
    by code_simp
  ultimately show ?thesis
    using title_page_repeats [of "\<lparr>ld_albums = [], ld_songs = [sample_row ''a'' ''S'' 1, sample_row ''b'' ''Sb'' 2]\<rparr>"]
    by (simp add: sample_row_def del: read_pages.simps)
qed

subsection \<open>Literal queries\<close>

definition like_special :: "char \<Rightarrow> bool" where
  "like_special x \<longleftrightarrow> x = LIKE_ESCAPE_CHAR \<or> x = CHR ''%'' \<or> x = CHR ''_''"

definition like_escape :: "char \<Rightarrow> string" where
  "like_escape x = (if like_special x then [LIKE_ESCAPE_CHAR, x] else [x])"

lemma replace_char_append: "replace_char c t (xs @ ys) = replace_char c t xs @ replace_char c t ys"
  by (simp add: replace_char_def)

lemma like_contains_pattern_escape:
  "like_contains_pattern raw = CHR ''%'' # concat (map like_escape raw) @ ''%''"
proof -
  have "replace_char (CHR ''_'') [LIKE_ESCAPE_CHAR, CHR ''_'']
            (replace_char (CHR ''%'') [LIKE_ESCAPE_CHAR, CHR ''%'']
              (replace_char LIKE_ESCAPE_CHAR [LIKE_ESCAPE_CHAR, LIKE_ESCAPE_CHAR] raw))
    = concat (map like_escape raw)"
  proof (induction raw)
    case (Cons x raw)
    let ?r = "\<lambda>s. replace_char (CHR ''_'') [LIKE_ESCAPE_CHAR, CHR ''_'']
            (replace_char (CHR ''%'') [LIKE_ESCAPE_CHAR, CHR ''%'']
              (replace_char LIKE_ESCAPE_CHAR [LIKE_ESCAPE_CHAR, LIKE_ESCAPE_CHAR] s))"
    have "?r ([x] @ raw) = ?r [x] @ ?r raw" by (simp only: replace_char_append)
    moreover have "?r [x] = like_escape x"
      by (auto simp: replace_char_def like_escape_def like_special_def LIKE_ESCAPE_CHAR_def)
    ultimately show ?case using Cons by simp
  qed (simp add: replace_char_def)
  then show ?thesis by (simp add: like_contains_pattern_def Let_def)
qed

lemma like_escaped:
  "like_match (concat (map like_escape q) @ p) s \<longleftrightarrow> prefix q s \<and> like_match p (drop (length q) s)"
proof (induction q arbitrary: s)
  case (Cons x q)
  show ?case
  proof (cases s)
    case Nil
    then show ?thesis by (auto simp: like_escape_def like_special_def)
  next
    case (Cons y s')
    then show ?thesis using Cons.IH [of s'] by (auto simp: like_escape_def like_special_def)
  qed
qed simp

lemma like_rest: "like_match ''%'' s"
  by (auto simp: LIKE_ESCAPE_CHAR_def list_ex_iff)

lemma like_any: "like_match (CHR ''%'' # p) s \<longleftrightarrow> (\<exists>k \<le> length s. like_match p (drop k s))"
  by (auto simp: LIKE_ESCAPE_CHAR_def list_ex_iff less_Suc_eq_le simp del: upt_Suc)

lemma like_contains: "like_match (CHR ''%'' # concat (map like_escape q) @ ''%'') s \<longleftrightarrow> sublist q s"
proof -
  have "like_match (CHR ''%'' # concat (map like_escape q) @ ''%'') s
      \<longleftrightarrow> (\<exists>k \<le> length s. prefix q (drop k s))"
    unfolding like_any [of "concat (map like_escape q) @ ''%''"] like_escaped by (simp only: like_rest simp_thms)
  also have "\<dots> \<longleftrightarrow> sublist q s"
  proof
    assume "\<exists>k \<le> length s. prefix q (drop k s)"
    then show "sublist q s" by (metis append_take_drop_id prefix_def sublist_def)
  next
    assume "sublist q s"
    then obtain ps ss where "s = ps @ q @ ss" by (auto simp: sublist_def)
    then have "length ps \<le> length s \<and> prefix q (drop (length ps) s)" by simp
    then show "\<exists>k \<le> length s. prefix q (drop k s)" by blast
  qed
  finally show ?thesis .
qed

text \<open>A lower-casing that works letter by letter and leaves the special characters of a pattern alone.\<close>

definition letterwise :: "(string \<Rightarrow> string) \<Rightarrow> bool" where
  "letterwise lower \<longleftrightarrow> (\<exists>f. lower = map f \<and> (\<forall>x. like_special x \<longrightarrow> f x = x) \<and> (\<forall>x. like_special (f x) \<longrightarrow> f x = x))"

text \<open>A search is for literal text.  Whatever characters the query has, the wildcards and the
  escape character of SQL patterns included, a title matches exactly when it contains the query,
  letter case aside.\<close>

theorem title_matches_literal:
  assumes "letterwise lower"
  shows "title_matches lower q title \<longleftrightarrow> sublist (lower q) (lower title)"
proof -
  from assms obtain f where f: "lower = map f"
    and special: "\<And>x. like_special x \<Longrightarrow> f x = x" "\<And>x. like_special (f x) \<Longrightarrow> f x = x"
    by (auto simp: letterwise_def)
  have "like_special (f x) = like_special x" for x using special by metis
  then have "map f (like_escape x) = like_escape (f x)" for x
    using special(1) by (auto simp: like_escape_def like_special_def)
  then have "map f (concat (map like_escape q)) = concat (map like_escape (map f q))"
    by (induction q) simp_all
  moreover have "f (CHR ''%'') = CHR ''%''" by (rule special) (simp add: like_special_def)
  ultimately have "lower (like_contains_pattern q) = CHR ''%'' # concat (map like_escape (map f q)) @ ''%''"
    by (simp add: f like_contains_pattern_escape del: map_map)
  then show ?thesis by (simp only: title_matches_def like_contains f)
qed

lemma letterwise_ascii_lower: "letterwise ascii_lower"
proof -
  let ?f = "\<lambda>c. if 65 \<le> (of_char c :: nat) \<and> (of_char c :: nat) \<le> 90 then char_of ((of_char c :: nat) + 32) else c"
  have "?f x = x" if "like_special x" for x
    using that by (auto simp: like_special_def LIKE_ESCAPE_CHAR_def)
  moreover have "?f x = x" if "like_special (?f x)" for x
  proof (rule ccontr)
    assume "?f x \<noteq> x"
    then have r: "65 \<le> (of_char x :: nat) \<and> (of_char x :: nat) \<le> 90" by (auto split: if_splits)
    then have "(of_char (?f x) :: nat) = of_char x + 32" by simp
    moreover have "(of_char y :: nat) \<in> {92, 37, 95}" if "like_special y" for y
      using that by (auto simp: like_special_def LIKE_ESCAPE_CHAR_def)
    from this [OF that] have "(of_char (?f x) :: nat) \<in> {92, 37, 95}" .
    ultimately show False using r by auto
  qed
  ultimately have "\<forall>x. like_special x \<longrightarrow> ?f x = x" "\<forall>x. like_special (?f x) \<longrightarrow> ?f x = x" by blast+
  moreover have "ascii_lower = map ?f" by (simp add: fun_eq_iff ascii_lower_def)
  ultimately show ?thesis unfolding letterwise_def by blast
qed

theorem title_matches_literal_witness:
  "title_matches ascii_lower ''50%'' ''The 50% Song'' \<and> \<not> title_matches ascii_lower ''50%'' ''The 500 Songs''
   \<and> \<not> title_matches ascii_lower ''a_c'' ''Abc''"
  unfolding title_matches_literal [OF letterwise_ascii_lower]
  by (simp add: ascii_lower_def sublist_code)

end
