(* ===== verification/Takes.thy ===== *)
theory Takes
  imports Song_Types Audio_Paths "HOL-Library.Multiset"
begin

text \<open>
  Takes and their retention (\<open>db/queries/generations.py\<close>, \<open>run_generation_retention\<close> of
  \<open>cleanup.py\<close>): creation with the next number of the song, picks, keeps, archiving, sharing,
  deletion with its files, scores and ratings.  A transaction that raises is rolled back
  (\<open>transact\<close>).  Ids and slugs of new rows and the time are arguments.  The row locks make a
  transaction on a take atomic; a run of the retention is a sequence of such transactions with
  those of other sessions in between.
\<close>

record take_row = generation +
  t_wav_path :: "string option"
  t_archived_at :: "timestamp option"
  t_src_generation_id :: "string option"
  t_audio_duration_sec :: "rat option"
  t_is_shared :: bool
  t_share_slug :: "string option"
  t_created_by :: "string option"
  t_reference_recording_id :: "string option"

record take_db =
  td_songs :: "string list"   \<comment> \<open>the ids of all songs, deleted ones included\<close>
  td_takes :: "take_row list"
  td_scores :: "(string, (string, json) dict) dict"
  td_ratings :: "(string, rat \<times> string) dict"

datatype take_error = Take_Not_Found string | Take_Is_Archived string | Bad_Mp3_Path | Integrity_Error

type_synonym 'a take_op_result = "(take_error + 'a) \<times> take_db"

definition change_take :: "string \<Rightarrow> (take_row \<Rightarrow> take_row) \<Rightarrow> take_db \<Rightarrow> take_db" where
  "change_take gid f db = db\<lparr>td_takes := table_update g_id gid f (td_takes db)\<rparr>"

definition transact :: "(take_db \<Rightarrow> 'a take_op_result) \<Rightarrow> take_db \<Rightarrow> 'a take_op_result" where
  "transact f db = (case f db of (Inl e, _) \<Rightarrow> (Inl e, db) | (Inr r, db') \<Rightarrow> (Inr r, db'))"

subsection \<open>Creation\<close>

definition probe_audio_duration_or_none :: "string list \<Rightarrow> audio_fs \<Rightarrow> string \<Rightarrow> rat option" where
  "probe_audio_duration_or_none audio_dir fs mp3_rel =
     (case map_of fs (resolve_path (path_join audio_dir mp3_rel)) of
        None \<Rightarrow> None
      | Some f \<Rightarrow> read_audio_duration f)"

definition next_generation_number :: "string \<Rightarrow> take_db \<Rightarrow> int" where
  "next_generation_number song_id db =
     (case sort_key (\<lambda>t. - g_number t) (filter (\<lambda>t. g_song_id t = song_id) (td_takes db)) of
        [] \<Rightarrow> 1
      | highest # _ \<Rightarrow> g_number highest + 1)"

record new_take =
  nt_id :: string
  nt_song_id :: string
  nt_version_id :: string
  nt_mp3_path :: string
  nt_model_mode :: string
  nt_seed :: "int option"
  nt_wav_path :: "string option"
  nt_src_generation_id :: "string option"
  nt_created_by :: string
  nt_reference_recording_id :: "string option"
  nt_now :: timestamp

text \<open>A duplicate primary key or number, or a song that is gone, fails the insert.\<close>

definition create_generation ::
    "string list \<Rightarrow> audio_fs \<Rightarrow> new_take \<Rightarrow> take_db \<Rightarrow> take_row take_op_result" where
  "create_generation audio_dir fs nt db =
     (case (if nt_mp3_path nt = '''' then None else canonical_audio_filename audio_dir (nt_mp3_path nt)) of
        None \<Rightarrow> (Inl Bad_Mp3_Path, db)
      | Some canonical_mp3_path \<Rightarrow>
          (let audio_duration_sec = probe_audio_duration_or_none audio_dir fs canonical_mp3_path;
               gen_number = next_generation_number (nt_song_id nt) db;
               gen = \<lparr>g_id = nt_id nt, g_song_id = nt_song_id nt, g_song = None,
                      g_version_id = Some (nt_version_id nt), g_version = None, g_number = gen_number,
                      g_mp3_path = canonical_mp3_path, g_seed = nt_seed nt, g_model_mode = nt_model_mode nt,
                      g_is_archived = False, g_is_picked = False, g_is_kept = False,
                      g_created_at = Some (nt_now nt), t_wav_path = nt_wav_path nt, t_archived_at = None,
                      t_src_generation_id = nt_src_generation_id nt,
                      t_audio_duration_sec = audio_duration_sec, t_is_shared = False, t_share_slug = None,
                      t_created_by = Some (nt_created_by nt),
                      t_reference_recording_id = nt_reference_recording_id nt\<rparr>
           in if nt_song_id nt \<notin> set (td_songs db) \<or> nt_id nt \<in> g_id ` set (td_takes db)
              then (Inl Integrity_Error, db)
              else (Inr gen, db\<lparr>td_takes := td_takes db @ [gen]\<rparr>)))"

definition measure_generation_audio_duration ::
    "string list \<Rightarrow> audio_fs \<Rightarrow> string \<Rightarrow> take_db \<Rightarrow> rat option \<times> take_db" where
  "measure_generation_audio_duration audio_dir fs gid db =
     (case table_get g_id gid (td_takes db) of
        None \<Rightarrow> (None, db)
      | Some gen \<Rightarrow>
          (if t_audio_duration_sec gen \<noteq> None then (t_audio_duration_sec gen, db)
           else (let d = probe_audio_duration_or_none audio_dir fs (g_mp3_path gen)
                 in (d, change_take gid (\<lambda>t. t\<lparr>t_audio_duration_sec := d\<rparr>) db))))"

subsection \<open>Scores and ratings\<close>

definition dict_update :: "('k, 'v) dict \<Rightarrow> ('k, 'v) dict \<Rightarrow> ('k, 'v) dict" where
  "dict_update d new = foldl (\<lambda>d (k, v). dict_set k v d) d new"

definition save_scores ::
    "string \<Rightarrow> (string, json) dict \<Rightarrow> string set \<Rightarrow> take_db \<Rightarrow> unit take_op_result" where
  "save_scores gid scores refreshed_keys db =
     (case map_of (td_scores db) gid of
        None \<Rightarrow>
          (if gid \<notin> g_id ` set (td_takes db) then (Inl Integrity_Error, db)
           else (Inr (), db\<lparr>td_scores := dict_set gid (dict_update [] scores) (td_scores db)\<rparr>))
      | Some existing \<Rightarrow>
          (let merged = dict_update (filter (\<lambda>(key, _). key \<notin> refreshed_keys) existing) scores
           in (Inr (), db\<lparr>td_scores := dict_set gid merged (td_scores db)\<rparr>)))"

definition save_coherence_verdict :: "string \<Rightarrow> int \<Rightarrow> string \<Rightarrow> take_db \<Rightarrow> unit take_op_result" where
  "save_coherence_verdict gid score summary =
     save_scores gid [(''lyrical_coherence'', J_Int score), (''lyrical_summary'', J_Str summary)]
       {''lyrical_coherence'', ''lyrical_summary''}"

definition save_rating :: "string \<Rightarrow> rat \<Rightarrow> string \<Rightarrow> take_db \<Rightarrow> unit take_op_result" where
  "save_rating gid rating notes db =
     (if map_of (td_ratings db) gid = None \<and> gid \<notin> g_id ` set (td_takes db) then (Inl Integrity_Error, db)
      else (Inr (), db\<lparr>td_ratings := dict_set gid (rating, notes) (td_ratings db)\<rparr>))"

subsection \<open>Marks\<close>

definition require_generation :: "string \<Rightarrow> take_db \<Rightarrow> take_error + take_row" where
  "require_generation gid db =
     (case table_get g_id gid (td_takes db) of None \<Rightarrow> Inl (Take_Not_Found gid) | Some gen \<Rightarrow> Inr gen)"

definition lock_unarchived_take :: "string \<Rightarrow> take_db \<Rightarrow> take_error + take_row" where
  "lock_unarchived_take gid db =
     (case require_generation gid db of
        Inl e \<Rightarrow> Inl e
      | Inr gen \<Rightarrow> if g_is_archived gen then Inl (Take_Is_Archived gid) else Inr gen)"

definition toggle_take :: "string \<Rightarrow> (take_row \<Rightarrow> take_row) \<Rightarrow> take_db \<Rightarrow> unit take_op_result" where
  "toggle_take gid f db =
     (case require_generation gid db of
        Inl e \<Rightarrow> (Inl e, db)
      | Inr _ \<Rightarrow> (Inr (), change_take gid f db))"

definition mark_take :: "string \<Rightarrow> (take_row \<Rightarrow> take_row) \<Rightarrow> take_db \<Rightarrow> unit take_op_result" where
  "mark_take gid f db =
     (case lock_unarchived_take gid db of
        Inl e \<Rightarrow> (Inl e, db)
      | Inr _ \<Rightarrow> (Inr (), change_take gid f db))"

definition pick_generation :: "string \<Rightarrow> take_db \<Rightarrow> unit take_op_result" where
  "pick_generation gid db =
     (case require_generation gid db of
        Inl e \<Rightarrow> (Inl e, db)
      | Inr gen \<Rightarrow>
          mark_take gid (\<lambda>t. t\<lparr>g_is_picked := True\<rparr>)
            (db\<lparr>td_takes := map (\<lambda>t. if g_song_id t = g_song_id gen then t\<lparr>g_is_picked := False\<rparr> else t)
                              (td_takes db)\<rparr>))"

definition unpick_generation :: "string \<Rightarrow> take_db \<Rightarrow> unit take_op_result" where
  "unpick_generation gid = toggle_take gid (\<lambda>t. t\<lparr>g_is_picked := False\<rparr>)"

definition keep_generation :: "string \<Rightarrow> take_db \<Rightarrow> unit take_op_result" where
  "keep_generation gid = mark_take gid (\<lambda>t. t\<lparr>g_is_kept := True\<rparr>)"

definition unkeep_generation :: "string \<Rightarrow> take_db \<Rightarrow> unit take_op_result" where
  "unkeep_generation gid = toggle_take gid (\<lambda>t. t\<lparr>g_is_kept := False\<rparr>)"

definition unarchive_generation :: "string \<Rightarrow> take_db \<Rightarrow> unit take_op_result" where
  "unarchive_generation gid = toggle_take gid (\<lambda>t. t\<lparr>g_is_archived := False, t_archived_at := None\<rparr>)"

definition enable_generation_sharing :: "string \<Rightarrow> string \<Rightarrow> take_db \<Rightarrow> unit take_op_result" where
  "enable_generation_sharing new_slug gid =
     mark_take gid (\<lambda>t. t\<lparr>t_share_slug := (if t_share_slug t \<in> {None, Some ''''} then Some new_slug
                                         else t_share_slug t),
                         t_is_shared := True, g_is_kept := True\<rparr>)"

definition disable_generation_sharing :: "string \<Rightarrow> take_db \<Rightarrow> unit take_op_result" where
  "disable_generation_sharing gid = toggle_take gid (\<lambda>t. t\<lparr>t_share_slug := None, t_is_shared := False\<rparr>)"

definition get_generation_by_slug :: "string \<Rightarrow> take_db \<Rightarrow> take_row option" where
  "get_generation_by_slug slug db = find (\<lambda>t. t_share_slug t = Some slug \<and> t_is_shared t) (td_takes db)"

subsection \<open>Deletion\<close>

definition take_paths :: "take_row \<Rightarrow> string list" where
  "take_paths t =
     filter (\<lambda>p. p \<noteq> '''') (g_mp3_path t # (case t_wav_path t of None \<Rightarrow> [] | Some w \<Rightarrow> [w]))"

text \<open>The row, its scores and its rating; takes made from it lose their anchor (\<open>SET NULL\<close>).\<close>

definition delete_take_row :: "string \<Rightarrow> take_db \<Rightarrow> take_db" where
  "delete_take_row gid db =
     db\<lparr>td_takes := map (\<lambda>t. if t_src_generation_id t = Some gid then t\<lparr>t_src_generation_id := None\<rparr> else t)
                      (filter (\<lambda>t. g_id t \<noteq> gid) (td_takes db)),
        td_scores := dict_del gid (td_scores db),
        td_ratings := dict_del gid (td_ratings db)\<rparr>"

definition delete_generation :: "string \<Rightarrow> take_db \<Rightarrow> string list take_op_result" where
  "delete_generation gid db =
     (case require_generation gid db of
        Inl e \<Rightarrow> (Inl e, db)
      | Inr gen \<Rightarrow> (Inr (take_paths gen), delete_take_row gid db))"

definition bulk_delete_generations :: "string list \<Rightarrow> take_db \<Rightarrow> (string list \<times> string list) take_op_result" where
  "bulk_delete_generations ids db =
     (let locked = sort_key g_id (filter (\<lambda>t. g_id t \<in> set ids) (td_takes db))
      in (Inr (map g_id locked, concat (map take_paths locked)),
          foldl (\<lambda>db t. delete_take_row (g_id t) db) db locked))"

definition GENERATION_FILE_SUFFIXES :: "string list" where
  "GENERATION_FILE_SUFFIXES =
     [''.mp3'', ''.wav'', ''.raw.wav'', ''.pre-remaster.wav'', ''.pre-remaster.mp3'', ''.md'', ''.whisper'']"

definition removesuffix :: "string \<Rightarrow> string \<Rightarrow> string" where
  "removesuffix p s = (if endswith p s then take (length s - length p) s else s)"

definition generation_file_set :: "string \<Rightarrow> string list" where
  "generation_file_set audio_rel =
     (let stem = removesuffix ''.wav'' (removesuffix ''.mp3'' audio_rel)
      in map (\<lambda>suffix. stem @ suffix) GENERATION_FILE_SUFFIXES)"

definition all_generation_paths :: "take_db \<Rightarrow> string set" where
  "all_generation_paths db =
     \<Union> (set (map (\<lambda>t. \<Union> (set (map (set \<circ> generation_file_set) (take_paths t)))) (td_takes db)))"

definition delete_generation_files :: "string list \<Rightarrow> string \<Rightarrow> audio_fs \<Rightarrow> audio_fs" where
  "delete_generation_files audio_dir mp3_rel fs =
     (case confined_under audio_dir (path_join audio_dir mp3_rel) of
        None \<Rightarrow> fs
      | Some mp3 \<Rightarrow>
          foldl (\<lambda>fs owned. dict_del (resolve_path audio_dir @ path_parts owned) fs) fs
            (generation_file_set (as_posix (drop (length (resolve_path audio_dir)) mp3))))"

definition cleanup_generation_files :: "string list \<Rightarrow> string list \<Rightarrow> audio_fs \<Rightarrow> audio_fs" where
  "cleanup_generation_files audio_dir paths fs =
     foldl (\<lambda>fs rel_path. delete_generation_files audio_dir rel_path fs) fs paths"

subsection \<open>Retention\<close>

definition before_cutoff :: "timestamp option \<Rightarrow> timestamp \<Rightarrow> bool" where
  "before_cutoff moment cutoff \<longleftrightarrow> (case moment of None \<Rightarrow> False | Some m \<Rightarrow> m < cutoff)"

definition expired_for_archive :: "take_row \<Rightarrow> bool" where
  "expired_for_archive t \<longleftrightarrow> \<not> g_is_picked t \<and> \<not> g_is_kept t \<and> \<not> g_is_archived t"

definition is_anchor :: "take_db \<Rightarrow> take_row \<Rightarrow> bool" where
  "is_anchor db t \<longleftrightarrow> list_ex (\<lambda>child. t_src_generation_id child = Some (g_id t)) (td_takes db)"

definition expired_for_delete :: "timestamp \<Rightarrow> take_db \<Rightarrow> take_row \<Rightarrow> bool" where
  "expired_for_delete cutoff db t \<longleftrightarrow>
     g_is_archived t \<and> before_cutoff (t_archived_at t) cutoff \<and> \<not> g_is_picked t \<and> \<not> g_is_kept t
     \<and> \<not> is_anchor db t"

definition archive_generation :: "timestamp \<Rightarrow> string \<Rightarrow> take_db \<Rightarrow> take_row option \<times> take_db" where
  "archive_generation now gid db =
     (case table_get g_id gid (td_takes db) of
        None \<Rightarrow> (None, db)
      | Some gen \<Rightarrow>
          if \<not> expired_for_archive gen then (None, db)
          else (Some (gen\<lparr>g_is_archived := True, t_archived_at := Some now\<rparr>),
                change_take gid (\<lambda>t. t\<lparr>g_is_archived := True, t_archived_at := Some now\<rparr>) db))"

definition list_generations_expired_for_archive :: "timestamp \<Rightarrow> take_db \<Rightarrow> take_row list" where
  "list_generations_expired_for_archive cutoff db =
     filter (\<lambda>t. expired_for_archive t \<and> before_cutoff (g_created_at t) cutoff) (td_takes db)"

definition list_generations_expired_for_delete :: "timestamp \<Rightarrow> take_db \<Rightarrow> take_row list" where
  "list_generations_expired_for_delete cutoff db = filter (expired_for_delete cutoff db) (td_takes db)"

definition delete_expired_generation :: "timestamp \<Rightarrow> string \<Rightarrow> take_db \<Rightarrow> string list option \<times> take_db" where
  "delete_expired_generation cutoff gid db =
     (case table_get g_id gid (td_takes db) of
        None \<Rightarrow> (None, db)
      | Some gen \<Rightarrow>
          if \<not> expired_for_delete cutoff db gen then (None, db)
          else (Some (take_paths gen), delete_take_row gid db))"

text \<open>
  The transactions of one run.  \<open>others n\<close> is what other sessions commit before the transaction with
  \<open>n\<close> more to come; the clock of an archiving transaction is \<open>clock\<close> at that point.
\<close>

fun archive_each ::
    "(nat \<Rightarrow> take_db \<Rightarrow> take_db) \<Rightarrow> (nat \<Rightarrow> timestamp) \<Rightarrow> string list \<Rightarrow> take_db \<Rightarrow> string list \<times> take_db" where
  "archive_each others clock [] db = ([], db)"
| "archive_each others clock (gid # ids) db =
     (case archive_generation (clock (length ids)) gid (others (length ids) db) of
        (None, db') \<Rightarrow> archive_each others clock ids db'
      | (Some _, db') \<Rightarrow>
          (case archive_each others clock ids db' of (archived, db'') \<Rightarrow> (gid # archived, db'')))"

fun delete_expired_takes ::
    "(nat \<Rightarrow> take_db \<Rightarrow> take_db) \<Rightarrow> string list \<Rightarrow> timestamp \<Rightarrow> string list \<Rightarrow> take_db \<Rightarrow> audio_fs
     \<Rightarrow> string list \<times> take_db \<times> audio_fs" where
  "delete_expired_takes others audio_dir cutoff [] db fs = ([], db, fs)"
| "delete_expired_takes others audio_dir cutoff (gid # ids) db fs =
     (case delete_expired_generation cutoff gid (others (length ids) db) of
        (None, db') \<Rightarrow> delete_expired_takes others audio_dir cutoff ids db' fs
      | (Some paths, db') \<Rightarrow>
          (case delete_expired_takes others audio_dir cutoff ids db' (cleanup_generation_files audio_dir paths fs) of
             (deleted, db'', fs'') \<Rightarrow> (gid # deleted, db'', fs'')))"

record retention_report =
  archived_ids :: "string list"
  deleted_ids :: "string list"

record retention_settings =
  generation_retention_days :: int
  final_deletion_days :: int

definition days :: "int \<Rightarrow> int" where
  "days n = seconds (n * 24 * 60 * 60)"

definition run_generation_retention ::
    "(nat \<Rightarrow> take_db \<Rightarrow> take_db) \<Rightarrow> (nat \<Rightarrow> take_db \<Rightarrow> take_db) \<Rightarrow> (nat \<Rightarrow> timestamp) \<Rightarrow> retention_settings
     \<Rightarrow> timestamp \<Rightarrow> string list \<Rightarrow> bool \<Rightarrow> take_db \<Rightarrow> audio_fs \<Rightarrow> retention_report \<times> take_db \<times> audio_fs" where
  "run_generation_retention others1 others2 clock settings now audio_dir dry_run db fs =
     (let archive_cutoff = now - days (generation_retention_days settings);
          delete_cutoff = now - days (final_deletion_days settings);
          to_archive = sort (map g_id (list_generations_expired_for_archive archive_cutoff db));
          to_delete = sort (map g_id (list_generations_expired_for_delete delete_cutoff db))
      in if dry_run then (\<lparr>archived_ids = to_archive, deleted_ids = to_delete\<rparr>, db, fs)
         else (case archive_each others1 clock to_archive db of
                 (archived, db1) \<Rightarrow>
                   (case delete_expired_takes others2 audio_dir delete_cutoff to_delete db1 fs of
                      (deleted, db2, fs2) \<Rightarrow>
                        (\<lparr>archived_ids = archived, deleted_ids = deleted\<rparr>, db2, fs2))))"

subsection \<open>Sessions\<close>

datatype take_op =
    T_Create "string list" audio_fs new_take
  | T_Measure "string list" audio_fs string
  | T_Score string "(string, json) dict" "string set"
  | T_Rate string rat string
  | T_Pick string
  | T_Unpick string
  | T_Keep string
  | T_Unkeep string
  | T_Unarchive string
  | T_Share string string
  | T_Unshare string
  | T_Delete string
  | T_Bulk_Delete "string list"
  | T_Archive timestamp string
  | T_Delete_Expired timestamp string

fun take_step :: "take_db \<Rightarrow> take_op \<Rightarrow> take_db" where
  "take_step db (T_Create audio_dir fs nt) = snd (transact (create_generation audio_dir fs nt) db)"
| "take_step db (T_Measure audio_dir fs gid) = snd (measure_generation_audio_duration audio_dir fs gid db)"
| "take_step db (T_Score gid scores refreshed) = snd (transact (save_scores gid scores refreshed) db)"
| "take_step db (T_Rate gid rating notes) = snd (transact (save_rating gid rating notes) db)"
| "take_step db (T_Pick gid) = snd (transact (pick_generation gid) db)"
| "take_step db (T_Unpick gid) = snd (transact (unpick_generation gid) db)"
| "take_step db (T_Keep gid) = snd (transact (keep_generation gid) db)"
| "take_step db (T_Unkeep gid) = snd (transact (unkeep_generation gid) db)"
| "take_step db (T_Unarchive gid) = snd (transact (unarchive_generation gid) db)"
| "take_step db (T_Share slug gid) = snd (transact (enable_generation_sharing slug gid) db)"
| "take_step db (T_Unshare gid) = snd (transact (disable_generation_sharing gid) db)"
| "take_step db (T_Delete gid) = snd (transact (delete_generation gid) db)"
| "take_step db (T_Bulk_Delete ids) = snd (transact (bulk_delete_generations ids) db)"
| "take_step db (T_Archive now gid) = snd (archive_generation now gid db)"
| "take_step db (T_Delete_Expired cutoff gid) = snd (delete_expired_generation cutoff gid db)"

lemmas take_op_defs = create_generation_def measure_generation_audio_duration_def save_scores_def
  save_rating_def pick_generation_def unpick_generation_def keep_generation_def unkeep_generation_def
  unarchive_generation_def enable_generation_sharing_def disable_generation_sharing_def
  delete_generation_def bulk_delete_generations_def archive_generation_def delete_expired_generation_def
  toggle_take_def mark_take_def change_take_def lock_unarchived_take_def require_generation_def transact_def

text \<open>Ids and the numbers within a song are unique, an archived take carries no mark, and a song has
  at most one pick.\<close>

definition take_rows_ok :: "take_row list \<Rightarrow> bool" where
  "take_rows_ok ts \<longleftrightarrow> distinct (map g_id ts) \<and> distinct (map (\<lambda>t. (g_song_id t, g_number t)) ts)
     \<and> (\<forall>t \<in> set ts. g_is_archived t \<longrightarrow> \<not> g_is_picked t \<and> \<not> g_is_kept t)
     \<and> (\<forall>t \<in> set ts. \<forall>t' \<in> set ts. g_is_picked t \<and> g_is_picked t' \<and> g_song_id t = g_song_id t' \<longrightarrow> g_id t = g_id t')"

definition takes_ok :: "take_db \<Rightarrow> bool" where
  "takes_ok db \<longleftrightarrow> take_rows_ok (td_takes db)"

lemma rows_okI:
  assumes "distinct (map g_id ts)" and "distinct (map (\<lambda>t. (g_song_id t, g_number t)) ts)"
    and "\<And>t. t \<in> set ts \<Longrightarrow> g_is_archived t \<Longrightarrow> \<not> g_is_picked t \<and> \<not> g_is_kept t"
    and "\<And>t t'. t \<in> set ts \<Longrightarrow> t' \<in> set ts \<Longrightarrow> g_is_picked t \<Longrightarrow> g_is_picked t' \<Longrightarrow> g_song_id t = g_song_id t' \<Longrightarrow> g_id t = g_id t'"
  shows "take_rows_ok ts"
  unfolding take_rows_ok_def using assms by blast

lemma rows_okD:
  assumes "take_rows_ok ts"
  shows "distinct (map g_id ts)" and "distinct (map (\<lambda>t. (g_song_id t, g_number t)) ts)"
    and "t \<in> set ts \<Longrightarrow> g_is_archived t \<Longrightarrow> \<not> g_is_picked t \<and> \<not> g_is_kept t"
    and "t \<in> set ts \<Longrightarrow> t' \<in> set ts \<Longrightarrow> g_is_picked t \<Longrightarrow> g_is_picked t' \<Longrightarrow> g_song_id t = g_song_id t' \<Longrightarrow> g_id t = g_id t'"
  using assms unfolding take_rows_ok_def by blast+

lemma rows_ok_map:
  assumes ok: "take_rows_ok ts"
    and same: "\<And>t. t \<in> set ts \<Longrightarrow> g_id (f t) = g_id t \<and> g_song_id (f t) = g_song_id t \<and> g_number (f t) = g_number t"
    and picked: "\<And>t. t \<in> set ts \<Longrightarrow> g_is_picked (f t) \<Longrightarrow> g_is_picked t"
    and marks: "\<And>t. t \<in> set ts \<Longrightarrow> g_is_archived (f t) \<Longrightarrow> \<not> g_is_picked (f t) \<and> \<not> g_is_kept (f t)"
  shows "take_rows_ok (map f ts)"
proof (rule rows_okI)
  have "map g_id (map f ts) = map g_id ts"
    and "map (\<lambda>t. (g_song_id t, g_number t)) (map f ts) = map (\<lambda>t. (g_song_id t, g_number t)) ts"
    using same by simp_all
  then show "distinct (map g_id (map f ts))" "distinct (map (\<lambda>t. (g_song_id t, g_number t)) (map f ts))"
    using rows_okD(1,2) [OF ok] by (simp_all only:)
next
  fix t assume "t \<in> set (map f ts)" "g_is_archived t"
  then show "\<not> g_is_picked t \<and> \<not> g_is_kept t" using marks by auto
next
  fix t t' assume "t \<in> set (map f ts)" "t' \<in> set (map f ts)" and p: "g_is_picked t" "g_is_picked t'" "g_song_id t = g_song_id t'"
  then obtain s s' where s: "s \<in> set ts" "s' \<in> set ts" "t = f s" "t' = f s'" by auto
  then show "g_id t = g_id t'" using p same picked rows_okD(4) [OF ok s(1,2)] by metis
qed

lemma rows_ok_get: "take_rows_ok ts \<Longrightarrow> t \<in> set ts \<Longrightarrow> table_get g_id (g_id t) ts = Some t"
  by (rule table_get_mem [OF rows_okD(1)])

lemma rows_ok_update:
  assumes ok: "take_rows_ok ts"
    and same: "\<And>t. g_id (f t) = g_id t \<and> g_song_id (f t) = g_song_id t \<and> g_number (f t) = g_number t"
    and picked: "\<And>t. table_get g_id gid ts = Some t \<Longrightarrow> g_is_picked (f t) \<Longrightarrow> g_is_picked t"
    and marks: "\<And>t. table_get g_id gid ts = Some t \<Longrightarrow> g_is_archived (f t) \<Longrightarrow> \<not> g_is_picked (f t) \<and> \<not> g_is_kept (f t)"
  shows "take_rows_ok (table_update g_id gid f ts)"
  unfolding table_update_def
proof (rule rows_ok_map [OF ok])
  fix t assume t: "t \<in> set ts"
  note get = rows_ok_get [OF ok t]
  show "g_id (if g_id t = gid then f t else t) = g_id t
    \<and> g_song_id (if g_id t = gid then f t else t) = g_song_id t
    \<and> g_number (if g_id t = gid then f t else t) = g_number t" using same by simp
  show "g_is_picked t" if "g_is_picked (if g_id t = gid then f t else t)"
    using that get picked by (simp split: if_splits)
  show "\<not> g_is_picked (if g_id t = gid then f t else t) \<and> \<not> g_is_kept (if g_id t = gid then f t else t)"
    if "g_is_archived (if g_id t = gid then f t else t)"
    using that get marks rows_okD(3) [OF ok t] by (simp split: if_splits)
qed

lemma rows_ok_filter: "take_rows_ok ts \<Longrightarrow> take_rows_ok (filter P ts)"
proof -
  assume ok: "take_rows_ok ts"
  show ?thesis
  proof (rule rows_okI)
    show "distinct (map g_id (filter P ts))" "distinct (map (\<lambda>t. (g_song_id t, g_number t)) (filter P ts))"
      using rows_okD(1,2) [OF ok] by (simp_all add: distinct_map_filter)
  qed (use rows_okD(3,4) [OF ok] in simp_all)
qed

lemma rows_ok_delete: "takes_ok db \<Longrightarrow> takes_ok (delete_take_row gid db)"
proof -
  assume "takes_ok db"
  then have ok: "take_rows_ok (filter (\<lambda>t. g_id t \<noteq> gid) (td_takes db))"
    unfolding takes_ok_def by (rule rows_ok_filter)
  show ?thesis
    unfolding takes_ok_def delete_take_row_def
    by (simp, rule rows_ok_map [OF ok]) (use rows_okD(3) [OF ok] in \<open>simp_all split: if_splits\<close>)
qed

lemma archived_unmarked:
  "take_rows_ok ts \<Longrightarrow> table_get g_id gid ts = Some t \<Longrightarrow> g_is_archived t \<Longrightarrow> \<not> g_is_picked t \<and> \<not> g_is_kept t"
  using table_get_Some rows_okD(3) by metis

lemma next_number_fresh:
  assumes "t \<in> set (td_takes db)"
  shows "g_number t < next_generation_number (g_song_id t) db"
proof -
  let ?s = "sort_key (\<lambda>t. - g_number t) (filter (\<lambda>u. g_song_id u = g_song_id t) (td_takes db))"
  have mem: "t \<in> set ?s" using assms by simp
  then obtain h r where s: "?s = h # r" by (cases ?s) simp_all
  have "sorted (map (\<lambda>t. - g_number t) ?s)" by simp
  with s mem have "g_number t \<le> g_number h" by auto
  then show ?thesis by (simp add: next_generation_number_def s)
qed

lemma rows_ok_snoc:
  assumes ok: "take_rows_ok ts" and "g_id t \<notin> g_id ` set ts"
    and "(g_song_id t, g_number t) \<notin> (\<lambda>t. (g_song_id t, g_number t)) ` set ts"
    and "\<not> g_is_picked t" "\<not> g_is_archived t"
  shows "take_rows_ok (ts @ [t])"
proof (rule rows_okI)
  show "distinct (map g_id (ts @ [t]))" "distinct (map (\<lambda>t. (g_song_id t, g_number t)) (ts @ [t]))"
    using rows_okD(1,2) [OF ok] assms(2,3) by simp_all
qed (use assms(4,5) rows_okD(3,4) [OF ok] in auto)

lemma create_ok: "takes_ok db \<Longrightarrow> takes_ok (snd (create_generation audio_dir fs nt db))"
proof -
  assume ok: "takes_ok db"
  have "(nt_song_id nt, next_generation_number (nt_song_id nt) db) \<notin> (\<lambda>t. (g_song_id t, g_number t)) ` set (td_takes db)"
    using next_number_fresh [of _ db] by fastforce
  then show ?thesis
    using ok by (simp add: create_generation_def Let_def takes_ok_def rows_ok_snoc split: option.split)
qed

lemma rows_ok_pick:
  assumes ok: "take_rows_ok ts" and get: "table_get g_id gid ts = Some gen" and live: "\<not> g_is_archived gen"
    and none: "\<And>t. t \<in> set ts \<Longrightarrow> g_song_id t = g_song_id gen \<Longrightarrow> \<not> g_is_picked t"
  shows "take_rows_ok (table_update g_id gid (\<lambda>t. t\<lparr>g_is_picked := True\<rparr>) ts)" (is "take_rows_ok ?new")
proof (rule rows_okI)
  let ?f = "\<lambda>t. if g_id t = gid then t\<lparr>g_is_picked := True\<rparr> else t"
  have new: "?new = map ?f ts" by (simp add: table_update_def)
  have "map g_id (map ?f ts) = map g_id ts"
    and "map (\<lambda>t. (g_song_id t, g_number t)) (map ?f ts) = map (\<lambda>t. (g_song_id t, g_number t)) ts"
    by simp_all
  then show "distinct (map g_id ?new)" "distinct (map (\<lambda>t. (g_song_id t, g_number t)) ?new)"
    using rows_okD(1,2) [OF ok] by (simp_all only: new)
  have the: "t = gen" if "t \<in> set ts" "g_id t = gid" for t
    using rows_ok_get [OF ok that(1)] that get by simp
  show "\<not> g_is_picked t \<and> \<not> g_is_kept t" if "t \<in> set ?new" "g_is_archived t" for t
  proof -
    from that obtain s where s: "s \<in> set ts" "t = ?f s" by (auto simp: new)
    then have "g_id s \<noteq> gid" using that(2) the live by auto
    then show ?thesis using s that(2) rows_okD(3) [OF ok s(1)] by simp
  qed
  show "g_id t = g_id t'" if "t \<in> set ?new" "t' \<in> set ?new" and p: "g_is_picked t" "g_is_picked t'"
    "g_song_id t = g_song_id t'" for t t'
  proof -
    from that obtain s s' where s: "s \<in> set ts" "t = ?f s" "s' \<in> set ts" "t' = ?f s'" by (auto simp: new)
    have song: "g_song_id s = g_song_id s'" using s p(3) by (simp split: if_splits)
    consider "g_id s = gid" "g_id s' = gid" | "g_id s = gid" "g_id s' \<noteq> gid" | "g_id s \<noteq> gid" "g_id s' = gid"
      | "g_id s \<noteq> gid" "g_id s' \<noteq> gid" by blast
    then show ?thesis
    proof cases
      case 2
      then have "\<not> g_is_picked s'" using the [OF s(1)] none [OF s(3)] song by simp
      then show ?thesis using 2 s p by simp
    next
      case 3
      then have "\<not> g_is_picked s" using the [OF s(3)] none [OF s(1)] song by simp
      then show ?thesis using 3 s p by simp
    next
      case 4
      then show ?thesis using s p rows_okD(4) [OF ok s(1,3)] by simp
    qed (use s in simp)
  qed
qed

lemma pick_ok:
  assumes ok: "takes_ok db"
  shows "takes_ok (snd (transact (pick_generation gid) db))"
proof (cases "table_get g_id gid (td_takes db)")
  case (Some gen)
  let ?clear = "\<lambda>t. if g_song_id t = g_song_id gen then t\<lparr>g_is_picked := False\<rparr> else t"
  let ?rows = "map ?clear (td_takes db)"
  have rows_ok: "take_rows_ok (td_takes db)" using ok by (simp add: takes_ok_def)
  have rows: "take_rows_ok ?rows"
    by (rule rows_ok_map [OF rows_ok]) (use rows_okD(3) [OF rows_ok] in \<open>simp_all split: if_splits\<close>)
  have get: "table_get g_id gid ?rows = Some (?clear gen)"
    using table_get_map [of "td_takes db" g_id ?clear gid] Some by simp
  show ?thesis
  proof (cases "g_is_archived gen")
    case True
    then show ?thesis using ok Some get
      by (simp add: transact_def pick_generation_def require_generation_def mark_take_def lock_unarchived_take_def)
  next
    case False
    have "take_rows_ok (table_update g_id gid (\<lambda>t. t\<lparr>g_is_picked := True\<rparr>) ?rows)"
      by (rule rows_ok_pick [OF rows get]) (use False in auto)
    then show ?thesis using Some get False
      by (simp add: transact_def pick_generation_def require_generation_def mark_take_def
          lock_unarchived_take_def change_take_def takes_ok_def)
  qed
qed (use assms in \<open>simp add: transact_def pick_generation_def require_generation_def\<close>)

lemma transact_keeps:
  "P db \<Longrightarrow> (\<And>r db'. f db = (Inr r, db') \<Longrightarrow> P db') \<Longrightarrow> P (snd (transact f db))"
  by (cases "f db", cases "fst (f db)") (simp_all add: transact_def)

lemma toggle_result: "toggle_take gid f db = (Inr r, db') \<Longrightarrow> db' = change_take gid f db"
  by (simp add: toggle_take_def split: sum.splits)

lemma mark_result:
  "mark_take gid f db = (Inr r, db') \<Longrightarrow> db' = change_take gid f db
     \<and> (\<exists>gen. table_get g_id gid (td_takes db) = Some gen \<and> \<not> g_is_archived gen)"
  by (auto simp: mark_take_def lock_unarchived_take_def require_generation_def split: sum.splits option.splits if_splits)

lemma change_ok:
  assumes ok: "takes_ok db"
    and "\<And>t. g_id (f t) = g_id t \<and> g_song_id (f t) = g_song_id t \<and> g_number (f t) = g_number t"
    and "\<And>t. table_get g_id gid (td_takes db) = Some t \<Longrightarrow> (g_is_archived t \<Longrightarrow> \<not> g_is_picked t \<and> \<not> g_is_kept t) \<Longrightarrow>
      (g_is_picked (f t) \<longrightarrow> g_is_picked t) \<and> (g_is_archived (f t) \<longrightarrow> \<not> g_is_picked (f t) \<and> \<not> g_is_kept (f t))"
  shows "takes_ok (change_take gid f db)"
proof -
  have rows: "take_rows_ok (td_takes db)" using ok by (simp add: takes_ok_def)
  have "take_rows_ok (table_update g_id gid f (td_takes db))"
    using assms(2) assms(3) [OF _ archived_unmarked [OF rows]] by (intro rows_ok_update [OF rows]) blast+
  then show ?thesis by (simp add: takes_ok_def change_take_def)
qed

lemmas transact_ok = transact_keeps [where P = takes_ok]

lemma toggle_ok: "takes_ok db \<Longrightarrow> takes_ok (change_take gid f db) \<Longrightarrow> takes_ok (snd (transact (toggle_take gid f) db))"
  by (rule transact_ok) (auto dest: toggle_result)

lemma toggles_ok:
  assumes "takes_ok db"
  shows "takes_ok (snd (transact (unpick_generation gid) db))"
    and "takes_ok (snd (transact (unkeep_generation gid) db))"
    and "takes_ok (snd (transact (unarchive_generation gid) db))"
    and "takes_ok (snd (transact (disable_generation_sharing gid) db))"
  unfolding unpick_generation_def unkeep_generation_def unarchive_generation_def disable_generation_sharing_def
  by (rule toggle_ok [OF assms], rule change_ok [OF assms], simp_all)+

lemma mark_ok:
  assumes "takes_ok db"
    and "\<And>gen. table_get g_id gid (td_takes db) = Some gen \<Longrightarrow> \<not> g_is_archived gen \<Longrightarrow> takes_ok (change_take gid f db)"
  shows "takes_ok (snd (transact (mark_take gid f) db))"
  by (rule transact_ok [OF assms(1)]) (use assms(2) in \<open>auto dest!: mark_result\<close>)

lemma marks_ok:
  assumes "takes_ok db"
  shows "takes_ok (snd (transact (keep_generation gid) db))"
    and "takes_ok (snd (transact (enable_generation_sharing slug gid) db))"
  unfolding keep_generation_def enable_generation_sharing_def
  by (rule mark_ok [OF assms], rule change_ok [OF assms], simp_all)+

lemma archive_ok: "takes_ok db \<Longrightarrow> takes_ok (snd (archive_generation now gid db))"
  by (simp add: archive_generation_def expired_for_archive_def split: option.split) (auto intro!: change_ok)

lemma foldl_delete_ok: "takes_ok db \<Longrightarrow> takes_ok (foldl (\<lambda>db t. delete_take_row (g_id t) db) db ts)"
  by (induction ts arbitrary: db) (simp_all add: rows_ok_delete)

lemma deletes_ok:
  assumes "takes_ok db"
  shows "takes_ok (snd (transact (delete_generation gid) db))"
    and "takes_ok (snd (transact (bulk_delete_generations ids) db))"
    and "takes_ok (snd (delete_expired_generation cutoff gid db))"
proof -
  show "takes_ok (snd (transact (delete_generation gid) db))"
    by (rule transact_ok [OF assms]) (use assms in \<open>auto simp: delete_generation_def rows_ok_delete split: sum.splits\<close>)
  show "takes_ok (snd (transact (bulk_delete_generations ids) db))"
    by (rule transact_ok [OF assms]) (use assms in \<open>auto simp: bulk_delete_generations_def Let_def foldl_delete_ok\<close>)
  show "takes_ok (snd (delete_expired_generation cutoff gid db))"
    using assms by (auto simp: delete_expired_generation_def rows_ok_delete split: option.split)
qed

lemma values_ok:
  assumes "takes_ok db"
  shows "takes_ok (snd (transact (save_scores gid scores refreshed) db))"
    and "takes_ok (snd (transact (save_rating gid rating notes) db))"
    and "takes_ok (snd (measure_generation_audio_duration audio_dir fs gid db))"
proof -
  show "takes_ok (snd (transact (save_scores gid scores refreshed) db))"
    by (rule transact_ok [OF assms]) (use assms in \<open>auto simp: save_scores_def Let_def takes_ok_def split: option.splits if_splits\<close>)
  show "takes_ok (snd (transact (save_rating gid rating notes) db))"
    by (rule transact_ok [OF assms]) (use assms in \<open>auto simp: save_rating_def takes_ok_def split: if_splits\<close>)
  show "takes_ok (snd (measure_generation_audio_duration audio_dir fs gid db))"
    using assms change_ok [OF assms, of "\<lambda>t. t\<lparr>t_audio_duration_sec := d\<rparr>" gid for d]
    by (simp add: measure_generation_audio_duration_def Let_def split: option.split)
qed

lemma take_step_ok: "takes_ok db \<Longrightarrow> takes_ok (take_step db x)"
proof (cases x)
  case (T_Create audio_dir fs nt)
  assume ok: "takes_ok db"
  then have "takes_ok (snd (transact (create_generation audio_dir fs nt) db))"
    by (rule transact_ok) (metis create_ok ok snd_conv)
  then show ?thesis by (simp add: T_Create)
qed (simp_all add: values_ok pick_ok toggles_ok marks_ok deletes_ok archive_ok)

interpretation take_machine: invariant_machine take_step takes_ok "\<lambda>_. True"
  by unfold_locales (rule take_step_ok)

text \<open>C35: Whatever sessions do and however their transactions interleave, creating, marking, sharing,
  scoring, deleting and archiving takes, the retention included: ids and the numbers within a song stay unique, no archived
  take is a pick or kept, and a song never has two picks.\<close>

theorem takes_stay_well_formed:
  assumes "takes_ok db"
  shows "takes_ok (foldl take_step db xs)"
  by (rule take_machine.run_inv [OF assms]) (simp add: list.pred_True)

subsection \<open>Marked takes survive\<close>

datatype take_mark = Kept | Picked

fun has_mark :: "take_mark \<Rightarrow> take_row \<Rightarrow> bool" where
  "has_mark Kept t \<longleftrightarrow> g_is_kept t"
| "has_mark Picked t \<longleftrightarrow> g_is_picked t"

definition marked :: "take_mark \<Rightarrow> string \<Rightarrow> take_db \<Rightarrow> bool" where
  "marked m gid db \<longleftrightarrow> (case table_get g_id gid (td_takes db) of None \<Rightarrow> False | Some t \<Rightarrow> has_mark m t)"

text \<open>
  Whether an operation leaves the mark on the take and the take in the table.  A pick takes the mark off
  the song's other takes, so it depends on the rows.  \<open>sparing\<close> is a session that leaves out the
  operations which do not.
\<close>

fun leaves_mark :: "take_mark \<Rightarrow> string \<Rightarrow> take_db \<Rightarrow> take_op \<Rightarrow> bool" where
  "leaves_mark m gid db (T_Delete gid') \<longleftrightarrow> gid' \<noteq> gid"
| "leaves_mark m gid db (T_Bulk_Delete ids) \<longleftrightarrow> gid \<notin> set ids"
| "leaves_mark m gid db (T_Unkeep gid') \<longleftrightarrow> m = Picked \<or> gid' \<noteq> gid"
| "leaves_mark m gid db (T_Unpick gid') \<longleftrightarrow> m = Kept \<or> gid' \<noteq> gid"
| "leaves_mark m gid db (T_Pick gid') \<longleftrightarrow> m = Kept \<or> gid' = gid
     \<or> map_option g_song_id (table_get g_id gid' (td_takes db)) \<noteq> map_option g_song_id (table_get g_id gid (td_takes db))"
| "leaves_mark m gid db x \<longleftrightarrow> True"

definition sparing :: "take_mark \<Rightarrow> string \<Rightarrow> take_db \<Rightarrow> take_op \<Rightarrow> take_db" where
  "sparing m gid db x = (if leaves_mark m gid db x then take_step db x else db)"

lemma get_change:
  "(\<And>t. g_id (f t) = g_id t) \<Longrightarrow> table_get g_id gid (td_takes (change_take gid' f db)) =
     (if gid = gid' then map_option f (table_get g_id gid (td_takes db)) else table_get g_id gid (td_takes db))"
proof -
  assume f: "\<And>t. g_id (f t) = g_id t"
  have "table_get g_id gid (table_update g_id gid' f ts) =
    (if gid = gid' then map_option f (table_get g_id gid ts) else table_get g_id gid ts)" for ts
    by (induction ts) (auto simp: table_get_def table_update_def f)
  then show ?thesis by (simp add: change_take_def)
qed

lemma get_delete:
  "gid \<noteq> gid' \<Longrightarrow> table_get g_id gid (td_takes (delete_take_row gid' db)) =
     map_option (\<lambda>t. if t_src_generation_id t = Some gid' then t\<lparr>t_src_generation_id := None\<rparr> else t)
       (table_get g_id gid (td_takes db))"
proof -
  assume "gid \<noteq> gid'"
  then have "table_get g_id gid (map (\<lambda>t. if t_src_generation_id t = Some gid' then t\<lparr>t_src_generation_id := None\<rparr> else t)
      (filter (\<lambda>t. g_id t \<noteq> gid') ts)) =
    map_option (\<lambda>t. if t_src_generation_id t = Some gid' then t\<lparr>t_src_generation_id := None\<rparr> else t) (table_get g_id gid ts)" for ts
    by (induction ts) (auto simp: table_get_def)
  then show ?thesis by (simp add: delete_take_row_def)
qed

lemma marked_change:
  assumes "marked m gid db" and "\<And>t. g_id (f t) = g_id t"
    and "\<And>t. gid' = gid \<Longrightarrow> has_mark m t \<Longrightarrow> has_mark m (f t)"
  shows "marked m gid (change_take gid' f db)"
  using assms by (auto simp: marked_def get_change split: option.splits)

lemma has_mark_src [simp]: "has_mark m (t\<lparr>t_src_generation_id := s\<rparr>) = has_mark m t"
  by (cases m) simp_all

lemma marked_delete: "marked m gid db \<Longrightarrow> gid \<noteq> gid' \<Longrightarrow> marked m gid (delete_take_row gid' db)"
  by (auto simp: marked_def get_delete split: option.splits)

lemma marked_deletes: "marked m gid db \<Longrightarrow> gid \<notin> g_id ` set ts \<Longrightarrow> marked m gid (foldl (\<lambda>db t. delete_take_row (g_id t) db) db ts)"
  by (induction ts arbitrary: db) (simp_all add: marked_delete)

lemmas marked_transact = transact_keeps [where P = "marked m gid" for m gid]

lemma marked_toggle:
  "marked m gid db \<Longrightarrow> marked m gid (change_take gid' f db) \<Longrightarrow> marked m gid (snd (transact (toggle_take gid' f) db))"
  by (rule marked_transact) (auto dest: toggle_result)

lemma marked_mark:
  "marked m gid db \<Longrightarrow> marked m gid (change_take gid' f db) \<Longrightarrow> marked m gid (snd (transact (mark_take gid' f) db))"
  by (rule marked_transact) (auto dest: mark_result)

lemma marked_pick:
  assumes "marked m gid db" and "leaves_mark m gid db (T_Pick gid')"
  shows "marked m gid (snd (transact (pick_generation gid') db))"
proof (rule marked_transact [OF assms(1)])
  fix r db' assume pick: "pick_generation gid' db = (Inr r, db')"
  then obtain gen where gen: "table_get g_id gid' (td_takes db) = Some gen"
    by (auto simp: pick_generation_def require_generation_def split: option.splits)
  let ?clear = "\<lambda>t. if g_song_id t = g_song_id gen then t\<lparr>g_is_picked := False\<rparr> else t"
  let ?db1 = "db\<lparr>td_takes := map ?clear (td_takes db)\<rparr>"
  have db': "db' = change_take gid' (\<lambda>t. t\<lparr>g_is_picked := True\<rparr>) ?db1"
    using pick gen mark_result by (simp add: pick_generation_def require_generation_def)
  have "table_get g_id gid (td_takes ?db1) = map_option ?clear (table_get g_id gid (td_takes db))"
    using table_get_map [of "td_takes db" g_id ?clear gid] by simp
  then show "marked m gid db'"
    using assms gen by (cases m) (auto simp: db' marked_def get_change split: option.splits)
qed

lemma marked_not_expired: "has_mark m t \<Longrightarrow> \<not> expired_for_archive t \<and> \<not> expired_for_delete cutoff db t"
  by (cases m) (simp_all add: expired_for_archive_def expired_for_delete_def)

lemma marked_retention:
  assumes "marked m gid db"
  shows "marked m gid (snd (archive_generation now gid' db))"
    and "marked m gid (snd (delete_expired_generation cutoff gid' db))"
    and "fst (archive_generation now gid db) = None" and "fst (delete_expired_generation cutoff gid db) = None"
proof -
  from assms obtain t where t: "table_get g_id gid (td_takes db) = Some t" "has_mark m t"
    by (auto simp: marked_def split: option.splits)
  note safe = marked_not_expired [OF t(2)]
  show "fst (archive_generation now gid db) = None" "fst (delete_expired_generation cutoff gid db) = None"
    using t safe by (simp_all add: archive_generation_def delete_expired_generation_def)
  show "marked m gid (snd (archive_generation now gid' db))"
  proof (cases "gid' = gid")
    case False
    then show ?thesis using assms
      by (auto simp: archive_generation_def split: option.split intro!: marked_change)
  qed (use assms t safe in \<open>simp add: archive_generation_def\<close>)
  show "marked m gid (snd (delete_expired_generation cutoff gid' db))"
  proof (cases "gid' = gid")
    case False
    then show ?thesis using assms
      by (auto simp: delete_expired_generation_def split: option.split intro!: marked_delete)
  qed (use assms t safe in \<open>simp add: delete_expired_generation_def\<close>)
qed

lemma marked_step:
  assumes m: "marked m gid db" and leaves: "leaves_mark m gid db x"
  shows "marked m gid (take_step db x)"
proof (cases x)
  case (T_Create audio_dir fs nt)
  show ?thesis unfolding T_Create take_step.simps
    by (rule marked_transact [OF m])
      (use m in \<open>auto simp: create_generation_def Let_def marked_def table_get_append split: option.splits if_splits\<close>)
next
  case (T_Measure audio_dir fs gid')
  have "marked m gid (change_take gid' (\<lambda>t. t\<lparr>t_audio_duration_sec := d\<rparr>) db)" for d
    by (rule marked_change [OF m]) (cases m; simp)+
  then show ?thesis using m
    by (simp add: T_Measure measure_generation_audio_duration_def Let_def split: option.split)
next
  case (T_Score gid' scores refreshed)
  show ?thesis unfolding T_Score take_step.simps
    by (rule marked_transact [OF m]) (use m in \<open>auto simp: save_scores_def Let_def marked_def split: option.splits if_splits\<close>)
next
  case (T_Rate gid' rating remark)
  show ?thesis unfolding T_Rate take_step.simps
    by (rule marked_transact [OF m]) (use m in \<open>auto simp: save_rating_def marked_def split: if_splits\<close>)
next
  case (T_Pick gid')
  then show ?thesis using leaves marked_pick [OF m, of gid'] by simp
next
  case (T_Unpick gid')
  then show ?thesis using leaves m unfolding T_Unpick take_step.simps unpick_generation_def
    by (intro marked_toggle marked_change) (cases m; auto)+
next
  case (T_Keep gid')
  then show ?thesis using m unfolding T_Keep take_step.simps keep_generation_def
    by (intro marked_mark marked_change) (cases m; auto)+
next
  case (T_Unkeep gid')
  then show ?thesis using leaves m unfolding T_Unkeep take_step.simps unkeep_generation_def
    by (intro marked_toggle marked_change) (cases m; auto)+
next
  case (T_Unarchive gid')
  then show ?thesis using m unfolding T_Unarchive take_step.simps unarchive_generation_def
    by (intro marked_toggle marked_change) (cases m; auto)+
next
  case (T_Share slug gid')
  then show ?thesis using m unfolding T_Share take_step.simps enable_generation_sharing_def
    by (intro marked_mark marked_change) (cases m; auto)+
next
  case (T_Unshare gid')
  then show ?thesis using m unfolding T_Unshare take_step.simps disable_generation_sharing_def
    by (intro marked_toggle marked_change) (cases m; auto)+
next
  case (T_Delete gid')
  then have "gid \<noteq> gid'" using leaves by auto
  then show ?thesis unfolding T_Delete take_step.simps
    by (intro marked_transact [OF m]) (use m in \<open>auto simp: delete_generation_def marked_delete split: sum.splits\<close>)
next
  case (T_Bulk_Delete ids)
  then have "gid \<notin> g_id ` set (sort_key g_id (filter (\<lambda>t. g_id t \<in> set ids) (td_takes db)))"
    using leaves by auto
  then show ?thesis unfolding T_Bulk_Delete take_step.simps
    by (intro marked_transact [OF m]) (use m in \<open>auto simp: bulk_delete_generations_def Let_def intro!: marked_deletes\<close>)
qed (simp_all add: marked_retention [OF m])

lemma marked_steps: "marked m gid db \<Longrightarrow> marked m gid (foldl (sparing m gid) db xs)"
  by (induction xs arbitrary: db) (simp_all add: marked_step sparing_def)

lemma sparing_ok: "takes_ok db \<Longrightarrow> takes_ok (foldl (sparing m gid) db xs)"
  by (induction xs arbitrary: db) (simp_all add: sparing_def take_step_ok)

lemma marked_archive_each:
  assumes "\<And>n db. marked m gid db \<Longrightarrow> marked m gid (others n db)"
  shows "marked m gid db \<Longrightarrow> archive_each others clock ids db = (archived, db') \<Longrightarrow>
    marked m gid db' \<and> gid \<notin> set archived"
proof (induction ids arbitrary: db archived db')
  case (Cons i ids)
  let ?db = "others (length ids) db"
  have m: "marked m gid ?db" using assms Cons.prems(1) .
  obtain r db1 where a: "archive_generation (clock (length ids)) i ?db = (r, db1)" by fastforce
  have m1: "marked m gid db1" using marked_retention(1) [OF m, of "clock (length ids)" i] a by simp
  obtain rest db2 where rec: "archive_each others clock ids db1 = (rest, db2)" by fastforce
  have "r = None" if "i = gid" using marked_retention(3) [OF m] a that by (metis fst_conv)
  with Cons.IH [OF m1 rec] Cons.prems(2) a rec show ?case by (auto split: option.splits)
qed simp

lemma marked_delete_expired:
  assumes "\<And>n db. marked m gid db \<Longrightarrow> marked m gid (others n db)"
  shows "marked m gid db \<Longrightarrow> delete_expired_takes others audio_dir cutoff ids db fs = (deleted, db', fs') \<Longrightarrow>
    marked m gid db' \<and> gid \<notin> set deleted"
proof (induction ids arbitrary: db fs deleted db' fs')
  case (Cons i ids)
  let ?db = "others (length ids) db"
  have m: "marked m gid ?db" using assms Cons.prems(1) .
  obtain r db1 where a: "delete_expired_generation cutoff i ?db = (r, db1)" by fastforce
  have m1: "marked m gid db1" using marked_retention(2) [OF m, of cutoff i] a by simp
  obtain rest db2 fs2 where rec: "delete_expired_takes others audio_dir cutoff ids db1
      (case r of None \<Rightarrow> fs | Some paths \<Rightarrow> cleanup_generation_files audio_dir paths fs) = (rest, db2, fs2)"
    by (metis prod_cases3)
  have "r = None" if "i = gid" using marked_retention(4) [OF m] a that by (metis fst_conv)
  with Cons.IH [OF m1 rec] Cons.prems(2) a rec show ?case by (auto split: option.splits)
qed simp

lemma archive_each_keeps:
  assumes "\<And>n db. P db \<Longrightarrow> P (others n db)" and "\<And>now gid db. P db \<Longrightarrow> P (snd (archive_generation now gid db))"
  shows "P db \<Longrightarrow> P (snd (archive_each others clock ids db))"
proof (induction ids arbitrary: db)
  case (Cons i ids)
  obtain r db1 where a: "archive_generation (clock (length ids)) i (others (length ids) db) = (r, db1)" by fastforce
  have "P db1" using assms(2) [OF assms(1) [OF Cons.prems]] a by (metis snd_conv)
  with Cons.IH show ?case by (simp add: a split: option.split prod.split) (metis snd_conv)
qed simp

lemma delete_expired_keeps:
  assumes "\<And>n db. P db \<Longrightarrow> P (others n db)" and "\<And>gid db. P db \<Longrightarrow> P (snd (delete_expired_generation cutoff gid db))"
  shows "P db \<Longrightarrow> P (fst (snd (delete_expired_takes others audio_dir cutoff ids db fs)))"
proof (induction ids arbitrary: db fs)
  case (Cons i ids)
  obtain r db1 where a: "delete_expired_generation cutoff i (others (length ids) db) = (r, db1)" by fastforce
  have "P db1" using assms(2) [OF assms(1) [OF Cons.prems]] a by (metis snd_conv)
  with Cons.IH show ?case by (simp add: a split: option.split prod.split) (metis fst_conv snd_conv)
qed simp

lemma take_machine_ok: "takes_ok db \<Longrightarrow> takes_ok (foldl take_step db xs)"
  by (rule take_machine.run_inv) (simp_all add: list.pred_True)

text \<open>C36: A pick or keep that commits first wins against the retention.  Once a take is marked, at any
  point of a run, whichever takes the run has still to archive and to delete and whatever other
  sessions do in between short of taking the mark off (a pick of another take of the same song does)
  or deleting the take themselves: the take is in neither list of the report, its row is still there, marked and not archived.\<close>

theorem marked_take_survives_retention:
  assumes ok: "takes_ok db" and "marked m gid db"
    and archive: "archive_each (\<lambda>n db. foldl (sparing m gid) db (ops1 n)) clock ids db = (archived, db1)"
    and delete: "delete_expired_takes (\<lambda>n db. foldl (sparing m gid) db (ops2 n)) audio_dir cutoff ids' db1 fs = (deleted, db2, fs2)"
  shows "gid \<notin> set archived \<union> set deleted
    \<and> (\<exists>t. table_get g_id gid (td_takes db2) = Some t \<and> has_mark m t \<and> \<not> g_is_archived t)"
proof -
  have "marked m gid db1 \<and> gid \<notin> set archived"
    using marked_archive_each [OF marked_steps assms(2) archive] by blast
  moreover from this have "marked m gid db2 \<and> gid \<notin> set deleted"
    using marked_delete_expired [OF marked_steps _ delete] by blast
  moreover have "takes_ok db1"
    using archive_each_keeps [where P = takes_ok and others = "\<lambda>n db. foldl (sparing m gid) db (ops1 n)"
      and clock = clock and ids = ids, OF sparing_ok archive_ok ok] archive by simp
  then have "takes_ok db2"
    using delete_expired_keeps [where P = takes_ok and others = "\<lambda>n db. foldl (sparing m gid) db (ops2 n)"
      and ids = ids' and db = db1 and audio_dir = audio_dir and fs = fs and cutoff = cutoff, OF sparing_ok deletes_ok(3)] delete by simp
  ultimately show ?thesis
    using archived_unmarked by (cases m) (auto simp: marked_def takes_ok_def split: option.splits)
qed

subsection \<open>A run on its own\<close>

definition archived_row :: "timestamp \<Rightarrow> string set \<Rightarrow> take_row \<Rightarrow> take_row" where
  "archived_row now ids t =
     (if g_id t \<in> ids then t\<lparr>g_is_archived := True, t_archived_at := Some now\<rparr> else t)"

lemma archived_row_simps [simp]:
  "g_id (archived_row now ids t) = g_id t" "t_src_generation_id (archived_row now ids t) = t_src_generation_id t"
  "g_id t \<notin> ids \<Longrightarrow> archived_row now ids t = t"
  by (simp_all add: archived_row_def)

lemma archive_each_alone:
  assumes "distinct ids"
    and "\<And>gid. gid \<in> set ids \<Longrightarrow> \<exists>t. table_get g_id gid (td_takes db) = Some t \<and> expired_for_archive t"
  shows "archive_each (\<lambda>_ db. db) (\<lambda>_. now) ids db
    = (ids, db\<lparr>td_takes := map (archived_row now (set ids)) (td_takes db)\<rparr>)"
  using assms
proof (induction ids arbitrary: db)
  case Nil
  then show ?case by (simp add: archived_row_def)
next
  case (Cons i ids)
  let ?f = "\<lambda>t. t\<lparr>g_is_archived := True, t_archived_at := Some now\<rparr>"
  let ?db = "change_take i ?f db"
  obtain t where t: "table_get g_id i (td_takes db) = Some t" "expired_for_archive t" using Cons.prems(2) by auto
  have get: "table_get g_id gid (td_takes ?db) = table_get g_id gid (td_takes db)" if "gid \<noteq> i" for gid
    using that get_change [of ?f gid i db] by simp
  have "archive_each (\<lambda>_ db. db) (\<lambda>_. now) ids ?db
      = (ids, ?db\<lparr>td_takes := map (archived_row now (set ids)) (td_takes ?db)\<rparr>)"
    using Cons.prems get by (intro Cons.IH) (auto, metis)
  moreover have "map (archived_row now (set ids)) (td_takes ?db) = map (archived_row now (set (i # ids))) (td_takes db)"
    using Cons.prems(1) by (auto simp: change_take_def table_update_def archived_row_def)
  ultimately show ?case using t by (simp add: archive_generation_def change_take_def)
qed

lemma delete_no_children:
  assumes "\<not> list_ex (\<lambda>child. t_src_generation_id child = Some gid) ts"
  shows "map (\<lambda>t. if t_src_generation_id t = Some gid then t\<lparr>t_src_generation_id := None\<rparr> else t) (filter P ts) = filter P ts"
  using assms by (auto simp: list_ex_iff intro!: map_idI)

lemma delete_expired_alone:
  assumes "distinct ids"
    and "\<And>gid. gid \<in> set ids \<Longrightarrow> \<exists>t. table_get g_id gid (td_takes db) = Some t \<and> expired_for_delete cutoff db t"
  shows "\<exists>db' fs'. delete_expired_takes (\<lambda>_ db. db) audio_dir cutoff ids db fs = (ids, db', fs')
    \<and> td_takes db' = filter (\<lambda>t. g_id t \<notin> set ids) (td_takes db)"
  using assms
proof (induction ids arbitrary: db fs)
  case (Cons i ids)
  let ?db = "delete_take_row i db"
  obtain t where t: "table_get g_id i (td_takes db) = Some t" "expired_for_delete cutoff db t" using Cons.prems(2) by auto
  have "g_id t = i" using table_get_Some [OF t(1)] by simp
  with t(2) have childless: "\<not> list_ex (\<lambda>child. t_src_generation_id child = Some i) (td_takes db)"
    by (simp add: expired_for_delete_def is_anchor_def)
  then have rows: "td_takes ?db = filter (\<lambda>t. g_id t \<noteq> i) (td_takes db)"
    by (simp add: delete_take_row_def delete_no_children)
  have get: "table_get g_id gid (td_takes ?db) = table_get g_id gid (td_takes db)" if "gid \<noteq> i" for gid
    unfolding rows using that by (rule table_get_filter)
  have "expired_for_delete cutoff ?db u" if "expired_for_delete cutoff db u" for u
    using that by (auto simp: expired_for_delete_def is_anchor_def rows list_ex_iff)
  then obtain db' fs' where
    rec: "delete_expired_takes (\<lambda>_ db. db) audio_dir cutoff ids ?db (cleanup_generation_files audio_dir (take_paths t) fs)
      = (ids, db', fs')" "td_takes db' = filter (\<lambda>t. g_id t \<notin> set ids) (td_takes ?db)"
    using Cons.IH [of ?db "cleanup_generation_files audio_dir (take_paths t) fs"] Cons.prems get by (auto, metis)
  then show ?case using t by (simp add: delete_expired_generation_def rows conj_commute)
qed simp

lemma selected_ids:
  assumes "takes_ok db"
  shows "distinct (sort (map g_id (filter P (td_takes db))))"
    and "gid \<in> set (sort (map g_id (filter P (td_takes db)))) \<longleftrightarrow>
      (\<exists>t. table_get g_id gid (td_takes db) = Some t \<and> P t)"
proof -
  have rows: "take_rows_ok (td_takes db)" using assms by (simp add: takes_ok_def)
  then show "distinct (sort (map g_id (filter P (td_takes db))))"
    using rows_okD(1) by (simp add: distinct_map_filter)
  show "gid \<in> set (sort (map g_id (filter P (td_takes db)))) \<longleftrightarrow>
      (\<exists>t. table_get g_id gid (td_takes db) = Some t \<and> P t)"
    using rows_ok_get [OF rows] table_get_Some [of g_id gid "td_takes db"] by fastforce
qed

text \<open>A dry run names exactly what a run does.  With nobody else at work, a run reports the takes a
  dry run names, archives the first list, deletes the second and leaves every other take as it is;
  in particular no take is archived and deleted in one run.\<close>

theorem dry_run_predicts_run:
  assumes ok: "takes_ok db"
  shows "\<exists>db' fs'. run_generation_retention (\<lambda>_ db. db) (\<lambda>_ db. db) (\<lambda>_. moment) settings now audio_dir False db fs
      = (fst (run_generation_retention (\<lambda>_ db. db) (\<lambda>_ db. db) (\<lambda>_. moment) settings now audio_dir True db fs), db', fs')
    \<and> (let report = fst (run_generation_retention (\<lambda>_ db. db) (\<lambda>_ db. db) (\<lambda>_. moment) settings now audio_dir True db fs)
       in td_takes db' = filter (\<lambda>t. g_id t \<notin> set (deleted_ids report))
            (map (archived_row moment (set (archived_ids report))) (td_takes db))
          \<and> set (archived_ids report) \<inter> set (deleted_ids report) = {})"
proof -
  define cut where "cut = now - days (final_deletion_days settings)"
  define P where "P = (\<lambda>t. expired_for_archive t \<and> before_cutoff (g_created_at t) (now - days (generation_retention_days settings)))"
  define A where "A = sort (map g_id (filter P (td_takes db)))"
  define D where "D = sort (map g_id (filter (expired_for_delete cut db) (td_takes db)))"
  note A = selected_ids [OF ok, where P = P, folded A_def]
    and D = selected_ids [OF ok, where P = "expired_for_delete cut db", folded D_def]
  have disjoint: "set A \<inter> set D = {}"
    using A(2) D(2) by (auto simp: P_def expired_for_archive_def expired_for_delete_def)
  let ?db1 = "db\<lparr>td_takes := map (archived_row moment (set A)) (td_takes db)\<rparr>"
  have archive: "archive_each (\<lambda>_ db. db) (\<lambda>_. moment) A db = (A, ?db1)"
    using A by (intro archive_each_alone) (auto simp: P_def)
  have "\<exists>t. table_get g_id gid (td_takes ?db1) = Some t \<and> expired_for_delete cut ?db1 t" if "gid \<in> set D" for gid
  proof -
    from that D(2) obtain t where t: "table_get g_id gid (td_takes db) = Some t" "expired_for_delete cut db t" by auto
    have "g_id t \<notin> set A" using that disjoint table_get_Some [OF t(1)] by auto
    then have "table_get g_id gid (td_takes ?db1) = Some t"
      using t(1) table_get_map [of "td_takes db" g_id "archived_row moment (set A)" gid] by simp
    moreover have "expired_for_delete cut ?db1 t"
      using t(2) by (auto simp: expired_for_delete_def is_anchor_def list_ex_iff)
    ultimately show ?thesis by blast
  qed
  from delete_expired_alone [OF D(1) this] obtain db' fs' where
    "delete_expired_takes (\<lambda>_ db. db) audio_dir cut D ?db1 fs = (D, db', fs')"
    "td_takes db' = filter (\<lambda>t. g_id t \<notin> set D) (td_takes ?db1)" by blast
  then show ?thesis
    using archive disjoint
    by (simp add: run_generation_retention_def Let_def list_generations_expired_for_archive_def
        list_generations_expired_for_delete_def A_def [symmetric, unfolded P_def] D_def [symmetric]
        cut_def [symmetric] del: set_sort set_map set_filter)
qed

subsection \<open>A small table\<close>

definition sample_take_row :: "string \<Rightarrow> int \<Rightarrow> bool \<Rightarrow> timestamp option \<Rightarrow> take_row" where
  "sample_take_row gid n kept archived_at = \<lparr>g_id = gid, g_song_id = ''s'', g_song = None, g_version_id = None,
     g_version = None, g_number = n, g_mp3_path = ''u/'' @ gid @ ''.mp3'', g_seed = None, g_model_mode = ''m'',
     g_is_archived = (archived_at \<noteq> None), g_is_picked = False, g_is_kept = kept, g_created_at = Some 0,
     t_wav_path = None, t_archived_at = archived_at, t_src_generation_id = None, t_audio_duration_sec = None,
     t_is_shared = False, t_share_slug = None, t_created_by = None, t_reference_recording_id = None\<rparr>"

definition sample_takes :: take_db where
  "sample_takes = \<lparr>td_songs = [''s''],
     td_takes = [sample_take_row ''a'' 1 False None, sample_take_row ''b'' 2 True None, sample_take_row ''c'' 3 False (Some 0)],
     td_scores = [], td_ratings = []\<rparr>"

lemma sample_takes_ok: "takes_ok sample_takes"
  by (simp add: takes_ok_def take_rows_ok_def sample_takes_def sample_take_row_def)

theorem takes_stay_well_formed_witness:
  "takes_ok (foldl take_step sample_takes [T_Pick ''a'', T_Pick ''b'', T_Unarchive ''c'', T_Pick ''c''])"
  by (rule takes_stay_well_formed [OF sample_takes_ok])

lemma sample_marked: "marked Kept ''b'' sample_takes"
  by (simp add: marked_def sample_takes_def sample_take_row_def table_get_def)

theorem marked_take_survives_retention_witness:
  "let (archived, db1) = archive_each (\<lambda>n db. foldl (sparing Kept ''b'') db [T_Pick ''a'']) (\<lambda>_. 9) [''a'', ''b''] sample_takes;
       (deleted, db2, fs2) = delete_expired_takes (\<lambda>n db. foldl (sparing Kept ''b'') db []) [] 5 [''b'', ''c''] db1 []
   in ''b'' \<notin> set archived \<union> set deleted
      \<and> (\<exists>t. table_get g_id ''b'' (td_takes db2) = Some t \<and> has_mark Kept t \<and> \<not> g_is_archived t)"
proof -
  obtain archived db1 where a: "archive_each (\<lambda>n db. foldl (sparing Kept ''b'') db [T_Pick ''a'']) (\<lambda>_. 9) [''a'', ''b''] sample_takes
      = (archived, db1)" by fastforce
  obtain deleted db2 fs2 where d: "delete_expired_takes (\<lambda>n db. foldl (sparing Kept ''b'') db []) [] 5 [''b'', ''c''] db1 []
      = (deleted, db2, fs2)" by (metis prod_cases3)
  have "''b'' \<notin> set archived \<union> set deleted
      \<and> (\<exists>t. table_get g_id ''b'' (td_takes db2) = Some t \<and> has_mark Kept t \<and> \<not> g_is_archived t)"
    by (rule marked_take_survives_retention [OF sample_takes_ok sample_marked a d])
  then show ?thesis by (simp only: a d Let_def prod.case simp_thms)
qed

theorem dry_run_predicts_run_witness:
  "\<exists>db' fs'. run_generation_retention (\<lambda>_ db. db) (\<lambda>_ db. db) (\<lambda>_. 9)
       \<lparr>generation_retention_days = 1, final_deletion_days = 2\<rparr> (days 10) [] False sample_takes []
     = (\<lparr>archived_ids = [''a''], deleted_ids = [''c'']\<rparr>, db', fs')
     \<and> map g_id (td_takes db') = [''a'', ''b'']"
proof -
  have report: "fst (run_generation_retention (\<lambda>_ db. db) (\<lambda>_ db. db) (\<lambda>_. 9)
       \<lparr>generation_retention_days = 1, final_deletion_days = 2\<rparr> (days 10) [] True sample_takes [])
     = \<lparr>archived_ids = [''a''], deleted_ids = [''c'']\<rparr>"
    by (simp add: run_generation_retention_def list_generations_expired_for_archive_def
        list_generations_expired_for_delete_def expired_for_archive_def expired_for_delete_def is_anchor_def
        before_cutoff_def days_def seconds_def sample_takes_def sample_take_row_def)
  from dry_run_predicts_run [OF sample_takes_ok, of 9 "\<lparr>generation_retention_days = 1, final_deletion_days = 2\<rparr>" "days 10" "[]" "[]"]
  show ?thesis unfolding report by (auto simp: sample_takes_def sample_take_row_def)
qed

end
