(* ===== verification/Shares.thy ===== *)
theory Shares
  imports Takes Playlists Queue_Build
begin

text \<open>
  Public shares (\<open>sharing_api.py\<close>, the authorizing queries of \<open>db/queries/sharing.py\<close>): what the page
  of a shared album, song, take or playlist presents, which audio a public address serves, and when
  a shared queue stream may still be heard.  The selection of a song's take is made twice in the
  code, in Python for the page and in SQL for the address; both are modelled.  Rate limits, covers
  and the response models are left out.
\<close>

record share_album =
  ra_id :: string
  ra_title :: string
  ra_artist :: string
  ra_share_slug :: "string option"
  ra_is_shared :: bool
  ra_is_deleted :: bool

record share_song =
  rs_id :: string
  rs_album_id :: string
  rs_title :: string
  rs_track_number :: int
  rs_share_slug :: "string option"
  rs_is_shared :: bool
  rs_is_deleted :: bool

record share_db =
  sh_albums :: "share_album list"
  sh_songs :: "share_song list"
  sh_takes :: "take_row list"
  sh_playlists :: "playlist_row list"
  sh_entries :: "playlist_entry list"

subsection \<open>Loading a share\<close>

text \<open>The soft-delete filter hides deleted albums and songs from every query and relationship.\<close>

definition album_by_slug :: "string \<Rightarrow> share_db \<Rightarrow> share_album option" where
  "album_by_slug slug db =
     find (\<lambda>a. ra_share_slug a = Some slug \<and> ra_is_shared a \<and> \<not> ra_is_deleted a) (sh_albums db)"

definition album_songs :: "share_album \<Rightarrow> share_db \<Rightarrow> share_song list" where
  "album_songs a db = filter (\<lambda>s. rs_album_id s = ra_id a \<and> \<not> rs_is_deleted s) (sh_songs db)"

definition song_by_slug :: "string \<Rightarrow> share_db \<Rightarrow> share_song option" where
  "song_by_slug slug db =
     find (\<lambda>s. rs_share_slug s = Some slug \<and> rs_is_shared s \<and> \<not> rs_is_deleted s) (sh_songs db)"

definition takes_of_song :: "string \<Rightarrow> share_db \<Rightarrow> take_row list" where
  "takes_of_song song_id db = filter (\<lambda>t. g_song_id t = song_id) (sh_takes db)"

definition live_song :: "take_row \<Rightarrow> share_db \<Rightarrow> share_song option" where
  "live_song t db = find (\<lambda>s. rs_id s = g_song_id t \<and> \<not> rs_is_deleted s) (sh_songs db)"

subsection \<open>The take a page presents\<close>

definition picked_generation :: "take_row list \<Rightarrow> take_row option" where
  "picked_generation gens =
     (let picked = filter (\<lambda>g. g_is_picked g \<and> is_playable_take g) gens
      in if picked \<noteq> [] then Some (hd picked)
         else (let available = sort_key g_number (filter is_playable_take gens)
               in if available \<noteq> [] then Some (last available) else None))"

definition SHARED_AUDIO_SUFFIX :: string where
  "SHARED_AUDIO_SUFFIX = ''.mp3''"

definition shared_audio_name :: "take_row \<Rightarrow> string" where
  "shared_audio_name gen = g_id gen @ SHARED_AUDIO_SUFFIX"

text \<open>The last component of the address; the route in front of it is fixed by the share.\<close>

definition shared_audio_url_for_take :: "take_row \<Rightarrow> string option" where
  "shared_audio_url_for_take gen =
     (if g_mp3_path gen = '''' then None
      else case require_canonical_audio_filename (g_mp3_path gen) of
             Inl _ \<Rightarrow> None
           | Inr _ \<Rightarrow> Some (shared_audio_name gen))"

definition shared_audio_url :: "take_row option \<Rightarrow> string option" where
  "shared_audio_url gen =
     (case gen of
        None \<Rightarrow> None
      | Some g \<Rightarrow> if \<not> is_playable_take g then None else shared_audio_url_for_take g)"

record share_item =
  si_song_id :: string
  si_title :: string
  si_generation_id :: "string option"
  si_audio_url :: "string option"

definition share_item_of :: "share_song \<Rightarrow> take_row option \<Rightarrow> share_item" where
  "share_item_of s gen =
     \<lparr>si_song_id = rs_id s, si_title = rs_title s,
      si_generation_id = (case gen of None \<Rightarrow> None | Some g \<Rightarrow> if g_mp3_path g = '''' then None else Some (g_id g)),
      si_audio_url = shared_audio_url gen\<rparr>"

definition NOT_FOUND :: http_exception where "NOT_FOUND = HTTPException 404 ''Not found''"
definition HTTP_NOT_FOUND :: http_exception where "HTTP_NOT_FOUND = HTTPException 404 ''Not Found''"
definition QUEUE_STREAM_NOT_FOUND :: http_exception where
  "QUEUE_STREAM_NOT_FOUND = HTTPException 404 ''Queue stream not found''"

definition song_pick :: "share_song \<Rightarrow> share_db \<Rightarrow> take_row option" where
  "song_pick s db = picked_generation (takes_of_song (rs_id s) db)"

definition get_shared_album :: "string \<Rightarrow> share_db \<Rightarrow> http_exception + share_item list" where
  "get_shared_album slug db =
     (case album_by_slug slug db of
        None \<Rightarrow> Inl NOT_FOUND
      | Some a \<Rightarrow> Inr (map (\<lambda>s. share_item_of s (song_pick s db))
                       (sort_key rs_track_number (album_songs a db))))"

definition get_shared_song :: "string \<Rightarrow> share_db \<Rightarrow> http_exception + share_item" where
  "get_shared_song slug db =
     (case song_by_slug slug db of
        None \<Rightarrow> Inl NOT_FOUND
      | Some s \<Rightarrow> Inr (share_item_of s (song_pick s db)))"

subsection \<open>The take an address may serve\<close>

definition generation_id_of_shared_audio_name :: "string \<Rightarrow> string option" where
  "generation_id_of_shared_audio_name filename =
     (let generation_id = removesuffix SHARED_AUDIO_SUFFIX filename
      in if generation_id = filename \<or> generation_id = '''' \<or> SLASH \<in> set generation_id
         then None else Some generation_id)"

definition created_key :: "take_row \<Rightarrow> timestamp" where
  "created_key t = (case g_created_at t of None \<Rightarrow> 0 | Some c \<Rightarrow> c)"

definition song_has_playable_pick :: "string \<Rightarrow> share_db \<Rightarrow> bool" where
  "song_has_playable_pick song_id db \<longleftrightarrow>
     list_ex (\<lambda>c. g_song_id c = song_id \<and> g_is_picked c \<and> is_playable_take c) (sh_takes db)"

definition selected_playable_pick_id :: "string \<Rightarrow> share_db \<Rightarrow> string option" where
  "selected_playable_pick_id song_id db =
     (case sort_key (\<lambda>t. - created_key t)
             (filter (\<lambda>c. g_song_id c = song_id \<and> g_is_picked c \<and> is_playable_take c) (sh_takes db)) of
        [] \<Rightarrow> None
      | t # _ \<Rightarrow> Some (g_id t))"

definition latest_playable_generation_number :: "string \<Rightarrow> share_db \<Rightarrow> int option" where
  "latest_playable_generation_number song_id db =
     (let numbers = map g_number (filter (\<lambda>c. g_song_id c = song_id \<and> is_playable_take c) (sh_takes db))
      in if numbers = [] then None else Some (Max (set numbers)))"

text \<open>The condition of the query on the rows of takes and songs; \<open>shared\<close> is the caller's condition on
  the song (and its album).\<close>

definition presented_take ::
    "(share_song \<Rightarrow> bool) \<Rightarrow> share_db \<Rightarrow> take_row \<Rightarrow> bool" where
  "presented_take shared db t \<longleftrightarrow>
     is_playable_take t
     \<and> (g_is_picked t \<and> selected_playable_pick_id (g_song_id t) db = Some (g_id t)
        \<or> \<not> song_has_playable_pick (g_song_id t) db
           \<and> latest_playable_generation_number (g_song_id t) db = Some (g_number t))
     \<and> list_ex (\<lambda>s. rs_id s = g_song_id t \<and> \<not> rs_is_deleted s \<and> shared s) (sh_songs db)"

definition shared_pick_take_stored_path ::
    "(share_song \<Rightarrow> bool) \<Rightarrow> string \<Rightarrow> share_db \<Rightarrow> string option" where
  "shared_pick_take_stored_path shared generation_id db =
     map_option g_mp3_path (find (\<lambda>t. presented_take shared db t \<and> g_id t = generation_id) (sh_takes db))"

definition on_shared_album :: "string \<Rightarrow> share_db \<Rightarrow> share_song \<Rightarrow> bool" where
  "on_shared_album slug db s \<longleftrightarrow>
     list_ex (\<lambda>a. ra_id a = rs_album_id s \<and> \<not> ra_is_deleted a \<and> ra_share_slug a = Some slug \<and> ra_is_shared a)
       (sh_albums db)"

definition shared_album_take_stored_path :: "string \<Rightarrow> string \<Rightarrow> share_db \<Rightarrow> string option" where
  "shared_album_take_stored_path slug generation_id db =
     shared_pick_take_stored_path (on_shared_album slug db) generation_id db"

definition shared_song_take_stored_path :: "string \<Rightarrow> string \<Rightarrow> share_db \<Rightarrow> string option" where
  "shared_song_take_stored_path slug generation_id db =
     shared_pick_take_stored_path (\<lambda>s. rs_share_slug s = Some slug \<and> rs_is_shared s) generation_id db"

definition shared_playlist_take_stored_path :: "string \<Rightarrow> string \<Rightarrow> share_db \<Rightarrow> string option" where
  "shared_playlist_take_stored_path slug generation_id db =
     map_option g_mp3_path (find (\<lambda>t. is_playable_take t \<and> g_id t = generation_id \<and> live_song t db \<noteq> None
       \<and> list_ex (\<lambda>e. e_generation_id e = g_id t
            \<and> list_ex (\<lambda>p. pl_id p = e_playlist_id e \<and> pl_share_slug p = Some slug \<and> pl_is_shared p)
                (sh_playlists db)) (sh_entries db)) (sh_takes db))"

datatype share_error = Share_Http http_exception | Share_Path_Rejected

definition stored_filename_of_presented_audio ::
    "(string \<Rightarrow> string option) \<Rightarrow> string \<Rightarrow> share_error + string" where
  "stored_filename_of_presented_audio stored_path_of filename =
     (case generation_id_of_shared_audio_name filename of
        None \<Rightarrow> Inl (Share_Http HTTP_NOT_FOUND)
      | Some generation_id \<Rightarrow>
          (case stored_path_of generation_id of
             None \<Rightarrow> Inl (Share_Http HTTP_NOT_FOUND)
           | Some stored \<Rightarrow> Inr stored))"

definition shared_audio_file_response ::
    "string list \<Rightarrow> audio_fs \<Rightarrow> string \<Rightarrow> share_error + string list" where
  "shared_audio_file_response audio_dir fs stored_filename =
     (case canonical_audio_path audio_dir stored_filename of
        Inl _ \<Rightarrow> Inl Share_Path_Rejected
      | Inr audio_path \<Rightarrow>
          (case require_existing_audio_path fs audio_path of
             Inl _ \<Rightarrow> Inl (Share_Http HTTP_NOT_FOUND)
           | Inr path \<Rightarrow> Inr path))"

definition serve_presented ::
    "string list \<Rightarrow> audio_fs \<Rightarrow> (string \<Rightarrow> string option) \<Rightarrow> string \<Rightarrow> share_error + string list" where
  "serve_presented audio_dir fs stored_path_of filename =
     (case stored_filename_of_presented_audio stored_path_of filename of
        Inl e \<Rightarrow> Inl e
      | Inr stored \<Rightarrow> shared_audio_file_response audio_dir fs stored)"

definition get_shared_audio ::
    "string list \<Rightarrow> audio_fs \<Rightarrow> string \<Rightarrow> string \<Rightarrow> share_db \<Rightarrow> share_error + string list" where
  "get_shared_audio audio_dir fs slug filename db =
     serve_presented audio_dir fs (\<lambda>gid. shared_album_take_stored_path slug gid db) filename"

definition get_shared_song_audio ::
    "string list \<Rightarrow> audio_fs \<Rightarrow> string \<Rightarrow> string \<Rightarrow> share_db \<Rightarrow> share_error + string list" where
  "get_shared_song_audio audio_dir fs slug filename db =
     serve_presented audio_dir fs (\<lambda>gid. shared_song_take_stored_path slug gid db) filename"

definition get_shared_playlist_audio ::
    "string list \<Rightarrow> audio_fs \<Rightarrow> string \<Rightarrow> string \<Rightarrow> share_db \<Rightarrow> share_error + string list" where
  "get_shared_playlist_audio audio_dir fs slug filename db =
     serve_presented audio_dir fs (\<lambda>gid. shared_playlist_take_stored_path slug gid db) filename"

text \<open>A shared take is addressed by its own slug.\<close>

definition get_presented_generation :: "string \<Rightarrow> share_db \<Rightarrow> take_row option" where
  "get_presented_generation slug db =
     (case find (\<lambda>t. t_share_slug t = Some slug \<and> t_is_shared t) (sh_takes db) of
        None \<Rightarrow> None
      | Some gen \<Rightarrow> if live_song gen db = None then None else Some gen)"

definition get_shared_generation :: "string \<Rightarrow> share_db \<Rightarrow> http_exception + string option" where
  "get_shared_generation slug db =
     (case get_presented_generation slug db of
        None \<Rightarrow> Inl NOT_FOUND
      | Some gen \<Rightarrow> Inr (shared_audio_url_for_take gen))"

definition get_shared_gen_audio ::
    "string list \<Rightarrow> audio_fs \<Rightarrow> string \<Rightarrow> string \<Rightarrow> share_db \<Rightarrow> share_error + string list" where
  "get_shared_gen_audio audio_dir fs slug filename db =
     (case get_presented_generation slug db of
        None \<Rightarrow> Inl (Share_Http HTTP_NOT_FOUND)
      | Some gen \<Rightarrow>
          if generation_id_of_shared_audio_name filename \<noteq> Some (g_id gen) then Inl (Share_Http HTTP_NOT_FOUND)
          else shared_audio_file_response audio_dir fs (g_mp3_path gen))"

subsection \<open>Playlists and queue streams\<close>

definition playlist_by_slug :: "string \<Rightarrow> share_db \<Rightarrow> playlist_row option" where
  "playlist_by_slug slug db = find (\<lambda>p. pl_share_slug p = Some slug \<and> pl_is_shared p) (sh_playlists db)"

definition entry_take :: "playlist_entry \<Rightarrow> share_db \<Rightarrow> take_row option" where
  "entry_take e db = table_get g_id (e_generation_id e) (sh_takes db)"

text \<open>The entries by position, without those whose song was deleted, each with its take.\<close>

definition presented_playlist_entries :: "playlist_row \<Rightarrow> share_db \<Rightarrow> (playlist_entry \<times> take_row) list" where
  "presented_playlist_entries p db =
     List.map_filter (\<lambda>e. case entry_take e db of
         None \<Rightarrow> None
       | Some gen \<Rightarrow> if live_song gen db = None then None else Some (e, gen))
       (sort_key e_position (filter (\<lambda>e. e_playlist_id e = pl_id p) (sh_entries db)))"

definition get_shared_playlist :: "string \<Rightarrow> share_db \<Rightarrow> http_exception + (string \<times> string option) list" where
  "get_shared_playlist slug db =
     (case playlist_by_slug slug db of
        None \<Rightarrow> Inl NOT_FOUND
      | Some p \<Rightarrow> Inr (map (\<lambda>(e, gen). (e_id e, shared_audio_url (Some gen))) (presented_playlist_entries p db)))"

text \<open>What \<open>track_source_from_generation\<close> reads of a take: the loaded row with its song.\<close>

definition loaded_generation :: "share_db \<Rightarrow> take_row \<Rightarrow> generation" where
  "loaded_generation db t =
     (generation.truncate t)\<lparr>g_song := map_option (\<lambda>s. \<lparr>so_id = rs_id s, so_title = rs_title s,
        so_track_number = rs_track_number s,
        so_album = map_option (\<lambda>a. \<lparr>al_title = ra_title a, al_artist = ra_artist a\<rparr>)
          (find (\<lambda>a. ra_id a = rs_album_id s \<and> \<not> ra_is_deleted a) (sh_albums db))\<rparr>) (live_song t db)\<rparr>"

fun album_sources :: "share_db \<Rightarrow> nat \<Rightarrow> share_song list \<Rightarrow> queue_source list \<Rightarrow> queue_source list" where
  "album_sources db index [] sources = sources"
| "album_sources db index (s # songs) sources =
     (case song_pick s db of
        None \<Rightarrow> album_sources db (Suc index) songs sources
      | Some gen \<Rightarrow>
          (case shared_audio_url (Some gen) of
             None \<Rightarrow> album_sources db (Suc index) songs sources
           | Some audio_url \<Rightarrow>
               album_sources db (Suc index) songs
                 (sources @ [track_source_from_generation (loaded_generation db gen)
                    (rs_id s @ '':'' @ g_id gen @ '':'' @ show_nat index) (length sources) None audio_url])))"

definition get_shared_album_stream_sources :: "string \<Rightarrow> share_db \<Rightarrow> http_exception + queue_source list" where
  "get_shared_album_stream_sources slug db =
     (case album_by_slug slug db of
        None \<Rightarrow> Inl NOT_FOUND
      | Some a \<Rightarrow> Inr (album_sources db 0 (sort_key rs_track_number (album_songs a db)) []))"

fun playlist_sources :: "share_db \<Rightarrow> (playlist_entry \<times> take_row) list \<Rightarrow> queue_source list \<Rightarrow> queue_source list" where
  "playlist_sources db [] sources = sources"
| "playlist_sources db ((e, gen) # entries) sources =
     (if \<not> is_playable_take gen then playlist_sources db entries sources
      else (case shared_audio_url (Some gen) of
              None \<Rightarrow> playlist_sources db entries sources
            | Some audio_url \<Rightarrow>
                playlist_sources db entries
                  (sources @ [track_source_from_generation (loaded_generation db gen) (e_id e) (length sources)
                     (Some (e_id e)) audio_url])))"

definition get_shared_playlist_stream_sources :: "string \<Rightarrow> share_db \<Rightarrow> http_exception + queue_source list" where
  "get_shared_playlist_stream_sources slug db =
     (case playlist_by_slug slug db of
        None \<Rightarrow> Inl NOT_FOUND
      | Some p \<Rightarrow> Inr (playlist_sources db (presented_playlist_entries p db) []))"

definition validate_shared_queue_manifest :: "queue_manifest \<Rightarrow> share_db \<Rightarrow> http_exception + unit" where
  "validate_shared_queue_manifest manifest db =
     (case m_scope manifest of
        Scope_Shared_Playlist \<Rightarrow>
          (case playlist_by_slug (m_scope_id manifest) db of
             None \<Rightarrow> Inl NOT_FOUND
           | Some p \<Rightarrow>
               (let valid_tracks = map (\<lambda>(e, gen). (Some (e_id e), g_id gen))
                      (filter (\<lambda>(e, gen). is_playable_take gen) (presented_playlist_entries p db))
                in if list_ex (\<lambda>t. (q_entry_id t, q_generation_id t) \<notin> set valid_tracks) (m_tracks manifest)
                   then Inl QUEUE_STREAM_NOT_FOUND else Inr ()))
      | Scope_Shared_Album \<Rightarrow>
          (case album_by_slug (m_scope_id manifest) db of
             None \<Rightarrow> Inl NOT_FOUND
           | Some a \<Rightarrow>
               (let valid_tracks = List.map_filter (\<lambda>s. map_option (\<lambda>gen. (rs_id s, g_id gen)) (song_pick s db))
                      (album_songs a db)
                in if list_ex (\<lambda>t. (q_song_id t, q_generation_id t) \<notin> set valid_tracks) (m_tracks manifest)
                   then Inl QUEUE_STREAM_NOT_FOUND else Inr ()))
      | Scope_Auth \<Rightarrow> Inl QUEUE_STREAM_NOT_FOUND)"

definition get_shared_queue_stream_audio ::
    "timestamp \<Rightarrow> string \<Rightarrow> stream_files \<Rightarrow> share_db \<Rightarrow> (http_exception + string) \<times> stream_files" where
  "get_shared_queue_stream_audio now snapshot_id d db =
     (case load_queue_stream_manifest now snapshot_id d of
        (Inl e, d') \<Rightarrow> (Inl e, d')
      | (Inr manifest, d') \<Rightarrow>
          (case validate_shared_queue_manifest manifest db of
             Inl e \<Rightarrow> (Inl e, d')
           | Inr _ \<Rightarrow> (queue_stream_audio_path snapshot_id, d')))"

subsection \<open>The two selections agree\<close>

definition same_song :: "take_row list \<Rightarrow> bool" where
  "same_song ts \<longleftrightarrow> (\<forall>t \<in> set ts. \<forall>t' \<in> set ts. g_song_id t = g_song_id t')"

lemma single_pick:
  assumes ok: "take_rows_ok ts" and same: "same_song ts"
  shows "filter (\<lambda>g. g_is_picked g \<and> is_playable_take g) ts = []
    \<or> (\<exists>p. filter (\<lambda>g. g_is_picked g \<and> is_playable_take g) ts = [p])" (is "?F = [] \<or> _")
proof (rule ccontr)
  assume no: "\<not> ?thesis"
  then obtain a b r where F: "?F = a # b # r" by (cases ?F rule: remdups_adj.cases) auto
  have mem: "a \<in> set ?F" "b \<in> set ?F" by (simp_all only: F list.set_intros)
  then have "g_id a = g_id b"
    using rows_okD(4) [OF ok, of a b] same by (simp add: same_song_def)
  moreover have "distinct (map g_id ?F)" using rows_okD(1) [OF ok] by (rule distinct_map_filter)
  ultimately show False by (simp only: F) simp
qed

lemma sorted_last: "sorted (map f xs) \<Longrightarrow> x \<in> set xs \<Longrightarrow> f x \<le> f (last xs)"
  by (induction xs) auto

lemma last_sorted_max:
  assumes "A \<noteq> []"
  shows "last (sort_key f A) \<in> set A" and "f (last (sort_key f A)) = Max (f ` set A)"
proof -
  let ?S = "sort_key f A"
  have "length ?S \<noteq> 0" using assms by simp
  then have "?S \<noteq> []" by fastforce
  then have "last ?S \<in> set ?S" by (rule last_in_set)
  then show mem: "last ?S \<in> set A" by simp
  have "f x \<le> f (last ?S)" if "x \<in> set A" for x
    using that sorted_last [of f ?S x] by simp
  then show "f (last ?S) = Max (f ` set A)"
    using mem by (intro Max_eqI [symmetric]) auto
qed

lemma rows_ok_unique:
  "take_rows_ok ts \<Longrightarrow> t \<in> set ts \<Longrightarrow> t' \<in> set ts \<Longrightarrow> g_id t = g_id t' \<Longrightarrow> t = t'"
  using rows_ok_get by (metis option.inject)

lemma rows_ok_number:
  assumes "take_rows_ok ts" "t \<in> set ts" "t' \<in> set ts" "g_song_id t = g_song_id t'" "g_number t = g_number t'"
  shows "t = t'"
  using rows_okD(2) [OF assms(1)] assms(2-5) by (auto simp: distinct_map inj_on_def)

lemma no_pick_latest:
  assumes ok: "take_rows_ok ts" and same: "same_song ts" and A: "filter is_playable_take ts \<noteq> []"
    and t: "t \<in> set ts" "is_playable_take t"
  shows "last (sort_key g_number (filter is_playable_take ts)) = t
    \<longleftrightarrow> g_number t = Max (g_number ` set (filter is_playable_take ts))"
proof -
  let ?l = "last (sort_key g_number (filter is_playable_take ts))"
  have l: "?l \<in> set ts" "g_number ?l = Max (g_number ` set (filter is_playable_take ts))"
    using last_sorted_max [OF A, of g_number] by simp_all
  have "g_song_id ?l = g_song_id t" using same l(1) t(1) unfolding same_song_def by blast
  with rows_ok_number [OF ok l(1) t(1)] l(2) show ?thesis by metis
qed

lemma picked_generation_playable:
  "picked_generation ts = Some t \<Longrightarrow> t \<in> set ts \<and> is_playable_take t"
proof -
  assume pick: "picked_generation ts = Some t"
  show ?thesis
  proof (cases "filter (\<lambda>g. g_is_picked g \<and> is_playable_take g) ts")
    case Nil
    with pick have "filter is_playable_take ts \<noteq> []" "t = last (sort_key g_number (filter is_playable_take ts))"
      by (auto simp: picked_generation_def Let_def split: if_splits)
    then show ?thesis using last_sorted_max(1) [of "filter is_playable_take ts" g_number] by simp
  next
    case (Cons a r)
    have "a \<in> set (filter (\<lambda>g. g_is_picked g \<and> is_playable_take g) ts)" unfolding Cons by simp
    moreover have "a = t" using pick Cons by (simp add: picked_generation_def)
    ultimately show ?thesis by simp
  qed
qed

lemma takes_of_song_ok:
  assumes "take_rows_ok (sh_takes db)"
  shows "take_rows_ok (takes_of_song sid db)" and "same_song (takes_of_song sid db)"
    and "t \<in> set (takes_of_song sid db) \<longleftrightarrow> t \<in> set (sh_takes db) \<and> g_song_id t = sid"
  using rows_ok_filter [OF assms] by (auto simp: takes_of_song_def same_song_def)

text \<open>The condition of the query, for one take of a song.\<close>

lemma presented_is_picked:
  assumes ok: "take_rows_ok (sh_takes db)" and t: "t \<in> set (sh_takes db)"
  shows "is_playable_take t \<and> (g_is_picked t \<and> selected_playable_pick_id (g_song_id t) db = Some (g_id t)
        \<or> \<not> song_has_playable_pick (g_song_id t) db
           \<and> latest_playable_generation_number (g_song_id t) db = Some (g_number t))
    \<longleftrightarrow> picked_generation (takes_of_song (g_song_id t) db) = Some t" (is "?sql \<longleftrightarrow> ?py")
proof -
  let ?ts = "takes_of_song (g_song_id t) db"
  let ?P = "\<lambda>g. g_is_picked g \<and> is_playable_take g"
  note ts = takes_of_song_ok [OF ok, where sid = "g_song_id t"]
  have mem: "t \<in> set ?ts" using t ts(3) by simp
  have F: "filter (\<lambda>c. g_song_id c = g_song_id t \<and> g_is_picked c \<and> is_playable_take c) (sh_takes db) = filter ?P ?ts"
    by (simp add: takes_of_song_def conj_commute conj_left_commute)
  have A: "filter (\<lambda>c. g_song_id c = g_song_id t \<and> is_playable_take c) (sh_takes db) = filter is_playable_take ?ts"
    by (simp add: takes_of_song_def conj_commute)
  have has: "song_has_playable_pick (g_song_id t) db \<longleftrightarrow> filter ?P ?ts \<noteq> []"
    unfolding F [symmetric] by (auto simp: song_has_playable_pick_def list_ex_iff filter_empty_conv)
  show ?thesis
  proof (cases "filter ?P ?ts")
    case Nil
    then have none: "\<not> song_has_playable_pick (g_song_id t) db" "selected_playable_pick_id (g_song_id t) db = None"
      using has by (simp_all add: selected_playable_pick_id_def F)
    show ?thesis
    proof (cases "is_playable_take t")
      case True
      then have "t \<in> set (filter is_playable_take ?ts)" using mem by simp
      then have nonempty: "filter is_playable_take ?ts \<noteq> []" by (metis empty_iff empty_set)
      have "latest_playable_generation_number (g_song_id t) db = Some (Max (g_number ` set (filter is_playable_take ?ts)))"
        using nonempty unfolding latest_playable_generation_number_def A Let_def by simp
      moreover have "picked_generation ?ts = Some (last (sort_key g_number (filter is_playable_take ?ts)))"
      proof -
        have "length (sort_key g_number (filter is_playable_take ?ts)) \<noteq> 0" using nonempty by simp
        then have "sort_key g_number (filter is_playable_take ?ts) \<noteq> []" by fastforce
        then show ?thesis unfolding picked_generation_def Nil Let_def by simp
      qed
      ultimately show ?thesis
        using True none no_pick_latest [OF ts(1,2) nonempty mem True] by (simp only: option.inject) auto
    qed (use picked_generation_playable in auto)
  next
    case (Cons p r)
    then have single: "filter ?P ?ts = [p]" using single_pick [OF ts(1,2)] by auto
    have "p \<in> set (filter ?P ?ts)" unfolding single by simp
    then have p: "p \<in> set ?ts" "g_is_picked p" "is_playable_take p" by simp_all
    have "selected_playable_pick_id (g_song_id t) db = Some (g_id p)"
      by (simp add: selected_playable_pick_id_def F single)
    moreover have "picked_generation ?ts = Some p" by (simp add: picked_generation_def single)
    moreover have "song_has_playable_pick (g_song_id t) db" using has single by simp
    ultimately show ?thesis
      using p rows_ok_unique [OF ts(1) p(1) mem] by auto
  qed
qed

subsection \<open>Addresses and pages\<close>

lemma find_unique:
  assumes "\<And>x y. x \<in> set xs \<Longrightarrow> y \<in> set xs \<Longrightarrow> P x \<Longrightarrow> P y \<Longrightarrow> x = y"
  shows "find P xs = Some x \<longleftrightarrow> x \<in> set xs \<and> P x"
proof
  show "find P xs = Some x \<Longrightarrow> x \<in> set xs \<and> P x" by (auto simp: find_Some_iff)
  assume x: "x \<in> set xs \<and> P x"
  then obtain y where "find P xs = Some y" by (cases "find P xs") (auto simp: find_None_iff)
  moreover from this have "y \<in> set xs \<and> P y" by (auto simp: find_Some_iff)
  ultimately show "find P xs = Some x" using assms x by blast
qed

lemma distinct_slug:
  "distinct (List.map_filter f xs) \<Longrightarrow> x \<in> set xs \<Longrightarrow> y \<in> set xs \<Longrightarrow> f x = Some k \<Longrightarrow> f y = Some k \<Longrightarrow> x = y"
proof (induction xs)
  case (Cons a xs)
  have "k \<in> set (List.map_filter f xs)" if "z \<in> set xs" "f z = Some k" for z
    using that by (induction xs) (auto simp: List.map_filter_simps split: option.split)
  with Cons show ?case by (auto simp: List.map_filter_simps split: option.splits)
qed simp

text \<open>Primary keys and share slugs are unique; a stored take has a plain id and a file name.\<close>

definition share_ok :: "share_db \<Rightarrow> bool" where
  "share_ok db \<longleftrightarrow> take_rows_ok (sh_takes db)
     \<and> distinct (map rs_id (sh_songs db)) \<and> distinct (map ra_id (sh_albums db))
     \<and> distinct (List.map_filter ra_share_slug (sh_albums db))
     \<and> distinct (List.map_filter rs_share_slug (sh_songs db))
     \<and> (\<forall>t \<in> set (sh_takes db). g_id t \<noteq> '''' \<and> SLASH \<notin> set (g_id t) \<and> g_mp3_path t \<noteq> ''.'')"

lemma share_okD:
  assumes "share_ok db"
  shows "take_rows_ok (sh_takes db)"
    and "a \<in> set (sh_albums db) \<Longrightarrow> a' \<in> set (sh_albums db) \<Longrightarrow> ra_id a = ra_id a' \<Longrightarrow> a = a'"
    and "s \<in> set (sh_songs db) \<Longrightarrow> s' \<in> set (sh_songs db) \<Longrightarrow> rs_id s = rs_id s' \<Longrightarrow> s = s'"
    and "album_by_slug slug db = Some a \<longleftrightarrow> a \<in> set (sh_albums db) \<and> ra_share_slug a = Some slug
      \<and> ra_is_shared a \<and> \<not> ra_is_deleted a"
    and "song_by_slug slug db = Some s \<longleftrightarrow> s \<in> set (sh_songs db) \<and> rs_share_slug s = Some slug
      \<and> rs_is_shared s \<and> \<not> rs_is_deleted s"
proof -
  from assms have rows: "take_rows_ok (sh_takes db)"
    and ids: "distinct (map rs_id (sh_songs db))" "distinct (map ra_id (sh_albums db))"
    and slugs: "distinct (List.map_filter ra_share_slug (sh_albums db))" "distinct (List.map_filter rs_share_slug (sh_songs db))"
    by (simp_all add: share_ok_def)
  show "take_rows_ok (sh_takes db)" by (rule rows)
  show "a \<in> set (sh_albums db) \<Longrightarrow> a' \<in> set (sh_albums db) \<Longrightarrow> ra_id a = ra_id a' \<Longrightarrow> a = a'"
    using ids by (auto simp: distinct_map inj_on_def)
  show "s \<in> set (sh_songs db) \<Longrightarrow> s' \<in> set (sh_songs db) \<Longrightarrow> rs_id s = rs_id s' \<Longrightarrow> s = s'"
    using ids by (auto simp: distinct_map inj_on_def)
  show "album_by_slug slug db = Some a \<longleftrightarrow> a \<in> set (sh_albums db) \<and> ra_share_slug a = Some slug
      \<and> ra_is_shared a \<and> \<not> ra_is_deleted a"
    unfolding album_by_slug_def by (rule find_unique) (elim conjE, rule distinct_slug [OF slugs(1)])
  show "song_by_slug slug db = Some s \<longleftrightarrow> s \<in> set (sh_songs db) \<and> rs_share_slug s = Some slug
      \<and> rs_is_shared s \<and> \<not> rs_is_deleted s"
    unfolding song_by_slug_def by (rule find_unique) (elim conjE, rule distinct_slug [OF slugs(2)])
qed

text \<open>The songs a share condition lets through, each with its pick.\<close>

lemma stored_path_iff:
  assumes ok: "share_ok db"
  shows "shared_pick_take_stored_path shared gid db = Some path \<longleftrightarrow>
    (\<exists>s t. s \<in> set (sh_songs db) \<and> \<not> rs_is_deleted s \<and> shared s \<and> song_pick s db = Some t
      \<and> g_id t = gid \<and> g_mp3_path t = path)" (is "?lhs \<longleftrightarrow> ?rhs")
proof -
  note rows = share_okD(1) [OF ok]
  have presented: "presented_take shared db t \<longleftrightarrow>
      (\<exists>s \<in> set (sh_songs db). rs_id s = g_song_id t \<and> \<not> rs_is_deleted s \<and> shared s \<and> song_pick s db = Some t)"
    if "t \<in> set (sh_takes db)" for t
    using presented_is_picked [OF rows that] unfolding presented_take_def song_pick_def list_ex_iff by auto
  have pick: "t \<in> set (sh_takes db) \<and> g_song_id t = rs_id s" if "song_pick s db = Some t" for s t
    using picked_generation_playable [OF that [unfolded song_pick_def]] takes_of_song_ok(3) [OF rows] by simp
  have "?lhs \<longleftrightarrow> (\<exists>t. find (\<lambda>t. presented_take shared db t \<and> g_id t = gid) (sh_takes db) = Some t \<and> g_mp3_path t = path)"
    by (auto simp: shared_pick_take_stored_path_def)
  also have "\<dots> \<longleftrightarrow> (\<exists>t \<in> set (sh_takes db). presented_take shared db t \<and> g_id t = gid \<and> g_mp3_path t = path)"
    using find_unique [of "sh_takes db" "\<lambda>t. presented_take shared db t \<and> g_id t = gid"] rows_ok_unique [OF rows]
    by (metis (no_types, lifting))
  also have "\<dots> \<longleftrightarrow> ?rhs" using presented pick by metis
  finally show ?thesis .
qed

text \<open>C39: The page and the address agree.  The address of a shared album serves a take exactly when the
  page presents it: when it is what the page selects for one of the album's songs, the pick if that
  is playable and the newest playable take otherwise.  The same holds of a shared song; so revoking
  a share, deleting a song or picking another take closes the old address at once.\<close>

theorem share_address_matches_page:
  assumes ok: "share_ok db"
  shows "(shared_album_take_stored_path slug gid db = Some path \<longleftrightarrow>
      (\<exists>a s t. album_by_slug slug db = Some a \<and> s \<in> set (album_songs a db) \<and> song_pick s db = Some t
        \<and> g_id t = gid \<and> g_mp3_path t = path))
    \<and> (shared_song_take_stored_path slug gid db = Some path \<longleftrightarrow>
      (\<exists>s t. song_by_slug slug db = Some s \<and> song_pick s db = Some t \<and> g_id t = gid \<and> g_mp3_path t = path))"
proof
  have "s \<in> set (sh_songs db) \<and> \<not> rs_is_deleted s \<and> on_shared_album slug db s
      \<longleftrightarrow> (\<exists>a. album_by_slug slug db = Some a \<and> s \<in> set (album_songs a db))" for s
    unfolding on_shared_album_def list_ex_iff album_songs_def share_okD(4) [OF ok] by auto
  then show "shared_album_take_stored_path slug gid db = Some path \<longleftrightarrow>
      (\<exists>a s t. album_by_slug slug db = Some a \<and> s \<in> set (album_songs a db) \<and> song_pick s db = Some t
        \<and> g_id t = gid \<and> g_mp3_path t = path)"
    unfolding shared_album_take_stored_path_def stored_path_iff [OF ok] by metis
  show "shared_song_take_stored_path slug gid db = Some path \<longleftrightarrow>
      (\<exists>s t. song_by_slug slug db = Some s \<and> song_pick s db = Some t \<and> g_id t = gid \<and> g_mp3_path t = path)"
    unfolding shared_song_take_stored_path_def stored_path_iff [OF ok] share_okD(5) [OF ok] by auto
qed

subsection \<open>What a page offers is served\<close>

lemma canonical_name_path:
  assumes "require_canonical_audio_filename f = Inr ()" and "f \<noteq> ''.''"
  shows "canonical_audio_path audio_dir f = Inr (resolve_path audio_dir @ path_parts f)"
proof -
  have f: "''..'' \<notin> set (path_parts f)" "as_posix (path_parts f) = f"
    using assms(1) by (auto simp: require_canonical_audio_filename_def split: if_splits)
  then have "path_parts f \<noteq> []" using assms(2) by (auto simp: as_posix_def)
  with canonical_audio_path_below(1) [of "path_parts f" audio_dir] f path_parts_clean show ?thesis by simp
qed

lemma shared_name_id:
  "gid \<noteq> '''' \<Longrightarrow> SLASH \<notin> set gid \<Longrightarrow> generation_id_of_shared_audio_name (gid @ SHARED_AUDIO_SUFFIX) = Some gid"
proof -
  assume gid: "gid \<noteq> ''''" "SLASH \<notin> set gid"
  have "endswith SHARED_AUDIO_SUFFIX (gid @ SHARED_AUDIO_SUFFIX)" by (simp add: endswith_def)
  then have "removesuffix SHARED_AUDIO_SUFFIX (gid @ SHARED_AUDIO_SUFFIX) = gid" by (simp add: removesuffix_def)
  then show ?thesis using gid by (simp add: generation_id_of_shared_audio_name_def SHARED_AUDIO_SUFFIX_def)
qed

lemma shared_audio_url_Some:
  "shared_audio_url gen = Some name \<longleftrightarrow> (\<exists>t. gen = Some t \<and> is_playable_take t
     \<and> require_canonical_audio_filename (g_mp3_path t) = Inr () \<and> name = g_id t @ SHARED_AUDIO_SUFFIX)"
  by (auto simp: shared_audio_url_def shared_audio_url_for_take_def shared_audio_name_def is_playable_take_def
      split: option.splits sum.splits if_splits)

lemma serve_presented_take:
  assumes "stored_path_of (g_id t) = Some (g_mp3_path t)" and "g_id t \<noteq> ''''" "SLASH \<notin> set (g_id t)" "g_mp3_path t \<noteq> ''.''"
    and "require_canonical_audio_filename (g_mp3_path t) = Inr ()"
  shows "serve_presented audio_dir fs stored_path_of (g_id t @ SHARED_AUDIO_SUFFIX) =
    (if map_of fs (resolve_path audio_dir @ path_parts (g_mp3_path t)) = None then Inl (Share_Http HTTP_NOT_FOUND)
     else Inr (resolve_path audio_dir @ path_parts (g_mp3_path t)))"
  using assms
  by (simp add: serve_presented_def stored_filename_of_presented_audio_def shared_name_id
      shared_audio_file_response_def canonical_name_path require_existing_audio_path_def Let_def)

lemma album_item:
  assumes "get_shared_album slug db = Inr items" and "item \<in> set items"
  obtains a s where "album_by_slug slug db = Some a" "s \<in> set (album_songs a db)"
    "item = share_item_of s (song_pick s db)"
  using assms by (auto simp: get_shared_album_def split: option.splits)

text \<open>C40: What a page offers plays, and nothing else does.  Following the address a shared album's page
  gives for a song returns the file of the take the page names, at its canonical place in the audio
  directory, or 404 once the file is gone; and any address under the share that returns a file returns
  that of a take the page presents.\<close>

theorem shared_album_audio_served:
  assumes ok: "share_ok db" and page: "get_shared_album slug db = Inr items"
  shows "(item \<in> set items \<and> si_audio_url item = Some name \<longrightarrow>
      (\<exists>t. si_generation_id item = Some (g_id t) \<and> t \<in> set (sh_takes db) \<and> is_playable_take t
        \<and> (let path = resolve_path audio_dir @ path_parts (g_mp3_path t)
           in get_shared_audio audio_dir fs slug name db
             = (if map_of fs path = None then Inl (Share_Http HTTP_NOT_FOUND) else Inr path))))
    \<and> (get_shared_audio audio_dir fs slug filename db = Inr path \<longrightarrow>
      (\<exists>item t. item \<in> set items \<and> si_generation_id item = Some (g_id t) \<and> t \<in> set (sh_takes db) \<and> is_playable_take t
        \<and> canonical_audio_path audio_dir (g_mp3_path t) = Inr path))"
proof (intro conjI impI)
  have pick: "t \<in> set (sh_takes db) \<and> is_playable_take t" if "song_pick s db = Some t" for s t
    using picked_generation_playable [OF that [unfolded song_pick_def]] takes_of_song_ok(3) [OF share_okD(1) [OF ok]] by simp
  note address = stored_path_iff [OF ok, of "on_shared_album slug db", folded shared_album_take_stored_path_def]
  have on_album: "s \<in> set (sh_songs db) \<and> \<not> rs_is_deleted s \<and> on_shared_album slug db s
      \<longleftrightarrow> (\<exists>a. album_by_slug slug db = Some a \<and> s \<in> set (album_songs a db))" for s
    unfolding on_shared_album_def list_ex_iff album_songs_def share_okD(4) [OF ok] by auto
  {
    assume item: "item \<in> set items \<and> si_audio_url item = Some name"
    with album_item [OF page] obtain a s where s: "album_by_slug slug db = Some a" "s \<in> set (album_songs a db)"
      "item = share_item_of s (song_pick s db)" by blast
    with item obtain t where t: "song_pick s db = Some t" "require_canonical_audio_filename (g_mp3_path t) = Inr ()"
      "name = g_id t @ SHARED_AUDIO_SUFFIX" "is_playable_take t"
      by (auto simp: share_item_of_def shared_audio_url_Some)
    have "shared_album_take_stored_path slug (g_id t) db = Some (g_mp3_path t)"
      unfolding address using s t(1) on_album by blast
    moreover have "g_id t \<noteq> ''''" "SLASH \<notin> set (g_id t)" "g_mp3_path t \<noteq> ''.''"
      using ok pick [OF t(1)] by (simp_all add: share_ok_def)
    ultimately have "let path = resolve_path audio_dir @ path_parts (g_mp3_path t)
       in get_shared_audio audio_dir fs slug name db
         = (if map_of fs path = None then Inl (Share_Http HTTP_NOT_FOUND) else Inr path)"
      unfolding get_shared_audio_def t(3) Let_def by (rule serve_presented_take [OF _ _ _ _ t(2)])
    moreover have "si_generation_id item = Some (g_id t)"
      using s(3) t(1,4) by (simp add: share_item_of_def is_playable_take_def)
    ultimately show "\<exists>t. si_generation_id item = Some (g_id t) \<and> t \<in> set (sh_takes db) \<and> is_playable_take t
        \<and> (let path = resolve_path audio_dir @ path_parts (g_mp3_path t)
           in get_shared_audio audio_dir fs slug name db
             = (if map_of fs path = None then Inl (Share_Http HTTP_NOT_FOUND) else Inr path))"
      using pick [OF t(1)] by blast
  }
  assume served: "get_shared_audio audio_dir fs slug filename db = Inr path"
  then obtain gid stored where g: "shared_album_take_stored_path slug gid db = Some stored"
    "canonical_audio_path audio_dir stored = Inr path"
    by (auto simp: get_shared_audio_def serve_presented_def stored_filename_of_presented_audio_def
        shared_audio_file_response_def require_existing_audio_path_def split: sum.splits option.splits if_splits)
  from g(1) [unfolded address] obtain s t where s: "s \<in> set (sh_songs db) \<and> \<not> rs_is_deleted s \<and> on_shared_album slug db s"
    and t: "song_pick s db = Some t" "g_id t = gid" "g_mp3_path t = stored" by blast
  from s on_album obtain a where a: "album_by_slug slug db = Some a" "s \<in> set (album_songs a db)" by blast
  then have "share_item_of s (song_pick s db) \<in> set items" using page by (auto simp: get_shared_album_def)
  moreover have "si_generation_id (share_item_of s (song_pick s db)) = Some (g_id t)"
    using t(1) pick [OF t(1)] by (simp add: share_item_of_def is_playable_take_def)
  ultimately show "\<exists>item t. item \<in> set items \<and> si_generation_id item = Some (g_id t) \<and> t \<in> set (sh_takes db)
      \<and> is_playable_take t \<and> canonical_audio_path audio_dir (g_mp3_path t) = Inr path"
    using pick [OF t(1)] g(2) t(3) by blast
qed

subsection \<open>Queue streams of a share\<close>

definition track_follows :: "queue_source \<Rightarrow> queue_track \<Rightarrow> bool" where
  "track_follows source t \<longleftrightarrow>
     q_generation_id t = g_id (s_generation source) \<and> q_entry_id t = s_entry_id source
     \<and> q_song_id t = (case g_song (s_generation source) of None \<Rightarrow> '''' | Some song \<Rightarrow> so_id song)"

lemma track_response_follows: "track_response source (s_generation source) d st en = Inr t \<Longrightarrow> track_follows source t"
  by (auto simp: track_response_def track_follows_def Let_def split: sum.splits)

lemma build_tracks_follow:
  "build_tracks ps tracks offset = Inr (result, total_offset) \<Longrightarrow>
     \<exists>new. result = tracks @ new \<and> list_all2 track_follows (map p_source ps) new"
proof (induction ps arbitrary: tracks offset)
  case (Cons p ps)
  then obtain t where t: "track_response (p_source p) (s_generation (p_source p)) (p_duration p) offset
      (offset + p_duration p) = Inr t"
    and rec: "build_tracks ps (tracks @ [t]) (offset + p_duration p) = Inr (result, total_offset)"
    by (auto split: sum.splits)
  from Cons.IH [OF rec] obtain new where "result = (tracks @ [t]) @ new" "list_all2 track_follows (map p_source ps) new"
    by blast
  then show ?case using track_response_follows [OF t] by (intro exI [of _ "t # new"]) simp
qed simp

lemma album_sources_from:
  "source \<in> set (album_sources db n songs sources) \<Longrightarrow> source \<in> set sources \<or>
     (\<exists>s gen. s \<in> set songs \<and> song_pick s db = Some gen \<and> s_generation source = loaded_generation db gen)"
proof (induction songs arbitrary: n sources)
  case (Cons s songs)
  consider "album_sources db n (s # songs) sources = album_sources db (Suc n) songs sources"
    | gen url where "song_pick s db = Some gen" "album_sources db n (s # songs) sources
        = album_sources db (Suc n) songs (sources @ [track_source_from_generation (loaded_generation db gen)
            (rs_id s @ '':'' @ g_id gen @ '':'' @ show_nat n) (length sources) None url])"
    by (cases "song_pick s db"; cases "shared_audio_url (song_pick s db)") simp_all
  then show ?case
  proof cases
    case 1
    with Cons.prems have "source \<in> set (album_sources db (Suc n) songs sources)" by simp
    from Cons.IH [OF this] show ?thesis by auto
  next
    case 2
    from Cons.IH [OF Cons.prems [unfolded 2(2)]] show ?thesis
    proof
      assume "source \<in> set (sources @ [track_source_from_generation (loaded_generation db gen)
            (rs_id s @ '':'' @ g_id gen @ '':'' @ show_nat n) (length sources) None url])"
      then have "source \<in> set sources \<or> s_generation source = loaded_generation db gen"
        by (auto simp: track_source_from_generation_def)
      then show ?thesis using 2(1) list.set_intros(1) by metis
    next
      assume "\<exists>s gen. s \<in> set songs \<and> song_pick s db = Some gen \<and> s_generation source = loaded_generation db gen"
      then show ?thesis by (meson list.set_intros(2))
    qed
  qed
qed simp

lemma loaded_generation_simps [simp]:
  "g_id (loaded_generation db t) = g_id t"
  "g_song (loaded_generation db t) = map_option (\<lambda>s. \<lparr>so_id = rs_id s, so_title = rs_title s,
        so_track_number = rs_track_number s,
        so_album = map_option (\<lambda>a. \<lparr>al_title = ra_title a, al_artist = ra_artist a\<rparr>)
          (find (\<lambda>a. ra_id a = rs_album_id s \<and> \<not> ra_is_deleted a) (sh_albums db))\<rparr>) (live_song t db)"
  by (simp_all add: loaded_generation_def generation.defs)

lemma live_song_of_pick:
  assumes ok: "share_ok db" and s: "s \<in> set (sh_songs db)" "\<not> rs_is_deleted s" and t: "song_pick s db = Some t"
  shows "live_song t db = Some s"
proof -
  have song: "g_song_id t = rs_id s"
    using picked_generation_playable [OF t [unfolded song_pick_def]] takes_of_song_ok(3) [OF share_okD(1) [OF ok]] by simp
  have "live_song t db = Some s \<longleftrightarrow> s \<in> set (sh_songs db) \<and> rs_id s = g_song_id t \<and> \<not> rs_is_deleted s"
    unfolding live_song_def by (rule find_unique) (use share_okD(3) [OF ok] in metis)
  then show ?thesis using s song by simp
qed

lemma album_source_ids:
  assumes ok: "share_ok db" and a: "album_by_slug slug db = Some a"
    and source: "source \<in> set (album_sources db 0 (sort_key rs_track_number (album_songs a db)) [])"
  shows "\<exists>s t. s \<in> set (album_songs a db) \<and> song_pick s db = Some t \<and> g_id (s_generation source) = g_id t
    \<and> (case g_song (s_generation source) of None \<Rightarrow> '''' | Some song \<Rightarrow> so_id song) = rs_id s"
proof -
  from album_sources_from [OF source] obtain s gen where s: "s \<in> set (album_songs a db)" "song_pick s db = Some gen"
    "s_generation source = loaded_generation db gen" by auto
  then have "live_song gen db = Some s"
    by (intro live_song_of_pick [OF ok]) (simp_all add: album_songs_def)
  with s show ?thesis by (intro exI [of _ s] exI [of _ gen]) simp
qed

lemma validate_album:
  assumes "m_scope m = Scope_Shared_Album" and "album_by_slug (m_scope_id m) db = Some a"
  shows "validate_shared_queue_manifest m db = Inr () \<longleftrightarrow>
    (\<forall>t \<in> set (m_tracks m). \<exists>s gen. s \<in> set (album_songs a db) \<and> song_pick s db = Some gen
      \<and> q_song_id t = rs_id s \<and> q_generation_id t = g_id gen)"
proof -
  have "x \<in> set (List.map_filter (\<lambda>s. map_option (\<lambda>gen. (rs_id s, g_id gen)) (song_pick s db)) ss) \<longleftrightarrow>
      (\<exists>s gen. s \<in> set ss \<and> song_pick s db = Some gen \<and> x = (rs_id s, g_id gen))" for x ss
    by (induction ss) (auto simp: List.map_filter_simps split: option.splits)
  note valid = this [of "(q_song_id t, q_generation_id t)" "album_songs a db" for t]
  have "validate_shared_queue_manifest m db = Inr () \<longleftrightarrow> (\<forall>t \<in> set (m_tracks m). (q_song_id t, q_generation_id t)
      \<in> set (List.map_filter (\<lambda>s. map_option (\<lambda>gen. (rs_id s, g_id gen)) (song_pick s db)) (album_songs a db)))"
    using assms by (simp add: validate_shared_queue_manifest_def Let_def list_ex_iff)
  then show ?thesis unfolding valid prod.inject .
qed

text \<open>A stream follows its share.  The manifest built from the tracks a shared album offers is valid
  for that album, so its listener hears it; later it is heard exactly as long as the album is shared and each
  of its tracks is still the take the page presents for its song, and is refused with 404 otherwise.\<close>

theorem shared_album_stream_follows_share:
  assumes ok: "share_ok db0" and sources: "get_shared_album_stream_sources slug db0 = Inr sources"
    and prepared: "map p_source prepared = take n sources" and tracks: "build_tracks prepared [] 0 = Inr (tracks, duration)"
    and manifest: "m_scope m = Scope_Shared_Album" "m_scope_id m = slug" "m_tracks m = tracks"
  shows "validate_shared_queue_manifest m db0 = Inr ()
    \<and> (validate_shared_queue_manifest m db = Inr () \<longleftrightarrow>
        (\<exists>a. album_by_slug slug db = Some a \<and> (\<forall>t \<in> set tracks. \<exists>s gen. s \<in> set (album_songs a db)
          \<and> song_pick s db = Some gen \<and> q_song_id t = rs_id s \<and> q_generation_id t = g_id gen)))
    \<and> validate_shared_queue_manifest m db \<in> {Inr (), Inl NOT_FOUND, Inl QUEUE_STREAM_NOT_FOUND}"
proof (intro conjI)
  from sources obtain a where a: "album_by_slug slug db0 = Some a"
    "sources = album_sources db0 0 (sort_key rs_track_number (album_songs a db0)) []"
    by (auto simp: get_shared_album_stream_sources_def split: option.splits)
  from build_tracks_follow [OF tracks] have follow: "list_all2 track_follows (take n sources) tracks"
    using prepared by simp
  show "validate_shared_queue_manifest m db0 = Inr ()"
    unfolding validate_album [OF manifest(1), unfolded manifest(2,3), OF a(1)]
  proof
    fix t assume "t \<in> set tracks"
    then obtain source where src: "source \<in> set (take n sources)" "track_follows source t"
      using follow by (metis in_set_conv_nth list_all2_conv_all_nth)
    then have "source \<in> set (album_sources db0 0 (sort_key rs_track_number (album_songs a db0)) [])"
      using a(2) set_take_subset by fastforce
    from album_source_ids [OF ok a(1) this] src(2)
    show "\<exists>s gen. s \<in> set (album_songs a db0) \<and> song_pick s db0 = Some gen \<and> q_song_id t = rs_id s
        \<and> q_generation_id t = g_id gen"
      by (auto simp: track_follows_def)
  qed
  show "validate_shared_queue_manifest m db = Inr () \<longleftrightarrow>
      (\<exists>a. album_by_slug slug db = Some a \<and> (\<forall>t \<in> set tracks. \<exists>s gen. s \<in> set (album_songs a db)
        \<and> song_pick s db = Some gen \<and> q_song_id t = rs_id s \<and> q_generation_id t = g_id gen))"
  proof (cases "album_by_slug slug db")
    case None
    then show ?thesis using manifest by (simp add: validate_shared_queue_manifest_def)
  next
    case (Some a')
    then show ?thesis using validate_album [OF manifest(1), of db a'] manifest by simp
  qed
  show "validate_shared_queue_manifest m db \<in> {Inr (), Inl NOT_FOUND, Inl QUEUE_STREAM_NOT_FOUND}"
    using manifest(1) by (simp add: validate_shared_queue_manifest_def Let_def split: option.split)
qed


subsection \<open>A sample share\<close>

definition sample_share_take :: "string \<Rightarrow> int \<Rightarrow> bool \<Rightarrow> take_row" where
  "sample_share_take gid n picked = \<lparr>g_id = gid, g_song_id = ''s'', g_song = None, g_version_id = None,
     g_version = None, g_number = n, g_mp3_path = ''x.mp3'', g_seed = None, g_model_mode = ''m'',
     g_is_archived = False, g_is_picked = picked, g_is_kept = False, g_created_at = Some 0,
     t_wav_path = None, t_archived_at = None, t_src_generation_id = None, t_audio_duration_sec = None,
     t_is_shared = False, t_share_slug = None, t_created_by = None, t_reference_recording_id = None\<rparr>"

definition sample_share_album :: share_album where
  "sample_share_album = \<lparr>ra_id = ''a'', ra_title = ''A'', ra_artist = ''B'', ra_share_slug = Some ''pub'',
     ra_is_shared = True, ra_is_deleted = False\<rparr>"

definition sample_share_song :: share_song where
  "sample_share_song = \<lparr>rs_id = ''s'', rs_album_id = ''a'', rs_title = ''S'', rs_track_number = 1, rs_share_slug = None,
     rs_is_shared = False, rs_is_deleted = False\<rparr>"

definition sample_share :: share_db where
  "sample_share = \<lparr>sh_albums = [sample_share_album], sh_songs = [sample_share_song],
     sh_takes = [sample_share_take ''g1'' 1 True, sample_share_take ''g2'' 2 False],
     sh_playlists = [], sh_entries = []\<rparr>"

lemma sample_share_ok: "share_ok sample_share"
  by (simp add: share_ok_def sample_share_def sample_share_album_def sample_share_song_def sample_share_take_def
      take_rows_ok_def SLASH_def List.map_filter_simps)

lemma sample_share_loads:
  "album_by_slug ''pub'' sample_share = Some sample_share_album"
  "album_songs sample_share_album sample_share = [sample_share_song]"
  "song_pick sample_share_song sample_share = Some (sample_share_take ''g1'' 1 True)"
  by (simp_all add: album_by_slug_def album_songs_def song_pick_def takes_of_song_def picked_generation_def
      sample_share_def sample_share_album_def sample_share_song_def sample_share_take_def is_playable_take_def)

lemma sample_name_canonical: "require_canonical_audio_filename ''x.mp3'' = Inr ()"
  by (simp add: require_canonical_audio_filename_def path_parts_def as_posix_def is_absolute_def startswith_def SLASH_def)

lemma sample_share_url: "shared_audio_url (Some (sample_share_take ''g1'' 1 True)) = Some ''g1.mp3''"
  unfolding shared_audio_url_Some
  by (simp add: sample_share_take_def is_playable_take_def sample_name_canonical SHARED_AUDIO_SUFFIX_def)

theorem share_address_matches_page_witness:
  "shared_album_take_stored_path ''pub'' ''g1'' sample_share = Some ''x.mp3''
   \<and> shared_album_take_stored_path ''pub'' ''g2'' sample_share \<noteq> Some ''x.mp3''"
proof
  note served = conjunct1 [OF share_address_matches_page [OF sample_share_ok, of "''pub''" _ "''x.mp3''"]]
  show "shared_album_take_stored_path ''pub'' ''g1'' sample_share = Some ''x.mp3''"
    unfolding served by (simp add: sample_share_loads) (simp add: sample_share_take_def)
  show "shared_album_take_stored_path ''pub'' ''g2'' sample_share \<noteq> Some ''x.mp3''"
    unfolding served by (simp add: sample_share_loads) (simp add: sample_share_take_def)
qed

lemma sample_share_page:
  "get_shared_album ''pub'' sample_share = Inr [share_item_of sample_share_song (Some (sample_share_take ''g1'' 1 True))]"
  by (simp add: get_shared_album_def sample_share_loads)

definition sample_share_fs :: audio_fs where
  "sample_share_fs = [([''data'', ''x.mp3''], \<lparr>a_is_file = True, a_readable = True, a_size = 3,
     a_mtime_ns = 0, a_length = Some 1\<rparr>)]"

theorem shared_album_audio_served_witness:
  "\<exists>t. t \<in> set (sh_takes sample_share) \<and> is_playable_take t
     \<and> get_shared_audio [''data''] sample_share_fs ''pub'' ''g1.mp3'' sample_share
       = Inr (resolve_path [''data''] @ path_parts (g_mp3_path t))"
proof -
  have parts: "resolve_path [''data''] @ path_parts ''x.mp3'' = [''data'', ''x.mp3'']"
    by (simp add: resolve_path_def path_parts_def SLASH_def)
  let ?item = "share_item_of sample_share_song (Some (sample_share_take ''g1'' 1 True))"
  have item: "?item \<in> set [?item] \<and> si_audio_url ?item = Some ''g1.mp3''"
    by (simp add: share_item_of_def sample_share_url)
  from mp [OF conjunct1 [OF shared_album_audio_served [OF sample_share_ok sample_share_page]] item]
  obtain t where t: "si_generation_id ?item = Some (g_id t)" "t \<in> set (sh_takes sample_share)" "is_playable_take t"
    "let path = resolve_path [''data''] @ path_parts (g_mp3_path t)
     in get_shared_audio [''data''] sample_share_fs ''pub'' ''g1.mp3'' sample_share
       = (if map_of sample_share_fs path = None then Inl (Share_Http HTTP_NOT_FOUND) else Inr path)" by blast
  have "g_mp3_path t = ''x.mp3''" using t(2) by (auto simp: sample_share_def sample_share_take_def)
  with t(4) have "get_shared_audio [''data''] sample_share_fs ''pub'' ''g1.mp3'' sample_share
      = Inr (resolve_path [''data''] @ path_parts (g_mp3_path t))"
    by (simp add: Let_def parts sample_share_fs_def)
  with t(2,3) show ?thesis by blast
qed

definition sample_share_source :: queue_source where
  "sample_share_source = track_source_from_generation
     (loaded_generation sample_share (sample_share_take ''g1'' 1 True)) ''s:g1:0'' 0 None ''g1.mp3''"

definition sample_share_manifest :: "queue_track list \<Rightarrow> queue_manifest" where
  "sample_share_manifest ts = \<lparr>m_snapshot_id = ''q'', m_scope = Scope_Shared_Album, m_scope_id = ''pub'',
     m_content_hash = ''h'', m_expires_at = 9, m_total_duration = 1, m_tracks = ts, m_windowed = False\<rparr>"

lemma sample_share_sources: "get_shared_album_stream_sources ''pub'' sample_share = Inr [sample_share_source]"
proof -
  have "rs_id sample_share_song @ '':'' @ g_id (sample_share_take ''g1'' 1 True) @ '':'' @ show_nat 0 = ''s:g1:0''"
    by code_simp
  then show ?thesis
    by (simp add: get_shared_album_stream_sources_def sample_share_loads sample_share_url sample_share_source_def)
qed

theorem shared_album_stream_follows_share_witness:
  "\<exists>t. validate_shared_queue_manifest (sample_share_manifest [t]) sample_share = Inr ()
     \<and> q_generation_id t = ''g1''
     \<and> validate_shared_queue_manifest (sample_share_manifest [t]) (sample_share\<lparr>sh_albums := []\<rparr>) \<noteq> Inr ()"
proof -
  let ?p = "\<lparr>p_source = sample_share_source, p_audio_path = [''data'', ''x.mp3''], p_duration = 1, p_size = 1, p_mtime_ns = 1\<rparr>"
  obtain t where tracks: "build_tracks [?p] [] 0 = Inr ([t], 1)"
    by (simp add: sample_share_source_def track_source_from_generation_def loaded_generation_def generation.defs
      sample_share_take_def track_response_def generation_version_lyrics_def Let_def)
  have prepared: "map p_source [?p] = take 1 [sample_share_source]" by simp
  note follows = shared_album_stream_follows_share [OF sample_share_ok sample_share_sources prepared tracks,
      of "sample_share_manifest [t]"]
  have "q_generation_id t = ''g1''"
    using build_tracks_follow [OF tracks]
    by (auto simp: track_follows_def sample_share_source_def track_source_from_generation_def
        loaded_generation_def generation.defs sample_share_take_def list_all2_Cons1)
  moreover have "album_by_slug ''pub'' (sample_share\<lparr>sh_albums := []\<rparr>) = None" by (simp add: album_by_slug_def)
  ultimately show ?thesis
    using follows [of sample_share] follows [of "sample_share\<lparr>sh_albums := []\<rparr>"]
    by (intro exI [of _ t]) (simp add: sample_share_manifest_def)
qed

end
