(* ===== verification/Effects.thy ===== *)
theory Effects
  imports Prelude
begin

text \<open>
  Programs whose effects may fail or be cut off.  A program works on a world that carries a script:
  the fate of each effect it still makes, in order.  An effect works, raises its error, or the
  process is killed there; an empty script means that everything works.  Quantifying over scripts
  is quantifying over every point at which a process can fail or die.  \<open>attempt\<close> is
  \<open>try ... except\<close>, \<open>ensuring\<close> is \<open>try ... finally\<close>; a killed process runs neither.  Properties are
  stated with a postcondition for the value, the exception and the crash.
\<close>

datatype fate = Works | Fails | Dies

record world =
  w_script :: "fate list"

datatype ('e, 'a) outcome = Done 'a | Raised 'e | Killed

type_synonym ('w, 'e, 'a) prog = "'w \<Rightarrow> ('e, 'a) outcome \<times> 'w"

definition give :: "'a \<Rightarrow> ('w, 'e, 'a) prog" where
  "give x w = (Done x, w)"

definition throw :: "'e \<Rightarrow> ('w, 'e, 'a) prog" where
  "throw e w = (Raised e, w)"

definition bind_p :: "('w, 'e, 'a) prog \<Rightarrow> ('a \<Rightarrow> ('w, 'e, 'b) prog) \<Rightarrow> ('w, 'e, 'b) prog" where
  "bind_p p q w =
     (case p w of
        (Done x, w') \<Rightarrow> q x w'
      | (Raised e, w') \<Rightarrow> (Raised e, w')
      | (Killed, w') \<Rightarrow> (Killed, w'))"

definition seq_p :: "('w, 'e, 'a) prog \<Rightarrow> ('w, 'e, 'b) prog \<Rightarrow> ('w, 'e, 'b) prog" where
  "seq_p p q = bind_p p (\<lambda>_. q)"

definition reading :: "('w \<Rightarrow> ('w, 'e, 'a) prog) \<Rightarrow> ('w, 'e, 'a) prog" where
  "reading f w = f w w"

definition attempt :: "('w, 'e, 'a) prog \<Rightarrow> ('e \<Rightarrow> ('w, 'e, 'a) prog) \<Rightarrow> ('w, 'e, 'a) prog" where
  "attempt p handler w =
     (case p w of
        (Raised e, w') \<Rightarrow> handler e w'
      | (Done x, w') \<Rightarrow> (Done x, w')
      | (Killed, w') \<Rightarrow> (Killed, w'))"

definition ensuring :: "('w, 'e, 'a) prog \<Rightarrow> ('w, 'e, unit) prog \<Rightarrow> ('w, 'e, 'a) prog" where
  "ensuring p cleanup w =
     (case p w of
        (Done x, w') \<Rightarrow> bind_p cleanup (\<lambda>_. give x) w'
      | (Raised e, w') \<Rightarrow> bind_p cleanup (\<lambda>_. throw e) w'
      | (Killed, w') \<Rightarrow> (Killed, w'))"

text \<open>One effect: its own error \<open>e\<close> when the script says so; otherwise the action, which may raise.\<close>

definition effect :: "'e \<Rightarrow> ('z world_scheme \<Rightarrow> ('e + 'a) \<times> 'z world_scheme) \<Rightarrow> ('z world_scheme, 'e, 'a) prog" where
  "effect e act w =
     (let w' = w\<lparr>w_script := tl (w_script w)\<rparr>
      in case (if w_script w = [] then Works else hd (w_script w)) of
           Works \<Rightarrow> (case act w' of (Inl e', w'') \<Rightarrow> (Raised e', w'') | (Inr x, w'') \<Rightarrow> (Done x, w''))
         | Fails \<Rightarrow> (Raised e, w')
         | Dies \<Rightarrow> (Killed, w'))"

text \<open>An effect that only changes the world.\<close>

definition change :: "'e \<Rightarrow> ('z world_scheme \<Rightarrow> 'z world_scheme) \<Rightarrow> ('z world_scheme, 'e, unit) prog" where
  "change e f = effect e (\<lambda>w. (Inr (), f w))"

lemma seq_give [simp]: "seq_p (give x) q = q"
  by (rule ext) (simp add: seq_p_def bind_p_def give_def)

lemma bind_give [simp]: "bind_p (give x) q = q x"
  by (rule ext) (simp add: bind_p_def give_def)

lemma bind_throw [simp]: "bind_p (throw e) q = throw e"
  by (rule ext) (simp add: bind_p_def throw_def)

subsection \<open>Rules\<close>

definition runs_to ::
    "('w \<Rightarrow> bool) \<Rightarrow> ('w, 'e, 'a) prog \<Rightarrow> ('a \<Rightarrow> 'w \<Rightarrow> bool) \<Rightarrow> ('e \<Rightarrow> 'w \<Rightarrow> bool) \<Rightarrow> ('w \<Rightarrow> bool) \<Rightarrow> bool" where
  "runs_to P p Q E C \<longleftrightarrow> (\<forall>w. P w \<longrightarrow>
     (case p w of (Done x, w') \<Rightarrow> Q x w' | (Raised e, w') \<Rightarrow> E e w' | (Killed, w') \<Rightarrow> C w'))"

lemma runs_toI:
  "(\<And>w. P w \<Longrightarrow> case p w of (Done x, w') \<Rightarrow> Q x w' | (Raised e, w') \<Rightarrow> E e w' | (Killed, w') \<Rightarrow> C w')
   \<Longrightarrow> runs_to P p Q E C"
  by (simp add: runs_to_def)

lemma runs_toD:
  assumes "runs_to P p Q E C" and "P w"
  shows "p w = (Done x, w') \<Longrightarrow> Q x w'" and "p w = (Raised e, w') \<Longrightarrow> E e w'" and "p w = (Killed, w') \<Longrightarrow> C w'"
  using assms by (fastforce simp: runs_to_def)+

lemma runs_to_snd:
  assumes "runs_to P p (\<lambda>_. Q) (\<lambda>_. Q) Q" and "P w"
  shows "Q (snd (p w))"
proof -
  obtain r w' where run: "p w = (r, w')" by fastforce
  then show ?thesis using runs_toD [OF assms] by (cases r) auto
qed

lemma runs_to_weaken:
  assumes "runs_to P' p Q' E' C'" and "\<And>w. P w \<Longrightarrow> P' w" and "\<And>x w. Q' x w \<Longrightarrow> Q x w"
    and "\<And>e w. E' e w \<Longrightarrow> E e w" and "\<And>w. C' w \<Longrightarrow> C w"
  shows "runs_to P p Q E C"
proof (rule runs_toI)
  fix w assume "P w"
  then have "P' w" by (rule assms(2))
  obtain r w' where p: "p w = (r, w')" by fastforce
  show "case p w of (Done x, w') \<Rightarrow> Q x w' | (Raised e, w') \<Rightarrow> E e w' | (Killed, w') \<Rightarrow> C w'"
    using runs_toD [OF assms(1) \<open>P' w\<close>] p assms(3-5) by (cases r) auto
qed

lemma runs_give: "(\<And>w. P w \<Longrightarrow> Q x w) \<Longrightarrow> runs_to P (give x) Q E C"
  by (simp add: runs_to_def give_def)

lemma runs_throw: "(\<And>w. P w \<Longrightarrow> E e w) \<Longrightarrow> runs_to P (throw e) Q E C"
  by (simp add: runs_to_def throw_def)

lemma runs_bind:
  "runs_to P p R E C \<Longrightarrow> (\<And>x. runs_to (R x) (q x) Q E C) \<Longrightarrow> runs_to P (bind_p p q) Q E C"
  by (fastforce simp: runs_to_def bind_p_def split: prod.splits outcome.splits)

lemma runs_seq: "runs_to P p (\<lambda>_. R) E C \<Longrightarrow> runs_to R q Q E C \<Longrightarrow> runs_to P (seq_p p q) Q E C"
  unfolding seq_p_def by (rule runs_bind)

lemma runs_reading: "(\<And>v. P v \<Longrightarrow> runs_to (\<lambda>w. w = v) (f v) Q E C) \<Longrightarrow> runs_to P (reading f) Q E C"
  by (simp add: runs_to_def reading_def)

lemma runs_attempt:
  "runs_to P p Q R C \<Longrightarrow> (\<And>e. runs_to (R e) (h e) Q E C) \<Longrightarrow> runs_to P (attempt p h) Q E C"
  by (fastforce simp: runs_to_def attempt_def split: prod.splits outcome.splits)

lemma runs_ensuring:
  assumes "runs_to P p R S C" and "\<And>x. runs_to (R x) cleanup (\<lambda>_. Q x) E C"
    and "\<And>e. runs_to (S e) cleanup (\<lambda>_. E e) E C"
  shows "runs_to P (ensuring p cleanup) Q E C"
proof (rule runs_toI)
  fix w assume "P w"
  obtain r w' where p: "p w = (r, w')" by fastforce
  note facts = runs_toD [OF assms(1) \<open>P w\<close>]
  obtain r' w'' where c: "cleanup w' = (r', w'')" by fastforce
  show "case ensuring p cleanup w of (Done x, w') \<Rightarrow> Q x w' | (Raised e, w') \<Rightarrow> E e w' | (Killed, w') \<Rightarrow> C w'"
  proof (cases r)
    case (Done x)
    then show ?thesis using runs_toD [OF assms(2) facts(1) [OF p [unfolded Done]]] c p
      by (cases r') (auto simp: ensuring_def bind_p_def give_def)
  next
    case (Raised e)
    then show ?thesis using runs_toD [OF assms(3) facts(2) [OF p [unfolded Raised]]] c p
      by (cases r') (auto simp: ensuring_def bind_p_def throw_def)
  next
    case Killed
    then show ?thesis using facts(3) p by (simp add: ensuring_def)
  qed
qed

text \<open>The script is not part of what a condition speaks about.\<close>

definition script_free :: "('z world_scheme \<Rightarrow> bool) \<Rightarrow> bool" where
  "script_free P \<longleftrightarrow> (\<forall>w s. P (w\<lparr>w_script := s\<rparr>) = P w)"

lemma runs_effect:
  assumes "script_free P" and "\<And>w x w'. P w \<Longrightarrow> act w = (Inr x, w') \<Longrightarrow> Q x w'"
    and "\<And>w e' w'. P w \<Longrightarrow> act w = (Inl e', w') \<Longrightarrow> E e' w'" and "\<And>w. P w \<Longrightarrow> E e w" and "\<And>w. P w \<Longrightarrow> C w"
  shows "runs_to P (effect e act) Q E C"
proof (rule runs_toI)
  fix w assume "P w"
  then have "P (w\<lparr>w_script := tl (w_script w)\<rparr>)" using assms(1) by (simp add: script_free_def)
  then show "case effect e act w of (Done x, w') \<Rightarrow> Q x w' | (Raised e, w') \<Rightarrow> E e w' | (Killed, w') \<Rightarrow> C w'"
    using assms(2-) by (auto simp: effect_def Let_def split: fate.split sum.split prod.split)
qed

lemma runs_change:
  "script_free P \<Longrightarrow> (\<And>w. P w \<Longrightarrow> Q () (f w)) \<Longrightarrow> (\<And>w. P w \<Longrightarrow> E e w) \<Longrightarrow> (\<And>w. P w \<Longrightarrow> C w)
   \<Longrightarrow> runs_to P (change e f) Q E C"
  unfolding change_def by (rule runs_effect) auto

text \<open>Without faults left in the script, an effect is its action.\<close>

lemma effect_works: "w_script w = [] \<Longrightarrow> effect e act w =
    (case act w of (Inl e', w'') \<Rightarrow> (Raised e', w'') | (Inr x, w'') \<Rightarrow> (Done x, w''))"
proof -
  assume none: "w_script w = []"
  have same: "w\<lparr>w_script := []\<rparr> = w" by (rule world.equality) (simp_all add: none)
  show ?thesis by (simp add: effect_def Let_def none same)
qed

lemma change_works: "w_script w = [] \<Longrightarrow> change e f w = (Done (), f w)"
  by (simp add: change_def effect_works)

lemmas prog_defs = give_def throw_def bind_p_def seq_p_def reading_def attempt_def ensuring_def

end
