(* ===== verification/Lora_Rows.thy ===== *)
theory Lora_Rows
  imports Job_Store
begin

text \<open>
  Voices a musician trains (\<open>UserLora\<close>, \<open>UserLoraSample\<close> of \<open>db/models.py\<close>, the queries of
  \<open>db/queries/loras.py\<close>): their rows, status, soft deletion, the choice of a row to reconcile, and
  the ordered samples.
\<close>

datatype lora_status = L_Draft | L_Queued | L_Preprocessing | L_Training | L_Exporting | L_Ready | L_Failed

definition LORA_ACTIVE_STATUSES :: "lora_status set" where
  "LORA_ACTIVE_STATUSES = {L_Queued, L_Preprocessing, L_Training, L_Exporting}"

definition LORA_TRAINING_MODEL_MODES :: "string set" where
  "LORA_TRAINING_MODEL_MODES = {''sft'', ''turbo''}"

definition MODEL_DEFAULT_MODE :: string where
  "MODEL_DEFAULT_MODE = ''sft''"

record user_lora =
  lo_id :: string
  lo_user_id :: string
  lo_name :: string
  lo_slug :: string
  lo_model_mode :: string
  lo_status :: lora_status
  lo_storage_path :: "string option"
  lo_tensor_path :: "string option"
  lo_training_job_id :: "string option"
  lo_error :: "string option"
  lo_created_at :: timestamp
  lo_completed_at :: "timestamp option"
  lo_deleted_at :: "timestamp option"

datatype lora_row_error = Lora_Value_Error string | Lora_Integrity_Error

abbreviation get_lora :: "string \<Rightarrow> user_lora list \<Rightarrow> user_lora option" where
  "get_lora \<equiv> table_get lo_id"

subsection \<open>Rows\<close>

text \<open>The insert fails on a primary key or a slug that exists.\<close>

definition create_user_lora ::
    "string \<Rightarrow> timestamp \<Rightarrow> string \<Rightarrow> string \<Rightarrow> string \<Rightarrow> string \<Rightarrow> user_lora list
     \<Rightarrow> (lora_row_error + user_lora) \<times> user_lora list" where
  "create_user_lora uuid now user_id name slug model_mode loras =
     (if model_mode \<notin> LORA_TRAINING_MODEL_MODES
      then (Inl (Lora_Value_Error (''Unsupported LoRA training model mode: '' @ model_mode)), loras)
      else if get_lora uuid loras \<noteq> None \<or> list_ex (\<lambda>l. lo_user_id l = user_id \<and> lo_slug l = slug) loras
      then (Inl Lora_Integrity_Error, loras)
      else (let lora = \<lparr>lo_id = uuid, lo_user_id = user_id, lo_name = name, lo_slug = slug, lo_model_mode = model_mode,
                        lo_status = L_Draft, lo_storage_path = None, lo_tensor_path = None, lo_training_job_id = None,
                        lo_error = None, lo_created_at = now, lo_completed_at = None, lo_deleted_at = None\<rparr>
            in (Inr lora, loras @ [lora])))"

definition get_user_lora :: "string \<Rightarrow> bool \<Rightarrow> user_lora list \<Rightarrow> user_lora option" where
  "get_user_lora lora_id include_deleted_rows loras =
     (case get_lora lora_id loras of
        None \<Rightarrow> None
      | Some l \<Rightarrow> if \<not> include_deleted_rows \<and> lo_deleted_at l \<noteq> None then None else Some l)"

definition list_user_loras_for_user :: "string \<Rightarrow> bool \<Rightarrow> user_lora list \<Rightarrow> user_lora list" where
  "list_user_loras_for_user user_id include_deleted loras =
     sort_key (\<lambda>l. - lo_created_at l)
       (filter (\<lambda>l. lo_user_id l = user_id \<and> (include_deleted \<or> lo_deleted_at l = None)) loras)"

definition count_active_user_loras :: "string \<Rightarrow> user_lora list \<Rightarrow> nat" where
  "count_active_user_loras user_id loras =
     length (filter (\<lambda>l. lo_user_id l = user_id \<and> lo_deleted_at l = None) loras)"

record lora_update =
  lu_status :: "lora_status option"
  lu_storage_path :: "string option"
  lu_tensor_path :: "string option"
  lu_training_job_id :: "string option"
  lu_error :: "string option"
  lu_completed_at :: "timestamp option"
  lu_model_mode :: "string option"
  lu_clear_error :: bool

definition no_update :: lora_update where
  "no_update = \<lparr>lu_status = None, lu_storage_path = None, lu_tensor_path = None, lu_training_job_id = None,
     lu_error = None, lu_completed_at = None, lu_model_mode = None, lu_clear_error = False\<rparr>"

definition or_else :: "'a option \<Rightarrow> 'a \<Rightarrow> 'a" where
  "or_else new old = (case new of None \<Rightarrow> old | Some x \<Rightarrow> x)"

definition or_kept :: "'a option \<Rightarrow> 'a option \<Rightarrow> 'a option" where
  "or_kept new old = (case new of None \<Rightarrow> old | Some x \<Rightarrow> Some x)"

definition write_lora :: "lora_update \<Rightarrow> user_lora \<Rightarrow> user_lora" where
  "write_lora u l =
     l\<lparr>lo_status := or_else (lu_status u) (lo_status l),
       lo_storage_path := or_kept (lu_storage_path u) (lo_storage_path l),
       lo_tensor_path := or_kept (lu_tensor_path u) (lo_tensor_path l),
       lo_training_job_id := or_kept (lu_training_job_id u) (lo_training_job_id l),
       lo_error := (case lu_error u of Some e \<Rightarrow> Some e | None \<Rightarrow> if lu_clear_error u then None else lo_error l),
       lo_completed_at := or_kept (lu_completed_at u) (lo_completed_at l),
       lo_model_mode := or_else (lu_model_mode u) (lo_model_mode l)\<rparr>"

definition update_user_lora ::
    "string \<Rightarrow> lora_update \<Rightarrow> user_lora list \<Rightarrow> (lora_row_error + unit) \<times> user_lora list" where
  "update_user_lora lora_id u loras =
     (case get_lora lora_id loras of
        None \<Rightarrow> (Inl (Lora_Value_Error (''UserLora not found: '' @ lora_id)), loras)
      | Some _ \<Rightarrow>
          (case lu_model_mode u of
             Some mode \<Rightarrow>
               if mode \<notin> LORA_TRAINING_MODEL_MODES
               then (Inl (Lora_Value_Error (''Unsupported LoRA training model mode: '' @ mode)), loras)
               else (Inr (), table_update lo_id lora_id (write_lora u) loras)
           | None \<Rightarrow> (Inr (), table_update lo_id lora_id (write_lora u) loras)))"

definition soft_delete_user_lora ::
    "string \<Rightarrow> timestamp \<Rightarrow> user_lora list \<Rightarrow> (lora_row_error + timestamp) \<times> user_lora list" where
  "soft_delete_user_lora lora_id now loras =
     (case get_lora lora_id loras of
        None \<Rightarrow> (Inl (Lora_Value_Error (''UserLora not found: '' @ lora_id)), loras)
      | Some _ \<Rightarrow> (Inr now, table_update lo_id lora_id (\<lambda>l. l\<lparr>lo_deleted_at := Some now\<rparr>) loras))"

text \<open>A voice in training whose job is missing or over.\<close>

definition active_lora :: "user_lora \<Rightarrow> bool" where
  "active_lora l \<longleftrightarrow> lo_status l \<in> LORA_ACTIVE_STATUSES \<and> lo_deleted_at l = None"

definition reconcilable :: "jobs \<Rightarrow> user_lora \<Rightarrow> bool" where
  "reconcilable jobs l \<longleftrightarrow> active_lora l \<and>
     (case lo_training_job_id l of
        None \<Rightarrow> True
      | Some jid \<Rightarrow> (case get_row jid jobs of None \<Rightarrow> True | Some j \<Rightarrow> j_status j \<in> JOB_TERMINAL_STATUSES))"

definition list_active_user_loras :: "user_lora list \<Rightarrow> user_lora list" where
  "list_active_user_loras loras = filter active_lora loras"

text \<open>The call with \<open>reconcilable_only\<close>; rows locked by another process are skipped, so \<open>locked\<close> names those.\<close>

definition list_reconcilable_loras :: "string set \<Rightarrow> string set \<Rightarrow> jobs \<Rightarrow> user_lora list \<Rightarrow> user_lora list" where
  "list_reconcilable_loras locked excluded_ids jobs loras =
     sort_key lo_id (filter (\<lambda>l. reconcilable jobs l \<and> lo_id l \<notin> excluded_ids \<and> lo_id l \<notin> locked) loras)"

subsection \<open>Samples\<close>

record lora_sample =
  sa_id :: string
  sa_lora_id :: string
  sa_audio_path :: string
  sa_caption :: string
  sa_lyrics :: string
  sa_position :: int

definition count_user_lora_samples :: "string \<Rightarrow> lora_sample list \<Rightarrow> nat" where
  "count_user_lora_samples lora_id samples = length (filter (\<lambda>s. sa_lora_id s = lora_id) samples)"

definition add_user_lora_sample ::
    "string \<Rightarrow> string \<Rightarrow> string \<Rightarrow> string \<Rightarrow> string \<Rightarrow> int option \<Rightarrow> lora_sample list \<Rightarrow> lora_sample list" where
  "add_user_lora_sample uuid lora_id audio_path caption lyrics position samples =
     samples @ [\<lparr>sa_id = uuid, sa_lora_id = lora_id, sa_audio_path = audio_path, sa_caption = caption, sa_lyrics = lyrics,
       sa_position = (case position of None \<Rightarrow> int (count_user_lora_samples lora_id samples) | Some p \<Rightarrow> p)\<rparr>]"

text \<open>\<open>order_by(position)\<close>; rows of equal position keep the order of the table.\<close>

definition samples_of :: "string \<Rightarrow> lora_sample list \<Rightarrow> lora_sample list" where
  "samples_of lora_id samples = sort_key sa_position (filter (\<lambda>s. sa_lora_id s = lora_id) samples)"

text \<open>\<open>for idx, s in enumerate(ordered): s.position = idx\<close>.\<close>

fun renumber_samples :: "int \<Rightarrow> lora_sample list \<Rightarrow> lora_sample list \<Rightarrow> lora_sample list" where
  "renumber_samples idx [] samples = samples"
| "renumber_samples idx (s # ordered) samples =
     renumber_samples (idx + 1) ordered
       (table_update sa_id (sa_id s) (\<lambda>r. r\<lparr>sa_position := idx\<rparr>) samples)"

definition reorder_sample :: "lora_sample \<Rightarrow> int \<Rightarrow> lora_sample list \<Rightarrow> lora_sample list" where
  "reorder_sample sample new_position samples =
     (let siblings = samples_of (sa_lora_id sample) samples;
          ordered = filter (\<lambda>s. sa_id s \<noteq> sa_id sample) siblings;
          target = nat (max 0 (min new_position (int (length ordered))))
      in renumber_samples 0 (take target ordered @ sample # drop target ordered) samples)"

definition update_user_lora_sample ::
    "string \<Rightarrow> string option \<Rightarrow> string option \<Rightarrow> int option \<Rightarrow> lora_sample list
     \<Rightarrow> (lora_row_error + unit) \<times> lora_sample list" where
  "update_user_lora_sample sample_id caption lyrics position samples =
     (case table_get sa_id sample_id samples of
        None \<Rightarrow> (Inl (Lora_Value_Error (''UserLoraSample not found: '' @ sample_id)), samples)
      | Some _ \<Rightarrow>
          (let samples' = table_update sa_id sample_id
                 (\<lambda>s. s\<lparr>sa_caption := or_else caption (sa_caption s), sa_lyrics := or_else lyrics (sa_lyrics s)\<rparr>) samples
           in case (position, table_get sa_id sample_id samples') of
                (Some p, Some s) \<Rightarrow> (Inr (), reorder_sample s p samples')
              | _ \<Rightarrow> (Inr (), samples')))"

definition delete_user_lora_sample ::
    "string \<Rightarrow> lora_sample list \<Rightarrow> (lora_row_error + string) \<times> lora_sample list" where
  "delete_user_lora_sample sample_id samples =
     (case table_get sa_id sample_id samples of
        None \<Rightarrow> (Inl (Lora_Value_Error (''UserLoraSample not found: '' @ sample_id)), samples)
      | Some s \<Rightarrow>
          (let samples' = filter (\<lambda>r. sa_id r \<noteq> sample_id) samples
           in (Inr (sa_audio_path s), renumber_samples 0 (samples_of (sa_lora_id s) samples') samples')))"

subsection \<open>Facts\<close>

lemma write_lora_id [simp]: "lo_id (write_lora u l) = lo_id l" "lo_user_id (write_lora u l) = lo_user_id l"
  by (simp_all add: write_lora_def)

lemma get_write_lora:
  "get_lora k (table_update lo_id lid (write_lora u) loras) =
     (if k = lid then map_option (write_lora u) (get_lora lid loras) else get_lora k loras)"
  by (induction loras) (auto simp: table_get_def table_update_def)

end
