(* ===== verification/Job_Messages.thy ===== *)
theory Job_Messages
  imports Prelude
begin

text \<open>The messages of failed jobs (\<open>constants.py\<close>, \<open>jobs/_runtime.py\<close>).\<close>

definition JOB_ERROR_AUDIO_DOWNLOAD_FAILED :: string where
  "JOB_ERROR_AUDIO_DOWNLOAD_FAILED = ''Failed to download generated audio''"
definition JOB_ERROR_SERVER_UNREACHABLE :: string where
  "JOB_ERROR_SERVER_UNREACHABLE = ''ACE-Step server not reachable''"
definition JOB_ERROR_GENERATION_TIMED_OUT :: string where
  "JOB_ERROR_GENERATION_TIMED_OUT = ''Generation timed out''"
definition JOB_ERROR_NO_WORKERS :: string where
  "JOB_ERROR_NO_WORKERS = ''No ACE-Step workers available''"
definition JOB_ERROR_GENERATION_UNAVAILABLE :: string where
  "JOB_ERROR_GENERATION_UNAVAILABLE = ''Generating isn't available right now.''"
definition JOB_ERROR_GPU_OUT_OF_MEMORY :: string where
  "JOB_ERROR_GPU_OUT_OF_MEMORY = ''Too long for the GPU right now '' @ em_dash @ '' try a shorter duration.''"
definition JOB_ERROR_GENERATION_FAILED :: string where
  "JOB_ERROR_GENERATION_FAILED = ''Generating failed '' @ em_dash @ '' try again.''"
definition JOB_ERROR_WORKER_TRAINING_FAILED :: string where
  "JOB_ERROR_WORKER_TRAINING_FAILED = ''Worker training failed''"
definition JOB_ERROR_INTERNAL :: string where
  "JOB_ERROR_INTERNAL = ''Internal error during processing''"
definition JOB_ERROR_UNEXPECTED :: string where
  "JOB_ERROR_UNEXPECTED = ''An unexpected error occurred''"
definition JOB_ERROR_SONG_NOT_FOUND :: string where
  "JOB_ERROR_SONG_NOT_FOUND = ''Song not found''"
definition JOB_ERROR_VERSION_NOT_FOUND :: string where
  "JOB_ERROR_VERSION_NOT_FOUND = ''Version not found''"
definition JOB_ERROR_REFERENCE_AUDIO_NOT_FOUND :: string where
  "JOB_ERROR_REFERENCE_AUDIO_NOT_FOUND = ''Reference audio not found''"
definition JOB_ERROR_USER_LORA_UNAVAILABLE :: string where
  "JOB_ERROR_USER_LORA_UNAVAILABLE = ''Selected voice is unavailable for this generation''"
definition JOB_ERROR_REFERENCE_DELETED_DURING_TAKE :: string where
  "JOB_ERROR_REFERENCE_DELETED_DURING_TAKE = ''The reference track was deleted while this take was generating.''"
definition JOB_ERROR_GENERATION_CANCELLED :: string where
  "JOB_ERROR_GENERATION_CANCELLED = ''Job cancelled: exceeded ARQ_JOB_TIMEOUT or worker shutdown''"

lemmas job_error_defs = JOB_ERROR_AUDIO_DOWNLOAD_FAILED_def JOB_ERROR_SERVER_UNREACHABLE_def
  JOB_ERROR_GENERATION_TIMED_OUT_def JOB_ERROR_NO_WORKERS_def JOB_ERROR_GENERATION_UNAVAILABLE_def
  JOB_ERROR_GPU_OUT_OF_MEMORY_def JOB_ERROR_GENERATION_FAILED_def JOB_ERROR_INTERNAL_def
  JOB_ERROR_UNEXPECTED_def JOB_ERROR_SONG_NOT_FOUND_def JOB_ERROR_VERSION_NOT_FOUND_def
  JOB_ERROR_REFERENCE_AUDIO_NOT_FOUND_def JOB_ERROR_USER_LORA_UNAVAILABLE_def
  JOB_ERROR_REFERENCE_DELETED_DURING_TAKE_def JOB_ERROR_GENERATION_CANCELLED_def

end
