(* ===== verification/Job_Runtime.thy ===== *)
theory Job_Runtime
  imports Scheduler Job_Store Lora_Rows Effects Job_Messages
begin

text \<open>
  What the background jobs share (\<open>jobs/_runtime.py\<close>): the exceptions they meet, status updates with one
  retry, heartbeats, and the messages an exception is replaced by.  \<open>job_exn\<close> lists the exception classes
  the handlers and tables tell apart; \<open>isinstance\<close> is a predicate on it.  A session is one effect: it
  commits as a whole, or raises, or the process dies in it.
\<close>

datatype job_exn =
    Cancelled
  | Sched_Failed sched_error
  | Setup_Error string
  | Reference_Deleted string
  | Audio_Download_Error string
  | Connection_Error string
  | Timeout_Error string
  | Runtime_Error string
  | Generation_Error string
  | Value_Error string
  | Previous_Restored "string option"
  | Mode_Unsupported string
  | Mode_Mismatch string
  | Row_Error lora_row_error
  | Http_Failed
  | Redis_Failed
  | Db_Error
  | OS_Error

abbreviation task_failed :: "string \<Rightarrow> job_exn" where
  "task_failed m \<equiv> Sched_Failed (WorkerTaskFailed m)"

record job_world = world +
  jw_jobs :: jobs
  jw_now :: timestamp

subsection \<open>The row of the job\<close>

definition job_is_terminal :: "string \<Rightarrow> jobs \<Rightarrow> bool" where
  "job_is_terminal job_id jobs \<longleftrightarrow> (case get_job job_id jobs of None \<Rightarrow> True | Some j \<Rightarrow> terminal j)"

definition update_job_once :: "string \<Rightarrow> job_status_update \<Rightarrow> ('z job_world_scheme, job_exn, bool) prog" where
  "update_job_once job_id u = effect Db_Error (\<lambda>w.
     (case update_job_status job_id u (jw_now w) (jw_jobs w) of
        (applied, jobs) \<Rightarrow> (Inr applied, w\<lparr>jw_jobs := jobs\<rparr>)))"

definition update_job :: "string \<Rightarrow> job_status_update \<Rightarrow> ('z job_world_scheme, job_exn, bool) prog" where
  "update_job job_id u =
     attempt (update_job_once job_id u) (\<lambda>_.
       attempt (update_job_once job_id u) (\<lambda>_.
         throw (Runtime_Error (''Job '' @ job_id @ '' status update failed after 2 attempts''))))"

definition failed_update :: "string \<Rightarrow> string \<Rightarrow> job_status_update" where
  "failed_update error error_type =
     (status_update FAILED)\<lparr>u_error := Some error, u_error_type := Some error_type\<rparr>"

definition touch_heartbeat :: "string \<Rightarrow> ('z job_world_scheme, job_exn, unit) prog" where
  "touch_heartbeat job_id =
     attempt (change Db_Error (\<lambda>w. w\<lparr>jw_jobs := update_job_heartbeat job_id (jw_now w) (jw_jobs w)\<rparr>)) (\<lambda>_. give ())"

subsection \<open>Exception classes\<close>

fun is_generation_setup_error :: "job_exn \<Rightarrow> bool" where
  "is_generation_setup_error (Setup_Error m) = True"
| "is_generation_setup_error (Reference_Deleted m) = True"
| "is_generation_setup_error _ = False"

fun sched_task_failed :: "sched_error \<Rightarrow> bool" where
  "sched_task_failed (WorkerTaskFailed m) = True"
| "sched_task_failed (WorkerGenerationFailed m) = True"
| "sched_task_failed (WorkerGpuOutOfMemory m) = True"
| "sched_task_failed (WorkerGenerationUnavailable m) = True"
| "sched_task_failed (WorkerModeNotLoaded m) = True"
| "sched_task_failed (WorkerProtocolError m) = True"
| "sched_task_failed _ = False"

fun is_worker_task_failed :: "job_exn \<Rightarrow> bool" where
  "is_worker_task_failed (Sched_Failed e) = sched_task_failed e"
| "is_worker_task_failed _ = False"

fun is_no_capacity :: "job_exn \<Rightarrow> bool" where
  "is_no_capacity (Sched_Failed (NoCapacityError m)) = True"
| "is_no_capacity _ = False"

text \<open>\<open>NoCapacityError\<close>, \<open>AllWorkersHeld\<close> and the worker's failures are \<open>RuntimeError\<close>s.\<close>

fun is_runtime_error :: "job_exn \<Rightarrow> bool" where
  "is_runtime_error (Runtime_Error m) = True"
| "is_runtime_error (Sched_Failed (NoCapacityError m)) = True"
| "is_runtime_error (Sched_Failed (AllWorkersHeld m)) = True"
| "is_runtime_error (Sched_Failed e) = sched_task_failed e"
| "is_runtime_error _ = False"

fun sched_text :: "sched_error \<Rightarrow> string" where
  "sched_text (NoCapacityError m) = m"
| "sched_text (AllWorkersHeld m) = m"
| "sched_text (WorkerTaskFailed m) = m"
| "sched_text (WorkerGenerationFailed m) = m"
| "sched_text (WorkerGpuOutOfMemory m) = m"
| "sched_text (WorkerGenerationUnavailable m) = m"
| "sched_text (WorkerModeNotLoaded m) = m"
| "sched_text (WorkerProtocolError m) = m"
| "sched_text (HttpxError e) = httpx_text e"
| "sched_text (UnexpectedError m) = m"

text \<open>\<open>str(exc)\<close>, where the tables look at it.\<close>

fun exn_text :: "job_exn \<Rightarrow> string" where
  "exn_text (Sched_Failed e) = sched_text e"
| "exn_text (Setup_Error m) = m"
| "exn_text (Reference_Deleted m) = m"
| "exn_text _ = []"

subsection \<open>The stored message\<close>

definition GENERATION_SETUP_MESSAGES :: "string set" where
  "GENERATION_SETUP_MESSAGES = {JOB_ERROR_SONG_NOT_FOUND, JOB_ERROR_VERSION_NOT_FOUND,
     JOB_ERROR_REFERENCE_AUDIO_NOT_FOUND, JOB_ERROR_REFERENCE_DELETED_DURING_TAKE, JOB_ERROR_USER_LORA_UNAVAILABLE}"

definition USER_FACING_ERRORS :: "((job_exn \<Rightarrow> bool) \<times> string) list" where
  "USER_FACING_ERRORS =
     [(\<lambda>e. case e of Audio_Download_Error _ \<Rightarrow> True | _ \<Rightarrow> False, JOB_ERROR_AUDIO_DOWNLOAD_FAILED),
      (\<lambda>e. case e of Connection_Error _ \<Rightarrow> True | _ \<Rightarrow> False, JOB_ERROR_SERVER_UNREACHABLE),
      (\<lambda>e. case e of Timeout_Error _ \<Rightarrow> True | _ \<Rightarrow> False, JOB_ERROR_GENERATION_TIMED_OUT),
      (is_no_capacity, JOB_ERROR_NO_WORKERS),
      (is_runtime_error, JOB_ERROR_INTERNAL)]"

definition generation_error_messages :: "string set" where
  "generation_error_messages =
     GENERATION_SETUP_MESSAGES \<union> {JOB_ERROR_UNEXPECTED} \<union> set (map snd USER_FACING_ERRORS)"

fun first_message :: "((job_exn \<Rightarrow> bool) \<times> string) list \<Rightarrow> job_exn \<Rightarrow> string" where
  "first_message [] e = JOB_ERROR_UNEXPECTED"
| "first_message ((is_type, message) # table) e = (if is_type e then message else first_message table e)"

definition default_error_message :: "job_exn \<Rightarrow> string" where
  "default_error_message e = first_message USER_FACING_ERRORS e"

definition sanitize_generation_setup_error :: "job_exn \<Rightarrow> string" where
  "sanitize_generation_setup_error e =
     (if exn_text e \<in> GENERATION_SETUP_MESSAGES then exn_text e else JOB_ERROR_UNEXPECTED)"

definition sanitize_error :: "job_exn \<Rightarrow> string" where
  "sanitize_error e =
     (if is_worker_task_failed e then exn_text e
      else if is_generation_setup_error e then sanitize_generation_setup_error e
      else default_error_message e)"

end
