(* ===== verification/Lora_Training.thy ===== *)
theory Lora_Training
  imports Job_Runtime Audio_Paths
begin

text \<open>
  Adopting a trained voice (\<open>jobs/lora_training.py\<close>): the worker leaves the new adapter in a
  temporary directory, the job records the mode it was trained in, swaps the directories and marks
  the voice ready; a job that fails or is killed on the way is cleaned up or completed later by
  \<open>reconcile_crashed_loras\<close>.  The directory of one voice is a map from the six names the code uses to
  what is there; every file operation and every commit is an effect that may fail or be the last
  one of the process.  \<open>rmtree\<close> and \<open>write_text\<close> are two effects each, so they can stop half way.
  A directory that an interrupted \<open>rmtree\<close> leaves is not empty.  Log lines are left out, and so are the
  paths and statuses printed inside messages that only a log shows.
\<close>

datatype lora_place = Final_Dir | Previous_Dir | Training_Tmp | Dataset_Dir | Mode_File | Mode_File_New

text \<open>
  An adapter is known by the mode it was trained in, a dataset by its files, linked audio and written
  text; a mode record holds a job id and a mode.
\<close>

datatype dataset_file = Audio_Link "string list" | Text_File string

datatype lora_node =
  Adapter string | Dataset "(string, dataset_file) dict" | Broken_Dir | Mode_Record string string | Junk_File

type_synonym lora_files = "lora_place \<Rightarrow> lora_node option"

type_synonym voice_key = "string \<times> string"   \<comment> \<open>user id and voice id, the two directories above the six names\<close>

record lora_world = job_world +
  lw_loras :: "user_lora list"
  lw_audit :: "(string \<times> string \<times> string) list"
  lw_files :: "voice_key \<Rightarrow> lora_files"

type_synonym 'a lora_prog = "(lora_world, job_exn, 'a) prog"

definition is_dir :: "lora_node option \<Rightarrow> bool" where
  "is_dir n = (case n of Some (Adapter _) \<Rightarrow> True | Some (Dataset _) \<Rightarrow> True | Some Broken_Dir \<Rightarrow> True | _ \<Rightarrow> False)"

definition put_node :: "voice_key \<Rightarrow> lora_place \<Rightarrow> lora_node option \<Rightarrow> lora_world \<Rightarrow> lora_world" where
  "put_node key p n w = w\<lparr>lw_files := (lw_files w)(key := (lw_files w key)(p := n))\<rparr>"

subsection \<open>Files\<close>

text \<open>\<open>os.rename\<close>: a directory does not replace a directory that is not empty, nor a file; a file does not
  replace a directory.\<close>

definition blocked :: "lora_node option \<Rightarrow> lora_node option \<Rightarrow> bool" where
  "blocked src dst \<longleftrightarrow> dst \<noteq> None \<and> (is_dir src \<or> is_dir dst)"

definition rename :: "voice_key \<Rightarrow> lora_place \<Rightarrow> lora_place \<Rightarrow> unit lora_prog" where
  "rename key src dst = effect OS_Error (\<lambda>w.
     (let F = lw_files w key
      in if F src = None \<or> blocked (F src) (F dst) then (Inl OS_Error, w)
         else (Inr (), put_node key src None (put_node key dst (F src) w))))"

definition rmtree :: "voice_key \<Rightarrow> lora_place \<Rightarrow> unit lora_prog" where
  "rmtree key p =
     seq_p (effect OS_Error (\<lambda>w. if is_dir (lw_files w key p) then (Inr (), put_node key p (Some Broken_Dir) w)
                                 else (Inl OS_Error, w)))
           (change OS_Error (put_node key p None))"

definition unlink_missing_ok :: "voice_key \<Rightarrow> lora_place \<Rightarrow> unit lora_prog" where
  "unlink_missing_ok key p = effect OS_Error (\<lambda>w.
     if \<not> is_dir (lw_files w key p) then (Inr (), put_node key p None w) else (Inl OS_Error, w))"

definition write_text :: "voice_key \<Rightarrow> lora_place \<Rightarrow> lora_node \<Rightarrow> unit lora_prog" where
  "write_text key p n =
     seq_p (effect OS_Error (\<lambda>w. if \<not> is_dir (lw_files w key p) then (Inr (), put_node key p (Some Junk_File) w)
                                 else (Inl OS_Error, w)))
           (change OS_Error (put_node key p (Some n)))"

text \<open>\<open>try ... except OSError\<close> around a step whose failure is only logged.\<close>

definition suppress_os :: "unit lora_prog \<Rightarrow> unit lora_prog" where
  "suppress_os p = attempt p (\<lambda>e. if e = OS_Error then give () else throw e)"

subsection \<open>Database\<close>

definition row_result :: "(lora_row_error + 'a) \<Rightarrow> job_exn + 'a" where
  "row_result r = (case r of Inl e \<Rightarrow> Inl (Row_Error e) | Inr x \<Rightarrow> Inr x)"

text \<open>A session that updates a voice, writes its audit entry if there is one, and commits.\<close>

definition commit_lora ::
    "string \<Rightarrow> lora_update \<Rightarrow> (string \<times> string \<times> string) list \<Rightarrow> unit lora_prog" where
  "commit_lora lora_id u audit = effect Db_Error (\<lambda>w.
     (case update_user_lora lora_id u (lw_loras w) of
        (Inl e, _) \<Rightarrow> (Inl (Row_Error e), w)
      | (Inr x, loras) \<Rightarrow> (Inr x, w\<lparr>lw_loras := loras, lw_audit := lw_audit w @ audit\<rparr>)))"

subsection \<open>The record of a completed training\<close>

definition record_completed_training_model_mode :: "voice_key \<Rightarrow> string \<Rightarrow> string \<Rightarrow> unit lora_prog" where
  "record_completed_training_model_mode key job_id model_mode =
     ensuring (seq_p (write_text key Mode_File_New (Mode_Record job_id model_mode)) (rename key Mode_File_New Mode_File))
       (unlink_missing_ok key Mode_File_New)"

definition read_completed_training_model_mode :: "lora_files \<Rightarrow> job_exn + (string \<times> string) option" where
  "read_completed_training_model_mode F =
     (case F Mode_File of
        None \<Rightarrow> Inr None
      | Some (Mode_Record job_id model_mode) \<Rightarrow>
          if model_mode \<notin> LORA_TRAINING_MODEL_MODES
          then Inl (Value_Error ''Completed LoRA training recorded invalid model mode'')
          else Inr (Some (job_id, model_mode))
      | Some Junk_File \<Rightarrow> Inl (Value_Error ''Completed LoRA training mode record is invalid'')
      | Some _ \<Rightarrow> Inl OS_Error)"

definition clear_completed_training_model_mode :: "voice_key \<Rightarrow> unit lora_prog" where
  "clear_completed_training_model_mode key = suppress_os (unlink_missing_ok key Mode_File)"

text \<open>\<open>py_repr\<close> is Python's \<open>repr\<close> of a string.\<close>

definition validate_completed_training_model_mode ::
    "(string \<Rightarrow> string) \<Rightarrow> string \<Rightarrow> string \<Rightarrow> job_exn + string" where
  "validate_completed_training_model_mode py_repr requested_mode worker_mode =
     (if worker_mode \<notin> LORA_TRAINING_MODEL_MODES
      then Inl (Mode_Unsupported (''Worker completed LoRA training with unsupported model mode: '' @ py_repr worker_mode))
      else if worker_mode \<noteq> requested_mode
      then Inl (Mode_Mismatch (''Worker completed LoRA training with model mode '' @ py_repr worker_mode
                  @ '', expected '' @ py_repr requested_mode))
      else Inr worker_mode)"

definition completed_model_mode_for_lora :: "lora_files \<Rightarrow> string option \<Rightarrow> job_exn + string option" where
  "completed_model_mode_for_lora F training_job_id =
     (case read_completed_training_model_mode F of
        Inl e \<Rightarrow> Inl e
      | Inr None \<Rightarrow> Inr None
      | Inr (Some (job_id, model_mode)) \<Rightarrow> if Some job_id = training_job_id then Inr (Some model_mode) else Inr None)"

definition lift_sum :: "job_exn + 'a \<Rightarrow> 'a lora_prog" where
  "lift_sum r = (case r of Inl e \<Rightarrow> throw e | Inr x \<Rightarrow> give x)"

subsection \<open>Clean-up after a failure\<close>

text \<open>One path: what could not be removed is reported, and the loop goes on.\<close>

definition remove_working_path :: "voice_key \<Rightarrow> lora_place \<Rightarrow> bool lora_prog" where
  "remove_working_path key p =
     attempt (reading (\<lambda>w. if lw_files w key p = None then give True
                           else if is_dir (lw_files w key p) then seq_p (rmtree key p) (give True)
                           else seq_p (unlink_missing_ok key p) (give True)))
       (\<lambda>e. if e = OS_Error then give False else throw e)"

primrec remove_working_paths :: "voice_key \<Rightarrow> lora_place list \<Rightarrow> bool \<Rightarrow> bool lora_prog" where
  "remove_working_paths key [] cleanly = give cleanly"
| "remove_working_paths key (p # ps) cleanly =
     bind_p (remove_working_path key p) (\<lambda>ok. remove_working_paths key ps (cleanly \<and> ok))"

definition cleanup_failed_lora_paths :: "voice_key \<Rightarrow> bool lora_prog" where
  "cleanup_failed_lora_paths key =
     remove_working_paths key [Dataset_Dir, Training_Tmp, Mode_File, Mode_File_New] True"

definition failed_lora :: "string \<Rightarrow> timestamp \<Rightarrow> lora_update" where
  "failed_lora error_message now =
     no_update\<lparr>lu_status := Some L_Failed, lu_error := Some error_message, lu_completed_at := Some now\<rparr>"

definition cleanup_failed_lora :: "voice_key \<Rightarrow> string \<Rightarrow> unit lora_prog" where
  "cleanup_failed_lora key error_message = reading (\<lambda>w.
     commit_lora (snd key) (failed_lora error_message (jw_now w))
       [(fst key, snd key, ''failed: '' @ error_message)])"

definition cleanup_failed_lora_with_factory :: "voice_key \<Rightarrow> string \<Rightarrow> unit lora_prog" where
  "cleanup_failed_lora_with_factory key error_message =
     seq_p (cleanup_failed_lora key error_message)
       (seq_p (cleanup_failed_lora_paths key) (give ()))"

subsection \<open>Adopting the new adapter\<close>

definition USER_LORAS_DIRNAME :: string where "USER_LORAS_DIRNAME = ''user_loras''"
definition USER_LORA_OUTPUT_DIRNAME :: string where "USER_LORA_OUTPUT_DIRNAME = ''lora''"
definition USER_LORA_TRAINING_TMP_DIRNAME :: string where "USER_LORA_TRAINING_TMP_DIRNAME = ''training_tmp''"

definition lora_root :: "string list \<Rightarrow> voice_key \<Rightarrow> string list" where
  "lora_root audio_dir key = audio_dir @ [USER_LORAS_DIRNAME, fst key, snd key]"

definition storage_rel :: "voice_key \<Rightarrow> string" where
  "storage_rel key = as_posix [USER_LORAS_DIRNAME, fst key, snd key, USER_LORA_OUTPUT_DIRNAME]"

record train_result =
  tr_mode :: string
  tr_adapter_dir :: string
  tr_num_samples :: int

definition validated_lora_adapter_handoff ::
    "string list \<Rightarrow> string list \<Rightarrow> voice_key \<Rightarrow> string \<Rightarrow> lora_files \<Rightarrow> job_exn + unit" where
  "validated_lora_adapter_handoff cwd audio_dir key reported F =
     (let tmp_output = lora_root audio_dir key @ [USER_LORA_TRAINING_TMP_DIRNAME]
      in case confined_under (audio_dir @ [USER_LORAS_DIRNAME, fst key]) (path_join cwd reported) of
           None \<Rightarrow> Inl (Runtime_Error (''Worker reported unexpected training handoff path: '' @ reported))
         | Some adapter_src \<Rightarrow>
             if adapter_src \<noteq> resolve_path tmp_output
             then Inl (Runtime_Error (''Worker reported unexpected training handoff path: '' @ reported))
             else if \<not> is_dir (F Training_Tmp)
             then Inl (Runtime_Error ''Worker reported adapter but it is not a directory'')
             else Inr ())"

text \<open>The row's mode is overwritten; the old one is the result.\<close>

definition save_lora_model_mode :: "string \<Rightarrow> string \<Rightarrow> string lora_prog" where
  "save_lora_model_mode lora_id completed_model_mode = reading (\<lambda>w.
     (case get_lora lora_id (lw_loras w) of
        None \<Rightarrow> throw (Runtime_Error (''LoRA disappeared before adapter adoption: '' @ lora_id))
      | Some l \<Rightarrow> seq_p (commit_lora lora_id (no_update\<lparr>lu_model_mode := Some completed_model_mode\<rparr>) [])
                    (give (lo_model_mode l))))"

definition require_lora_adapter_directory :: "lora_node option \<Rightarrow> string \<Rightarrow> unit lora_prog" where
  "require_lora_adapter_directory n description =
     (if n \<noteq> None \<and> \<not> is_dir n then throw (Runtime_Error (description @ '' path is not a directory'')) else give ())"

definition stage_current_lora_adapter :: "voice_key \<Rightarrow> unit lora_prog" where
  "stage_current_lora_adapter key = reading (\<lambda>w.
     (let F = lw_files w key
      in if F Previous_Dir \<noteq> None
         then throw (Runtime_Error ''Previous LoRA adapter handoff is still pending'')
         else if F Final_Dir \<noteq> None
         then seq_p (require_lora_adapter_directory (F Final_Dir) ''LoRA adapter'') (rename key Final_Dir Previous_Dir)
         else give ()))"

definition move_lora_adapter :: "voice_key \<Rightarrow> string option \<Rightarrow> unit lora_prog" where
  "move_lora_adapter key previous_model_mode =
     attempt (rename key Training_Tmp Final_Dir) (\<lambda>e.
       if e \<noteq> OS_Error then throw e
       else reading (\<lambda>w.
         (let F = lw_files w key
          in if F Final_Dir = None \<and> is_dir (F Previous_Dir)
             then seq_p (rename key Previous_Dir Final_Dir) (throw (Previous_Restored previous_model_mode))
             else throw e)))"

definition replace_lora_adapter :: "voice_key \<Rightarrow> string option \<Rightarrow> unit lora_prog" where
  "replace_lora_adapter key previous_model_mode =
     seq_p (stage_current_lora_adapter key) (move_lora_adapter key previous_model_mode)"

definition remove_replaced_lora_paths :: "voice_key \<Rightarrow> unit lora_prog" where
  "remove_replaced_lora_paths key =
     seq_p (reading (\<lambda>w. if lw_files w key Previous_Dir \<noteq> None then suppress_os (rmtree key Previous_Dir) else give ()))
       (suppress_os (rmtree key Dataset_Dir))"

definition ready_lora :: "voice_key \<Rightarrow> string option \<Rightarrow> timestamp option \<Rightarrow> lora_update" where
  "ready_lora key model_mode completed_at =
     no_update\<lparr>lu_status := Some L_Ready, lu_storage_path := Some (storage_rel key),
       lu_completed_at := completed_at, lu_model_mode := model_mode, lu_clear_error := True\<rparr>"

definition mark_lora_training_complete :: "voice_key \<Rightarrow> string \<Rightarrow> string \<Rightarrow> string \<Rightarrow> unit lora_prog" where
  "mark_lora_training_complete key job_id completed_model_mode sample_count =
     seq_p (reading (\<lambda>w. commit_lora (snd key) (ready_lora key (Some completed_model_mode) (Some (jw_now w)))
              [(fst key, snd key, ''ready: samples='' @ sample_count)]))
       (seq_p (update_job job_id ((status_update COMPLETED)\<lparr>u_progress := 1\<rparr>)) (give ()))"

text \<open>\<open>show_samples\<close> prints the number of samples.\<close>

definition complete_lora_training ::
    "(string \<Rightarrow> string) \<Rightarrow> (int \<Rightarrow> string) \<Rightarrow> string list \<Rightarrow> string list \<Rightarrow> voice_key \<Rightarrow> string \<Rightarrow> string \<Rightarrow> train_result
     \<Rightarrow> unit lora_prog" where
  "complete_lora_training py_repr show_samples cwd audio_dir key job_id target_mode worker_result =
     bind_p (lift_sum (validate_completed_training_model_mode py_repr target_mode (tr_mode worker_result))) (\<lambda>completed_model_mode.
     seq_p (reading (\<lambda>w. lift_sum (validated_lora_adapter_handoff cwd audio_dir key (tr_adapter_dir worker_result) (lw_files w key))))
    (seq_p (record_completed_training_model_mode key job_id completed_model_mode)
    (bind_p (save_lora_model_mode (snd key) completed_model_mode) (\<lambda>previous_model_mode.
     seq_p (replace_lora_adapter key (Some previous_model_mode))
    (seq_p (remove_replaced_lora_paths key)
    (seq_p (clear_completed_training_model_mode key)
       (mark_lora_training_complete key job_id completed_model_mode (show_samples (tr_num_samples worker_result)))))))))"

subsection \<open>How a job ends when it fails\<close>

definition sanitize_training_error :: "job_exn \<Rightarrow> string" where
  "sanitize_training_error e =
     (case e of
        Mode_Unsupported m \<Rightarrow> m
      | Mode_Mismatch m \<Rightarrow> m
      | Sched_Failed (WorkerTaskFailed _) \<Rightarrow> JOB_ERROR_WORKER_TRAINING_FAILED
      | Sched_Failed (NoCapacityError _) \<Rightarrow> JOB_ERROR_NO_WORKERS
      | Runtime_Error _ \<Rightarrow> JOB_ERROR_INTERNAL
      | Previous_Restored _ \<Rightarrow> JOB_ERROR_INTERNAL
      | Sched_Failed (AllWorkersHeld _) \<Rightarrow> JOB_ERROR_INTERNAL
      | _ \<Rightarrow> JOB_ERROR_UNEXPECTED)"

definition fail_lora_training :: "voice_key \<Rightarrow> string \<Rightarrow> job_exn \<Rightarrow> string \<Rightarrow> unit lora_prog" where
  "fail_lora_training key job_id e error_type =
     seq_p (cleanup_failed_lora_with_factory key (sanitize_training_error e))
       (seq_p (update_job job_id (failed_update (sanitize_training_error e) error_type)) (give ()))"

definition LORA_CANCELLED_MESSAGE :: string where
  "LORA_CANCELLED_MESSAGE = ''Job cancelled: exceeded LORA_TRAINING_JOB_TIMEOUT or worker shutdown''"

definition handle_cancelled_lora_training :: "voice_key \<Rightarrow> string \<Rightarrow> unit lora_prog" where
  "handle_cancelled_lora_training key job_id =
     seq_p (cleanup_failed_lora_with_factory key LORA_CANCELLED_MESSAGE)
       (seq_p (update_job job_id (failed_update LORA_CANCELLED_MESSAGE ''timeout'')) (give ()))"

definition keep_restored_lora_adapter :: "voice_key \<Rightarrow> string \<Rightarrow> string option \<Rightarrow> unit lora_prog" where
  "keep_restored_lora_adapter key job_id previous_model_mode =
     seq_p (cleanup_failed_lora_paths key)
       (if previous_model_mode = None
        then throw (Runtime_Error ''LoRA adapter restoration lost its previous model mode'')
        else seq_p (commit_lora (snd key) (ready_lora key previous_model_mode None)
                      [(fst key, snd key, ''ready: retained previous adapter after failed replacement'')])
               (seq_p (update_job job_id (failed_update (sanitize_training_error (Previous_Restored previous_model_mode))
                        ''lora_training_error'')) (give ())))"

text \<open>The exception clauses of \<open>run_lora_training_job\<close> around its body.\<close>

definition settle_exception :: "voice_key \<Rightarrow> string \<Rightarrow> job_exn \<Rightarrow> unit lora_prog" where
  "settle_exception key job_id e =
     (case e of
        Cancelled \<Rightarrow> seq_p (handle_cancelled_lora_training key job_id) (throw Cancelled)
      | Previous_Restored previous \<Rightarrow> keep_restored_lora_adapter key job_id previous
      | Mode_Unsupported _ \<Rightarrow> fail_lora_training key job_id e ''lora_mode_invalid''
      | Mode_Mismatch _ \<Rightarrow> fail_lora_training key job_id e ''lora_mode_mismatch''
      | _ \<Rightarrow> fail_lora_training key job_id e ''lora_training_error'')"

definition settle_lora_training :: "voice_key \<Rightarrow> string \<Rightarrow> unit lora_prog \<Rightarrow> unit lora_prog" where
  "settle_lora_training key job_id body = attempt body (settle_exception key job_id)"

subsection \<open>Reconciling crashed trainings\<close>

definition recover_recorded_lora_adapter :: "voice_key \<Rightarrow> bool lora_prog" where
  "recover_recorded_lora_adapter key = reading (\<lambda>w.
     (let F = lw_files w key
      in seq_p (require_lora_adapter_directory (F Final_Dir) ''LoRA adapter'')
        (seq_p (require_lora_adapter_directory (F Previous_Dir) ''Previous LoRA adapter'')
        (seq_p (require_lora_adapter_directory (F Training_Tmp) ''Temporary LoRA adapter'')
        (seq_p (if is_dir (F Training_Tmp)
                then seq_p (if F Final_Dir \<noteq> None then rename key Final_Dir Previous_Dir else give ())
                       (rename key Training_Tmp Final_Dir)
                else give ())
        (seq_p (reading (\<lambda>w. if lw_files w key Previous_Dir \<noteq> None then rmtree key Previous_Dir else give ()))
          (reading (\<lambda>w. give (is_dir (lw_files w key Final_Dir))))))))))"

definition restore_previous_lora_adapter :: "voice_key \<Rightarrow> bool lora_prog" where
  "restore_previous_lora_adapter key = reading (\<lambda>w.
     (let F = lw_files w key
      in if F Previous_Dir = None then give (is_dir (F Final_Dir))
         else seq_p (if F Final_Dir \<noteq> None
                     then seq_p (require_lora_adapter_directory (F Final_Dir) ''LoRA adapter'') (rmtree key Previous_Dir)
                     else rename key Previous_Dir Final_Dir)
                (reading (\<lambda>w. give (is_dir (lw_files w key Final_Dir))))))"

definition recover_complete_lora_adapter :: "voice_key \<Rightarrow> string option \<Rightarrow> bool lora_prog" where
  "recover_complete_lora_adapter key completed_model_mode =
     (if completed_model_mode \<noteq> None then recover_recorded_lora_adapter key else restore_previous_lora_adapter key)"

definition CRASHED_MESSAGE :: string where "CRASHED_MESSAGE = ''Training crashed or was interrupted''"

definition persist_crashed_lora_reconciliation :: "voice_key \<Rightarrow> string option \<Rightarrow> bool \<Rightarrow> unit lora_prog" where
  "persist_crashed_lora_reconciliation key completed_model_mode recovered_adapter =
     (if \<not> recovered_adapter then cleanup_failed_lora key CRASHED_MESSAGE
      else reading (\<lambda>w. commit_lora (snd key) (ready_lora key completed_model_mode (Some (jw_now w)))
             [(fst key, snd key, ''ready: recovered complete adapter after interrupted training'')]))"

text \<open>The body of the \<open>try\<close>: what the loop keeps of it when it returns.\<close>

definition reconcile_row :: "user_lora \<Rightarrow> (bool \<times> string option) lora_prog" where
  "reconcile_row l =
     (let key = (lo_user_id l, lo_id l)
      in reading (\<lambda>w.
         bind_p (lift_sum (completed_model_mode_for_lora (lw_files w key) (lo_training_job_id l))) (\<lambda>completed_model_mode.
         bind_p (recover_complete_lora_adapter key completed_model_mode) (\<lambda>recovered_adapter.
         seq_p (persist_crashed_lora_reconciliation key completed_model_mode recovered_adapter)
           (give (recovered_adapter, completed_model_mode))))))"

definition finish_reconciled :: "voice_key \<Rightarrow> bool \<times> string option \<Rightarrow> unit lora_prog" where
  "finish_reconciled key r =
     seq_p (if fst r \<and> snd r \<noteq> None then clear_completed_training_model_mode key else give ())
       (seq_p (cleanup_failed_lora_paths key) (give ()))"

text \<open>The \<open>while True\<close>, at most \<open>fuel\<close> rounds; a row that fails is excluded from then on.\<close>

fun reconcile_from :: "nat \<Rightarrow> string set \<Rightarrow> nat \<Rightarrow> nat lora_prog" where
  "reconcile_from 0 excluded_ids reconciled = give reconciled"
| "reconcile_from (Suc fuel) excluded_ids reconciled = reading (\<lambda>w.
     (case list_reconcilable_loras {} excluded_ids (jw_jobs w) (lw_loras w) of
        [] \<Rightarrow> give reconciled
      | l # _ \<Rightarrow>
          bind_p (attempt (bind_p (reconcile_row l) (\<lambda>r. give (Some r))) (\<lambda>_. give None)) (\<lambda>r.
            case r of
              None \<Rightarrow> reconcile_from fuel (insert (lo_id l) excluded_ids) reconciled
            | Some r' \<Rightarrow> seq_p (finish_reconciled (lo_user_id l, lo_id l) r')
                           (reconcile_from fuel excluded_ids (Suc reconciled)))))"

definition reconcile_crashed_loras :: "nat lora_prog" where
  "reconcile_crashed_loras = reading (\<lambda>w. reconcile_from (Suc (length (lw_loras w))) {} 0)"

end
