(* ===== verification/Lora_Safety.thy ===== *)
theory Lora_Safety
  imports Lora_Training
begin

text \<open>
  Crash safety of voice training.  A condition on one voice speaks of its row and its directory; the
  other voices are framed.  The rules below give each step of \<open>Lora_Training\<close> a triple with the condition
  at its end, at an exception and at a crash; a calm program has no fault left in its script, so it
  needs no condition for faults.
\<close>

subsection \<open>Conditions on one voice\<close>

definition voice_state :: "lora_world \<Rightarrow> string \<Rightarrow> (user_lora \<times> lora_files) option" where
  "voice_state w k = map_option (\<lambda>l. (l, lw_files w (lo_user_id l, k))) (get_lora k (lw_loras w))"

type_synonym voice_cond = "user_lora \<Rightarrow> lora_files \<Rightarrow> bool"

record voice_frame =
  vf_calm :: bool
  vf_key :: voice_key
  vf_rest :: "string \<Rightarrow> (user_lora \<times> lora_files) option"

definition voice :: "voice_frame \<Rightarrow> voice_cond \<Rightarrow> lora_world \<Rightarrow> bool" where
  "voice V \<Phi> w \<longleftrightarrow> (vf_calm V \<longrightarrow> w_script w = [])
     \<and> distinct (map lo_id (lw_loras w))
     \<and> (\<forall>k. k \<noteq> snd (vf_key V) \<longrightarrow> voice_state w k = vf_rest V k)
     \<and> (\<exists>l. get_lora (snd (vf_key V)) (lw_loras w) = Some l \<and> lo_user_id l = fst (vf_key V)
           \<and> \<Phi> l (lw_files w (vf_key V)))"

definition vspec :: "voice_frame \<Rightarrow> voice_cond \<Rightarrow> 'a lora_prog \<Rightarrow> ('a \<Rightarrow> voice_cond) \<Rightarrow> (job_exn \<Rightarrow> voice_cond)
    \<Rightarrow> voice_cond \<Rightarrow> bool" where
  "vspec V \<Phi> p Q E C \<longleftrightarrow> runs_to (voice V \<Phi>) p (\<lambda>x. voice V (Q x)) (\<lambda>e. voice V (E e)) (voice V C)"

lemma voice_mono: "voice V \<Phi> w \<Longrightarrow> (\<And>l F. \<Phi> l F \<Longrightarrow> \<Psi> l F) \<Longrightarrow> voice V \<Psi> w"
  by (auto simp: voice_def)

lemma vspec_weaken:
  assumes "vspec V \<Phi>' p Q' E' C'" and "\<And>l F. \<Phi> l F \<Longrightarrow> \<Phi>' l F" and "\<And>x l F. Q' x l F \<Longrightarrow> Q x l F"
    and "\<And>e l F. E' e l F \<Longrightarrow> E e l F" and "\<And>l F. C' l F \<Longrightarrow> C l F"
  shows "vspec V \<Phi> p Q E C"
  using assms(1) unfolding vspec_def
  by (rule runs_to_weaken) (auto intro: voice_mono assms(2-5))

lemma vspec_give: "(\<And>l F. \<Phi> l F \<Longrightarrow> Q x l F) \<Longrightarrow> vspec V \<Phi> (give x) Q E C"
  unfolding vspec_def by (rule runs_give) (rule voice_mono)

lemma vspec_throw: "(\<And>l F. \<Phi> l F \<Longrightarrow> E e l F) \<Longrightarrow> vspec V \<Phi> (throw e) Q E C"
  unfolding vspec_def by (rule runs_throw) (rule voice_mono)

lemma vspec_bind: "vspec V \<Phi> p R E C \<Longrightarrow> (\<And>x. vspec V (R x) (q x) Q E C) \<Longrightarrow> vspec V \<Phi> (bind_p p q) Q E C"
  unfolding vspec_def by (rule runs_bind)

lemma vspec_seq: "vspec V \<Phi> p (\<lambda>_. R) E C \<Longrightarrow> vspec V R q Q E C \<Longrightarrow> vspec V \<Phi> (seq_p p q) Q E C"
  unfolding vspec_def by (rule runs_seq)

lemma vspec_attempt: "vspec V \<Phi> p Q R C \<Longrightarrow> (\<And>e. vspec V (R e) (h e) Q E C) \<Longrightarrow> vspec V \<Phi> (attempt p h) Q E C"
  unfolding vspec_def by (rule runs_attempt)

lemma vspec_ensuring:
  "vspec V \<Phi> p R S C \<Longrightarrow> (\<And>x. vspec V (R x) c (\<lambda>_. Q x) E C) \<Longrightarrow> (\<And>e. vspec V (S e) c (\<lambda>_. E e) E C)
   \<Longrightarrow> vspec V \<Phi> (ensuring p c) Q E C"
  unfolding vspec_def by (rule runs_ensuring)

lemma vspec_pure: "(P \<Longrightarrow> vspec V \<Phi> p Q E C) \<Longrightarrow> vspec V (\<lambda>l F. P \<and> \<Phi> l F) p Q E C"
  by (cases P) (auto simp: vspec_def runs_to_def voice_def)

lemma vspec_reading:
  assumes "\<And>w l. get_lora (snd (vf_key V)) (lw_loras w) = Some l \<Longrightarrow> lo_user_id l = fst (vf_key V)
    \<Longrightarrow> \<Phi> l (lw_files w (vf_key V))
    \<Longrightarrow> vspec V (\<lambda>l' F. l' = l \<and> F = lw_files w (vf_key V)) (f w) Q E C"
  shows "vspec V \<Phi> (reading f) Q E C"
  unfolding vspec_def
proof (rule runs_reading)
  fix v assume v: "voice V \<Phi> v"
  then obtain l where l: "get_lora (snd (vf_key V)) (lw_loras v) = Some l" "lo_user_id l = fst (vf_key V)"
    "\<Phi> l (lw_files v (vf_key V))" by (auto simp: voice_def)
  from assms [OF l] have run: "runs_to (voice V (\<lambda>l' F. l' = l \<and> F = lw_files v (vf_key V))) (f v)
      (\<lambda>x. voice V (Q x)) (\<lambda>e. voice V (E e)) (voice V C)" by (simp add: vspec_def)
  show "runs_to (\<lambda>w. w = v) (f v) (\<lambda>x. voice V (Q x)) (\<lambda>e. voice V (E e)) (voice V C)"
    by (rule runs_to_weaken [OF run]) (use v l in \<open>auto simp: voice_def\<close>)
qed

lemma voice_script: "voice V \<Phi> w \<Longrightarrow> voice V \<Phi> (w\<lparr>w_script := tl (w_script w)\<rparr>)"
  by (auto simp: voice_def voice_state_def)

lemma vspec_effect:
  assumes "\<And>w x w'. voice V \<Phi> w \<Longrightarrow> act w = (Inr x, w') \<Longrightarrow> voice V (Q x) w'"
    and "\<And>w e' w'. voice V \<Phi> w \<Longrightarrow> act w = (Inl e', w') \<Longrightarrow> voice V (E e') w'"
    and "\<And>l F. \<not> vf_calm V \<Longrightarrow> \<Phi> l F \<Longrightarrow> E e l F" and "\<And>l F. \<not> vf_calm V \<Longrightarrow> \<Phi> l F \<Longrightarrow> C l F"
  shows "vspec V \<Phi> (effect e act) Q E C"
  unfolding vspec_def
proof (rule runs_toI)
  fix w assume w: "voice V \<Phi> w"
  let ?w = "w\<lparr>w_script := tl (w_script w)\<rparr>"
  from w have v: "voice V \<Phi> ?w" by (rule voice_script)
  show "case effect e act w of (Done x, w') \<Rightarrow> voice V (Q x) w' | (Raised e, w') \<Rightarrow> voice V (E e) w' | (Killed, w') \<Rightarrow> voice V C w'"
  proof (cases "w_script w = []")
    case True
    then show ?thesis using assms(1,2) [OF v] by (auto simp: effect_def Let_def split: sum.split prod.split)
  next
    case False
    then have "\<not> vf_calm V" using w by (auto simp: voice_def)
    then have "voice V (E e) ?w" "voice V C ?w" using v assms(3,4) by (auto intro: voice_mono)
    then show ?thesis using assms(1,2) [OF v] False
      by (auto simp: effect_def Let_def split: fate.split sum.split prod.split)
  qed
qed

subsection \<open>The steps\<close>

lemma voice_put:
  assumes "voice V \<Phi> w" and "\<And>l. \<Phi> l (lw_files w (vf_key V)) \<Longrightarrow> \<Psi> l ((lw_files w (vf_key V))(p := n))"
  shows "voice V \<Psi> (put_node (vf_key V) p n w)"
proof -
  have "(lo_user_id l, k) \<noteq> vf_key V" if "k \<noteq> snd (vf_key V)" for l :: user_lora and k using that by (metis snd_conv)
  then have "voice_state (put_node (vf_key V) p n w) k = voice_state w k" if "k \<noteq> snd (vf_key V)" for k
    using that by (cases "get_lora k (lw_loras w)") (simp_all add: voice_state_def put_node_def)
  then show ?thesis using assms by (auto simp: voice_def put_node_def)
qed

lemma voice_files: "voice V \<Phi> w \<Longrightarrow> \<exists>l. \<Phi> l (lw_files w (vf_key V))"
  by (auto simp: voice_def)

lemma vspec_change_node:
  assumes "\<And>l F. \<Phi> l F \<Longrightarrow> Q () l (F(p := n))"
    and "\<And>l F. \<not> vf_calm V \<Longrightarrow> \<Phi> l F \<Longrightarrow> E OS_Error l F" and "\<And>l F. \<not> vf_calm V \<Longrightarrow> \<Phi> l F \<Longrightarrow> C l F"
  shows "vspec V \<Phi> (change OS_Error (put_node (vf_key V) p n)) Q E C"
  unfolding change_def by (rule vspec_effect) (use assms in \<open>auto intro: voice_put\<close>)

lemma vspec_rename:
  assumes "src \<noteq> dst" and "\<And>l F. \<Phi> l F \<Longrightarrow> F src \<noteq> None \<Longrightarrow> \<not> blocked (F src) (F dst) \<Longrightarrow> Q () l (F(dst := F src, src := None))"
    and "\<And>l F. \<Phi> l F \<Longrightarrow> \<not> vf_calm V \<or> F src = None \<or> blocked (F src) (F dst) \<Longrightarrow> E OS_Error l F"
    and "\<And>l F. \<not> vf_calm V \<Longrightarrow> \<Phi> l F \<Longrightarrow> C l F"
  shows "vspec V \<Phi> (rename (vf_key V) src dst) Q E C"
  unfolding rename_def
proof (rule vspec_effect)
  fix w :: lora_world and x :: unit and w'
  let ?F = "lw_files w (vf_key V)"
  assume w: "voice V \<Phi> w" and act: "(let F = ?F in if F src = None \<or> blocked (F src) (F dst) then (Inl OS_Error, w)
      else (Inr (), put_node (vf_key V) src None (put_node (vf_key V) dst (F src) w))) = (Inr x, w')"
  then have free: "?F src \<noteq> None" "\<not> blocked (?F src) (?F dst)"
    and w': "w' = put_node (vf_key V) src None (put_node (vf_key V) dst (?F src) w)" by (auto simp: Let_def split: if_splits)
  have "voice V (\<lambda>l F. Q () l (F(src := None))) (put_node (vf_key V) dst (?F src) w)"
    by (rule voice_put [OF w]) (use assms(2) free in blast)
  from voice_put [OF this, of "Q ()" src None] show "voice V (Q x) w'" unfolding w' by simp
next
  fix w e' w'
  assume "voice V \<Phi> w" "(let F = lw_files w (vf_key V) in if F src = None \<or> blocked (F src) (F dst) then (Inl OS_Error, w)
      else (Inr (), put_node (vf_key V) src None (put_node (vf_key V) dst (F src) w))) = (Inl e', w')"
  then show "voice V (E e') w'" using assms(3) by (auto simp: Let_def voice_def split: if_splits)
qed (use assms(3,4) in auto)

lemma vspec_dir_effect:
  assumes "\<And>l F. \<Phi> l F \<Longrightarrow> d (is_dir (F p)) \<Longrightarrow> Q () l (F(p := n))"
    and "\<And>l F. \<Phi> l F \<Longrightarrow> \<not> vf_calm V \<or> \<not> d (is_dir (F p)) \<Longrightarrow> E OS_Error l F"
    and "\<And>l F. \<not> vf_calm V \<Longrightarrow> \<Phi> l F \<Longrightarrow> C l F"
  shows "vspec V \<Phi> (effect OS_Error (\<lambda>w. if d (is_dir (lw_files w (vf_key V) p)) then (Inr (), put_node (vf_key V) p n w)
    else (Inl OS_Error, w))) Q E C"
proof (rule vspec_effect)
  fix w x w'
  assume w: "voice V \<Phi> w" and act: "(if d (is_dir (lw_files w (vf_key V) p)) then (Inr (), put_node (vf_key V) p n w)
    else (Inl OS_Error, w)) = (Inr x, w')"
  then have "d (is_dir (lw_files w (vf_key V) p))" "w' = put_node (vf_key V) p n w" by (auto split: if_splits)
  then show "voice V (Q x) w'" using assms(1) by (auto intro: voice_put [OF w])
next
  fix w e' w'
  assume "voice V \<Phi> w" "(if d (is_dir (lw_files w (vf_key V) p)) then (Inr (), put_node (vf_key V) p n w)
    else (Inl OS_Error, w)) = (Inl e', w')"
  then show "voice V (E e') w'" using assms(2) by (auto simp: voice_def split: if_splits)
qed (use assms(2,3) in auto)

lemma vspec_unlink:
  assumes "\<And>l F. \<Phi> l F \<Longrightarrow> \<not> is_dir (F p) \<Longrightarrow> Q () l (F(p := None))"
    and "\<And>l F. \<Phi> l F \<Longrightarrow> \<not> vf_calm V \<or> is_dir (F p) \<Longrightarrow> E OS_Error l F"
    and "\<And>l F. \<not> vf_calm V \<Longrightarrow> \<Phi> l F \<Longrightarrow> C l F"
  shows "vspec V \<Phi> (unlink_missing_ok (vf_key V) p) Q E C"
  unfolding unlink_missing_ok_def by (rule vspec_dir_effect) (use assms in auto)

lemma vspec_rmtree:
  assumes "\<And>l F. \<Phi> l F \<Longrightarrow> is_dir (F p) \<Longrightarrow> Q () l (F(p := None))"
    and "\<And>l F. \<not> vf_calm V \<Longrightarrow> \<Phi> l F \<Longrightarrow> is_dir (F p) \<Longrightarrow> E OS_Error l (F(p := Some Broken_Dir)) \<and> C l (F(p := Some Broken_Dir))"
    and "\<And>l F. \<Phi> l F \<Longrightarrow> \<not> vf_calm V \<or> \<not> is_dir (F p) \<Longrightarrow> E OS_Error l F"
    and "\<And>l F. \<not> vf_calm V \<Longrightarrow> \<Phi> l F \<Longrightarrow> C l F"
  shows "vspec V \<Phi> (rmtree (vf_key V) p) Q E C"
  unfolding rmtree_def
proof (rule vspec_seq)
  let ?R = "\<lambda>l G. \<exists>F. \<Phi> l F \<and> is_dir (F p) \<and> G = F(p := Some Broken_Dir)"
  show "vspec V \<Phi> (effect OS_Error (\<lambda>w. if is_dir (lw_files w (vf_key V) p)
      then (Inr (), put_node (vf_key V) p (Some Broken_Dir) w) else (Inl OS_Error, w))) (\<lambda>_. ?R) E C"
    by (rule vspec_dir_effect) (use assms(3,4) in auto)
  show "vspec V ?R (change OS_Error (put_node (vf_key V) p None)) Q E C"
    by (rule vspec_change_node) (use assms(1,2) in \<open>auto simp: fun_upd_idem_iff\<close>)
qed

lemma vspec_write_text:
  assumes "\<And>l F. \<Phi> l F \<Longrightarrow> Q () l (F(p := Some n))"
    and "\<And>l F. \<not> vf_calm V \<Longrightarrow> \<Phi> l F \<Longrightarrow> E OS_Error l (F(p := Some Junk_File)) \<and> C l (F(p := Some Junk_File))"
    and "\<And>l F. \<Phi> l F \<Longrightarrow> \<not> vf_calm V \<or> is_dir (F p) \<Longrightarrow> E OS_Error l F"
    and "\<And>l F. \<not> vf_calm V \<Longrightarrow> \<Phi> l F \<Longrightarrow> C l F"
  shows "vspec V \<Phi> (write_text (vf_key V) p n) Q E C"
  unfolding write_text_def
proof (rule vspec_seq)
  let ?R = "\<lambda>l G. \<exists>F. \<Phi> l F \<and> G = F(p := Some Junk_File)"
  show "vspec V \<Phi> (effect OS_Error (\<lambda>w. if \<not> is_dir (lw_files w (vf_key V) p)
      then (Inr (), put_node (vf_key V) p (Some Junk_File) w) else (Inl OS_Error, w))) (\<lambda>_. ?R) E C"
    by (rule vspec_dir_effect) (use assms(3,4) in auto)
  show "vspec V ?R (change OS_Error (put_node (vf_key V) p (Some n))) Q E C"
    by (rule vspec_change_node) (use assms(1,2) in auto)
qed

lemma voice_row:
  assumes "voice V \<Phi> w" and "\<And>l. \<Phi> l (lw_files w (vf_key V)) \<Longrightarrow> \<Psi> (write_lora u l) (lw_files w (vf_key V))"
  shows "voice V \<Psi> (w\<lparr>lw_loras := table_update lo_id (snd (vf_key V)) (write_lora u) (lw_loras w), lw_audit := a\<rparr>)"
proof -
  have "map lo_id (table_update lo_id k (write_lora u) ls) = map lo_id ls" for k ls
    by (simp add: table_update_def)
  then show ?thesis using assms by (auto simp: voice_def voice_state_def get_write_lora)
qed

lemma vspec_commit:
  assumes "lora_id = snd (vf_key V)" and "case lu_model_mode u of None \<Rightarrow> True | Some m \<Rightarrow> m \<in> LORA_TRAINING_MODEL_MODES"
    and "\<And>l F. \<Phi> l F \<Longrightarrow> Q () (write_lora u l) F"
    and "\<And>l F. \<not> vf_calm V \<Longrightarrow> \<Phi> l F \<Longrightarrow> E Db_Error l F" and "\<And>l F. \<not> vf_calm V \<Longrightarrow> \<Phi> l F \<Longrightarrow> C l F"
  shows "vspec V \<Phi> (commit_lora lora_id u audit) Q E C"
proof -
  let ?k = "snd (vf_key V)"
  have update: "update_user_lora ?k u (lw_loras w) = (Inr (), table_update lo_id ?k (write_lora u) (lw_loras w))"
    if "voice V \<Phi> w" for w
    using that assms(2) by (auto simp: update_user_lora_def voice_def split: option.split)
  show ?thesis unfolding commit_lora_def assms(1)
  proof (rule vspec_effect)
    fix w :: lora_world and x :: unit and w'
    assume w: "voice V \<Phi> w" and "(case update_user_lora ?k u (lw_loras w) of (Inl e, _) \<Rightarrow> (Inl (Row_Error e), w)
      | (Inr x, loras) \<Rightarrow> (Inr x, w\<lparr>lw_loras := loras, lw_audit := lw_audit w @ audit\<rparr>)) = (Inr x, w')"
    then have "w' = w\<lparr>lw_loras := table_update lo_id (snd (vf_key V)) (write_lora u) (lw_loras w),
        lw_audit := lw_audit w @ audit\<rparr>" by (simp add: update)
    then show "voice V (Q x) w'" using voice_row [OF w, of "Q ()" u] assms(3) by simp
  next
    fix w :: lora_world and e' and w'
    assume "voice V \<Phi> w" "(case update_user_lora ?k u (lw_loras w) of (Inl e, _) \<Rightarrow> (Inl (Row_Error e), w)
      | (Inr x, loras) \<Rightarrow> (Inr x, w\<lparr>lw_loras := loras, lw_audit := lw_audit w @ audit\<rparr>)) = (Inl e', w')"
    then show "voice V (E e') w'" by (simp add: update)
  qed (use assms(4,5) in auto)
qed

lemma vspec_update_job:
  assumes "\<And>l F. \<not> vf_calm V \<Longrightarrow> \<Phi> l F \<Longrightarrow> E (Runtime_Error (''Job '' @ job_id @ '' status update failed after 2 attempts'')) l F"
    and "\<And>l F. \<not> vf_calm V \<Longrightarrow> \<Phi> l F \<Longrightarrow> C l F"
  shows "vspec V \<Phi> (update_job job_id u) (\<lambda>_. \<Phi>) E C"
proof -
  have once: "vspec V \<Phi> (update_job_once job_id u) (\<lambda>_. \<Phi>) (\<lambda>_ l F. \<not> vf_calm V \<and> \<Phi> l F) C"
    unfolding update_job_once_def
    by (rule vspec_effect) (use assms in \<open>auto simp: voice_def voice_state_def split: prod.splits\<close>)
  then have again: "vspec V (\<lambda>l F. \<not> vf_calm V \<and> \<Phi> l F) (update_job_once job_id u) (\<lambda>_. \<Phi>) (\<lambda>_ l F. \<not> vf_calm V \<and> \<Phi> l F) C"
    by (rule vspec_weaken) auto
  show ?thesis unfolding update_job_def
    by (intro vspec_attempt [OF once] vspec_attempt [OF again] vspec_throw) (use assms in auto)
qed

subsection \<open>What a training leaves\<close>

text \<open>
  \<open>adopting\<close>: the mode of the finished training is on record, and its adapter is either still in the
  temporary directory with room to move it, or already in place.  \<open>keeping\<close>: nothing is on record, and
  the old adapter is in place, or set aside, or there was none.
\<close>

definition dir_or_none :: "lora_node option \<Rightarrow> bool" where
  "dir_or_none n \<longleftrightarrow> n = None \<or> is_dir n"

definition recorded :: "user_lora \<Rightarrow> lora_files \<Rightarrow> string option" where
  "recorded l F = (case F Mode_File of
     Some (Mode_Record job_id m) \<Rightarrow> if Some job_id = lo_training_job_id l then Some m else None
   | _ \<Rightarrow> None)"

definition record_readable :: "lora_files \<Rightarrow> bool" where
  "record_readable F \<longleftrightarrow> (case F Mode_File of
     None \<Rightarrow> True | Some (Mode_Record job_id m) \<Rightarrow> m \<in> LORA_TRAINING_MODEL_MODES | _ \<Rightarrow> False)"

definition adopting :: "string \<Rightarrow> lora_files \<Rightarrow> bool" where
  "adopting m F \<longleftrightarrow> m \<in> LORA_TRAINING_MODEL_MODES \<and> dir_or_none (F Previous_Dir) \<and>
     (F Training_Tmp = Some (Adapter m) \<and> dir_or_none (F Final_Dir) \<and> (F Final_Dir = None \<or> F Previous_Dir = None)
      \<or> F Training_Tmp = None \<and> F Final_Dir = Some (Adapter m))"

definition keeping :: "user_lora \<Rightarrow> lora_files \<Rightarrow> bool" where
  "keeping l F \<longleftrightarrow> dir_or_none (F Previous_Dir) \<and>
     (F Final_Dir = Some (Adapter (lo_model_mode l))
      \<or> F Final_Dir = None \<and> (F Previous_Dir = None \<or> F Previous_Dir = Some (Adapter (lo_model_mode l))))"

definition voice_ok :: voice_cond where
  "voice_ok l F \<longleftrightarrow>
     (lo_status l = L_Ready \<longrightarrow> F Final_Dir = Some (Adapter (lo_model_mode l)))
     \<and> (lo_status l \<in> LORA_ACTIVE_STATUSES \<longrightarrow> record_readable F
          \<and> (case recorded l F of Some m \<Rightarrow> adopting m F | None \<Rightarrow> keeping l F))"

definition voices_ok :: "lora_world \<Rightarrow> bool" where
  "voices_ok w \<longleftrightarrow> distinct (map lo_id (lw_loras w))
     \<and> (\<forall>k l. get_lora k (lw_loras w) = Some l \<longrightarrow> voice_ok l (lw_files w (lo_user_id l, k)))"

text \<open>The state of a voice when its worker reports the end of a training.\<close>

definition trained :: "string \<Rightarrow> string \<Rightarrow> voice_cond" where
  "trained job_id m l F \<longleftrightarrow> lo_status l \<in> LORA_ACTIVE_STATUSES \<and> lo_training_job_id l = Some job_id
     \<and> m \<in> LORA_TRAINING_MODEL_MODES \<and> record_readable F \<and> recorded l F = None
     \<and> F Previous_Dir = None \<and> F Training_Tmp = Some (Adapter m) \<and> keeping l F"

text \<open>When the new adapter cannot be moved in, the old one is moved back.\<close>

definition restored :: "string \<Rightarrow> job_exn \<Rightarrow> voice_cond" where
  "restored m0 e l F \<longleftrightarrow> (case e of Previous_Restored p \<Rightarrow> p = Some m0 \<and> F Final_Dir = Some (Adapter m0) | _ \<Rightarrow> True)"

definition stopped :: "string \<Rightarrow> job_exn \<Rightarrow> voice_cond" where
  "stopped m0 e l F \<longleftrightarrow> voice_ok l F \<and> restored m0 e l F"

lemma stopped_plain [simp]:
  "stopped m0 OS_Error = voice_ok" "stopped m0 Db_Error = voice_ok" "stopped m0 (Runtime_Error t) = voice_ok"
  "stopped m0 (Row_Error re) = voice_ok" "stopped m0 (Mode_Unsupported t) = voice_ok" "stopped m0 (Mode_Mismatch t) = voice_ok"
  by (simp_all add: fun_eq_iff stopped_def restored_def)

lemma stopped_ok: "stopped m0 e l F \<Longrightarrow> voice_ok l F"
  by (simp add: stopped_def)

text \<open>Clean-up does not touch the adapter in place.\<close>

lemma vspec_working_path:
  assumes "\<And>l F n. \<Phi> l F \<Longrightarrow> \<Phi> l (F(p := n))" and "\<And>l F. \<not> vf_calm V \<Longrightarrow> \<Phi> l F \<Longrightarrow> C l F"
  shows "vspec V \<Phi> (remove_working_path (vf_key V) p) (\<lambda>_. \<Phi>) E C"
  unfolding remove_working_path_def
proof (rule vspec_attempt [where R = "\<lambda>e l F. e = OS_Error \<and> \<Phi> l F"])
  show "vspec V (\<lambda>l F. e = OS_Error \<and> \<Phi> l F) (if e = OS_Error then give False else throw e) (\<lambda>_. \<Phi>) E C" for e
    by (rule vspec_pure) (auto intro: vspec_give)
  show "vspec V \<Phi> (reading (\<lambda>w. if lw_files w (vf_key V) p = None then give True
      else if is_dir (lw_files w (vf_key V) p) then seq_p (rmtree (vf_key V) p) (give True)
      else seq_p (unlink_missing_ok (vf_key V) p) (give True))) (\<lambda>_. \<Phi>) (\<lambda>e l F. e = OS_Error \<and> \<Phi> l F) C"
    by (rule vspec_reading)
      (auto intro!: vspec_seq [where R = \<Phi>] vspec_give vspec_rmtree vspec_unlink simp: assms)
qed

lemma vspec_working_paths:
  "(\<And>l F p n. p \<in> set ps \<Longrightarrow> \<Phi> l F \<Longrightarrow> \<Phi> l (F(p := n))) \<Longrightarrow> (\<And>l F. \<not> vf_calm V \<Longrightarrow> \<Phi> l F \<Longrightarrow> C l F) \<Longrightarrow>
     vspec V \<Phi> (remove_working_paths (vf_key V) ps b) (\<lambda>_. \<Phi>) E C"
  by (induction ps arbitrary: b) (auto intro!: vspec_give vspec_bind vspec_working_path)

lemma vspec_cleanup_paths:
  assumes "\<And>l F p n. p \<in> {Dataset_Dir, Training_Tmp, Mode_File, Mode_File_New} \<Longrightarrow> \<Phi> l F \<Longrightarrow> \<Phi> l (F(p := n))"
    and "\<And>l F. \<not> vf_calm V \<Longrightarrow> \<Phi> l F \<Longrightarrow> C l F"
  shows "vspec V \<Phi> (cleanup_failed_lora_paths (vf_key V)) (\<lambda>_. \<Phi>) E C"
  unfolding cleanup_failed_lora_paths_def by (rule vspec_working_paths) (auto intro: assms)

lemma write_failed [simp]: "lo_status (write_lora (failed_lora m now) l) = L_Failed"
  by (simp add: write_lora_def failed_lora_def or_else_def no_update_def)

lemma vspec_cleanup_failed:
  "vspec V voice_ok (cleanup_failed_lora (vf_key V) m) (\<lambda>_ l F. lo_status l = L_Failed) (stopped m0) voice_ok"
  unfolding cleanup_failed_lora_def
  by (rule vspec_reading, rule vspec_commit) (auto simp: failed_lora_def no_update_def write_lora_def or_else_def)

lemma failed_voice_ok: "lo_status l = L_Failed \<Longrightarrow> voice_ok l F"
  by (simp add: voice_ok_def LORA_ACTIVE_STATUSES_def)

lemma vspec_cleanup_with_factory:
  "vspec V voice_ok (cleanup_failed_lora_with_factory (vf_key V) m) (\<lambda>_ l F. lo_status l = L_Failed)
     (stopped m0) voice_ok"
  unfolding cleanup_failed_lora_with_factory_def
proof (rule vspec_seq [OF vspec_cleanup_failed])
  have "vspec V (\<lambda>l F. lo_status l = L_Failed) (cleanup_failed_lora_paths (vf_key V)) (\<lambda>_ l F. lo_status l = L_Failed)
      (stopped m0) voice_ok"
    by (rule vspec_cleanup_paths) (auto intro: failed_voice_ok)
  then show "vspec V (\<lambda>l F. lo_status l = L_Failed) (seq_p (cleanup_failed_lora_paths (vf_key V)) (give ()))
      (\<lambda>_ l F. lo_status l = L_Failed) (stopped m0) voice_ok"
    by (rule vspec_seq) (rule vspec_give)
qed

lemma vspec_fail_training:
  "vspec V voice_ok (fail_lora_training (vf_key V) job_id e t) (\<lambda>_. voice_ok) (stopped m0) voice_ok"
  unfolding fail_lora_training_def
  by (rule vspec_seq [OF vspec_cleanup_with_factory], rule vspec_seq, rule vspec_update_job)
    (auto intro!: vspec_give simp: failed_voice_ok)

lemma vspec_cancelled:
  "vspec V voice_ok (handle_cancelled_lora_training (vf_key V) job_id) (\<lambda>_. voice_ok) (stopped m0) voice_ok"
  unfolding handle_cancelled_lora_training_def
  by (rule vspec_seq [OF vspec_cleanup_with_factory], rule vspec_seq, rule vspec_update_job)
    (auto intro!: vspec_give simp: failed_voice_ok)

subsection \<open>Adopting an adapter\<close>

text \<open>The mode is on record; the row still has mode \<open>rm\<close>.\<close>

definition on_record :: "string \<Rightarrow> string \<Rightarrow> string \<Rightarrow> voice_cond" where
  "on_record job_id m rm l F \<longleftrightarrow> lo_status l \<in> LORA_ACTIVE_STATUSES \<and> lo_training_job_id l = Some job_id
     \<and> m \<in> LORA_TRAINING_MODEL_MODES \<and> lo_model_mode l = rm \<and> F Mode_File = Some (Mode_Record job_id m)"

definition waiting :: "string \<Rightarrow> string \<Rightarrow> lora_files \<Rightarrow> bool" where
  "waiting m m0 F \<longleftrightarrow> F Training_Tmp = Some (Adapter m) \<and> F Previous_Dir = None
     \<and> (F Final_Dir = None \<or> F Final_Dir = Some (Adapter m0))"

definition staged :: "string \<Rightarrow> string \<Rightarrow> lora_files \<Rightarrow> bool" where
  "staged m m0 F \<longleftrightarrow> F Training_Tmp = Some (Adapter m) \<and> F Final_Dir = None
     \<and> (F Previous_Dir = None \<or> F Previous_Dir = Some (Adapter m0))"

definition moved :: "string \<Rightarrow> lora_files \<Rightarrow> bool" where
  "moved m F \<longleftrightarrow> F Training_Tmp = None \<and> F Final_Dir = Some (Adapter m) \<and> dir_or_none (F Previous_Dir)"

lemmas stage_defs = on_record_def waiting_def staged_def moved_def

lemma dir_simps [simp]: "is_dir (Some (Adapter m))" "is_dir (Some Broken_Dir)" "\<not> is_dir None"
    "\<not> is_dir (Some (Mode_Record j m))" "\<not> is_dir (Some Junk_File)" "dir_or_none None" "dir_or_none (Some (Adapter m))"
    "dir_or_none (Some Broken_Dir)"
  by (simp_all add: is_dir_def dir_or_none_def)

lemma adopting_stages: "m \<in> LORA_TRAINING_MODEL_MODES \<Longrightarrow> waiting m m0 F \<or> staged m m0 F \<or> moved m F \<Longrightarrow> adopting m F"
  by (auto simp: waiting_def staged_def moved_def adopting_def)

lemma active_not_ready: "s \<in> LORA_ACTIVE_STATUSES \<Longrightarrow> s \<noteq> L_Ready \<and> s \<noteq> L_Failed"
  by (auto simp: LORA_ACTIVE_STATUSES_def)

lemma on_record_ok: "on_record job_id m rm l F \<Longrightarrow> waiting m m0 F \<or> staged m m0 F \<or> moved m F \<Longrightarrow> voice_ok l F"
  by (auto simp: on_record_def voice_ok_def recorded_def record_readable_def adopting_stages dest: active_not_ready)

lemma trained_ok: "trained job_id m l F \<Longrightarrow> voice_ok l F"
  by (auto simp: trained_def voice_ok_def dest: active_not_ready)

lemma trained_waiting: "trained job_id m l F \<Longrightarrow> waiting m (lo_model_mode l) F"
  by (auto simp: trained_def waiting_def keeping_def)

text \<open>Conditions that do not look at a place survive a change there.\<close>

lemma new_record_irrelevant [simp]:
  "trained job_id m l (F(Mode_File_New := n)) = trained job_id m l F"
  "voice_ok l (F(Mode_File_New := n)) = voice_ok l F"
  "on_record job_id m rm l (F(Mode_File_New := n)) = on_record job_id m rm l F"
  "waiting m m0 (F(Mode_File_New := n)) = waiting m m0 F"
  by (simp_all add: trained_def voice_ok_def record_readable_def recorded_def adopting_def keeping_def stage_defs cong: option.case_cong)

lemma stopped_new_record [simp]: "stopped m0 e l (F(Mode_File_New := n)) = stopped m0 e l F"
  by (simp add: stopped_def restored_def split: job_exn.split)

lemma vspec_record:
  "vspec V (\<lambda>l F. trained job_id m l F \<and> lo_model_mode l = m0) (record_completed_training_model_mode (vf_key V) job_id m)
     (\<lambda>_ l F. on_record job_id m m0 l F \<and> waiting m m0 F) (stopped m0) voice_ok"
  unfolding record_completed_training_model_mode_def
proof (rule vspec_ensuring [where R = "\<lambda>_ l F. on_record job_id m m0 l F \<and> waiting m m0 F" and S = "stopped m0"])
  let ?R = "\<lambda>l F. trained job_id m l F \<and> lo_model_mode l = m0 \<and> F Mode_File_New = Some (Mode_Record job_id m)"
  show "vspec V (\<lambda>l F. trained job_id m l F \<and> lo_model_mode l = m0)
      (seq_p (write_text (vf_key V) Mode_File_New (Mode_Record job_id m)) (rename (vf_key V) Mode_File_New Mode_File))
      (\<lambda>_ l F. on_record job_id m m0 l F \<and> waiting m m0 F) (stopped m0) voice_ok"
  proof (rule vspec_seq [where R = ?R])
    show "vspec V (\<lambda>l F. trained job_id m l F \<and> lo_model_mode l = m0)
        (write_text (vf_key V) Mode_File_New (Mode_Record job_id m)) (\<lambda>_. ?R) (stopped m0) voice_ok"
      by (rule vspec_write_text) (auto simp: trained_ok)
    show "vspec V ?R (rename (vf_key V) Mode_File_New Mode_File)
        (\<lambda>_ l F. on_record job_id m m0 l F \<and> waiting m m0 F) (stopped m0) voice_ok"
      by (rule vspec_rename) (auto simp: trained_ok, auto simp: trained_def on_record_def waiting_def keeping_def)
  qed
  show "vspec V (\<lambda>l F. on_record job_id m m0 l F \<and> waiting m m0 F) (unlink_missing_ok (vf_key V) Mode_File_New)
      (\<lambda>_ l F. on_record job_id m m0 l F \<and> waiting m m0 F) (stopped m0) voice_ok"
    by (rule vspec_unlink) (auto intro: on_record_ok)
  show "vspec V (stopped m0 e) (unlink_missing_ok (vf_key V) Mode_File_New) (\<lambda>_. stopped m0 e) (stopped m0) voice_ok" for e
    by (rule vspec_unlink) (auto intro: stopped_ok)
qed

lemma vspec_save_mode:
  assumes "m \<in> LORA_TRAINING_MODEL_MODES"
  shows "vspec V (\<lambda>l F. on_record job_id m m0 l F \<and> waiting m m0 F) (save_lora_model_mode (snd (vf_key V)) m)
     (\<lambda>x l F. x = m0 \<and> on_record job_id m m l F \<and> waiting m m0 F) (stopped m0) voice_ok"
  unfolding save_lora_model_mode_def
proof (rule vspec_reading)
  fix w :: lora_world and l
  assume l: "get_lora (snd (vf_key V)) (lw_loras w) = Some l" "on_record job_id m m0 l (lw_files w (vf_key V)) \<and> waiting m m0 (lw_files w (vf_key V))"
  let ?F = "lw_files w (vf_key V)"
  have "vspec V (\<lambda>l' F. l' = l \<and> F = ?F) (commit_lora (snd (vf_key V)) (no_update\<lparr>lu_model_mode := Some m\<rparr>) [])
      (\<lambda>_ l' F. on_record job_id m m l' F \<and> waiting m m0 F) (stopped m0) voice_ok"
    by (rule vspec_commit)
      (use l assms in \<open>auto simp: no_update_def write_lora_def or_else_def or_kept_def on_record_def intro: on_record_ok\<close>)
  moreover have "lo_model_mode l = m0" using l by (simp add: on_record_def)
  ultimately show "vspec V (\<lambda>l' F. l' = l \<and> F = ?F)
     (case get_lora (snd (vf_key V)) (lw_loras w) of
        None \<Rightarrow> throw (Runtime_Error (''LoRA disappeared before adapter adoption: '' @ snd (vf_key V)))
      | Some l \<Rightarrow> seq_p (commit_lora (snd (vf_key V)) (no_update\<lparr>lu_model_mode := Some m\<rparr>) []) (give (lo_model_mode l)))
     (\<lambda>x l F. x = m0 \<and> on_record job_id m m l F \<and> waiting m m0 F) (stopped m0) voice_ok"
    using l(1) by (auto intro: vspec_seq vspec_give)
qed

lemma vspec_stage:
  "vspec V (\<lambda>l F. on_record job_id m m l F \<and> waiting m m0 F) (stage_current_lora_adapter (vf_key V))
     (\<lambda>_ l F. on_record job_id m m l F \<and> staged m m0 F) (stopped m0) voice_ok"
  unfolding stage_current_lora_adapter_def
proof (rule vspec_reading)
  fix w :: lora_world and l
  let ?F = "lw_files w (vf_key V)"
  assume l: "on_record job_id m m l ?F \<and> waiting m m0 ?F"
  then have ok: "voice_ok l ?F" by (auto intro: on_record_ok)
  have move: "vspec V (\<lambda>l' F. l' = l \<and> F = ?F) (rename (vf_key V) Final_Dir Previous_Dir)
      (\<lambda>_ l F. on_record job_id m m l F \<and> staged m m0 F) (stopped m0) voice_ok"
    by (rule vspec_rename) (use l ok in \<open>auto simp: stage_defs\<close>)
  show "vspec V (\<lambda>l' F. l' = l \<and> F = ?F)
      (let F = ?F in if F Previous_Dir \<noteq> None then throw (Runtime_Error ''Previous LoRA adapter handoff is still pending'')
         else if F Final_Dir \<noteq> None
         then seq_p (require_lora_adapter_directory (F Final_Dir) ''LoRA adapter'') (rename (vf_key V) Final_Dir Previous_Dir)
         else give ())
      (\<lambda>_ l F. on_record job_id m m l F \<and> staged m m0 F) (stopped m0) voice_ok"
  proof (cases "?F Final_Dir")
    case None
    then show ?thesis using l by (auto intro!: vspec_give simp: waiting_def staged_def)
  next
    case (Some n)
    then have "n = Adapter m0" "?F Previous_Dir = None" using l by (auto simp: waiting_def)
    then show ?thesis using Some move
      by (simp add: require_lora_adapter_directory_def)
  qed
qed

lemma vspec_move_back:
  "vspec V (\<lambda>l F. on_record job_id m m l F \<and> staged m m0 F)
     (reading (\<lambda>w. let F = lw_files w (vf_key V)
        in if F Final_Dir = None \<and> is_dir (F Previous_Dir)
           then seq_p (rename (vf_key V) Previous_Dir Final_Dir) (throw (Previous_Restored (Some m0)))
           else throw OS_Error))
     (\<lambda>_ _ _. False) (stopped m0) voice_ok"
proof (rule vspec_reading)
  fix w :: lora_world and l
  let ?F = "lw_files w (vf_key V)"
  let ?E = "stopped m0"
  assume l: "on_record job_id m m l ?F \<and> staged m m0 ?F"
  then have ok: "voice_ok l ?F" by (auto intro: on_record_ok)
  show "vspec V (\<lambda>l' F. l' = l \<and> F = ?F)
      (let F = ?F in if F Final_Dir = None \<and> is_dir (F Previous_Dir)
         then seq_p (rename (vf_key V) Previous_Dir Final_Dir) (throw (Previous_Restored (Some m0)))
         else throw OS_Error) (\<lambda>_ _ _. False) ?E voice_ok"
  proof (cases "?F Previous_Dir")
    case None
    then show ?thesis using ok by (auto intro!: vspec_throw simp: restored_def)
  next
    case (Some n)
    then have prev: "?F Previous_Dir = Some (Adapter m0)" "?F Final_Dir = None" using l by (auto simp: staged_def)
    have waiting: "on_record job_id m m l (?F(Final_Dir := ?F Previous_Dir, Previous_Dir := None))
        \<and> waiting m m0 (?F(Final_Dir := ?F Previous_Dir, Previous_Dir := None))"
      using l prev by (simp add: stage_defs)
    have "vspec V (\<lambda>l' F. l' = l \<and> F = ?F) (rename (vf_key V) Previous_Dir Final_Dir)
        (\<lambda>_ l F. voice_ok l F \<and> F Final_Dir = Some (Adapter m0)) ?E voice_ok"
      by (rule vspec_rename)
        (use ok prev on_record_ok [of job_id m m l "?F(Final_Dir := ?F Previous_Dir, Previous_Dir := None)" m0] waiting
          in \<open>simp_all add: restored_def\<close>)
    then show ?thesis using prev by (auto intro!: vspec_seq vspec_throw simp: restored_def stopped_def)
  qed
qed

lemma vspec_move:
  "vspec V (\<lambda>l F. on_record job_id m m l F \<and> staged m m0 F) (move_lora_adapter (vf_key V) (Some m0))
     (\<lambda>_ l F. on_record job_id m m l F \<and> moved m F) (stopped m0) voice_ok"
  unfolding move_lora_adapter_def
proof (rule vspec_attempt [where R = "\<lambda>e l F. e = OS_Error \<and> on_record job_id m m l F \<and> staged m m0 F"])
  show "vspec V (\<lambda>l F. on_record job_id m m l F \<and> staged m m0 F) (rename (vf_key V) Training_Tmp Final_Dir)
      (\<lambda>_ l F. on_record job_id m m l F \<and> moved m F) (\<lambda>e l F. e = OS_Error \<and> on_record job_id m m l F \<and> staged m m0 F) voice_ok"
    by (rule vspec_rename) (auto intro: on_record_ok simp: on_record_def staged_def moved_def)
  show "vspec V (\<lambda>l F. e = OS_Error \<and> on_record job_id m m l F \<and> staged m m0 F)
      (if e \<noteq> OS_Error then throw e
       else reading (\<lambda>w. let F = lw_files w (vf_key V)
          in if F Final_Dir = None \<and> is_dir (F Previous_Dir)
             then seq_p (rename (vf_key V) Previous_Dir Final_Dir) (throw (Previous_Restored (Some m0)))
             else throw e))
      (\<lambda>_ l F. on_record job_id m m l F \<and> moved m F) (stopped m0) voice_ok" for e
  proof (cases "e = OS_Error")
    case True
    then show ?thesis by (simp only: simp_thms if_False) (rule vspec_weaken [OF vspec_move_back], auto)
  next
    case False
    then show ?thesis by (auto intro: vspec_throw)
  qed
qed

text \<open>From here on the new adapter is in place.\<close>

definition adopted :: "string \<Rightarrow> voice_cond" where
  "adopted m l F \<longleftrightarrow> lo_status l \<in> LORA_ACTIVE_STATUSES \<and> m \<in> LORA_TRAINING_MODEL_MODES \<and> lo_model_mode l = m
     \<and> record_readable F \<and> (recorded l F = None \<or> recorded l F = Some m)
     \<and> F Training_Tmp = None \<and> F Final_Dir = Some (Adapter m) \<and> dir_or_none (F Previous_Dir)"

lemma adopted_ok: "adopted m l F \<Longrightarrow> voice_ok l F"
  by (auto simp: adopted_def voice_ok_def adopting_def keeping_def dest: active_not_ready split: option.split)

lemma moved_adopted: "on_record job_id m m l F \<Longrightarrow> moved m F \<Longrightarrow> adopted m l F"
  by (auto simp: stage_defs adopted_def recorded_def record_readable_def)

lemma adopted_irrelevant [simp]:
  "adopted m l (F(Dataset_Dir := n)) = adopted m l F"
  by (simp add: adopted_def record_readable_def recorded_def cong: option.case_cong)

lemma adopted_previous: "adopted m l F \<Longrightarrow> dir_or_none n \<Longrightarrow> adopted m l (F(Previous_Dir := n))"
  by (simp add: adopted_def record_readable_def recorded_def cong: option.case_cong)

lemma adopted_cleared: "adopted m l F \<Longrightarrow> adopted m l (F(Mode_File := None))"
  by (simp add: adopted_def record_readable_def recorded_def)

lemma vspec_suppress:
  "vspec V \<Phi> p Q (\<lambda>e l F. e = OS_Error \<and> Q () l F) C \<Longrightarrow> vspec V \<Phi> (suppress_os p) Q E C"
  unfolding suppress_os_def by (erule vspec_attempt) (auto intro: vspec_give vspec_throw)

lemma vspec_remove_replaced:
  "vspec V (adopted m) (remove_replaced_lora_paths (vf_key V)) (\<lambda>_. adopted m) E voice_ok"
  unfolding remove_replaced_lora_paths_def
proof (rule vspec_seq [where R = "adopted m"])
  have "vspec V (adopted m) (suppress_os (rmtree (vf_key V) Previous_Dir)) (\<lambda>_. adopted m) E voice_ok"
    by (rule vspec_suppress, rule vspec_rmtree) (auto intro: adopted_previous adopted_ok adopted_ok [OF adopted_previous])
  then show "vspec V (adopted m) (reading (\<lambda>w. if lw_files w (vf_key V) Previous_Dir \<noteq> None
      then suppress_os (rmtree (vf_key V) Previous_Dir) else give ())) (\<lambda>_. adopted m) E voice_ok"
    by (intro vspec_reading) (auto intro: vspec_weaken vspec_give)
  show "vspec V (adopted m) (suppress_os (rmtree (vf_key V) Dataset_Dir)) (\<lambda>_. adopted m) E voice_ok"
    by (rule vspec_suppress, rule vspec_rmtree) (auto intro: adopted_ok)
qed

lemma vspec_clear: "vspec V (adopted m) (clear_completed_training_model_mode (vf_key V)) (\<lambda>_. adopted m) E voice_ok"
  unfolding clear_completed_training_model_mode_def
  by (rule vspec_suppress, rule vspec_unlink) (auto intro: adopted_cleared adopted_ok)

lemma write_ready [simp]:
  "lo_status (write_lora (ready_lora key mm t) l) = L_Ready"
  "lo_model_mode (write_lora (ready_lora key mm t) l) = or_else mm (lo_model_mode l)"
  "lu_model_mode (ready_lora key mm t) = mm"
  by (simp_all add: write_lora_def ready_lora_def or_else_def no_update_def)

definition ready_with :: "string \<Rightarrow> voice_cond" where
  "ready_with m l F \<longleftrightarrow> lo_status l = L_Ready \<and> lo_model_mode l = m \<and> F Final_Dir = Some (Adapter m)"

lemma ready_with_ok: "ready_with m l F \<Longrightarrow> voice_ok l F"
  by (simp add: ready_with_def voice_ok_def LORA_ACTIVE_STATUSES_def)

lemma vspec_mark:
  assumes "m \<in> LORA_TRAINING_MODEL_MODES"
  shows "vspec V (adopted m) (mark_lora_training_complete (vf_key V) job_id m n) (\<lambda>_. ready_with m) (stopped m0) voice_ok"
  unfolding mark_lora_training_complete_def
proof (rule vspec_seq [where R = "ready_with m"])
  show "vspec V (adopted m) (reading (\<lambda>w. commit_lora (snd (vf_key V)) (ready_lora (vf_key V) (Some m) (Some (jw_now w)))
      [(fst (vf_key V), snd (vf_key V), ''ready: samples='' @ n)])) (\<lambda>_. ready_with m) (stopped m0) voice_ok"
    by (rule vspec_reading, rule vspec_commit)
      (use assms in \<open>auto simp: ready_with_def or_else_def adopted_def intro: adopted_ok [unfolded adopted_def]\<close>)
  show "vspec V (ready_with m) (seq_p (update_job job_id ((status_update COMPLETED)\<lparr>u_progress := 1\<rparr>)) (give ()))
      (\<lambda>_. ready_with m) (stopped m0) voice_ok"
    by (rule vspec_seq, rule vspec_update_job) (auto intro: ready_with_ok vspec_give)
qed

lemma vspec_lift_error: "(\<And>e. r = Inl e \<Longrightarrow> (\<And>l F. \<Phi> l F \<Longrightarrow> E e l F)) \<Longrightarrow>
    vspec V \<Phi> (lift_sum r) (\<lambda>x l F. r = Inr x \<and> \<Phi> l F) E C"
  by (auto simp: lift_sum_def intro: vspec_give vspec_throw split: sum.split)

lemma validated_mode: "validate_completed_training_model_mode py_repr target worker = r \<Longrightarrow>
    (case r of Inr m \<Rightarrow> m = worker \<and> m \<in> LORA_TRAINING_MODEL_MODES
     | Inl e \<Rightarrow> (\<exists>t. e = Mode_Unsupported t \<or> e = Mode_Mismatch t))"
  by (auto simp: validate_completed_training_model_mode_def split: if_splits)

lemma vspec_complete_refused:
  assumes "validate_completed_training_model_mode py_repr target (tr_mode res) = Inl e" and "\<And>l F. \<Phi> l F \<Longrightarrow> voice_ok l F"
  shows "vspec V \<Phi> (complete_lora_training py_repr show_samples cwd audio_dir (vf_key V) job_id target res) Q (stopped m0) voice_ok"
proof -
  from validated_mode [OF assms(1)] have "stopped m0 e = voice_ok" by auto
  then show ?thesis
    unfolding complete_lora_training_def assms(1) lift_sum_def sum.case bind_throw
    by (intro vspec_throw) (simp add: assms(2))
qed

lemma vspec_complete:
  assumes m: "m = tr_mode res"
  shows "vspec V (\<lambda>l F. trained job_id m l F \<and> lo_model_mode l = m0)
    (complete_lora_training py_repr show_samples cwd audio_dir (vf_key V) job_id target res)
    (\<lambda>_. ready_with m) (stopped m0) voice_ok"
proof (cases "validate_completed_training_model_mode py_repr target (tr_mode res)")
  case (Inl e)
  then show ?thesis by (rule vspec_complete_refused) (auto intro: trained_ok)
next
  case (Inr mode)
  from validated_mode [OF this] m have mode: "mode = m" "m \<in> LORA_TRAINING_MODEL_MODES" by auto
  let ?P = "\<lambda>l F. trained job_id m l F \<and> lo_model_mode l = m0"
  have handoff: "vspec V ?P (reading (\<lambda>w. lift_sum (validated_lora_adapter_handoff cwd audio_dir (vf_key V) (tr_adapter_dir res)
      (lw_files w (vf_key V))))) (\<lambda>_. ?P) (stopped m0) voice_ok"
  proof (rule vspec_reading)
    fix w :: lora_world and l
    assume l: "?P l (lw_files w (vf_key V))"
    show "vspec V (\<lambda>l' F. l' = l \<and> F = lw_files w (vf_key V))
       (lift_sum (validated_lora_adapter_handoff cwd audio_dir (vf_key V) (tr_adapter_dir res) (lw_files w (vf_key V))))
       (\<lambda>_. ?P) (stopped m0) voice_ok"
      by (rule vspec_weaken, rule vspec_lift_error [where E = "stopped m0"])
        (use l in \<open>auto simp: validated_lora_adapter_handoff_def Let_def trained_ok split: option.splits if_splits\<close>)
  qed
  have replace: "vspec V (\<lambda>l F. on_record job_id m m l F \<and> waiting m m0 F) (replace_lora_adapter (vf_key V) (Some m0))
      (\<lambda>_ l F. on_record job_id m m l F \<and> moved m F) (stopped m0) voice_ok"
    unfolding replace_lora_adapter_def by (rule vspec_seq [OF vspec_stage vspec_move])
  have rest: "vspec V (\<lambda>l F. on_record job_id m m l F \<and> moved m F) (seq_p (remove_replaced_lora_paths (vf_key V))
      (seq_p (clear_completed_training_model_mode (vf_key V)) (mark_lora_training_complete (vf_key V) job_id m n)))
      (\<lambda>_. ready_with m) (stopped m0) voice_ok" for n
    by (rule vspec_weaken [OF vspec_seq [OF vspec_remove_replaced vspec_seq [OF vspec_clear vspec_mark [OF mode(2)]]]])
      (auto intro: moved_adopted)
  have lift: "lift_sum (Inr m :: job_exn + string) = give m" by (simp add: lift_sum_def)
  show ?thesis
    unfolding complete_lora_training_def Inr mode(1) lift bind_give
    by (rule vspec_seq [OF handoff], rule vspec_seq [OF vspec_record], rule vspec_bind [OF vspec_save_mode [OF mode(2)]],
        rule vspec_pure) (use vspec_seq [OF replace rest] in simp)
qed

text \<open>Every exception but the restored adapter ends in a failed voice or leaves it as it is.\<close>

lemma vspec_settle_handler:
  assumes "\<And>p. e \<noteq> Previous_Restored p"
  shows "vspec V voice_ok (settle_exception (vf_key V) job_id e)
    (\<lambda>_. voice_ok) (\<lambda>_. voice_ok) voice_ok"
proof -
  have cancelled: "vspec V voice_ok (handle_cancelled_lora_training (vf_key V) job_id) (\<lambda>_. voice_ok) (\<lambda>_. voice_ok) voice_ok"
    and failed: "vspec V voice_ok (fail_lora_training (vf_key V) job_id e t) (\<lambda>_. voice_ok) (\<lambda>_. voice_ok) voice_ok" for e t
    by (rule vspec_weaken [OF vspec_cancelled], auto dest: stopped_ok) (rule vspec_weaken [OF vspec_fail_training], auto dest: stopped_ok)
  have "vspec V voice_ok (seq_p (handle_cancelled_lora_training (vf_key V) job_id) (throw Cancelled))
      (\<lambda>_. voice_ok) (\<lambda>_. voice_ok) voice_ok"
    by (rule vspec_seq [OF cancelled]) (rule vspec_throw)
  with assms failed show ?thesis unfolding settle_exception_def by (cases e) auto
qed

lemma vspec_keep_restored:
  assumes "m0 \<in> LORA_TRAINING_MODEL_MODES"
  shows "vspec V (\<lambda>l F. F Final_Dir = Some (Adapter m0)) (keep_restored_lora_adapter (vf_key V) job_id (Some m0))
    (\<lambda>_. voice_ok) (\<lambda>_ _ _. True) (\<lambda>_ _. True)"
proof -
  have paths: "vspec V (\<lambda>l F. F Final_Dir = Some (Adapter m0)) (cleanup_failed_lora_paths (vf_key V))
      (\<lambda>_ l F. F Final_Dir = Some (Adapter m0)) (\<lambda>_ _ _. True) (\<lambda>_ _. True)"
    by (rule vspec_cleanup_paths) auto
  have commit: "vspec V (\<lambda>l F. F Final_Dir = Some (Adapter m0)) (commit_lora (snd (vf_key V)) (ready_lora (vf_key V) (Some m0) None)
      [(fst (vf_key V), snd (vf_key V), ''ready: retained previous adapter after failed replacement'')])
      (\<lambda>_. ready_with m0) (\<lambda>_ _ _. True) (\<lambda>_ _. True)"
    by (rule vspec_commit) (use assms in \<open>auto simp: ready_with_def or_else_def\<close>)
  show ?thesis unfolding keep_restored_lora_adapter_def
    by (simp only: option.distinct if_False, rule vspec_seq [OF paths], rule vspec_seq [OF commit], rule vspec_seq,
        rule vspec_update_job) (auto intro: vspec_give ready_with_ok)
qed

definition frame_of :: "bool \<Rightarrow> voice_key \<Rightarrow> lora_world \<Rightarrow> voice_frame" where
  "frame_of calm key w = \<lparr>vf_calm = calm, vf_key = key, vf_rest = voice_state w\<rparr>"

lemma frame_simps [simp]: "vf_key (frame_of calm key w) = key" "vf_calm (frame_of calm key w) = calm"
    "vf_rest (frame_of calm key w) = voice_state w"
  by (simp_all add: frame_of_def)

lemma voice_of_world:
  assumes "voices_ok w" and "get_lora k (lw_loras w) = Some l" and "calm \<Longrightarrow> w_script w = []"
    and "\<Phi> l (lw_files w (lo_user_id l, k))"
  shows "voice (frame_of calm (lo_user_id l, k) w) \<Phi> w"
  using assms by (auto simp: voice_def voices_ok_def)

lemma world_of_voice:
  assumes ok: "voices_ok w" and v: "voice (frame_of calm key w) voice_ok w'"
  shows "voices_ok w'"
  unfolding voices_ok_def
proof (intro conjI allI impI)
  show "distinct (map lo_id (lw_loras w'))" using v by (simp add: voice_def)
  fix k l assume l: "get_lora k (lw_loras w') = Some l"
  show "voice_ok l (lw_files w' (lo_user_id l, k))"
  proof (cases "k = snd key")
    case True
    then show ?thesis using v l by (auto simp: voice_def)
  next
    case False
    then have same: "voice_state w' k = voice_state w k" using v by (simp add: voice_def)
    then obtain l' where l': "get_lora k (lw_loras w) = Some l'"
      using l by (cases "get_lora k (lw_loras w)") (auto simp: voice_state_def)
    moreover from l' same l have "l = l'" "lw_files w' (lo_user_id l, k) = lw_files w (lo_user_id l', k)"
      by (auto simp: voice_state_def)
    ultimately show ?thesis using ok by (auto simp: voices_ok_def)
  qed
qed

text \<open>The handler of an exception, if a restored adapter's handling gets through.\<close>

lemma handled_ok:
  assumes ok: "voices_ok w" and stopped: "voice (frame_of False key w) (stopped m0 e) w'"
    and supported: "m0 \<in> LORA_TRAINING_MODEL_MODES"
    and handled: "(\<forall>p. e \<noteq> Previous_Restored p) \<or> fst (settle_exception key job_id e w') = Done ()"
  shows "voices_ok (snd (settle_exception key job_id e w'))"
proof (cases "\<exists>p. e = Previous_Restored p")
  case False
  let ?V = "frame_of False key w"
  from False have other: "\<And>p. e \<noteq> Previous_Restored p" by blast
  from stopped have "voice ?V voice_ok w'" by (rule voice_mono) (rule stopped_ok)
  from runs_to_snd [OF vspec_settle_handler [OF other, of ?V job_id, unfolded vspec_def frame_simps] this]
  show ?thesis by (rule world_of_voice [OF ok])
next
  case True
  let ?V = "frame_of False key w"
  obtain p where e: "e = Previous_Restored p" using True by blast
  with stopped have p: "p = Some m0" and final: "voice ?V (\<lambda>l F. F Final_Dir = Some (Adapter m0)) w'"
    by (auto simp: stopped_def restored_def voice_def)
  have settle: "settle_exception key job_id e = keep_restored_lora_adapter key job_id (Some m0)"
    by (simp add: settle_exception_def e p)
  have "fst (settle_exception key job_id e w') = Done ()" using handled e by blast
  then obtain w'' where kept: "keep_restored_lora_adapter key job_id (Some m0) w' = (Done (), w'')"
    unfolding settle by (metis prod.collapse)
  from runs_toD(1) [OF vspec_keep_restored [OF supported, of ?V job_id, unfolded vspec_def] final] kept
  have "voice ?V voice_ok w''" by simp
  then show ?thesis unfolding settle kept by (simp add: world_of_voice [OF ok])
qed

lemma settle_keeps_voices:
  assumes ok: "voices_ok w" and l: "get_lora k (lw_loras w) = Some l" and key: "key = (lo_user_id l, k)"
    and trained: "trained job_id (tr_mode res) l (lw_files w key)" and supported: "lo_model_mode l \<in> LORA_TRAINING_MODEL_MODES"
    and body: "body = complete_lora_training py_repr show_samples cwd audio_dir key job_id target res"
    and restored: "(\<forall>p. fst (body w) \<noteq> Raised (Previous_Restored p)) \<or> fst (settle_lora_training key job_id body w) = Done ()"
  shows "voices_ok (snd (settle_lora_training key job_id body w))"
proof -
  let ?V = "frame_of False key w" and ?m0 = "lo_model_mode l"
  have start: "voice ?V (\<lambda>l' F. trained job_id (tr_mode res) l' F \<and> lo_model_mode l' = ?m0) w"
    using voice_of_world [OF ok l, of False] trained key by simp
  have spec: "runs_to (voice ?V (\<lambda>l' F. trained job_id (tr_mode res) l' F \<and> lo_model_mode l' = ?m0)) body
      (\<lambda>_. voice ?V (ready_with (tr_mode res))) (\<lambda>e. voice ?V (stopped ?m0 e)) (voice ?V voice_ok)"
    using vspec_complete [OF refl, of ?V job_id res ?m0 py_repr show_samples cwd audio_dir target] unfolding vspec_def body by simp
  obtain r w' where run: "body w = (r, w')" by fastforce
  note facts = runs_toD [OF spec start]
  show ?thesis
  proof (cases r)
    case (Done u)
    then have "voice ?V voice_ok w'" using facts(1) run by (auto intro: voice_mono ready_with_ok)
    then show ?thesis using run Done world_of_voice [OF ok] by (simp add: settle_lora_training_def attempt_def)
  next
    case Killed
    then have "voice ?V voice_ok w'" using facts(3) run by simp
    then show ?thesis using run Killed world_of_voice [OF ok] by (simp add: settle_lora_training_def attempt_def)
  next
    case (Raised e)
    from facts(2) [OF run [unfolded Raised]] have stopped: "voice ?V (stopped ?m0 e) w'" .
    have same: "settle_lora_training key job_id body w = settle_exception key job_id e w'"
      by (simp add: settle_lora_training_def attempt_def run Raised)
    have "(\<forall>p. e \<noteq> Previous_Restored p) \<or> fst (settle_exception key job_id e w') = Done ()"
      using restored unfolding same run Raised by simp
    from handled_ok [OF ok stopped supported this] show ?thesis unfolding same .
  qed
qed

end
