(* ===== verification/Lora_Reconcile.thy ===== *)
theory Lora_Reconcile
  imports Lora_Safety
begin

text \<open>
  What reconciliation makes of a training that was cut off (\<open>reconcile_crashed_loras\<close>): it keeps every
  voice consistent wherever it is itself cut off, and left alone it settles every voice whose job is
  over.
\<close>

subsection \<open>Recovering an adapter\<close>

lemma recorded_dirs [simp]:
  "p \<noteq> Mode_File \<Longrightarrow> recorded l (F(p := n)) = recorded l F" "p \<noteq> Mode_File \<Longrightarrow> record_readable (F(p := n)) = record_readable F"
  by (simp_all add: recorded_def record_readable_def cong: option.case_cong)

definition to_adopt :: "user_lora \<Rightarrow> string \<Rightarrow> voice_cond" where
  "to_adopt l m l' F \<longleftrightarrow> l' = l \<and> lo_status l \<in> LORA_ACTIVE_STATUSES \<and> recorded l F = Some m \<and> record_readable F \<and> adopting m F"

definition to_keep :: "user_lora \<Rightarrow> voice_cond" where
  "to_keep l l' F \<longleftrightarrow> l' = l \<and> lo_status l \<in> LORA_ACTIVE_STATUSES \<and> recorded l F = None \<and> record_readable F \<and> keeping l F"

lemma to_adopt_ok: "to_adopt l m l' F \<Longrightarrow> voice_ok l' F"
  by (auto simp: to_adopt_def voice_ok_def dest: active_not_ready)

lemma to_keep_ok: "to_keep l l' F \<Longrightarrow> voice_ok l' F"
  by (auto simp: to_keep_def voice_ok_def dest: active_not_ready)

lemma active_voice_cases:
  "voice_ok l F \<Longrightarrow> lo_status l \<in> LORA_ACTIVE_STATUSES \<Longrightarrow>
     (case recorded l F of Some m \<Rightarrow> to_adopt l m l F | None \<Rightarrow> to_keep l l F)"
  by (auto simp: voice_ok_def to_adopt_def to_keep_def split: option.splits)

text \<open>While the program is calm it raises nothing; otherwise it leaves the voice consistent.\<close>

definition unlucky :: "voice_frame \<Rightarrow> job_exn \<Rightarrow> voice_cond" where
  "unlucky V e l F \<longleftrightarrow> \<not> vf_calm V \<and> voice_ok l F"

definition crashed :: "voice_frame \<Rightarrow> voice_cond" where
  "crashed V l F \<longleftrightarrow> \<not> vf_calm V \<and> voice_ok l F"

lemmas unluck = unlucky_def crashed_def

lemma require_dir [simp]: "dir_or_none n \<Longrightarrow> require_lora_adapter_directory n d = give ()"
  by (auto simp: require_lora_adapter_directory_def dir_or_none_def)

lemma adopting_dirs:
  assumes "adopting m F"
  shows "dir_or_none (F Final_Dir)" "dir_or_none (F Previous_Dir)" "dir_or_none (F Training_Tmp)" "m \<in> LORA_TRAINING_MODEL_MODES"
    "is_dir (F Training_Tmp) \<longleftrightarrow> F Training_Tmp = Some (Adapter m)"
  using assms by (auto simp: adopting_def)

lemma moved_previous:
  assumes "to_adopt l m l' F \<and> moved m F" and "dir_or_none n"
  shows "to_adopt l m l' (F(Previous_Dir := n)) \<and> moved m (F(Previous_Dir := n))"
  using assms by (auto simp: to_adopt_def moved_def adopting_def)

lemma vspec_drop_previous:
  assumes "\<And>l F n. \<Phi> l F \<Longrightarrow> dir_or_none n \<Longrightarrow> \<Phi> l (F(Previous_Dir := n))" and "\<And>l F. \<Phi> l F \<Longrightarrow> voice_ok l F"
    and "\<And>l F. \<Phi> l F \<Longrightarrow> dir_or_none (F Previous_Dir)"
  shows "vspec V \<Phi> (reading (\<lambda>w. if lw_files w (vf_key V) Previous_Dir \<noteq> None then rmtree (vf_key V) Previous_Dir else give ()))
    (\<lambda>_. \<Phi>) (unlucky V) (crashed V)"
proof (rule vspec_reading)
  fix w :: lora_world and l :: user_lora
  let ?F = "lw_files w (vf_key V)"
  assume F: "\<Phi> l ?F"
  have "vspec V (\<lambda>l' F. l' = l \<and> F = ?F) (rmtree (vf_key V) Previous_Dir) (\<lambda>_. \<Phi>) (unlucky V) (crashed V)"
    if "?F Previous_Dir \<noteq> None"
  proof -
    have "is_dir (?F Previous_Dir)" using assms(3) [OF F] that by (simp add: dir_or_none_def)
    then show ?thesis
      by (intro vspec_rmtree) (use F assms(1,2) in \<open>auto simp: unluck\<close>)
  qed
  then show "vspec V (\<lambda>l' F. l' = l \<and> F = ?F)
      (if ?F Previous_Dir \<noteq> None then rmtree (vf_key V) Previous_Dir else give ()) (\<lambda>_. \<Phi>) (unlucky V) (crashed V)"
    using F by (auto intro: vspec_give)
qed

lemma vspec_recover_recorded:
  "vspec V (to_adopt l m) (recover_recorded_lora_adapter (vf_key V))
     (\<lambda>r l' F. r \<and> to_adopt l m l' F \<and> moved m F) (unlucky V) (crashed V)"
  unfolding recover_recorded_lora_adapter_def
proof (rule vspec_reading)
  fix w :: lora_world and l' :: user_lora
  let ?F = "lw_files w (vf_key V)" and ?key = "vf_key V"
  let ?moved = "\<lambda>l' F. to_adopt l m l' F \<and> moved m F"
  assume F: "to_adopt l m l' ?F"
  then have ad: "adopting m ?F" by (simp add: to_adopt_def)
  note dirs = adopting_dirs [OF ad]
  let ?at = "\<lambda>l'' F. l'' = l' \<and> F = ?F"
  have swap: "vspec V ?at
      (if is_dir (?F Training_Tmp)
       then seq_p (if ?F Final_Dir \<noteq> None then rename ?key Final_Dir Previous_Dir else give ()) (rename ?key Training_Tmp Final_Dir)
       else give ()) (\<lambda>_. ?moved) (unlucky V) (crashed V)"
  proof (cases "is_dir (?F Training_Tmp)")
    case False
    then show ?thesis using F ad by (auto intro!: vspec_give simp: adopting_def moved_def)
  next
    case True
    then have tmp: "?F Training_Tmp = Some (Adapter m)" using dirs(5) by simp
    let ?free = "\<lambda>l' F. to_adopt l m l' F \<and> F Training_Tmp = Some (Adapter m) \<and> F Final_Dir = None"
    have "vspec V ?at (if ?F Final_Dir \<noteq> None then rename ?key Final_Dir Previous_Dir else give ()) (\<lambda>_. ?free) (unlucky V) (crashed V)"
    proof (cases "?F Final_Dir")
      case None
      then show ?thesis using F tmp by (auto intro!: vspec_give)
    next
      case (Some n)
      have free: "\<not> blocked (?F Final_Dir) (?F Previous_Dir)" using ad tmp Some by (auto simp: adopting_def blocked_def)
      have "vspec V ?at (rename ?key Final_Dir Previous_Dir) (\<lambda>_. ?free) (unlucky V) (crashed V)"
        by (rule vspec_rename)
          (use F ad tmp Some free to_adopt_ok [OF F] in \<open>auto simp: unluck to_adopt_def adopting_def dir_or_none_def\<close>)
      then show ?thesis using Some by simp
    qed
    moreover have "vspec V ?free (rename ?key Training_Tmp Final_Dir) (\<lambda>_. ?moved) (unlucky V) (crashed V)"
      by (rule vspec_rename) (auto simp: unluck moved_def blocked_def to_adopt_def adopting_def
          intro: to_adopt_ok [unfolded to_adopt_def adopting_def])
    ultimately show ?thesis using True by (simp add: vspec_seq)
  qed
  have drop: "vspec V ?moved (reading (\<lambda>w. if lw_files w ?key Previous_Dir \<noteq> None then rmtree ?key Previous_Dir else give ()))
      (\<lambda>_. ?moved) (unlucky V) (crashed V)"
    by (rule vspec_drop_previous) (use moved_previous to_adopt_ok in \<open>auto simp: moved_def\<close>)
  have result: "vspec V ?moved (reading (\<lambda>w. give (is_dir (lw_files w ?key Final_Dir))))
      (\<lambda>r l' F. r \<and> to_adopt l m l' F \<and> moved m F) (unlucky V) (crashed V)"
    by (rule vspec_reading) (auto intro!: vspec_give simp: moved_def)
  show "vspec V ?at
      (let F = ?F in seq_p (require_lora_adapter_directory (F Final_Dir) ''LoRA adapter'')
        (seq_p (require_lora_adapter_directory (F Previous_Dir) ''Previous LoRA adapter'')
        (seq_p (require_lora_adapter_directory (F Training_Tmp) ''Temporary LoRA adapter'')
        (seq_p (if is_dir (F Training_Tmp)
                then seq_p (if F Final_Dir \<noteq> None then rename ?key Final_Dir Previous_Dir else give ()) (rename ?key Training_Tmp Final_Dir)
                else give ())
        (seq_p (reading (\<lambda>w. if lw_files w ?key Previous_Dir \<noteq> None then rmtree ?key Previous_Dir else give ()))
          (reading (\<lambda>w. give (is_dir (lw_files w ?key Final_Dir)))))))))
      (\<lambda>r l' F. r \<and> to_adopt l m l' F \<and> moved m F) (unlucky V) (crashed V)"
    using dirs vspec_seq [OF swap vspec_seq [OF drop result]] by (simp add: Let_def)
qed

lemma keeping_previous: "to_keep l l' F \<and> F Final_Dir \<noteq> None \<Longrightarrow> dir_or_none n \<Longrightarrow>
    to_keep l l' (F(Previous_Dir := n)) \<and> (F(Previous_Dir := n)) Final_Dir \<noteq> None"
  by (auto simp: to_keep_def keeping_def)

text \<open>The result says whether there was an adapter, in place or set aside.\<close>

definition had_adapter :: "lora_files \<Rightarrow> bool" where
  "had_adapter F \<longleftrightarrow> F Final_Dir \<noteq> None \<or> F Previous_Dir \<noteq> None"

definition kept :: "user_lora \<Rightarrow> lora_files \<Rightarrow> bool \<Rightarrow> voice_cond" where
  "kept l F0 r l' F \<longleftrightarrow> to_keep l l' F \<and> (r \<longleftrightarrow> had_adapter F0) \<and>
     (if r then F Final_Dir = Some (Adapter (lo_model_mode l)) else F Final_Dir = None)"

lemma kept_result:
  "had_adapter F0 \<Longrightarrow>
   vspec V (\<lambda>l' F. to_keep l l' F \<and> F Final_Dir \<noteq> None) (reading (\<lambda>w. give (is_dir (lw_files w (vf_key V) Final_Dir))))
     (kept l F0) (unlucky V) (crashed V)"
  by (rule vspec_reading) (auto intro!: vspec_give simp: kept_def to_keep_def keeping_def)

lemma vspec_restore_previous:
  assumes F: "to_keep l l F0"
  shows "vspec V (\<lambda>l' F. l' = l \<and> F = F0) (restore_previous_lora_adapter (vf_key V)) (kept l F0) (unlucky V) (crashed V)"
  unfolding restore_previous_lora_adapter_def
proof (rule vspec_reading)
  fix w :: lora_world and l' :: user_lora
  let ?F = "lw_files w (vf_key V)" and ?key = "vf_key V"
  let ?at = "\<lambda>l'' F. l'' = l' \<and> F = ?F" and ?placed = "\<lambda>l' F. to_keep l l' F \<and> F Final_Dir \<noteq> None"
  assume "l' = l \<and> ?F = F0"
  then have l': "l' = l" and F0: "?F = F0" by simp_all
  show "vspec V ?at
      (let F = ?F in if F Previous_Dir = None then give (is_dir (F Final_Dir))
         else seq_p (if F Final_Dir \<noteq> None
                     then seq_p (require_lora_adapter_directory (F Final_Dir) ''LoRA adapter'') (rmtree ?key Previous_Dir)
                     else rename ?key Previous_Dir Final_Dir)
                (reading (\<lambda>w. give (is_dir (lw_files w ?key Final_Dir))))) (kept l F0) (unlucky V) (crashed V)"
  proof (cases "F0 Previous_Dir = None")
    case True
    then show ?thesis using F l' F0 by (auto intro!: vspec_give simp: kept_def to_keep_def keeping_def had_adapter_def)
  next
    case False
    then have prev: "is_dir (F0 Previous_Dir)" and had: "had_adapter F0"
      using F by (auto simp: to_keep_def keeping_def dir_or_none_def had_adapter_def)
    have step: "vspec V ?at (if F0 Final_Dir \<noteq> None
        then seq_p (require_lora_adapter_directory (F0 Final_Dir) ''LoRA adapter'') (rmtree ?key Previous_Dir)
        else rename ?key Previous_Dir Final_Dir) (\<lambda>_. ?placed) (unlucky V) (crashed V)"
    proof (cases "F0 Final_Dir = None")
      case True
      have "vspec V ?at (rename ?key Previous_Dir Final_Dir) (\<lambda>_. ?placed) (unlucky V) (crashed V)"
        by (rule vspec_rename)
          (use F l' F0 False True to_keep_ok [OF F] in \<open>auto simp: unluck blocked_def to_keep_def keeping_def\<close>)
      then show ?thesis using True by simp
    next
      case False
      then have dir: "dir_or_none (F0 Final_Dir)" using F by (auto simp: to_keep_def keeping_def)
      have "vspec V ?at (rmtree ?key Previous_Dir) (\<lambda>_. ?placed) (unlucky V) (crashed V)"
        by (rule vspec_rmtree)
          (use F l' F0 False prev keeping_previous [of l l F0] to_keep_ok [OF F] to_keep_ok [of l l] in \<open>auto simp: unluck\<close>)
      then show ?thesis using False dir by simp
    qed
    show ?thesis unfolding Let_def F0 if_not_P [OF False]
      by (rule vspec_seq [OF step [unfolded F0] kept_result [OF had]])
  qed
qed

subsection \<open>One voice\<close>

text \<open>Status and mode of a voice after an interrupted training.\<close>

definition voice_outcome :: "user_lora \<Rightarrow> lora_files \<Rightarrow> lora_status \<times> string" where
  "voice_outcome l F =
     (case recorded l F of
        Some m \<Rightarrow> (L_Ready, m)
      | None \<Rightarrow> (if had_adapter F then L_Ready else L_Failed, lo_model_mode l))"

definition ends_as :: "user_lora \<Rightarrow> lora_files \<Rightarrow> voice_cond" where
  "ends_as l0 F0 l F \<longleftrightarrow> voice_ok l F \<and> (lo_status l, lo_model_mode l) = voice_outcome l0 F0"

lemma ends_as_over: "ends_as l0 F0 l F \<Longrightarrow> lo_status l = L_Ready \<or> lo_status l = L_Failed"
  by (auto simp: ends_as_def voice_outcome_def split: option.splits if_splits)

lemma ends_as_irrelevant: "p \<noteq> Final_Dir \<Longrightarrow> ends_as l0 F0 l (F(p := n)) = ends_as l0 F0 l F"
proof (cases "lo_status l = L_Ready \<or> lo_status l = L_Failed")
  case True
  moreover assume "p \<noteq> Final_Dir"
  ultimately show ?thesis by (auto simp: ends_as_def voice_ok_def dest: active_not_ready)
qed (auto dest: ends_as_over)

lemma vspec_persist_ready:
  assumes "\<And>l F. \<Phi> l F \<Longrightarrow> voice_ok l F" and "case mode of None \<Rightarrow> True | Some m \<Rightarrow> m \<in> LORA_TRAINING_MODEL_MODES"
    and "\<And>l F. \<Phi> l F \<Longrightarrow> F Final_Dir = Some (Adapter (or_else mode (lo_model_mode l)))"
    and "\<And>l F. \<Phi> l F \<Longrightarrow> voice_outcome l0 F0 = (L_Ready, or_else mode (lo_model_mode l))"
  shows "vspec V \<Phi> (persist_crashed_lora_reconciliation (vf_key V) mode True) (\<lambda>_. ends_as l0 F0) (unlucky V) (crashed V)"
proof -
  have ready: "ready_with m l F \<Longrightarrow> voice_outcome l0 F0 = (L_Ready, m) \<Longrightarrow> ends_as l0 F0 l F" for m l F
    using ready_with_ok by (auto simp: ends_as_def ready_with_def)
  show ?thesis
    unfolding persist_crashed_lora_reconciliation_def
    by (simp only: simp_thms if_False, rule vspec_reading, rule vspec_commit)
      (use assms in \<open>auto intro!: ready simp: ready_with_def unluck or_else_def split: option.splits\<close>)
qed

lemma vspec_persist_failed:
  assumes "\<And>l F. \<Phi> l F \<Longrightarrow> voice_ok l F" and "\<And>l F. \<Phi> l F \<Longrightarrow> voice_outcome l0 F0 = (L_Failed, lo_model_mode l)"
  shows "vspec V \<Phi> (persist_crashed_lora_reconciliation (vf_key V) mode False) (\<lambda>_. ends_as l0 F0) (unlucky V) (crashed V)"
  unfolding persist_crashed_lora_reconciliation_def cleanup_failed_lora_def
  by (simp only: simp_thms if_True, rule vspec_reading, rule vspec_commit)
    (use assms in \<open>auto simp: ends_as_def failed_voice_ok unluck failed_lora_def no_update_def write_lora_def or_else_def\<close>)

lemma completed_recorded:
  "record_readable F \<Longrightarrow> completed_model_mode_for_lora F (lo_training_job_id l) = Inr (recorded l F)"
  by (auto simp: completed_model_mode_for_lora_def read_completed_training_model_mode_def record_readable_def recorded_def
      split: option.splits lora_node.splits)

lemma vspec_reconcile_row:
  assumes "vf_key V = (lo_user_id l, lo_id l)"
    and F: "lo_status l \<in> LORA_ACTIVE_STATUSES \<and> voice_ok l F0"
  shows "vspec V (\<lambda>l' F. l' = l \<and> F = F0) (reconcile_row l) (\<lambda>_. ends_as l F0) (unlucky V) (crashed V)"
  unfolding reconcile_row_def assms(1) [symmetric] Let_def
proof (rule vspec_reading)
  fix w :: lora_world and l' :: user_lora
  let ?F = "lw_files w (vf_key V)" and ?key = "vf_key V"
  assume "l' = l \<and> ?F = F0"
  then have l': "l' = l" and F0: "?F = F0" by simp_all
  from F have readable: "record_readable F0" by (simp add: voice_ok_def)
  have lift: "lift_sum (Inr x :: job_exn + string option) = give x" for x by (simp add: lift_sum_def)
  let ?at = "\<lambda>l'' F. l'' = l \<and> F = F0"
  have "vspec V ?at (bind_p (recover_complete_lora_adapter ?key (recorded l F0)) (\<lambda>recovered_adapter.
         seq_p (persist_crashed_lora_reconciliation ?key (recorded l F0) recovered_adapter)
           (give (recovered_adapter, recorded l F0)))) (\<lambda>_. ends_as l F0) (unlucky V) (crashed V)"
  proof (cases "recorded l F0")
    case (Some m)
    then have adopt: "to_adopt l m l F0" using active_voice_cases [of l F0] F by simp
    then have supported: "m \<in> LORA_TRAINING_MODEL_MODES" by (auto simp: to_adopt_def dest: adopting_dirs(4))
    then have recover: "vspec V ?at (recover_recorded_lora_adapter ?key)
        (\<lambda>r l' F. r \<and> to_adopt l m l' F \<and> moved m F) (unlucky V) (crashed V)"
      using adopt by (intro vspec_weaken [OF vspec_recover_recorded]) auto
    have persist: "vspec V (\<lambda>l' F. to_adopt l m l' F \<and> moved m F) (persist_crashed_lora_reconciliation ?key (Some m) True)
        (\<lambda>_. ends_as l F0) (unlucky V) (crashed V)"
      by (rule vspec_persist_ready) (use supported Some in \<open>auto simp: moved_def or_else_def to_adopt_def voice_outcome_def
          intro: to_adopt_ok [unfolded to_adopt_def]\<close>)
    have same: "recover_complete_lora_adapter ?key (Some m) = recover_recorded_lora_adapter ?key"
      by (simp add: recover_complete_lora_adapter_def)
    have final: "vspec V (\<lambda>l' F. to_adopt l m l' F \<and> moved m F)
        (seq_p (persist_crashed_lora_reconciliation ?key (Some m) True) (give (True, Some m))) (\<lambda>_. ends_as l F0) (unlucky V) (crashed V)"
      by (rule vspec_seq [OF persist]) (rule vspec_give)
    show ?thesis unfolding Some same
      by (rule vspec_bind [OF recover], rule vspec_pure) (use final in simp)
  next
    case None
    then have "to_keep l l F0" using active_voice_cases [of l F0] F by simp
    then have recover: "vspec V ?at (restore_previous_lora_adapter ?key) (kept l F0) (unlucky V) (crashed V)"
      by (rule vspec_restore_previous)
    have ok: "kept l F0 r l' F \<Longrightarrow> voice_ok l' F" for r l' F using to_keep_ok unfolding kept_def by blast
    have yes: "vspec V (kept l F0 True) (persist_crashed_lora_reconciliation ?key None True) (\<lambda>_. ends_as l F0)
        (unlucky V) (crashed V)"
      by (rule vspec_persist_ready) (use ok None in \<open>auto simp: kept_def or_else_def to_keep_def voice_outcome_def\<close>)
    have no: "vspec V (kept l F0 False) (persist_crashed_lora_reconciliation ?key None False) (\<lambda>_. ends_as l F0)
        (unlucky V) (crashed V)"
      by (rule vspec_persist_failed) (use ok None in \<open>auto simp: kept_def to_keep_def voice_outcome_def\<close>)
    have "vspec V (kept l F0 r) (persist_crashed_lora_reconciliation ?key None r) (\<lambda>_. ends_as l F0) (unlucky V) (crashed V)" for r
      using yes no by (cases r) simp_all
    then have final: "vspec V (kept l F0 r) (seq_p (persist_crashed_lora_reconciliation ?key None r) (give (r, None)))
        (\<lambda>_. ends_as l F0) (unlucky V) (crashed V)" for r
      by (rule vspec_seq) (rule vspec_give)
    have same: "recover_complete_lora_adapter ?key None = restore_previous_lora_adapter ?key"
      by (simp add: recover_complete_lora_adapter_def)
    show ?thesis unfolding None same by (rule vspec_bind [OF recover final])
  qed
  then show "vspec V (\<lambda>l'' F. l'' = l' \<and> F = ?F)
      (bind_p (lift_sum (completed_model_mode_for_lora ?F (lo_training_job_id l))) (\<lambda>completed_model_mode.
         bind_p (recover_complete_lora_adapter ?key completed_model_mode) (\<lambda>recovered_adapter.
         seq_p (persist_crashed_lora_reconciliation ?key completed_model_mode recovered_adapter)
           (give (recovered_adapter, completed_model_mode))))) (\<lambda>_. ends_as l F0) (unlucky V) (crashed V)"
    unfolding l' F0 completed_recorded [OF readable] lift bind_give .
qed

lemma vspec_finish:
  "vspec V (ends_as l0 F0) (finish_reconciled (vf_key V) r) (\<lambda>_. ends_as l0 F0) (unlucky V) (crashed V)"
proof -
  have lost: "\<not> vf_calm V \<Longrightarrow> ends_as l0 F0 l F \<Longrightarrow> crashed V l F" for l F by (simp add: crashed_def ends_as_def)
  have clear: "vspec V (ends_as l0 F0) (clear_completed_training_model_mode (vf_key V)) (\<lambda>_. ends_as l0 F0) (unlucky V) (crashed V)"
    unfolding clear_completed_training_model_mode_def
    by (rule vspec_suppress, rule vspec_unlink) (auto simp: ends_as_irrelevant lost)
  have paths: "vspec V (ends_as l0 F0) (seq_p (cleanup_failed_lora_paths (vf_key V)) (give ()))
      (\<lambda>_. ends_as l0 F0) (unlucky V) (crashed V)"
    by (rule vspec_seq [OF vspec_cleanup_paths]) (auto simp: ends_as_irrelevant lost intro: vspec_give)
  show ?thesis unfolding finish_reconciled_def
    using vspec_seq [OF clear paths] paths by simp
qed

subsection \<open>The loop\<close>

text \<open>Jobs are only read.\<close>

definition keeps_jobs :: "'a lora_prog \<Rightarrow> bool" where
  "keeps_jobs p \<longleftrightarrow> (\<forall>w. jw_jobs (snd (p w)) = jw_jobs w)"

lemma keeps_jobsI: "(\<And>w. jw_jobs (snd (p w)) = jw_jobs w) \<Longrightarrow> keeps_jobs p"
  by (simp add: keeps_jobs_def)

lemma keeps_jobs_give: "keeps_jobs (give x)" and keeps_jobs_throw: "keeps_jobs (throw e)"
  by (simp_all add: keeps_jobs_def give_def throw_def)

lemma keeps_jobs_bind: "keeps_jobs p \<Longrightarrow> (\<And>x. keeps_jobs (q x)) \<Longrightarrow> keeps_jobs (bind_p p q)"
  by (rule keeps_jobsI) (auto simp: bind_p_def keeps_jobs_def split: prod.splits outcome.splits, (metis snd_conv)+)

lemma keeps_jobs_seq: "keeps_jobs p \<Longrightarrow> keeps_jobs q \<Longrightarrow> keeps_jobs (seq_p p q)"
  unfolding seq_p_def by (rule keeps_jobs_bind)

lemma keeps_jobs_reading: "(\<And>w. keeps_jobs (f w)) \<Longrightarrow> keeps_jobs (reading f)"
  by (simp add: keeps_jobs_def reading_def)

lemma keeps_jobs_attempt: "keeps_jobs p \<Longrightarrow> (\<And>e. keeps_jobs (h e)) \<Longrightarrow> keeps_jobs (attempt p h)"
  by (rule keeps_jobsI) (auto simp: attempt_def keeps_jobs_def split: prod.splits outcome.splits, (metis snd_conv)+)

lemma keeps_jobs_effect:
  assumes "\<And>w. jw_jobs (snd (act w)) = jw_jobs w"
  shows "keeps_jobs (effect e act)"
proof (rule keeps_jobsI)
  fix w :: lora_world
  let ?w = "w\<lparr>w_script := tl (w_script w)\<rparr>"
  obtain r w' where run: "act ?w = (r, w')" by fastforce
  have "jw_jobs w' = jw_jobs w" using assms [of ?w] run by simp
  then show "jw_jobs (snd (effect e act w)) = jw_jobs w"
    unfolding effect_def Let_def run by (auto split: fate.split sum.split)
qed

lemma put_node_jobs [simp]: "jw_jobs (put_node key p n w) = jw_jobs w" "lw_loras (put_node key p n w) = lw_loras w"
  by (simp_all add: put_node_def)

lemma keeps_jobs_files:
  "keeps_jobs (rename key a b)" "keeps_jobs (rmtree key p)" "keeps_jobs (unlink_missing_ok key p)"
  by (auto simp: rename_def rmtree_def unlink_missing_ok_def change_def Let_def intro!: keeps_jobs_seq keeps_jobs_effect)

lemma keeps_jobs_commit: "keeps_jobs (commit_lora k u a)"
  unfolding commit_lora_def by (rule keeps_jobs_effect) (simp split: prod.split sum.split)

lemma keeps_jobs_if: "(b \<Longrightarrow> keeps_jobs p) \<Longrightarrow> (\<not> b \<Longrightarrow> keeps_jobs q) \<Longrightarrow> keeps_jobs (if b then p else q)"
  by simp

lemmas keeps_jobs_rules = keeps_jobs_give keeps_jobs_throw keeps_jobs_bind keeps_jobs_seq keeps_jobs_reading keeps_jobs_attempt
  keeps_jobs_files keeps_jobs_commit keeps_jobs_if

lemma keeps_jobs_path: "keeps_jobs (remove_working_path key p)"
  unfolding remove_working_path_def by (intro keeps_jobs_rules)

lemma keeps_jobs_paths: "keeps_jobs (remove_working_paths key ps b)"
  by (induction ps arbitrary: b) (auto intro: keeps_jobs_rules keeps_jobs_path)

lemma keeps_jobs_lift: "keeps_jobs (lift_sum r)"
  unfolding lift_sum_def by (cases r) (auto intro: keeps_jobs_rules)

lemma keeps_jobs_row: "keeps_jobs (reconcile_row l)"
  unfolding reconcile_row_def recover_complete_lora_adapter_def recover_recorded_lora_adapter_def restore_previous_lora_adapter_def
    persist_crashed_lora_reconciliation_def cleanup_failed_lora_def require_lora_adapter_directory_def Let_def
  by (intro keeps_jobs_rules keeps_jobs_lift)

lemma keeps_jobs_finish: "keeps_jobs (finish_reconciled key r)"
  unfolding finish_reconciled_def clear_completed_training_model_mode_def suppress_os_def cleanup_failed_lora_paths_def
  by (intro keeps_jobs_rules keeps_jobs_paths)

text \<open>One round on a row the query returns.\<close>

definition round :: "user_lora \<Rightarrow> (bool \<times> string option) option lora_prog" where
  "round l = attempt (bind_p (reconcile_row l) (\<lambda>r. give (Some r))) (\<lambda>_. give None)"

lemma reconcilable_row:
  assumes "distinct (map lo_id (lw_loras w))" and "list_reconcilable_loras {} ex (jw_jobs w) (lw_loras w) = l # ls"
  shows "get_lora (lo_id l) (lw_loras w) = Some l" "reconcilable (jw_jobs w) l" "lo_id l \<notin> ex"
proof -
  have "l \<in> set (list_reconcilable_loras {} ex (jw_jobs w) (lw_loras w))" using assms(2) by simp
  then have mem: "l \<in> set (lw_loras w)" and rest: "reconcilable (jw_jobs w) l" "lo_id l \<notin> ex"
    by (auto simp: list_reconcilable_loras_def)
  show "get_lora (lo_id l) (lw_loras w) = Some l" by (rule table_get_mem [OF assms(1) mem])
  show "reconcilable (jw_jobs w) l" "lo_id l \<notin> ex" by (rule rest)+
qed

definition round_end :: "voice_frame \<Rightarrow> user_lora \<Rightarrow> lora_files \<Rightarrow> (bool \<times> string option) option \<Rightarrow> voice_cond" where
  "round_end V l0 F0 r l F \<longleftrightarrow> (case r of Some _ \<Rightarrow> ends_as l0 F0 l F | None \<Rightarrow> unlucky V Cancelled l F)"

lemma vspec_round:
  assumes "vf_key V = (lo_user_id l, lo_id l)" and "lo_status l \<in> LORA_ACTIVE_STATUSES \<and> voice_ok l F0"
  shows "vspec V (\<lambda>l' F. l' = l \<and> F = F0) (round l) (round_end V l F0) E (crashed V)"
  unfolding round_def
proof (rule vspec_attempt)
  show "vspec V (\<lambda>l' F. l' = l \<and> F = F0) (bind_p (reconcile_row l) (\<lambda>r. give (Some r))) (round_end V l F0) (unlucky V) (crashed V)"
    by (rule vspec_bind [OF vspec_reconcile_row [OF assms]]) (rule vspec_give, simp add: round_end_def)
  show "vspec V (unlucky V e) (give None) (round_end V l F0) E (crashed V)" for e
    by (rule vspec_give) (simp add: round_end_def unlucky_def)
qed

lemma round_start:
  assumes ok: "voices_ok w" and rows: "list_reconcilable_loras {} ex (jw_jobs w) (lw_loras w) = l # ls"
    and calm: "calm \<Longrightarrow> w_script w = []" and F0: "F0 = lw_files w (lo_user_id l, lo_id l)"
  shows "voice (frame_of calm (lo_user_id l, lo_id l) w) (\<lambda>l' F. l' = l \<and> F = F0) w"
    and "lo_status l \<in> LORA_ACTIVE_STATUSES \<and> voice_ok l F0"
proof -
  have ids: "distinct (map lo_id (lw_loras w))" using ok by (simp add: voices_ok_def)
  have row: "get_lora (lo_id l) (lw_loras w) = Some l" by (rule reconcilable_row(1) [OF ids rows])
  show "voice (frame_of calm (lo_user_id l, lo_id l) w) (\<lambda>l' F. l' = l \<and> F = F0) w"
    by (rule voice_of_world [OF ok row calm]) (simp_all add: F0)
  show "lo_status l \<in> LORA_ACTIVE_STATUSES \<and> voice_ok l F0"
    using reconcilable_row(2) [OF ids rows] ok row by (auto simp: reconcilable_def active_lora_def voices_ok_def F0)
qed

lemma reconcile_safe:
  "runs_to voices_ok (reconcile_from fuel ex c) (\<lambda>_. voices_ok) (\<lambda>_. voices_ok) voices_ok"
proof (induction fuel arbitrary: ex c)
  case 0
  then show ?case by (auto intro: runs_give)
next
  case (Suc fuel)
  show ?case unfolding reconcile_from.simps
  proof (rule runs_reading)
    fix w assume ok: "voices_ok w"
    show "runs_to (\<lambda>v. v = w) (case list_reconcilable_loras {} ex (jw_jobs w) (lw_loras w) of [] \<Rightarrow> give c
        | l # _ \<Rightarrow> bind_p (attempt (bind_p (reconcile_row l) (\<lambda>r. give (Some r))) (\<lambda>_. give None)) (\<lambda>r.
            case r of None \<Rightarrow> reconcile_from fuel (insert (lo_id l) ex) c
            | Some r' \<Rightarrow> seq_p (finish_reconciled (lo_user_id l, lo_id l) r') (reconcile_from fuel ex (Suc c))))
        (\<lambda>_. voices_ok) (\<lambda>_. voices_ok) voices_ok"
    proof (cases "list_reconcilable_loras {} ex (jw_jobs w) (lw_loras w)")
      case Nil
      then show ?thesis using ok by (auto intro: runs_give)
    next
      case (Cons l ls)
      let ?key = "(lo_user_id l, lo_id l)"
      let ?V = "frame_of False ?key w" and ?F = "lw_files w ?key"
      note world = world_of_voice [OF ok, of False ?key]
      note start = round_start [OF ok Cons _ refl, of False]
      have first: "runs_to (\<lambda>v. v = w) (round l) (\<lambda>r. voice ?V (round_end ?V l ?F r)) (\<lambda>_. voices_ok) voices_ok"
        by (rule runs_to_weaken [OF vspec_round [where V = ?V and l = l and E = "\<lambda>_. voice_ok", unfolded vspec_def, OF _ start(2)]])
          (use start(1) in \<open>auto intro!: world elim!: voice_mono simp: crashed_def\<close>)
      have finish: "runs_to (voice ?V (round_end ?V l ?F (Some r'))) (finish_reconciled ?key r')
          (\<lambda>_. voices_ok) (\<lambda>_. voices_ok) voices_ok" for r'
        by (rule runs_to_weaken [OF vspec_finish [of ?V l ?F r', unfolded vspec_def frame_simps]])
          (auto intro!: world elim!: voice_mono simp: unluck round_end_def ends_as_def)
      have skipped: "runs_to (voice ?V (round_end ?V l ?F None)) (reconcile_from fuel (insert (lo_id l) ex) c)
          (\<lambda>_. voices_ok) (\<lambda>_. voices_ok) voices_ok"
        by (rule runs_to_weaken [OF Suc.IH]) (auto intro!: world elim!: voice_mono simp: unluck round_end_def)
      show ?thesis unfolding Cons list.case round_def [symmetric]
      proof (rule runs_bind [OF first])
        fix r
        show "runs_to (voice ?V (round_end ?V l ?F r)) (case r of None \<Rightarrow> reconcile_from fuel (insert (lo_id l) ex) c
            | Some r' \<Rightarrow> seq_p (finish_reconciled ?key r') (reconcile_from fuel ex (Suc c)))
            (\<lambda>_. voices_ok) (\<lambda>_. voices_ok) voices_ok"
          using skipped runs_seq [OF finish Suc.IH] by (cases r) simp_all
      qed
    qed
  qed
qed

subsection \<open>Left alone\<close>

definition waiting_voices :: "lora_world \<Rightarrow> string set" where
  "waiting_voices w = {k. \<exists>l F. voice_state w k = Some (l, F) \<and> reconcilable (jw_jobs w) l}"

text \<open>Every voice whose job is over has its outcome; the others are as they were.\<close>

definition outcome_reached ::
    "jobs \<Rightarrow> (user_lora \<times> lora_files) option \<Rightarrow> (user_lora \<times> lora_files) option \<Rightarrow> bool" where
  "outcome_reached jobs v v' \<longleftrightarrow>
     (case v of
        None \<Rightarrow> v' = None
      | Some (l, F) \<Rightarrow>
          if reconcilable jobs l
          then (\<exists>l' F'. v' = Some (l', F') \<and> (lo_status l', lo_model_mode l') = voice_outcome l F)
          else v' = Some (l, F))"

definition reconciled :: "lora_world \<Rightarrow> lora_world \<Rightarrow> bool" where
  "reconciled w w' \<longleftrightarrow> (\<forall>k. outcome_reached (jw_jobs w) (voice_state w k) (voice_state w' k))"

lemma finite_waiting: "finite (waiting_voices w)" and few_waiting: "card (waiting_voices w) \<le> length (lw_loras w)"
proof -
  have sub: "waiting_voices w \<subseteq> set (map lo_id (lw_loras w))"
    by (auto simp: waiting_voices_def voice_state_def dest: table_get_Some)
  then show "finite (waiting_voices w)" by (rule finite_subset) simp
  have "card (waiting_voices w) \<le> card (set (map lo_id (lw_loras w)))" by (rule card_mono [OF _ sub]) simp
  also have "\<dots> \<le> length (lw_loras w)" using card_length [of "map lo_id (lw_loras w)"] by simp
  finally show "card (waiting_voices w) \<le> length (lw_loras w)" .
qed

lemma none_waiting:
  assumes "distinct (map lo_id (lw_loras w))"
  shows "list_reconcilable_loras {} {} (jw_jobs w) (lw_loras w) = [] \<longleftrightarrow> waiting_voices w = {}"
proof -
  have "list_reconcilable_loras {} {} (jw_jobs w) (lw_loras w) = [] \<longleftrightarrow>
      set (list_reconcilable_loras {} {} (jw_jobs w) (lw_loras w)) = {}" by simp
  also have "\<dots> \<longleftrightarrow> (\<forall>l \<in> set (lw_loras w). \<not> reconcilable (jw_jobs w) l)"
    by (auto simp: list_reconcilable_loras_def)
  also have "\<dots> \<longleftrightarrow> waiting_voices w = {}"
    using table_get_mem [OF assms] by (auto simp: waiting_voices_def voice_state_def dest: table_get_Some)
  finally show ?thesis .
qed

lemma keeps_jobs_round: "keeps_jobs (round l)"
  unfolding round_def by (intro keeps_jobs_rules keeps_jobs_row)

text \<open>A round without faults.\<close>

lemma calm_round:
  assumes ok: "voices_ok w" and calm: "w_script w = []"
    and rows: "list_reconcilable_loras {} ex (jw_jobs w) (lw_loras w) = l # ls"
    and F0: "F0 = lw_files w (lo_user_id l, lo_id l)"
  obtains r w1 w2 where "round l w = (Done (Some r), w1)" "finish_reconciled (lo_user_id l, lo_id l) r w1 = (Done (), w2)"
    "voice (frame_of True (lo_user_id l, lo_id l) w) (ends_as l F0) w2" "jw_jobs w2 = jw_jobs w"
proof -
  let ?V = "frame_of True (lo_user_id l, lo_id l) w"
  note start = round_start(1) [OF ok rows calm F0, of True] round_start(2) [OF ok rows calm F0]
  have "vspec ?V (\<lambda>l' F. l' = l \<and> F = F0) (round l) (round_end ?V l F0) (\<lambda>_ _ _. False) (crashed ?V)"
    by (rule vspec_round) (simp_all add: start(2))
  note first = this [unfolded vspec_def]
  obtain o1 w1 where run: "round l w = (o1, w1)" by fastforce
  have "\<exists>r. o1 = Done (Some r) \<and> voice ?V (ends_as l F0) w1"
  proof (cases o1)
    case (Done r)
    then show ?thesis using runs_toD(1) [OF first start(1)] run
      by (cases r) (auto simp: round_end_def unlucky_def voice_def)
  next
    case (Raised e)
    then show ?thesis using runs_toD(2) [OF first start(1)] run by (auto simp: voice_def)
  next
    case Killed
    then show ?thesis using runs_toD(3) [OF first start(1)] run by (auto simp: crashed_def voice_def)
  qed
  then obtain r where o1: "o1 = Done (Some r)" and mid: "voice ?V (ends_as l F0) w1" by blast
  note second = vspec_finish [of ?V l F0 r, unfolded vspec_def frame_simps]
  obtain o2 w2 where run2: "finish_reconciled (lo_user_id l, lo_id l) r w1 = (o2, w2)" by fastforce
  have o2: "o2 = Done () \<and> voice ?V (ends_as l F0) w2"
    using runs_toD [OF second mid] run2 by (cases o2) (auto simp: unluck voice_def)
  have "jw_jobs w1 = jw_jobs w" using keeps_jobs_round [of l] run by (metis keeps_jobs_def snd_conv)
  moreover have "jw_jobs w2 = jw_jobs w1" using keeps_jobs_finish run2 by (metis keeps_jobs_def snd_conv)
  ultimately show thesis using that run run2 o1 o2 by simp
qed

lemma voice_state_after:
  assumes "voice (frame_of calm key w) \<Phi> w'"
  shows "k \<noteq> snd key \<Longrightarrow> voice_state w' k = voice_state w k"
    and "\<exists>l F. voice_state w' (snd key) = Some (l, F) \<and> \<Phi> l F"
  using assms by (auto simp: voice_def voice_state_def)

lemma calm_reconcile:
  "voices_ok w \<Longrightarrow> w_script w = [] \<Longrightarrow> card (waiting_voices w) < fuel \<Longrightarrow>
     \<exists>w'. reconcile_from fuel {} c w = (Done (c + card (waiting_voices w)), w') \<and> voices_ok w' \<and> reconciled w w'"
proof (induction fuel arbitrary: c w)
  case 0
  then show ?case by simp
next
  case (Suc fuel)
  have ids: "distinct (map lo_id (lw_loras w))" using Suc.prems(1) by (simp add: voices_ok_def)
  show ?case
  proof (cases "list_reconcilable_loras {} {} (jw_jobs w) (lw_loras w)")
    case Nil
    then have none: "waiting_voices w = {}" using none_waiting [OF ids] by simp
    then have "reconciled w w" by (auto simp: reconciled_def outcome_reached_def waiting_voices_def split: option.splits)
    then show ?thesis using Suc.prems Nil none by (auto simp: reading_def give_def)
  next
    case (Cons l ls)
    let ?key = "(lo_user_id l, lo_id l)"
    define F0 where "F0 = lw_files w ?key"
    obtain r w1 w2 where run: "round l w = (Done (Some r), w1)" "finish_reconciled ?key r w1 = (Done (), w2)"
      and v: "voice (frame_of True ?key w) (ends_as l F0) w2" and jobs: "jw_jobs w2 = jw_jobs w"
      by (rule calm_round [OF Suc.prems(1,2) Cons F0_def])
    have ok2: "voices_ok w2" by (rule world_of_voice [OF Suc.prems(1) voice_mono [OF v]]) (simp add: ends_as_def)
    have calm2: "w_script w2 = []" using v by (simp add: voice_def)
    note same = voice_state_after(1) [OF v, unfolded snd_conv]
    obtain l2 F2 where at2: "voice_state w2 (lo_id l) = Some (l2, F2)" and out: "ends_as l F0 l2 F2"
      using voice_state_after(2) [OF v] by auto
    have at: "voice_state w (lo_id l) = Some (l, F0)" and rec: "reconcilable (jw_jobs w) l"
      using reconcilable_row(1,2) [OF ids Cons] by (simp_all add: voice_state_def F0_def)
    have over: "\<not> reconcilable (jw_jobs w) l2"
      using ends_as_over [OF out] by (auto simp: reconcilable_def active_lora_def dest: active_not_ready)
    have "waiting_voices w2 = waiting_voices w - {lo_id l}"
    proof (rule set_eqI)
      fix k
      show "k \<in> waiting_voices w2 \<longleftrightarrow> k \<in> waiting_voices w - {lo_id l}"
        using same [of k] at2 over jobs by (cases "k = lo_id l") (simp_all add: waiting_voices_def)
    qed
    moreover have "lo_id l \<in> waiting_voices w" using at rec by (auto simp: waiting_voices_def)
    ultimately have fewer: "card (waiting_voices w) = Suc (card (waiting_voices w2))"
      using card.remove [OF finite_waiting [of w], of "lo_id l"] by simp
    have less: "card (waiting_voices w2) < fuel" using Suc.prems(3) fewer by linarith
    obtain w' where rest: "reconcile_from fuel {} (Suc c) w2 = (Done (Suc c + card (waiting_voices w2)), w')"
      "voices_ok w'" "reconciled w2 w'"
      using Suc.IH [OF ok2 calm2 less, of "Suc c"] by blast
    have "reconcile_from (Suc fuel) {} c w = (Done (c + card (waiting_voices w)), w')"
      using run rest(1) fewer by (simp add: reading_def Cons round_def [symmetric] bind_p_def seq_p_def)
    moreover have "reconciled w w'"
      unfolding reconciled_def
    proof
      fix k
      have here: "outcome_reached (jw_jobs w) (voice_state w2 k) (voice_state w' k)"
        using rest(3) jobs by (simp add: reconciled_def)
      show "outcome_reached (jw_jobs w) (voice_state w k) (voice_state w' k)"
      proof (cases "k = lo_id l")
        case True
        then have "voice_state w' k = Some (l2, F2)" using here at2 over by (simp add: outcome_reached_def)
        then show ?thesis using True at rec out by (simp add: outcome_reached_def ends_as_def)
      next
        case False
        then show ?thesis using here same by simp
      qed
    qed
    ultimately show ?thesis using rest(2) by blast
  qed
qed

end
