(* ===== verification/Lora_Recovery.thy ===== *)
theory Lora_Recovery
  imports Lora_Reconcile
begin

text \<open>
  What holds of a voice training however it ends: the properties that rest on the triples of
  \<open>Lora_Safety\<close> and \<open>Lora_Reconcile\<close>, and a training whose voice loses its mode.
\<close>

lemma reconcile_crashed_safe:
  assumes "voices_ok w" shows "voices_ok (snd (reconcile_crashed_loras w))"
proof -
  have "reconcile_crashed_loras w = reconcile_from (Suc (length (lw_loras w))) {} 0 w"
    by (simp add: reconcile_crashed_loras_def reading_def del: reconcile_from.simps)
  then show ?thesis using runs_to_snd [OF reconcile_safe assms] by metis
qed

text \<open>Several runs of the clean-up, each with its own faults, job table and clock.\<close>

fun reconcile_runs :: "(fate list \<times> jobs \<times> timestamp) list \<Rightarrow> lora_world \<Rightarrow> lora_world" where
  "reconcile_runs [] w = w"
| "reconcile_runs ((script, jobs, now) # runs) w =
     reconcile_runs runs (snd (reconcile_crashed_loras (w\<lparr>w_script := script, jw_jobs := jobs, jw_now := now\<rparr>)))"

lemma reconcile_runs_safe: "voices_ok w \<Longrightarrow> voices_ok (reconcile_runs runs w)"
proof (induction runs w rule: reconcile_runs.induct)
  case (2 script jobs now runs w)
  have "voices_ok (w\<lparr>w_script := script, jw_jobs := jobs, jw_now := now\<rparr>)" using 2(2) by (simp add: voices_ok_def)
  then show ?case using 2(1) by (simp add: reconcile_crashed_safe)
qed simp

text \<open>Whatever fails and wherever the process dies, in a training whose worker has left an adapter and
  in any number of clean-ups after it, every voice stays consistent: a voice that is ready has an
  adapter of the mode its row names, and one in training has what the next clean-up needs.  The one
  exception is a swap that put the old adapter back and whose handling did not get through.
\<close>

theorem training_crash_safe:
  assumes "voices_ok w" and "get_lora k (lw_loras w) = Some l" and "key = (lo_user_id l, k)"
    and "trained job_id (tr_mode res) l (lw_files w key)" and "lo_model_mode l \<in> LORA_TRAINING_MODEL_MODES"
    and "body = complete_lora_training py_repr show_samples cwd audio_dir key job_id target res"
    and "(\<forall>p. fst (body w) \<noteq> Raised (Previous_Restored p)) \<or> fst (settle_lora_training key job_id body w) = Done ()"
  shows "voices_ok (reconcile_runs runs (snd (settle_lora_training key job_id body w)))"
  by (rule reconcile_runs_safe) (rule settle_keeps_voices [OF assms])

text \<open>C4: where the voices are consistent (\<open>voices_ok\<close>), a clean-up that nothing disturbs ends; it settles every
  voice in training whose job is over, and counts them: ready in the recorded mode when the training had
  been recorded, ready in its old mode when it had an adapter before, else failed.  The other voices keep
  their row and their directory.  Consistent means of a voice in training that its record, if there is
  one, can be read; that without a record of its job the adapter in place, or else the one set aside,
  has the mode of the row; and that with one the adapter of the recorded mode is in place, or in the
  temporary directory and then not both of \<open>lora\<close> and \<open>lora.previous\<close> are there.  What a voice outside
  that comes to is \<open>leftover_blocks_recovery\<close>.
\<close>

theorem reconciliation_settles:
  assumes "voices_ok w" and "w_script w = []"
  shows "\<exists>w'. reconcile_crashed_loras w = (Done (card (waiting_voices w)), w') \<and> voices_ok w' \<and> reconciled w w'"
proof -
  have "card (waiting_voices w) < Suc (length (lw_loras w))" using few_waiting [of w] by simp
  from calm_reconcile [OF assms this, of 0] show ?thesis
    by (simp add: reconcile_crashed_loras_def reading_def del: reconcile_from.simps)
qed

text \<open>C5: a training that completes leaves its voice ready, in the mode the worker trained, which is the
  mode that was asked for, and with the adapter of that mode in place.
\<close>

theorem completed_training_ready:
  assumes "voices_ok w" and "get_lora k (lw_loras w) = Some l" and "key = (lo_user_id l, k)"
    and "trained job_id (tr_mode res) l (lw_files w key)"
    and "complete_lora_training py_repr show_samples cwd audio_dir key job_id target res w = (Done u, w')"
  shows "tr_mode res = target \<and> (\<exists>l'. get_lora k (lw_loras w') = Some l' \<and> lo_status l' = L_Ready
    \<and> lo_model_mode l' = target \<and> lw_files w' key Final_Dir = Some (Adapter target))"
proof -
  let ?V = "frame_of False key w"
  have start: "voice ?V (\<lambda>l' F. trained job_id (tr_mode res) l' F \<and> lo_model_mode l' = lo_model_mode l) w"
    using voice_of_world [OF assms(1,2), of False] assms(3,4) by simp
  note spec = vspec_complete [OF refl, of ?V job_id res "lo_model_mode l" py_repr show_samples cwd audio_dir target,
      unfolded vspec_def frame_simps]
  have ready: "voice ?V (ready_with (tr_mode res)) w'" by (rule runs_toD(1) [OF spec start assms(5)])
  have "tr_mode res = target"
  proof (rule ccontr)
    assume "tr_mode res \<noteq> target"
    then have "\<exists>e. validate_completed_training_model_mode py_repr target (tr_mode res) = Inl e"
      by (simp add: validate_completed_training_model_mode_def)
    then obtain e where "validate_completed_training_model_mode py_repr target (tr_mode res) = Inl e" ..
    then have "complete_lora_training py_repr show_samples cwd audio_dir key job_id target res w = (Raised e, w)"
      by (simp add: complete_lora_training_def lift_sum_def throw_def)
    then show False using assms(5) by simp
  qed
  then show ?thesis using ready assms(3) by (auto simp: voice_def ready_with_def)
qed

subsection \<open>A training in progress\<close>

definition voice_row :: user_lora where
  "voice_row = \<lparr>lo_id = ''v'', lo_user_id = ''u'', lo_name = ''Ada'', lo_slug = ''ada'', lo_model_mode = ''sft'',
     lo_status = L_Exporting, lo_storage_path = Some ''user_loras/u/v/lora'', lo_tensor_path = None,
     lo_training_job_id = Some ''j'', lo_error = None, lo_created_at = 0, lo_completed_at = None, lo_deleted_at = None\<rparr>"

definition voice_dir :: lora_files where
  "voice_dir = [Final_Dir \<mapsto> Adapter ''sft'', Training_Tmp \<mapsto> Adapter ''turbo'', Dataset_Dir \<mapsto> Broken_Dir]"

definition voice_world :: "fate list \<Rightarrow> lora_world" where
  "voice_world script = \<lparr>w_script = script, jw_jobs = [], jw_now = 100, lw_loras = [voice_row], lw_audit = [],
     lw_files = (\<lambda>_. voice_dir)\<rparr>"

definition voice_result :: train_result where
  "voice_result = \<lparr>tr_mode = ''turbo'', tr_adapter_dir = ''/audio/user_loras/u/v/training_tmp'', tr_num_samples = 3\<rparr>"

definition voice_training :: "unit lora_prog" where
  "voice_training = complete_lora_training id (\<lambda>_. ''3'') [] [''audio''] (''u'', ''v'') ''j'' ''turbo'' voice_result"

lemma voice_world_row: "get_lora k (lw_loras (voice_world s)) = (if k = ''v'' then Some voice_row else None)"
  by (simp add: voice_world_def table_get_def voice_row_def)

lemma voice_trained: "trained ''j'' ''turbo'' voice_row voice_dir"
  by (simp add: trained_def voice_row_def voice_dir_def LORA_ACTIVE_STATUSES_def LORA_TRAINING_MODEL_MODES_def
      record_readable_def recorded_def keeping_def dir_or_none_def)

lemma voice_world_ok: "voices_ok (voice_world s)"
  using trained_ok [OF voice_trained] by (simp add: voices_ok_def voice_world_row) (simp add: voice_world_def)

text \<open>The process dies while it writes the record; the next clean-up dies too, the one after it gets through.\<close>

lemma training_crash_safe_witness:
  "voices_ok (reconcile_runs [([Works, Dies], [], 200), ([], [], 300)]
     (snd (settle_lora_training (''u'', ''v'') ''j'' voice_training (voice_world [Works, Dies]))))"
proof -
  have "fst (voice_training (voice_world [Works, Dies])) = Killed" by code_simp
  then show ?thesis
    by (intro training_crash_safe [where k = "''v''" and l = voice_row and res = voice_result])
      (simp_all add: voice_world_ok voice_world_row voice_training_def,
       simp_all add: voice_world_def voice_result_def voice_trained, simp_all add: voice_row_def LORA_TRAINING_MODEL_MODES_def)
qed

lemma reconciliation_settles_witness:
  "\<exists>w'. reconcile_crashed_loras (voice_world []) = (Done (card (waiting_voices (voice_world []))), w')
     \<and> voices_ok w' \<and> reconciled (voice_world []) w'"
  by (rule reconciliation_settles [OF voice_world_ok]) (simp add: voice_world_def)

lemma completed_training_ready_witness:
  "tr_mode voice_result = ''turbo'' \<and> (\<exists>l'. get_lora ''v'' (lw_loras (snd (voice_training (voice_world [])))) = Some l'
     \<and> lo_status l' = L_Ready \<and> lo_model_mode l' = ''turbo''
     \<and> lw_files (snd (voice_training (voice_world []))) (''u'', ''v'') Final_Dir = Some (Adapter ''turbo''))"
proof (rule completed_training_ready [where w = "voice_world []"])
  have "fst (voice_training (voice_world [])) = Done ()" by code_simp
  then show "complete_lora_training id (\<lambda>_. ''3'') [] [''audio''] (''u'', ''v'') ''j'' ''turbo'' voice_result (voice_world []) =
      (Done (), snd (voice_training (voice_world [])))"
    by (simp add: voice_training_def prod_eq_iff)
qed (simp_all add: voice_world_ok voice_world_row, simp_all add: voice_world_def voice_result_def voice_trained,
    simp_all add: voice_row_def)

text \<open>The clean-up after a restored adapter removes the record of the new mode before it writes the old
  mode back.  A process that dies between the two leaves a row in training that names the new mode and
  no record; the next clean-up marks the voice ready in the new mode, with the adapter of the old one.
\<close>

theorem restored_voice_takes_wrong_mode:
  "let script = replicate 6 Works @ [Fails] @ replicate 6 Works @ [Dies];
       died = snd (settle_lora_training (''u'', ''v'') ''j'' voice_training (voice_world script));
       later = snd (reconcile_crashed_loras (died\<lparr>w_script := []\<rparr>))
   in voices_ok (voice_world script)
      \<and> map_option (\<lambda>l. (lo_status l, lo_model_mode l)) (get_lora ''v'' (lw_loras later)) = Some (L_Ready, ''turbo'')
      \<and> lw_files later (''u'', ''v'') Final_Dir = Some (Adapter ''sft'')"
  unfolding Let_def by (intro conjI voice_world_ok; code_simp)

end
