(* ===== verification/Lora_Leftover.thy ===== *)
theory Lora_Leftover
  imports Lora_Recovery
begin

text \<open>
  What a leftover \<open>lora.previous\<close> does.  After a swap the old adapter is taken away by an \<open>rmtree\<close> whose
  failure is only logged (\<open>_remove_replaced_lora_paths\<close>), so a ready voice may keep the directory.  Every
  later training of the voice stops at it, and one that is cut off once its mode is recorded leaves a
  voice that no clean-up settles.
\<close>

subsection \<open>Clean-up of other voices\<close>

text \<open>The row of one voice and its directory.\<close>

definition unmoved :: "string \<Rightarrow> user_lora \<Rightarrow> lora_files \<Rightarrow> lora_world \<Rightarrow> bool" where
  "unmoved k l F w \<longleftrightarrow> distinct (map lo_id (lw_loras w)) \<and> get_lora k (lw_loras w) = Some l
     \<and> lw_files w (lo_user_id l, k) = F"

abbreviation steady :: "(lora_world \<Rightarrow> bool) \<Rightarrow> 'a lora_prog \<Rightarrow> bool" where
  "steady P p \<equiv> runs_to P p (\<lambda>_. P) (\<lambda>_. P) P"

lemma unmoved_script [simp]: "script_free (unmoved k l F)"
  by (simp add: script_free_def unmoved_def)

lemma steady_reading: "(\<And>v. steady P (f v)) \<Longrightarrow> steady P (reading f)"
  by (rule runs_reading) (auto intro: runs_to_weaken)

lemma steady_effect:
  assumes "script_free P" and "\<And>w. P w \<Longrightarrow> P (snd (act w))"
  shows "steady P (effect e act)"
  by (rule runs_effect [OF assms(1)]) (use assms(2) in \<open>force+\<close>)

lemma steady_if: "(b \<Longrightarrow> steady P p) \<Longrightarrow> (\<not> b \<Longrightarrow> steady P q) \<Longrightarrow> steady P (if b then p else q)"
  by simp

lemma steady_give: "steady P (give x)" and steady_throw: "steady P (throw e)"
  by (auto intro: runs_give runs_throw)

lemma steady_bind: "steady P p \<Longrightarrow> (\<And>x. steady P (q x)) \<Longrightarrow> steady P (bind_p p q)"
  by (rule runs_bind)

lemma steady_seq: "steady P p \<Longrightarrow> steady P q \<Longrightarrow> steady P (seq_p p q)"
  by (rule runs_seq)

lemma steady_attempt: "steady P p \<Longrightarrow> (\<And>e. steady P (h e)) \<Longrightarrow> steady P (attempt p h)"
  by (rule runs_attempt)

lemma steady_lift: "steady P (lift_sum r)"
  unfolding lift_sum_def by (cases r) (simp_all add: steady_give steady_throw)

lemma unmoved_put: "i \<noteq> k \<Longrightarrow> unmoved k l F w \<Longrightarrow> unmoved k l F (put_node (u, i) p n w)"
  by (auto simp: unmoved_def put_node_def)

lemma steady_files:
  assumes "i \<noteq> k"
  shows "steady (unmoved k l F) (rename (u, i) a b)" "steady (unmoved k l F) (rmtree (u, i) a)"
    "steady (unmoved k l F) (unlink_missing_ok (u, i) a)"
  unfolding rename_def rmtree_def unlink_missing_ok_def change_def Let_def
  by (auto intro!: steady_effect steady_seq unmoved_put [OF assms])

lemma steady_commit:
  assumes "i \<noteq> k"
  shows "steady (unmoved k l F) (commit_lora i upd a)"
  unfolding commit_lora_def
proof (rule steady_effect)
  fix w
  assume "unmoved k l F w"
  moreover have "map lo_id (table_update lo_id i (write_lora upd) rows) = map lo_id rows" for rows
    by (simp add: table_update_def)
  ultimately show "unmoved k l F (snd (case update_user_lora i upd (lw_loras w) of
        (Inl e, _) \<Rightarrow> (Inl (Row_Error e), w)
      | (Inr x, loras) \<Rightarrow> (Inr x, w\<lparr>lw_loras := loras, lw_audit := lw_audit w @ a\<rparr>)))"
    using assms by (auto simp: update_user_lora_def unmoved_def get_write_lora split: option.splits if_splits)
qed simp

lemmas steady_rules = steady_give steady_throw steady_bind steady_seq steady_attempt steady_reading steady_if steady_lift

lemma steady_row:
  assumes "lo_id l' \<noteq> k"
  shows "steady (unmoved k l F) (reconcile_row l')"
  unfolding reconcile_row_def recover_complete_lora_adapter_def recover_recorded_lora_adapter_def
    restore_previous_lora_adapter_def persist_crashed_lora_reconciliation_def cleanup_failed_lora_def
    require_lora_adapter_directory_def Let_def snd_conv
  by (intro steady_rules steady_files [OF assms] steady_commit [OF assms])

lemma steady_finish:
  assumes "i \<noteq> k"
  shows "steady (unmoved k l F) (finish_reconciled (u, i) r)"
proof -
  have path: "steady (unmoved k l F) (remove_working_path (u, i) p)" for p
    unfolding remove_working_path_def by (intro steady_rules steady_files [OF assms])
  have paths: "steady (unmoved k l F) (remove_working_paths (u, i) ps b)" for ps b
    by (induction ps arbitrary: b) (auto intro: steady_rules path)
  show ?thesis
    unfolding finish_reconciled_def clear_completed_training_model_mode_def suppress_os_def cleanup_failed_lora_paths_def
    by (intro steady_rules steady_files [OF assms] paths)
qed

subsection \<open>The voice with the leftover\<close>

text \<open>A training that recorded its mode, with the new adapter not yet moved, the old one in place, and the
  directory the old one would be set aside in already there.\<close>

definition blocked_swap :: "user_lora \<Rightarrow> lora_files \<Rightarrow> bool" where
  "blocked_swap l F \<longleftrightarrow> record_readable F \<and> recorded l F \<noteq> None \<and> is_dir (F Training_Tmp) \<and> is_dir (F Final_Dir)
     \<and> is_dir (F Previous_Dir)"

lemma is_dir_there: "is_dir n \<Longrightarrow> n \<noteq> None"
  by (cases n) (simp_all add: is_dir_def)

lemma stuck_row:
  assumes "blocked_swap l F" and "lo_id l = k"
  shows "runs_to (unmoved k l F) (reconcile_row l) (\<lambda>_ _. False) (\<lambda>_. unmoved k l F) (unmoved k l F)"
proof -
  let ?key = "(lo_user_id l, k)"
  obtain m where m: "completed_model_mode_for_lora F (lo_training_job_id l) = Inr (Some m)"
    using assms(1) completed_recorded [of F l] by (auto simp: blocked_swap_def)
  have dirs: "require_lora_adapter_directory (F p) d = give ()" if "p \<in> {Final_Dir, Previous_Dir, Training_Tmp}" for p d
    using assms(1) that by (auto simp: blocked_swap_def require_lora_adapter_directory_def)
  have move: "runs_to (unmoved k l F) (rename ?key Final_Dir Previous_Dir) (\<lambda>_ _. False) (\<lambda>_. unmoved k l F) (unmoved k l F)"
    unfolding rename_def
    by (rule runs_effect) (use assms(1) in \<open>auto simp: unmoved_def blocked_swap_def blocked_def Let_def dest: is_dir_there split: if_splits\<close>)
  have there: "is_dir (F Training_Tmp)" "F Final_Dir \<noteq> None"
    using assms(1) by (auto simp: blocked_swap_def dest: is_dir_there)
  show ?thesis
    unfolding reconcile_row_def Let_def assms(2)
  proof (rule runs_reading)
    fix v assume v: "unmoved k l F v"
    then have F: "lw_files v ?key = F" by (simp add: unmoved_def)
    have recover: "runs_to (\<lambda>w. w = v) (recover_complete_lora_adapter ?key (Some m)) (\<lambda>_ _. False)
        (\<lambda>_. unmoved k l F) (unmoved k l F)"
      unfolding recover_complete_lora_adapter_def recover_recorded_lora_adapter_def
    proof (simp, rule runs_reading, simp add: F Let_def dirs there)
      have start: "runs_to (\<lambda>w. w = v) (rename ?key Final_Dir Previous_Dir) (\<lambda>_ _. False) (\<lambda>_. unmoved k l F) (unmoved k l F)"
        by (rule runs_to_weaken [OF move]) (use v in auto)
      have never: "runs_to (\<lambda>_. False) p Q E C" for p :: "'a lora_prog" and Q E C by (simp add: runs_to_def)
      show "runs_to (\<lambda>w. w = v) (seq_p (seq_p (rename ?key Final_Dir Previous_Dir) (rename ?key Training_Tmp Final_Dir))
          (seq_p (reading (\<lambda>w. if \<exists>y. lw_files w ?key Previous_Dir = Some y then rmtree ?key Previous_Dir else give ()))
            (reading (\<lambda>w. give (is_dir (lw_files w ?key Final_Dir)))))) (\<lambda>_ _. False) (\<lambda>_. unmoved k l F) (unmoved k l F)"
        by (rule runs_seq [OF runs_seq [OF start never] never])
    qed
    have never: "runs_to (\<lambda>_. False) p Q E C" for p :: "'a lora_prog" and Q E C by (simp add: runs_to_def)
    show "runs_to (\<lambda>w. w = v)
        (bind_p (lift_sum (completed_model_mode_for_lora (lw_files v ?key) (lo_training_job_id l))) (\<lambda>completed_model_mode.
         bind_p (recover_complete_lora_adapter ?key completed_model_mode) (\<lambda>recovered_adapter.
         seq_p (persist_crashed_lora_reconciliation ?key completed_model_mode recovered_adapter)
           (give (recovered_adapter, completed_model_mode))))) (\<lambda>_ _. False) (\<lambda>_. unmoved k l F) (unmoved k l F)"
      unfolding F m by (simp add: lift_sum_def) (rule runs_bind [OF recover never])
  qed
qed

lemma steady_reconcile:
  assumes "blocked_swap l F" and "lo_id l = k"
  shows "steady (unmoved k l F) (reconcile_from fuel ex c)"
proof (induction fuel arbitrary: ex c)
  case 0
  then show ?case by (simp add: steady_give)
next
  case (Suc fuel)
  let ?P = "unmoved k l F"
  show ?case unfolding reconcile_from.simps round_def [symmetric]
  proof (rule runs_reading)
    fix v assume v: "?P v"
    show "runs_to (\<lambda>w. w = v) (case list_reconcilable_loras {} ex (jw_jobs v) (lw_loras v) of [] \<Rightarrow> give c
        | l # _ \<Rightarrow> bind_p (round l) (\<lambda>r. case r of None \<Rightarrow> reconcile_from fuel (insert (lo_id l) ex) c
            | Some r' \<Rightarrow> seq_p (finish_reconciled (lo_user_id l, lo_id l) r') (reconcile_from fuel ex (Suc c))))
        (\<lambda>_. ?P) (\<lambda>_. ?P) ?P"
    proof (cases "list_reconcilable_loras {} ex (jw_jobs v) (lw_loras v)")
      case Nil
      then show ?thesis using v by (auto intro: runs_give)
    next
      case (Cons l' ls)
      have row: "get_lora (lo_id l') (lw_loras v) = Some l'"
        by (rule reconcilable_row(1) [OF _ Cons]) (use v in \<open>simp add: unmoved_def\<close>)
      have next_round: "steady ?P (bind_p (round l') (\<lambda>r. case r of None \<Rightarrow> reconcile_from fuel (insert (lo_id l') ex) c
            | Some r' \<Rightarrow> seq_p (finish_reconciled (lo_user_id l', lo_id l') r') (reconcile_from fuel ex (Suc c))))"
      proof (cases "lo_id l' = k")
        case True
        then have "l' = l" using row v by (simp add: unmoved_def)
        have never: "runs_to (\<lambda>_. False) p Q E C" for p :: "(bool \<times> string option) option lora_prog" and Q E C
          by (simp add: runs_to_def)
        have "runs_to ?P (round l) (\<lambda>r w. r = None \<and> ?P w) (\<lambda>_. ?P) ?P"
          unfolding round_def
          by (rule runs_attempt [OF runs_bind [OF stuck_row [OF assms] never]]) (auto intro: runs_give)
        moreover have "runs_to (\<lambda>w. r = None \<and> ?P w) (case r of None \<Rightarrow> reconcile_from fuel (insert (lo_id l') ex) c
            | Some r' \<Rightarrow> seq_p (finish_reconciled (lo_user_id l', lo_id l') r') (reconcile_from fuel ex (Suc c)))
            (\<lambda>_. ?P) (\<lambda>_. ?P) ?P" for r
          by (cases r) (use Suc.IH in \<open>auto simp: runs_to_def\<close>)
        ultimately show ?thesis unfolding \<open>l' = l\<close> by (rule runs_bind)
      next
        case False
        have "steady ?P (case r of None \<Rightarrow> reconcile_from fuel (insert (lo_id l') ex) c
            | Some r' \<Rightarrow> seq_p (finish_reconciled (lo_user_id l', lo_id l') r') (reconcile_from fuel ex (Suc c)))" for r
          by (cases r) (simp_all add: Suc.IH steady_seq [OF steady_finish [OF False] Suc.IH])
        then show ?thesis unfolding round_def by (intro steady_rules steady_row [OF False])
      qed
      show ?thesis unfolding Cons list.case by (rule runs_to_weaken [OF next_round]) (use v in auto)
    qed
  qed
qed

text \<open>C6: A voice whose training was cut off once its mode had been recorded, with the new adapter, the old one
  and a leftover \<open>lora.previous\<close> all there, is settled by no clean-up: however often it runs, with whatever
  faults and whatever becomes of the jobs, the voice keeps its row, in training, and its directory.  Each
  attempt fails to set the old adapter aside, because the place is taken.
\<close>

theorem leftover_blocks_recovery:
  assumes "distinct (map lo_id (lw_loras w))" and "get_lora k (lw_loras w) = Some l"
    and "blocked_swap l (lw_files w (lo_user_id l, k))"
  shows "get_lora k (lw_loras (reconcile_runs runs w)) = Some l
    \<and> lw_files (reconcile_runs runs w) (lo_user_id l, k) = lw_files w (lo_user_id l, k)"
proof -
  let ?F = "lw_files w (lo_user_id l, k)"
  have k: "lo_id l = k" using assms(2) table_get_Some [of lo_id k] by blast
  have run: "unmoved k l ?F v \<Longrightarrow> unmoved k l ?F (snd (reconcile_crashed_loras v))" for v
    using runs_to_snd [OF steady_reconcile [OF assms(3) k]] by (simp add: reconcile_crashed_loras_def reading_def del: reconcile_from.simps)
  have "unmoved k l ?F v \<Longrightarrow> unmoved k l ?F (reconcile_runs runs v)" for v
  proof (induction runs v rule: reconcile_runs.induct)
    case (2 script jobs now runs v)
    have "unmoved k l ?F (v\<lparr>w_script := script, jw_jobs := jobs, jw_now := now\<rparr>)" using 2(2) by (simp add: unmoved_def)
    then show ?case using 2(1) run by simp
  qed simp
  then show ?thesis using assms(1,2) by (simp add: unmoved_def)
qed

text \<open>A voice with a leftover \<open>lora.previous\<close> cannot be trained again: whatever the worker returns and
  whatever else fails, adopting the new adapter does not succeed, and the old adapter stays where it is.
\<close>

theorem leftover_blocks_training:
  assumes "lw_files w key Previous_Dir \<noteq> None"
    and "complete_lora_training py_repr show_samples cwd audio_dir key job_id target res w = (r, w')"
  shows "r \<noteq> Done () \<and> lw_files w' key Final_Dir = lw_files w key Final_Dir
    \<and> lw_files w' key Previous_Dir = lw_files w key Previous_Dir"
proof -
  let ?P = "\<lambda>w'. lw_files w' key Final_Dir = lw_files w key Final_Dir \<and> lw_files w' key Previous_Dir = lw_files w key Previous_Dir"
  have free: "script_free ?P" by (simp add: script_free_def)
  have files: "steady ?P (write_text key Mode_File_New n)" "steady ?P (rename key Mode_File_New Mode_File)"
    "steady ?P (unlink_missing_ok key Mode_File_New)" for n
    unfolding write_text_def rename_def unlink_missing_ok_def change_def Let_def
    by (intro steady_seq steady_effect [OF free]; auto simp: put_node_def)+
  have ensured: "steady ?P p \<Longrightarrow> steady ?P c \<Longrightarrow> steady ?P (ensuring p c)" for p :: "unit lora_prog" and c
    by (rule runs_ensuring)
  have commit: "steady ?P (commit_lora i u a)" for i u a
    unfolding commit_lora_def by (rule steady_effect [OF free]) (auto split: prod.split sum.split)
  have save: "steady ?P (save_lora_model_mode i m)" for i m
    unfolding save_lora_model_mode_def by (auto intro!: steady_rules commit split: option.split)
  have stage: "runs_to ?P (stage_current_lora_adapter key) (\<lambda>_ _. False) (\<lambda>_. ?P) ?P"
    unfolding stage_current_lora_adapter_def
    by (rule runs_reading) (use assms(1) in \<open>auto simp: Let_def intro: runs_throw\<close>)
  have never: "runs_to (\<lambda>_. False) p Q E C" for p :: "unit lora_prog" and Q E C by (simp add: runs_to_def)
  have "runs_to ?P (complete_lora_training py_repr show_samples cwd audio_dir key job_id target res) (\<lambda>_ _. False) (\<lambda>_. ?P) ?P"
    unfolding complete_lora_training_def replace_lora_adapter_def record_completed_training_model_mode_def
    by (rule runs_bind [OF steady_lift], rule runs_seq [OF steady_reading [OF steady_lift]],
        rule runs_seq [OF ensured [OF steady_seq [OF files(1,2)] files(3)]], rule runs_bind [OF save],
        rule runs_seq [OF runs_seq [OF stage never] never])
  note facts = runs_toD [OF this, of w]
  show ?thesis using assms(2) facts(2) [of _ w'] facts(3) [of w'] facts(1) [of _ w'] by (cases r) simp_all
qed

subsection \<open>How a voice comes to it\<close>

text \<open>The first training completes but cannot remove the old adapter; the voice is trained once more, in its old
  mode, and the process dies once that mode is recorded.\<close>

definition leftover_ready :: lora_world where
  "leftover_ready = snd (voice_training (voice_world (replicate 7 Works @ [Fails])))"

definition leftover_training :: lora_world where
  "leftover_training = put_node (''u'', ''v'') Training_Tmp (Some (Adapter ''sft''))
     (leftover_ready\<lparr>w_script := replicate 4 Works @ [Dies],
        lw_loras := map (\<lambda>l. l\<lparr>lo_status := L_Exporting, lo_training_job_id := Some ''k''\<rparr>) (lw_loras leftover_ready)\<rparr>)"

definition leftover_crashed :: lora_world where
  "leftover_crashed = snd (complete_lora_training id (\<lambda>_. ''3'') [] [''audio''] (''u'', ''v'') ''k'' ''sft''
     (voice_result\<lparr>tr_mode := ''sft''\<rparr>) leftover_training)"

lemma leftover_blocks_recovery_witness:
  "map_option lo_status (get_lora ''v'' (lw_loras leftover_ready)) = Some L_Ready
   \<and> map_option lo_status (get_lora ''v'' (lw_loras (reconcile_runs [([], [], 300), ([], [], 400)] leftover_crashed))) = Some L_Exporting"
proof -
  obtain l where l: "get_lora ''v'' (lw_loras leftover_crashed) = Some l" "lo_user_id l = ''u''" "lo_status l = L_Exporting"
    "blocked_swap l (lw_files leftover_crashed (''u'', ''v''))"
  proof -
    have "(case get_lora ''v'' (lw_loras leftover_crashed) of None \<Rightarrow> False
        | Some l \<Rightarrow> lo_user_id l = ''u'' \<and> lo_status l = L_Exporting \<and> blocked_swap l (lw_files leftover_crashed (''u'', ''v'')))"
      by code_simp
    then show ?thesis using that by (auto split: option.splits)
  qed
  have ids: "distinct (map lo_id (lw_loras leftover_crashed))" by code_simp
  have "get_lora ''v'' (lw_loras (reconcile_runs [([], [], 300), ([], [], 400)] leftover_crashed)) = Some l"
    using leftover_blocks_recovery [OF ids l(1), where runs = "[([], [], 300), ([], [], 400)]"] l(2,4) by simp
  moreover have "map_option lo_status (get_lora ''v'' (lw_loras leftover_ready)) = Some L_Ready" by code_simp
  ultimately show ?thesis using l(3) by simp
qed

lemma leftover_blocks_training_witness:
  "fst (complete_lora_training id (\<lambda>_. ''3'') [] [''audio''] (''u'', ''v'') ''k'' ''sft''
     (voice_result\<lparr>tr_mode := ''sft''\<rparr>) (leftover_training\<lparr>w_script := []\<rparr>)) \<noteq> Done ()"
proof -
  have "lw_files (leftover_training\<lparr>w_script := []\<rparr>) (''u'', ''v'') Previous_Dir \<noteq> None" by code_simp
  from leftover_blocks_training [OF this surjective_pairing] show ?thesis by blast
qed

end
