(* ===== verification/Lora_Submission.thy ===== *)
theory Lora_Submission
  imports Scheduler Lora_Training
begin

text \<open>
  The first half of a voice training (\<open>jobs/lora_training.py\<close>): reserving a worker, writing the
  dataset, handing the hold of the GPU over to the worker's training and following its events.  The
  job talks to one worker over HTTP; \<open>worker_api\<close> names the worker's answers, and \<open>Worker_Gpu\<close> has a
  model of them.  A call can fail before it is sent, after the worker has served it, and the job can be
  cancelled around it.  The renewal of the hold runs beside the job; that it fails is one more way for
  a call to fail, with the same error.  The mutable objects of the code (\<open>handover\<close>, \<open>submission\<close>) are
  fields of the world.
\<close>

record 's worker_api =
  api_reserve :: "'s \<Rightarrow> (nat + string) \<times> 's"              \<comment> \<open>status of a refusal, or the token\<close>
  api_load :: "string \<Rightarrow> 's \<Rightarrow> bool \<times> 's"
  api_train :: "string \<Rightarrow> string \<Rightarrow> 's \<Rightarrow> string option \<times> 's"
  api_probe :: "string \<Rightarrow> 's \<Rightarrow> (bool \<times> string option) option"
  api_release :: "string \<Rightarrow> 's \<Rightarrow> bool \<times> 's"

record 's training_world = world +
  tw_lora :: lora_world
  tw_worker :: 's
  tw_complete :: bool
  tw_transmitted :: bool
  tw_renewing :: bool
  tw_enqueued :: "(string \<times> voice_key \<times> string) list"

type_synonym ('s, 'a) training_prog = "('s training_world, job_exn, 'a) prog"

lemma put_lora [simp]:
  fixes w :: "'s training_world"
  shows "w_script (w\<lparr>tw_lora := v\<rparr>) = w_script w"
  by (cases w) simp

definition modify :: "('w \<Rightarrow> 'w) \<Rightarrow> ('w, 'e, unit) prog" where
  "modify f w = (Done (), f w)"

text \<open>A step of the files or the database.\<close>

definition in_lora :: "'a lora_prog \<Rightarrow> ('s, 'a) training_prog" where
  "in_lora p w =
     (case p ((tw_lora w)\<lparr>w_script := w_script w\<rparr>) of
        (r, v) \<Rightarrow> (r, w\<lparr>tw_lora := v, w_script := w_script v\<rparr>))"

text \<open>A point where the job may fail with \<open>e\<close>.\<close>

definition checkpoint :: "job_exn \<Rightarrow> ('s, unit) training_prog" where
  "checkpoint e = change e id"

definition http_call :: "('s \<Rightarrow> (job_exn + 'a) \<times> 's) \<Rightarrow> ('s, 'a) training_prog" where
  "http_call act =
     seq_p (checkpoint Cancelled)
       (bind_p (effect Http_Failed (\<lambda>w. case act (tw_worker w) of (r, s) \<Rightarrow> (r, w\<lparr>tw_worker := s\<rparr>))) (\<lambda>x.
         seq_p (checkpoint Http_Failed) (seq_p (checkpoint Cancelled) (give x))))"

text \<open>\<open>raise_for_status\<close>.\<close>

definition raised_for_status :: "bool \<times> 's \<Rightarrow> (job_exn + unit) \<times> 's" where
  "raised_for_status r = (if fst r then Inr () else Inl Http_Failed, snd r)"

subsection \<open>The dataset\<close>

text \<open>\<open>Path(name).suffix\<close>.\<close>

definition path_suffix :: "string \<Rightarrow> string" where
  "path_suffix path =
     (case rev (path_parts path) of
        [] \<Rightarrow> []
      | name # _ \<Rightarrow>
          (let ext = rev (takeWhile (\<lambda>c. c \<noteq> CHR ''.'') (rev name))
           in if CHR ''.'' \<in> set name \<and> ext \<noteq> [] \<and> length ext + 1 < length name then CHR ''.'' # ext else []))"

definition put_dataset_file :: "voice_key \<Rightarrow> string \<Rightarrow> dataset_file \<Rightarrow> unit lora_prog" where
  "put_dataset_file key name f = effect OS_Error (\<lambda>w.
     (case lw_files w key Dataset_Dir of
        Some (Dataset fs) \<Rightarrow> (Inr (), put_node key Dataset_Dir (Some (Dataset (dict_set name f fs))) w)
      | _ \<Rightarrow> (Inl OS_Error, w)))"

definition add_sample :: "(string list \<Rightarrow> bool) \<Rightarrow> string list \<Rightarrow> voice_key \<Rightarrow> lora_sample \<Rightarrow> unit lora_prog" where
  "add_sample on_disk audio_dir key sample =
     (let src = resolve_path (path_join audio_dir (sa_audio_path sample));
          suffix = path_suffix (sa_audio_path sample);
          ext = (if suffix \<noteq> [] then suffix else ''.wav'');
          base = sa_id sample;
          link = put_dataset_file key (base @ ext) (Audio_Link src)
      in if \<not> on_disk src then throw OS_Error
         else seq_p (attempt link (\<lambda>e. if e = OS_Error then link else throw e))
             (seq_p (put_dataset_file key (base @ ''.caption.txt'') (Text_File (strip (sa_caption sample) @ [LF])))
                (put_dataset_file key (base @ ''.lyrics.txt'') (Text_File (strip (sa_lyrics sample) @ [LF])))))"

primrec add_samples :: "(string list \<Rightarrow> bool) \<Rightarrow> string list \<Rightarrow> voice_key \<Rightarrow> lora_sample list \<Rightarrow> unit lora_prog" where
  "add_samples on_disk audio_dir key [] = give ()"
| "add_samples on_disk audio_dir key (s # ss) =
     seq_p (add_sample on_disk audio_dir key s) (add_samples on_disk audio_dir key ss)"

definition materialize_dataset ::
    "(string list \<Rightarrow> bool) \<Rightarrow> string list \<Rightarrow> voice_key \<Rightarrow> lora_sample list \<Rightarrow> unit lora_prog" where
  "materialize_dataset on_disk audio_dir key samples =
     seq_p (reading (\<lambda>w. if lw_files w key Dataset_Dir \<noteq> None then rmtree key Dataset_Dir else give ()))
    (seq_p (change OS_Error (put_node key Dataset_Dir (Some (Dataset []))))
       (add_samples on_disk audio_dir key samples))"

subsection \<open>Progress\<close>

record lora_throttle =
  lt_last_update :: rat
  lt_last_epoch :: "int option"
  lt_last_training_started_at :: "timestamp option"
  lt_last_status :: lora_status

definition new_throttle :: lora_throttle where
  "new_throttle = \<lparr>lt_last_update = 0, lt_last_epoch = None, lt_last_training_started_at = None,
     lt_last_status = L_Preprocessing\<rparr>"

definition LORA_PROGRESS_THROTTLE_SECONDS :: rat where "LORA_PROGRESS_THROTTLE_SECONDS = 2"

definition status_of_fraction :: "rat \<Rightarrow> lora_status" where
  "status_of_fraction fraction =
     (if fraction \<ge> 9 / 10 then L_Exporting else if fraction \<ge> 2 / 10 then L_Training else L_Preprocessing)"

definition report_progress ::
    "string \<Rightarrow> string \<Rightarrow> rat \<Rightarrow> rat \<Rightarrow> int \<Rightarrow> int \<Rightarrow> timestamp option \<Rightarrow> lora_throttle \<Rightarrow> lora_throttle lora_prog" where
  "report_progress job_id lora_id now fraction current_epoch train_epochs training_started_at th =
     (if Some current_epoch = lt_last_epoch th \<and> training_started_at = lt_last_training_started_at th
         \<and> now - lt_last_update th < LORA_PROGRESS_THROTTLE_SECONDS
      then give th
      else (let new_status = status_of_fraction fraction;
                th' = th\<lparr>lt_last_update := now, lt_last_epoch := Some current_epoch,
                         lt_last_training_started_at := training_started_at, lt_last_status := new_status\<rparr>
            in seq_p (if new_status \<noteq> lt_last_status th
                      then commit_lora lora_id (no_update\<lparr>lu_status := Some new_status\<rparr>) [] else give ())
              (seq_p (update_job job_id ((status_update RUNNING)\<lparr>u_progress := fraction,
                        u_current_epoch := Write current_epoch, u_train_epochs := Write train_epochs,
                        u_training_started_at := (case training_started_at of None \<Rightarrow> UNSET | Some t \<Rightarrow> Write t)\<rparr>))
                 (give th'))))"

text \<open>Integers, timestamps and results are decoded by the standard library and pydantic.\<close>

record training_decoders =
  td_base :: decoders
  td_int :: "json \<Rightarrow> int option"
  td_time :: "string \<Rightarrow> timestamp option option"    \<comment> \<open>no timestamp, or one without a time zone\<close>
  td_result :: "json \<Rightarrow> string + train_result"

definition worker_training_started_at :: "training_decoders \<Rightarrow> json option \<Rightarrow> job_exn + timestamp option" where
  "worker_training_started_at T value =
     (let invalid = Inl (task_failed ''Worker progress event has invalid training start time'')
      in case value of
           None \<Rightarrow> Inr None
         | Some JNull \<Rightarrow> Inr None
         | Some (JStr s) \<Rightarrow>
             (case td_time T s of
                None \<Rightarrow> invalid
              | Some None \<Rightarrow> invalid
              | Some (Some t) \<Rightarrow> Inr (Some t))
         | Some _ \<Rightarrow> invalid)"

definition plain_int :: "training_decoders \<Rightarrow> json option \<Rightarrow> int option" where
  "plain_int T j = (case j of None \<Rightarrow> None | Some (JBool _) \<Rightarrow> None | Some v \<Rightarrow> td_int T v)"

definition read_lora_training_epochs :: "training_decoders \<Rightarrow> json_object \<Rightarrow> job_exn + int \<times> int" where
  "read_lora_training_epochs T data =
     (case (plain_int T (map_of data ''current_epoch''), plain_int T (map_of data ''train_epochs'')) of
        (Some current_epoch, Some train_epochs) \<Rightarrow>
          if current_epoch < 0 \<or> train_epochs < 1 \<or> current_epoch > train_epochs
          then Inl (task_failed ''Worker progress event has invalid training epoch fields'')
          else Inr (current_epoch, train_epochs)
      | _ \<Rightarrow> Inl (task_failed ''Worker progress event has invalid training epoch fields''))"

definition read_lora_training_result :: "training_decoders \<Rightarrow> json_object \<Rightarrow> job_exn + train_result" where
  "read_lora_training_result T data =
     (case map_of data ''result'' of
        None \<Rightarrow> Inl (task_failed ''Worker done event missing 'result' field'')
      | Some j \<Rightarrow>
          (case td_result T j of
             Inl exc \<Rightarrow> Inl (task_failed (''Worker returned invalid train_lora result: '' @ exc))
           | Inr r \<Rightarrow> Inr r))"

definition report_lora_training_progress ::
    "training_decoders \<Rightarrow> string \<Rightarrow> string \<Rightarrow> rat \<Rightarrow> json_object \<Rightarrow> lora_throttle \<Rightarrow> lora_throttle lora_prog" where
  "report_lora_training_progress T job_id lora_id now data th =
     (case to_float (td_base T) (case map_of data ''progress'' of None \<Rightarrow> JNum 0 | Some j \<Rightarrow> j) of
        None \<Rightarrow> throw (job_exn.Value_Error ''float'')
      | Some fraction \<Rightarrow>
          bind_p (lift_sum (read_lora_training_epochs T data)) (\<lambda>(current_epoch, train_epochs).
          bind_p (lift_sum (worker_training_started_at T (map_of data ''training_started_at''))) (\<lambda>training_started_at.
            report_progress job_id lora_id now fraction current_epoch train_epochs training_started_at th)))"

definition handle_lora_training_event ::
    "training_decoders \<Rightarrow> string \<Rightarrow> string \<Rightarrow> rat \<Rightarrow> sse_event \<Rightarrow> lora_throttle
     \<Rightarrow> (train_result option \<times> lora_throttle) lora_prog" where
  "handle_lora_training_event T job_id lora_id now ev th =
     (if fst ev = ''progress''
      then bind_p (report_lora_training_progress T job_id lora_id now (snd ev) th) (\<lambda>th'. give (None, th'))
      else if fst ev = ''done''
      then bind_p (lift_sum (read_lora_training_result T (snd ev))) (\<lambda>r. give (Some r, th))
      else if fst ev = ''error''
      then throw (task_failed (case map_of (snd ev) ''error'' of
             None \<Rightarrow> ''train_lora failed''
           | Some j \<Rightarrow> if truthy j then text_of_json (td_base T) j else ''train_lora failed''))
      else give (None, th))"

text \<open>\<open>clock\<close> has the reading of the monotonic clock at each event, \<open>err\<close> the error that ends the stream.\<close>

fun read_lora_training_events ::
    "training_decoders \<Rightarrow> string \<Rightarrow> string \<Rightarrow> (nat \<Rightarrow> rat) \<Rightarrow> httpx_error option \<Rightarrow> sse_event list \<Rightarrow> lora_throttle
     \<Rightarrow> ('s, train_result) training_prog" where
  "read_lora_training_events T job_id lora_id clock err [] th =
     (case err of
        None \<Rightarrow> throw (task_failed ''SSE stream ended without done/error event'')
      | Some _ \<Rightarrow> throw Http_Failed)"
| "read_lora_training_events T job_id lora_id clock err (ev # evs) th =
     seq_p (checkpoint Cancelled)
       (bind_p (in_lora (handle_lora_training_event T job_id lora_id (clock (length evs)) ev th)) (\<lambda>(result, th').
         seq_p (in_lora (touch_heartbeat job_id))
           (case result of
              Some r \<Rightarrow> give r
            | None \<Rightarrow> read_lora_training_events T job_id lora_id clock err evs th')))"

subsection \<open>Holding and handing over the GPU\<close>

text \<open>The renewal is cancelled; a failure it already had is raised unless it is suppressed.\<close>

definition cancel_child_task :: "bool \<Rightarrow> ('s, unit) training_prog" where
  "cancel_child_task suppress_failure =
     seq_p (checkpoint Cancelled) (if suppress_failure then give () else checkpoint Http_Failed)"

definition load_lora_training_model :: "'s worker_api \<Rightarrow> string \<Rightarrow> ('s, unit) training_prog" where
  "load_lora_training_model W target_mode = http_call (\<lambda>s. raised_for_status (api_load W target_mode s))"

definition submit_lora_training :: "'s worker_api \<Rightarrow> string \<Rightarrow> string \<Rightarrow> ('s, string) training_prog" where
  "submit_lora_training W target_mode hold_token =
     seq_p (modify (\<lambda>w. w\<lparr>tw_transmitted := True\<rparr>))
       (http_call (\<lambda>s. case api_train W target_mode hold_token s of
          (None, s') \<Rightarrow> (Inl Http_Failed, s') | (Some task_id, s') \<Rightarrow> (Inr task_id, s')))"

text \<open>The answer: whether the token is claimed, if that is known, and by which task.\<close>

definition worker_claimed_lora_handover ::
    "'s worker_api \<Rightarrow> string \<Rightarrow> ('s, bool option \<times> string option) training_prog" where
  "worker_claimed_lora_handover W hold_token =
     attempt (http_call (\<lambda>s. (Inr (case api_probe W hold_token s of
                None \<Rightarrow> (None, None)
              | Some (claimed, task_id) \<Rightarrow> if \<not> claimed then (Some False, None) else (Some True, task_id)), s)))
       (\<lambda>e. if e = Http_Failed then give (None, None) else throw e)"

definition release_lora_hold :: "'s worker_api \<Rightarrow> string \<Rightarrow> bool \<Rightarrow> ('s, unit) training_prog" where
  "release_lora_hold W hold_token best_effort =
     attempt (http_call (\<lambda>s. raised_for_status (api_release W hold_token s)))
       (\<lambda>e. if e = Http_Failed \<and> best_effort then give () else throw e)"

definition release_unless_complete :: "'s worker_api \<Rightarrow> string \<Rightarrow> ('s, unit) training_prog" where
  "release_unless_complete W hold_token =
     reading (\<lambda>w. if \<not> tw_complete w then release_lora_hold W hold_token True else give ())"

definition recover_lora_submission ::
    "'s worker_api \<Rightarrow> string \<Rightarrow> string option \<Rightarrow> ('s, string option) training_prog" where
  "recover_lora_submission W hold_token task_id =
     bind_p (reading (\<lambda>w.
        if tw_transmitted w
        then seq_p (modify (\<lambda>w. w\<lparr>tw_complete := True\<rparr>))
          (bind_p (worker_claimed_lora_handover W hold_token) (\<lambda>(claimed, probed).
             case probed of
               Some t \<Rightarrow> give (Some t)
             | None \<Rightarrow> if claimed = Some False then seq_p (modify (\<lambda>w. w\<lparr>tw_complete := False\<rparr>)) (give task_id)
                       else give task_id))
        else give task_id)) (\<lambda>task_id'.
     seq_p (release_unless_complete W hold_token) (give task_id'))"

text \<open>The part of \<open>_pick_and_call_worker\<close> before the events: the task the worker runs for this job.\<close>

definition hand_over_training :: "'s worker_api \<Rightarrow> string \<Rightarrow> string \<Rightarrow> ('s, string) training_prog" where
  "hand_over_training W target_mode hold_token =
     seq_p (modify (\<lambda>w. w\<lparr>tw_transmitted := False\<rparr>))
       (ensuring
          (attempt
             (seq_p (load_lora_training_model W target_mode)
               (bind_p (submit_lora_training W target_mode hold_token) (\<lambda>task_id.
                  seq_p (modify (\<lambda>w. w\<lparr>tw_complete := True\<rparr>)) (give task_id))))
             (\<lambda>e. bind_p (recover_lora_submission W hold_token None) (\<lambda>task_id.
                case task_id of None \<Rightarrow> throw e | Some t \<Rightarrow> give t)))
          (reading (\<lambda>w. cancel_child_task (tw_complete w))))"

text \<open>
  What one job meets outside its own state: \<open>streams\<close> are the connections to the events of a task,
  \<open>left_behind\<close> is what the worker's training has put into the temporary directory when they end.
\<close>

record training_setting =
  ts_decoders :: training_decoders
  ts_options :: dispatch_options
  ts_streams :: "string \<Rightarrow> nat \<Rightarrow> stream_connection"
  ts_left_behind :: "string \<Rightarrow> lora_node option"
  ts_clock :: "nat \<Rightarrow> rat"
  ts_on_disk :: "string list \<Rightarrow> bool"
  ts_audio_dir :: "string list"
  ts_cwd :: "string list"
  ts_pid :: int
  ts_pick :: "job_exn option"                        \<comment> \<open>what \<open>pick_worker\<close> raises\<close>
  ts_repr :: "string \<Rightarrow> string"
  ts_show :: "int \<Rightarrow> string"

definition pick_and_call_worker ::
    "training_setting \<Rightarrow> 's worker_api \<Rightarrow> voice_key \<Rightarrow> string \<Rightarrow> string \<Rightarrow> string \<Rightarrow> ('s, train_result) training_prog" where
  "pick_and_call_worker X W key job_id target_mode hold_token =
     bind_p (hand_over_training W target_mode hold_token) (\<lambda>task_id.
       (case iterate_task_events (td_base (ts_decoders X)) (ts_options X) (ts_streams X task_id) of (events, err, _) \<Rightarrow>
          seq_p (modify (\<lambda>w. w\<lparr>tw_lora := put_node key Training_Tmp (ts_left_behind X task_id) (tw_lora w)\<rparr>))
            (read_lora_training_events (ts_decoders X) job_id (snd key) (ts_clock X) err events new_throttle)))"

definition start_lora_hold_renewal :: "('s, unit) training_prog" where
  "start_lora_hold_renewal = seq_p (checkpoint Cancelled) (modify (\<lambda>w. w\<lparr>tw_renewing := True\<rparr>))"

definition discard_old_output :: "voice_key \<Rightarrow> unit lora_prog" where
  "discard_old_output key =
     seq_p (change OS_Error id)
       (reading (\<lambda>w. if lw_files w key Training_Tmp \<noteq> None then rmtree key Training_Tmp else give ()))"

definition prepare_and_submit_lora ::
    "training_setting \<Rightarrow> 's worker_api \<Rightarrow> voice_key \<Rightarrow> string \<Rightarrow> string \<Rightarrow> lora_sample list \<Rightarrow> string
     \<Rightarrow> ('s, train_result option) training_prog" where
  "prepare_and_submit_lora X W key job_id target_mode samples hold_token =
     seq_p (modify (\<lambda>w. w\<lparr>tw_complete := False, tw_renewing := False\<rparr>))
       (ensuring
          (seq_p start_lora_hold_renewal
          (bind_p (in_lora (update_job job_id ((status_update RUNNING)\<lparr>u_worker_pid := Write (ts_pid X)\<rparr>))) (\<lambda>applied.
             if \<not> applied then give None
             else seq_p (checkpoint Cancelled)
                 (seq_p (in_lora (materialize_dataset (ts_on_disk X) (ts_audio_dir X) key samples))
                 (seq_p (checkpoint Http_Failed)
                 (seq_p (in_lora (commit_lora (snd key) (no_update\<lparr>lu_status := Some L_Preprocessing, lu_clear_error := True\<rparr>) []))
                 (seq_p (in_lora (update_job job_id ((status_update RUNNING)\<lparr>u_progress := 1 / 20\<rparr>)))
                 (seq_p (in_lora (discard_old_output key))
                 (bind_p (pick_and_call_worker X W key job_id target_mode hold_token) (\<lambda>r. give (Some r)))))))))))
          (seq_p (release_unless_complete W hold_token)
             (reading (\<lambda>w. if tw_renewing w then cancel_child_task True else give ()))))"

subsection \<open>The job\<close>

definition reserve_lora_worker :: "training_setting \<Rightarrow> 's worker_api \<Rightarrow> ('s, string) training_prog" where
  "reserve_lora_worker X W =
     (case ts_pick X of
        Some e \<Rightarrow> throw e
      | None \<Rightarrow> reading (\<lambda>w.
          if count_queued_generation_jobs (jw_jobs (tw_lora w)) > 0
          then throw (Sched_Failed (AllWorkersHeld ''A generation is waiting before LoRA training''))
          else http_call (\<lambda>s. case api_reserve W s of
             (Inl status, s') \<Rightarrow>
               (Inl (if status = 409 then Sched_Failed (AllWorkersHeld ''ACE-Step worker is busy or held'') else Http_Failed), s')
           | (Inr token, s') \<Rightarrow> (Inr token, s'))))"

text \<open>\<open>samples_of\<close> of the table of samples; a voice that is gone or deleted fails the job.\<close>

definition load_lora_training_samples :: "lora_sample list \<Rightarrow> string \<Rightarrow> string \<Rightarrow> lora_sample list option lora_prog" where
  "load_lora_training_samples samples job_id lora_id = reading (\<lambda>w.
     (case get_user_lora lora_id True (lw_loras w) of
        None \<Rightarrow> seq_p (update_job job_id (failed_update ''LoRA not found'' ''lora_missing'')) (give None)
      | Some l \<Rightarrow>
          if lo_deleted_at l \<noteq> None
          then seq_p (update_job job_id (failed_update ''LoRA is deleted'' ''lora_deleted'')) (give None)
          else give (Some (samples_of lora_id samples))))"

definition LORA_QUEUE_TIMEOUT_MESSAGE :: string where
  "LORA_QUEUE_TIMEOUT_MESSAGE = ''Generation queue did not drain before LoRA training could start''"

definition LORA_WAITING_FOR_GENERATION_QUEUE_REASON :: string where
  "LORA_WAITING_FOR_GENERATION_QUEUE_REASON = ''Waiting for queued generations on this GPU.''"

text \<open>The time a job has waited, in microseconds.\<close>

definition lora_queue_wait :: "string \<Rightarrow> lora_world \<Rightarrow> int option" where
  "lora_queue_wait job_id w = map_option (\<lambda>j. jw_now w - j_started_at j) (get_row job_id (jw_jobs w))"

definition defer_lora_training_for_generation ::
    "voice_key \<Rightarrow> string \<Rightarrow> string \<Rightarrow> ('s, unit) training_prog" where
  "defer_lora_training_for_generation key job_id target_mode = reading (\<lambda>w.
     (case lora_queue_wait job_id (tw_lora w) of
        None \<Rightarrow> give ()
      | Some waited \<Rightarrow>
          if waited \<ge> seconds (queued_seconds (STALE_JOB_THRESHOLDS 0 LORA_TRAINING))
          then seq_p (in_lora (cleanup_failed_lora_with_factory key LORA_QUEUE_TIMEOUT_MESSAGE))
                 (seq_p (in_lora (update_job job_id (failed_update LORA_QUEUE_TIMEOUT_MESSAGE ''generation_queue_timeout'')))
                    (give ()))
          else seq_p (in_lora (update_job job_id
                        ((status_update QUEUED)\<lparr>u_queue_reason := Some LORA_WAITING_FOR_GENERATION_QUEUE_REASON\<rparr>)))
                 (change Redis_Failed (\<lambda>w. w\<lparr>tw_enqueued := tw_enqueued w @ [(job_id, key, target_mode)]\<rparr>))))"

definition submit_lora_training_job ::
    "training_setting \<Rightarrow> 's worker_api \<Rightarrow> voice_key \<Rightarrow> string \<Rightarrow> string \<Rightarrow> lora_sample list \<Rightarrow> string
     \<Rightarrow> ('s, train_result option) training_prog" where
  "submit_lora_training_job X W key job_id target_mode samples hold_token =
     attempt (prepare_and_submit_lora X W key job_id target_mode samples hold_token) (\<lambda>e.
       case e of
         Sched_Failed (NoCapacityError _) \<Rightarrow> seq_p (in_lora (fail_lora_training key job_id e ''no_workers'')) (give None)
       | _ \<Rightarrow> throw e)"

definition run_lora_training ::
    "training_setting \<Rightarrow> 's worker_api \<Rightarrow> lora_sample list \<Rightarrow> voice_key \<Rightarrow> string \<Rightarrow> string \<Rightarrow> ('s, unit) training_prog" where
  "run_lora_training X W table key job_id target_mode =
     bind_p (in_lora (load_lora_training_samples table job_id (snd key))) (\<lambda>samples.
       case samples of
         None \<Rightarrow> give ()
       | Some ss \<Rightarrow>
           bind_p (attempt (bind_p (reserve_lora_worker X W) (\<lambda>token. give (Some token)))
                     (\<lambda>e. case e of
                        Sched_Failed (AllWorkersHeld _) \<Rightarrow> seq_p (defer_lora_training_for_generation key job_id target_mode) (give None)
                      | _ \<Rightarrow> throw e)) (\<lambda>token.
             case token of
               None \<Rightarrow> give ()
             | Some hold_token \<Rightarrow>
                 bind_p (submit_lora_training_job X W key job_id target_mode ss hold_token) (\<lambda>submitted.
                   case submitted of
                     None \<Rightarrow> give ()
                   | Some r \<Rightarrow> in_lora (complete_lora_training (ts_repr X) (ts_show X) (ts_cwd X) (ts_audio_dir X)
                                 key job_id target_mode r))))"

definition run_lora_training_job ::
    "training_setting \<Rightarrow> 's worker_api \<Rightarrow> lora_sample list \<Rightarrow> voice_key \<Rightarrow> string \<Rightarrow> string \<Rightarrow> ('s, unit) training_prog" where
  "run_lora_training_job X W table key job_id target_mode =
     attempt (run_lora_training X W table key job_id target_mode) (\<lambda>e. in_lora (settle_exception key job_id e))"

end
