(* ===== verification/Lora_Handover.thy ===== *)
theory Lora_Handover
  imports Worker_Routes Lora_Submission
begin

text \<open>
  The hold of the GPU between a training job and its worker.  \<open>training_host\<close> is what the job relies on
  from the worker: who runs a token's training, who holds the GPU, and what each call does to both.
  \<open>Worker_Gpu\<close> provides it.  A condition speaks of the worker's state and of the two flags of the job.
\<close>

type_synonym 's hand_cond = "'s \<Rightarrow> bool \<Rightarrow> bool \<Rightarrow> bool"

definition coord :: "('s \<Rightarrow> bool) \<Rightarrow> bool \<Rightarrow> 's hand_cond \<Rightarrow> 's training_world \<Rightarrow> bool" where
  "coord good calm \<Phi> w \<longleftrightarrow> (calm \<longrightarrow> w_script w = []) \<and> good (tw_worker w)
     \<and> \<Phi> (tw_worker w) (tw_complete w) (tw_transmitted w)"

definition hspec ::
    "('s \<Rightarrow> bool) \<Rightarrow> bool \<Rightarrow> 's hand_cond \<Rightarrow> ('s, 'a) training_prog \<Rightarrow> ('a \<Rightarrow> 's hand_cond) \<Rightarrow> (job_exn \<Rightarrow> 's hand_cond)
       \<Rightarrow> 's hand_cond \<Rightarrow> bool" where
  "hspec good calm \<Phi> p Q E C \<longleftrightarrow>
     runs_to (coord good calm \<Phi>) p (\<lambda>x. coord good calm (Q x)) (\<lambda>e. coord good calm (E e)) (coord good calm C)"

lemma coord_mono: "coord good calm \<Phi> w \<Longrightarrow> (\<And>s c t. \<Phi> s c t \<Longrightarrow> \<Psi> s c t) \<Longrightarrow> coord good calm \<Psi> w"
  by (auto simp: coord_def)

lemma hspec_weaken:
  assumes "hspec good calm \<Phi>' p Q' E' C'" and "\<And>s c t. \<Phi> s c t \<Longrightarrow> \<Phi>' s c t" and "\<And>x s c t. Q' x s c t \<Longrightarrow> Q x s c t"
    and "\<And>e s c t. E' e s c t \<Longrightarrow> E e s c t" and "\<And>s c t. C' s c t \<Longrightarrow> C s c t"
  shows "hspec good calm \<Phi> p Q E C"
  using assms(1) unfolding hspec_def
  by (rule runs_to_weaken) (auto intro: coord_mono assms(2-5))

lemma hspec_give: "(\<And>s c t. \<Phi> s c t \<Longrightarrow> Q x s c t) \<Longrightarrow> hspec good calm \<Phi> (give x) Q E C"
  unfolding hspec_def by (rule runs_give) (rule coord_mono)

lemma hspec_throw: "(\<And>s c t. \<Phi> s c t \<Longrightarrow> E e s c t) \<Longrightarrow> hspec good calm \<Phi> (throw e) Q E C"
  unfolding hspec_def by (rule runs_throw) (rule coord_mono)

lemma hspec_bind:
  "hspec good calm \<Phi> p R E C \<Longrightarrow> (\<And>x. hspec good calm (R x) (q x) Q E C) \<Longrightarrow> hspec good calm \<Phi> (bind_p p q) Q E C"
  unfolding hspec_def by (rule runs_bind)

lemma hspec_seq:
  "hspec good calm \<Phi> p (\<lambda>_. R) E C \<Longrightarrow> hspec good calm R q Q E C \<Longrightarrow> hspec good calm \<Phi> (seq_p p q) Q E C"
  unfolding hspec_def by (rule runs_seq)

lemma hspec_attempt:
  "hspec good calm \<Phi> p Q R C \<Longrightarrow> (\<And>e. hspec good calm (R e) (h e) Q E C) \<Longrightarrow> hspec good calm \<Phi> (attempt p h) Q E C"
  unfolding hspec_def by (rule runs_attempt)

lemma hspec_ensuring:
  "hspec good calm \<Phi> p R S C \<Longrightarrow> (\<And>x. hspec good calm (R x) f (\<lambda>_. Q x) E C)
   \<Longrightarrow> (\<And>e. hspec good calm (S e) f (\<lambda>_. E e) E C) \<Longrightarrow> hspec good calm \<Phi> (ensuring p f) Q E C"
  unfolding hspec_def by (rule runs_ensuring)

lemma hspec_reading:
  assumes "\<And>w. \<Phi> (tw_worker w) (tw_complete w) (tw_transmitted w) \<Longrightarrow>
    hspec good calm (\<lambda>s c t. c = tw_complete w \<and> t = tw_transmitted w \<and> \<Phi> s c t) (f w) Q E C"
  shows "hspec good calm \<Phi> (reading f) Q E C"
  unfolding hspec_def
proof (rule runs_reading)
  fix v :: "'a training_world"
  assume v: "coord good calm \<Phi> v"
  then have "hspec good calm (\<lambda>s c t. c = tw_complete v \<and> t = tw_transmitted v \<and> \<Phi> s c t) (f v) Q E C"
    by (intro assms) (simp add: coord_def)
  then show "runs_to (\<lambda>w. w = v) (f v) (\<lambda>x. coord good calm (Q x)) (\<lambda>e. coord good calm (E e)) (coord good calm C)"
    unfolding hspec_def by (rule runs_to_weaken) (use v in \<open>auto simp: coord_def\<close>)
qed

lemma hspec_modify:
  assumes "\<And>w. \<Phi> (tw_worker w) (tw_complete w) (tw_transmitted w)
      \<Longrightarrow> Q () (tw_worker w) (tw_complete (f w)) (tw_transmitted (f w))"
    and "\<And>w. tw_worker (f w) = tw_worker w" and "\<And>w. w_script (f w) = w_script w"
  shows "hspec good calm \<Phi> (modify f) Q E C"
  unfolding hspec_def by (rule runs_toI) (use assms in \<open>auto simp: modify_def coord_def\<close>)

text \<open>A fault needs a script that is not empty.\<close>

lemma hspec_effect:
  assumes "\<And>s c t r s'. good s \<Longrightarrow> \<Phi> s c t \<Longrightarrow> act s = (r, s') \<Longrightarrow>
      good s' \<and> (case r of Inr x \<Rightarrow> Q x s' c t | Inl e \<Rightarrow> E e s' c t)"
    and "\<And>s c t. \<not> calm \<Longrightarrow> \<Phi> s c t \<Longrightarrow> E e s c t \<and> C s c t"
  shows "hspec good calm \<Phi> (effect e (\<lambda>w. case act (tw_worker w) of (r, s) \<Rightarrow> (r, w\<lparr>tw_worker := s\<rparr>))) Q E C"
  unfolding hspec_def
proof (rule runs_toI)
  fix w :: "'a training_world"
  assume w: "coord good calm \<Phi> w"
  obtain r s' where run: "act (tw_worker w) = (r, s')" by fastforce
  have post: "good s' \<and> (case r of Inr x \<Rightarrow> Q x s' (tw_complete w) (tw_transmitted w)
      | Inl e \<Rightarrow> E e s' (tw_complete w) (tw_transmitted w))"
    using w by (intro assms(1) [OF _ _ run]) (auto simp: coord_def)
  have faults: "w_script w \<noteq> [] \<Longrightarrow> E e (tw_worker w) (tw_complete w) (tw_transmitted w) \<and> C (tw_worker w) (tw_complete w) (tw_transmitted w)"
    using w assms(2) by (auto simp: coord_def)
  have calm: "calm \<Longrightarrow> w_script w = []" using w by (simp add: coord_def)
  show "case effect e (\<lambda>w. case act (tw_worker w) of (r, s) \<Rightarrow> (r, w\<lparr>tw_worker := s\<rparr>)) w of
      (Done x, w') \<Rightarrow> coord good calm (Q x) w' | (Raised e, w') \<Rightarrow> coord good calm (E e) w' | (Killed, w') \<Rightarrow> coord good calm C w'"
    using post faults calm w unfolding effect_def Let_def
    by (auto simp: run coord_def split: fate.split sum.split if_splits)
qed

lemma hspec_checkpoint:
  assumes "\<And>s c t. \<Phi> s c t \<Longrightarrow> Q () s c t" and "\<And>s c t. \<not> calm \<Longrightarrow> \<Phi> s c t \<Longrightarrow> E e s c t \<and> C s c t"
  shows "hspec good calm \<Phi> (checkpoint e) Q E C"
  unfolding hspec_def checkpoint_def
proof (rule runs_toI)
  fix w :: "'a training_world"
  assume w: "coord good calm \<Phi> w"
  have faults: "w_script w \<noteq> [] \<Longrightarrow> E e (tw_worker w) (tw_complete w) (tw_transmitted w) \<and> C (tw_worker w) (tw_complete w) (tw_transmitted w)"
    using w assms(2) by (auto simp: coord_def)
  show "case change e id w of
      (Done x, w') \<Rightarrow> coord good calm (Q x) w' | (Raised e, w') \<Rightarrow> coord good calm (E e) w' | (Killed, w') \<Rightarrow> coord good calm C w'"
    using w assms(1) faults unfolding change_def effect_def Let_def
    by (auto simp: coord_def split: fate.split if_splits)
qed

lemma hspec_call:
  assumes "\<And>s c t r s'. good s \<Longrightarrow> \<Phi> s c t \<Longrightarrow> act s = (r, s') \<Longrightarrow>
      good s' \<and> (case r of Inr x \<Rightarrow> Q x s' c t | Inl e \<Rightarrow> E e s' c t)"
    and "\<And>e s c t. \<not> calm \<Longrightarrow> e \<in> {Http_Failed, Cancelled} \<Longrightarrow> \<Phi> s c t \<Longrightarrow> E e s c t \<and> C s c t"
    and "\<And>e x s c t. \<not> calm \<Longrightarrow> e \<in> {Http_Failed, Cancelled} \<Longrightarrow> Q x s c t \<Longrightarrow> E e s c t \<and> C s c t"
  shows "hspec good calm \<Phi> (http_call act) Q E C"
  unfolding http_call_def
proof (rule hspec_seq)
  show "hspec good calm \<Phi> (checkpoint Cancelled) (\<lambda>_. \<Phi>) E C"
    by (rule hspec_checkpoint) (use assms(2) [of Cancelled] in auto)
  show "hspec good calm \<Phi>
      (bind_p (effect Http_Failed (\<lambda>w. case act (tw_worker w) of (r, s) \<Rightarrow> (r, w\<lparr>tw_worker := s\<rparr>)))
        (\<lambda>x. seq_p (checkpoint Http_Failed) (seq_p (checkpoint Cancelled) (give x)))) Q E C"
  proof (rule hspec_bind)
    show "hspec good calm \<Phi> (effect Http_Failed (\<lambda>w. case act (tw_worker w) of (r, s) \<Rightarrow> (r, w\<lparr>tw_worker := s\<rparr>))) Q E C"
      by (rule hspec_effect [OF assms(1)]) (use assms(2) [of Http_Failed] in auto)
    show "hspec good calm (Q x) (seq_p (checkpoint Http_Failed) (seq_p (checkpoint Cancelled) (give x))) Q E C" for x
      by (intro hspec_seq [where R = "Q x"] hspec_checkpoint hspec_give)
        (use assms(3) [of Http_Failed] assms(3) [of Cancelled] in auto)
  qed
qed

text \<open>The files and the database are the other half of the world; a calm step leaves the script empty.\<close>

definition stays_calm :: "'a lora_prog \<Rightarrow> bool" where
  "stays_calm p \<longleftrightarrow> (\<forall>w. w_script w = [] \<longrightarrow> w_script (snd (p w)) = [] \<and> fst (p w) \<noteq> Killed)"

lemma hspec_in_lora:
  assumes "stays_calm p" and "\<And>x s c t. \<Phi> s c t \<Longrightarrow> Q x s c t" and "\<And>e s c t. \<Phi> s c t \<Longrightarrow> E e s c t"
    and "\<And>s c t. \<not> calm \<Longrightarrow> \<Phi> s c t \<Longrightarrow> C s c t"
  shows "hspec good calm \<Phi> (in_lora p) Q E C"
  unfolding hspec_def
proof (rule runs_toI)
  fix w :: "'b training_world"
  assume w: "coord good calm \<Phi> w"
  obtain r v where run: "p ((tw_lora w)\<lparr>w_script := w_script w\<rparr>) = (r, v)" by fastforce
  have "calm \<Longrightarrow> w_script v = [] \<and> r \<noteq> Killed"
    using assms(1) w run unfolding stays_calm_def coord_def by (metis (no_types, lifting) fst_conv snd_conv world.select_convs(1) world.surjective world.update_convs(1))
  moreover have same: "in_lora p w = (r, w\<lparr>tw_lora := v, w_script := w_script v\<rparr>)" by (simp add: in_lora_def run)
  ultimately show "case in_lora p w of
      (Done x, w') \<Rightarrow> coord good calm (Q x) w' | (Raised e, w') \<Rightarrow> coord good calm (E e) w' | (Killed, w') \<Rightarrow> coord good calm C w'"
    using w assms(2-4) unfolding same by (cases r; cases calm) (auto simp: coord_def)
qed

subsection \<open>Calm steps\<close>

lemma stays_calmI: "(\<And>w. w_script w = [] \<Longrightarrow> w_script (snd (p w)) = [] \<and> fst (p w) \<noteq> Killed) \<Longrightarrow> stays_calm p"
  by (simp add: stays_calm_def)

lemma calm_give: "stays_calm (give x)" and calm_throw: "stays_calm (throw e)"
  by (simp_all add: stays_calm_def give_def throw_def)

lemma calm_bind:
  assumes "stays_calm p" and "\<And>x. stays_calm (q x)"
  shows "stays_calm (bind_p p q)"
proof (rule stays_calmI)
  fix w :: lora_world assume "w_script w = []"
  then show "w_script (snd (bind_p p q w)) = [] \<and> fst (bind_p p q w) \<noteq> Killed"
    using assms unfolding stays_calm_def bind_p_def by (cases "p w"; cases "fst (p w)") (force, force, force)
qed

lemma calm_seq: "stays_calm p \<Longrightarrow> stays_calm q \<Longrightarrow> stays_calm (seq_p p q)"
  unfolding seq_p_def by (rule calm_bind)

lemma calm_reading: "(\<And>w. stays_calm (f w)) \<Longrightarrow> stays_calm (reading f)"
  by (simp add: stays_calm_def reading_def)

lemma calm_attempt:
  assumes "stays_calm p" and "\<And>e. stays_calm (h e)"
  shows "stays_calm (attempt p h)"
proof (rule stays_calmI)
  fix w :: lora_world assume "w_script w = []"
  then show "w_script (snd (attempt p h w)) = [] \<and> fst (attempt p h w) \<noteq> Killed"
    using assms unfolding stays_calm_def attempt_def by (cases "p w"; cases "fst (p w)") (force, force, force)
qed

lemma calm_effect: "(\<And>w. w_script (snd (act w)) = w_script w) \<Longrightarrow> stays_calm (effect e act)"
  by (rule stays_calmI) (auto simp: effect_works split: prod.split sum.split, (metis snd_conv)+)

lemma calm_change: "(\<And>w. w_script (f w) = w_script w) \<Longrightarrow> stays_calm (change e f)"
  by (rule stays_calmI) (simp add: change_works)

lemma calm_if: "stays_calm p \<Longrightarrow> stays_calm q \<Longrightarrow> stays_calm (if b then p else q)"
  by simp

lemma put_node_script [simp]: "w_script (put_node key p n w) = w_script w"
  by (simp add: put_node_def)

lemma calm_files: "stays_calm (rmtree key p)" "stays_calm (put_dataset_file key name f)" "stays_calm (commit_lora k u a)"
    "stays_calm (update_job job_id ju)" "stays_calm (touch_heartbeat job_id)"
  unfolding rmtree_def put_dataset_file_def commit_lora_def update_job_def update_job_once_def touch_heartbeat_def
  by (intro calm_seq calm_effect calm_change calm_attempt calm_throw calm_give;
      simp split: option.split lora_node.split prod.split sum.split)+

lemmas calm_rules = calm_give calm_throw calm_bind calm_seq calm_reading calm_attempt calm_if calm_files calm_change

lemma calm_lift: "stays_calm (lift_sum r)"
  unfolding lift_sum_def by (cases r) (simp_all add: calm_rules)

lemma calm_materialize: "stays_calm (materialize_dataset on_disk audio_dir key samples)"
proof -
  have one: "stays_calm (add_sample on_disk audio_dir key s)" for s
    unfolding add_sample_def Let_def by (intro calm_rules)
  have "stays_calm (add_samples on_disk audio_dir key samples)"
    by (induction samples) (auto intro: calm_give calm_seq one)
  then show ?thesis unfolding materialize_dataset_def by (intro calm_rules) simp_all
qed

lemma calm_discard: "stays_calm (discard_old_output key)"
  unfolding discard_old_output_def by (intro calm_rules) simp

lemma calm_event: "stays_calm (handle_lora_training_event T job_id lora_id now ev th)"
proof -
  have report: "stays_calm (report_progress job_id lora_id now fraction e n started th)" for fraction e n started
    unfolding report_progress_def Let_def by (intro calm_rules)
  have "stays_calm (report_lora_training_progress T job_id lora_id now (snd ev) th)"
    unfolding report_lora_training_progress_def
    by (cases "to_float (td_base T) (case map_of (snd ev) ''progress'' of None \<Rightarrow> JNum 0 | Some j \<Rightarrow> j)")
      (simp_all add: calm_throw calm_bind calm_lift report split: prod.split)
  then show ?thesis unfolding handle_lora_training_event_def by (intro calm_rules calm_lift)
qed

subsection \<open>What the job relies on\<close>

text \<open>
  For one token: \<open>runs s\<close> is the task that trains for it, \<open>held s\<close> that the GPU is held for it.  A refused
  training leaves no claim; the probe tells the truth; a release is refused while a training runs.
\<close>

locale training_host =
  fixes W :: "'s worker_api" and good :: "'s \<Rightarrow> bool" and token :: string
    and runs :: "'s \<Rightarrow> string option" and held :: "'s \<Rightarrow> bool"
  assumes load_law: "good s \<Longrightarrow> api_load W mode s = (ok, s') \<Longrightarrow> good s' \<and> runs s' = runs s \<and> held s' = held s"
    and train_starts: "good s \<Longrightarrow> runs s = None \<Longrightarrow> api_train W mode token s = (Some task_id, s') \<Longrightarrow> good s' \<and> runs s' = Some task_id \<and> held s'"
    and train_refused: "good s \<Longrightarrow> runs s = None \<Longrightarrow> api_train W mode token s = (None, s') \<Longrightarrow> good s' \<and> runs s' = None"
    and probe_law: "good s \<Longrightarrow> api_probe W token s = Some (runs s \<noteq> None, runs s)"
    and release_frees: "good s \<Longrightarrow> runs s = None \<Longrightarrow> api_release W token s = (ok, s') \<Longrightarrow> good s' \<and> runs s' = None \<and> \<not> held s'"
    and release_spares: "good s \<Longrightarrow> runs s \<noteq> None \<Longrightarrow> api_release W token s = (ok, s') \<Longrightarrow> good s' \<and> runs s' = runs s \<and> held s' = held s"
begin

text \<open>A running training keeps its hold, and the job knows of it; when nothing fails, the job knows of no other.\<close>

definition safe :: "bool \<Rightarrow> 's hand_cond" where
  "safe calm s c t \<longleftrightarrow> (runs s \<noteq> None \<longrightarrow> c \<and> held s) \<and> (calm \<and> c \<longrightarrow> runs s \<noteq> None)"

abbreviation "spec \<equiv> hspec good"

text \<open>After a release that got through, the hold is gone or belongs to a training.\<close>

definition clean :: "bool \<Rightarrow> 's hand_cond" where
  "clean calm s c t \<longleftrightarrow> safe calm s c t \<and> (calm \<longrightarrow> runs s \<noteq> None \<or> \<not> held s)"

definition idle :: "'s hand_cond" where "idle s c t \<longleftrightarrow> runs s = None \<and> \<not> c"

definition handed :: "string \<Rightarrow> 's hand_cond" where
  "handed task_id s c t \<longleftrightarrow> c \<and> runs s = Some task_id \<and> held s"

text \<open>Between the request and the flag: a training may run that the job has not noted.\<close>

definition unnoted :: "'s hand_cond" where
  "unnoted s c t \<longleftrightarrow> \<not> c \<and> (runs s \<noteq> None \<longrightarrow> held s \<and> t)"

definition kept_hold :: "'s hand_cond" where "kept_hold s c t \<longleftrightarrow> (runs s \<noteq> None \<longrightarrow> held s)"

definition dead :: "bool \<Rightarrow> 's hand_cond" where "dead calm s c t \<longleftrightarrow> \<not> calm \<and> kept_hold s c t"

lemmas hand_defs = dead_def safe_def clean_def idle_def handed_def unnoted_def kept_hold_def

lemma clean_facts:
  "handed task_id s c t \<Longrightarrow> clean calm s c t"
  "\<not> calm \<Longrightarrow> handed task_id s c t \<Longrightarrow> dead calm s c t"
  "\<not> calm \<Longrightarrow> clean calm s c t \<Longrightarrow> dead calm s c t"
  by (auto simp: hand_defs)

lemma spec_release:
  assumes "\<And>s c t. \<Phi> s c t \<Longrightarrow> safe calm s c t \<and> (P \<longrightarrow> c \<and> R s)"
  shows "spec calm \<Phi> (release_unless_complete W token) (\<lambda>_ s c t. clean calm s c t \<and> (P \<longrightarrow> c \<and> R s))
    (\<lambda>_. clean calm) (dead calm)"
  unfolding release_unless_complete_def
proof (rule hspec_reading)
  fix w :: "'s training_world"
  let ?at = "\<lambda>s c t. c = tw_complete w \<and> t = tw_transmitted w \<and> \<Phi> s c t"
  let ?Q = "\<lambda>_ s c t. clean calm s c t \<and> (P \<longrightarrow> c \<and> R s)"
  have call: "spec calm (\<lambda>s c t. \<not> P \<and> \<not> c \<and> safe calm s c t) (http_call (\<lambda>s. raised_for_status (api_release W token s)))
      (\<lambda>_ s c t. \<not> P \<and> \<not> c \<and> clean calm s c t) (\<lambda>_ s c t. \<not> P \<and> \<not> c \<and> clean calm s c t) (dead calm)"
    by (rule hspec_call)
      (auto simp: raised_for_status_def hand_defs split: if_splits dest: release_frees [OF _ _ surjective_pairing])
  show "spec calm ?at (if \<not> tw_complete w then release_lora_hold W token True else give ()) ?Q (\<lambda>_. clean calm) (dead calm)"
  proof (cases "tw_complete w")
    case True
    have "clean calm s c t \<and> (P \<longrightarrow> c \<and> R s)" if "?at s c t" for s c t
      using assms [of s c t] that True by (auto simp: clean_def safe_def)
    then have "spec calm ?at (give ()) ?Q (\<lambda>_. clean calm) (dead calm)" by (rule hspec_give)
    then show ?thesis using True by simp
  next
    case False
    have "spec calm (\<lambda>s c t. \<not> P \<and> \<not> c \<and> safe calm s c t) (release_lora_hold W token True)
        (\<lambda>_ s c t. \<not> P \<and> \<not> c \<and> clean calm s c t) (\<lambda>_ s c t. \<not> P \<and> \<not> c \<and> clean calm s c t) (dead calm)"
      unfolding release_lora_hold_def
      by (rule hspec_attempt [OF call]) (auto intro: hspec_give hspec_throw)
    then have "spec calm ?at (release_lora_hold W token True) ?Q (\<lambda>_. clean calm) (dead calm)"
      by (rule hspec_weaken) (use False assms in auto)
    then show ?thesis using False by simp
  qed
qed

lemma load_facts [simp]:
  assumes "good s"
  shows "good (snd (api_load W mode s))" and "runs (snd (api_load W mode s)) = runs s" and "held (snd (api_load W mode s)) = held s"
  using load_law [OF assms surjective_pairing] by simp_all

lemma spec_load: "spec calm idle (load_lora_training_model W mode) (\<lambda>_. idle) (\<lambda>_. unnoted) (dead calm)"
  unfolding load_lora_training_model_def
  by (rule hspec_call)
    (auto simp: raised_for_status_def hand_defs split: if_splits)

lemma spec_submit:
  "spec calm idle (submit_lora_training W mode token) (\<lambda>task_id s c t. \<not> c \<and> t \<and> runs s = Some task_id \<and> held s)
     (\<lambda>_. unnoted) (dead calm)"
  unfolding submit_lora_training_def
proof (rule hspec_seq)
  show "spec calm idle (modify (\<lambda>w. w\<lparr>tw_transmitted := True\<rparr>)) (\<lambda>_ s c t. idle s c t \<and> t) (\<lambda>_. unnoted) (dead calm)"
    by (rule hspec_modify) (simp_all add: idle_def)
  show "spec calm (\<lambda>s c t. idle s c t \<and> t)
      (http_call (\<lambda>s. case api_train W mode token s of
          (None, s') \<Rightarrow> (Inl Http_Failed, s') | (Some task_id, s') \<Rightarrow> (Inr task_id, s')))
      (\<lambda>task_id s c t. \<not> c \<and> t \<and> runs s = Some task_id \<and> held s) (\<lambda>_. unnoted) (dead calm)"
    by (rule hspec_call) (auto simp: hand_defs split: prod.splits option.splits dest: train_starts train_refused)
qed

lemma spec_probe:
  "spec calm (\<lambda>s c t. c \<and> kept_hold s c t) (worker_claimed_lora_handover W token)
     (\<lambda>(claimed, probed) s c t. c \<and> kept_hold s c t \<and> (probed \<noteq> None \<longrightarrow> runs s = probed)
        \<and> (claimed = Some False \<longrightarrow> runs s = None)
        \<and> (calm \<and> probed = None \<longrightarrow> claimed = Some False)) (\<lambda>_. clean calm) (dead calm)"
  unfolding worker_claimed_lora_handover_def
proof (rule hspec_attempt)
  show "spec calm (\<lambda>s c t. c \<and> kept_hold s c t)
      (http_call (\<lambda>s. (Inr (case api_probe W token s of
                None \<Rightarrow> (None, None)
              | Some (claimed, task_id) \<Rightarrow> if \<not> claimed then (Some False, None) else (Some True, task_id)), s)))
      (\<lambda>(claimed, probed) s c t. c \<and> kept_hold s c t \<and> (probed \<noteq> None \<longrightarrow> runs s = probed)
        \<and> (claimed = Some False \<longrightarrow> runs s = None)
        \<and> (calm \<and> probed = None \<longrightarrow> claimed = Some False)) (\<lambda>_ s c t. \<not> calm \<and> c \<and> kept_hold s c t) (dead calm)"
    by (rule hspec_call) (auto simp: dead_def split: option.splits prod.splits if_splits dest: probe_law)
  show "spec calm (\<lambda>s c t. \<not> calm \<and> c \<and> kept_hold s c t) (if e = Http_Failed then give (None, None) else throw e)
      (\<lambda>(claimed, probed) s c t. c \<and> kept_hold s c t \<and> (probed \<noteq> None \<longrightarrow> runs s = probed)
        \<and> (claimed = Some False \<longrightarrow> runs s = None)
        \<and> (calm \<and> probed = None \<longrightarrow> claimed = Some False)) (\<lambda>_. clean calm) (dead calm)" for e
    by (auto intro!: hspec_give hspec_throw simp: hand_defs)
qed

lemma spec_recover:
  "spec calm unnoted (recover_lora_submission W token None)
     (\<lambda>x s c t. clean calm s c t \<and> (\<forall>task_id. x = Some task_id \<longrightarrow> handed task_id s c t)) (\<lambda>_. clean calm) (dead calm)"
  unfolding recover_lora_submission_def
proof (rule hspec_bind)
  let ?R = "\<lambda>x s c t. safe calm s c t \<and> (\<forall>task_id. x = Some task_id \<longrightarrow> handed task_id s c t)"
  have probed: "spec calm (\<lambda>s c t. c \<and> kept_hold s c t)
      (bind_p (worker_claimed_lora_handover W token) (\<lambda>(claimed, probed).
             case probed of
               Some t \<Rightarrow> give (Some t)
             | None \<Rightarrow> if claimed = Some False then seq_p (modify (\<lambda>w. w\<lparr>tw_complete := False\<rparr>)) (give None)
                       else give None)) ?R (\<lambda>_. clean calm) (dead calm)"
  proof (rule hspec_bind [OF spec_probe])
    fix x :: "bool option \<times> string option"
    obtain claimed probed where x: "x = (claimed, probed)" by fastforce
    have drop: "spec calm (\<lambda>s c t. c \<and> kept_hold s c t \<and> runs s = None) (modify (\<lambda>w. w\<lparr>tw_complete := False\<rparr>))
        (\<lambda>_. ?R None) (\<lambda>_. clean calm) (dead calm)"
      by (rule hspec_modify) (simp_all add: hand_defs)
    show "spec calm ((\<lambda>(claimed, probed) s c t. c \<and> kept_hold s c t \<and> (probed \<noteq> None \<longrightarrow> runs s = probed)
        \<and> (claimed = Some False \<longrightarrow> runs s = None) \<and> (calm \<and> probed = None \<longrightarrow> claimed = Some False)) x)
      (case x of (claimed, probed) \<Rightarrow>
             (case probed of
               Some t \<Rightarrow> give (Some t)
             | None \<Rightarrow> if claimed = Some False then seq_p (modify (\<lambda>w. w\<lparr>tw_complete := False\<rparr>)) (give None)
                       else give None)) ?R (\<lambda>_. clean calm) (dead calm)"
    proof (cases probed)
      case (Some t)
      then show ?thesis by (auto intro!: hspec_give simp: x hand_defs)
    next
      case None
      have "spec calm (\<lambda>s c t. c \<and> kept_hold s c t \<and> runs s = None)
          (seq_p (modify (\<lambda>w. w\<lparr>tw_complete := False\<rparr>)) (give None)) ?R (\<lambda>_. clean calm) (dead calm)"
        by (rule hspec_seq [OF drop]) (rule hspec_give)
      then show ?thesis using None
        by (auto intro!: hspec_give simp: x hand_defs)
    qed
  qed
  show "spec calm unnoted (reading (\<lambda>w.
        if tw_transmitted w
        then seq_p (modify (\<lambda>w. w\<lparr>tw_complete := True\<rparr>))
          (bind_p (worker_claimed_lora_handover W token) (\<lambda>(claimed, probed).
             case probed of
               Some t \<Rightarrow> give (Some t)
             | None \<Rightarrow> if claimed = Some False then seq_p (modify (\<lambda>w. w\<lparr>tw_complete := False\<rparr>)) (give None)
                       else give None))
        else give None)) ?R (\<lambda>_. clean calm) (dead calm)"
  proof (rule hspec_reading)
    fix w :: "'s training_world"
    have flag: "spec calm unnoted (modify (\<lambda>w. w\<lparr>tw_complete := True\<rparr>)) (\<lambda>_ s c t. c \<and> kept_hold s c t) (\<lambda>_. clean calm) (dead calm)"
      by (rule hspec_modify) (auto simp: hand_defs)
    show "spec calm (\<lambda>s c t. c = tw_complete w \<and> t = tw_transmitted w \<and> unnoted s c t)
        (if tw_transmitted w
        then seq_p (modify (\<lambda>w. w\<lparr>tw_complete := True\<rparr>))
          (bind_p (worker_claimed_lora_handover W token) (\<lambda>(claimed, probed).
             case probed of
               Some t \<Rightarrow> give (Some t)
             | None \<Rightarrow> if claimed = Some False then seq_p (modify (\<lambda>w. w\<lparr>tw_complete := False\<rparr>)) (give None)
                       else give None))
        else give None) ?R (\<lambda>_. clean calm) (dead calm)"
    proof (cases "tw_transmitted w")
      case True
      then show ?thesis by simp (rule hspec_weaken [OF hspec_seq [OF flag probed]], auto)
    next
      case False
      then show ?thesis by (auto intro!: hspec_give simp: hand_defs)
    qed
  qed
  fix x
  have free: "spec calm (?R x) (release_unless_complete W token)
      (\<lambda>_ s c t. clean calm s c t \<and> (x \<noteq> None \<longrightarrow> c \<and> runs s = x \<and> held s)) (\<lambda>_. clean calm) (dead calm)"
    by (rule spec_release) (auto simp: handed_def)
  show "spec calm (?R x) (seq_p (release_unless_complete W token) (give x))
      (\<lambda>x s c t. clean calm s c t \<and> (\<forall>task_id. x = Some task_id \<longrightarrow> handed task_id s c t)) (\<lambda>_. clean calm) (dead calm)"
    by (rule hspec_seq [OF free]) (auto intro!: hspec_give simp: handed_def)
qed

lemma spec_cancel_child:
  assumes "\<And>s c t. \<not> calm \<Longrightarrow> \<Phi> s c t \<Longrightarrow> (\<forall>e. E e s c t) \<and> C s c t"
  shows "spec calm \<Phi> (cancel_child_task b) (\<lambda>_. \<Phi>) E C"
  unfolding cancel_child_task_def
  by (rule hspec_seq [where R = \<Phi>], rule hspec_checkpoint)
    (auto intro!: hspec_give hspec_checkpoint simp: assms)

lemma spec_hand_over:
  "spec calm idle (hand_over_training W mode token) handed (\<lambda>_. clean calm) (dead calm)"
  unfolding hand_over_training_def
proof (rule hspec_seq)
  show "spec calm idle (modify (\<lambda>w. w\<lparr>tw_transmitted := False\<rparr>)) (\<lambda>_. idle) (\<lambda>_. clean calm) (dead calm)"
    by (rule hspec_modify) (simp_all add: idle_def)
  have flag: "spec calm (\<lambda>s c t. \<not> c \<and> t \<and> runs s = Some task_id \<and> held s)
      (seq_p (modify (\<lambda>w. w\<lparr>tw_complete := True\<rparr>)) (give task_id)) handed (\<lambda>_. unnoted) (dead calm)" for task_id
    by (rule hspec_seq [where R = "handed task_id"], rule hspec_modify) (auto intro: hspec_give simp: handed_def)
  have send: "spec calm idle
      (seq_p (load_lora_training_model W mode)
        (bind_p (submit_lora_training W mode token) (\<lambda>task_id.
           seq_p (modify (\<lambda>w. w\<lparr>tw_complete := True\<rparr>)) (give task_id)))) handed (\<lambda>_. unnoted) (dead calm)"
    by (rule hspec_seq [OF spec_load hspec_bind [OF spec_submit flag]])
  have recover: "spec calm unnoted (bind_p (recover_lora_submission W token None) (\<lambda>task_id.
       case task_id of None \<Rightarrow> throw e | Some t \<Rightarrow> give t)) handed (\<lambda>_. clean calm) (dead calm)" for e
  proof (rule hspec_bind [OF spec_recover])
    show "spec calm (\<lambda>s c t. clean calm s c t \<and> (\<forall>task_id. x = Some task_id \<longrightarrow> handed task_id s c t))
        (case x of None \<Rightarrow> throw e | Some t \<Rightarrow> give t) handed (\<lambda>_. clean calm) (dead calm)" for x
      by (cases x) (auto intro!: hspec_give hspec_throw)
  qed
  show "spec calm idle (ensuring
          (attempt
             (seq_p (load_lora_training_model W mode)
               (bind_p (submit_lora_training W mode token) (\<lambda>task_id.
                  seq_p (modify (\<lambda>w. w\<lparr>tw_complete := True\<rparr>)) (give task_id))))
             (\<lambda>e. bind_p (recover_lora_submission W token None) (\<lambda>task_id.
                case task_id of None \<Rightarrow> throw e | Some t \<Rightarrow> give t)))
          (reading (\<lambda>w. cancel_child_task (tw_complete w)))) handed (\<lambda>_. clean calm) (dead calm)"
  proof (rule hspec_ensuring [OF hspec_attempt [OF send recover]])
    show "spec calm (handed task_id) (reading (\<lambda>w. cancel_child_task (tw_complete w))) (\<lambda>_. handed task_id)
        (\<lambda>_. clean calm) (dead calm)" for task_id
      by (rule hspec_reading, rule hspec_weaken, rule spec_cancel_child [where \<Phi> = "handed task_id"
            and E = "\<lambda>_. clean calm" and C = "dead calm"])
        (use clean_facts in blast)+
    show "spec calm (clean calm) (reading (\<lambda>w. cancel_child_task (tw_complete w))) (\<lambda>_. clean calm) (\<lambda>_. clean calm) (dead calm)"
      by (rule hspec_reading, rule hspec_weaken, rule spec_cancel_child [where \<Phi> = "clean calm"
            and E = "\<lambda>_. clean calm" and C = "dead calm"])
        (use clean_facts in blast)+
  qed
qed

text \<open>Following the events touches neither the worker nor the flags.\<close>

lemma spec_events:
  assumes "\<And>s c t. \<not> calm \<Longrightarrow> \<Phi> s c t \<Longrightarrow> C s c t"
  shows "spec calm \<Phi> (read_lora_training_events T job_id lora_id clock err evs th) (\<lambda>_. \<Phi>) (\<lambda>_. \<Phi>) C"
proof (induction evs arbitrary: th)
  case Nil
  then show ?case by (cases err) (auto intro: hspec_throw)
next
  case (Cons ev evs)
  have beat: "spec calm \<Phi> (in_lora (touch_heartbeat job_id)) (\<lambda>_. \<Phi>) (\<lambda>_. \<Phi>) C"
    by (rule hspec_in_lora [OF calm_files(5)]) (use assms in auto)
  have handle: "spec calm \<Phi> (in_lora (handle_lora_training_event T job_id lora_id (clock (length evs)) ev th)) (\<lambda>_. \<Phi>) (\<lambda>_. \<Phi>) C"
    by (rule hspec_in_lora [OF calm_event]) (use assms in auto)
  have go_on: "spec calm \<Phi> (case x of (result, th') \<Rightarrow> seq_p (in_lora (touch_heartbeat job_id))
        (case result of Some r \<Rightarrow> give r
         | None \<Rightarrow> read_lora_training_events T job_id lora_id clock err evs th')) (\<lambda>_. \<Phi>) (\<lambda>_. \<Phi>) C" for x
    using Cons.IH by (auto intro!: hspec_seq [OF beat] intro: hspec_give split: option.split prod.split)
  have "spec calm \<Phi> (checkpoint Cancelled) (\<lambda>_. \<Phi>) (\<lambda>_. \<Phi>) C" by (rule hspec_checkpoint) (use assms in auto)
  from hspec_seq [OF this hspec_bind [OF handle go_on]] show ?case by simp
qed

lemma spec_call_worker:
  "spec calm idle (pick_and_call_worker X W key job_id mode token) (\<lambda>_. clean calm) (\<lambda>_. clean calm) (dead calm)"
  unfolding pick_and_call_worker_def
proof (rule hspec_bind [OF spec_hand_over])
  fix task_id
  obtain events err pauses where it:
    "iterate_task_events (td_base (ts_decoders X)) (ts_options X) (ts_streams X task_id) = (events, err, pauses)"
    by (metis prod_cases3)
  have put: "spec calm (handed task_id) (modify (\<lambda>w. w\<lparr>tw_lora := put_node key Training_Tmp (ts_left_behind X task_id) (tw_lora w)\<rparr>))
      (\<lambda>_. clean calm) (\<lambda>_. clean calm) (dead calm)"
    by (rule hspec_modify) (simp_all add: hand_defs)
  have "spec calm (clean calm) (read_lora_training_events (ts_decoders X) job_id (snd key) (ts_clock X) err events new_throttle)
      (\<lambda>_. clean calm) (\<lambda>_. clean calm) (dead calm)"
    by (rule spec_events) (simp add: hand_defs)
  from hspec_seq [OF put this]
  show "spec calm (handed task_id)
      (case iterate_task_events (td_base (ts_decoders X)) (ts_options X) (ts_streams X task_id) of (events, err, _) \<Rightarrow>
          seq_p (modify (\<lambda>w. w\<lparr>tw_lora := put_node key Training_Tmp (ts_left_behind X task_id) (tw_lora w)\<rparr>))
            (read_lora_training_events (ts_decoders X) job_id (snd key) (ts_clock X) err events new_throttle))
      (\<lambda>_. clean calm) (\<lambda>_. clean calm) (dead calm)" by (simp add: it)
qed

lemma spec_local:
  assumes "stays_calm p"
  shows "spec calm idle (in_lora p) (\<lambda>_. idle) (\<lambda>_. safe calm) (dead calm)"
  by (rule hspec_in_lora [OF assms]) (auto simp: hand_defs)

lemma spec_point: "spec calm idle (checkpoint e) (\<lambda>_. idle) (\<lambda>_. safe calm) (dead calm)"
  by (rule hspec_checkpoint) (auto simp: hand_defs)

text \<open>The whole submission: the hold is never taken from a training, and is given back when nothing fails.\<close>

lemma spec_prepare:
  "spec calm (\<lambda>s _ _. runs s = None) (prepare_and_submit_lora X W key job_id mode samples token)
     (\<lambda>_. clean calm) (\<lambda>_. clean calm) (dead calm)"
  unfolding prepare_and_submit_lora_def
proof (rule hspec_seq)
  show "spec calm (\<lambda>s _ _. runs s = None) (modify (\<lambda>w. w\<lparr>tw_complete := False, tw_renewing := False\<rparr>)) (\<lambda>_. idle)
      (\<lambda>_. clean calm) (dead calm)"
    by (rule hspec_modify) (simp_all add: idle_def)
  have start: "spec calm idle start_lora_hold_renewal (\<lambda>_. idle) (\<lambda>_. safe calm) (dead calm)"
    unfolding start_lora_hold_renewal_def
    by (rule hspec_seq [OF spec_point], rule hspec_modify) simp_all
  have call: "spec calm idle (bind_p (pick_and_call_worker X W key job_id mode token) (\<lambda>r. give (Some r)))
      (\<lambda>_. safe calm) (\<lambda>_. safe calm) (dead calm)"
    by (rule hspec_bind [OF hspec_weaken [OF spec_call_worker, where Q = "\<lambda>_. safe calm"]]) (auto intro: hspec_give simp: clean_def)
  have prepare: "spec calm idle
      (seq_p (checkpoint Cancelled)
       (seq_p (in_lora (materialize_dataset (ts_on_disk X) (ts_audio_dir X) key samples))
       (seq_p (checkpoint Http_Failed)
       (seq_p (in_lora (commit_lora (snd key) (no_update\<lparr>lu_status := Some L_Preprocessing, lu_clear_error := True\<rparr>) []))
       (seq_p (in_lora (update_job job_id ((status_update RUNNING)\<lparr>u_progress := 1 / 20\<rparr>)))
       (seq_p (in_lora (discard_old_output key))
       (bind_p (pick_and_call_worker X W key job_id mode token) (\<lambda>r. give (Some r)))))))))
      (\<lambda>_. safe calm) (\<lambda>_. safe calm) (dead calm)"
    by (intro hspec_seq [OF spec_point] hspec_seq [OF spec_local] call calm_materialize calm_files calm_discard)
  have body: "spec calm idle
      (seq_p start_lora_hold_renewal
          (bind_p (in_lora (update_job job_id ((status_update RUNNING)\<lparr>u_worker_pid := Write (ts_pid X)\<rparr>))) (\<lambda>applied.
             if \<not> applied then give None
             else seq_p (checkpoint Cancelled)
                 (seq_p (in_lora (materialize_dataset (ts_on_disk X) (ts_audio_dir X) key samples))
                 (seq_p (checkpoint Http_Failed)
                 (seq_p (in_lora (commit_lora (snd key) (no_update\<lparr>lu_status := Some L_Preprocessing, lu_clear_error := True\<rparr>) []))
                 (seq_p (in_lora (update_job job_id ((status_update RUNNING)\<lparr>u_progress := 1 / 20\<rparr>)))
                 (seq_p (in_lora (discard_old_output key))
                 (bind_p (pick_and_call_worker X W key job_id mode token) (\<lambda>r. give (Some r))))))))))) (\<lambda>_. safe calm) (\<lambda>_. safe calm) (dead calm)"
    by (rule hspec_seq [OF start], rule hspec_bind [OF spec_local [OF calm_files(4)]])
      (auto intro: prepare hspec_give simp: hand_defs)
  have finish: "spec calm (safe calm)
      (seq_p (release_unless_complete W token) (reading (\<lambda>w. if tw_renewing w then cancel_child_task True else give ())))
      (\<lambda>_. clean calm) (\<lambda>_. clean calm) (dead calm)"
  proof (rule hspec_seq)
    show "spec calm (safe calm) (release_unless_complete W token) (\<lambda>_. clean calm) (\<lambda>_. clean calm) (dead calm)"
      using spec_release [where P = False and \<Phi> = "safe calm"] by simp
    have "spec calm (clean calm) (cancel_child_task True) (\<lambda>_. clean calm) (\<lambda>_. clean calm) (dead calm)"
      by (rule spec_cancel_child) (auto simp: hand_defs)
    then show "spec calm (clean calm) (reading (\<lambda>w. if tw_renewing w then cancel_child_task True else give ()))
        (\<lambda>_. clean calm) (\<lambda>_. clean calm) (dead calm)"
      by (auto intro!: hspec_reading hspec_give intro: hspec_weaken)
  qed
  show "spec calm idle
      (ensuring (seq_p start_lora_hold_renewal
          (bind_p (in_lora (update_job job_id ((status_update RUNNING)\<lparr>u_worker_pid := Write (ts_pid X)\<rparr>))) (\<lambda>applied.
             if \<not> applied then give None
             else seq_p (checkpoint Cancelled)
                 (seq_p (in_lora (materialize_dataset (ts_on_disk X) (ts_audio_dir X) key samples))
                 (seq_p (checkpoint Http_Failed)
                 (seq_p (in_lora (commit_lora (snd key) (no_update\<lparr>lu_status := Some L_Preprocessing, lu_clear_error := True\<rparr>) []))
                 (seq_p (in_lora (update_job job_id ((status_update RUNNING)\<lparr>u_progress := 1 / 20\<rparr>)))
                 (seq_p (in_lora (discard_old_output key))
                 (bind_p (pick_and_call_worker X W key job_id mode token) (\<lambda>r. give (Some r)))))))))))
        (seq_p (release_unless_complete W token) (reading (\<lambda>w. if tw_renewing w then cancel_child_task True else give ()))))
      (\<lambda>_. clean calm) (\<lambda>_. clean calm) (dead calm)"
    by (rule hspec_ensuring [OF body finish finish])
qed

end

subsection \<open>The worker provides it\<close>

record training_call =
  tc_now :: timestamp
  tc_text_of :: "subprocess_error cache_error \<Rightarrow> string"
  tc_invalid :: "string option"
  tc_configured :: bool
  tc_epochs :: int
  tc_task_id :: string
  tc_spawn :: "string option"
  tc_new_token :: string

definition gpu_worker_api ::
    "('h, 'v, subprocess_error) ports \<Rightarrow> 'w redis_ops \<Rightarrow> string \<Rightarrow> training_call \<Rightarrow> ('h, 'v, 'w) worker worker_api" where
  "gpu_worker_api P R wid call =
     \<lparr>api_reserve = (\<lambda>s. case reserve_hold R wid (tc_new_token call) s of
          (Inl (Http (HTTPException status detail)), s') \<Rightarrow> (Inl status, s')
        | (Inl _, s') \<Rightarrow> (Inl 500, s')
        | (Inr t, s') \<Rightarrow> (Inr t, s')),
      api_load = (\<lambda>mode s. case load_model P R wid (tc_text_of call) mode (tc_now call) s of
          (r, s', shutdown) \<Rightarrow> (case r of Inl _ \<Rightarrow> False | Inr _ \<Rightarrow> True, s')),
      api_train = (\<lambda>mode token s.
         case train_lora P R wid (tc_invalid call) (tc_configured call) mode token (tc_epochs call) (tc_task_id call)
                (tc_now call) (tc_spawn call) s of
           (Inl _, s') \<Rightarrow> (None, s') | (Inr task_id, s') \<Rightarrow> (Some task_id, s')),
      api_probe = (\<lambda>token s. Some (hold_handover token s)),
      api_release = (\<lambda>token s. case release_hold R wid token s of
          (Inl _, s') \<Rightarrow> (False, s') | (Inr _, s') \<Rightarrow> (True, s'))\<rparr>"

definition training_of :: "string \<Rightarrow> ('h, 'v, 'w) worker \<Rightarrow> string option" where
  "training_of token s = map_of (w_handover_tasks s) token"

definition holds_gpu :: "'w redis_ops \<Rightarrow> string \<Rightarrow> string \<Rightarrow> ('h, 'v, 'w) worker \<Rightarrow> bool" where
  "holds_gpu R wid token s \<longleftrightarrow> holder R wid (w_redis s) = Some token"

text \<open>Tokens and tasks of handovers name the same tokens.\<close>

definition handovers_match :: "'w redis_ops \<Rightarrow> ('h, 'v, 'w) worker \<Rightarrow> bool" where
  "handovers_match R s \<longleftrightarrow> redis_laws R \<and> (\<forall>t. t \<in> w_handover_tokens s \<longleftrightarrow> training_of t s \<noteq> None)"

lemmas host_defs = training_of_def holds_gpu_def handovers_match_def

lemma release_handover_matches:
  "handovers_match R s \<Longrightarrow> handovers_match R (release_gpu_hold_handover token s)
     \<and> training_of token (release_gpu_hold_handover token s) = None"
  by (auto simp: host_defs release_gpu_hold_handover_def pydict.get_del)

lemma loaded_worker:
  assumes "redis_laws R" and "load_model P R wid text_of mode now s = (r, s', shutdown)"
  shows "w_handover_tokens s' = w_handover_tokens s \<and> w_handover_tasks s' = w_handover_tasks s
    \<and> holder R wid (w_redis s') = holder R wid (w_redis s)"
proof -
  have other: "gpu_hold_key wid \<noteq> lm_failure_key wid" by (simp add: gpu_hold_key_def lm_failure_key_def)
  show ?thesis using assms(2) other assms(1)
    by (auto simp: load_model_def Let_def leave_if_lm_failed_def holder_def redis_simps
        split: prod.splits sum.splits cache_error.splits subprocess_error.splits if_splits)
qed

lemma claimed_worker:
  assumes "handovers_match R s" and "training_of token s = None"
    and "claim_training_handover R wid token epochs task_id now s = (r, s')"
  shows "handovers_match R s' \<and> (case r of Inl _ \<Rightarrow> s' = s | Inr t \<Rightarrow> training_of token s' = Some t \<and> holds_gpu R wid token s')"
  using assms
  by (auto simp: claim_training_handover_def create_gpu_hold_handover_task_def host_defs gpu_hold_matches_def holder_def
      pydict.get_put split: prod.splits sum.splits option.splits if_splits)

lemma cleaned_worker:
  assumes "handovers_match R s"
  shows "handovers_match R (clean_up_train_lora_setup mode token acquired s)
    \<and> training_of token (clean_up_train_lora_setup mode token acquired s) = None"
  unfolding clean_up_train_lora_setup_def
  by (rule release_handover_matches) (use assms in \<open>auto simp: host_defs\<close>)

lemma acquired_worker:
  assumes "handovers_match R s" and "training_of token s = None"
    and "acquire_train_lora_resources R wid mode token epochs task_id now s = (r, s')"
  shows "handovers_match R s' \<and> (case r of Inl _ \<Rightarrow> training_of token s' = None
    | Inr t \<Rightarrow> training_of token s' = Some t \<and> holds_gpu R wid token s')"
proof -
  obtain r1 s1 where model: "acquire_training_model mode s = (r1, s1)" by fastforce
  then have s1: "handovers_match R s1" "training_of token s1 = None"
    using assms(1,2) by (auto simp: acquire_training_model_def host_defs split: prod.splits option.splits)
  obtain r2 s2 where renew: "renew_training_hold R wid token s1 = (r2, s2)" by fastforce
  then have s2: "handovers_match R s2" "training_of token s2 = None"
    using s1 by (auto simp: renew_training_hold_def host_defs split: prod.splits sum.splits)
  obtain r3 s3 where claim: "claim_training_handover R wid token epochs task_id now s2 = (r3, s3)" by fastforce
  note s3 = claimed_worker [OF s2 claim]
  show ?thesis
    using assms(3) model renew claim s3 cleaned_worker [OF s1(1)] cleaned_worker [OF s2(1)] cleaned_worker [of R s3 mode token True]
    by (cases r1; cases r2; cases r3) (auto simp: acquire_train_lora_resources_def)
qed

lemma trained_worker:
  assumes "handovers_match R s" and "training_of token s = None"
    and "train_lora P R wid invalid configured mode token epochs task_id now spawn s = (r, s')"
  shows "handovers_match R s' \<and> (case r of Inl _ \<Rightarrow> training_of token s' = None
    | Inr t \<Rightarrow> training_of token s' = Some t \<and> holds_gpu R wid token s')"
proof -
  obtain r1 s1 where acq: "acquire_train_lora_resources R wid mode token epochs task_id now s = (r1, s1)" by fastforce
  note s1 = acquired_worker [OF assms(1,2) acq]
  have freed: "handovers_match R (snd (release_train_lora_resources P R wid mode token s1))
      \<and> training_of token (snd (release_train_lora_resources P R wid mode token s1)) = None"
    using s1 release_handover_matches [of R "s1\<lparr>w_cache := c, w_ports_world := v, w_redis := x\<rparr>" token for c v x]
    by (auto simp: release_train_lora_resources_def host_defs split: prod.split)
  have started: "handovers_match R (s1\<lparr>w_runners := rs\<rparr>) = handovers_match R s1"
    "training_of token (s1\<lparr>w_runners := rs\<rparr>) = training_of token s1"
    "holds_gpu R wid token (s1\<lparr>w_runners := rs\<rparr>) = holds_gpu R wid token s1" for rs
    by (simp_all add: host_defs)
  show ?thesis
    using assms s1 freed acq by (auto simp: train_lora_def started split: option.splits sum.splits if_splits)
qed

lemma released_worker:
  assumes "handovers_match R s" and "release_hold R wid token s = (r, s')"
  shows "handovers_match R s' \<and> training_of token s' = training_of token s
    \<and> (if training_of token s = None then \<not> holds_gpu R wid token s' else holds_gpu R wid token s' = holds_gpu R wid token s)"
proof (cases "training_of token s")
  case None
  then have "token \<notin> w_handover_tokens s" and laws: "redis_laws R" using assms(1) by (auto simp: handovers_match_def)
  then have s': "s' = s\<lparr>w_redis := snd (release_gpu_hold R wid token (w_redis s))\<rparr>"
    using assms(2) by (auto simp: release_hold_def split: prod.splits)
  show ?thesis using assms(1) None unfolding s' by (auto simp: host_defs hold_simps [OF laws])
next
  case (Some t)
  then have "s' = s" using assms by (auto simp: release_hold_def host_defs)
  then show ?thesis using assms(1) Some by simp
qed

lemma api_trained:
  assumes "handovers_match R s" and "training_of token s = None"
    and "api_train (gpu_worker_api P R wid call) mode token s = (x, s')"
  shows "handovers_match R s' \<and> (case x of None \<Rightarrow> training_of token s' = None
    | Some t \<Rightarrow> training_of token s' = Some t \<and> holds_gpu R wid token s')"
proof -
  obtain r s1 where run: "train_lora P R wid (tc_invalid call) (tc_configured call) mode token (tc_epochs call)
      (tc_task_id call) (tc_now call) (tc_spawn call) s = (r, s1)" by fastforce
  show ?thesis using assms(3) run trained_worker [OF assms(1,2) run] by (cases r) (auto simp: gpu_worker_api_def)
qed

lemma api_released:
  assumes "api_release (gpu_worker_api P R wid call) token s = (ok, s')"
  obtains r where "release_hold R wid token s = (r, s')"
  using assms by (cases "release_hold R wid token s") (auto simp: gpu_worker_api_def split: sum.splits)

interpretation gpu_host: training_host "gpu_worker_api P R wid call" "handovers_match R" token "training_of token"
    "holds_gpu R wid token"
  for P :: "('h, 'v, subprocess_error) ports" and R :: "'w redis_ops" and wid call token
proof
  fix s s' :: "('h, 'v, 'w) worker" and mode ok task_id
  assume good: "handovers_match R s"
  then have laws: "redis_laws R" by (simp add: handovers_match_def)
  show "api_load (gpu_worker_api P R wid call) mode s = (ok, s') \<Longrightarrow>
      handovers_match R s' \<and> training_of token s' = training_of token s \<and> holds_gpu R wid token s' = holds_gpu R wid token s"
    using good loaded_worker [OF laws] by (fastforce simp: gpu_worker_api_def host_defs split: prod.splits)
  show "api_probe (gpu_worker_api P R wid call) token s = Some (training_of token s \<noteq> None, training_of token s)"
    by (auto simp: gpu_worker_api_def hold_handover_def training_of_def Let_def)
  show "training_of token s = None \<Longrightarrow> api_train (gpu_worker_api P R wid call) mode token s = (None, s') \<Longrightarrow>
      handovers_match R s' \<and> training_of token s' = None"
    using api_trained [OF good, where x = None] by simp
  show "training_of token s = None \<Longrightarrow> api_release (gpu_worker_api P R wid call) token s = (ok, s') \<Longrightarrow>
      handovers_match R s' \<and> training_of token s' = None \<and> \<not> holds_gpu R wid token s'"
    using released_worker [OF good] by (elim api_released) fastforce
  show "training_of token s \<noteq> None \<Longrightarrow> api_release (gpu_worker_api P R wid call) token s = (ok, s') \<Longrightarrow>
      handovers_match R s' \<and> training_of token s' = training_of token s \<and> holds_gpu R wid token s' = holds_gpu R wid token s"
    using released_worker [OF good] by (elim api_released) fastforce
next
  fix s s' :: "('h, 'v, 'w) worker" and mode task_id
  show "handovers_match R s \<Longrightarrow> training_of token s = None \<Longrightarrow>
      api_train (gpu_worker_api P R wid call) mode token s = (Some task_id, s') \<Longrightarrow>
      handovers_match R s' \<and> training_of token s' = Some task_id \<and> holds_gpu R wid token s'"
    by (drule (2) api_trained) simp
qed

subsection \<open>Properties\<close>

text \<open>C7: whatever fails between the job and its worker, and wherever the job is cancelled or killed, a
  training that runs for the job's token keeps its hold of the GPU; and unless the job was killed, the
  job knows that it has handed the hold over, so it never releases it.
\<close>

theorem running_training_keeps_hold:
  assumes "handovers_match R (tw_worker w)" and "training_of token (tw_worker w) = None"
    and "prepare_and_submit_lora X (gpu_worker_api P R wid call) key job_id mode samples token w = (r, w')"
  shows "training_of token (tw_worker w') = None
    \<or> holds_gpu R wid token (tw_worker w') \<and> (r = Killed \<or> tw_complete w')"
proof -
  have start: "coord (handovers_match R) False (\<lambda>s _ _. training_of token s = None) w"
    using assms(1,2) by (simp add: coord_def)
  note spec = gpu_host.spec_prepare [where R = R and token = token and calm = False and X = X and P = P and wid = wid and call = call
        and key = key and job_id = job_id and mode = mode and samples = samples, unfolded hspec_def]
  show ?thesis
    using runs_toD [OF spec start] assms(3)
    by (cases r) (auto simp: coord_def gpu_host.clean_def gpu_host.safe_def gpu_host.kept_hold_def gpu_host.dead_def)
qed

text \<open>C8: When no call is lost, the job gives the GPU back: at its end a training runs for the job's token on
  the worker, or the worker no longer holds the GPU for it, whatever the worker refused and whatever was
  missing on disk.  The worker starts without a training for the token and with the hand-overs it records
  matching the tasks it has (handovers_match).
\<close>

theorem unused_hold_is_released:
  assumes "handovers_match R (tw_worker w)" and "training_of token (tw_worker w) = None" and "w_script w = []"
    and "prepare_and_submit_lora X (gpu_worker_api P R wid call) key job_id mode samples token w = (r, w')"
  shows "training_of token (tw_worker w') \<noteq> None \<or> \<not> holds_gpu R wid token (tw_worker w')"
proof -
  have start: "coord (handovers_match R) True (\<lambda>s _ _. training_of token s = None) w"
    using assms(1-3) by (simp add: coord_def)
  note spec = gpu_host.spec_prepare [where R = R and token = token and calm = True and X = X and P = P and wid = wid and call = call
        and key = key and job_id = job_id and mode = mode and samples = samples, unfolded hspec_def]
  show ?thesis
    using runs_toD [OF spec start] assms(4) runs_toD(3) [OF spec start]
    by (cases r) (auto simp: coord_def gpu_host.clean_def gpu_host.dead_def)
qed

subsection \<open>An example\<close>

definition training_ports :: "(unit, nat, subprocess_error) ports" where
  "training_ports = \<lparr>loader = (\<lambda>m w. (Inr \<lparr>lm_mode = m, lm_handle = (), lm_port = 1, lm_loaded_at = 0\<rparr>, Suc w)),
     unloader = (\<lambda>_ w. (None, w)), vram_reader = None, utcnow = (\<lambda>_. 7)\<rparr>"

definition training_demo_call :: training_call where
  "training_demo_call = \<lparr>tc_now = 5, tc_text_of = (\<lambda>_. ''e''), tc_invalid = None, tc_configured = True, tc_epochs = 2,
     tc_task_id = ''task'', tc_spawn = None, tc_new_token = ''t''\<rparr>"

definition training_demo_setting :: training_setting where
  "training_demo_setting = \<lparr>ts_decoders = \<lparr>td_base = demo_decoders, td_int = (\<lambda>_. None), td_time = (\<lambda>_. None),
       td_result = (\<lambda>_. Inl ''e'')\<rparr>,
     ts_options = demo_options, ts_streams = (\<lambda>_ _. Connected [] None), ts_left_behind = (\<lambda>_. None), ts_clock = (\<lambda>_. 0),
     ts_on_disk = (\<lambda>_. True), ts_audio_dir = [''audio''], ts_cwd = [], ts_pid = 1, ts_pick = None, ts_repr = id,
     ts_show = (\<lambda>_. ''0'')\<rparr>"

definition training_demo_worker :: "(unit, nat, demo_redis) worker" where
  "training_demo_worker = (start_worker demo_ops ''w'' 8 [''a'' \<mapsto> 4] 0 ((\<lambda>_. None), \<lambda>_. 0))\<lparr>w_redis := demo_holding\<rparr>"

definition training_demo_job :: job where
  "training_demo_job = new_job ''j'' 0 ''lora_training'' None None None None None"

definition training_demo_voice :: user_lora where
  "training_demo_voice = \<lparr>lo_id = ''v'', lo_user_id = ''u'', lo_name = ''Ada'', lo_slug = ''ada'', lo_model_mode = ''sft'',
     lo_status = L_Queued, lo_storage_path = None, lo_tensor_path = None, lo_training_job_id = Some ''j'', lo_error = None,
     lo_created_at = 0, lo_completed_at = None, lo_deleted_at = None\<rparr>"

definition training_demo_world :: "fate list \<Rightarrow> (unit, nat, demo_redis) worker training_world" where
  "training_demo_world script =
     \<lparr>w_script = script,
      tw_lora = \<lparr>w_script = [], jw_jobs = [training_demo_job], jw_now = 100, lw_loras = [training_demo_voice], lw_audit = [], lw_files = (\<lambda>_ _. None)\<rparr>,
      tw_worker = training_demo_worker, tw_complete = False, tw_transmitted = False, tw_renewing = False,
      tw_enqueued = []\<rparr>"
definition training_demo_run ::
    "fate list \<Rightarrow> (job_exn, train_result option) outcome \<times> (unit, nat, demo_redis) worker training_world" where
  "training_demo_run script =
     prepare_and_submit_lora training_demo_setting (gpu_worker_api training_ports demo_ops ''w'' training_demo_call)
       (''u'', ''v'') ''j'' ''a'' [] ''t'' (training_demo_world script)"

lemma training_demo_start:
  "handovers_match demo_ops (tw_worker (training_demo_world script))"
  "training_of ''t'' (tw_worker (training_demo_world script)) = None"
  by (simp_all add: host_defs demo_ops_laws training_demo_world_def training_demo_worker_def start_worker_def)

text \<open>The answer to the request is lost; the probe finds the training.\<close>

lemma running_training_keeps_hold_witness:
  "training_of ''t'' (tw_worker (snd (training_demo_run (replicate 14 Works @ [Fails])))) = Some ''task''
   \<and> holds_gpu demo_ops ''w'' ''t'' (tw_worker (snd (training_demo_run (replicate 14 Works @ [Fails]))))
   \<and> tw_complete (snd (training_demo_run (replicate 14 Works @ [Fails])))"
proof -
  let ?r = "training_demo_run (replicate 14 Works @ [Fails])"
  have task: "training_of ''t'' (tw_worker (snd ?r)) = Some ''task''" by code_simp
  have alive: "fst ?r \<noteq> Killed" by code_simp
  have "training_of ''t'' (tw_worker (snd ?r)) = None
      \<or> holds_gpu demo_ops ''w'' ''t'' (tw_worker (snd ?r)) \<and> (fst ?r = Killed \<or> tw_complete (snd ?r))"
    by (rule running_training_keeps_hold [OF training_demo_start]) (simp add: training_demo_run_def)
  then show ?thesis using task alive by simp
qed

text \<open>The worker refuses to train because its model has not been loaded; the hold is given back.\<close>

lemma unused_hold_is_released_witness:
  "let W = gpu_worker_api training_ports demo_ops ''w'' (training_demo_call\<lparr>tc_configured := False\<rparr>);
       (r, w) = prepare_and_submit_lora training_demo_setting W (''u'', ''v'') ''j'' ''a'' [] ''t'' (training_demo_world [])
   in r = Raised Http_Failed \<and> \<not> holds_gpu demo_ops ''w'' ''t'' (tw_worker w)"
proof -
  let ?run = "prepare_and_submit_lora training_demo_setting
    (gpu_worker_api training_ports demo_ops ''w'' (training_demo_call\<lparr>tc_configured := False\<rparr>))
    (''u'', ''v'') ''j'' ''a'' [] ''t'' (training_demo_world [])"
  have r: "fst ?run = Raised Http_Failed" and c: "training_of ''t'' (tw_worker (snd ?run)) = None" by code_simp+
  have "training_of ''t'' (tw_worker (snd ?run)) \<noteq> None \<or> \<not> holds_gpu demo_ops ''w'' ''t'' (tw_worker (snd ?run))"
    by (rule unused_hold_is_released [OF training_demo_start _ prod.collapse [symmetric]]) (simp add: training_demo_world_def)
  then show ?thesis using r c by (simp add: Let_def case_prod_beta)
qed

end
