(* ===== verification/Lora_Job.thy ===== *)
theory Lora_Job
  imports Lora_Handover Lora_Recovery
begin

text \<open>
  The whole training job: the voice stays consistent from the first step of \<open>run_lora_training_job\<close> to
  the last, whatever the worker answers, provided that a worker that reports a result has left the
  adapter of the mode it reports.
\<close>

subsection \<open>Steps outside the files and the database\<close>

text \<open>Such a step leaves them alone and does not raise the restored adapter.\<close>

definition plain :: "('s, 'a) training_prog \<Rightarrow> bool" where
  "plain p \<longleftrightarrow> (\<forall>w. tw_lora (snd (p w)) = tw_lora w \<and> (\<forall>q. fst (p w) \<noteq> Raised (Previous_Restored q)))"

lemma plainI:
  "(\<And>w r w'. p w = (r, w') \<Longrightarrow> tw_lora w' = tw_lora w \<and> (\<forall>q. r \<noteq> Raised (Previous_Restored q))) \<Longrightarrow> plain p"
  unfolding plain_def by (metis prod.collapse)

lemma plainD: "plain p \<Longrightarrow> p w = (r, w') \<Longrightarrow> tw_lora w' = tw_lora w \<and> (\<forall>q. r \<noteq> Raised (Previous_Restored q))"
  by (metis plain_def fst_conv snd_conv)

lemma plain_give: "plain (give x)" and plain_throw: "(\<And>q. e \<noteq> Previous_Restored q) \<Longrightarrow> plain (throw e)"
  by (simp_all add: plain_def give_def throw_def)

lemma plain_bind:
  assumes "plain p" and "\<And>x. plain (q x)"
  shows "plain (bind_p p q)"
proof (rule plainI)
  fix w r w' assume run: "bind_p p q w = (r, w')"
  obtain r1 w1 where first: "p w = (r1, w1)" by fastforce
  show "tw_lora w' = tw_lora w \<and> (\<forall>q. r \<noteq> Raised (Previous_Restored q))"
  proof (cases r1)
    case (Done x)
    then have "q x w1 = (r, w')" using run first by (simp add: bind_p_def)
    then show ?thesis using plainD [OF assms(1) first] plainD [OF assms(2)] by simp
  qed (use run first plainD [OF assms(1) first] in \<open>auto simp: bind_p_def\<close>)
qed

lemma plain_seq: "plain p \<Longrightarrow> plain q \<Longrightarrow> plain (seq_p p q)"
  unfolding seq_p_def by (rule plain_bind)

lemma plain_reading: "(\<And>w. plain (f w)) \<Longrightarrow> plain (reading f)"
  by (simp add: plain_def reading_def)

lemma plain_attempt:
  assumes "plain p" and "\<And>e. (\<And>q. e \<noteq> Previous_Restored q) \<Longrightarrow> plain (h e)"
  shows "plain (attempt p h)"
proof (rule plainI)
  fix w r w' assume run: "attempt p h w = (r, w')"
  obtain r1 w1 where first: "p w = (r1, w1)" by fastforce
  note p = plainD [OF assms(1) first]
  show "tw_lora w' = tw_lora w \<and> (\<forall>q. r \<noteq> Raised (Previous_Restored q))"
  proof (cases r1)
    case (Raised e)
    then have "h e w1 = (r, w')" using run first by (simp add: attempt_def)
    moreover have "plain (h e)" by (rule assms(2)) (use p Raised in auto)
    ultimately show ?thesis using p plainD [of "h e" w1 r w'] by simp
  qed (use run first p in \<open>auto simp: attempt_def\<close>)
qed

lemma plain_ensuring:
  assumes "plain p" and "plain c"
  shows "plain (ensuring p c)"
proof (rule plainI)
  fix w r w' assume run: "ensuring p c w = (r, w')"
  obtain r1 w1 where first: "p w = (r1, w1)" by fastforce
  note p = plainD [OF assms(1) first]
  obtain r2 w2 where second: "c w1 = (r2, w2)" by fastforce
  note c = plainD [OF assms(2) second]
  show "tw_lora w' = tw_lora w \<and> (\<forall>q. r \<noteq> Raised (Previous_Restored q))"
    using run p c by (cases r1; cases r2) (auto simp: ensuring_def bind_p_def give_def throw_def first second)
qed

lemma plain_modify: "(\<And>w. tw_lora (f w) = tw_lora w) \<Longrightarrow> plain (modify f)"
  by (simp add: plain_def modify_def)

lemma plain_effect:
  assumes "\<And>w r w'. act w = (r, w') \<Longrightarrow> tw_lora w' = tw_lora w \<and> (\<forall>q. r \<noteq> Inl (Previous_Restored q))"
    and "\<And>q. e \<noteq> Previous_Restored q"
  shows "plain (effect e act)"
proof (rule plainI)
  fix w r w' assume run: "effect e act w = (r, w')"
  let ?w = "w\<lparr>w_script := tl (w_script w)\<rparr>"
  obtain r1 w1 where first: "act ?w = (r1, w1)" by fastforce
  have "tw_lora ?w = tw_lora w" by (cases w) simp
  then show "tw_lora w' = tw_lora w \<and> (\<forall>q. r \<noteq> Raised (Previous_Restored q))"
    using run assms(1) [OF first] assms(2) unfolding effect_def Let_def first
    by (cases r1) (auto split: fate.splits)
qed

lemma plain_checkpoint: "(\<And>q. e \<noteq> Previous_Restored q) \<Longrightarrow> plain (checkpoint e)"
  unfolding checkpoint_def change_def by (rule plain_effect) auto

lemma plain_call:
  assumes "\<And>s q. fst (act s) \<noteq> Inl (Previous_Restored q)"
  shows "plain (http_call act)"
proof -
  have "plain (effect Http_Failed (\<lambda>w. case act (tw_worker w) of (r, s) \<Rightarrow> (r, w\<lparr>tw_worker := s\<rparr>)))"
    by (rule plain_effect) (use assms in \<open>auto split: prod.splits, metis fst_conv\<close>)
  then show ?thesis unfolding http_call_def
    by (intro plain_seq plain_bind plain_checkpoint plain_give) simp_all
qed

lemmas plain_rules = plain_give plain_throw plain_bind plain_seq plain_reading plain_attempt plain_ensuring plain_modify
  plain_checkpoint plain_call

lemma plain_if: "(b \<Longrightarrow> plain p) \<Longrightarrow> (\<not> b \<Longrightarrow> plain q) \<Longrightarrow> plain (if b then p else q)"
  by simp

lemma plain_cancel: "plain (cancel_child_task b)"
  unfolding cancel_child_task_def by (intro plain_rules plain_if) simp_all

lemma plain_release: "plain (release_unless_complete W token)"
  unfolding release_unless_complete_def release_lora_hold_def raised_for_status_def
  by (intro plain_rules plain_if) (auto split: if_splits)

lemma plain_hand_over: "plain (hand_over_training W mode token)"
proof -
  have load: "plain (load_lora_training_model W mode)"
    unfolding load_lora_training_model_def raised_for_status_def by (rule plain_call) (simp split: if_split)
  have submit: "plain (submit_lora_training W mode token)"
    unfolding submit_lora_training_def
    by (intro plain_seq plain_modify plain_call) (auto split: prod.split option.split)
  have probe: "plain (worker_claimed_lora_handover W token)"
    unfolding worker_claimed_lora_handover_def by (intro plain_attempt plain_call plain_if plain_give plain_throw) auto
  have noted: "plain (case x of (claimed, probed) \<Rightarrow> (case probed of Some t \<Rightarrow> give (Some t)
      | None \<Rightarrow> if claimed = Some False then seq_p (modify (\<lambda>w. w\<lparr>tw_complete := False\<rparr>)) (give y) else give y))" for x y
    by (auto split: prod.split option.split intro!: plain_give plain_seq plain_modify)
  have recover: "plain (recover_lora_submission W token x)" for x
    unfolding recover_lora_submission_def
    by (intro plain_bind plain_seq plain_reading plain_if plain_give plain_modify probe noted plain_release) simp_all
  have chosen: "plain (case t of None \<Rightarrow> throw e | Some t \<Rightarrow> give t)" if "\<And>q. e \<noteq> Previous_Restored q" for e t
    using that by (auto split: option.split intro!: plain_give plain_throw)
  show ?thesis
    unfolding hand_over_training_def
    by (intro plain_seq plain_modify plain_ensuring plain_attempt plain_bind load submit recover chosen plain_give
        plain_reading plain_cancel) simp_all
qed

subsection \<open>The voice during the job\<close>

definition jspec :: "voice_frame \<Rightarrow> voice_cond \<Rightarrow> ('s, 'a) training_prog \<Rightarrow> ('a \<Rightarrow> voice_cond) \<Rightarrow> (job_exn \<Rightarrow> voice_cond)
    \<Rightarrow> voice_cond \<Rightarrow> bool" where
  "jspec V \<Phi> p Q E C \<longleftrightarrow> runs_to (\<lambda>w. voice V \<Phi> (tw_lora w)) p (\<lambda>x w. voice V (Q x) (tw_lora w))
     (\<lambda>e w. voice V (E e) (tw_lora w)) (\<lambda>w. voice V C (tw_lora w))"

lemma jspec_weaken:
  assumes "jspec V \<Phi>' p Q' E' C'" and "\<And>l F. \<Phi> l F \<Longrightarrow> \<Phi>' l F" and "\<And>x l F. Q' x l F \<Longrightarrow> Q x l F"
    and "\<And>e l F. E' e l F \<Longrightarrow> E e l F" and "\<And>l F. C' l F \<Longrightarrow> C l F"
  shows "jspec V \<Phi> p Q E C"
  using assms(1) unfolding jspec_def
  by (rule runs_to_weaken) (auto intro: voice_mono assms(2-5))

lemma jspec_give: "(\<And>l F. \<Phi> l F \<Longrightarrow> Q x l F) \<Longrightarrow> jspec V \<Phi> (give x) Q E C"
  unfolding jspec_def by (rule runs_give) (rule voice_mono)

lemma jspec_throw: "(\<And>l F. \<Phi> l F \<Longrightarrow> E e l F) \<Longrightarrow> jspec V \<Phi> (throw e) Q E C"
  unfolding jspec_def by (rule runs_throw) (rule voice_mono)

lemma jspec_bind: "jspec V \<Phi> p R E C \<Longrightarrow> (\<And>x. jspec V (R x) (q x) Q E C) \<Longrightarrow> jspec V \<Phi> (bind_p p q) Q E C"
  unfolding jspec_def by (rule runs_bind)

lemma jspec_seq: "jspec V \<Phi> p (\<lambda>_. R) E C \<Longrightarrow> jspec V R q Q E C \<Longrightarrow> jspec V \<Phi> (seq_p p q) Q E C"
  unfolding jspec_def by (rule runs_seq)

lemma jspec_attempt: "jspec V \<Phi> p Q R C \<Longrightarrow> (\<And>e. jspec V (R e) (h e) Q E C) \<Longrightarrow> jspec V \<Phi> (attempt p h) Q E C"
  unfolding jspec_def by (rule runs_attempt)

lemma jspec_ensuring:
  "jspec V \<Phi> p R S C \<Longrightarrow> (\<And>x. jspec V (R x) c (\<lambda>_. Q x) E C) \<Longrightarrow> (\<And>e. jspec V (S e) c (\<lambda>_. E e) E C)
   \<Longrightarrow> jspec V \<Phi> (ensuring p c) Q E C"
  unfolding jspec_def by (rule runs_ensuring)

lemma jspec_reading: "(\<And>w. jspec V \<Phi> (f w) Q E C) \<Longrightarrow> jspec V \<Phi> (reading f) Q E C"
  unfolding jspec_def by (rule runs_reading) (auto intro: runs_to_weaken)

lemma jspec_pure: "(P \<Longrightarrow> jspec V \<Phi> p Q E C) \<Longrightarrow> jspec V (\<lambda>l F. P \<and> \<Phi> l F) p Q E C"
  by (cases P) (auto simp: jspec_def runs_to_def voice_def)

lemma voice_any_script: "\<not> vf_calm V \<Longrightarrow> voice V \<Phi> (w\<lparr>w_script := s\<rparr>) = voice V \<Phi> w"
  by (simp add: voice_def voice_state_def)

lemma jspec_in_lora:
  assumes "\<not> vf_calm V" and "vspec V \<Phi> p Q E C"
  shows "jspec V \<Phi> (in_lora p) Q E C"
  unfolding jspec_def
proof (rule runs_toI)
  fix w :: "'b training_world"
  assume w: "voice V \<Phi> (tw_lora w)"
  obtain r v where run: "p ((tw_lora w)\<lparr>w_script := w_script w\<rparr>) = (r, v)" by fastforce
  have same: "in_lora p w = (r, w\<lparr>tw_lora := v, w_script := w_script v\<rparr>)" by (simp add: in_lora_def run)
  have lora: "tw_lora (w\<lparr>tw_lora := v, w_script := w_script v\<rparr>) = v" by (cases w) simp
  from assms(2) have "runs_to (voice V \<Phi>) p (\<lambda>x. voice V (Q x)) (\<lambda>e. voice V (E e)) (voice V C)" by (simp add: vspec_def)
  from runs_toD [OF this, of "(tw_lora w)\<lparr>w_script := w_script w\<rparr>"]
  show "case in_lora p w of (Done x, w') \<Rightarrow> voice V (Q x) (tw_lora w') | (Raised e, w') \<Rightarrow> voice V (E e) (tw_lora w')
      | (Killed, w') \<Rightarrow> voice V C (tw_lora w')"
    using w run unfolding same by (cases r) (simp_all add: voice_any_script [OF assms(1)] lora)
qed

text \<open>In the body of the job an exception leaves \<open>stopped\<close>, a crash \<open>voice_ok\<close>.\<close>

abbreviation body_spec :: "voice_frame \<Rightarrow> string \<Rightarrow> voice_cond \<Rightarrow> ('s, 'a) training_prog \<Rightarrow> ('a \<Rightarrow> voice_cond) \<Rightarrow> bool" where
  "body_spec V m0 \<Phi> p Q \<equiv> jspec V \<Phi> p Q (stopped m0) voice_ok"

lemma stopped_other: "(\<And>q. e \<noteq> Previous_Restored q) \<Longrightarrow> voice_ok l F \<Longrightarrow> stopped m0 e l F"
  by (cases e) (auto simp: stopped_def restored_def)

lemma body_plain:
  assumes "plain p" and "\<And>l F. \<Phi> l F \<Longrightarrow> voice_ok l F"
  shows "body_spec V m0 \<Phi> p (\<lambda>_. \<Phi>)"
  unfolding jspec_def
proof (rule runs_toI)
  fix w :: "'a training_world"
  assume w: "voice V \<Phi> (tw_lora w)"
  obtain r w' where run: "p w = (r, w')" by fastforce
  show "case p w of (Done x, w') \<Rightarrow> voice V \<Phi> (tw_lora w') | (Raised e, w') \<Rightarrow> voice V (stopped m0 e) (tw_lora w')
      | (Killed, w') \<Rightarrow> voice V voice_ok (tw_lora w')"
    using plainD [OF assms(1) run] w voice_mono [OF w] assms(2)
    by (cases r) (auto simp: run intro: voice_mono stopped_other)
qed

text \<open>A voice in training whose job has recorded nothing yet.\<close>

definition in_training :: "string \<Rightarrow> string \<Rightarrow> voice_cond" where
  "in_training job_id m0 l F \<longleftrightarrow> lo_status l \<in> LORA_ACTIVE_STATUSES \<and> lo_training_job_id l = Some job_id
     \<and> lo_model_mode l = m0 \<and> record_readable F \<and> recorded l F = None \<and> F Previous_Dir = None \<and> keeping l F"

lemma in_training_ok: "in_training job_id m0 l F \<Longrightarrow> voice_ok l F"
  by (auto simp: in_training_def voice_ok_def dest: active_not_ready)

lemma in_training_irrelevant:
  "p \<in> {Dataset_Dir, Training_Tmp, Mode_File_New} \<Longrightarrow> in_training job_id m0 l (F(p := n)) = in_training job_id m0 l F"
  by (auto simp: in_training_def record_readable_def recorded_def keeping_def cong: option.case_cong)

lemma in_training_row:
  assumes "in_training job_id m0 l F" and "lo_status l' \<in> LORA_ACTIVE_STATUSES"
    and "lo_training_job_id l' = lo_training_job_id l" and "lo_model_mode l' = lo_model_mode l"
  shows "in_training job_id m0 l' F"
proof -
  have "recorded l' F = recorded l F" unfolding recorded_def assms(3) by (rule refl)
  then show ?thesis using assms by (auto simp: in_training_def keeping_def)
qed

lemma in_training_status:
  assumes "s \<in> LORA_ACTIVE_STATUSES" and "in_training job_id m0 l F"
  shows "in_training job_id m0 (write_lora (no_update\<lparr>lu_status := Some s\<rparr>) l) F"
    and "in_training job_id m0 (write_lora (no_update\<lparr>lu_status := Some s, lu_clear_error := True\<rparr>) l) F"
  by (rule in_training_row [OF assms(2)], simp_all add: assms(1) write_lora_def no_update_def or_else_def or_kept_def)+

lemma vspec_job [simp]:
  assumes "\<And>l F. \<Phi> l F \<Longrightarrow> voice_ok l F"
  shows "vspec V \<Phi> (update_job job_id u) (\<lambda>_. \<Phi>) (stopped m0) voice_ok"
  by (rule vspec_update_job) (use assms in auto)

lemma vspec_heartbeat:
  assumes "\<And>l F. \<Phi> l F \<Longrightarrow> voice_ok l F"
  shows "vspec V \<Phi> (touch_heartbeat job_id) (\<lambda>_. \<Phi>) (stopped m0) voice_ok"
  unfolding touch_heartbeat_def change_def
  by (rule vspec_attempt [where R = "\<lambda>_. \<Phi>"], rule vspec_effect)
    (use assms in \<open>auto simp: voice_def voice_state_def intro: vspec_give\<close>)

lemma vspec_status:
  assumes "s \<in> LORA_ACTIVE_STATUSES" and "u = no_update\<lparr>lu_status := Some s\<rparr> \<or> u = no_update\<lparr>lu_status := Some s, lu_clear_error := True\<rparr>"
    and "\<And>l F l'. \<Phi> l F \<Longrightarrow> in_training job_id m0 l F"
    and "\<And>l F l'. \<Phi> l F \<Longrightarrow> in_training job_id m0 l' F \<Longrightarrow> \<Phi> l' F"
  shows "vspec V \<Phi> (commit_lora (snd (vf_key V)) u []) (\<lambda>_. \<Phi>) (stopped m0) voice_ok"
proof (rule vspec_commit)
  show "case lu_model_mode u of None \<Rightarrow> True | Some m \<Rightarrow> m \<in> LORA_TRAINING_MODEL_MODES"
    using assms(2) by (auto simp: no_update_def)
  show "\<Phi> l F \<Longrightarrow> \<Phi> (write_lora u l) F" for l F
    using assms in_training_status [OF assms(1)] by blast
  show "\<not> vf_calm V \<Longrightarrow> \<Phi> l F \<Longrightarrow> stopped m0 Db_Error l F" for l F
    using assms(3) in_training_ok by fastforce
  show "\<not> vf_calm V \<Longrightarrow> \<Phi> l F \<Longrightarrow> voice_ok l F" for l F
    using assms(3) in_training_ok by fastforce
qed (rule refl)

subsection \<open>The steps of the job\<close>

lemma vspec_put_file:
  assumes "\<And>l F n. \<Phi> l F \<Longrightarrow> \<Phi> l (F(Dataset_Dir := n))" and "\<And>l F. \<Phi> l F \<Longrightarrow> E OS_Error l F" and "\<And>l F. \<Phi> l F \<Longrightarrow> C l F"
  shows "vspec V \<Phi> (put_dataset_file (vf_key V) name f) (\<lambda>_. \<Phi>) E C"
  unfolding put_dataset_file_def
proof (rule vspec_effect)
  let ?act = "\<lambda>w. case lw_files w (vf_key V) Dataset_Dir of
        Some (Dataset fs) \<Rightarrow> (Inr (), put_node (vf_key V) Dataset_Dir (Some (Dataset (dict_set name f fs))) w)
      | _ \<Rightarrow> (Inl OS_Error, w)"
  fix w x w' assume w: "voice V \<Phi> w" and "?act w = (Inr x, w')"
  then obtain n where "w' = put_node (vf_key V) Dataset_Dir n w" by (auto split: option.splits lora_node.splits)
  then show "voice V \<Phi> w'" using assms(1) by (auto intro: voice_put [OF w])
next
  fix w e' w' assume w: "voice V \<Phi> w" and "(case lw_files w (vf_key V) Dataset_Dir of
        Some (Dataset fs) \<Rightarrow> (Inr (), put_node (vf_key V) Dataset_Dir (Some (Dataset (dict_set name f fs))) w)
      | _ \<Rightarrow> (Inl OS_Error, w)) = (Inl e', w')"
  then have "w' = w" "e' = OS_Error" by (auto split: option.splits lora_node.splits)
  then show "voice V (E e') w'" using voice_mono [OF w] assms(2) by simp
qed (use assms(2,3) in auto)

lemma vspec_materialize:
  assumes "\<And>l F n. \<Phi> l F \<Longrightarrow> \<Phi> l (F(Dataset_Dir := n))" and "\<And>l F. \<Phi> l F \<Longrightarrow> voice_ok l F"
  shows "vspec V \<Phi> (materialize_dataset on_disk audio_dir (vf_key V) samples) (\<lambda>_. \<Phi>) (stopped m0) voice_ok"
proof -
  have put: "vspec V \<Phi> (put_dataset_file (vf_key V) name f) (\<lambda>_. \<Phi>) (stopped m0) voice_ok" for name f
    by (rule vspec_put_file) (use assms in auto)
  have link: "vspec V \<Phi> (attempt (put_dataset_file (vf_key V) name f)
      (\<lambda>e. if e = OS_Error then put_dataset_file (vf_key V) name f else throw e)) (\<lambda>_. \<Phi>) (stopped m0) voice_ok" for name f
  proof (rule vspec_attempt)
    show "vspec V \<Phi> (put_dataset_file (vf_key V) name f) (\<lambda>_. \<Phi>) (\<lambda>e l F. e = OS_Error \<and> \<Phi> l F) voice_ok"
      by (rule vspec_put_file) (use assms in auto)
    show "vspec V (\<lambda>l F. e = OS_Error \<and> \<Phi> l F) (if e = OS_Error then put_dataset_file (vf_key V) name f else throw e)
        (\<lambda>_. \<Phi>) (stopped m0) voice_ok" for e
      by (rule vspec_pure) (simp add: put)
  qed
  have sample: "vspec V \<Phi> (add_sample on_disk audio_dir (vf_key V) s) (\<lambda>_. \<Phi>) (stopped m0) voice_ok" for s
    unfolding add_sample_def Let_def
    using vspec_seq [OF link vspec_seq [OF put put]] assms(2) by (auto intro: vspec_throw)
  have all: "vspec V \<Phi> (add_samples on_disk audio_dir (vf_key V) samples) (\<lambda>_. \<Phi>) (stopped m0) voice_ok"
    by (induction samples) (auto intro: vspec_give vspec_seq sample)
  have clear: "vspec V \<Phi> (reading (\<lambda>w. if lw_files w (vf_key V) Dataset_Dir \<noteq> None then rmtree (vf_key V) Dataset_Dir else give ()))
      (\<lambda>_. \<Phi>) (stopped m0) voice_ok"
    by (rule vspec_reading) (auto intro!: vspec_give vspec_rmtree simp: assms)
  have create: "vspec V \<Phi> (change OS_Error (put_node (vf_key V) Dataset_Dir (Some (Dataset [])))) (\<lambda>_. \<Phi>) (stopped m0) voice_ok"
    by (rule vspec_change_node) (use assms in auto)
  show ?thesis unfolding materialize_dataset_def by (rule vspec_seq [OF clear vspec_seq [OF create all]])
qed

lemma vspec_discard:
  assumes "\<And>l F n. \<Phi> l F \<Longrightarrow> \<Phi> l (F(Training_Tmp := n))" and "\<And>l F. \<Phi> l F \<Longrightarrow> voice_ok l F"
  shows "vspec V \<Phi> (discard_old_output (vf_key V)) (\<lambda>_. \<Phi>) (stopped m0) voice_ok"
  unfolding discard_old_output_def
proof (rule vspec_seq)
  show "vspec V \<Phi> (change OS_Error id) (\<lambda>_. \<Phi>) (stopped m0) voice_ok"
    unfolding change_def by (rule vspec_effect) (use assms(2) in auto)
  show "vspec V \<Phi> (reading (\<lambda>w. if lw_files w (vf_key V) Training_Tmp \<noteq> None then rmtree (vf_key V) Training_Tmp else give ()))
      (\<lambda>_. \<Phi>) (stopped m0) voice_ok"
    by (rule vspec_reading) (auto intro!: vspec_give vspec_rmtree simp: assms)
qed

text \<open>What the worker has left in the temporary directory stays there while the events are read.\<close>

definition left_with :: "string \<Rightarrow> string \<Rightarrow> lora_node option \<Rightarrow> voice_cond" where
  "left_with job_id m0 n l F \<longleftrightarrow> in_training job_id m0 l F \<and> F Training_Tmp = n"

lemma left_with_ok: "left_with job_id m0 n l F \<Longrightarrow> voice_ok l F"
  by (auto simp: left_with_def intro: in_training_ok)

lemma stopped_event [simp]: "stopped m0 (Sched_Failed (WorkerTaskFailed t)) = voice_ok" "stopped m0 (job_exn.Value_Error t) = voice_ok"
    "stopped m0 Http_Failed = voice_ok"
  by (simp_all add: fun_eq_iff stopped_def restored_def)

lemma status_of_fraction_active: "status_of_fraction f \<in> LORA_ACTIVE_STATUSES"
  by (simp add: status_of_fraction_def LORA_ACTIVE_STATUSES_def)

lemma vspec_report:
  "vspec V (left_with job_id m0 n) (report_progress jid (snd (vf_key V)) now fraction e epochs started th)
     (\<lambda>_. left_with job_id m0 n) (stopped m0) voice_ok"
proof -
  have status: "vspec V (left_with job_id m0 n) (commit_lora (snd (vf_key V)) (no_update\<lparr>lu_status := Some (status_of_fraction fraction)\<rparr>) [])
      (\<lambda>_. left_with job_id m0 n) (stopped m0) voice_ok"
    by (rule vspec_status [OF status_of_fraction_active]) (auto simp: left_with_def)
  have job: "vspec V (left_with job_id m0 n) (update_job jid u) (\<lambda>_. left_with job_id m0 n) (stopped m0) voice_ok" for u
    by (rule vspec_job) (rule left_with_ok)
  show ?thesis unfolding report_progress_def Let_def
    by (auto intro!: vspec_give vspec_seq [OF status] vspec_seq [OF job] vspec_seq [where R = "left_with job_id m0 n"])
qed

text \<open>The result that an event of the worker's stream reports.\<close>

definition result_of :: "training_decoders \<Rightarrow> sse_event \<Rightarrow> train_result \<Rightarrow> bool" where
  "result_of T ev r \<longleftrightarrow> fst ev = ''done'' \<and> read_lora_training_result T (snd ev) = Inr r"

lemma vspec_event:
  "vspec V (left_with job_id m0 n) (handle_lora_training_event T jid (snd (vf_key V)) now ev th)
     (\<lambda>x l F. left_with job_id m0 n l F \<and> (\<forall>r. fst x = Some r \<longrightarrow> result_of T ev r)) (stopped m0) voice_ok"
proof -
  let ?\<Phi> = "left_with job_id m0 n"
  have epochs: "vspec V ?\<Phi> (lift_sum (read_lora_training_epochs T d)) (\<lambda>_. ?\<Phi>) (stopped m0) voice_ok" for d
    by (rule vspec_weaken [OF vspec_lift_error [where \<Phi> = ?\<Phi> and E = "stopped m0"]])
      (auto simp: read_lora_training_epochs_def left_with_ok split: option.splits if_splits)
  have time: "vspec V ?\<Phi> (lift_sum (worker_training_started_at T v)) (\<lambda>_. ?\<Phi>) (stopped m0) voice_ok" for v
    by (rule vspec_weaken [OF vspec_lift_error [where \<Phi> = ?\<Phi> and E = "stopped m0"]])
      (auto simp: worker_training_started_at_def Let_def left_with_ok split: option.splits json.splits)
  have result: "vspec V ?\<Phi> (lift_sum (read_lora_training_result T d))
      (\<lambda>r l F. ?\<Phi> l F \<and> read_lora_training_result T d = Inr r) (stopped m0) voice_ok" for d
    by (rule vspec_weaken [OF vspec_lift_error [where \<Phi> = ?\<Phi> and E = "stopped m0"]])
      (auto simp: read_lora_training_result_def left_with_ok split: option.splits sum.splits)
  have progress: "vspec V ?\<Phi> (report_lora_training_progress T jid (snd (vf_key V)) now d th) (\<lambda>_. ?\<Phi>) (stopped m0) voice_ok" for d
    unfolding report_lora_training_progress_def
    by (cases "to_float (td_base T) (case map_of d ''progress'' of None \<Rightarrow> JNum 0 | Some j \<Rightarrow> j)")
      (auto intro!: vspec_throw vspec_bind [OF epochs] vspec_bind [OF time] vspec_report simp: left_with_ok split: prod.split)
  show ?thesis unfolding handle_lora_training_event_def
    by (auto intro!: vspec_bind [OF progress] vspec_bind [OF result] vspec_give vspec_throw simp: left_with_ok result_of_def)
qed

lemma body_events:
  assumes calm: "\<not> vf_calm V"
  shows "body_spec V m0 (left_with job_id m0 n)
     (read_lora_training_events T jid (snd (vf_key V)) clock err evs th :: ('s, train_result) training_prog)
     (\<lambda>r l F. left_with job_id m0 n l F \<and> (\<exists>ev \<in> set evs. result_of T ev r))"
proof (induction evs arbitrary: th)
  case Nil
  then show ?case by (cases err) (auto intro: jspec_throw simp: left_with_ok)
next
  case (Cons ev evs)
  let ?\<Phi> = "left_with job_id m0 n" and ?Q = "\<lambda>r l F. left_with job_id m0 n l F \<and> (\<exists>e \<in> set (ev # evs). result_of T e r)"
  have point: "body_spec V m0 ?\<Phi> (checkpoint Cancelled) (\<lambda>_. ?\<Phi>)"
    by (rule body_plain [OF plain_checkpoint left_with_ok]) auto
  have beat: "body_spec V m0 \<Psi> (in_lora (touch_heartbeat jid) :: ('s, unit) training_prog) (\<lambda>_. \<Psi>)" if "\<And>l F. \<Psi> l F \<Longrightarrow> voice_ok l F" for \<Psi>
    by (rule jspec_in_lora [OF calm vspec_heartbeat]) (rule that)
  have go_on: "body_spec V m0 (\<lambda>l F. ?\<Phi> l F \<and> (\<forall>r. fst x = Some r \<longrightarrow> result_of T ev r))
      (case x of (result, th') \<Rightarrow> seq_p (in_lora (touch_heartbeat jid))
         (case result of Some r \<Rightarrow> give r
          | None \<Rightarrow> (read_lora_training_events T jid (snd (vf_key V)) clock err evs th' :: ('s, train_result) training_prog))) ?Q" for x
  proof -
    obtain result th' where x: "x = (result, th')" by fastforce
    have "body_spec V m0 (\<lambda>l F. ?\<Phi> l F \<and> (\<forall>r. fst x = Some r \<longrightarrow> result_of T ev r))
        (case result of Some r \<Rightarrow> give r
          | None \<Rightarrow> (read_lora_training_events T jid (snd (vf_key V)) clock err evs th' :: ('s, train_result) training_prog)) ?Q"
    proof (cases result)
      case None
      show ?thesis unfolding None option.case
        by (rule jspec_weaken [OF Cons.IH]) auto
    qed (auto intro!: jspec_give simp: x)
    moreover have "voice_ok l F" if "?\<Phi> l F \<and> (\<forall>r. fst x = Some r \<longrightarrow> result_of T ev r)" for l F
      using that by (auto intro: left_with_ok)
    ultimately show ?thesis unfolding x prod.case by (intro jspec_seq [OF beat])
  qed
  show ?case unfolding read_lora_training_events.simps
    by (rule jspec_seq [OF point jspec_bind [OF jspec_in_lora [OF calm vspec_event] go_on]])
qed

text \<open>A worker that reports a result on the stream of its task has left the adapter of the mode it reports;
  picking a worker does not raise the exception of the swap.\<close>

definition worker_reports :: "training_setting \<Rightarrow> string \<Rightarrow> train_result \<Rightarrow> bool" where
  "worker_reports X task_id r \<longleftrightarrow>
     (case iterate_task_events (td_base (ts_decoders X)) (ts_options X) (ts_streams X task_id) of
        (events, _) \<Rightarrow> list_ex (\<lambda>ev. result_of (ts_decoders X) ev r) events)"

definition honest :: "training_setting \<Rightarrow> bool" where
  "honest X \<longleftrightarrow> (\<forall>task_id r. worker_reports X task_id r \<longrightarrow> ts_left_behind X task_id = Some (Adapter (tr_mode r)))
     \<and> (\<forall>q. ts_pick X \<noteq> Some (Previous_Restored q))"

definition reported :: "string \<Rightarrow> string \<Rightarrow> train_result \<Rightarrow> voice_cond" where
  "reported job_id m0 r l F \<longleftrightarrow> in_training job_id m0 l F \<and> F Training_Tmp = Some (Adapter (tr_mode r))"

lemma reported_ok: "reported job_id m0 r l F \<Longrightarrow> voice_ok l F"
  by (auto simp: reported_def intro: in_training_ok)

lemma body_call_worker:
  assumes calm: "\<not> vf_calm V" and "honest X"
  shows "body_spec V m0 (in_training job_id m0) (pick_and_call_worker X W (vf_key V) jid mode token) (reported job_id m0)"
  unfolding pick_and_call_worker_def
proof (rule jspec_bind)
  show "body_spec V m0 (in_training job_id m0) (hand_over_training W mode token) (\<lambda>_. in_training job_id m0)"
    by (rule body_plain [OF plain_hand_over in_training_ok])
  fix task_id
  let ?n = "ts_left_behind X task_id"
  obtain events err pauses where it:
    "iterate_task_events (td_base (ts_decoders X)) (ts_options X) (ts_streams X task_id) = (events, err, pauses)"
    by (metis prod_cases3)
  have put: "body_spec V m0 (in_training job_id m0) (modify (\<lambda>w. w\<lparr>tw_lora := put_node (vf_key V) Training_Tmp ?n (tw_lora w)\<rparr>))
      (\<lambda>_. left_with job_id m0 ?n)"
    unfolding jspec_def
    by (rule runs_toI) (auto simp: modify_def left_with_def in_training_irrelevant intro!: voice_put)
  have adapter: "?n = Some (Adapter (tr_mode r))" if "ev \<in> set events" "result_of (ts_decoders X) ev r" for ev r
  proof -
    have "worker_reports X task_id r" using that it by (auto simp: worker_reports_def list_ex_iff)
    then show ?thesis using assms(2) by (simp add: honest_def)
  qed
  have "body_spec V m0 (left_with job_id m0 ?n)
      (read_lora_training_events (ts_decoders X) jid (snd (vf_key V)) (ts_clock X) err events new_throttle) (reported job_id m0)"
    by (rule jspec_weaken [OF body_events [OF calm]]) (use adapter in \<open>auto simp: left_with_def reported_def\<close>)
  from jspec_seq [OF put this]
  show "body_spec V m0 (in_training job_id m0)
      (case iterate_task_events (td_base (ts_decoders X)) (ts_options X) (ts_streams X task_id) of (events, err, _) \<Rightarrow>
          seq_p (modify (\<lambda>w. w\<lparr>tw_lora := put_node (vf_key V) Training_Tmp (ts_left_behind X task_id) (tw_lora w)\<rparr>))
            (read_lora_training_events (ts_decoders X) jid (snd (vf_key V)) (ts_clock X) err events new_throttle))
      (reported job_id m0)" by (simp add: it)
qed

lemma body_prepare:
  fixes W :: "'s worker_api"
  assumes calm: "\<not> vf_calm V" and "honest X"
  shows "body_spec V m0 (in_training job_id m0) (prepare_and_submit_lora X W (vf_key V) jid mode samples token)
     (\<lambda>r l F. case r of None \<Rightarrow> voice_ok l F | Some r' \<Rightarrow> reported job_id m0 r' l F)"
proof -
  let ?\<Phi> = "in_training job_id m0" and ?Q = "\<lambda>r l F. case r of None \<Rightarrow> voice_ok l F | Some r' \<Rightarrow> reported job_id m0 r' l F"
  note quiet = in_training_irrelevant in_training_ok
  have job: "body_spec V m0 ?\<Phi> (in_lora (update_job jid u)) (\<lambda>_. ?\<Phi>)" for u
    by (rule jspec_in_lora [OF calm vspec_job]) (rule in_training_ok)
  have dataset: "body_spec V m0 ?\<Phi> (in_lora (materialize_dataset (ts_on_disk X) (ts_audio_dir X) (vf_key V) samples)) (\<lambda>_. ?\<Phi>)"
    by (rule jspec_in_lora [OF calm vspec_materialize]) (auto simp: in_training_irrelevant intro: in_training_ok)
  have status: "body_spec V m0 ?\<Phi> (in_lora (commit_lora (snd (vf_key V))
      (no_update\<lparr>lu_status := Some L_Preprocessing, lu_clear_error := True\<rparr>) [])) (\<lambda>_. ?\<Phi>)"
    by (rule jspec_in_lora [OF calm vspec_status [where s = L_Preprocessing]]) (auto simp: LORA_ACTIVE_STATUSES_def)
  have discard: "body_spec V m0 ?\<Phi> (in_lora (discard_old_output (vf_key V))) (\<lambda>_. ?\<Phi>)"
    by (rule jspec_in_lora [OF calm vspec_discard]) (auto simp: in_training_irrelevant intro: in_training_ok)
  have point: "body_spec V m0 ?\<Phi> (checkpoint e) (\<lambda>_. ?\<Phi>)" if "e = Cancelled \<or> e = Http_Failed" for e
    by (rule body_plain [OF plain_checkpoint in_training_ok]) (use that in auto)
  have start: "body_spec V m0 ?\<Phi> start_lora_hold_renewal (\<lambda>_. ?\<Phi>)"
    by (rule body_plain [OF _ in_training_ok])
      (unfold start_lora_hold_renewal_def, intro plain_rules, simp_all)
  have call: "body_spec V m0 ?\<Phi> (bind_p (pick_and_call_worker X W (vf_key V) jid mode token) (\<lambda>r. give (Some r))) ?Q"
    by (rule jspec_bind [OF body_call_worker [OF assms]]) (rule jspec_give, simp)
  have body: "body_spec V m0 ?\<Phi>
      (seq_p start_lora_hold_renewal
          (bind_p (in_lora (update_job jid ((status_update RUNNING)\<lparr>u_worker_pid := Write (ts_pid X)\<rparr>))) (\<lambda>applied.
             if \<not> applied then give None
             else seq_p (checkpoint Cancelled)
                 (seq_p (in_lora (materialize_dataset (ts_on_disk X) (ts_audio_dir X) (vf_key V) samples))
                 (seq_p (checkpoint Http_Failed)
                 (seq_p (in_lora (commit_lora (snd (vf_key V)) (no_update\<lparr>lu_status := Some L_Preprocessing, lu_clear_error := True\<rparr>) []))
                 (seq_p (in_lora (update_job jid ((status_update RUNNING)\<lparr>u_progress := 1 / 20\<rparr>)))
                 (seq_p (in_lora (discard_old_output (vf_key V)))
                 (bind_p (pick_and_call_worker X W (vf_key V) jid mode token) (\<lambda>r. give (Some r))))))))))) ?Q"
  proof (rule jspec_seq [OF start], rule jspec_bind [OF job])
    have go: "body_spec V m0 ?\<Phi>
       (seq_p (checkpoint Cancelled)
                 (seq_p (in_lora (materialize_dataset (ts_on_disk X) (ts_audio_dir X) (vf_key V) samples))
                 (seq_p (checkpoint Http_Failed)
                 (seq_p (in_lora (commit_lora (snd (vf_key V)) (no_update\<lparr>lu_status := Some L_Preprocessing, lu_clear_error := True\<rparr>) []))
                 (seq_p (in_lora (update_job jid ((status_update RUNNING)\<lparr>u_progress := 1 / 20\<rparr>)))
                 (seq_p (in_lora (discard_old_output (vf_key V)))
                 (bind_p (pick_and_call_worker X W (vf_key V) jid mode token) (\<lambda>r. give (Some r))))))))) ?Q"
      by (intro jspec_seq [OF point] jspec_seq [OF dataset] jspec_seq [OF status] jspec_seq [OF job] jspec_seq [OF discard] call)
        simp_all
    fix applied
    have none: "body_spec V m0 ?\<Phi> (give None :: ('s, train_result option) training_prog) ?Q" by (rule jspec_give) (auto intro: in_training_ok)
    show "body_spec V m0 ?\<Phi> (if \<not> applied then give None
             else seq_p (checkpoint Cancelled)
                 (seq_p (in_lora (materialize_dataset (ts_on_disk X) (ts_audio_dir X) (vf_key V) samples))
                 (seq_p (checkpoint Http_Failed)
                 (seq_p (in_lora (commit_lora (snd (vf_key V)) (no_update\<lparr>lu_status := Some L_Preprocessing, lu_clear_error := True\<rparr>) []))
                 (seq_p (in_lora (update_job jid ((status_update RUNNING)\<lparr>u_progress := 1 / 20\<rparr>)))
                 (seq_p (in_lora (discard_old_output (vf_key V)))
                 (bind_p (pick_and_call_worker X W (vf_key V) jid mode token) (\<lambda>r. give (Some r))))))))) ?Q"
      using go none by simp
  qed
  have plain: "plain (seq_p (release_unless_complete W token) (reading (\<lambda>w. if tw_renewing w then cancel_child_task True else give ())))"
    by (intro plain_seq plain_reading plain_release plain_if plain_cancel plain_give)
  have Q_ok: "?Q r l F \<Longrightarrow> voice_ok l F" for r l F by (auto intro: reported_ok split: option.splits)
  have finish_error: "body_spec V m0 (stopped m0 e) (seq_p (release_unless_complete W token)
      (reading (\<lambda>w. if tw_renewing w then cancel_child_task True else give ()))) (\<lambda>_. stopped m0 e)" for e
    by (rule body_plain [OF plain]) (rule stopped_ok)
  have finish: "body_spec V m0 (?Q r) (seq_p (release_unless_complete W token)
      (reading (\<lambda>w. if tw_renewing w then cancel_child_task True else give ()))) (\<lambda>_. ?Q r)" for r
    by (rule body_plain [OF plain Q_ok])
  have reset: "body_spec V m0 ?\<Phi> (modify (\<lambda>w. w\<lparr>tw_complete := False, tw_renewing := False\<rparr>)) (\<lambda>_. ?\<Phi>)"
    by (rule body_plain [OF plain_modify in_training_ok]) simp
  show ?thesis unfolding prepare_and_submit_lora_def
    by (rule jspec_seq [OF reset jspec_ensuring [OF body finish finish_error]])
qed

subsection \<open>The whole job\<close>

lemma body_load:
  assumes "\<not> vf_calm V"
  shows "body_spec V m0 (in_training job_id m0) (in_lora (load_lora_training_samples table jid (snd (vf_key V)))) (\<lambda>_. in_training job_id m0)"
  unfolding load_lora_training_samples_def
proof (rule jspec_in_lora [OF assms], rule vspec_reading)
  let ?\<Phi> = "in_training job_id m0"
  fix w :: lora_world and l
  assume "?\<Phi> l (lw_files w (vf_key V))"
  have fail: "vspec V ?\<Phi> (seq_p (update_job jid u) (give (None :: lora_sample list option))) (\<lambda>_. ?\<Phi>) (stopped m0) voice_ok" for u
    by (rule vspec_seq [OF vspec_job]) (auto intro: in_training_ok vspec_give)
  have give: "vspec V ?\<Phi> (give x) (\<lambda>_. ?\<Phi>) (stopped m0) voice_ok" for x :: "lora_sample list option"
    by (rule vspec_give)
  show "vspec V (\<lambda>l' F. l' = l \<and> F = lw_files w (vf_key V)) (case get_user_lora (snd (vf_key V)) True (lw_loras w) of
        None \<Rightarrow> seq_p (update_job jid (failed_update ''LoRA not found'' ''lora_missing'')) (give None)
      | Some l \<Rightarrow>
          if lo_deleted_at l \<noteq> None
          then seq_p (update_job jid (failed_update ''LoRA is deleted'' ''lora_deleted'')) (give None)
          else give (Some (samples_of (snd (vf_key V)) table))) (\<lambda>_. ?\<Phi>) (stopped m0) voice_ok"
    by (rule vspec_weaken [where \<Phi>' = ?\<Phi>])
      (use \<open>?\<Phi> l (lw_files w (vf_key V))\<close> in \<open>auto split: option.split intro: fail give\<close>)
qed

lemma plain_reserve: "honest X \<Longrightarrow> plain (reserve_lora_worker X W)"
proof -
  have call: "plain (http_call (\<lambda>s. case api_reserve W s of
      (Inl status, s') \<Rightarrow> (Inl (if status = 409 then Sched_Failed (AllWorkersHeld ''ACE-Step worker is busy or held'') else Http_Failed), s')
    | (Inr token, s') \<Rightarrow> (Inr token, s')))"
    by (rule plain_call) (simp split: prod.split sum.split)
  show "honest X \<Longrightarrow> plain (reserve_lora_worker X W)"
    unfolding reserve_lora_worker_def honest_def
    by (auto split: option.split intro!: plain_throw plain_reading plain_if call)
qed

lemma body_defer:
  assumes calm: "\<not> vf_calm V"
  shows "body_spec V m0 (in_training job_id m0) (defer_lora_training_for_generation (vf_key V) jid mode) (\<lambda>_. voice_ok)"
proof -
  let ?\<Phi> = "in_training job_id m0"
  have cleanup: "body_spec V m0 ?\<Phi> (in_lora (cleanup_failed_lora_with_factory (vf_key V) t)) (\<lambda>_. voice_ok)" for t
    by (rule jspec_in_lora [OF calm], rule vspec_weaken [OF vspec_cleanup_with_factory])
      (auto intro: in_training_ok failed_voice_ok)
  have job: "body_spec V m0 voice_ok (in_lora (update_job jid u)) (\<lambda>_. voice_ok)" for u
    by (rule jspec_in_lora [OF calm vspec_job])
  have queue: "plain (change Redis_Failed (\<lambda>w. w\<lparr>tw_enqueued := tw_enqueued w @ [x]\<rparr>))" for x
    unfolding change_def by (rule plain_effect) auto
  have quiet: "body_spec V m0 ?\<Phi> p Q" if "body_spec V m0 voice_ok p Q" for p :: "('s, 'b) training_prog" and Q
    by (rule jspec_weaken [OF that]) (auto intro: in_training_ok)
  have late: "body_spec V m0 ?\<Phi> (seq_p (in_lora (cleanup_failed_lora_with_factory (vf_key V) t))
      (seq_p (in_lora (update_job jid u)) (give ()))) (\<lambda>_. voice_ok)" for t u
    by (intro jspec_seq [OF cleanup] jspec_seq [OF job] jspec_give)
  have again: "body_spec V m0 ?\<Phi> (seq_p (in_lora (update_job jid u))
      (change Redis_Failed (\<lambda>w. w\<lparr>tw_enqueued := tw_enqueued w @ [x]\<rparr>))) (\<lambda>_. voice_ok)" for u x
    by (intro quiet jspec_seq [OF job] body_plain [OF queue])
  show ?thesis unfolding defer_lora_training_for_generation_def
    by (rule jspec_reading) (auto split: option.split intro: late again jspec_give in_training_ok)
qed

lemma body_submit:
  fixes W :: "'s worker_api"
  assumes calm: "\<not> vf_calm V" and "honest X"
  shows "body_spec V m0 (in_training job_id m0) (submit_lora_training_job X W (vf_key V) jid mode samples token)
     (\<lambda>r l F. case r of None \<Rightarrow> voice_ok l F | Some r' \<Rightarrow> reported job_id m0 r' l F)"
  unfolding submit_lora_training_job_def
proof (rule jspec_attempt [OF body_prepare [OF assms]])
  fix e
  have "body_spec V m0 voice_ok (seq_p (in_lora (fail_lora_training (vf_key V) jid e t)) (give None :: ('s, train_result option) training_prog))
      (\<lambda>r l F. case r of None \<Rightarrow> voice_ok l F | Some r' \<Rightarrow> reported job_id m0 r' l F)" for t
    by (rule jspec_seq [OF jspec_in_lora [OF calm vspec_fail_training]]) (rule jspec_give, simp)
  then have fail: "body_spec V m0 (stopped m0 e) (seq_p (in_lora (fail_lora_training (vf_key V) jid e t)) (give None :: ('s, train_result option) training_prog))
      (\<lambda>r l F. case r of None \<Rightarrow> voice_ok l F | Some r' \<Rightarrow> reported job_id m0 r' l F)" for t
    by (rule jspec_weaken) (auto intro: stopped_ok)
  have throw: "body_spec V m0 (stopped m0 e) (throw e :: ('s, train_result option) training_prog)
      (\<lambda>r l F. case r of None \<Rightarrow> voice_ok l F | Some r' \<Rightarrow> reported job_id m0 r' l F)"
    by (rule jspec_throw)
  show "body_spec V m0 (stopped m0 e)
      ((case e of Sched_Failed (NoCapacityError _) \<Rightarrow> seq_p (in_lora (fail_lora_training (vf_key V) jid e ''no_workers'')) (give None)
       | _ \<Rightarrow> throw e) :: ('s, train_result option) training_prog)
      (\<lambda>r l F. case r of None \<Rightarrow> voice_ok l F | Some r' \<Rightarrow> reported job_id m0 r' l F)"
    using throw fail by (auto split: job_exn.split sched_error.split)
qed

lemma vspec_complete_reported:
  "vspec V (reported job_id m0 r) (complete_lora_training py_repr show_samples cwd audio_dir (vf_key V) job_id target r)
     (\<lambda>_. voice_ok) (stopped m0) voice_ok"
proof (cases "validate_completed_training_model_mode py_repr target (tr_mode r)")
  case (Inl e)
  then show ?thesis by (rule vspec_complete_refused) (rule reported_ok)
next
  case (Inr m)
  from validated_mode [OF this] have "tr_mode r \<in> LORA_TRAINING_MODEL_MODES" by auto
  then show ?thesis
    by (intro vspec_weaken [OF vspec_complete [OF refl]]) (auto simp: reported_def in_training_def trained_def intro: ready_with_ok)
qed

lemma body_run:
  fixes W :: "'s worker_api"
  assumes calm: "\<not> vf_calm V" and honest: "honest X"
  shows "body_spec V m0 (in_training job_id m0) (run_lora_training X W table (vf_key V) job_id mode) (\<lambda>_. voice_ok)"
  unfolding run_lora_training_def
proof (rule jspec_bind [OF body_load [OF calm]])
  let ?\<Phi> = "in_training job_id m0"
  fix samples
  have finish: "body_spec V m0 (\<lambda>l F. case submitted of None \<Rightarrow> voice_ok l F | Some r' \<Rightarrow> reported job_id m0 r' l F)
      ((case submitted of None \<Rightarrow> give ()
        | Some r \<Rightarrow> in_lora (complete_lora_training (ts_repr X) (ts_show X) (ts_cwd X) (ts_audio_dir X)
             (vf_key V) job_id mode r)) :: ('s, unit) training_prog) (\<lambda>_. voice_ok)" for submitted
    by (cases submitted) (simp_all add: jspec_give jspec_in_lora [OF calm vspec_complete_reported])
  have reserve: "body_spec V m0 ?\<Phi>
      (attempt (bind_p (reserve_lora_worker X W) (\<lambda>token. give (Some token)))
         (\<lambda>e. case e of Sched_Failed (AllWorkersHeld _) \<Rightarrow> seq_p (defer_lora_training_for_generation (vf_key V) job_id mode) (give None) | _ \<Rightarrow> throw e))
      (\<lambda>token. case token of None \<Rightarrow> voice_ok | Some _ \<Rightarrow> ?\<Phi>)"
  proof (rule jspec_attempt [where R = "\<lambda>e l F. (\<forall>q. e \<noteq> Previous_Restored q) \<and> ?\<Phi> l F"])
    show "jspec V ?\<Phi> (bind_p (reserve_lora_worker X W) (\<lambda>token. give (Some token))) (\<lambda>token. case token of None \<Rightarrow> voice_ok | Some _ \<Rightarrow> ?\<Phi>)
        (\<lambda>e l F. (\<forall>q. e \<noteq> Previous_Restored q) \<and> ?\<Phi> l F) voice_ok"
      unfolding jspec_def
    proof (rule runs_toI)
      fix w :: "'s training_world"
      assume w: "voice V ?\<Phi> (tw_lora w)"
      obtain r w' where run: "bind_p (reserve_lora_worker X W) (\<lambda>token. give (Some token)) w = (r, w')" by fastforce
      have "plain (bind_p (reserve_lora_worker X W) (\<lambda>token. give (Some token)))"
        by (intro plain_bind plain_reserve honest plain_give)
      from plainD [OF this run] w voice_mono [OF w in_training_ok]
      show "case bind_p (reserve_lora_worker X W) (\<lambda>token. give (Some token)) w of
          (Done x, w') \<Rightarrow> voice V (case x of None \<Rightarrow> voice_ok | Some _ \<Rightarrow> ?\<Phi>) (tw_lora w')
        | (Raised e, w') \<Rightarrow> voice V (\<lambda>l F. (\<forall>q. e \<noteq> Previous_Restored q) \<and> ?\<Phi> l F) (tw_lora w')
        | (Killed, w') \<Rightarrow> voice V voice_ok (tw_lora w')"
        unfolding run by (cases r) (auto split: option.split)
    qed
    fix e
    show "body_spec V m0 (\<lambda>l F. (\<forall>q. e \<noteq> Previous_Restored q) \<and> ?\<Phi> l F)
        ((case e of Sched_Failed (AllWorkersHeld _) \<Rightarrow> seq_p (defer_lora_training_for_generation (vf_key V) job_id mode) (give None)
          | _ \<Rightarrow> throw e) :: ('s, string option) training_prog)
        (\<lambda>token. case token of None \<Rightarrow> voice_ok | Some _ \<Rightarrow> ?\<Phi>)"
    proof (cases "\<forall>q. e \<noteq> Previous_Restored q")
      case False
      show ?thesis by (rule jspec_pure) (use False in simp)
    next
      case True
      have "body_spec V m0 ?\<Phi> (seq_p (defer_lora_training_for_generation (vf_key V) job_id mode) (give None) :: ('s, string option) training_prog)
          (\<lambda>token. case token of None \<Rightarrow> voice_ok | Some _ \<Rightarrow> ?\<Phi>)"
        by (rule jspec_seq [OF body_defer [OF calm]]) (rule jspec_give, simp)
      moreover have "body_spec V m0 ?\<Phi> (throw e :: ('s, string option) training_prog) (\<lambda>token. case token of None \<Rightarrow> voice_ok | Some _ \<Rightarrow> ?\<Phi>)"
        by (rule jspec_throw) (use True in \<open>auto intro: stopped_other in_training_ok\<close>)
      ultimately show ?thesis using True by (auto split: job_exn.split sched_error.split)
    qed
  qed
  show "body_spec V m0 ?\<Phi>
      ((case samples of None \<Rightarrow> give ()
       | Some ss \<Rightarrow>
           bind_p (attempt (bind_p (reserve_lora_worker X W) (\<lambda>token. give (Some token)))
                     (\<lambda>e. case e of
                        Sched_Failed (AllWorkersHeld _) \<Rightarrow> seq_p (defer_lora_training_for_generation (vf_key V) job_id mode) (give None)
                      | _ \<Rightarrow> throw e)) (\<lambda>token.
             case token of
               None \<Rightarrow> give ()
             | Some hold_token \<Rightarrow>
                 bind_p (submit_lora_training_job X W (vf_key V) job_id mode ss hold_token) (\<lambda>submitted.
                   case submitted of
                     None \<Rightarrow> give ()
                   | Some r \<Rightarrow> in_lora (complete_lora_training (ts_repr X) (ts_show X) (ts_cwd X) (ts_audio_dir X)
                                 (vf_key V) job_id mode r)))) :: ('s, unit) training_prog) (\<lambda>_. voice_ok)"
  proof (cases samples)
    case None
    then show ?thesis by (simp add: jspec_give in_training_ok)
  next
    case (Some ss)
    have submit: "body_spec V m0 (case token of None \<Rightarrow> voice_ok | Some _ \<Rightarrow> ?\<Phi>)
        ((case token of None \<Rightarrow> give ()
         | Some hold_token \<Rightarrow>
             bind_p (submit_lora_training_job X W (vf_key V) job_id mode ss hold_token) (\<lambda>submitted.
               case submitted of
                 None \<Rightarrow> give ()
               | Some r \<Rightarrow> in_lora (complete_lora_training (ts_repr X) (ts_show X) (ts_cwd X) (ts_audio_dir X)
                             (vf_key V) job_id mode r))) :: ('s, unit) training_prog) (\<lambda>_. voice_ok)" for token
      by (cases token) (simp_all add: jspec_give jspec_bind [OF body_submit [OF assms] finish])
    show ?thesis unfolding Some option.case by (rule jspec_bind [OF reserve submit])
  qed
qed

lemma tw_lora_upd [simp]: "tw_lora (w\<lparr>tw_lora := v, w_script := s\<rparr>) = v"
  by (cases w) simp

text \<open>C3: a whole training job, from the first read of the row to the last handler, keeps every voice
  consistent through any number of clean-ups after it, whatever the worker answers, whichever call is
  lost, whatever fails and wherever the process dies.  It starts from consistent voices, with a voice in
  training whose job has recorded nothing yet and beside which no \<open>lora.previous\<close> is left: taking that
  directory away after a swap is best effort, and \<open>leftover_blocks_recovery\<close> shows what becomes of a voice
  that keeps one.  It relies on the worker for one thing: a result on the stream of the job's task names
  the mode of the adapter that the task left.  The one exception is a swap that put the old adapter back
  and whose handling did not get through.
\<close>

theorem training_job_safe:
  assumes "voices_ok (tw_lora w)" and "get_lora k (lw_loras (tw_lora w)) = Some l" and "key = (lo_user_id l, k)"
    and waiting: "lo_status l \<in> LORA_ACTIVE_STATUSES" "lo_training_job_id l = Some job_id"
      "recorded l (lw_files (tw_lora w) key) = None" "lw_files (tw_lora w) key Previous_Dir = None"
    and mode: "lo_model_mode l \<in> LORA_TRAINING_MODEL_MODES"
    and honest: "honest X" and body: "body = run_lora_training X W table key job_id mode"
    and swap: "(\<forall>p. fst (body w) \<noteq> Raised (Previous_Restored p)) \<or> fst (run_lora_training_job X W table key job_id mode w) = Done ()"
  shows "voices_ok (reconcile_runs runs (tw_lora (snd (run_lora_training_job X W table key job_id mode w))))"
proof (rule reconcile_runs_safe)
  let ?V = "frame_of False key (tw_lora w)" and ?m0 = "lo_model_mode l"
  have ok: "voice_ok l (lw_files (tw_lora w) key)"
    using assms(1-3) by (simp add: voices_ok_def)
  then have "in_training job_id ?m0 l (lw_files (tw_lora w) key)"
    using waiting by (simp add: in_training_def voice_ok_def)
  then have start: "voice ?V (in_training job_id ?m0) (tw_lora w)"
    using voice_of_world [OF assms(1,2), of False] assms(3) by simp
  have spec: "body_spec ?V ?m0 (in_training job_id ?m0) body (\<lambda>_. voice_ok)"
    using body_run [where V = ?V and ?m0.0 = ?m0, OF _ honest] body by simp
  obtain r w' where run: "body w = (r, w')" by fastforce
  note facts = runs_toD [OF spec [unfolded jspec_def] start]
  have job: "run_lora_training_job X W table key job_id mode w = (case r of
      Done x \<Rightarrow> (Done x, w') | Raised e \<Rightarrow> in_lora (settle_exception key job_id e) w' | Killed \<Rightarrow> (Killed, w'))"
    using run by (simp add: run_lora_training_job_def attempt_def body split: outcome.split)
  show "voices_ok (tw_lora (snd (run_lora_training_job X W table key job_id mode w)))"
  proof (cases r)
    case (Done u)
    then show ?thesis using facts(1) run job world_of_voice [OF assms(1)] by simp
  next
    case Killed
    then show ?thesis using facts(3) run job world_of_voice [OF assms(1)] by simp
  next
    case (Raised e)
    let ?v = "(tw_lora w')\<lparr>w_script := w_script w'\<rparr>"
    from facts(2) [OF run [unfolded Raised]] have stopped: "voice ?V (stopped ?m0 e) ?v" by (simp add: voice_any_script)
    have same: "run_lora_training_job X W table key job_id mode w = in_lora (settle_exception key job_id e) w'"
      using job Raised by simp
    have "(\<forall>p. e \<noteq> Previous_Restored p) \<or> fst (settle_exception key job_id e ?v) = Done ()"
      using swap run Raised by (auto simp: same in_lora_def split: prod.splits)
    from handled_ok [OF assms(1) stopped mode this]
    show ?thesis by (cases "settle_exception key job_id e ?v") (simp add: same in_lora_def)
  qed
qed

text \<open>A job that trains the voice in another mode; the worker is the model of \<open>Worker_Gpu\<close>.  In the wire
  format of the example the data of an event is the mode of its result.\<close>

definition demo_result_of :: "json \<Rightarrow> string + train_result" where
  "demo_result_of j = (case j of JStr m \<Rightarrow> Inr (voice_result\<lparr>tr_mode := m\<rparr>) | _ \<Rightarrow> Inl ''invalid'')"

definition job_demo_setting :: training_setting where
  "job_demo_setting = training_demo_setting\<lparr>
     ts_decoders := \<lparr>td_base = demo_decoders\<lparr>loads := (\<lambda>s. Some (JObj [(''result'', JStr s)]))\<rparr>, td_int = (\<lambda>_. None),
       td_time = (\<lambda>_. None), td_result = demo_result_of\<rparr>,
     ts_streams := (\<lambda>_ _. Connected [format_sse ''done'' ''turbo''] None),
     ts_left_behind := (\<lambda>_. Some (Adapter ''turbo''))\<rparr>"

lemma job_demo_honest: "honest job_demo_setting"
proof -
  have "iterate_task_events (td_base (ts_decoders job_demo_setting)) (ts_options job_demo_setting)
      (\<lambda>_. Connected [format_sse ''done'' ''turbo''] None) = ([(''done'', [(''result'', JStr ''turbo'')])], None, [])"
    by code_simp
  moreover have "ts_streams job_demo_setting task_id = (\<lambda>_. Connected [format_sse ''done'' ''turbo''] None)" for task_id
    by (simp add: job_demo_setting_def)
  ultimately have "worker_reports job_demo_setting task_id r \<Longrightarrow> tr_mode r = ''turbo''" for task_id r
    by (auto simp: worker_reports_def result_of_def read_lora_training_result_def job_demo_setting_def demo_result_of_def)
  then show ?thesis by (simp add: honest_def) (simp add: job_demo_setting_def training_demo_setting_def)
qed

definition job_demo_world :: "fate list \<Rightarrow> (unit, nat, demo_redis) worker training_world" where
  "job_demo_world script = (training_demo_world script)\<lparr>
     tw_worker := start_worker demo_ops ''w'' 8 [''turbo'' \<mapsto> 4] 0 ((\<lambda>_. None), \<lambda>_. 0)\<rparr>"

definition job_demo :: "fate list \<Rightarrow> (job_exn, unit) outcome \<times> (unit, nat, demo_redis) worker training_world" where
  "job_demo script = run_lora_training_job job_demo_setting (gpu_worker_api training_ports demo_ops ''w'' training_demo_call) []
     (''u'', ''v'') ''j'' ''turbo'' (job_demo_world script)"

lemma job_demo_voice:
  "get_lora k (lw_loras (tw_lora (job_demo_world s))) = (if k = ''v'' then Some training_demo_voice else None)"
  by (simp add: job_demo_world_def training_demo_world_def table_get_def training_demo_voice_def)

lemma job_demo_training: "in_training ''j'' ''sft'' training_demo_voice (\<lambda>_. None)"
  by (simp add: in_training_def training_demo_voice_def LORA_ACTIVE_STATUSES_def record_readable_def recorded_def keeping_def)

lemma job_demo_ok: "voices_ok (tw_lora (job_demo_world s))"
  using in_training_ok [OF job_demo_training]
  by (simp add: voices_ok_def job_demo_voice) (simp add: job_demo_world_def training_demo_world_def)

text \<open>The process dies once the new adapter is in place; one clean-up makes the voice ready in its mode.\<close>

lemma training_job_safe_witness:
  "let w = reconcile_runs [([], [], 300)] (tw_lora (snd (job_demo (replicate 30 Works @ [Dies]))))
   in fst (job_demo (replicate 30 Works @ [Dies])) = Killed \<and> voices_ok w
      \<and> map_option (\<lambda>l. (lo_status l, lo_model_mode l)) (get_lora ''v'' (lw_loras w)) = Some (L_Ready, ''turbo'')"
proof -
  let ?s = "replicate 30 Works @ [Dies]" and ?W = "gpu_worker_api training_ports demo_ops ''w'' training_demo_call"
  have killed: "fst (run_lora_training job_demo_setting ?W [] (''u'', ''v'') ''j'' ''turbo'' (job_demo_world ?s)) = Killed"
    "fst (job_demo ?s) = Killed"
    by code_simp+
  have ready: "map_option (\<lambda>l. (lo_status l, lo_model_mode l))
      (get_lora ''v'' (lw_loras (reconcile_runs [([], [], 300)] (tw_lora (snd (job_demo ?s)))))) = Some (L_Ready, ''turbo'')"
    by code_simp
  have "voices_ok (reconcile_runs [([], [], 300)] (tw_lora (snd (job_demo ?s))))"
    unfolding job_demo_def
    by (rule training_job_safe [where l = training_demo_voice and k = "''v''", OF job_demo_ok _ _ _ _ _ _ _ job_demo_honest refl])
      (simp_all add: job_demo_voice killed, simp_all add: training_demo_voice_def job_demo_world_def training_demo_world_def
         LORA_TRAINING_MODEL_MODES_def LORA_ACTIVE_STATUSES_def recorded_def)
  then show ?thesis using killed ready by (simp add: Let_def)
qed

end
