(* ===== verification/Generation_Failure.thy ===== *)
theory Generation_Failure
  imports Job_Runtime
begin

text \<open>
  What a failed generation tells the musician (\<open>jobs/generation_failure.py\<close>): an exception is turned into
  a fixed message and a type when it is stored, and a stored diagnosis is projected again when it is read.
\<close>

record generation_failure =
  gf_message :: string
  gf_error_type :: string

definition GPU_OUT_OF_MEMORY :: string where "GPU_OUT_OF_MEMORY = ''gpu_out_of_memory''"

definition generation_failure_of :: "job_exn \<Rightarrow> generation_failure" where
  "generation_failure_of e =
     (let message = sanitize_error e
      in case e of
           Sched_Failed (WorkerGpuOutOfMemory _) \<Rightarrow>
             \<lparr>gf_message = JOB_ERROR_GPU_OUT_OF_MEMORY, gf_error_type = GPU_OUT_OF_MEMORY\<rparr>
         | Sched_Failed (WorkerGenerationUnavailable _) \<Rightarrow>
             \<lparr>gf_message = JOB_ERROR_GENERATION_UNAVAILABLE, gf_error_type = ''generation_unavailable''\<rparr>
         | Sched_Failed (NoCapacityError _) \<Rightarrow>
             \<lparr>gf_message = JOB_ERROR_GENERATION_UNAVAILABLE, gf_error_type = ''generation_unavailable''\<rparr>
         | _ \<Rightarrow> \<lparr>gf_message = (if is_worker_task_failed e then JOB_ERROR_GENERATION_FAILED else message),
                 gf_error_type = ''generation_error''\<rparr>)"

definition select_generation_failure :: "generation_failure option \<Rightarrow> job_exn \<Rightarrow> generation_failure" where
  "select_generation_failure previous e =
     (let current = generation_failure_of e
      in case previous of
           Some p \<Rightarrow> if gf_error_type p = GPU_OUT_OF_MEMORY then p else current
         | None \<Rightarrow> current)"

definition is_visible_generation_failure :: "string option \<Rightarrow> bool" where
  "is_visible_generation_failure error_type \<longleftrightarrow> error_type = Some GPU_OUT_OF_MEMORY"

definition running_failure_pair :: "generation_failure option \<Rightarrow> string option \<times> string option" where
  "running_failure_pair failure =
     (case failure of
        Some f \<Rightarrow> if is_visible_generation_failure (Some (gf_error_type f))
                  then (Some (gf_message f), Some (gf_error_type f)) else (None, None)
      | None \<Rightarrow> (None, None))"

definition partial_failure_error :: "nat \<Rightarrow> nat \<Rightarrow> string \<Rightarrow> string" where
  "partial_failure_error completed count message =
     show_nat completed @ ''/'' @ show_nat count @ '' completed, '' @ show_nat (count - completed)
       @ '' failed: '' @ message"

subsection \<open>The shown message\<close>

text \<open>\<open>_PARTIAL_FAILURE_PREFIX.match\<close>: the matched prefix.  A run of digits is followed by a character
  that is no digit, so the greedy match is the only one.\<close>

definition is_digit :: "char \<Rightarrow> bool" where
  "is_digit c \<longleftrightarrow> 48 \<le> code c \<and> code c \<le> 57"

definition digits_then :: "string \<Rightarrow> string \<Rightarrow> (string \<times> string) option" where
  "digits_then literal s =
     (let ds = takeWhile is_digit s; rest = dropWhile is_digit s
      in if ds \<noteq> [] \<and> startswith literal rest then Some (ds @ literal, drop (length literal) rest) else None)"

definition partial_failure_prefix :: "string \<Rightarrow> string option" where
  "partial_failure_prefix s =
     (case digits_then ''/'' s of
        None \<Rightarrow> None
      | Some (p1, s1) \<Rightarrow>
          (case digits_then '' completed, '' s1 of
             None \<Rightarrow> None
           | Some (p2, s2) \<Rightarrow>
               (case digits_then '' failed: '' s2 of
                  None \<Rightarrow> None
                | Some (p3, s3) \<Rightarrow> Some (p1 @ p2 @ p3))))"

definition musician_error :: "string option \<Rightarrow> string option \<Rightarrow> string option" where
  "musician_error error error_type =
     (case error of
        None \<Rightarrow> None
      | Some err \<Rightarrow>
          if error_type \<noteq> Some ''generation_error'' \<or> err = [] then Some err
          else (let prefix = (case partial_failure_prefix err of None \<Rightarrow> [] | Some p \<Rightarrow> p);
                    cause = drop (length prefix) err
                in if cause \<in> generation_error_messages \<union> {JOB_ERROR_GENERATION_FAILED} then Some err
                   else Some (prefix @ JOB_ERROR_GENERATION_FAILED)))"

subsection \<open>No worker text reaches the musician\<close>

definition PUBLIC_MESSAGES :: "string set" where
  "PUBLIC_MESSAGES = generation_error_messages
     \<union> {JOB_ERROR_GENERATION_FAILED, JOB_ERROR_GPU_OUT_OF_MEMORY, JOB_ERROR_GENERATION_UNAVAILABLE}"

lemma first_message_listed: "first_message table e \<in> insert JOB_ERROR_UNEXPECTED (set (map snd table))"
  by (induction table e rule: first_message.induct) auto

lemma sanitized: "\<not> is_worker_task_failed e \<Longrightarrow> sanitize_error e \<in> generation_error_messages"
  using first_message_listed [of USER_FACING_ERRORS e]
  by (auto simp: sanitize_error_def sanitize_generation_setup_error_def default_error_message_def generation_error_messages_def)

lemma failure_message_public:
  "gf_message (generation_failure_of e) \<in> PUBLIC_MESSAGES
   \<and> (gf_error_type (generation_failure_of e) = ''generation_error'' \<longrightarrow>
        gf_message (generation_failure_of e) \<in> generation_error_messages \<union> {JOB_ERROR_GENERATION_FAILED})"
  using sanitized [of e]
  by (auto simp: generation_failure_of_def Let_def PUBLIC_MESSAGES_def GPU_OUT_OF_MEMORY_def
      split: job_exn.splits sched_error.splits)

lemma digit_is_digit: "d < 10 \<Longrightarrow> is_digit (digit d)"
  by (simp add: is_digit_def digit_def code_def)

lemma show_nat_digits: "show_nat n \<noteq> [] \<and> (\<forall>c \<in> set (show_nat n). is_digit c)"
proof (induction n rule: show_nat.induct)
  case (1 n)
  then show ?case by (subst (1 2) show_nat.simps) (auto simp: digit_is_digit)
qed

lemma digits_then_show:
  assumes "literal = c # cs" and "\<not> is_digit c"
  shows "digits_then literal (show_nat n @ literal @ rest) = Some (show_nat n @ literal, rest)"
proof -
  have "takeWhile is_digit (show_nat n @ literal @ rest) = show_nat n"
    "dropWhile is_digit (show_nat n @ literal @ rest) = literal @ rest"
    using show_nat_digits [of n] assms by (simp_all add: takeWhile_append2 dropWhile_append2)
  then show ?thesis using show_nat_digits [of n] by (simp add: digits_then_def startswith_def)
qed

lemma partial_prefix_of_partial_error:
  "partial_failure_prefix (partial_failure_error completed count message) =
     Some (show_nat completed @ ''/'' @ show_nat count @ '' completed, '' @ show_nat (count - completed) @ '' failed: '')"
proof -
  have slash: "digits_then ''/'' (show_nat n @ ''/'' @ rest) = Some (show_nat n @ ''/'', rest)" for n rest
    by (rule digits_then_show) (auto simp: is_digit_def code_def)
  have completed: "digits_then '' completed, '' (show_nat n @ '' completed, '' @ rest) = Some (show_nat n @ '' completed, '', rest)" for n rest
    by (rule digits_then_show) (auto simp: is_digit_def code_def)
  have failed: "digits_then '' failed: '' (show_nat n @ '' failed: '' @ rest) = Some (show_nat n @ '' failed: '', rest)" for n rest
    by (rule digits_then_show) (auto simp: is_digit_def code_def)
  show ?thesis
    unfolding partial_failure_prefix_def partial_failure_error_def
    using slash [of completed "show_nat count @ '' completed, '' @ show_nat (count - completed) @ '' failed: '' @ message"]
      completed [of count "show_nat (count - completed) @ '' failed: '' @ message"] failed [of "count - completed" message]
    by simp
qed

lemma public_no_prefix: "m \<in> PUBLIC_MESSAGES \<Longrightarrow> partial_failure_prefix m = None"
proof -
  have "\<not> is_digit (hd m) \<and> m \<noteq> [] \<Longrightarrow> partial_failure_prefix m = None"
    by (cases m) (simp_all add: partial_failure_prefix_def digits_then_def)
  moreover assume "m \<in> PUBLIC_MESSAGES"
  then have "\<not> is_digit (hd m) \<and> m \<noteq> []"
    by (auto simp: PUBLIC_MESSAGES_def generation_error_messages_def GENERATION_SETUP_MESSAGES_def USER_FACING_ERRORS_def
        job_error_defs is_digit_def code_def)
  ultimately show ?thesis by blast
qed

lemma startswith_prefix: "startswith p s \<Longrightarrow> s = p @ drop (length p) s"
  by (metis startswith_def append_take_drop_id)

lemma digits_then_split: "digits_then literal s = Some (p, r) \<Longrightarrow> s = p @ r"
  unfolding digits_then_def Let_def
  by (auto split: if_splits dest!: startswith_prefix; metis append_assoc takeWhile_dropWhile_id)

lemma partial_prefix_split: "partial_failure_prefix s = Some p \<Longrightarrow> \<exists>r. s = p @ r"
  by (auto simp: partial_failure_prefix_def split: option.splits dest!: digits_then_split)

text \<open>What a musician reads of a failed generation is one of the fixed messages, whatever the worker
  or a library wrote: a failure is stored under a public message, the read shows a stored failure or
  partial failure unchanged, and of a legacy text with that type it shows at most the counts.
\<close>

theorem musician_sees_public_text:
  "gf_message (generation_failure_of e) \<in> PUBLIC_MESSAGES
   \<and> musician_error (Some (gf_message (generation_failure_of e))) (Some (gf_error_type (generation_failure_of e)))
     = Some (gf_message (generation_failure_of e))
   \<and> musician_error (Some (partial_failure_error completed count (gf_message (generation_failure_of e))))
       (Some (gf_error_type (generation_failure_of e)))
     = Some (partial_failure_error completed count (gf_message (generation_failure_of e)))
   \<and> (\<exists>counts cause. musician_error (Some legacy) (Some ''generation_error'') = Some (counts @ cause)
       \<and> counts \<in> {[], the (partial_failure_prefix legacy)} \<and> cause \<in> insert [] PUBLIC_MESSAGES)"
proof -
  let ?m = "gf_message (generation_failure_of e)" and ?t = "gf_error_type (generation_failure_of e)"
  note public = failure_message_public [of e]
  have whole: "musician_error (Some ?m) (Some ?t) = Some ?m"
    using public public_no_prefix [of ?m] by (auto simp: musician_error_def PUBLIC_MESSAGES_def)
  have partial: "musician_error (Some (partial_failure_error completed count ?m)) (Some ?t)
      = Some (partial_failure_error completed count ?m)"
  proof -
    obtain p where "partial_failure_prefix (partial_failure_error completed count ?m) = Some p"
      and "partial_failure_error completed count ?m = p @ ?m"
      using partial_prefix_of_partial_error by (auto simp: partial_failure_error_def)
    then show ?thesis using public by (auto simp: musician_error_def)
  qed
  have "\<exists>counts cause. musician_error (Some legacy) (Some ''generation_error'') = Some (counts @ cause)
       \<and> counts \<in> {[], the (partial_failure_prefix legacy)} \<and> cause \<in> insert [] PUBLIC_MESSAGES"
  proof (cases "partial_failure_prefix legacy")
    case None
    then show ?thesis
      by (intro exI [of _ "[]"] exI [of _ "the (musician_error (Some legacy) (Some ''generation_error''))"])
        (auto simp: musician_error_def PUBLIC_MESSAGES_def)
  next
    case (Some p)
    then obtain r where "legacy = p @ r" using partial_prefix_split by blast
    then show ?thesis using Some
      by (cases "legacy = []") (auto simp: musician_error_def PUBLIC_MESSAGES_def)
  qed
  then show ?thesis using public whole partial by blast
qed

end
