(* ===== verification/Resource_Events.thy ===== *)
theory Resource_Events
  imports Py_Strings "HOL-Library.Char_ord" "HOL-Library.List_Lexorder"
begin

text \<open>
  The ledger of resource events and its replayable stream (\<open>db/queries/resource_events.py\<close>,
  \<open>resource_event_api.py\<close>).  The ledger numbers the events of each user; a browser that reconnects
  names the last number it saw and gets the events after it, or one \<open>resync\<close> when they are gone.  The
  connection is a function of what it reads: \<open>clk\<close> has the readings of the monotonic clock in order, a
  page is the pair of ledgers its two queries see, or nothing when the deadline passed first.  Leases,
  rate limits and the text of the frames are left out.
\<close>

subsection \<open>The ledger\<close>

record resource_event =
  ev_user_id :: string
  ev_sequence :: int
  ev_resource_id :: string
  ev_generation_id :: string
  ev_created_at :: timestamp

record event_ledger =
  el_cursors :: "(string, int) dict"
  el_events :: "resource_event list"

definition ensure_resource_event_cursor :: "string \<Rightarrow> event_ledger \<Rightarrow> event_ledger" where
  "ensure_resource_event_cursor user_id L =
     (if map_of (el_cursors L) user_id = None then L\<lparr>el_cursors := dict_set user_id 0 (el_cursors L)\<rparr> else L)"

definition get_resource_event_high_water_mark :: "string \<Rightarrow> event_ledger \<Rightarrow> int" where
  "get_resource_event_high_water_mark user_id L =
     (case map_of (el_cursors L) user_id of None \<Rightarrow> 0 | Some value \<Rightarrow> value)"

text \<open>\<open>None\<close> is the violation of a unique constraint: the transaction that asked for the event fails.\<close>

definition create_generation_created_event ::
    "timestamp \<Rightarrow> string \<Rightarrow> string \<Rightarrow> string \<Rightarrow> event_ledger \<Rightarrow> event_ledger option" where
  "create_generation_created_event now user_id song_id generation_id L =
     (let L1 = ensure_resource_event_cursor user_id L;
          sequence = get_resource_event_high_water_mark user_id L1 + 1;
          event = \<lparr>ev_user_id = user_id, ev_sequence = sequence, ev_resource_id = song_id,
                   ev_generation_id = generation_id, ev_created_at = now\<rparr>
      in if \<exists>e \<in> set (el_events L). ev_generation_id e = generation_id
              \<or> ev_user_id e = user_id \<and> ev_sequence e = sequence
         then None
         else Some \<lparr>el_cursors = dict_set user_id sequence (el_cursors L1), el_events = el_events L @ [event]\<rparr>)"

definition get_oldest_resource_event_sequence :: "string \<Rightarrow> event_ledger \<Rightarrow> int option" where
  "get_oldest_resource_event_sequence user_id L =
     (case map ev_sequence (filter (\<lambda>e. ev_user_id e = user_id) (el_events L)) of
        [] \<Rightarrow> None
      | s # ss \<Rightarrow> Some (foldl min s ss))"

text \<open>A limit that is not positive raises \<open>ValueError\<close>.\<close>

definition list_resource_events_after ::
    "string \<Rightarrow> int \<Rightarrow> int option \<Rightarrow> nat option \<Rightarrow> event_ledger \<Rightarrow> resource_event list option" where
  "list_resource_events_after user_id sequence through limit L =
     (let rows = sort_key ev_sequence (filter (\<lambda>e. ev_user_id e = user_id \<and> ev_sequence e > sequence
                   \<and> (case through of None \<Rightarrow> True | Some t \<Rightarrow> ev_sequence e \<le> t)) (el_events L))
      in case limit of
           None \<Rightarrow> Some rows
         | Some n \<Rightarrow> if n = 0 then None else Some (take n rows))"

definition delete_resource_events_before :: "timestamp \<Rightarrow> event_ledger \<Rightarrow> event_ledger" where
  "delete_resource_events_before cutoff L =
     L\<lparr>el_events := filter (\<lambda>e. \<not> ev_created_at e < cutoff) (el_events L)\<rparr>"

subsection \<open>The browser's cursor\<close>

definition POSTGRES_BIGINT_MAX :: int where "POSTGRES_BIGINT_MAX = 2 ^ 63 - 1"

text \<open>\<open>str(POSTGRES_BIGINT_MAX)\<close>.\<close>

definition max_bigint :: string where "max_bigint = ''9223372036854775807''"

definition LAST_EVENT_ID_INVALID :: string where
  "LAST_EVENT_ID_INVALID = ''Last-Event-ID must be a non-negative decimal''"
definition LAST_EVENT_ID_OUT_OF_RANGE :: string where
  "LAST_EVENT_ID_OUT_OF_RANGE = ''Last-Event-ID is beyond the event sequence range''"

definition ascii_digit :: "char \<Rightarrow> bool" where
  "ascii_digit c \<longleftrightarrow> 48 \<le> code c \<and> code c \<le> 57"

text \<open>\<open>int(...)\<close> of a string of digits.\<close>

definition digit_value :: "char \<Rightarrow> int" where
  "digit_value c = int (code c - 48)"

definition decimal_value :: "string \<Rightarrow> int" where
  "decimal_value s = foldl (\<lambda>n c. 10 * n + digit_value c) 0 s"

definition parse_last_event_id :: "string option \<Rightarrow> (nat \<times> string) + int option" where
  "parse_last_event_id raw =
     (case raw of
        None \<Rightarrow> Inr None
      | Some s \<Rightarrow>
          if s = [] then Inr None
          else if \<not> list_all ascii_digit s then Inl (400, LAST_EVENT_ID_INVALID)
          else (let stripped = dropWhile (\<lambda>c. c = CHR ''0'') s;
                    canonical = (if stripped = [] then ''0'' else stripped)
                in if length canonical > length max_bigint
                      \<or> (length canonical = length max_bigint \<and> canonical > max_bigint)
                   then Inl (400, LAST_EVENT_ID_OUT_OF_RANGE)
                   else Inr (Some (decimal_value canonical))))"

definition has_replay_gap :: "int \<Rightarrow> int \<Rightarrow> int option \<Rightarrow> bool" where
  "has_replay_gap last_event_id high_water_mark oldest_retained \<longleftrightarrow>
     last_event_id > high_water_mark
     \<or> (last_event_id < high_water_mark
        \<and> (case oldest_retained of None \<Rightarrow> True | Some oldest \<Rightarrow> last_event_id < oldest - 1))"

lemma digit_value_bounds: "ascii_digit c \<Longrightarrow> 0 \<le> digit_value c \<and> digit_value c \<le> 9"
  by (simp add: ascii_digit_def digit_value_def)

lemma digit_value_order:
  assumes "ascii_digit c" "ascii_digit d"
  shows "c < d \<longleftrightarrow> digit_value c < digit_value d" and "c = d \<longleftrightarrow> digit_value c = digit_value d"
proof -
  have less: "c < d \<longleftrightarrow> code c < code d" and eq: "c = d \<longleftrightarrow> code c = code d"
    by (simp_all add: code_def less_char_def)
  show "c < d \<longleftrightarrow> digit_value c < digit_value d" "c = d \<longleftrightarrow> digit_value c = digit_value d"
    unfolding less eq using assms by (auto simp: ascii_digit_def digit_value_def)
qed

lemma zero_digit [simp]: "ascii_digit (CHR ''0'')" "digit_value (CHR ''0'') = 0"
  by (simp_all add: ascii_digit_def digit_value_def code_def)

lemma decimal_value_acc: "foldl (\<lambda>n c. 10 * n + digit_value c) n s
    = n * 10 ^ length s + foldl (\<lambda>n c. 10 * n + digit_value c) 0 s"
proof (induction s arbitrary: n)
  case (Cons c s)
  show ?case
    using Cons [of "10 * n + digit_value c"] Cons [of "digit_value c"] by (simp add: algebra_simps)
qed simp

lemma decimal_value_simps [simp]:
  "decimal_value [] = 0" "decimal_value (c # s) = digit_value c * 10 ^ length s + decimal_value s"
  using decimal_value_acc [of "digit_value c" s] by (simp_all add: decimal_value_def)

lemma decimal_value_bounds: "list_all ascii_digit s \<Longrightarrow> 0 \<le> decimal_value s \<and> decimal_value s < 10 ^ length s"
proof (induction s)
  case (Cons c s)
  then have s: "0 \<le> decimal_value s" "decimal_value s < 10 ^ length s"
    and c: "0 \<le> digit_value c" "digit_value c \<le> 9"
    using digit_value_bounds [of c] by simp_all
  have "digit_value c * 10 ^ length s \<le> 9 * 10 ^ length s" using c(2) by (rule mult_right_mono) simp
  moreover have "0 \<le> digit_value c * 10 ^ length s" using c(1) by simp
  ultimately show ?case using s unfolding decimal_value_simps length_Cons power_Suc by (intro conjI; linarith)
qed simp

lemma decimal_value_at_least:
  assumes "list_all ascii_digit (c # s)" and "c \<noteq> CHR ''0''"
  shows "10 ^ length s \<le> decimal_value (c # s)"
proof -
  have "1 \<le> digit_value c"
    using assms digit_value_order(2) [of c "CHR ''0''"] digit_value_bounds [of c] by simp
  then have "1 * 10 ^ length s \<le> digit_value c * 10 ^ length s" by (rule mult_right_mono) simp
  moreover have "0 \<le> decimal_value s" using decimal_value_bounds [of s] assms(1) by simp
  ultimately show ?thesis unfolding decimal_value_simps by linarith
qed

text \<open>Among digit strings of the same length the order of strings is the order of numbers.\<close>

lemma decimal_order:
  "length s = length t \<Longrightarrow> list_all ascii_digit s \<Longrightarrow> list_all ascii_digit t \<Longrightarrow>
     s < t \<longleftrightarrow> decimal_value s < decimal_value t"
proof (induction s t rule: list_induct2)
  case (Cons c s d t)
  let ?p = "(10::int) ^ length t"
  have s: "0 \<le> decimal_value s" "decimal_value s < ?p" and t: "0 \<le> decimal_value t" "decimal_value t < ?p"
    using decimal_value_bounds [of s] decimal_value_bounds [of t] Cons by simp_all
  have chars: "c < d \<longleftrightarrow> digit_value c < digit_value d" "c = d \<longleftrightarrow> digit_value c = digit_value d"
    using Cons(3,4) digit_value_order [of c d] by simp_all
  have step: "a * ?p + x < b * ?p + y" if "a < b" "x < ?p" "0 \<le> y" for a b x y :: int
  proof -
    have "(a + 1) * ?p \<le> b * ?p" using that(1) by (intro mult_right_mono) simp_all
    then show ?thesis using that by (simp add: algebra_simps)
  qed
  show ?case
  proof (cases "digit_value c" "digit_value d" rule: linorder_cases)
    case less
    then show ?thesis using step [OF less s(2) t(1)] chars Cons(1) by simp
  next
    case equal
    then show ?thesis using chars Cons by simp
  next
    case greater
    then show ?thesis using step [OF greater t(2) s(1)] chars Cons(1) by simp
  qed
qed simp

lemma decimal_value_strip: "decimal_value (dropWhile (\<lambda>c. c = CHR ''0'') s) = decimal_value s"
  by (induction s) simp_all

lemma max_bigint: "decimal_value max_bigint = POSTGRES_BIGINT_MAX" "list_all ascii_digit max_bigint"
    "length max_bigint = 19"
  by code_simp+

text \<open>C11: the browser's cursor is read as its decimal value, whatever its length and its leading zeros, and is refused
  exactly when it is not a decimal or when the value is beyond the largest number of the sequence column:
  comparing the digit strings decides the bound.\<close>

theorem cursor_fits_sequence_column:
  "parse_last_event_id (Some s) =
     (if s = [] then Inr None
      else if \<not> list_all ascii_digit s then Inl (400, LAST_EVENT_ID_INVALID)
      else if decimal_value s > POSTGRES_BIGINT_MAX then Inl (400, LAST_EVENT_ID_OUT_OF_RANGE)
      else Inr (Some (decimal_value s)))"
proof (cases "s \<noteq> [] \<and> list_all ascii_digit s")
  case True
  define stripped where "stripped = dropWhile (\<lambda>c. c = CHR ''0'') s"
  define canonical where "canonical = (if stripped = [] then ''0'' else stripped)"
  have digits: "list_all ascii_digit canonical"
    using True by (auto simp: canonical_def stripped_def list_all_iff dest!: set_dropWhileD)
  have val: "decimal_value canonical = decimal_value s"
    unfolding stripped_def [symmetric] decimal_value_strip [of s, folded stripped_def, symmetric]
    by (simp add: canonical_def)
  have bound: "length canonical > length max_bigint \<or> length canonical = length max_bigint \<and> canonical > max_bigint
      \<longleftrightarrow> decimal_value s > POSTGRES_BIGINT_MAX"
  proof (cases "length canonical" "length max_bigint" rule: linorder_cases)
    case less
    then have "(10::int) ^ length canonical \<le> 10 ^ 18" by (intro power_increasing) (simp_all add: max_bigint(3))
    then have "decimal_value s < 10 ^ 18" using decimal_value_bounds [OF digits] by (simp add: val)
    then show ?thesis using less by (simp add: POSTGRES_BIGINT_MAX_def)
  next
    case equal
    then show ?thesis using decimal_order [OF equal [symmetric] max_bigint(2) digits] by (simp add: val max_bigint(1))
  next
    case greater
    then obtain c cs where c: "stripped = c # cs" "canonical = c # cs" by (cases stripped) (auto simp: canonical_def max_bigint(3))
    then have "c \<noteq> CHR ''0''" using hd_dropWhile [of "\<lambda>c. c = CHR ''0''" s] by (auto simp: stripped_def)
    then have "10 ^ length cs \<le> decimal_value canonical" using decimal_value_at_least digits c by metis
    moreover have "(10::int) ^ 19 \<le> 10 ^ length cs" using greater c by (intro power_increasing) (simp_all add: max_bigint(3))
    ultimately have "10 ^ 19 \<le> decimal_value s" using val by simp
    then show ?thesis using greater by (simp add: POSTGRES_BIGINT_MAX_def)
  qed
  have "parse_last_event_id (Some s) =
      (if length canonical > length max_bigint \<or> length canonical = length max_bigint \<and> canonical > max_bigint
       then Inl (400, LAST_EVENT_ID_OUT_OF_RANGE) else Inr (Some (decimal_value canonical)))"
    using True by (simp only: parse_last_event_id_def option.case Let_def canonical_def [symmetric] stripped_def [symmetric]) simp
  also have "\<dots> = (if decimal_value s > POSTGRES_BIGINT_MAX then Inl (400, LAST_EVENT_ID_OUT_OF_RANGE)
      else Inr (Some (decimal_value s)))"
    by (simp only: bound val)
  finally show ?thesis using True by simp
qed (auto simp: parse_last_event_id_def)

subsection \<open>The stream\<close>

definition RESOURCE_EVENT_STREAM_CONNECTION_SECONDS :: rat where "RESOURCE_EVENT_STREAM_CONNECTION_SECONDS = 60"
definition RESOURCE_EVENT_STREAM_PAGE_SIZE :: nat where "RESOURCE_EVENT_STREAM_PAGE_SIZE = 100"
definition SSE_HEARTBEAT_SECONDS :: rat where "SSE_HEARTBEAT_SECONDS = 15"

datatype stream_frame =
    Hello_Frame int int               \<comment> \<open>high water mark and event id\<close>
  | Resync_Frame int
  | Created_Frame resource_event
  | Heartbeat_Frame

record stream_page =
  pg_high_water_mark :: int
  pg_events :: "resource_event list"

record stream_state =
  rs_cursor :: int
  rs_replay_through :: "int option"
  rs_resync_sent :: bool
  rs_last_emit :: rat
  rs_reads :: nat

type_synonym clock = "nat \<Rightarrow> rat"

definition monotonic :: "clock \<Rightarrow> stream_state \<Rightarrow> rat \<times> stream_state" where
  "monotonic clk st = (clk (rs_reads st), st\<lparr>rs_reads := Suc (rs_reads st)\<rparr>)"

text \<open>Under READ COMMITTED the two queries of a page may see different ledgers.\<close>

definition read_event_page ::
    "string \<Rightarrow> int \<Rightarrow> int option \<Rightarrow> event_ledger \<times> event_ledger \<Rightarrow> stream_page" where
  "read_event_page user_id cursor through ledgers =
     (let high_water_mark = get_resource_event_high_water_mark user_id (fst ledgers);
          upper_bound = (case through of None \<Rightarrow> high_water_mark | Some t \<Rightarrow> t)
      in \<lparr>pg_high_water_mark = high_water_mark,
          pg_events = (case list_resource_events_after user_id cursor (Some upper_bound)
                              (Some RESOURCE_EVENT_STREAM_PAGE_SIZE) (snd ledgers) of
                         None \<Rightarrow> [] | Some events \<Rightarrow> events)\<rparr>)"

definition is_contiguous :: "resource_event list \<Rightarrow> int \<Rightarrow> bool" where
  "is_contiguous events cursor \<longleftrightarrow> map ev_sequence events = map (\<lambda>i. cursor + 1 + int i) [0..<length events]"

definition resync_resource_stream ::
    "clock \<Rightarrow> rat \<Rightarrow> int \<Rightarrow> stream_state \<Rightarrow> stream_frame option \<times> stream_state" where
  "resync_resource_stream clk deadline target_high st =
     (if rs_resync_sent st then (None, st)
      else (case monotonic clk st of (now, st1) \<Rightarrow>
              if now \<ge> deadline then (None, st1)
              else (case monotonic clk st1 of (emit, st2) \<Rightarrow>
                     (Some (Resync_Frame target_high),
                      st2\<lparr>rs_cursor := target_high, rs_replay_through := None, rs_resync_sent := True,
                          rs_last_emit := emit\<rparr>))))"

definition finish_replay :: "stream_state \<Rightarrow> stream_state" where
  "finish_replay st =
     (case rs_replay_through st of
        Some t \<Rightarrow> if rs_cursor st \<ge> t then st\<lparr>rs_replay_through := None\<rparr> else st
      | None \<Rightarrow> st)"

text \<open>\<open>None\<close>: the connection ends.\<close>

type_synonym page_result = "(stream_frame list \<times> bool) option \<times> stream_state"

definition resource_gap_frame :: "clock \<Rightarrow> rat \<Rightarrow> int \<Rightarrow> stream_state \<Rightarrow> page_result" where
  "resource_gap_frame clk deadline target_high st =
     (case resync_resource_stream clk deadline target_high st of
        (None, st') \<Rightarrow> (None, st')
      | (Some resync, st') \<Rightarrow> (Some ([resync], False), st'))"

fun event_frames :: "clock \<Rightarrow> rat \<Rightarrow> resource_event list \<Rightarrow> stream_state \<Rightarrow> stream_frame list option \<times> stream_state" where
  "event_frames clk deadline [] st = (Some [], st)"
| "event_frames clk deadline (e # es) st =
     (case monotonic clk st of (now, st1) \<Rightarrow>
        if now \<ge> deadline then (None, st1)
        else (case monotonic clk (st1\<lparr>rs_cursor := ev_sequence e\<rparr>) of (emit, st2) \<Rightarrow>
               (case event_frames clk deadline es (st2\<lparr>rs_last_emit := emit\<rparr>) of
                  (None, st3) \<Rightarrow> (None, st3)
                | (Some frames, st3) \<Rightarrow> (Some (Created_Frame e # frames), st3))))"

definition resource_event_frames :: "clock \<Rightarrow> rat \<Rightarrow> resource_event list \<Rightarrow> stream_state \<Rightarrow> page_result" where
  "resource_event_frames clk deadline events st =
     (case event_frames clk deadline events st of
        (None, st') \<Rightarrow> (None, st')
      | (Some frames, st') \<Rightarrow> (Some (frames, False), finish_replay st'))"

definition resource_idle_frames :: "clock \<Rightarrow> rat \<Rightarrow> stream_state \<Rightarrow> page_result" where
  "resource_idle_frames clk deadline st =
     (case monotonic clk (finish_replay st) of (now, st1) \<Rightarrow>
        if now \<ge> deadline then (None, st1)
        else if now - rs_last_emit st1 < SSE_HEARTBEAT_SECONDS then (Some ([], True), st1)
        else (Some ([Heartbeat_Frame], True), st1\<lparr>rs_last_emit := now\<rparr>))"

definition resource_page_frames :: "clock \<Rightarrow> rat \<Rightarrow> stream_page \<Rightarrow> stream_state \<Rightarrow> page_result" where
  "resource_page_frames clk deadline page st =
     (let target_high = (case rs_replay_through st of Some t \<Rightarrow> t | None \<Rightarrow> pg_high_water_mark page)
      in if rs_cursor st < target_high \<and> (pg_events page = [] \<or> \<not> is_contiguous (pg_events page) (rs_cursor st))
         then resource_gap_frame clk deadline target_high st
         else if pg_events page \<noteq> [] then resource_event_frames clk deadline (pg_events page) st
         else resource_idle_frames clk deadline st)"

text \<open>The \<open>while\<close> loop over the pages it reads; a page of \<open>None\<close> is a read the deadline cut off.\<close>

fun stream_pages ::
    "clock \<Rightarrow> rat \<Rightarrow> string \<Rightarrow> (event_ledger \<times> event_ledger) option list \<Rightarrow> stream_state
     \<Rightarrow> stream_frame list \<times> stream_state" where
  "stream_pages clk deadline user_id [] st = ([], st)"
| "stream_pages clk deadline user_id (read # reads) st =
     (case monotonic clk st of (now, st1) \<Rightarrow>
        if now \<ge> deadline then ([], st1)
        else (case monotonic clk st1 of (before, st2) \<Rightarrow>
          if deadline - before \<le> 0 then ([], st2)
          else (case read of
            None \<Rightarrow> ([], st2)
          | Some ledgers \<Rightarrow>
              (case resource_page_frames clk deadline
                      (read_event_page user_id (rs_cursor st2) (rs_replay_through st2) ledgers) st2 of
                 (None, st3) \<Rightarrow> ([], st3)
               | (Some (frames, False), st3) \<Rightarrow>
                   (case stream_pages clk deadline user_id reads st3 of (rest, st4) \<Rightarrow> (frames @ rest, st4))
               | (Some (frames, True), st3) \<Rightarrow>
                   (case monotonic clk st3 of (now', st4) \<Rightarrow>
                      if deadline - now' \<le> 0 then (frames, st4)
                      else (case stream_pages clk deadline user_id reads st4 of (rest, st5) \<Rightarrow> (frames @ rest, st5)))))))"

definition initialize_resource_stream ::
    "clock \<Rightarrow> int option \<Rightarrow> int \<Rightarrow> int option \<Rightarrow> rat \<Rightarrow> nat \<Rightarrow> stream_frame list \<times> stream_state" where
  "initialize_resource_stream clk last_event_id high_water_mark oldest_retained deadline reads =
     (let cursor = (case last_event_id of None \<Rightarrow> high_water_mark | Some i \<Rightarrow> i);
          st = \<lparr>rs_cursor = cursor,
                rs_replay_through = (case last_event_id of None \<Rightarrow> None | Some _ \<Rightarrow> Some high_water_mark),
                rs_resync_sent = False, rs_last_emit = clk reads, rs_reads = Suc reads\<rparr>;
          hello = Hello_Frame high_water_mark cursor
      in if last_event_id = None \<or> \<not> has_replay_gap cursor high_water_mark oldest_retained then ([hello], st)
         else (case resync_resource_stream clk deadline high_water_mark st of
                 (None, st') \<Rightarrow> ([hello], st')
               | (Some resync, st') \<Rightarrow> ([hello, resync], st')))"

definition resource_event_generator ::
    "clock \<Rightarrow> string \<Rightarrow> int option \<Rightarrow> event_ledger \<times> event_ledger \<Rightarrow> (event_ledger \<times> event_ledger) option list
     \<Rightarrow> stream_frame list \<times> stream_state" where
  "resource_event_generator clk user_id last_event_id L reads =
     (let deadline = clk 0 + RESOURCE_EVENT_STREAM_CONNECTION_SECONDS
      in case initialize_resource_stream clk last_event_id (get_resource_event_high_water_mark user_id (fst L))
                (get_oldest_resource_event_sequence user_id (snd L)) deadline 1 of
           (frames, st) \<Rightarrow>
             (case stream_pages clk deadline user_id reads st of (rest, st') \<Rightarrow> (frames @ rest, st')))"

subsection \<open>The ledger numbers without repetition\<close>

definition ledger_ok :: "event_ledger \<Rightarrow> bool" where
  "ledger_ok L \<longleftrightarrow> distinct (map (\<lambda>e. (ev_user_id e, ev_sequence e)) (el_events L))
     \<and> (\<forall>e \<in> set (el_events L). 0 < ev_sequence e
          \<and> ev_sequence e \<le> get_resource_event_high_water_mark (ev_user_id e) L)
     \<and> (\<forall>u. 0 \<le> get_resource_event_high_water_mark u L)"

lemma high_ensure [simp]: "get_resource_event_high_water_mark u (ensure_resource_event_cursor v L) = get_resource_event_high_water_mark u L"
  by (simp add: ensure_resource_event_cursor_def get_resource_event_high_water_mark_def map_of_dict_set)

lemma events_ensure [simp]: "el_events (ensure_resource_event_cursor v L) = el_events L"
  by (simp add: ensure_resource_event_cursor_def)

lemma created_event:
  assumes "create_generation_created_event now u song gen L = Some L'"
  shows "\<exists>e. el_events L' = el_events L @ [e] \<and> ev_user_id e = u \<and> ev_generation_id e = gen
      \<and> ev_sequence e = get_resource_event_high_water_mark u L + 1"
    and "get_resource_event_high_water_mark v L' = get_resource_event_high_water_mark v L + (if v = u then 1 else 0)"
  using assms
  by (auto simp: create_generation_created_event_def Let_def split: if_splits)
    (simp_all add: get_resource_event_high_water_mark_def map_of_dict_set ensure_resource_event_cursor_def)

lemma event_create_ok:
  assumes "ledger_ok L" and "create_generation_created_event now u song gen L = Some L'"
  shows "ledger_ok L'"
proof -
  obtain e where e: "el_events L' = el_events L @ [e]" "ev_user_id e = u"
      "ev_sequence e = get_resource_event_high_water_mark u L + 1"
    using created_event(1) [OF assms(2)] by blast
  have "(ev_user_id e, ev_sequence e) \<notin> (\<lambda>e. (ev_user_id e, ev_sequence e)) ` set (el_events L)"
    using assms(1) e by (fastforce simp: ledger_ok_def)
  then show ?thesis using assms(1) e unfolding ledger_ok_def
    by (auto simp: created_event(2) [OF assms(2)] intro: order_trans)
qed

lemma event_delete_ok: "ledger_ok L \<Longrightarrow> ledger_ok (delete_resource_events_before cutoff L)"
  by (auto simp: ledger_ok_def delete_resource_events_before_def get_resource_event_high_water_mark_def
      intro: distinct_map_filter)

subsection \<open>What a page holds\<close>

lemma listed:
  assumes "list_resource_events_after u c (Some t) (Some n) L = Some es"
  shows "set es \<subseteq> {e \<in> set (el_events L). ev_user_id e = u \<and> c < ev_sequence e \<and> ev_sequence e \<le> t}"
  using assms by (auto simp: list_resource_events_after_def Let_def split: if_splits dest!: in_set_takeD)

lemma page_events:
  assumes "page = read_event_page u c through ledgers" and "e \<in> set (pg_events page)"
  shows "e \<in> set (el_events (snd ledgers)) \<and> ev_user_id e = u \<and> c < ev_sequence e
     \<and> ev_sequence e \<le> (case through of Some t \<Rightarrow> t | None \<Rightarrow> pg_high_water_mark page)"
  using assms
  by (auto simp: read_event_page_def Let_def split: option.splits dest!: listed)

subsection \<open>The browser\<close>

text \<open>What the browser's cursor is after some frames; whether the frames skip nothing from a cursor on.\<close>

fun client_cursor :: "int \<Rightarrow> stream_frame list \<Rightarrow> int" where
  "client_cursor c [] = c"
| "client_cursor c (Hello_Frame h i # fs) = client_cursor i fs"
| "client_cursor c (Resync_Frame h # fs) = client_cursor h fs"
| "client_cursor c (Created_Frame e # fs) = client_cursor (ev_sequence e) fs"
| "client_cursor c (Heartbeat_Frame # fs) = client_cursor c fs"

fun skips_nothing :: "int \<Rightarrow> stream_frame list \<Rightarrow> bool" where
  "skips_nothing c [] \<longleftrightarrow> True"
| "skips_nothing c (Hello_Frame h i # fs) \<longleftrightarrow> i = c \<and> skips_nothing c fs"
| "skips_nothing c (Resync_Frame h # fs) \<longleftrightarrow> skips_nothing h fs"
| "skips_nothing c (Created_Frame e # fs) \<longleftrightarrow> ev_sequence e = c + 1 \<and> skips_nothing (c + 1) fs"
| "skips_nothing c (Heartbeat_Frame # fs) \<longleftrightarrow> skips_nothing c fs"

fun created_frames :: "stream_frame list \<Rightarrow> resource_event list" where
  "created_frames [] = []"
| "created_frames (Created_Frame e # fs) = e # created_frames fs"
| "created_frames (_ # fs) = created_frames fs"

definition resyncs :: "stream_frame list \<Rightarrow> nat" where
  "resyncs fs = length (filter (\<lambda>f. case f of Resync_Frame _ \<Rightarrow> True | _ \<Rightarrow> False) fs)"

lemma resyncs_simps [simp]:
  "resyncs [] = 0" "resyncs (Resync_Frame h # fs) = Suc (resyncs fs)" "resyncs (Created_Frame e # fs) = resyncs fs"
  "resyncs (Hello_Frame h i # fs) = resyncs fs" "resyncs (Heartbeat_Frame # fs) = resyncs fs"
  "resyncs (fs @ gs) = resyncs fs + resyncs gs"
  by (simp_all add: resyncs_def)

lemma client_append [simp]: "client_cursor c (fs @ gs) = client_cursor (client_cursor c fs) gs"
  by (induction c fs rule: client_cursor.induct) auto

lemma skips_append [simp]: "skips_nothing c (fs @ gs) \<longleftrightarrow> skips_nothing c fs \<and> skips_nothing (client_cursor c fs) gs"
  by (induction c fs rule: skips_nothing.induct) auto

lemma created_append [simp]: "created_frames (fs @ gs) = created_frames fs @ created_frames gs"
  by (induction fs rule: created_frames.induct) auto

lemma created_set: "set (created_frames fs) = {e. Created_Frame e \<in> set fs}"
  by (induction fs rule: created_frames.induct) auto

lemma skips_take: "skips_nothing c fs \<Longrightarrow> skips_nothing c (take n fs)"
  by (metis append_take_drop_id skips_append)

lemma delivered_range: "skips_nothing c fs \<Longrightarrow> resyncs fs = 0 \<Longrightarrow>
    c \<le> client_cursor c fs \<and> map ev_sequence (created_frames fs) = [c + 1..client_cursor c fs]"
  by (induction c fs rule: skips_nothing.induct) (auto simp: upto_rec1)

subsection \<open>A connection skips nothing\<close>

text \<open>From \<open>st\<close> on the frames skip nothing, and \<open>st'\<close> knows the browser's cursor and whether a resync was sent.\<close>

definition follows :: "stream_state \<Rightarrow> stream_frame list \<Rightarrow> stream_state \<Rightarrow> bool" where
  "follows st frames st' \<longleftrightarrow> skips_nothing (rs_cursor st) frames \<and> client_cursor (rs_cursor st) frames = rs_cursor st'
     \<and> resyncs frames + of_bool (rs_resync_sent st) = of_bool (rs_resync_sent st')"

lemma follows_none: "rs_cursor st' = rs_cursor st \<Longrightarrow> rs_resync_sent st' = rs_resync_sent st \<Longrightarrow> follows st [] st'"
  by (simp add: follows_def)

lemma follows_trans: "follows st fs st' \<Longrightarrow> follows st' gs st'' \<Longrightarrow> follows st (fs @ gs) st''"
  by (auto simp: follows_def)

lemma monotonic_state: "monotonic clk st = (now, st') \<Longrightarrow>
    rs_cursor st' = rs_cursor st \<and> rs_resync_sent st' = rs_resync_sent st \<and> rs_replay_through st' = rs_replay_through st
      \<and> rs_last_emit st' = rs_last_emit st"
  by (auto simp: monotonic_def)

lemma contiguous_Cons [simp]: "is_contiguous (e # es) c \<longleftrightarrow> ev_sequence e = c + 1 \<and> is_contiguous es (c + 1)"
proof -
  have "map (\<lambda>i. c + 1 + int i) [0..<Suc n] = (c + 1) # map (\<lambda>i. c + 1 + 1 + int i) [0..<n]" for n
    by (simp add: upt_conv_Cons map_Suc_upt [symmetric] del: upt_Suc)
  then show ?thesis by (simp add: is_contiguous_def del: upt_Suc)
qed

lemma resync_follows:
  assumes "resync_resource_stream clk d t st = (Some f, st')"
  shows "f = Resync_Frame t \<and> follows st [f] st'"
  using assms
  by (auto simp: resync_resource_stream_def follows_def split: if_splits prod.splits dest!: monotonic_state)

lemma event_frames_follow:
  "event_frames clk d es st = (Some fs, st') \<Longrightarrow> is_contiguous es (rs_cursor st) \<Longrightarrow>
     follows st fs st' \<and> created_frames fs = es"
proof (induction clk d es st arbitrary: fs st' rule: event_frames.induct)
  case (2 clk d e es st)
  obtain now st1 where now: "monotonic clk st = (now, st1)" by fastforce
  obtain emit st2 where emit: "monotonic clk (st1\<lparr>rs_cursor := ev_sequence e\<rparr>) = (emit, st2)" by fastforce
  obtain r st3 where rest: "event_frames clk d es (st2\<lparr>rs_last_emit := emit\<rparr>) = (r, st3)" by fastforce
  have open_still: "\<not> d \<le> now" using 2(2) now by (auto split: if_splits)
  then obtain gs where gs: "r = Some gs" "fs = Created_Frame e # gs" "st' = st3"
    using 2(2) now emit rest by (cases r) auto
  have "follows (st2\<lparr>rs_last_emit := emit\<rparr>) gs st3 \<and> created_frames gs = es"
    by (rule 2(1) [OF now [symmetric] _ emit [symmetric]])
      (use open_still rest gs 2(3) monotonic_state [OF now] monotonic_state [OF emit] in auto)
  then show ?case using gs 2(3) monotonic_state [OF now] monotonic_state [OF emit] by (auto simp: follows_def)
qed (auto simp: follows_def)

lemma finish_state [simp]:
  "rs_cursor (finish_replay st) = rs_cursor st" "rs_resync_sent (finish_replay st) = rs_resync_sent st"
  by (simp_all add: finish_replay_def split: option.split)

lemma finish_follows [simp]: "follows st fs (finish_replay st') = follows st fs st'"
  by (simp add: follows_def)

text \<open>The page of an open connection.\<close>

lemma page_frames_follow:
  assumes page: "page = read_event_page u (rs_cursor st) (rs_replay_through st) ledgers"
    and out: "resource_page_frames clk d page st = (Some (frames, wait), st')"
  shows "follows st frames st' \<and> set (created_frames frames) \<subseteq> set (pg_events page)"
proof -
  let ?t = "case rs_replay_through st of Some t \<Rightarrow> t | None \<Rightarrow> pg_high_water_mark page"
  consider (gap) "rs_cursor st < ?t" "pg_events page = [] \<or> \<not> is_contiguous (pg_events page) (rs_cursor st)"
    | (events) "pg_events page \<noteq> []" "rs_cursor st < ?t \<Longrightarrow> is_contiguous (pg_events page) (rs_cursor st)"
    | (idle) "pg_events page = []" "\<not> rs_cursor st < ?t"
    by blast
  then show ?thesis
  proof cases
    case gap
    then show ?thesis using out
      by (auto simp: resource_page_frames_def resource_gap_frame_def Let_def split: prod.splits option.splits if_splits
          dest!: resync_follows)
  next
    case events
    then obtain e where "e \<in> set (pg_events page)" by (cases "pg_events page") auto
    from page_events [OF page this] have "rs_cursor st < ?t" by linarith
    then have "is_contiguous (pg_events page) (rs_cursor st)" by (rule events)
    then show ?thesis using out events
      by (auto simp: resource_page_frames_def resource_event_frames_def Let_def split: prod.splits option.splits if_splits
          dest!: event_frames_follow)
  next
    case idle
    then show ?thesis using out
      by (auto simp: resource_page_frames_def resource_idle_frames_def Let_def split: prod.splits if_splits
          dest!: monotonic_state) (auto simp: follows_def)
  qed
qed

definition in_step :: "stream_state \<Rightarrow> stream_frame list \<Rightarrow> bool" where
  "in_step st frames \<longleftrightarrow> skips_nothing (rs_cursor st) frames \<and> resyncs frames + of_bool (rs_resync_sent st) \<le> 1"

lemma in_step_simps: "in_step st []" "follows st fs st' \<Longrightarrow> in_step st' gs \<Longrightarrow> in_step st (fs @ gs)"
  by (auto simp: in_step_def follows_def)

lemma in_step_same:
  "rs_cursor st' = rs_cursor st \<Longrightarrow> rs_resync_sent st' = rs_resync_sent st \<Longrightarrow> in_step st' fs = in_step st fs"
  by (simp add: in_step_def)

definition read_from :: "string \<Rightarrow> (event_ledger \<times> event_ledger) option list \<Rightarrow> stream_frame list \<Rightarrow> bool" where
  "read_from u reads frames \<longleftrightarrow> (\<forall>e \<in> set (created_frames frames). ev_user_id e = u
     \<and> (\<exists>ledgers. Some ledgers \<in> set reads \<and> e \<in> set (el_events (snd ledgers))))"

lemma stream_pages_in_step: "stream_pages clk d u reads st = (frames, st') \<Longrightarrow> in_step st frames \<and> read_from u reads frames"
proof (induction reads arbitrary: st frames st')
  case Nil
  then show ?case by (simp add: in_step_simps read_from_def)
next
  case (Cons read reads)
  obtain now st1 where now: "monotonic clk st = (now, st1)" by fastforce
  obtain before st2 where before: "monotonic clk st1 = (before, st2)" by fastforce
  have same: "in_step st2 fs = in_step st fs" for fs
    using monotonic_state [OF now] monotonic_state [OF before] by (intro in_step_same) auto
  show ?case
  proof (cases "now \<ge> d \<or> d - before \<le> 0 \<or> read = None")
    case True
    then have "frames = []" using Cons(2) now before by (auto split: if_splits)
    then show ?thesis by (simp add: in_step_simps read_from_def)
  next
    case False
    then obtain ledgers where read: "read = Some ledgers" by auto
    define page where "page = read_event_page u (rs_cursor st2) (rs_replay_through st2) ledgers"
    obtain r st3 where r: "resource_page_frames clk d page st2 = (r, st3)" by fastforce
    show ?thesis
    proof (cases r)
      case None
      then have "frames = []" using Cons(2) now before read False r by (auto simp: page_def)
      then show ?thesis by (simp add: in_step_simps read_from_def)
    next
      case (Some fw)
      obtain fs wait where fw: "fw = (fs, wait)" by fastforce
      note page = page_frames_follow [OF page_def r [unfolded Some fw]]
      have fs: "read_from u (read # reads) fs"
        unfolding read_from_def
      proof
        fix e
        assume "e \<in> set (created_frames fs)"
        then have "e \<in> set (pg_events page)" using page by blast
        from page_events [OF page_def this]
        show "ev_user_id e = u \<and> (\<exists>ledgers. Some ledgers \<in> set (read # reads) \<and> e \<in> set (el_events (snd ledgers)))"
          using read by (metis list.set_intros(1))
      qed
      obtain now' st4 where now': "monotonic clk st3 = (now', st4)" by fastforce
      have later: "in_step st4 gs = in_step st3 gs" for gs
        using monotonic_state [OF now'] by (intro in_step_same) auto
      have "\<exists>gs. frames = fs @ gs \<and> in_step st3 gs \<and> read_from u reads gs"
      proof (cases wait)
        case False
        obtain gs st5 where gs: "stream_pages clk d u reads st3 = (gs, st5)" by fastforce
        then have "frames = fs @ gs"
          using Cons(2) now before read \<open>\<not> (now \<ge> d \<or> d - before \<le> 0 \<or> read = None)\<close> r Some fw False by (auto simp: page_def)
        then show ?thesis using Cons.IH [OF gs] by blast
      next
        case True
        obtain gs st5 where gs: "stream_pages clk d u reads st4 = (gs, st5)" by fastforce
        have "frames = fs @ (if d - now' \<le> 0 then [] else gs)"
          using Cons(2) now before read \<open>\<not> (now \<ge> d \<or> d - before \<le> 0 \<or> read = None)\<close> r Some fw True now' gs by (auto simp: page_def)
        then show ?thesis using Cons.IH [OF gs] later by (auto simp: in_step_simps read_from_def)
      qed
      then show ?thesis using page fs in_step_simps(2) by (fastforce simp: same [symmetric] read_from_def)
    qed
  qed
qed

lemma connection_in_step:
  assumes run: "resource_event_generator clk u last_id L reads = (frames, st)"
  shows "skips_nothing (case last_id of None \<Rightarrow> get_resource_event_high_water_mark u (fst L) | Some c \<Rightarrow> c) frames
    \<and> resyncs frames \<le> 1 \<and> read_from u reads frames"
proof -
  let ?c = "case last_id of None \<Rightarrow> get_resource_event_high_water_mark u (fst L) | Some c \<Rightarrow> c"
  let ?d = "clk 0 + RESOURCE_EVENT_STREAM_CONNECTION_SECONDS"
  obtain fs st1 where init: "initialize_resource_stream clk last_id (get_resource_event_high_water_mark u (fst L))
      (get_oldest_resource_event_sequence u (snd L)) ?d (Suc 0) = (fs, st1)" by fastforce
  obtain gs st2 where rest: "stream_pages clk ?d u reads st1 = (gs, st2)" by fastforce
  have frames: "frames = fs @ gs" using run by (simp add: resource_event_generator_def Let_def init rest)
  have "skips_nothing ?c fs \<and> client_cursor ?c fs = rs_cursor st1 \<and> created_frames fs = []
      \<and> resyncs fs = of_bool (rs_resync_sent st1)"
    using init by (auto simp: initialize_resource_stream_def Let_def resync_resource_stream_def
        split: if_splits prod.splits option.splits dest!: monotonic_state)
  then show ?thesis using stream_pages_in_step [OF rest]
    by (auto simp: frames in_step_def read_from_def)
qed

text \<open>A browser that keeps reconnecting with its cursor; each connection is cut after some frames.\<close>

type_synonym connection = "clock \<times> (event_ledger \<times> event_ledger) \<times> (event_ledger \<times> event_ledger) option list \<times> nat"

definition connect :: "string \<Rightarrow> int \<Rightarrow> connection \<Rightarrow> stream_frame list" where
  "connect u c conn =
     (case conn of (clk, L, reads, shown) \<Rightarrow> take shown (fst (resource_event_generator clk u (Some c) L reads)))"

fun reconnecting :: "string \<Rightarrow> int \<Rightarrow> connection list \<Rightarrow> stream_frame list" where
  "reconnecting u c [] = []"
| "reconnecting u c (conn # conns) =
     (let frames = connect u c conn in frames @ reconnecting u (client_cursor c frames) conns)"

lemma connect_in_step: "skips_nothing c (connect u c conn)"
proof -
  obtain clk L reads shown where conn: "conn = (clk, L, reads, shown)" by (metis prod_cases4)
  obtain frames st where run: "resource_event_generator clk u (Some c) L reads = (frames, st)" by fastforce
  from connection_in_step [OF run] show ?thesis by (simp add: connect_def conn run skips_take)
qed

text \<open>C9: a browser that reconnects with the last number it saw never silently misses an event, however its
  connections are cut, whatever is written to the ledger or deleted from it meanwhile and whatever the
  clock says: from the first number on it is sent every number in order, exactly once, up to its cursor,
  unless it is told to resynchronise, and after that again from the number it is told.\<close>

theorem reconnecting_browser_misses_nothing:
  "skips_nothing c (reconnecting u c conns)
   \<and> (resyncs (reconnecting u c conns) = 0 \<longrightarrow>
        map ev_sequence (created_frames (reconnecting u c conns)) = [c + 1..client_cursor c (reconnecting u c conns)])"
proof -
  have "skips_nothing c (reconnecting u c conns)"
    by (induction conns arbitrary: c) (auto simp: Let_def connect_in_step)
  then show ?thesis using delivered_range by blast
qed

text \<open>Two connections, the first cut after three frames: the second goes on at the third event.\<close>

lemma reconnecting_browser_misses_nothing_witness:
  "let event = (\<lambda>n. \<lparr>ev_user_id = ''u'', ev_sequence = n, ev_resource_id = ''song'', ev_generation_id = show_nat (nat n),
                    ev_created_at = 0\<rparr>);
       L = \<lparr>el_cursors = [(''u'', 3)], el_events = map event [1, 2, 3]\<rparr>;
       conns = [(\<lambda>i. 0, (L, L), [Some (L, L)], 3), (\<lambda>i. 0, (L, L), [Some (L, L)], 9)];
       frames = reconnecting ''u'' 0 conns
   in resyncs frames = 0 \<and> map ev_sequence (created_frames frames) = [1, 2, 3]"
proof -
  let ?event = "\<lambda>n::int. \<lparr>ev_user_id = ''u'', ev_sequence = n, ev_resource_id = ''song'',
      ev_generation_id = show_nat (nat n), ev_created_at = 0\<rparr>"
  let ?L = "\<lparr>el_cursors = [(''u'', 3)], el_events = map ?event [1, 2, 3]\<rparr>"
  let ?conns = "[(\<lambda>i. 0, (?L, ?L), [Some (?L, ?L)], 3), (\<lambda>i. 0, (?L, ?L), [Some (?L, ?L)], 9)] :: connection list"
  have "resyncs (reconnecting ''u'' 0 ?conns) = 0" by code_simp
  moreover have "[0 + 1..client_cursor 0 (reconnecting ''u'' 0 ?conns)] = [1, 2, 3]" by code_simp
  ultimately show ?thesis
    using reconnecting_browser_misses_nothing [of 0 "''u''" ?conns] by (simp only: Let_def simp_thms)
qed

subsection \<open>What is retained is delivered\<close>

text \<open>The events after \<open>c\<close> are all there.\<close>

definition retained :: "string \<Rightarrow> int \<Rightarrow> event_ledger \<Rightarrow> bool" where
  "retained u c L \<longleftrightarrow> set [c + 1..get_resource_event_high_water_mark u L]
     \<subseteq> set (map ev_sequence (filter (\<lambda>e. ev_user_id e = u) (el_events L)))"

lemma retained_later: "retained u c L \<Longrightarrow> c \<le> c' \<Longrightarrow> retained u c' L"
proof -
  assume kept: "retained u c L" and "c \<le> c'"
  then have "set [c' + 1..get_resource_event_high_water_mark u L] \<subseteq> set [c + 1..get_resource_event_high_water_mark u L]"
    by auto
  then show ?thesis using kept unfolding retained_def by (rule subset_trans)
qed

text \<open>What happens to the ledger while \<open>u\<close> reads behind \<open>c\<close>: events of any user are added, cursors are
  set up, and the retention sweep deletes old events, but none that \<open>u\<close> has yet to see.\<close>

inductive ledger_step :: "string \<Rightarrow> int \<Rightarrow> event_ledger \<Rightarrow> event_ledger \<Rightarrow> bool" for u c where
  event_created: "create_generation_created_event now v song gen L = Some L' \<Longrightarrow> ledger_step u c L L'"
| cursor_ensured: "ledger_step u c L (ensure_resource_event_cursor v L)"
| events_deleted: "list_all (\<lambda>e. ev_user_id e = u \<and> c < ev_sequence e \<longrightarrow> cutoff \<le> ev_created_at e) (el_events L) \<Longrightarrow>
    ledger_step u c L (delete_resource_events_before cutoff L)"

abbreviation ledger_steps :: "string \<Rightarrow> int \<Rightarrow> event_ledger \<Rightarrow> event_ledger \<Rightarrow> bool" where
  "ledger_steps u c \<equiv> (ledger_step u c)\<^sup>*\<^sup>*"

lemma ledger_step_keeps:
  assumes "ledger_step u c L L'" and "ledger_ok L" and "retained u c L"
  shows "ledger_ok L' \<and> retained u c L'
    \<and> get_resource_event_high_water_mark u L \<le> get_resource_event_high_water_mark u L'"
  using assms
proof (cases rule: ledger_step.cases)
  case (event_created now v song gen)
  obtain e where e: "el_events L' = el_events L @ [e]" "ev_user_id e = v"
      "ev_sequence e = get_resource_event_high_water_mark v L + 1"
    using created_event(1) [OF event_created] by blast
  note high = created_event(2) [OF event_created, of u]
  have "set [c + 1..get_resource_event_high_water_mark u L']
      \<subseteq> set [c + 1..get_resource_event_high_water_mark u L] \<union> (if u = v then {ev_sequence e} else {})"
    using e(3) by (auto simp: high)
  then have "retained u c L'" using assms(3) e(2) unfolding retained_def e(1) by (auto split: if_splits)
  then show ?thesis using event_create_ok [OF assms(2) event_created] high by simp
next
  case (cursor_ensured v)
  have "map_of (el_cursors (ensure_resource_event_cursor v L)) = map_of (el_cursors L) \<or> True" by simp
  then show ?thesis using assms(2,3) unfolding cursor_ensured by (simp add: ledger_ok_def retained_def)
next
  case (events_deleted cutoff)
  have high: "get_resource_event_high_water_mark u L' = get_resource_event_high_water_mark u L"
    by (simp add: events_deleted(1) delete_resource_events_before_def get_resource_event_high_water_mark_def)
  have "\<exists>e \<in> set (el_events L'). ev_user_id e = u \<and> ev_sequence e = n"
    if "n \<in> set [c + 1..get_resource_event_high_water_mark u L]" for n
  proof -
    from that assms(3) obtain e where "e \<in> set (el_events L)" "ev_user_id e = u" "ev_sequence e = n"
      by (auto simp: retained_def)
    then show ?thesis using events_deleted(2) that
      by (auto simp: events_deleted(1) delete_resource_events_before_def list_all_iff not_less intro!: bexI [of _ e])
  qed
  then have "retained u c L'" unfolding retained_def high by fastforce
  then show ?thesis using event_delete_ok [OF assms(2)] high unfolding events_deleted(1) by simp
qed

lemma ledger_steps_keep:
  assumes "ledger_steps u c L L'" and "ledger_ok L" and "retained u c L"
  shows "ledger_ok L' \<and> retained u c L'
    \<and> get_resource_event_high_water_mark u L \<le> get_resource_event_high_water_mark u L'"
  using assms by (induction rule: rtranclp_induct) (auto dest: ledger_step_keeps)

text \<open>The pages a connection reads, each with the ledgers its two queries see, from \<open>L\<close> on.\<close>

fun pages_of_moving_ledger :: "string \<Rightarrow> int \<Rightarrow> event_ledger \<Rightarrow> (event_ledger \<times> event_ledger) list \<Rightarrow> bool" where
  "pages_of_moving_ledger u c L [] \<longleftrightarrow> True"
| "pages_of_moving_ledger u c L ((A, B) # ps) \<longleftrightarrow>
     ledger_steps u c L A \<and> ledger_steps u c A B \<and> pages_of_moving_ledger u c B ps"

definition last_ledger :: "event_ledger \<Rightarrow> (event_ledger \<times> event_ledger) list \<Rightarrow> event_ledger" where
  "last_ledger L ps = last (L # map snd ps)"

lemma last_ledger_simps [simp]: "last_ledger L [] = L" "last_ledger L ((A, B) # ps) = last_ledger B ps"
  by (simp_all add: last_ledger_def)

lemma listed_all:
  assumes ok: "ledger_ok L" and kept: "retained u c L" and t: "t \<le> get_resource_event_high_water_mark u L"
  shows "\<exists>es. list_resource_events_after u c (Some t) (Some (Suc n)) L = Some es
     \<and> map ev_sequence es = take (Suc n) [c + 1..t]"
proof -
  let ?rows = "filter (\<lambda>e. ev_user_id e = u \<and> c < ev_sequence e \<and> ev_sequence e \<le> t) (el_events L)"
  have "distinct (map (\<lambda>e. (ev_user_id e, ev_sequence e)) ?rows)"
    using ok by (auto simp: ledger_ok_def intro: distinct_map_filter)
  then have "inj_on ev_sequence (set ?rows)" "distinct ?rows"
    by (auto simp: distinct_map inj_on_def)
  then have "distinct (map ev_sequence (sort_key ev_sequence ?rows))" by (simp add: distinct_map)
  moreover have "set (map ev_sequence (sort_key ev_sequence ?rows)) = set [c + 1..t]"
  proof -
    have "n \<in> ev_sequence ` set ?rows" if "n \<in> set [c + 1..t]" for n
    proof -
      from that t have "n \<in> set [c + 1..get_resource_event_high_water_mark u L]" by simp
      with kept have "n \<in> set (map ev_sequence (filter (\<lambda>e. ev_user_id e = u) (el_events L)))"
        unfolding retained_def by blast
      then show ?thesis using that by auto
    qed
    then show ?thesis by auto
  qed
  ultimately have "map ev_sequence (sort_key ev_sequence ?rows) = [c + 1..t]"
    by (intro sorted_distinct_set_unique) simp_all
  then show ?thesis by (simp add: list_resource_events_after_def Let_def take_map [symmetric])
qed

lemma contiguous_upto: "map ev_sequence es = take n [c + 1..h] \<Longrightarrow> is_contiguous es c"
proof (induction es arbitrary: c n)
  case (Cons e es)
  then obtain m where m: "n = Suc m" "c + 1 \<le> h" by (cases n; cases "c + 1 \<le> h") auto
  then have "ev_sequence e = c + 1" "map ev_sequence es = take m [c + 1 + 1..h]"
    using Cons.prems by (simp_all add: upto_rec1)
  then show ?case using Cons.IH by simp
qed (simp add: is_contiguous_def)

lemma event_frames_early:
  "\<forall>i. clk i < d \<Longrightarrow> \<exists>fs st'. event_frames clk d es st = (Some fs, st')
     \<and> rs_replay_through st' = rs_replay_through st \<and> rs_resync_sent st' = rs_resync_sent st"
proof (induction es arbitrary: st)
  case (Cons e es)
  obtain now st1 where now: "monotonic clk st = (now, st1)" by fastforce
  obtain emit st2 where emit: "monotonic clk (st1\<lparr>rs_cursor := ev_sequence e\<rparr>) = (emit, st2)" by fastforce
  have "\<not> d \<le> now" using Cons.prems now by (auto simp: monotonic_def not_le)
  then show ?case
    using Cons.IH [OF Cons.prems, of "st2\<lparr>rs_last_emit := emit\<rparr>"] monotonic_state [OF now] monotonic_state [OF emit]
    by (auto simp: now emit)
qed simp

text \<open>What a connection reads up to.\<close>

definition read_bound :: "string \<Rightarrow> stream_state \<Rightarrow> event_ledger \<Rightarrow> int" where
  "read_bound u st L = (case rs_replay_through st of None \<Rightarrow> get_resource_event_high_water_mark u L | Some t \<Rightarrow> t)"

text \<open>One page, read in time.\<close>

lemma early_page:
  assumes ok: "ledger_ok B" and kept: "retained u (rs_cursor st) B" and early: "\<forall>i. clk i < d"
    and t: "t = read_bound u st A" "rs_cursor st \<le> t" "t \<le> get_resource_event_high_water_mark u B"
    and page: "page = read_event_page u (rs_cursor st) (rs_replay_through st) (A, B)"
  shows "\<exists>fs wait st'. resource_page_frames clk d page st = (Some (fs, wait), st')
     \<and> map ev_sequence (created_frames fs) = take RESOURCE_EVENT_STREAM_PAGE_SIZE [rs_cursor st + 1..t]
     \<and> rs_cursor st' = min t (rs_cursor st + int RESOURCE_EVENT_STREAM_PAGE_SIZE)
     \<and> resyncs fs = 0 \<and> rs_replay_through st' \<in> {None, rs_replay_through st}"
proof -
  let ?c = "rs_cursor st"
  have bound: "(case rs_replay_through st of None \<Rightarrow> pg_high_water_mark page | Some t \<Rightarrow> t) = t"
    by (simp add: t(1) read_bound_def page read_event_page_def Let_def split: option.split)
  obtain es where es: "pg_events page = es" "map ev_sequence es = take RESOURCE_EVENT_STREAM_PAGE_SIZE [?c + 1..t]"
    using listed_all [OF ok kept t(3), of 99]
    by (auto simp: page read_event_page_def Let_def RESOURCE_EVENT_STREAM_PAGE_SIZE_def t(1) read_bound_def)
  have len: "int (length es) = min (t - ?c) (int RESOURCE_EVENT_STREAM_PAGE_SIZE)"
    using arg_cong [OF es(2), of length] t(2) by simp
  have cont: "is_contiguous es ?c" by (rule contiguous_upto [OF es(2)])
  show ?thesis
  proof (cases "es = []")
    case True
    then have "?c = t" using len t(2) by (simp add: RESOURCE_EVENT_STREAM_PAGE_SIZE_def)
    then show ?thesis
      using early bound es True
      by (auto simp: resource_page_frames_def resource_idle_frames_def Let_def monotonic_def finish_replay_def not_le [symmetric]
          split: option.split if_splits)
  next
    case False
    obtain fs st1 where fs: "event_frames clk d es st = (Some fs, st1)" "rs_replay_through st1 = rs_replay_through st"
        "rs_resync_sent st1 = rs_resync_sent st"
      using event_frames_early [OF early] by blast
    from event_frames_follow [OF fs(1) cont]
    have follow: "follows st fs st1" and created: "created_frames fs = es" by auto
    then have no_resync: "resyncs fs = 0" using fs(3) by (simp add: follows_def)
    have "length [?c + 1..rs_cursor st1] = length es" and "?c \<le> rs_cursor st1"
      using delivered_range [of ?c fs] follow no_resync created by (auto simp: follows_def dest!: arg_cong [of _ _ length])
    then have "rs_cursor st1 = min t (?c + int RESOURCE_EVENT_STREAM_PAGE_SIZE)" using len by simp
    moreover have "resource_page_frames clk d page st = (Some (fs, False), finish_replay st1)"
      using False cont fs(1) by (simp add: resource_page_frames_def Let_def es(1) resource_event_frames_def)
    moreover have "rs_replay_through (finish_replay st1) \<in> {None, rs_replay_through st}"
      using fs(2) by (auto simp: finish_replay_def split: option.splits if_splits)
    ultimately show ?thesis using created es(2) no_resync by (intro exI [of _ fs] exI [of _ False] exI [of _ "finish_replay st1"]) simp
  qed
qed

lemma early_pages:
  assumes early: "\<forall>i. clk i < d"
  shows "pages_of_moving_ledger u c L ps \<Longrightarrow> ledger_ok L \<Longrightarrow> retained u c L \<Longrightarrow> c \<le> rs_cursor st \<Longrightarrow>
    rs_cursor st \<le> read_bound u st L \<Longrightarrow> read_bound u st L \<le> get_resource_event_high_water_mark u L \<Longrightarrow>
    \<exists>m. map ev_sequence (created_frames (fst (stream_pages clk d u (map Some ps) st))) = [rs_cursor st + 1..m]
    \<and> resyncs (fst (stream_pages clk d u (map Some ps) st)) = 0
    \<and> min (read_bound u st L) (rs_cursor st + int (length ps * RESOURCE_EVENT_STREAM_PAGE_SIZE)) \<le> m
    \<and> rs_cursor st \<le> m \<and> m \<le> get_resource_event_high_water_mark u (last_ledger L ps)"
proof (induction ps arbitrary: L st)
  case Nil
  then show ?case by (intro exI [of _ "rs_cursor st"]) simp
next
  case (Cons p ps)
  let ?c = "rs_cursor st"
  let ?high = "get_resource_event_high_water_mark u"
  let ?size = "int RESOURCE_EVENT_STREAM_PAGE_SIZE"
  obtain A B where p: "p = (A, B)" by fastforce
  from Cons.prems(1) have moves: "ledger_steps u c L A" "ledger_steps u c A B" "pages_of_moving_ledger u c B ps"
    by (simp_all add: p)
  note A = ledger_steps_keep [OF moves(1) Cons.prems(2,3)]
  then have B: "ledger_ok B" "retained u c B" "?high A \<le> ?high B" using ledger_steps_keep [OF moves(2)] by auto
  obtain now st1 where now: "monotonic clk st = (now, st1)" by fastforce
  obtain before st2 where before: "monotonic clk st1 = (before, st2)" by fastforce
  have st2: "rs_cursor st2 = ?c" "rs_replay_through st2 = rs_replay_through st"
    using monotonic_state [OF now] monotonic_state [OF before] by auto
  have in_time: "\<not> d \<le> now" "\<not> d - before \<le> 0"
    using now before early by (auto simp: monotonic_def not_le)
  define t where "t = read_bound u st A"
  have t: "t = read_bound u st2 A" "?c \<le> t" "t \<le> ?high B" "read_bound u st L \<le> t"
    using Cons.prems(5,6) A B(3) by (auto simp: t_def read_bound_def st2 split: option.splits)
  obtain fs wait st3 where page: "resource_page_frames clk d
        (read_event_page u (rs_cursor st2) (rs_replay_through st2) (A, B)) st2 = (Some (fs, wait), st3)"
      and fs: "map ev_sequence (created_frames fs) = take RESOURCE_EVENT_STREAM_PAGE_SIZE [?c + 1..t]" "resyncs fs = 0"
      and st3: "rs_cursor st3 = min t (?c + ?size)" "rs_replay_through st3 \<in> {None, rs_replay_through st}"
    using early_page [OF B(1) _ early t(1) _ t(3) refl] t(2) retained_later [OF B(2) Cons.prems(4)]
    unfolding st2 by blast
  define st4 where "st4 = (if wait then snd (monotonic clk st3) else st3)"
  have st4: "rs_cursor st4 = rs_cursor st3" "rs_replay_through st4 = rs_replay_through st3"
    by (auto simp: st4_def monotonic_def)
  have bound: "rs_cursor st4 \<le> read_bound u st4 B" "read_bound u st4 B \<le> ?high B"
    using st3 t Cons.prems(6) A B(3) by (auto simp: read_bound_def st4 t_def split: option.splits)
  have later: "c \<le> rs_cursor st4" using Cons.prems(4) t(2) st3(1) by (simp add: st4)
  from Cons.IH [OF moves(3) B(1,2) later bound]
  obtain m where m: "map ev_sequence (created_frames (fst (stream_pages clk d u (map Some ps) st4))) = [rs_cursor st3 + 1..m]"
      "resyncs (fst (stream_pages clk d u (map Some ps) st4)) = 0"
      "min (read_bound u st4 B) (rs_cursor st3 + int (length ps * RESOURCE_EVENT_STREAM_PAGE_SIZE)) \<le> m"
      "rs_cursor st3 \<le> m" "m \<le> ?high (last_ledger B ps)"
    by (auto simp: st4)
  obtain now' st5 where now': "monotonic clk st3 = (now', st5)" by fastforce
  have "\<not> d - now' \<le> 0" using now' early by (auto simp: monotonic_def not_le)
  then have frames: "fst (stream_pages clk d u (map Some (p # ps)) st)
      = fs @ fst (stream_pages clk d u (map Some ps) st4)"
    using in_time page by (cases wait) (simp_all add: p now before now' st4_def split: prod.split)
  have joined: "take RESOURCE_EVENT_STREAM_PAGE_SIZE [?c + 1..t] @ [rs_cursor st3 + 1..m] = [?c + 1..m]"
  proof (cases "?c + ?size \<le> t")
    case True
    have "[?c + 1..t] = [?c + 1..?c + ?size] @ [?c + ?size + 1..t]"
      using True by (intro upto_split2) (simp_all add: RESOURCE_EVENT_STREAM_PAGE_SIZE_def)
    moreover have "[?c + 1..m] = [?c + 1..?c + ?size] @ [?c + ?size + 1..m]"
      using m(4) st3(1) True by (intro upto_split2) (simp_all add: RESOURCE_EVENT_STREAM_PAGE_SIZE_def)
    ultimately show ?thesis using True st3(1) by (simp add: min_absorb2)
  next
    case False
    then have "rs_cursor st3 = t" using st3(1) by simp
    moreover have "[?c + 1..m] = [?c + 1..t] @ [t + 1..m]"
      using m(4) \<open>rs_cursor st3 = t\<close> t(2) upto_split2 [of "?c + 1" t m] by (cases "?c = t") simp_all
    ultimately show ?thesis using False by simp
  qed
  have "min (read_bound u st L) (?c + int (length (p # ps) * RESOURCE_EVENT_STREAM_PAGE_SIZE)) \<le> m"
  proof (cases "rs_cursor st3 = t")
    case True
    then show ?thesis using m(4) t(4) by simp
  next
    case False
    then have "rs_cursor st3 = ?c + ?size" using st3(1) by (auto simp: min_def split: if_splits)
    moreover have "read_bound u st L \<le> read_bound u st4 B"
      using st3(2) t Cons.prems(6) A B(3) by (auto simp: read_bound_def st4 t_def split: option.splits)
    ultimately show ?thesis using m(3) by (auto simp: algebra_simps)
  qed
  then show ?case using frames joined m fs t(2) st3(1) by (intro exI [of _ m]) (simp add: p RESOURCE_EVENT_STREAM_PAGE_SIZE_def)
qed

lemma oldest_at_most:
  assumes "e \<in> set (el_events L)" and "ev_user_id e = u"
  shows "\<exists>oldest. get_oldest_resource_event_sequence u L = Some oldest \<and> oldest \<le> ev_sequence e"
proof -
  have le: "foldl min s ss \<le> s \<and> (\<forall>x \<in> set ss. foldl min s ss \<le> x)" for s :: int and ss
  proof (induction ss arbitrary: s)
    case (Cons t ss)
    from Cons.IH [of "min s t"] show ?case by (auto intro: order_trans)
  qed simp
  have "ev_sequence e \<in> set (map ev_sequence (filter (\<lambda>e. ev_user_id e = u) (el_events L)))" using assms by auto
  then show ?thesis
    by (cases "map ev_sequence (filter (\<lambda>e. ev_user_id e = u) (el_events L))")
      (use le in \<open>auto simp: get_oldest_resource_event_sequence_def\<close>)
qed

text \<open>C10: a browser whose missed events are all still in the ledger when it connects is sent all of them, in order
  and exactly once, without a resync, on a connection that reads one page for each hundred of them before
  its deadline.  Meanwhile the ledger may move at every query: events of this user and of others are
  added, and old events are deleted as long as none is one the browser has yet to see.  What is added
  may follow on the same connection, in order and without a gap as well.\<close>

theorem retained_events_are_delivered:
  assumes "ledger_ok L" and "retained u c L" and "c \<le> get_resource_event_high_water_mark u L"
    and moves: "ledger_steps u c L L'" "pages_of_moving_ledger u c L' ps"
    and early: "\<forall>i. clk i < clk 0 + RESOURCE_EVENT_STREAM_CONNECTION_SECONDS"
    and pages: "get_resource_event_high_water_mark u L - c \<le> int (length ps * RESOURCE_EVENT_STREAM_PAGE_SIZE)"
    and run: "resource_event_generator clk u (Some c) (L, L') (map Some ps) = (frames, st)"
  shows "\<exists>m. map ev_sequence (created_frames frames) = [c + 1..m] \<and> resyncs frames = 0
    \<and> get_resource_event_high_water_mark u L \<le> m
    \<and> m \<le> get_resource_event_high_water_mark u (last_ledger L' ps)"
proof -
  let ?h = "get_resource_event_high_water_mark u L"
  let ?d = "clk 0 + RESOURCE_EVENT_STREAM_CONNECTION_SECONDS"
  let ?st = "\<lparr>rs_cursor = c, rs_replay_through = Some ?h, rs_resync_sent = False, rs_last_emit = clk (Suc 0),
      rs_reads = Suc (Suc 0)\<rparr>"
  note L' = ledger_steps_keep [OF moves(1) assms(1,2)]
  have no_gap: "\<not> has_replay_gap c ?h (get_oldest_resource_event_sequence u L')"
  proof (cases "c < ?h")
    case True
    then have "c + 1 \<in> set [c + 1..get_resource_event_high_water_mark u L']" using L' by simp
    then obtain e where "e \<in> set (el_events L')" "ev_user_id e = u" "ev_sequence e = c + 1"
      using L' unfolding retained_def by fastforce
    then show ?thesis using oldest_at_most [of e L' u] assms(3) by (auto simp: has_replay_gap_def)
  qed (use assms(3) in \<open>simp add: has_replay_gap_def\<close>)
  then have frames: "frames = Hello_Frame ?h c # fst (stream_pages clk ?d u (map Some ps) ?st)"
    using run by (auto simp: resource_event_generator_def Let_def initialize_resource_stream_def split: prod.splits)
  have "read_bound u ?st L' = ?h" by (simp add: read_bound_def)
  then obtain m where "map ev_sequence (created_frames (fst (stream_pages clk ?d u (map Some ps) ?st))) = [c + 1..m]"
      "resyncs (fst (stream_pages clk ?d u (map Some ps) ?st)) = 0"
      "min ?h (c + int (length ps * RESOURCE_EVENT_STREAM_PAGE_SIZE)) \<le> m"
      "m \<le> get_resource_event_high_water_mark u (last_ledger L' ps)"
    using early_pages [OF early moves(2), of ?st] L' assms(3) by auto
  then show ?thesis using pages unfolding frames by (intro exI [of _ m]) simp
qed

text \<open>While the browser that saw event 1 reads events 2 and 3, event 4 is written and event 1 deleted.\<close>

definition sample_event :: "int \<Rightarrow> timestamp \<Rightarrow> resource_event" where
  "sample_event n t = \<lparr>ev_user_id = ''u'', ev_sequence = n, ev_resource_id = ''song'',
     ev_generation_id = show_nat (nat n), ev_created_at = t\<rparr>"

definition ledger_found :: event_ledger where
  "ledger_found = \<lparr>el_cursors = [(''u'', 3)], el_events = [sample_event 1 5, sample_event 2 6, sample_event 3 7]\<rparr>"
definition ledger_swept :: event_ledger where
  "ledger_swept = delete_resource_events_before 6 ledger_found"
definition ledger_grown :: event_ledger where
  "ledger_grown = the (create_generation_created_event 8 ''u'' ''song'' ''four'' ledger_swept)"

lemma retained_events_are_delivered_witness:
  "\<exists>m. map ev_sequence (created_frames (fst (resource_event_generator (\<lambda>i. 0) ''u'' (Some 1) (ledger_found, ledger_swept)
         (map Some [(ledger_swept, ledger_grown)])))) = [1 + 1..m] \<and> 3 \<le> m \<and> m \<le> 4"
proof -
  have "ledger_ok ledger_found"
    by (auto simp: ledger_found_def sample_event_def ledger_ok_def get_resource_event_high_water_mark_def)
  moreover have marks: "retained ''u'' 1 ledger_found" "get_resource_event_high_water_mark ''u'' ledger_found = 3"
    "get_resource_event_high_water_mark ''u'' (last_ledger ledger_swept [(ledger_swept, ledger_grown)]) = 4" by code_simp+
  moreover have "ledger_steps ''u'' 1 ledger_found ledger_swept"
    unfolding ledger_swept_def by (rule r_into_rtranclp, rule events_deleted) code_simp
  moreover have "create_generation_created_event 8 ''u'' ''song'' ''four'' ledger_swept = Some ledger_grown" by code_simp
  then have "pages_of_moving_ledger ''u'' 1 ledger_swept [(ledger_swept, ledger_grown)]"
    by (simp add: r_into_rtranclp [where r = "ledger_step ''u'' 1", OF event_created])
  moreover have "1 \<le> get_resource_event_high_water_mark ''u'' ledger_found" by (simp add: marks)
  moreover have "get_resource_event_high_water_mark ''u'' ledger_found - 1
      \<le> int (length [(ledger_swept, ledger_grown)] * RESOURCE_EVENT_STREAM_PAGE_SIZE)"
    by (simp add: marks RESOURCE_EVENT_STREAM_PAGE_SIZE_def)
  moreover have "\<forall>i. (\<lambda>i. 0 :: rat) i < (\<lambda>i. 0) 0 + RESOURCE_EVENT_STREAM_CONNECTION_SECONDS"
    by (simp add: RESOURCE_EVENT_STREAM_CONNECTION_SECONDS_def)
  ultimately have "\<exists>m. map ev_sequence (created_frames (fst (resource_event_generator (\<lambda>i. 0) ''u'' (Some 1)
       (ledger_found, ledger_swept) (map Some [(ledger_swept, ledger_grown)])))) = [1 + 1..m]
     \<and> resyncs (fst (resource_event_generator (\<lambda>i. 0) ''u'' (Some 1)
       (ledger_found, ledger_swept) (map Some [(ledger_swept, ledger_grown)]))) = 0
     \<and> get_resource_event_high_water_mark ''u'' ledger_found \<le> m
     \<and> m \<le> get_resource_event_high_water_mark ''u'' (last_ledger ledger_swept [(ledger_swept, ledger_grown)])"
    by (intro retained_events_are_delivered [OF _ _ _ _ _ _ _ surjective_pairing])
  then show ?thesis unfolding marks by blast
qed

end
