(* ===== verification/References.thy ===== *)
theory References
  imports Prelude
begin

text \<open>
  Uploaded reference recordings (\<open>db/queries/reference_recordings.py\<close>, the stamps of
  \<open>reference_audio.py\<close>).  A row may be kept by its owner, and versions and takes link it; a row with
  neither carries the stamp \<open>unused_since\<close>.  The links are the reference columns of two other tables,
  given as lists of a song and the linked row.  An operation that locks a row is one function.
\<close>

record reference_row =
  rr_id :: string
  rr_user_id :: string
  rr_storage_path :: string
  rr_original_filename :: string
  rr_size_bytes :: int
  rr_duration_sec :: "rat option"
  rr_created_at :: timestamp
  rr_unused_since :: "timestamp option"
  rr_is_kept :: bool

type_synonym reference_rows = "reference_row list"

type_synonym reference_links = "(string \<times> string option) list"

abbreviation get_reference :: "string \<Rightarrow> reference_rows \<Rightarrow> reference_row option" where
  "get_reference \<equiv> table_get rr_id"

record reference_link_count =
  lc_versions :: nat
  lc_takes :: nat

definition is_unlinked :: "reference_link_count \<Rightarrow> bool" where
  "is_unlinked c \<longleftrightarrow> lc_versions c = 0 \<and> lc_takes c = 0"

record reference_usage =
  ru_files :: nat
  ru_bytes :: int

subsection \<open>Queries\<close>

definition count_links :: "string \<Rightarrow> reference_links \<Rightarrow> nat" where
  "count_links rid links = length (filter (\<lambda>l. snd l = Some rid) links)"

definition reference_link_counts :: "reference_links \<Rightarrow> reference_links \<Rightarrow> string \<Rightarrow> reference_link_count" where
  "reference_link_counts versions takes rid =
     \<lparr>lc_versions = count_links rid versions, lc_takes = count_links rid takes\<rparr>"

definition linked_reference_ids :: "string list \<Rightarrow> reference_links \<Rightarrow> reference_links \<Rightarrow> string set" where
  "linked_reference_ids song_ids versions takes =
     set (List.map_filter (\<lambda>l. if fst l \<in> set song_ids then snd l else None) (versions @ takes))"

definition get_owned_reference_recording :: "string \<Rightarrow> string \<Rightarrow> reference_rows \<Rightarrow> reference_row option" where
  "get_owned_reference_recording user_id rid rows =
     (case get_reference rid rows of
        None \<Rightarrow> None
      | Some r \<Rightarrow> if rr_user_id r = user_id then Some r else None)"

definition owned_reference_storage_paths :: "string \<Rightarrow> reference_rows \<Rightarrow> string set" where
  "owned_reference_storage_paths user_id rows = set (map rr_storage_path (filter (\<lambda>r. rr_user_id r = user_id) rows))"

definition list_owned_reference_recordings :: "string \<Rightarrow> reference_rows \<Rightarrow> reference_rows" where
  "list_owned_reference_recordings user_id rows =
     sort_key (\<lambda>r. - rr_created_at r) (sort_key rr_id (filter (\<lambda>r. rr_user_id r = user_id) rows))"

definition owner_reference_usage :: "string \<Rightarrow> reference_rows \<Rightarrow> reference_usage" where
  "owner_reference_usage user_id rows =
     (let own = filter (\<lambda>r. rr_user_id r = user_id) rows
      in \<lparr>ru_files = length own, ru_bytes = sum_list (map rr_size_bytes own)\<rparr>)"

subsection \<open>Writes\<close>

text \<open>\<open>None\<close>: the primary key or the storage path is taken.\<close>

definition create_reference_recording ::
    "string \<Rightarrow> timestamp \<Rightarrow> string \<Rightarrow> string \<Rightarrow> string \<Rightarrow> int \<Rightarrow> rat option \<Rightarrow> reference_rows
     \<Rightarrow> (reference_row \<times> reference_rows) option" where
  "create_reference_recording uuid now user_id storage_path original_filename size_bytes duration_sec rows =
     (let r = \<lparr>rr_id = uuid, rr_user_id = user_id, rr_storage_path = storage_path,
               rr_original_filename = original_filename, rr_size_bytes = size_bytes, rr_duration_sec = duration_sec,
               rr_created_at = now, rr_unused_since = Some now, rr_is_kept = False\<rparr>
      in if uuid \<in> rr_id ` set rows \<or> storage_path \<in> rr_storage_path ` set rows then None else Some (r, rows @ [r]))"

definition lock_and_mark_reference_used ::
    "string \<Rightarrow> string \<Rightarrow> reference_rows \<Rightarrow> reference_row option \<times> reference_rows" where
  "lock_and_mark_reference_used user_id rid rows =
     (case get_owned_reference_recording user_id rid rows of
        None \<Rightarrow> (None, rows)
      | Some r \<Rightarrow> (Some (r\<lparr>rr_unused_since := None\<rparr>),
                  table_update rr_id rid (\<lambda>r. r\<lparr>rr_unused_since := None\<rparr>) rows))"

definition keep_reference :: "string \<Rightarrow> string \<Rightarrow> reference_rows \<Rightarrow> reference_row option \<times> reference_rows" where
  "keep_reference user_id rid rows =
     (case get_owned_reference_recording user_id rid rows of
        None \<Rightarrow> (None, rows)
      | Some r \<Rightarrow> (Some (r\<lparr>rr_is_kept := True, rr_unused_since := None\<rparr>),
                  table_update rr_id rid (\<lambda>r. r\<lparr>rr_is_kept := True, rr_unused_since := None\<rparr>) rows))"

definition mark_newly_unused ::
    "timestamp \<Rightarrow> string set \<Rightarrow> reference_links \<Rightarrow> reference_links \<Rightarrow> reference_rows \<Rightarrow> nat \<times> reference_rows" where
  "mark_newly_unused now ids versions takes rows =
     (let candidates = sort_key rr_id (filter (\<lambda>r. rr_id r \<in> ids \<and> rr_unused_since r = None \<and> \<not> rr_is_kept r) rows);
          unlinked = map rr_id (filter (\<lambda>r. is_unlinked (reference_link_counts versions takes (rr_id r))) candidates)
      in (length unlinked,
          map (\<lambda>r. if rr_id r \<in> set unlinked then r\<lparr>rr_unused_since := Some now\<rparr> else r) rows))"

definition unkeep_reference ::
    "timestamp \<Rightarrow> string \<Rightarrow> string \<Rightarrow> reference_links \<Rightarrow> reference_links \<Rightarrow> reference_rows
     \<Rightarrow> reference_row option \<times> reference_rows" where
  "unkeep_reference now user_id rid versions takes rows =
     (case get_owned_reference_recording user_id rid rows of
        None \<Rightarrow> (None, rows)
      | Some r \<Rightarrow>
          if rr_is_kept r
          then (let rows1 = table_update rr_id rid (\<lambda>r. r\<lparr>rr_is_kept := False\<rparr>) rows;
                    rows2 = snd (mark_newly_unused now {rid} versions takes rows1)
                in (get_reference rid rows2, rows2))
          else (Some r, rows))"

definition list_unstamped_unkept_reference_ids :: "reference_rows \<Rightarrow> string list" where
  "list_unstamped_unkept_reference_ids rows =
     sort_key (\<lambda>i. i) (map rr_id (filter (\<lambda>r. rr_unused_since r = None \<and> \<not> rr_is_kept r) rows))"

definition clear_stamps_on_used_or_kept ::
    "reference_links \<Rightarrow> reference_links \<Rightarrow> reference_rows \<Rightarrow> nat \<times> reference_rows" where
  "clear_stamps_on_used_or_kept versions takes rows =
     (let stamped = sort_key rr_id (filter (\<lambda>r. rr_unused_since r \<noteq> None) rows);
          cleared = map rr_id (filter (\<lambda>r. rr_is_kept r \<or> \<not> is_unlinked (reference_link_counts versions takes (rr_id r))) stamped)
      in (length cleared, map (\<lambda>r. if rr_id r \<in> set cleared then r\<lparr>rr_unused_since := None\<rparr> else r) rows))"

text \<open>\<open>None\<close>: the foreign key of a version or a take still names the row.\<close>

definition delete_reference_recording ::
    "reference_row \<Rightarrow> reference_links \<Rightarrow> reference_links \<Rightarrow> reference_rows \<Rightarrow> (string \<times> reference_rows) option" where
  "delete_reference_recording r versions takes rows =
     (if \<not> is_unlinked (reference_link_counts versions takes (rr_id r)) then None
      else Some (rr_storage_path r, filter (\<lambda>s. rr_id s \<noteq> rr_id r) rows))"

subsection \<open>The daily stamps\<close>

text \<open>\<open>db_ok\<close>: the transaction commits; otherwise it is rolled back and the failure only logged.\<close>

definition commit_unused_stamps ::
    "bool \<Rightarrow> timestamp \<Rightarrow> string set \<Rightarrow> reference_links \<Rightarrow> reference_links \<Rightarrow> reference_rows \<Rightarrow> nat \<times> reference_rows" where
  "commit_unused_stamps db_ok now candidates versions takes rows =
     (if candidates = {} \<or> \<not> db_ok then (0, rows) else mark_newly_unused now candidates versions takes rows)"

definition clear_used_or_kept_stamps ::
    "bool \<Rightarrow> reference_links \<Rightarrow> reference_links \<Rightarrow> reference_rows \<Rightarrow> nat \<times> reference_rows" where
  "clear_used_or_kept_stamps db_ok versions takes rows =
     (if db_ok then clear_stamps_on_used_or_kept versions takes rows else (0, rows))"

definition stamp_unstamped_unkept ::
    "bool \<Rightarrow> bool \<Rightarrow> timestamp \<Rightarrow> reference_links \<Rightarrow> reference_links \<Rightarrow> reference_rows \<Rightarrow> nat \<times> reference_rows" where
  "stamp_unstamped_unkept listed db_ok now versions takes rows =
     (if listed then commit_unused_stamps db_ok now (set (list_unstamped_unkept_reference_ids rows)) versions takes rows
      else (0, rows))"

definition reconcile_unused_stamps ::
    "bool \<Rightarrow> bool \<Rightarrow> bool \<Rightarrow> timestamp \<Rightarrow> reference_links \<Rightarrow> reference_links \<Rightarrow> reference_rows
     \<Rightarrow> (nat \<times> nat) \<times> reference_rows" where
  "reconcile_unused_stamps clears listed db_ok now versions takes rows =
     (case clear_used_or_kept_stamps clears versions takes rows of (cleared, rows1) \<Rightarrow>
        (case stamp_unstamped_unkept listed db_ok now versions takes rows1 of (stamped, rows2) \<Rightarrow>
           ((stamped, cleared), rows2)))"

subsection \<open>Facts\<close>

definition free_of_links :: "reference_links \<Rightarrow> reference_links \<Rightarrow> string \<Rightarrow> bool" where
  "free_of_links versions takes rid \<longleftrightarrow> Some rid \<notin> snd ` set versions \<union> snd ` set takes"

lemma unlinked_iff: "is_unlinked (reference_link_counts versions takes rid) \<longleftrightarrow> free_of_links versions takes rid"
  by (force simp: free_of_links_def is_unlinked_def reference_link_counts_def count_links_def filter_empty_conv image_iff)

interpretation reference_key: keyed_row rr_id "\<lambda>f. \<forall>r. rr_id (f r) = rr_id r"
  by unfold_locales simp

lemma owned_row: "get_owned_reference_recording u rid rows = Some r \<Longrightarrow>
    get_reference rid rows = Some r \<and> rr_user_id r = u \<and> rr_id r = rid \<and> r \<in> set rows"
  by (auto simp: get_owned_reference_recording_def split: option.splits if_splits dest: table_get_Some)

text \<open>What the stamps say: a stamped row is neither kept nor linked.\<close>

definition stamps_true :: "reference_links \<Rightarrow> reference_links \<Rightarrow> reference_rows \<Rightarrow> bool" where
  "stamps_true versions takes rows \<longleftrightarrow> (\<forall>r \<in> set rows. rr_unused_since r \<noteq> None \<longrightarrow>
     \<not> rr_is_kept r \<and> free_of_links versions takes (rr_id r))"

text \<open>With unique ids each row is judged by itself.\<close>

lemma chosen_by_id:
  "distinct (map rr_id rows) \<Longrightarrow> r \<in> set rows \<Longrightarrow> rr_id r \<in> rr_id ` {s \<in> set rows. P s} \<longleftrightarrow> P r"
  by (auto simp: distinct_map inj_on_def)

definition due_for_stamp :: "string set \<Rightarrow> reference_links \<Rightarrow> reference_links \<Rightarrow> reference_row \<Rightarrow> bool" where
  "due_for_stamp ids versions takes r \<longleftrightarrow> rr_id r \<in> ids \<and> rr_unused_since r = None \<and> \<not> rr_is_kept r
     \<and> free_of_links versions takes (rr_id r)"

lemma mark_rows:
  "distinct (map rr_id rows) \<Longrightarrow> snd (mark_newly_unused now ids versions takes rows) =
     map (\<lambda>r. if due_for_stamp ids versions takes r then r\<lparr>rr_unused_since := Some now\<rparr> else r) rows"
  using chosen_by_id [of rows _ "due_for_stamp ids versions takes"]
  by (auto simp: mark_newly_unused_def Let_def unlinked_iff due_for_stamp_def image_iff)

lemma clear_rows:
  "distinct (map rr_id rows) \<Longrightarrow> snd (clear_stamps_on_used_or_kept versions takes rows) =
     map (\<lambda>r. if rr_is_kept r \<or> \<not> free_of_links versions takes (rr_id r) then r\<lparr>rr_unused_since := None\<rparr> else r) rows"
proof -
  assume dist: "distinct (map rr_id rows)"
  have same: "r\<lparr>rr_unused_since := None\<rparr> = r" if "rr_unused_since r = None" for r :: reference_row
    using that by (cases r) simp
  show ?thesis
    using chosen_by_id [OF dist, of _ "\<lambda>r. rr_unused_since r \<noteq> None \<and> (rr_is_kept r \<or> \<not> free_of_links versions takes (rr_id r))"]
    by (auto simp: clear_stamps_on_used_or_kept_def Let_def unlinked_iff image_iff same)
qed

lemma ids_kept [simp]:
  "map rr_id (snd (mark_newly_unused now ids versions takes rows)) = map rr_id rows"
  "map rr_id (snd (clear_stamps_on_used_or_kept versions takes rows)) = map rr_id rows"
  by (simp_all add: mark_newly_unused_def clear_stamps_on_used_or_kept_def Let_def comp_def if_distrib [of rr_id] cong: if_cong)

lemma stamps_true_mark:
  "distinct (map rr_id rows) \<Longrightarrow> stamps_true versions takes rows \<Longrightarrow>
     stamps_true versions takes (snd (mark_newly_unused now ids versions takes rows))"
  by (auto simp: mark_rows stamps_true_def due_for_stamp_def)

lemma stamps_true_clear:
  "distinct (map rr_id rows) \<Longrightarrow> stamps_true versions takes rows \<Longrightarrow>
     stamps_true versions takes (snd (clear_stamps_on_used_or_kept versions takes rows))"
  by (auto simp: clear_rows stamps_true_def)

lemma stamps_true_update:
  assumes "stamps_true versions takes rows" and "\<And>r. stamps_true versions takes [r] \<Longrightarrow> stamps_true versions takes [f r]"
  shows "stamps_true versions takes (table_update rr_id rid f rows)"
  using assms by (auto simp: stamps_true_def table_update_def)

lemma stamps_true_unkeep:
  assumes "distinct (map rr_id rows)" and "stamps_true versions takes rows"
  shows "stamps_true versions takes (snd (unkeep_reference now u rid versions takes rows))"
proof -
  have "stamps_true versions takes (table_update rr_id rid (\<lambda>r. r\<lparr>rr_is_kept := False\<rparr>) rows)"
    using assms(2) by (rule stamps_true_update) (auto simp: stamps_true_def)
  moreover have "distinct (map rr_id (table_update rr_id rid (\<lambda>r. r\<lparr>rr_is_kept := False\<rparr>) rows))"
    using assms(1) by (simp add: reference_key.keys_update)
  ultimately show ?thesis using assms(2)
    by (auto simp: unkeep_reference_def Let_def stamps_true_mark split: option.split)
qed

lemma stamps_true_fewer:
  "stamps_true versions takes rows \<Longrightarrow> set versions' \<subseteq> set versions \<Longrightarrow> set takes' \<subseteq> set takes \<Longrightarrow>
     stamps_true versions' takes' rows"
  unfolding stamps_true_def free_of_links_def by (meson UnE UnI1 UnI2 image_mono subsetD)

text \<open>The daily reconciliation makes the stamps exact: whatever they were, afterwards a recording is
  stamped as unused exactly when its owner does not keep it and neither a version nor a take links it; a stamp
  that was right keeps its time, a missing one is set to the moment of the run, and nothing else changes.\<close>

theorem reconciliation_makes_stamps_exact:
  assumes "distinct (map rr_id rows)"
  shows "snd (reconcile_unused_stamps True True True now versions takes rows) =
    map (\<lambda>r. r\<lparr>rr_unused_since :=
           (if rr_is_kept r \<or> \<not> is_unlinked (reference_link_counts versions takes (rr_id r)) then None
            else case rr_unused_since r of None \<Rightarrow> Some now | Some t \<Rightarrow> Some t)\<rparr>) rows"
proof -
  define rows1 where "rows1 = snd (clear_stamps_on_used_or_kept versions takes rows)"
  let ?stamp = "\<lambda>r. if due_for_stamp UNIV versions takes r then r\<lparr>rr_unused_since := Some now\<rparr> else r"
  obtain n where cleared: "clear_stamps_on_used_or_kept versions takes rows = (n, rows1)"
    by (metis rows1_def prod.collapse)
  have dist: "distinct (map rr_id rows1)" using assms by (simp add: rows1_def)
  have all: "due_for_stamp (set (list_unstamped_unkept_reference_ids rows1)) versions takes r
      \<longleftrightarrow> due_for_stamp UNIV versions takes r" if "r \<in> set rows1" for r
    using that by (auto simp: due_for_stamp_def list_unstamped_unkept_reference_ids_def)
  have "snd (reconcile_unused_stamps True True True now versions takes rows) = map ?stamp rows1"
  proof (cases "list_unstamped_unkept_reference_ids rows1 = []")
    case True
    then have "\<not> due_for_stamp UNIV versions takes r" if "r \<in> set rows1" for r
      using all [OF that] by (simp add: due_for_stamp_def)
    then have "map ?stamp rows1 = rows1" by (simp add: map_idI)
    then show ?thesis using True
      by (simp add: reconcile_unused_stamps_def clear_used_or_kept_stamps_def stamp_unstamped_unkept_def
          commit_unused_stamps_def cleared)
  next
    case False
    have "snd (mark_newly_unused now (set (list_unstamped_unkept_reference_ids rows1)) versions takes rows1)
        = map ?stamp rows1"
      unfolding mark_rows [OF dist] by (rule map_cong) (simp_all add: all)
    then show ?thesis using False
      by (auto simp: reconcile_unused_stamps_def clear_used_or_kept_stamps_def stamp_unstamped_unkept_def
          commit_unused_stamps_def cleared split: prod.split)
  qed
  moreover have "rows1 = map (\<lambda>r. if rr_is_kept r \<or> \<not> free_of_links versions takes (rr_id r)
      then r\<lparr>rr_unused_since := None\<rparr> else r) rows"
    by (simp add: rows1_def clear_rows [OF assms])
  moreover have "r = r\<lparr>rr_unused_since := Some t\<rparr>" if "rr_unused_since r = Some t" for r :: reference_row and t
    using that by (cases r) simp
  ultimately show ?thesis
    by (auto simp: due_for_stamp_def unlinked_iff split: option.split)
qed

lemma reconciliation_makes_stamps_exact_witness:
  "let row = (\<lambda>i kept stamp. \<lparr>rr_id = i, rr_user_id = ''u'', rr_storage_path = i, rr_original_filename = i, rr_size_bytes = 1,
                rr_duration_sec = None, rr_created_at = 0, rr_unused_since = stamp, rr_is_kept = kept\<rparr>);
       rows = [row ''a'' False None, row ''b'' False (Some 3), row ''c'' True (Some 4), row ''d'' False (Some 5)]
   in map rr_unused_since (snd (reconcile_unused_stamps True True True 9 [(''song'', Some ''b'')] [] rows))
     = [Some 9, None, None, Some 5]"
proof -
  let ?row = "\<lambda>i kept stamp. \<lparr>rr_id = i, rr_user_id = ''u'', rr_storage_path = i, rr_original_filename = i,
      rr_size_bytes = 1, rr_duration_sec = None, rr_created_at = 0, rr_unused_since = stamp, rr_is_kept = kept\<rparr>"
  let ?rows = "[?row ''a'' False None, ?row ''b'' False (Some 3), ?row ''c'' True (Some 4), ?row ''d'' False (Some 5)]"
  have "distinct (map rr_id ?rows)" by simp
  from reconciliation_makes_stamps_exact [OF this, of 9 "[(''song'', Some ''b'')]" "[]"]
  show ?thesis by (simp add: Let_def is_unlinked_def reference_link_counts_def count_links_def)
qed

end
