(* ===== verification/Song_Versions.thy ===== *)
theory Song_Versions
  imports Takes Job_Store References
begin

text \<open>
  Songs, their versions and what may change them (\<open>db/queries/songs.py\<close>, \<open>db/queries/versions.py\<close>,
  \<open>db/queries/activity.py\<close>).  A version holds the words and settings a take is sung with; a save makes
  the next version or rewrites the latest one.  A function that locks the song row is one step.  Album
  access, audit rows and share columns are left out.
\<close>

subsection \<open>Rows\<close>

record version_content =
  vc_lyrics :: string
  vc_prompt :: string
  vc_bpm :: int
  vc_audio_duration :: int
  vc_key_scale :: string
  vc_generation_params :: "Prelude.json option"
  vc_reference_recording_id :: "string option"

record version_row =
  vn_id :: string
  vn_song_id :: string
  vn_version_number :: int
  vn_content :: version_content
  vn_created_at :: timestamp

record song_row =
  sr_id :: string
  sr_album_id :: string
  sr_title :: string
  sr_slug :: string
  sr_track_number :: int
  sr_vocal_language :: string
  sr_updated_at :: timestamp
  sr_deleted_at :: "timestamp option"

datatype song_work_kind =
    Work_Created | Work_Lyrics | Work_Style | Work_Renamed | Work_Take | Work_Cowriter | Work_Edited

record user_song_work =
  uw_edited_at :: "timestamp option"
  uw_edit_kind :: "song_work_kind option"
  uw_played_at :: "timestamp option"
  uw_album_played_at :: "timestamp option"

text \<open>\<open>st_albums\<close> has the ids of the albums that are not deleted, \<open>st_now\<close> the clock.\<close>

record studio =
  st_now :: timestamp
  st_albums :: "string list"
  st_songs :: "song_row list"
  st_versions :: "version_row list"
  st_music :: take_db
  st_references :: reference_rows
  st_jobs :: jobs
  st_work :: "(string \<times> string, user_song_work) dict"

datatype studio_error = Song_Not_Found | Album_Not_Found | Version_Not_Found | Version_In_Use | Row_Integrity

abbreviation get_version_row :: "string \<Rightarrow> studio \<Rightarrow> version_row option" where
  "get_version_row vid S \<equiv> table_get vn_id vid (st_versions S)"

abbreviation studio_takes :: "studio \<Rightarrow> take_row list" where
  "studio_takes S \<equiv> td_takes (st_music S)"

definition version_links :: "studio \<Rightarrow> reference_links" where
  "version_links S = map (\<lambda>v. (vn_song_id v, vc_reference_recording_id (vn_content v))) (st_versions S)"

definition take_links :: "studio \<Rightarrow> reference_links" where
  "take_links S = map (\<lambda>t. (g_song_id t, t_reference_recording_id t)) (studio_takes S)"

text \<open>The soft-delete filter hides a deleted song.\<close>

definition locked_song :: "string \<Rightarrow> studio \<Rightarrow> song_row option" where
  "locked_song song_id S =
     (case table_get sr_id song_id (st_songs S) of
        None \<Rightarrow> None
      | Some s \<Rightarrow> if sr_deleted_at s = None then Some s else None)"

definition change_song :: "string \<Rightarrow> (song_row \<Rightarrow> song_row) \<Rightarrow> studio \<Rightarrow> studio" where
  "change_song song_id f S = S\<lparr>st_songs := table_update sr_id song_id f (st_songs S)\<rparr>"

definition latest_version :: "string \<Rightarrow> studio \<Rightarrow> version_row option" where
  "latest_version song_id S =
     (case rev (sort_key vn_created_at (filter (\<lambda>v. vn_song_id v = song_id) (st_versions S))) of
        [] \<Rightarrow> None
      | v # _ \<Rightarrow> Some v)"

subsection \<open>A person's own work\<close>

definition no_work :: user_song_work where
  "no_work = \<lparr>uw_edited_at = None, uw_edit_kind = None, uw_played_at = None, uw_album_played_at = None\<rparr>"

definition stamp_song_work :: "string \<Rightarrow> string \<Rightarrow> (user_song_work \<Rightarrow> user_song_work) \<Rightarrow> studio \<Rightarrow> studio" where
  "stamp_song_work user_id song_id stamp S =
     S\<lparr>st_work := dict_set (user_id, song_id)
         (stamp (case map_of (st_work S) (user_id, song_id) of None \<Rightarrow> no_work | Some w \<Rightarrow> w)) (st_work S)\<rparr>"

definition record_song_edit :: "string \<Rightarrow> string \<Rightarrow> song_work_kind \<Rightarrow> studio \<Rightarrow> studio" where
  "record_song_edit user_id song_id kind S =
     stamp_song_work user_id song_id (\<lambda>w. w\<lparr>uw_edited_at := Some (st_now S), uw_edit_kind := Some kind\<rparr>) S"

definition record_song_played :: "string \<Rightarrow> string \<Rightarrow> bool \<Rightarrow> studio \<Rightarrow> studio" where
  "record_song_played user_id song_id in_playlist S =
     stamp_song_work user_id song_id
       (\<lambda>w. if in_playlist then w\<lparr>uw_played_at := Some (st_now S)\<rparr>
            else w\<lparr>uw_played_at := Some (st_now S), uw_album_played_at := Some (st_now S)\<rparr>) S"

subsection \<open>Creating a song\<close>

definition next_track_number :: "string \<Rightarrow> studio \<Rightarrow> int" where
  "next_track_number album_id S =
     (case sort_key (\<lambda>s. - sr_track_number s) (filter (\<lambda>s. sr_album_id s = album_id) (st_songs S)) of
        [] \<Rightarrow> 1
      | s # _ \<Rightarrow> sr_track_number s + 1)"

text \<open>The foreign key to the reference, and the keys a new row must not repeat.\<close>

definition reference_exists :: "string option \<Rightarrow> studio \<Rightarrow> bool" where
  "reference_exists r S \<longleftrightarrow> (case r of None \<Rightarrow> True | Some i \<Rightarrow> i \<in> rr_id ` set (st_references S))"

definition create_song ::
    "string \<Rightarrow> string \<Rightarrow> string \<Rightarrow> string \<Rightarrow> string \<Rightarrow> string \<Rightarrow> string option \<Rightarrow> version_content \<Rightarrow> studio
     \<Rightarrow> (studio_error + song_row) \<times> studio" where
  "create_song song_uuid version_uuid title album_id slug vocal_language created_by content S =
     (if album_id \<notin> set (st_albums S) then (Inl Album_Not_Found, S)
      else (let song = \<lparr>sr_id = song_uuid, sr_album_id = album_id, sr_title = title, sr_slug = slug,
                        sr_track_number = next_track_number album_id S, sr_vocal_language = vocal_language,
                        sr_updated_at = st_now S, sr_deleted_at = None\<rparr>;
                version = \<lparr>vn_id = version_uuid, vn_song_id = song_uuid, vn_version_number = 1,
                           vn_content = content, vn_created_at = st_now S\<rparr>;
                S1 = S\<lparr>st_songs := st_songs S @ [song], st_versions := st_versions S @ [version],
                       st_music := (st_music S)\<lparr>td_songs := td_songs (st_music S) @ [song_uuid]\<rparr>\<rparr>
            in if song_uuid \<in> sr_id ` set (st_songs S) \<or> song_uuid \<in> set (td_songs (st_music S))
                  \<or> version_uuid \<in> vn_id ` set (st_versions S)
                  \<or> (\<exists>s \<in> set (st_songs S). sr_album_id s = album_id \<and> sr_slug s = slug)
                  \<or> \<not> reference_exists (vc_reference_recording_id content) S
               then (Inl Row_Integrity, S)
               else (Inr song, (case created_by of None \<Rightarrow> S1 | Some u \<Rightarrow> record_song_edit u song_uuid Work_Created S1))))"

subsection \<open>Saving a song\<close>

text \<open>\<open>UNSET\<close>, or a value.\<close>

datatype 'a setting = Unset | Set_To 'a

record song_save =
  sv_lyrics :: "string option"
  sv_prompt :: "string option"
  sv_bpm :: "int option"
  sv_audio_duration :: "int option"
  sv_key_scale :: "string option"
  sv_vocal_language :: "string option"
  sv_generation_params :: "Prelude.json option setting"
  sv_reference_recording_id :: "string option setting"
  sv_force_new_version :: bool
  sv_edited_by :: "string option"

definition version_value :: "'a option \<Rightarrow> version_row option \<Rightarrow> (version_content \<Rightarrow> 'a) \<Rightarrow> 'a \<Rightarrow> 'a" where
  "version_value value previous field fallback =
     (case value of
        Some v \<Rightarrow> v
      | None \<Rightarrow> (case previous of Some p \<Rightarrow> field (vn_content p) | None \<Rightarrow> fallback))"

text \<open>\<open>generation_params or None\<close>: an empty object counts as none.\<close>

definition json_or_none :: "Prelude.json option \<Rightarrow> Prelude.json option" where
  "json_or_none j = (if j = Some (J_Obj []) \<or> j = Some J_Null then None else j)"

definition carried_unless_set :: "'a option setting \<Rightarrow> version_row option \<Rightarrow> (version_content \<Rightarrow> 'a option) \<Rightarrow> 'a option" where
  "carried_unless_set value previous field =
     (case value of
        Set_To v \<Rightarrow> v
      | Unset \<Rightarrow> (case previous of Some p \<Rightarrow> field (vn_content p) | None \<Rightarrow> None))"

definition version_generation_params :: "Prelude.json option setting \<Rightarrow> version_row option \<Rightarrow> Prelude.json option" where
  "version_generation_params value previous =
     (case value of
        Set_To v \<Rightarrow> json_or_none v
      | Unset \<Rightarrow> carried_unless_set Unset previous vc_generation_params)"

definition saved_content :: "song_save \<Rightarrow> version_row option \<Rightarrow> version_content" where
  "saved_content save prev =
     \<lparr>vc_lyrics = version_value (sv_lyrics save) prev vc_lyrics '''',
      vc_prompt = version_value (sv_prompt save) prev vc_prompt '''',
      vc_bpm = version_value (sv_bpm save) prev vc_bpm 0,
      vc_audio_duration = version_value (sv_audio_duration save) prev vc_audio_duration 0,
      vc_key_scale = version_value (sv_key_scale save) prev vc_key_scale '''',
      vc_generation_params = version_generation_params (sv_generation_params save) prev,
      vc_reference_recording_id = carried_unless_set (sv_reference_recording_id save) prev vc_reference_recording_id\<rparr>"

definition creative_differs :: "version_content \<Rightarrow> version_content \<Rightarrow> bool" where
  "creative_differs c d \<longleftrightarrow> vc_lyrics c \<noteq> vc_lyrics d \<or> vc_prompt c \<noteq> vc_prompt d \<or> vc_bpm c \<noteq> vc_bpm d
     \<or> vc_audio_duration c \<noteq> vc_audio_duration d \<or> vc_key_scale c \<noteq> vc_key_scale d"

definition content_differs :: "version_content \<Rightarrow> version_content \<Rightarrow> bool" where
  "content_differs c d \<longleftrightarrow> creative_differs c d \<or> vc_generation_params c \<noteq> vc_generation_params d
     \<or> vc_reference_recording_id c \<noteq> vc_reference_recording_id d"

definition version_has_takes :: "string \<Rightarrow> studio \<Rightarrow> bool" where
  "version_has_takes vid S \<longleftrightarrow> list_ex (\<lambda>t. g_version_id t = Some vid) (studio_takes S)"

definition rewrites_in_place :: "version_row \<Rightarrow> version_content \<Rightarrow> bool \<Rightarrow> studio \<Rightarrow> bool" where
  "rewrites_in_place previous content force_new_version S =
     (if force_new_version then False
      else if \<not> content_differs content (vn_content previous) then True
      else if has_active_job_for_version (vn_id previous) (st_jobs S) then False
      else \<not> (version_has_takes (vn_id previous) S \<and> creative_differs content (vn_content previous)))"

definition content_edit_kind :: "string option \<Rightarrow> version_row option \<Rightarrow> song_work_kind" where
  "content_edit_kind lyrics previous =
     (case lyrics of
        None \<Rightarrow> Work_Style
      | Some l \<Rightarrow> (case previous of
                    None \<Rightarrow> Work_Lyrics
                  | Some p \<Rightarrow> if l \<noteq> vc_lyrics (vn_content p) then Work_Lyrics else Work_Style))"

definition update_song :: "string \<Rightarrow> string \<Rightarrow> song_save \<Rightarrow> studio \<Rightarrow> (studio_error + version_row) \<times> studio" where
  "update_song version_uuid song_id save S =
     (case locked_song song_id S of
        None \<Rightarrow> (Inl Song_Not_Found, S)
      | Some song \<Rightarrow>
          (let prev = latest_version song_id S;
               content = saved_content save prev;
               creative_changed = (case prev of None \<Rightarrow> True | Some p \<Rightarrow> creative_differs content (vn_content p));
               language = (case sv_vocal_language save of None \<Rightarrow> sr_vocal_language song | Some l \<Rightarrow> l);
               content_changed = (creative_changed \<or> language \<noteq> sr_vocal_language song
                  \<or> (case prev of None \<Rightarrow> False | Some p \<Rightarrow> content_differs content (vn_content p)));
               S1 = change_song song_id (\<lambda>s. s\<lparr>sr_updated_at := st_now S, sr_vocal_language := language\<rparr>) S;
               S2 = (case sv_edited_by save of
                       None \<Rightarrow> S1
                     | Some u \<Rightarrow> if content_changed
                                 then record_song_edit u song_id (content_edit_kind (sv_lyrics save) prev) S1 else S1)
           in if \<not> reference_exists (vc_reference_recording_id content) S then (Inl Row_Integrity, S)
              else (case prev of
                Some p \<Rightarrow>
                  if rewrites_in_place p content (sv_force_new_version save) S
                  then (let v = p\<lparr>vn_content := content\<rparr>
                        in (Inr v, S2\<lparr>st_versions := table_update vn_id (vn_id p) (\<lambda>v. v\<lparr>vn_content := content\<rparr>) (st_versions S)\<rparr>))
                  else if version_uuid \<in> vn_id ` set (st_versions S) then (Inl Row_Integrity, S)
                  else (let v = \<lparr>vn_id = version_uuid, vn_song_id = song_id, vn_version_number = vn_version_number p + 1,
                                 vn_content = content, vn_created_at = st_now S\<rparr>
                        in (Inr v, S2\<lparr>st_versions := st_versions S @ [v]\<rparr>))
              | None \<Rightarrow>
                  if version_uuid \<in> vn_id ` set (st_versions S) then (Inl Row_Integrity, S)
                  else (let v = \<lparr>vn_id = version_uuid, vn_song_id = song_id, vn_version_number = 1,
                                 vn_content = content, vn_created_at = st_now S\<rparr>
                        in (Inr v, S2\<lparr>st_versions := st_versions S @ [v]\<rparr>)))))"

definition plain_save :: song_save where
  "plain_save = \<lparr>sv_lyrics = None, sv_prompt = None, sv_bpm = None, sv_audio_duration = None, sv_key_scale = None,
     sv_vocal_language = None, sv_generation_params = Unset, sv_reference_recording_id = Unset,
     sv_force_new_version = True, sv_edited_by = None\<rparr>"

definition rename_song ::
    "string \<Rightarrow> string \<Rightarrow> string \<Rightarrow> string \<Rightarrow> bool \<Rightarrow> string option \<Rightarrow> studio \<Rightarrow> (studio_error + unit) \<times> studio" where
  "rename_song version_uuid song_id title slug force_new_version edited_by S =
     (case locked_song song_id S of
        None \<Rightarrow> (Inl Song_Not_Found, S)
      | Some song \<Rightarrow>
          (let S1 = (case edited_by of
                       None \<Rightarrow> S
                     | Some u \<Rightarrow> if title \<noteq> sr_title song then record_song_edit u song_id Work_Renamed S else S);
               S2 = change_song song_id (\<lambda>s. s\<lparr>sr_title := title, sr_slug := slug,
                       sr_updated_at := (if title = sr_title song \<and> slug = sr_slug song then sr_updated_at s else st_now S)\<rparr>) S1
           in if \<exists>s \<in> set (st_songs S). sr_id s \<noteq> song_id \<and> sr_album_id s = sr_album_id song \<and> sr_slug s = slug
              then (Inl Row_Integrity, S)
              else if \<not> force_new_version then (Inr (), S2)
              else (case update_song version_uuid song_id plain_save S2 of
                      (Inl e, _) \<Rightarrow> (Inl e, S)
                    | (Inr v, S3) \<Rightarrow> (Inr (), S3))))"

definition move_song :: "string \<Rightarrow> string \<Rightarrow> string \<Rightarrow> studio \<Rightarrow> (studio_error + unit) \<times> studio" where
  "move_song song_id new_album_id slug S =
     (case locked_song song_id S of
        None \<Rightarrow> (Inl Song_Not_Found, S)
      | Some song \<Rightarrow>
          if new_album_id \<notin> set (st_albums S) then (Inl Album_Not_Found, S)
          else if sr_album_id song = new_album_id then (Inr (), S)
          else if \<exists>s \<in> set (st_songs S). sr_album_id s = new_album_id \<and> sr_slug s = slug then (Inl Row_Integrity, S)
          else (Inr (), change_song song_id (\<lambda>s. s\<lparr>sr_track_number := next_track_number new_album_id S,
                           sr_album_id := new_album_id, sr_slug := slug, sr_updated_at := st_now S\<rparr>) S))"

end
