(* ===== verification/Studio.thy ===== *)
theory Studio
  imports Song_Versions
begin

text \<open>
  Everything that changes a song's versions, takes and reference links, as one machine: the requests
  of \<open>song_api.py\<close>, \<open>generation_api.py\<close> and \<open>reference_api.py\<close> over the queries of \<open>db/queries\<close>, the
  row a finished take writes, the daily runs.  A transaction is one step; what a request does after its
  commit (\<open>commit_unused_stamps\<close>) is a step of its own, so that others come between.  Every step takes
  time: rows created by different steps have different times, as the order of versions relies on.
\<close>

subsection \<open>Deleting\<close>

definition drop_takes :: "(take_row \<Rightarrow> bool) \<Rightarrow> studio \<Rightarrow> string list \<times> studio" where
  "drop_takes P S =
     (let locked = sort_key g_id (filter P (studio_takes S))
      in (concat (map take_paths locked),
          S\<lparr>st_music := foldl (\<lambda>db t. delete_take_row (g_id t) db) (st_music S) locked\<rparr>))"

definition release_generations :: "string \<Rightarrow> bool \<Rightarrow> studio \<Rightarrow> string list \<times> studio" where
  "release_generations vid delete_generations S =
     (if delete_generations then drop_takes (\<lambda>t. g_version_id t = Some vid) S
      else ([], S\<lparr>st_music := (st_music S)\<lparr>td_takes :=
                  map (\<lambda>t. if g_version_id t = Some vid then t\<lparr>g_version_id := None\<rparr> else t) (studio_takes S)\<rparr>\<rparr>))"

text \<open>The rows go, and the jobs that named them lose the reference (\<open>SET NULL\<close>).\<close>

definition drop_versions :: "(version_row \<Rightarrow> bool) \<Rightarrow> studio \<Rightarrow> studio" where
  "drop_versions P S =
     (let gone = vn_id ` set (filter P (st_versions S))
      in S\<lparr>st_versions := filter (\<lambda>v. \<not> P v) (st_versions S),
           st_jobs := map (\<lambda>j. if \<exists>v \<in> gone. j_version_id j = Some v then j\<lparr>j_version_id := None\<rparr> else j) (st_jobs S)\<rparr>)"

definition delete_version :: "string \<Rightarrow> bool \<Rightarrow> studio \<Rightarrow> (studio_error + string list) \<times> studio" where
  "delete_version vid delete_generations S =
     (case get_version_row vid S of
        None \<Rightarrow> (Inl Version_Not_Found, S)
      | Some v \<Rightarrow>
          if locked_song (vn_song_id v) S = None then (Inl Song_Not_Found, S)
          else if has_active_job_for_version vid (st_jobs S) then (Inl Version_In_Use, S)
          else (case release_generations vid delete_generations S of
                  (paths, S1) \<Rightarrow> (Inr paths, drop_versions (\<lambda>v. vn_id v = vid) S1)))"

definition soft_delete_song :: "string \<Rightarrow> studio \<Rightarrow> (studio_error + unit) \<times> studio" where
  "soft_delete_song song_id S =
     (if locked_song song_id S = None then (Inl Song_Not_Found, S)
      else (Inr (), change_song song_id (\<lambda>s. s\<lparr>sr_deleted_at := Some (st_now S), sr_updated_at := st_now S\<rparr>) S))"

text \<open>\<open>Inl\<close>: past the window, or the album is deleted.\<close>

definition restore_song :: "int \<Rightarrow> string \<Rightarrow> studio \<Rightarrow> (studio_error + unit) \<times> studio" where
  "restore_song window_days song_id S =
     (case table_get sr_id song_id (st_songs S) of
        None \<Rightarrow> (Inl Song_Not_Found, S)
      | Some s \<Rightarrow>
          (case sr_deleted_at s of
             None \<Rightarrow> (Inr (), S)
           | Some t \<Rightarrow>
               if st_now S - t > seconds (86400 * window_days) then (Inl Row_Integrity, S)
               else if sr_album_id s \<notin> set (st_albums S) then (Inl Album_Not_Found, S)
               else (Inr (), change_song song_id (\<lambda>s. s\<lparr>sr_deleted_at := None, sr_updated_at := st_now S\<rparr>) S)))"

definition delete_song :: "string \<Rightarrow> studio \<Rightarrow> (studio_error + string list) \<times> studio" where
  "delete_song song_id S =
     (case table_get sr_id song_id (st_songs S) of
        None \<Rightarrow> (Inl Song_Not_Found, S)
      | Some s \<Rightarrow>
          (case drop_takes (\<lambda>t. g_song_id t = song_id) S of
             (paths, S1) \<Rightarrow>
               (let S2 = drop_versions (\<lambda>v. vn_song_id v = song_id) S1
                in (Inr paths, S2\<lparr>st_songs := filter (\<lambda>s. sr_id s \<noteq> song_id) (st_songs S2),
                                  st_music := (st_music S2)\<lparr>td_songs := filter (\<lambda>i. i \<noteq> song_id) (td_songs (st_music S2))\<rparr>,
                                  st_work := filter (\<lambda>w. snd (fst w) \<noteq> song_id) (st_work S2)\<rparr>))))"

subsection \<open>Requests\<close>

text \<open>\<open>_attach_reference\<close>: \<open>None\<close> is the answer 404.\<close>

definition attach_reference :: "string \<Rightarrow> string option \<Rightarrow> studio \<Rightarrow> studio option" where
  "attach_reference user_id reference_id S =
     (case reference_id of
        None \<Rightarrow> Some S
      | Some rid \<Rightarrow>
          (case lock_and_mark_reference_used user_id rid (st_references S) of
             (None, _) \<Rightarrow> None
           | (Some r, rows) \<Rightarrow> Some (S\<lparr>st_references := rows\<rparr>)))"

definition api_create_song ::
    "string \<Rightarrow> string \<Rightarrow> string \<Rightarrow> string \<Rightarrow> string \<Rightarrow> string \<Rightarrow> string \<Rightarrow> version_content \<Rightarrow> studio
     \<Rightarrow> (studio_error + song_row) \<times> studio" where
  "api_create_song song_uuid version_uuid user_id title album_id slug vocal_language content S =
     (case attach_reference user_id (vc_reference_recording_id content) S of
        None \<Rightarrow> (Inl Song_Not_Found, S)
      | Some S1 \<Rightarrow>
          (case create_song song_uuid version_uuid title album_id slug vocal_language (Some user_id) content S1 of
             (Inl e, _) \<Rightarrow> (Inl e, S)
           | (Inr song, S2) \<Rightarrow> (Inr song, S2)))"

text \<open>\<open>PUT /songs/{id}\<close> up to its commit; the ids are the references to look at afterwards.\<close>

definition api_update_song ::
    "string \<Rightarrow> string \<Rightarrow> string \<Rightarrow> song_save \<Rightarrow> studio \<Rightarrow> (studio_error + version_row \<times> string set) \<times> studio" where
  "api_update_song version_uuid user_id song_id save S =
     (case attach_reference user_id (case sv_reference_recording_id save of Unset \<Rightarrow> None | Set_To r \<Rightarrow> r) S of
        None \<Rightarrow> (Inl Song_Not_Found, S)
      | Some S1 \<Rightarrow>
          (let candidates = (case sv_reference_recording_id save of
                 Unset \<Rightarrow> {} | Set_To _ \<Rightarrow> linked_reference_ids [song_id] (version_links S) (take_links S))
           in case update_song version_uuid song_id (save\<lparr>sv_edited_by := Some user_id\<rparr>) S1 of
                (Inl e, _) \<Rightarrow> (Inl e, S)
              | (Inr v, S2) \<Rightarrow> (Inr (v, candidates), S2)))"

definition api_delete_version ::
    "string \<Rightarrow> bool \<Rightarrow> studio \<Rightarrow> (studio_error + string list \<times> string set) \<times> studio" where
  "api_delete_version vid delete_generations S =
     (case get_version_row vid S of
        None \<Rightarrow> (Inl Version_Not_Found, S)
      | Some v \<Rightarrow>
          (let candidates = linked_reference_ids [vn_song_id v] (version_links S) (take_links S)
           in case delete_version vid delete_generations S of
                (Inl e, _) \<Rightarrow> (Inl e, S)
              | (Inr paths, S1) \<Rightarrow> (Inr (paths, candidates), S1)))"

definition api_delete_generation :: "string \<Rightarrow> studio \<Rightarrow> (take_error + string list \<times> string set) \<times> studio" where
  "api_delete_generation gid S =
     (case require_generation gid (st_music S) of
        Inl e \<Rightarrow> (Inl e, S)
      | Inr gen \<Rightarrow>
          (case delete_generation gid (st_music S) of
             (Inl e, _) \<Rightarrow> (Inl e, S)
           | (Inr paths, db) \<Rightarrow>
               (Inr (paths, case t_reference_recording_id gen of None \<Rightarrow> {} | Some r \<Rightarrow> {r}), S\<lparr>st_music := db\<rparr>)))"

definition stamp_unused :: "bool \<Rightarrow> string set \<Rightarrow> studio \<Rightarrow> studio" where
  "stamp_unused db_ok candidates S =
     S\<lparr>st_references := snd (commit_unused_stamps db_ok (st_now S) candidates (version_links S) (take_links S) (st_references S))\<rparr>"

text \<open>\<open>DELETE /references/{id}\<close>: an HTTP status on failure, else the file to remove.\<close>

definition api_delete_reference :: "(string \<Rightarrow> string \<Rightarrow> bool) \<Rightarrow> string \<Rightarrow> string \<Rightarrow> studio \<Rightarrow> (nat + string) \<times> studio" where
  "api_delete_reference is_owner_storage_path user_id rid S =
     (case get_owned_reference_recording user_id rid (st_references S) of
        None \<Rightarrow> (Inl 404, S)
      | Some r \<Rightarrow>
          if \<not> is_owner_storage_path user_id (rr_storage_path r) then (Inl 500, S)
          else (case delete_reference_recording r (version_links S) (take_links S) (st_references S) of
                  None \<Rightarrow> (Inl 409, S)
                | Some (path, rows) \<Rightarrow> (Inr path, S\<lparr>st_references := rows\<rparr>)))"

text \<open>The insert of a job that renders a version, in \<open>create_job_with_rate_limit\<close>.\<close>

definition get_version :: "string \<Rightarrow> string \<Rightarrow> studio \<Rightarrow> version_row option" where
  "get_version vid song_id S =
     (case get_version_row vid S of None \<Rightarrow> None | Some v \<Rightarrow> if vn_song_id v = song_id then Some v else None)"

definition lock_song_and_find_version :: "string \<Rightarrow> string \<Rightarrow> studio \<Rightarrow> version_row option" where
  "lock_song_and_find_version song_id vid S =
     (if locked_song song_id S = None then None else get_version vid song_id S)"

definition queue_render :: "string \<Rightarrow> string \<Rightarrow> string \<Rightarrow> string \<Rightarrow> studio \<Rightarrow> job option \<times> studio" where
  "queue_render job_uuid user_id song_id vid S =
     (case lock_song_and_find_version song_id vid S of
        None \<Rightarrow> (None, S)
      | Some v \<Rightarrow>
          (let j = new_job job_uuid (st_now S) ''generate'' (Some user_id) (Some song_id) None (Some vid) None
           in case create_job j (st_jobs S) of None \<Rightarrow> (None, S) | Some jobs \<Rightarrow> (Some j, S\<lparr>st_jobs := jobs\<rparr>)))"

text \<open>
  The rows of \<open>_persist_generation_row\<close>: nothing once the job has ended, an error when the reference is
  gone or a constraint fails.
\<close>

datatype save_error = Reference_Gone | Take_Refused take_error

definition save_take ::
    "string list \<Rightarrow> audio_fs \<Rightarrow> string \<Rightarrow> string \<Rightarrow> new_take \<Rightarrow> studio \<Rightarrow> (save_error + take_row option) \<times> studio" where
  "save_take audio_dir fs job_id user_id nt S =
     (if lock_active_job job_id (st_jobs S) = None then (Inr None, S)
      else case attach_reference user_id (nt_reference_recording_id nt) S of
             None \<Rightarrow> (Inl Reference_Gone, S)
           | Some S1 \<Rightarrow>
               if nt_version_id nt \<notin> vn_id ` set (st_versions S1) then (Inl (Take_Refused Integrity_Error), S)
               else (case create_generation audio_dir fs nt (st_music S1) of
                       (Inl e, _) \<Rightarrow> (Inl (Take_Refused e), S)
                     | (Inr t, db) \<Rightarrow> (Inr (Some t), S1\<lparr>st_music := db\<rparr>)))"

subsection \<open>The machine\<close>

text \<open>
  A job saves a take for the version it has loaded, which \<open>get_version\<close> found under the job's song; a
  version never changes its song.
\<close>

datatype studio_op =
    Create_Song string string string string string string string version_content
  | Save_Song string string string song_save
  | Rename_Song string string string string bool "string option"
  | Move_Song string string string
  | Trash_Song string
  | Restore_Song int string
  | Purge_Song string
  | Delete_Version string bool
  | Queue_Render string string string string
  | Save_Take "string list" audio_fs string string new_take
  | Delete_Take string
  | Upload_Reference string string string string int "rat option"
  | Keep_Reference string string
  | Unkeep_Reference string string
  | Delete_Reference "string \<Rightarrow> string \<Rightarrow> bool" string string
  | Stamp_Unused bool "string set"
  | Reconcile_Stamps bool bool bool
  | Job_Write job_op

fun studio_act :: "studio_op \<Rightarrow> studio \<Rightarrow> studio" where
  "studio_act (Create_Song song_uuid version_uuid u title album slug lang content) S =
     snd (api_create_song song_uuid version_uuid u title album slug lang content S)"
| "studio_act (Save_Song version_uuid u song_id save) S = snd (api_update_song version_uuid u song_id save S)"
| "studio_act (Rename_Song version_uuid song_id title slug force_new u) S = snd (rename_song version_uuid song_id title slug force_new u S)"
| "studio_act (Move_Song song_id album slug) S = snd (move_song song_id album slug S)"
| "studio_act (Trash_Song song_id) S = snd (soft_delete_song song_id S)"
| "studio_act (Restore_Song window song_id) S = snd (restore_song window song_id S)"
| "studio_act (Purge_Song song_id) S = snd (delete_song song_id S)"
| "studio_act (Delete_Version vid dg) S = snd (api_delete_version vid dg S)"
| "studio_act (Queue_Render job_uuid u song_id vid) S = snd (queue_render job_uuid u song_id vid S)"
| "studio_act (Save_Take audio_dir fs job_id u nt) S =
     (if get_version (nt_version_id nt) (nt_song_id nt) S = None then S else snd (save_take audio_dir fs job_id u nt S))"
| "studio_act (Delete_Take gid) S = snd (api_delete_generation gid S)"
| "studio_act (Upload_Reference uuid u path name bytes dur) S =
     (case create_reference_recording uuid (st_now S) u path name bytes dur (st_references S) of
        None \<Rightarrow> S | Some (r, rows) \<Rightarrow> S\<lparr>st_references := rows\<rparr>)"
| "studio_act (Keep_Reference u rid) S = S\<lparr>st_references := snd (keep_reference u rid (st_references S))\<rparr>"
| "studio_act (Unkeep_Reference u rid) S =
     S\<lparr>st_references := snd (unkeep_reference (st_now S) u rid (version_links S) (take_links S) (st_references S))\<rparr>"
| "studio_act (Delete_Reference owner_path u rid) S = snd (api_delete_reference owner_path u rid S)"
| "studio_act (Stamp_Unused db_ok ids) S = stamp_unused db_ok ids S"
| "studio_act (Reconcile_Stamps a b c) S =
     S\<lparr>st_references := snd (reconcile_unused_stamps a b c (st_now S) (version_links S) (take_links S) (st_references S))\<rparr>"
| "studio_act (Job_Write x) S = S\<lparr>st_jobs := job_step (st_jobs S) x\<rparr>"

definition studio_step :: "studio \<Rightarrow> nat \<times> studio_op \<Rightarrow> studio" where
  "studio_step S x = studio_act (snd x) (S\<lparr>st_now := st_now S + 1 + int (fst x)\<rparr>)"

text \<open>Jobs that render a version are made by \<open>Queue_Render\<close> alone.\<close>

fun studio_legal :: "nat \<times> studio_op \<Rightarrow> bool" where
  "studio_legal (n, Job_Write (Create j)) \<longleftrightarrow> legal_op (Create j) \<and> j_version_id j = None"
| "studio_legal (n, Job_Write x) \<longleftrightarrow> legal_op x"
| "studio_legal _ \<longleftrightarrow> True"

end
