(* ===== verification/Studio_Rows.thy ===== *)
theory Studio_Rows
  imports Studio
begin

text \<open>
  What holds of the rows in every state the studio reaches, and that each step keeps it.
\<close>

subsection \<open>What holds of the rows\<close>

text \<open>A later version of a song has a greater number; no two were made at the same moment.\<close>

definition versions_ok :: "studio \<Rightarrow> bool" where
  "versions_ok S \<longleftrightarrow> distinct (map vn_id (st_versions S)) \<and> distinct (map sr_id (st_songs S))
     \<and> (\<forall>v \<in> set (st_versions S). vn_song_id v \<in> sr_id ` set (st_songs S) \<and> vn_created_at v \<le> st_now S)
     \<and> (\<forall>v \<in> set (st_versions S). \<forall>w \<in> set (st_versions S). vn_song_id v = vn_song_id w \<longrightarrow>
          (vn_created_at v < vn_created_at w \<longrightarrow> vn_version_number v < vn_version_number w)
          \<and> (vn_created_at v = vn_created_at w \<longrightarrow> vn_id v = vn_id w))"

definition links_ok :: "studio \<Rightarrow> bool" where
  "links_ok S \<longleftrightarrow> distinct (map rr_id (st_references S))
     \<and> (\<forall>l \<in> set (version_links S @ take_links S). reference_exists (snd l) S)
     \<and> stamps_true (version_links S) (take_links S) (st_references S)"

definition version_keys :: "studio \<Rightarrow> (string \<times> string) set" where
  "version_keys S = (\<lambda>v. (vn_id v, vn_song_id v)) ` set (st_versions S)"

definition renders_ok :: "studio \<Rightarrow> bool" where
  "renders_ok S \<longleftrightarrow> distinct (map g_id (studio_takes S))
     \<and> (\<forall>t \<in> set (studio_takes S). \<forall>v. g_version_id t = Some v \<longrightarrow> (v, g_song_id t) \<in> version_keys S)
     \<and> (\<forall>j \<in> set (st_jobs S). \<forall>v. j_version_id j = Some v \<longrightarrow> v \<in> vn_id ` set (st_versions S))"

definition studio_ok :: "studio \<Rightarrow> bool" where
  "studio_ok S \<longleftrightarrow> versions_ok S \<and> links_ok S \<and> renders_ok S"

lemma versions_okD:
  assumes "versions_ok S"
  shows "distinct (map vn_id (st_versions S))" and "distinct (map sr_id (st_songs S))"
    and "v \<in> set (st_versions S) \<Longrightarrow> vn_song_id v \<in> sr_id ` set (st_songs S)"
    and "v \<in> set (st_versions S) \<Longrightarrow> vn_created_at v \<le> st_now S"
    and "v \<in> set (st_versions S) \<Longrightarrow> w \<in> set (st_versions S) \<Longrightarrow> vn_song_id v = vn_song_id w \<Longrightarrow>
      vn_created_at v < vn_created_at w \<Longrightarrow> vn_version_number v < vn_version_number w"
    and "v \<in> set (st_versions S) \<Longrightarrow> w \<in> set (st_versions S) \<Longrightarrow> vn_song_id v = vn_song_id w \<Longrightarrow>
      vn_created_at v = vn_created_at w \<Longrightarrow> vn_id v = vn_id w"
  using assms unfolding versions_ok_def by blast+

lemma versions_okI:
  assumes "distinct (map vn_id (st_versions S))" and "distinct (map sr_id (st_songs S))"
    and "\<And>v. v \<in> set (st_versions S) \<Longrightarrow> vn_song_id v \<in> sr_id ` set (st_songs S)"
    and "\<And>v. v \<in> set (st_versions S) \<Longrightarrow> vn_created_at v \<le> st_now S"
    and "\<And>v w. v \<in> set (st_versions S) \<Longrightarrow> w \<in> set (st_versions S) \<Longrightarrow> vn_song_id v = vn_song_id w \<Longrightarrow>
      vn_created_at v < vn_created_at w \<Longrightarrow> vn_version_number v < vn_version_number w"
    and "\<And>v w. v \<in> set (st_versions S) \<Longrightarrow> w \<in> set (st_versions S) \<Longrightarrow> vn_song_id v = vn_song_id w \<Longrightarrow>
      vn_created_at v = vn_created_at w \<Longrightarrow> vn_id v = vn_id w"
  shows "versions_ok S"
  using assms unfolding versions_ok_def by blast

lemma versions_ok_same:
  assumes "versions_ok S" and "st_versions S' = st_versions S" and "distinct (map sr_id (st_songs S'))"
    and "sr_id ` set (st_songs S) \<subseteq> sr_id ` set (st_songs S')" and "st_now S \<le> st_now S'"
  shows "versions_ok S'"
  using assms(1,3-5) unfolding versions_ok_def assms(2) by (meson order_trans subsetD)

lemma versions_ok_cong:
  "st_versions S' = st_versions S \<Longrightarrow> map sr_id (st_songs S') = map sr_id (st_songs S) \<Longrightarrow> st_now S' = st_now S \<Longrightarrow>
     versions_ok S' = versions_ok S"
proof -
  assume a: "st_versions S' = st_versions S" "map sr_id (st_songs S') = map sr_id (st_songs S)" "st_now S' = st_now S"
  then have "sr_id ` set (st_songs S') = sr_id ` set (st_songs S)" by (metis list.set_map)
  then show ?thesis by (simp add: versions_ok_def a)
qed

lemma links_ok_cong:
  "version_links S' = version_links S \<Longrightarrow> take_links S' = take_links S \<Longrightarrow> st_references S' = st_references S \<Longrightarrow>
     links_ok S' = links_ok S"
  by (simp add: links_ok_def reference_exists_def cong: option.case_cong)

lemma renders_ok_cong:
  "st_versions S' = st_versions S \<Longrightarrow> studio_takes S' = studio_takes S \<Longrightarrow> st_jobs S' = st_jobs S \<Longrightarrow> renders_ok S' = renders_ok S"
  by (simp add: renders_ok_def version_keys_def)

interpretation song_key: keyed_row sr_id "\<lambda>f. \<forall>s. sr_id (f s) = sr_id s"
  by unfold_locales simp

interpretation version_key: keyed_row vn_id "\<lambda>f. \<forall>v. vn_id (f v) = vn_id v"
  by unfold_locales simp

text \<open>A step that leaves versions, takes, links and jobs alone.\<close>

lemma same_rows_ok:
  assumes "studio_ok S" and "st_versions S' = st_versions S" and "st_music S' = st_music S"
    and "st_references S' = st_references S" and "st_jobs S' = st_jobs S" and "st_now S' = st_now S"
    and "map sr_id (st_songs S') = map sr_id (st_songs S)"
  shows "studio_ok S'"
  using assms versions_ok_cong [of S' S] links_ok_cong [of S' S] renders_ok_cong [of S' S]
  by (simp add: studio_ok_def version_links_def take_links_def)

text \<open>A step that changes references only.\<close>

lemma references_ok:
  assumes "studio_ok S" and ids: "set (map rr_id (st_references S)) \<subseteq> set (map rr_id rows)" and "distinct (map rr_id rows)"
    and "stamps_true (version_links S) (take_links S) rows"
  shows "studio_ok (S\<lparr>st_references := rows\<rparr>)"
proof -
  let ?S = "S\<lparr>st_references := rows\<rparr>"
  have "reference_exists r ?S" if "reference_exists r S" for r
    using that ids by (auto simp: reference_exists_def split: option.splits)
  moreover have "version_links ?S = version_links S" "take_links ?S = take_links S"
    by (simp_all add: version_links_def take_links_def)
  ultimately show ?thesis
    using assms versions_ok_cong [of ?S S] renders_ok_cong [of ?S S]
    by (auto simp: studio_ok_def links_ok_def)
qed

lemma change_song_fields [simp]:
  "st_versions (change_song i f S) = st_versions S" "st_music (change_song i f S) = st_music S"
  "st_references (change_song i f S) = st_references S" "st_jobs (change_song i f S) = st_jobs S"
  "st_now (change_song i f S) = st_now S"
  by (simp_all add: change_song_def)

lemma work_fields [simp]:
  "st_versions (record_song_edit u i k S) = st_versions S" "st_music (record_song_edit u i k S) = st_music S"
  "st_references (record_song_edit u i k S) = st_references S" "st_jobs (record_song_edit u i k S) = st_jobs S"
  "st_now (record_song_edit u i k S) = st_now S" "st_songs (record_song_edit u i k S) = st_songs S"
  by (simp_all add: record_song_edit_def stamp_song_work_def)

lemma changed_ids: "(\<And>s. sr_id (f s) = sr_id s) \<Longrightarrow> map sr_id (st_songs (change_song i f S)) = map sr_id (st_songs S)"
  by (simp add: change_song_def song_key.keys_update)

lemma change_song_ok: "studio_ok S \<Longrightarrow> (\<And>s. sr_id (f s) = sr_id s) \<Longrightarrow> studio_ok (change_song i f S)"
  by (rule same_rows_ok) (simp_all add: changed_ids)

lemma edit_ok: "studio_ok (record_song_edit u i k S) = studio_ok S"
  using same_rows_ok [of S "record_song_edit u i k S"] same_rows_ok [of "record_song_edit u i k S" S] by auto

subsection \<open>Links\<close>

text \<open>A reference that a new link may name: it is there and carries no stamp.\<close>

definition marked_used :: "string option \<Rightarrow> studio \<Rightarrow> bool" where
  "marked_used r S \<longleftrightarrow> reference_exists r S
     \<and> (\<forall>i. r = Some i \<longrightarrow> (\<forall>row \<in> set (st_references S). rr_id row = i \<longrightarrow> rr_unused_since row = None))"

lemma used_None [simp]: "reference_exists None S" "marked_used None S"
  by (simp_all add: marked_used_def reference_exists_def)

lemma links_ok_new:
  assumes ok: "links_ok S" and refs: "st_references S' = st_references S" and used: "marked_used r S"
    and sub: "snd ` set (version_links S' @ take_links S') \<subseteq> {None, r} \<union> snd ` set (version_links S @ take_links S)"
  shows "links_ok S'"
proof -
  have "reference_exists (snd l) S'" if "l \<in> set (version_links S' @ take_links S')" for l
  proof -
    have "snd l = None \<or> snd l = r \<or> snd l \<in> snd ` set (version_links S @ take_links S)" using sub that by blast
    then have "reference_exists (snd l) S"
    proof (elim disjE)
      assume "snd l \<in> snd ` set (version_links S @ take_links S)"
      then obtain l' where "l' \<in> set (version_links S @ take_links S)" "snd l = snd l'" by auto
      then show ?thesis using ok by (metis links_ok_def)
    qed (use used in \<open>simp_all add: marked_used_def\<close>)
    then show ?thesis by (simp add: reference_exists_def refs cong: option.case_cong)
  qed
  moreover have "stamps_true (version_links S') (take_links S') (st_references S)"
    unfolding stamps_true_def
  proof (intro ballI impI)
    fix row assume row: "row \<in> set (st_references S)" "rr_unused_since row \<noteq> None"
    then have "r \<noteq> Some (rr_id row)" using used by (auto simp: marked_used_def)
    moreover have "\<not> rr_is_kept row \<and> Some (rr_id row) \<notin> snd ` set (version_links S @ take_links S)"
      using ok row by (auto simp: links_ok_def stamps_true_def free_of_links_def)
    ultimately show "\<not> rr_is_kept row \<and> free_of_links (version_links S') (take_links S') (rr_id row)"
      using sub by (auto simp: free_of_links_def image_Un)
  qed
  ultimately show ?thesis using ok by (simp add: links_ok_def refs)
qed

lemma attached:
  assumes ok: "studio_ok S" and attach: "attach_reference u r S = Some S1"
  shows "studio_ok S1" and "marked_used r S1" and "\<exists>rows. S1 = S\<lparr>st_references := rows\<rparr>"
proof -
  have "studio_ok S1 \<and> marked_used r S1 \<and> (\<exists>rows. S1 = S\<lparr>st_references := rows\<rparr>)"
  proof (cases r)
    case None
    then show ?thesis using attach ok by (auto simp: attach_reference_def) (metis studio.surjective studio.update_convs(6))
  next
    case (Some i)
    then obtain row where row: "get_owned_reference_recording u i (st_references S) = Some row"
      and S1: "S1 = S\<lparr>st_references := table_update rr_id i (\<lambda>r. r\<lparr>rr_unused_since := None\<rparr>) (st_references S)\<rparr>"
      using attach by (auto simp: attach_reference_def lock_and_mark_reference_used_def split: option.splits)
    have "studio_ok S1"
      unfolding S1
    proof (rule references_ok [OF ok])
      show "stamps_true (version_links S) (take_links S)
          (table_update rr_id i (\<lambda>r. r\<lparr>rr_unused_since := None\<rparr>) (st_references S))"
        using ok by (intro stamps_true_update) (auto simp: studio_ok_def links_ok_def stamps_true_def)
    qed (use ok in \<open>simp_all add: reference_key.keys_update studio_ok_def links_ok_def del: set_map\<close>)
    moreover have "map rr_id (st_references S1) = map rr_id (st_references S)"
      by (simp add: S1 reference_key.keys_update)
    from arg_cong [OF this, of set] have "marked_used r S1"
      using owned_row [OF row] by (auto simp: Some marked_used_def reference_exists_def) (auto simp: S1 table_update_def)
    ultimately show ?thesis using S1 by blast
  qed
  then show "studio_ok S1" "marked_used r S1" "\<exists>rows. S1 = S\<lparr>st_references := rows\<rparr>" by auto
qed

subsection \<open>Takes\<close>

definition take_core :: "take_row \<Rightarrow> string \<times> string \<times> string option \<times> string option" where
  "take_core t = (g_id t, g_song_id t, g_version_id t, t_reference_recording_id t)"

definition cores :: "studio \<Rightarrow> (string \<times> string \<times> string option \<times> string option) list" where
  "cores S = map take_core (studio_takes S)"

lemma take_links_cores: "take_links S = map (\<lambda>c. (fst (snd c), snd (snd (snd c)))) (cores S)"
  by (simp add: take_links_def cores_def take_core_def comp_def)

lemma renders_ok_cores: "renders_ok S \<longleftrightarrow> distinct (map fst (cores S))
     \<and> (\<forall>c \<in> set (cores S). \<forall>v. fst (snd (snd c)) = Some v \<longrightarrow> (v, fst (snd c)) \<in> version_keys S)
     \<and> (\<forall>j \<in> set (st_jobs S). \<forall>v. j_version_id j = Some v \<longrightarrow> v \<in> vn_id ` set (st_versions S))"
  by (simp add: renders_ok_def cores_def take_core_def comp_def)

lemma has_takes_cores: "version_has_takes vid S \<longleftrightarrow> Some vid \<in> (\<lambda>c. fst (snd (snd c))) ` set (cores S)"
  by (force simp: version_has_takes_def cores_def take_core_def list_ex_iff image_iff)

lemma deleted_cores:
  "map take_core (td_takes (delete_take_row gid db)) = filter (\<lambda>c. fst c \<noteq> gid) (map take_core (td_takes db))"
  by (simp add: delete_take_row_def filter_map comp_def take_core_def if_distrib cong: if_cong)

lemma dropped_cores:
  "map take_core (td_takes (foldl (\<lambda>db t. delete_take_row (g_id t) db) db ts))
     = filter (\<lambda>c. fst c \<notin> g_id ` set ts) (map take_core (td_takes db))"
proof (induction ts arbitrary: db)
  case (Cons t ts)
  show ?case by (simp add: Cons.IH deleted_cores conj_commute)
qed simp

lemma drop_takes_cores:
  assumes "renders_ok S" and "drop_takes P S = (paths, S')"
  shows "S' = S\<lparr>st_music := st_music S'\<rparr> \<and> cores S' = map take_core (filter (\<lambda>t. \<not> P t) (studio_takes S))"
proof -
  have S': "S' = S\<lparr>st_music := foldl (\<lambda>db t. delete_take_row (g_id t) db) (st_music S) (sort_key g_id (filter P (studio_takes S)))\<rparr>"
    using assms(2) by (auto simp: drop_takes_def Let_def)
  have inj: "inj_on g_id (set (studio_takes S))" using assms(1) by (simp add: renders_ok_def distinct_map)
  have "cores S' = filter (\<lambda>c. fst c \<notin> g_id ` {t \<in> set (studio_takes S). P t}) (map take_core (studio_takes S))"
    unfolding S' cores_def by (simp add: dropped_cores)
  also have "\<dots> = map take_core (filter (\<lambda>t. \<not> P t) (studio_takes S))"
    unfolding filter_map comp_def take_core_def fst_conv
    by (rule arg_cong [where f = "map _"], rule filter_cong) (use inj in \<open>auto simp: inj_on_def\<close>)
  finally show ?thesis using S' by simp
qed

lemma cores_take_links: "set (cores S') \<subseteq> set (cores S) \<Longrightarrow> set (take_links S') \<subseteq> set (take_links S)"
  by (auto simp: take_links_cores)

text \<open>Fewer takes.\<close>

lemma drop_takes_ok:
  assumes ok: "studio_ok S" and drop: "drop_takes P S = (paths, S')"
  shows "studio_ok S'"
proof -
  have cores: "S' = S\<lparr>st_music := st_music S'\<rparr>" "cores S' = map take_core (filter (\<lambda>t. \<not> P t) (studio_takes S))"
    using drop_takes_cores [OF _ drop] ok by (auto simp: studio_ok_def)
  have rows: "st_versions S' = st_versions S" "st_songs S' = st_songs S" "st_references S' = st_references S"
      "st_jobs S' = st_jobs S" "st_now S' = st_now S"
    by (subst cores(1), simp)+
  have sub: "set (cores S') \<subseteq> set (cores S)" unfolding cores(2) cores_def [of S] by auto
  have vlinks: "version_links S' = version_links S" by (simp add: version_links_def rows)
  have "links_ok S'"
    using links_ok_new [of S S' None] ok cores_take_links [OF sub] by (auto simp: studio_ok_def rows vlinks)
  moreover have "distinct (map fst (cores S'))"
    using ok by (simp add: cores(2) studio_ok_def renders_ok_def take_core_def comp_def distinct_map_filter)
  then have "renders_ok S'"
    using ok sub by (auto simp: studio_ok_def renders_ok_cores rows version_keys_def)
  moreover have "versions_ok S'" using ok versions_ok_cong [of S' S] by (simp add: studio_ok_def rows)
  ultimately show ?thesis by (simp add: studio_ok_def)
qed

text \<open>Fewer versions, none of which a take names any more.\<close>

lemma drop_versions_ok:
  assumes ok: "studio_ok S" and free: "\<And>t v. t \<in> set (studio_takes S) \<Longrightarrow> g_version_id t = Some (vn_id v) \<Longrightarrow>
      v \<in> set (st_versions S) \<Longrightarrow> \<not> P v"
  shows "studio_ok (drop_versions P S)"
proof -
  let ?S = "drop_versions P S"
  have rows: "st_versions ?S = filter (\<lambda>v. \<not> P v) (st_versions S)" "st_music ?S = st_music S" "st_songs ?S = st_songs S"
      "st_references ?S = st_references S" "st_now ?S = st_now S"
    and jobs: "st_jobs ?S = map (\<lambda>j. if \<exists>v \<in> vn_id ` set (filter P (st_versions S)). j_version_id j = Some v
        then j\<lparr>j_version_id := None\<rparr> else j) (st_jobs S)"
    by (simp_all add: drop_versions_def Let_def)
  have "versions_ok ?S"
    using ok by (auto simp: studio_ok_def versions_ok_def rows distinct_map_filter)
  moreover have "links_ok ?S"
    using links_ok_new [of S ?S None] ok by (auto simp: studio_ok_def rows version_links_def take_links_def)
  moreover have "renders_ok ?S"
    unfolding renders_ok_def
  proof (intro conjI ballI allI impI)
    show "distinct (map g_id (studio_takes ?S))" using ok by (simp add: rows studio_ok_def renders_ok_def)
  next
    fix t v assume t: "t \<in> set (studio_takes ?S)" "g_version_id t = Some v"
    then have "(v, g_song_id t) \<in> version_keys S" using ok by (auto simp: rows studio_ok_def renders_ok_def)
    then obtain w where "w \<in> set (st_versions S)" "vn_id w = v" "vn_song_id w = g_song_id t" by (auto simp: version_keys_def)
    then show "(v, g_song_id t) \<in> version_keys ?S" using free [of t w] t by (force simp: version_keys_def rows)
  next
    fix j v assume j: "j \<in> set (st_jobs ?S)" "j_version_id j = Some v"
    let ?gone = "vn_id ` set (filter P (st_versions S))"
    obtain j0 where j0: "j0 \<in> set (st_jobs S)" "j = (if \<exists>v \<in> ?gone. j_version_id j0 = Some v then j0\<lparr>j_version_id := None\<rparr> else j0)"
      using j(1) unfolding jobs set_map by (rule imageE) (rule that)
    have "\<not> (\<exists>v \<in> ?gone. j_version_id j0 = Some v)"
    proof
      assume "\<exists>v \<in> ?gone. j_version_id j0 = Some v"
      then have "j = j0\<lparr>j_version_id := None\<rparr>" by (subst j0(2)) (rule if_P)
      then show False using j(2) by simp
    qed
    moreover from this have "j = j0" by (subst j0(2)) (rule if_not_P)
    ultimately have "j_version_id j0 = Some v" and kept: "v \<notin> ?gone" using j(2) by blast+
    then have "v \<in> vn_id ` set (st_versions S)" using ok j0(1) unfolding studio_ok_def renders_ok_def by blast
    then obtain w where "w \<in> set (st_versions S)" "vn_id w = v" by auto
    then show "v \<in> vn_id ` set (st_versions ?S)" using kept by (auto simp: rows)
  qed
  ultimately show ?thesis by (simp add: studio_ok_def)
qed

lemma detach_takes_ok:
  assumes ok: "studio_ok S"
  shows "studio_ok (S\<lparr>st_music := (st_music S)\<lparr>td_takes :=
    map (\<lambda>t. if g_version_id t = Some vid then t\<lparr>g_version_id := None\<rparr> else t) (studio_takes S)\<rparr>\<rparr>)" (is "studio_ok ?S")
proof -
  have "take_links ?S = take_links S" "version_links ?S = version_links S"
    by (simp_all add: take_links_def version_links_def comp_def if_distrib cong: if_cong)
  moreover have "renders_ok ?S"
    unfolding renders_ok_def
  proof (intro conjI)
    have "map g_id (studio_takes ?S) = map g_id (studio_takes S)"
      by (simp add: comp_def if_distrib cong: if_cong)
    then show "distinct (map g_id (studio_takes ?S))" using ok by (simp only: studio_ok_def renders_ok_def)
  qed (use ok in \<open>auto simp: studio_ok_def renders_ok_def version_keys_def split: if_splits\<close>)
  ultimately show ?thesis
    using ok links_ok_cong [of ?S S] versions_ok_cong [of ?S S] by (simp add: studio_ok_def)
qed

lemma delete_version_ok:
  assumes ok: "studio_ok S"
  shows "studio_ok (snd (delete_version vid dg S))"
proof (cases "get_version_row vid S")
  case (Some v)
  obtain paths S1 where release: "release_generations vid dg S = (paths, S1)" by fastforce
  have "studio_ok S1 \<and> st_versions S1 = st_versions S \<and> (\<forall>t \<in> set (studio_takes S1). g_version_id t \<noteq> Some vid)"
  proof (cases dg)
    case True
    then have drop: "drop_takes (\<lambda>t. g_version_id t = Some vid) S = (paths, S1)"
      using release by (simp add: release_generations_def)
    have S1: "S1 = S\<lparr>st_music := st_music S1\<rparr>" "\<not> version_has_takes vid S1"
      using drop_takes_cores [OF _ drop] ok by (auto simp: studio_ok_def has_takes_cores take_core_def)
    moreover have "st_versions S1 = st_versions S" by (subst S1(1)) simp
    ultimately show ?thesis using drop_takes_ok [OF ok drop] by (auto simp: version_has_takes_def list_ex_iff)
  next
    case False
    then show ?thesis using release detach_takes_ok [OF ok] by (auto simp: release_generations_def)
  qed
  then have "studio_ok (drop_versions (\<lambda>v. vn_id v = vid) S1)"
    by (intro drop_versions_ok) auto
  then show ?thesis using ok by (simp add: delete_version_def Some release)
qed (simp add: delete_version_def ok)

lemma delete_song_ok:
  assumes ok: "studio_ok S"
  shows "studio_ok (snd (delete_song song_id S))"
proof (cases "table_get sr_id song_id (st_songs S)")
  case (Some row)
  obtain paths S1 where drop: "drop_takes (\<lambda>t. g_song_id t = song_id) S = (paths, S1)" by fastforce
  have S1: "studio_ok S1" "S1 = S\<lparr>st_music := st_music S1\<rparr>"
    and cores: "cores S1 = map take_core (filter (\<lambda>t. \<not> g_song_id t = song_id) (studio_takes S))"
    using drop_takes_ok [OF ok drop] drop_takes_cores [OF _ drop] ok by (auto simp: studio_ok_def)
  have none: "g_song_id t \<noteq> song_id" if "t \<in> set (studio_takes S1)" for t
  proof -
    have "take_core t \<in> set (cores S1)" using that by (simp add: cores_def)
    then show ?thesis by (auto simp: cores take_core_def)
  qed
  have free: "\<not> vn_song_id v = song_id" if "t \<in> set (studio_takes S1)" "g_version_id t = Some (vn_id v)" "v \<in> set (st_versions S1)" for t v
  proof -
    have "(vn_id v, g_song_id t) \<in> version_keys S1" using S1(1) that by (auto simp: studio_ok_def renders_ok_def)
    then have "vn_song_id v = g_song_id t"
      using versions_okD(1) [of S1] S1(1) that(3) by (auto simp: studio_ok_def version_keys_def distinct_map inj_on_def)
    then show ?thesis using none [OF that(1)] by simp
  qed
  define S2 where "S2 = drop_versions (\<lambda>v. vn_song_id v = song_id) S1"
  have S2: "studio_ok S2" unfolding S2_def by (rule drop_versions_ok [OF S1(1)]) (rule free)
  have songs: "st_songs S2 = st_songs S" by (subst S2_def, subst S1(2)) (simp add: drop_versions_def Let_def)
  let ?S = "S2\<lparr>st_songs := filter (\<lambda>s. sr_id s \<noteq> song_id) (st_songs S2),
      st_music := (st_music S2)\<lparr>td_songs := filter (\<lambda>i. i \<noteq> song_id) (td_songs (st_music S2))\<rparr>,
      st_work := filter (\<lambda>w. snd (fst w) \<noteq> song_id) (st_work S2)\<rparr>"
  have kept: "vn_song_id v \<in> sr_id ` set (st_songs ?S)" if "v \<in> set (st_versions ?S)" for v
  proof -
    have "v \<in> set (st_versions S2)" "vn_song_id v \<noteq> song_id" using that by (auto simp: S2_def drop_versions_def Let_def)
    then show ?thesis using versions_okD(3) [of S2 v] S2 by (force simp: studio_ok_def)
  qed
  have old: "versions_ok S2" using S2 by (simp add: studio_ok_def)
  have "versions_ok ?S"
  proof (rule versions_okI)
    show "distinct (map sr_id (st_songs ?S))" using distinct_map_filter [OF versions_okD(2) [OF old]] by simp
    show "distinct (map vn_id (st_versions ?S))" using versions_okD(1) [OF old] by simp
    show "vn_song_id v \<in> sr_id ` set (st_songs ?S)" if "v \<in> set (st_versions ?S)" for v by (rule kept [OF that])
    show "vn_created_at v \<le> st_now ?S" if "v \<in> set (st_versions ?S)" for v using versions_okD(4) [OF old, of v] that by simp
    fix v w assume vw: "v \<in> set (st_versions ?S)" "w \<in> set (st_versions ?S)" "vn_song_id v = vn_song_id w"
    show "vn_version_number v < vn_version_number w" if "vn_created_at v < vn_created_at w"
      using versions_okD(5) [OF old, of v w] vw that by simp
    show "vn_id v = vn_id w" if "vn_created_at v = vn_created_at w"
      using versions_okD(6) [OF old, of v w] vw that by simp
  qed
  moreover have "links_ok ?S" using S2 links_ok_cong [of ?S S2] by (simp add: studio_ok_def version_links_def take_links_def)
  moreover have "renders_ok ?S" using S2 renders_ok_cong [of ?S S2] by (simp add: studio_ok_def)
  moreover have "snd (delete_song song_id S) = ?S" by (simp add: delete_song_def Some drop Let_def S2_def)
  ultimately show ?thesis by (simp add: studio_ok_def)
qed (simp add: delete_song_def ok)

subsection \<open>Saves\<close>

lemma latest_Some:
  assumes "latest_version song_id S = Some p"
  shows "p \<in> set (st_versions S) \<and> vn_song_id p = song_id
     \<and> (\<forall>v \<in> set (st_versions S). vn_song_id v = song_id \<longrightarrow> vn_created_at v \<le> vn_created_at p)"
proof -
  let ?own = "filter (\<lambda>v. vn_song_id v = song_id) (st_versions S)"
  obtain vs where vs: "sort_key vn_created_at ?own = vs @ [p]"
    using assms by (auto simp: latest_version_def split: list.splits)
  have "sorted (map vn_created_at (vs @ [p]))" by (metis vs sorted_sort_key)
  moreover have "set (vs @ [p]) = set ?own" by (metis vs set_sort)
  ultimately show ?thesis by (fastforce simp: sorted_append)
qed

lemma latest_None: "latest_version song_id S = None \<Longrightarrow> v \<in> set (st_versions S) \<Longrightarrow> vn_song_id v \<noteq> song_id"
  by (force simp: latest_version_def split: list.splits dest: arg_cong [where f = set])

text \<open>The clock has moved on since every row was made.\<close>

definition clock_ahead :: "studio \<Rightarrow> bool" where
  "clock_ahead S \<longleftrightarrow> (\<forall>v \<in> set (st_versions S). vn_created_at v < st_now S)"

lemma latest_number:
  assumes "versions_ok S" and "latest_version song_id S = Some p" and "v \<in> set (st_versions S)" and "vn_song_id v = song_id"
  shows "vn_version_number v \<le> vn_version_number p"
proof -
  have p: "p \<in> set (st_versions S)" "vn_song_id p = song_id" "vn_created_at v \<le> vn_created_at p"
    using latest_Some [OF assms(2)] assms(3,4) by auto
  show ?thesis
  proof (cases "vn_created_at v = vn_created_at p")
    case True
    then have "vn_id v = vn_id p" using versions_okD(6) [OF assms(1,3) p(1)] assms(4) p(2) by simp
    then have "v = p" using versions_okD(1) [OF assms(1)] assms(3) p(1) by (auto simp: distinct_map inj_on_def)
    then show ?thesis by simp
  next
    case False
    then have "vn_version_number v < vn_version_number p"
      using versions_okD(5) [OF assms(1,3) p(1)] assms(4) p by simp
    then show ?thesis by simp
  qed
qed

lemma new_version_ok:
  assumes "versions_ok S" and "clock_ahead S" and "st_versions S' = st_versions S @ [v]" and "map sr_id (st_songs S') = map sr_id (st_songs S)"
    and "st_now S' = st_now S" and "vn_created_at v = st_now S" and "vn_id v \<notin> vn_id ` set (st_versions S)"
    and "vn_song_id v \<in> sr_id ` set (st_songs S)"
    and "\<And>w. w \<in> set (st_versions S) \<Longrightarrow> vn_song_id w = vn_song_id v \<Longrightarrow> vn_version_number w < vn_version_number v"
  shows "versions_ok S'"
proof -
  have ids: "sr_id ` set (st_songs S') = sr_id ` set (st_songs S)" by (metis assms(4) list.set_map)
  note old = versions_okD [OF assms(1)]
  have before: "vn_created_at w < vn_created_at v" if "w \<in> set (st_versions S)" for w
    using assms(2,6) that by (simp add: clock_ahead_def)
  show ?thesis
  proof (rule versions_okI)
    show "distinct (map vn_id (st_versions S'))" using old(1) assms(3,7) by simp
    show "distinct (map sr_id (st_songs S'))" using old(2) assms(4) by simp
  next
    fix w assume "w \<in> set (st_versions S')"
    then show "vn_song_id w \<in> sr_id ` set (st_songs S')" "vn_created_at w \<le> st_now S'"
      using old(3,4) [of w] assms(3,5,6,8) by (auto simp: ids)
  next
    fix w u assume "w \<in> set (st_versions S')" "u \<in> set (st_versions S')" and song: "vn_song_id w = vn_song_id u"
    then have w: "w = v \<or> w \<in> set (st_versions S)" and u: "u = v \<or> u \<in> set (st_versions S)" by (auto simp: assms(3))
    show "vn_version_number w < vn_version_number u" if "vn_created_at w < vn_created_at u"
      using w u that old(5) [of w u] assms(9) [of w] before [of u] song by auto
    show "vn_id w = vn_id u" if "vn_created_at w = vn_created_at u"
      using w u that old(6) [of w u] before [of u] before [of w] song by auto
  qed
qed

lemma rewritten_version_ok:
  assumes "versions_ok S" and "st_versions S' = table_update vn_id vid (\<lambda>v. v\<lparr>vn_content := content\<rparr>) (st_versions S)"
    and "map sr_id (st_songs S') = map sr_id (st_songs S)" and "st_now S' = st_now S"
  shows "versions_ok S'"
proof -
  have ids: "sr_id ` set (st_songs S') = sr_id ` set (st_songs S)" by (metis assms(3) list.set_map)
  note old = versions_okD [OF assms(1)]
  have rows: "\<exists>v \<in> set (st_versions S). vn_id v = vn_id w \<and> vn_song_id v = vn_song_id w \<and> vn_created_at v = vn_created_at w
      \<and> vn_version_number v = vn_version_number w" if "w \<in> set (st_versions S')" for w
    using that by (auto simp: assms(2) table_update_def)
  show ?thesis
  proof (rule versions_okI)
    show "distinct (map vn_id (st_versions S'))" using old(1) by (simp add: assms(2) version_key.keys_update)
    show "distinct (map sr_id (st_songs S'))" using old(2) assms(3) by simp
  next
    fix w assume w: "w \<in> set (st_versions S')"
    show "vn_song_id w \<in> sr_id ` set (st_songs S')" using rows [OF w] old(3) by (metis ids)
    show "vn_created_at w \<le> st_now S'" using rows [OF w] old(4) by (metis assms(4))
  next
    fix w u assume w: "w \<in> set (st_versions S')" and u: "u \<in> set (st_versions S')" and song: "vn_song_id w = vn_song_id u"
    show "vn_version_number w < vn_version_number u" if "vn_created_at w < vn_created_at u"
      using rows [OF w] rows [OF u] old(5) that song by metis
    show "vn_id w = vn_id u" if "vn_created_at w = vn_created_at u"
      using rows [OF w] rows [OF u] old(6) that song by metis
  qed
qed

text \<open>Versions that are added or rewritten.\<close>

lemma version_refs: "snd ` set (version_links S) = (\<lambda>v. vc_reference_recording_id (vn_content v)) ` set (st_versions S)"
  by (simp add: version_links_def image_image)

lemma more_versions_ok:
  assumes ok: "studio_ok S" and rows: "versions_ok S'" "version_keys S \<subseteq> version_keys S'"
    and same: "st_references S' = st_references S" "studio_takes S' = studio_takes S" "st_jobs S' = st_jobs S"
    and refs: "\<And>v. v \<in> set (st_versions S') \<Longrightarrow>
        vc_reference_recording_id (vn_content v) \<in> {None, r} \<union> (\<lambda>v. vc_reference_recording_id (vn_content v)) ` set (st_versions S)"
    and used: "marked_used r S"
  shows "studio_ok S'"
proof -
  have takes: "take_links S' = take_links S" "cores S' = cores S" by (simp_all add: take_links_def cores_def same)
  have "(\<lambda>v. vc_reference_recording_id (vn_content v)) ` set (st_versions S')
      \<subseteq> {None, r} \<union> (\<lambda>v. vc_reference_recording_id (vn_content v)) ` set (st_versions S)"
    by (rule image_subsetI) (rule refs)
  then have "snd ` set (version_links S' @ take_links S') \<subseteq> {None, r} \<union> snd ` set (version_links S @ take_links S)"
    unfolding set_append image_Un version_refs takes by auto
  then have "links_ok S'" using links_ok_new [OF _ same(1) used] ok by (simp add: studio_ok_def)
  moreover have "vn_id ` set (st_versions S) \<subseteq> vn_id ` set (st_versions S')"
    using image_mono [OF rows(2), of fst] by (simp add: version_keys_def image_image)
  then have "renders_ok S'"
    using ok rows(2) unfolding studio_ok_def renders_ok_cores takes same by blast
  ultimately show ?thesis using rows(1) by (simp add: studio_ok_def)
qed

lemma added_version_ok:
  assumes ok: "studio_ok S" and clock: "clock_ahead S"
    and v: "vn_created_at v = st_now S" "vn_id v \<notin> vn_id ` set (st_versions S)" "vn_song_id v \<in> sr_id ` set (st_songs S)"
      "\<And>w. w \<in> set (st_versions S) \<Longrightarrow> vn_song_id w = vn_song_id v \<Longrightarrow> vn_version_number w < vn_version_number v"
    and same: "st_versions S' = st_versions S @ [v]" "map sr_id (st_songs S') = map sr_id (st_songs S)" "studio_takes S' = studio_takes S"
      "st_references S' = st_references S" "st_jobs S' = st_jobs S" "st_now S' = st_now S"
      "vn_content v = content"
    and ref: "vc_reference_recording_id content \<in> {None, r} \<union> (\<lambda>v. vc_reference_recording_id (vn_content v)) ` set (st_versions S)"
    and used: "marked_used r S"
  shows "studio_ok S'"
proof (rule more_versions_ok [OF ok _ _ same(4,3,5) _ used])
  show "versions_ok S'"
    using new_version_ok [OF _ clock same(1,2,6) v] ok by (simp add: studio_ok_def)
  show "version_keys S \<subseteq> version_keys S'" by (auto simp: version_keys_def same(1))
  show "vc_reference_recording_id (vn_content w) \<in> {None, r} \<union> (\<lambda>v. vc_reference_recording_id (vn_content v)) ` set (st_versions S)"
    if "w \<in> set (st_versions S')" for w
    using that ref by (auto simp: same(1,7))
qed

lemma rewritten_keys:
  "(\<lambda>v. (vn_id v, vn_song_id v)) ` set (table_update vn_id vid (\<lambda>v. v\<lparr>vn_content := content\<rparr>) vs)
     = (\<lambda>v. (vn_id v, vn_song_id v)) ` set vs"
  by (induction vs) (auto simp: table_update_def)

lemma rewritten_rows_ok:
  assumes ok: "studio_ok S"
    and same: "st_versions S' = table_update vn_id vid (\<lambda>v. v\<lparr>vn_content := content\<rparr>) (st_versions S)"
      "map sr_id (st_songs S') = map sr_id (st_songs S)" "studio_takes S' = studio_takes S"
      "st_references S' = st_references S" "st_jobs S' = st_jobs S" "st_now S' = st_now S"
    and ref: "vc_reference_recording_id content \<in> {None, r} \<union> (\<lambda>v. vc_reference_recording_id (vn_content v)) ` set (st_versions S)"
    and used: "marked_used r S"
  shows "studio_ok S'"
proof (rule more_versions_ok [OF ok _ _ same(4,3,5) _ used])
  show "versions_ok S'" using rewritten_version_ok [OF _ same(1,2,6)] ok by (simp add: studio_ok_def)
  show "version_keys S \<subseteq> version_keys S'" by (simp add: version_keys_def same(1) rewritten_keys)
  show "vc_reference_recording_id (vn_content w) \<in> {None, r} \<union> (\<lambda>v. vc_reference_recording_id (vn_content v)) ` set (st_versions S)"
    if "w \<in> set (st_versions S')" for w
    using that ref by (auto simp: same(1) table_update_def)
qed

lemma saved_reference:
  assumes "prev = latest_version song_id S"
  shows "vc_reference_recording_id (saved_content save prev) \<in>
    {None, case sv_reference_recording_id save of Unset \<Rightarrow> None | Set_To r \<Rightarrow> r}
    \<union> (\<lambda>v. vc_reference_recording_id (vn_content v)) ` set (st_versions S)"
proof (cases prev)
  case None
  then show ?thesis by (cases "sv_reference_recording_id save") (simp_all add: saved_content_def carried_unless_set_def)
next
  case (Some p)
  then have "p \<in> set (st_versions S)" using latest_Some [of song_id S p] assms by simp
  then show ?thesis
    by (cases "sv_reference_recording_id save") (auto simp: Some saved_content_def carried_unless_set_def)
qed

lemma update_song_ok:
  assumes ok: "studio_ok S" and clock: "clock_ahead S"
    and used: "\<And>r. sv_reference_recording_id save = Set_To r \<Longrightarrow> marked_used r S"
  shows "studio_ok (snd (update_song version_uuid song_id save S))"
proof (cases "locked_song song_id S")
  case (Some song)
  define prev where "prev = latest_version song_id S"
  have song: "song_id \<in> sr_id ` set (st_songs S)"
    using Some by (auto simp: locked_song_def split: option.splits if_splits dest!: table_get_Some)
  have ref: "marked_used (case sv_reference_recording_id save of Unset \<Rightarrow> None | Set_To r \<Rightarrow> r) S"
    using used by (cases "sv_reference_recording_id save") auto
  note link = saved_reference [OF prev_def, of save]
  note added = added_version_ok [OF ok clock _ _ _ _ _ _ _ _ _ _ _ link ref]
  note rewritten = rewritten_rows_ok [OF ok _ _ _ _ _ _ link ref]
  show ?thesis
  proof (cases prev)
    case None
    then have "w \<in> set (st_versions S) \<Longrightarrow> vn_song_id w \<noteq> song_id" for w using latest_None prev_def by metis
    then show ?thesis using ok song
      by (auto simp: update_song_def Some Let_def prev_def [symmetric] None changed_ids intro!: added split: option.split)
  next
    case (Some p)
    have less: "w \<in> set (st_versions S) \<Longrightarrow> vn_song_id w = song_id \<Longrightarrow> vn_version_number w < vn_version_number p + 1" for w
      using latest_number [of S song_id p w] ok Some by (auto simp: studio_ok_def prev_def)
    show ?thesis
    proof (cases "rewrites_in_place p (saved_content save (Some p)) (sv_force_new_version save) S")
      case True
      then show ?thesis using ok \<open>locked_song song_id S = Some song\<close>
        by (auto simp: update_song_def Let_def prev_def [symmetric] Some changed_ids intro!: rewritten split: option.split)
    next
      case False
      then show ?thesis using ok song \<open>locked_song song_id S = Some song\<close> less
        by (auto simp: update_song_def Let_def prev_def [symmetric] Some changed_ids intro!: added split: option.split)
    qed
  qed
qed (simp add: update_song_def ok)

subsection \<open>Every step\<close>

lemma tick_ok:
  assumes "studio_ok S" and "st_now S < now"
  shows "studio_ok (S\<lparr>st_now := now\<rparr>)" and "clock_ahead (S\<lparr>st_now := now\<rparr>)"
proof -
  let ?S = "S\<lparr>st_now := now\<rparr>"
  have old: "versions_ok S" using assms(1) by (simp add: studio_ok_def)
  have before: "vn_created_at v < now" if "v \<in> set (st_versions S)" for v
    using versions_okD(4) [OF old that] assms(2) by simp
  then show "clock_ahead ?S" by (simp add: clock_ahead_def)
  have "versions_ok ?S"
    using assms(2) versions_okD(2) [OF old] by (intro versions_ok_same [OF old]) simp_all
  then show "studio_ok ?S"
    using assms(1) links_ok_cong [of ?S S] renders_ok_cong [of ?S S]
    by (simp add: studio_ok_def version_links_def take_links_def)
qed

lemma create_song_ok:
  assumes ok: "studio_ok S" and clock: "clock_ahead S" and used: "marked_used (vc_reference_recording_id content) S"
  shows "studio_ok (snd (create_song song_uuid version_uuid title album slug lang created_by content S))"
proof -
  define song where "song = \<lparr>sr_id = song_uuid, sr_album_id = album, sr_title = title, sr_slug = slug,
      sr_track_number = next_track_number album S, sr_vocal_language = lang, sr_updated_at = st_now S, sr_deleted_at = None\<rparr>"
  define v where "v = \<lparr>vn_id = version_uuid, vn_song_id = song_uuid, vn_version_number = 1, vn_content = content, vn_created_at = st_now S\<rparr>"
  define S0 where "S0 = S\<lparr>st_songs := st_songs S @ [song]\<rparr>"
  define S1 where "S1 = S\<lparr>st_songs := st_songs S @ [song], st_versions := st_versions S @ [v],
      st_music := (st_music S)\<lparr>td_songs := td_songs (st_music S) @ [song_uuid]\<rparr>\<rparr>"
  have old: "versions_ok S" using ok by (simp add: studio_ok_def)
  have "studio_ok S1" if fresh: "song_uuid \<notin> sr_id ` set (st_songs S)" "version_uuid \<notin> vn_id ` set (st_versions S)"
  proof -
    have "versions_ok S0"
      using fresh(1) versions_okD(2) [OF old] by (intro versions_ok_same [OF old]) (auto simp: S0_def song_def)
    then have "studio_ok S0"
      using ok links_ok_cong [of S0 S] renders_ok_cong [of S0 S]
      by (simp add: studio_ok_def version_links_def take_links_def S0_def)
    moreover have "clock_ahead S0" "marked_used (vc_reference_recording_id content) S0"
      using clock used by (simp_all add: S0_def clock_ahead_def marked_used_def reference_exists_def cong: option.case_cong)
    moreover have "vn_song_id w \<noteq> song_uuid" if "w \<in> set (st_versions S)" for w
      using versions_okD(3) [OF old that] fresh(1) by auto
    ultimately show ?thesis using fresh
      by (rule_tac added_version_ok [where S = S0 and v = v and r = "vc_reference_recording_id content" and content = content])
        (simp_all add: v_def S1_def S0_def song_def)
  qed
  then show ?thesis using ok
    by (auto simp: create_song_def Let_def edit_ok S1_def v_def song_def split: option.split)
qed

lemma rename_song_ok:
  assumes ok: "studio_ok S" and clock: "clock_ahead S"
  shows "studio_ok (snd (rename_song version_uuid song_id title slug force_new edited_by S))"
proof (cases "locked_song song_id S")
  case (Some song)
  define S1 where "S1 = (case edited_by of None \<Rightarrow> S
      | Some u \<Rightarrow> if title \<noteq> sr_title song then record_song_edit u song_id Work_Renamed S else S)"
  define S2 where "S2 = change_song song_id (\<lambda>s. s\<lparr>sr_title := title, sr_slug := slug,
      sr_updated_at := (if title = sr_title song \<and> slug = sr_slug song then sr_updated_at s else st_now S)\<rparr>) S1"
  have "studio_ok S1" using ok by (simp add: S1_def edit_ok split: option.split)
  then have S2: "studio_ok S2" unfolding S2_def by (rule change_song_ok) simp
  have "clock_ahead S2" using clock by (simp add: S2_def S1_def clock_ahead_def split: option.split)
  from update_song_ok [OF S2 this, of plain_save version_uuid song_id]
  have "studio_ok (snd (update_song version_uuid song_id plain_save S2))" by (simp add: plain_save_def)
  moreover obtain r S3 where "update_song version_uuid song_id plain_save S2 = (r, S3)" by fastforce
  ultimately show ?thesis using ok S2
    by (cases r) (simp_all add: rename_song_def Some Let_def S1_def [symmetric] S2_def [symmetric])
qed (simp add: rename_song_def ok)

lemma jobs_ok:
  assumes ok: "studio_ok S" and "\<And>j v. j \<in> set jobs \<Longrightarrow> j_version_id j = Some v \<Longrightarrow> v \<in> vn_id ` set (st_versions S)"
  shows "studio_ok (S\<lparr>st_jobs := jobs\<rparr>)"
proof -
  let ?S = "S\<lparr>st_jobs := jobs\<rparr>"
  show ?thesis
    using ok assms(2) versions_ok_cong [of ?S S] links_ok_cong [of ?S S]
    by (simp add: studio_ok_def renders_ok_def version_keys_def version_links_def take_links_def)
qed

lemma queue_render_ok:
  assumes ok: "studio_ok S"
  shows "studio_ok (snd (queue_render job_uuid u song_id vid S))"
proof (cases "lock_song_and_find_version song_id vid S")
  case (Some v)
  then have "vid \<in> vn_id ` set (st_versions S)"
    by (auto simp: lock_song_and_find_version_def get_version_def split: if_splits option.splits dest!: table_get_Some)
  then show ?thesis using ok
    by (auto simp: queue_render_def Some Let_def create_job_def new_job_def studio_ok_def [of S] renders_ok_def
        intro!: jobs_ok split: option.split)
qed (simp add: queue_render_def ok)

text \<open>No write of a job moves it to another version.\<close>

lemma update_keeps: "(\<And>r. g (f r) = g r) \<Longrightarrow> map g (table_update k i f rows) = map g rows"
  by (simp add: table_update_def)

lemma write_status_version [simp]: "j_version_id (write_status u now j) = j_version_id j"
  by (simp add: write_status_def write_fields_def move_generation_start_def Let_def)

lemma fail_job_version [simp]: "j_version_id (fail_job e et now j) = j_version_id j"
  by (simp add: fail_job_def)

lemma fail_restarted_version [simp]: "j_version_id (fail_restarted now r j) = j_version_id j"
  by (simp add: fail_restarted_def)

lemma job_step_versions:
  "(\<And>j. x \<noteq> Create j) \<Longrightarrow> map j_version_id (job_step jobs x) = map j_version_id jobs"
  by (cases x)
    (auto simp: claim_next_cover_job_def claim_cover_candidate_def update_job_status_def update_job_heartbeat_def
      recover_stale_job_def recover_stale_job_if_unchanged_def write_restarted_def update_keeps Let_def split: option.split)

lemma job_step_version:
  assumes "j \<in> set (job_step jobs x)" and "studio_legal (n, Job_Write x)" and "j_version_id j = Some v"
  shows "\<exists>k \<in> set jobs. j_version_id k = Some v"
proof (cases "\<exists>k. x = Create k")
  case True
  then show ?thesis using assms by (auto simp: create_job_def split: if_splits)
next
  case False
  then have "j_version_id ` set (job_step jobs x) = j_version_id ` set jobs"
    using job_step_versions [of x jobs] by (metis list.set_map)
  then show ?thesis using assms(1,3) by (metis imageE image_eqI)
qed

lemma delete_take_ok:
  assumes ok: "studio_ok S"
  shows "studio_ok (S\<lparr>st_music := delete_take_row gid (st_music S)\<rparr>)"
proof -
  let ?S = "S\<lparr>st_music := delete_take_row gid (st_music S)\<rparr>"
  have cores: "cores ?S = filter (\<lambda>c. fst c \<noteq> gid) (cores S)" by (simp add: cores_def deleted_cores)
  then have "links_ok ?S"
    using links_ok_new [of S ?S None] ok cores_take_links [of ?S S] by (auto simp: studio_ok_def version_links_def)
  moreover have "renders_ok ?S"
    using ok by (simp add: studio_ok_def renders_ok_cores cores version_keys_def distinct_map_filter)
  ultimately show ?thesis using ok versions_ok_cong [of ?S S] by (simp add: studio_ok_def)
qed

lemma save_take_ok:
  assumes ok: "studio_ok S" and found: "get_version (nt_version_id nt) (nt_song_id nt) S \<noteq> None"
  shows "studio_ok (snd (save_take audio_dir fs job_id u nt S))"
proof (cases "attach_reference u (nt_reference_recording_id nt) S")
  case (Some S1)
  note S1 = attached [OF ok Some]
  obtain rows where rows: "S1 = S\<lparr>st_references := rows\<rparr>" using S1(3) by blast
  have key: "(nt_version_id nt, nt_song_id nt) \<in> version_keys S1"
    using found by (force simp: rows version_keys_def get_version_def split: option.splits if_splits dest!: table_get_Some)
  have "studio_ok (S1\<lparr>st_music := db\<rparr>)" if saved: "create_generation audio_dir fs nt (st_music S1) = (Inr t, db)" for t db
  proof -
    let ?S = "S1\<lparr>st_music := db\<rparr>"
    have new: "take_core t = (nt_id nt, nt_song_id nt, Some (nt_version_id nt), nt_reference_recording_id nt)"
      and takes: "td_takes db = studio_takes S1 @ [t]" and fresh: "nt_id nt \<notin> g_id ` set (studio_takes S1)"
      using saved by (auto simp: create_generation_def Let_def take_core_def split: option.splits if_splits)
    have cores: "cores ?S = cores S1 @ [take_core t]" by (simp add: cores_def takes)
    have ids: "fst ` set (cores S1) = g_id ` set (studio_takes S1)" by (simp add: cores_def take_core_def image_image)
    have "links_ok ?S"
      using links_ok_new [of S1 ?S "nt_reference_recording_id nt"] S1(1,2)
      by (auto simp: studio_ok_def version_links_def take_links_cores cores new)
    moreover have "renders_ok ?S"
      using S1(1) key fresh ids by (auto simp: studio_ok_def renders_ok_cores cores new version_keys_def)
    ultimately show ?thesis using S1(1) versions_ok_cong [of ?S S1] by (simp add: studio_ok_def)
  qed
  moreover obtain r db where "create_generation audio_dir fs nt (st_music S1) = (r, db)" by fastforce
  ultimately show ?thesis using ok by (cases r) (auto simp: save_take_def Some)
qed (simp add: save_take_def ok)

subsection \<open>References\<close>

lemma studio_refs:
  "studio_ok S \<Longrightarrow> distinct (map rr_id (st_references S)) \<and> stamps_true (version_links S) (take_links S) (st_references S)"
  by (simp add: studio_ok_def links_ok_def)

text \<open>Rows that keep their ids and whose stamps are right.\<close>

lemma restamped_ok:
  assumes "studio_ok S" and "map rr_id rows = map rr_id (st_references S)" and "stamps_true (version_links S) (take_links S) rows"
  shows "studio_ok (S\<lparr>st_references := rows\<rparr>)"
  using assms studio_refs [OF assms(1)] by (intro references_ok) simp_all

lemma keep_ok:
  assumes "studio_ok S"
  shows "studio_ok (S\<lparr>st_references := snd (keep_reference u rid (st_references S))\<rparr>)"
proof (rule restamped_ok [OF assms])
  have "stamps_true (version_links S) (take_links S)
      (table_update rr_id rid (\<lambda>r. r\<lparr>rr_is_kept := True, rr_unused_since := None\<rparr>) (st_references S))"
    using studio_refs [OF assms] by (intro stamps_true_update) (simp_all add: stamps_true_def)
  then show "stamps_true (version_links S) (take_links S) (snd (keep_reference u rid (st_references S)))"
    using studio_refs [OF assms] by (simp add: keep_reference_def split: option.split)
qed (simp add: keep_reference_def reference_key.keys_update split: option.split)

lemma unkeep_ok:
  assumes "studio_ok S"
  shows "studio_ok (S\<lparr>st_references := snd (unkeep_reference now u rid (version_links S) (take_links S) (st_references S))\<rparr>)"
  using studio_refs [OF assms]
  by (intro restamped_ok [OF assms])
    (simp_all add: stamps_true_unkeep, simp add: unkeep_reference_def Let_def reference_key.keys_update split: option.split)

lemma commit_stamps:
  assumes "distinct (map rr_id rows)" and "stamps_true versions takes rows"
  shows "map rr_id (snd (commit_unused_stamps db_ok now ids versions takes rows)) = map rr_id rows
    \<and> stamps_true versions takes (snd (commit_unused_stamps db_ok now ids versions takes rows))"
  using assms by (simp add: commit_unused_stamps_def stamps_true_mark)

lemma reconcile_stamps:
  assumes "distinct (map rr_id rows)" and "stamps_true versions takes rows"
  shows "map rr_id (snd (reconcile_unused_stamps a b c now versions takes rows)) = map rr_id rows
    \<and> stamps_true versions takes (snd (reconcile_unused_stamps a b c now versions takes rows))"
proof -
  obtain n rows1 where clear: "clear_used_or_kept_stamps a versions takes rows = (n, rows1)" by fastforce
  then have "rows1 = (if a then snd (clear_stamps_on_used_or_kept versions takes rows) else rows)"
    by (auto simp: clear_used_or_kept_stamps_def split: if_splits)
  then have rows1: "map rr_id rows1 = map rr_id rows" "stamps_true versions takes rows1"
    using assms by (simp_all add: stamps_true_clear)
  then have "distinct (map rr_id rows1)" using assms(1) by simp
  note commit = commit_stamps [OF this rows1(2)]
  have "snd (reconcile_unused_stamps a b c now versions takes rows) =
      (if b then snd (commit_unused_stamps c now (set (list_unstamped_unkept_reference_ids rows1)) versions takes rows1) else rows1)"
    by (auto simp: reconcile_unused_stamps_def clear stamp_unstamped_unkept_def split: prod.split)
  then show ?thesis using rows1 commit by simp
qed

lemma stamp_unused_ok: "studio_ok S \<Longrightarrow> studio_ok (stamp_unused db_ok ids S)"
  unfolding stamp_unused_def using studio_refs [of S] commit_stamps [of "st_references S"]
  by (intro restamped_ok) simp_all

lemma reconcile_ok:
  "studio_ok S \<Longrightarrow> studio_ok (S\<lparr>st_references :=
     snd (reconcile_unused_stamps a b c now (version_links S) (take_links S) (st_references S))\<rparr>)"
  using studio_refs [of S] reconcile_stamps [of "st_references S"] by (intro restamped_ok) simp_all

lemma upload_ok:
  assumes ok: "studio_ok S" and up: "create_reference_recording uuid now u path name bytes dur (st_references S) = Some (r, rows)"
  shows "studio_ok (S\<lparr>st_references := rows\<rparr>)"
proof -
  have rows: "rows = st_references S @ [r]" "rr_id r = uuid" "\<not> rr_is_kept r" "uuid \<notin> rr_id ` set (st_references S)"
    using up by (auto simp: create_reference_recording_def Let_def split: if_splits)
  have "free_of_links (version_links S) (take_links S) uuid"
    using ok rows(4) by (auto simp: free_of_links_def studio_ok_def links_ok_def reference_exists_def ball_Un)
      (metis option.case(2) snd_conv)+
  then show ?thesis
    using studio_refs [OF ok] rows by (intro references_ok [OF ok]) (auto simp: stamps_true_def)
qed

lemma delete_reference_ok:
  assumes ok: "studio_ok S"
  shows "studio_ok (snd (api_delete_reference owner_path u rid S))"
proof -
  have "studio_ok (S\<lparr>st_references := rows\<rparr>)"
    if del: "delete_reference_recording r (version_links S) (take_links S) (st_references S) = Some (path, rows)" for r path rows
  proof -
    let ?S = "S\<lparr>st_references := rows\<rparr>"
    have rows: "rows = filter (\<lambda>s. rr_id s \<noteq> rr_id r) (st_references S)"
      and free: "free_of_links (version_links S) (take_links S) (rr_id r)"
      using del by (auto simp: delete_reference_recording_def unlinked_iff split: if_splits)
    have same: "version_links ?S = version_links S" "take_links ?S = take_links S"
      by (simp_all add: version_links_def take_links_def)
    have "reference_exists (snd l) ?S" if "l \<in> set (version_links S @ take_links S)" for l
    proof -
      have "reference_exists (snd l) S" using ok that by (auto simp: studio_ok_def links_ok_def)
      moreover have "snd l \<in> snd ` (set (version_links S) \<union> set (take_links S))" using that by simp
      then have "snd l \<noteq> Some (rr_id r)" using free unfolding free_of_links_def image_Un by metis
      ultimately show ?thesis by (auto simp: reference_exists_def rows split: option.splits)
    qed
    moreover have "distinct (map rr_id rows)" "stamps_true (version_links S) (take_links S) rows"
      using studio_refs [OF ok] by (auto simp: rows distinct_map_filter stamps_true_def)
    ultimately have "links_ok ?S" unfolding links_ok_def same by simp
    then show ?thesis
      using ok versions_ok_cong [of ?S S] renders_ok_cong [of ?S S] by (simp add: studio_ok_def)
  qed
  then show ?thesis using ok by (auto simp: api_delete_reference_def split: option.split)
qed

subsection \<open>The machine keeps the rows in order\<close>

lemma api_create_ok:
  assumes "studio_ok S" and "clock_ahead S"
  shows "studio_ok (snd (api_create_song song_uuid version_uuid u title album slug lang content S))"
proof (cases "attach_reference u (vc_reference_recording_id content) S")
  case (Some S1)
  have "clock_ahead S1" using attached(3) [OF assms(1) Some] assms(2) by (auto simp: clock_ahead_def)
  from create_song_ok [OF attached(1) [OF assms(1) Some] this attached(2) [OF assms(1) Some]]
  show ?thesis using assms(1) by (auto simp: api_create_song_def Some split: prod.split sum.split) (metis snd_conv)
qed (simp add: api_create_song_def assms)

lemma api_update_ok:
  assumes "studio_ok S" and "clock_ahead S"
  shows "studio_ok (snd (api_update_song version_uuid u song_id save S))"
proof (cases "attach_reference u (case sv_reference_recording_id save of Unset \<Rightarrow> None | Set_To r \<Rightarrow> r) S")
  case (Some S1)
  have "clock_ahead S1" using attached(3) [OF assms(1) Some] assms(2) by (auto simp: clock_ahead_def)
  moreover have "marked_used r S1" if "sv_reference_recording_id (save\<lparr>sv_edited_by := Some u\<rparr>) = Set_To r" for r
    using attached(2) [OF assms(1) Some] that by simp
  ultimately have "studio_ok (snd (update_song version_uuid song_id (save\<lparr>sv_edited_by := Some u\<rparr>) S1))"
    by (intro update_song_ok attached(1) [OF assms(1) Some])
  then show ?thesis using assms(1)
    by (auto simp: api_update_song_def Some Let_def split: prod.split sum.split)
qed (simp add: api_update_song_def assms)

lemma api_delete_version_ok: "studio_ok S \<Longrightarrow> studio_ok (snd (api_delete_version vid dg S))"
  using delete_version_ok [of S vid dg]
  by (cases "delete_version vid dg S") (auto simp: api_delete_version_def Let_def split: option.split sum.split)

lemma studio_step_ok:
  assumes "studio_ok S" and legal: "studio_legal x"
  shows "studio_ok (studio_step S x)"
proof -
  obtain n y where x: "x = (n, y)" by fastforce
  define T where "T = S\<lparr>st_now := st_now S + 1 + int n\<rparr>"
  have T: "studio_ok T" "clock_ahead T" using tick_ok [OF assms(1), of "st_now S + 1 + int n"] by (simp_all add: T_def)
  have "studio_ok (studio_act y T)"
  proof (cases y)
    case (Job_Write j)
    have "v \<in> vn_id ` set (st_versions T)" if "k \<in> set (job_step (st_jobs T) j)" "j_version_id k = Some v" for k v
      using job_step_version [OF that(1) _ that(2), of n] legal T(1) by (auto simp: x Job_Write studio_ok_def renders_ok_def)
    then show ?thesis by (simp add: Job_Write jobs_ok [OF T(1)])
  next
    case (Delete_Take gid)
    then show ?thesis using T(1) delete_take_ok [OF T(1), of gid]
      by (auto simp: api_delete_generation_def delete_generation_def split: sum.split)
  next
    case (Trash_Song i)
    then show ?thesis using T(1) by (auto simp: soft_delete_song_def intro: change_song_ok)
  next
    case (Restore_Song w i)
    then show ?thesis using T(1) by (auto simp: restore_song_def intro: change_song_ok split: option.split)
  next
    case (Move_Song i album slug)
    then show ?thesis using T(1) by (auto simp: move_song_def intro: change_song_ok split: option.split)
  next
    case (Upload_Reference uuid u path name bytes dur)
    then show ?thesis using T(1) by (auto intro: upload_ok split: option.split)
  qed (use T in \<open>simp_all add: api_create_ok api_update_ok rename_song_ok delete_song_ok api_delete_version_ok queue_render_ok
      save_take_ok keep_ok unkeep_ok delete_reference_ok stamp_unused_ok reconcile_ok\<close>)
  then show ?thesis by (simp add: studio_step_def x T_def)
qed

interpretation studio_machine: invariant_machine studio_step studio_ok studio_legal
  by unfold_locales (rule studio_step_ok)

end
