(* ===== verification/Studio_Safety.thy ===== *)
theory Studio_Safety
  imports Studio_Rows
begin

text \<open>
  What the studio promises over a run: the words a take was sung with stay, a version that is being
  rendered is not touched, the latest version is the last save, the stamps stay true.
\<close>

subsection \<open>What becomes of a version\<close>

lemma latest_is:
  assumes ok: "versions_ok S" and v: "v \<in> set (st_versions S)" "vn_song_id v = song_id"
    and newest: "\<And>w. w \<in> set (st_versions S) \<Longrightarrow> vn_song_id w = song_id \<Longrightarrow> vn_created_at w \<le> vn_created_at v"
  shows "latest_version song_id S = Some v"
proof (cases "latest_version song_id S")
  case None
  then show ?thesis using latest_None v by blast
next
  case (Some p)
  note p = latest_Some [OF Some]
  then have "vn_created_at p = vn_created_at v" using newest [of p] v by (simp add: order_antisym)
  then have "vn_id p = vn_id v" using versions_okD(6) [OF ok, of p v] p v by simp
  then show ?thesis using Some p v versions_okD(1) [OF ok] by (auto simp: distinct_map inj_on_def)
qed

lemma content_same: "\<not> content_differs c d \<Longrightarrow> c = d"
  by (cases c; cases d) (simp add: content_differs_def creative_differs_def)

lemma row_of: "versions_ok S \<Longrightarrow> v \<in> set (st_versions S) \<Longrightarrow> get_version_row (vn_id v) S = Some v"
  using versions_okD(1) [of S] by (simp add: table_get_mem)

text \<open>A save leaves the rows, adds one, or rewrites the latest where that is allowed.\<close>

lemma update_versions:
  assumes "update_song version_uuid song_id save S = (r, S')"
  shows "st_versions S' = st_versions S \<or> (\<exists>w. vn_id w \<notin> vn_id ` set (st_versions S) \<and> st_versions S' = st_versions S @ [w])
    \<or> (\<exists>p content. latest_version song_id S = Some p \<and> rewrites_in_place p content (sv_force_new_version save) S
        \<and> st_versions S' = table_update vn_id (vn_id p) (\<lambda>v. v\<lparr>vn_content := content\<rparr>) (st_versions S))"
  using assms by (auto simp: update_song_def Let_def split: option.splits if_splits)

lemma created_versions:
  assumes "create_song song_uuid version_uuid title album slug lang created_by content S = (r, S')"
  shows "st_versions S' = st_versions S \<or> (\<exists>w. st_versions S' = st_versions S @ [w])"
proof (cases "album \<in> set (st_albums S)")
  case True
  with assms show ?thesis unfolding create_song_def Let_def
    by (simp only: if_False not_not) (auto split: if_splits option.splits)
qed (use assms in \<open>simp add: create_song_def\<close>)

lemma drop_takes_versions:
  "drop_takes P S = (paths, S') \<Longrightarrow> st_versions S' = st_versions S"
  "release_generations vid dg S = (paths, S') \<Longrightarrow> st_versions S' = st_versions S"
  by (auto simp: drop_takes_def release_generations_def Let_def split: if_splits)

lemma attach_versions:
  "attach_reference u r S = Some S1 \<Longrightarrow> st_versions S1 = st_versions S \<and> st_jobs S1 = st_jobs S \<and> st_music S1 = st_music S"
  by (auto simp: attach_reference_def split: option.splits prod.splits)

definition may_rewrite :: "string \<Rightarrow> version_row \<Rightarrow> version_content \<Rightarrow> studio \<Rightarrow> bool" where
  "may_rewrite vid v content S \<longleftrightarrow> \<not> has_active_job_for_version vid (st_jobs S)
     \<and> \<not> (version_has_takes vid S \<and> creative_differs content (vn_content v))"

lemma kept_row:
  assumes "get_version_row vid S = Some v" and "st_versions S' = st_versions S \<or> (\<exists>w. st_versions S' = st_versions S @ [w])"
  shows "get_version_row vid S' = Some v"
  using assms by (auto simp: table_get_append)

lemma updated_row:
  assumes "versions_ok S" and "update_song version_uuid song_id save S = (r, S')" and "get_version_row vid S = Some v"
  shows "get_version_row vid S' = Some v \<or> (\<exists>content. get_version_row vid S' = Some (v\<lparr>vn_content := content\<rparr>) \<and> may_rewrite vid v content S)"
proof -
  consider (kept) "st_versions S' = st_versions S \<or> (\<exists>w. st_versions S' = st_versions S @ [w])"
    | (rewritten) p content where "latest_version song_id S = Some p" "rewrites_in_place p content (sv_force_new_version save) S"
        "st_versions S' = table_update vn_id (vn_id p) (\<lambda>v. v\<lparr>vn_content := content\<rparr>) (st_versions S)"
    using update_versions [OF assms(2)] by blast
  then show ?thesis
  proof cases
    case kept
    then show ?thesis using kept_row [OF assms(3)] by blast
  next
    case rewritten
    have row: "get_version_row vid S' = (if vid = vn_id p then Some (v\<lparr>vn_content := content\<rparr>) else Some v)"
      using assms(3) by (cases "vid = vn_id p") (simp_all add: rewritten(3) version_key.get_update)
    have "p = v" if "vid = vn_id p"
      using row_of [OF assms(1)] latest_Some [OF rewritten(1)] assms(3) that by simp
    moreover have "v\<lparr>vn_content := content\<rparr> = v" if "\<not> content_differs content (vn_content v)"
      using content_same [OF that] by (cases v) simp
    ultimately show ?thesis
      using row rewritten(2) by (auto simp: rewrites_in_place_def may_rewrite_def split: if_splits)
  qed
qed

lemma stored_row:
  "versions_ok S \<Longrightarrow> vid \<in> vn_id ` set (st_versions S) \<Longrightarrow> get_version_row vid S \<noteq> None"
  using row_of by fastforce

text \<open>Rows that a take or a job names are there.\<close>

lemma named_row:
  assumes "studio_ok S" and "version_has_takes vid S \<or> has_active_job_for_version vid (st_jobs S)"
  shows "get_version_row vid S \<noteq> None"
proof (rule stored_row)
  show "vid \<in> vn_id ` set (st_versions S)"
    using assms by (force simp: studio_ok_def renders_ok_def version_keys_def version_has_takes_def list_ex_iff has_active_job_for_version_def)
qed (use assms in \<open>simp add: studio_ok_def\<close>)

text \<open>What one step does to a row it leaves in the table.\<close>

lemma dropped_row:
  assumes "get_version_row vid S = Some v" and "st_versions S' = filter P (st_versions S)" and "versions_ok S"
  shows "get_version_row vid S' \<in> {None, Some v}"
proof (cases "get_version_row vid S'")
  case (Some w)
  then have "w \<in> set (st_versions S)" "vn_id w = vid" using assms(2) by (auto dest!: table_get_Some)
  then show ?thesis using row_of [OF assms(3), of w] assms(1) Some by simp
qed simp

lemma step_row:
  assumes ok: "studio_ok S" and row: "get_version_row vid S = Some v" and there: "get_version_row vid (studio_step S x) = Some w"
  shows "w = v \<or> (\<exists>content. w = v\<lparr>vn_content := content\<rparr> \<and> may_rewrite vid v content S)"
proof -
  obtain n y where x: "x = (n, y)" by fastforce
  define T where "T = S\<lparr>st_now := st_now S + 1 + int n\<rparr>"
  have okT: "studio_ok T" using tick_ok [OF ok, of "st_now S + 1 + int n"] by (simp add: T_def)
  then have T: "versions_ok T" by (simp add: studio_ok_def)
  have rowT: "get_version_row vid T = Some v" using row by (simp add: T_def)
  have may: "may_rewrite vid v content T = may_rewrite vid v content S" for content
    by (simp add: may_rewrite_def T_def version_has_takes_def)
  have step: "studio_step S x = studio_act y T" by (simp add: studio_step_def x T_def)
  have kept: "w = v" if "st_versions (studio_step S x) = st_versions T \<or> (\<exists>u. st_versions (studio_step S x) = st_versions T @ [u])"
    using kept_row [OF rowT that] there by simp
  have saved: "w = v \<or> (\<exists>content. w = v\<lparr>vn_content := content\<rparr> \<and> may_rewrite vid v content S)"
    if "update_song version_uuid song_id save U = (r, studio_step S x)" "st_versions U = st_versions T" "st_jobs U = st_jobs T"
      "st_music U = st_music T" "versions_ok U" for version_uuid song_id save U r
    using updated_row [OF that(5,1), of vid v] rowT there may that(2-4) by (auto simp: may_rewrite_def version_has_takes_def)
  show ?thesis
  proof (cases y)
    case (Save_Song version_uuid u song_id save)
    show ?thesis
    proof (cases "attach_reference u (case sv_reference_recording_id save of Unset \<Rightarrow> None | Set_To r \<Rightarrow> r) T")
      case None
      then show ?thesis using kept by (simp add: step Save_Song api_update_song_def)
    next
      case (Some S1)
      obtain r S2 where upd: "update_song version_uuid song_id (save\<lparr>sv_edited_by := Some u\<rparr>) S1 = (r, S2)" by fastforce
      have "versions_ok S1" using attached(1) [OF okT Some] by (simp add: studio_ok_def)
      moreover have "studio_step S x = T \<or> studio_step S x = S2"
        using upd by (cases r) (simp_all add: step Save_Song api_update_song_def Some Let_def)
      ultimately show ?thesis
        using kept saved [of version_uuid song_id "save\<lparr>sv_edited_by := Some u\<rparr>" S1 r] attach_versions [OF Some] upd
        by (elim disjE) simp_all
    qed
  next
    case (Rename_Song version_uuid song_id title slug force_new u)
    show ?thesis
    proof (cases "locked_song song_id T")
      case None
      then show ?thesis using kept by (simp add: step Rename_Song rename_song_def)
    next
      case (Some song)
      define S1 where "S1 = (case u of None \<Rightarrow> T
          | Some u \<Rightarrow> if title \<noteq> sr_title song then record_song_edit u song_id Work_Renamed T else T)"
      define S2 where "S2 = change_song song_id (\<lambda>s. s\<lparr>sr_title := title, sr_slug := slug,
          sr_updated_at := (if title = sr_title song \<and> slug = sr_slug song then sr_updated_at s else st_now T)\<rparr>) S1"
      have same: "st_versions S2 = st_versions T" "st_jobs S2 = st_jobs T" "st_music S2 = st_music T"
        by (simp_all add: S2_def S1_def split: option.split)
      have "studio_ok S1" using okT by (simp add: S1_def edit_ok split: option.split)
      then have "studio_ok S2" unfolding S2_def by (rule change_song_ok) simp
      then have S2: "versions_ok S2" by (simp add: studio_ok_def)
      obtain r S3 where upd: "update_song version_uuid song_id plain_save S2 = (r, S3)" by fastforce
      then have "studio_step S x = T \<or> studio_step S x = S2 \<or> studio_step S x = S3"
        by (cases r) (simp_all add: step Rename_Song rename_song_def Some Let_def S1_def [symmetric] S2_def [symmetric])
      then show ?thesis
      proof (elim disjE)
        assume "studio_step S x = S3"
        then show ?thesis using saved [OF _ same S2] upd by simp
      qed (use kept same in simp_all)
    qed
  next
    case (Create_Song song_uuid version_uuid u title album slug lang content)
    show ?thesis
    proof (cases "attach_reference u (vc_reference_recording_id content) T")
      case None
      then show ?thesis using kept by (simp add: step Create_Song api_create_song_def)
    next
      case (Some S1)
      obtain r S2 where made: "create_song song_uuid version_uuid title album slug lang (Some u) content S1 = (r, S2)" by fastforce
      have "studio_step S x = (case r of Inl _ \<Rightarrow> T | Inr _ \<Rightarrow> S2)"
        by (cases r) (simp_all add: step Create_Song api_create_song_def Some made)
      then have "st_versions (studio_step S x) = st_versions T \<or> (\<exists>u. st_versions (studio_step S x) = st_versions T @ [u])"
        using created_versions [OF made] attach_versions [OF Some] by (cases r) simp_all
      from kept [OF this] show ?thesis by simp
    qed
  next
    case (Purge_Song i)
    have "st_versions (studio_step S x) = st_versions T \<or> st_versions (studio_step S x) = filter (\<lambda>v. vn_song_id v \<noteq> i) (st_versions T)"
      by (auto simp: step Purge_Song delete_song_def drop_versions_def Let_def split: option.split prod.split dest!: drop_takes_versions(1))
    then show ?thesis using dropped_row [OF rowT _ T] kept there by fastforce
  next
    case (Delete_Version i dg)
    have "st_versions (studio_step S x) = st_versions T \<or> st_versions (studio_step S x) = filter (\<lambda>v. vn_id v \<noteq> i) (st_versions T)"
      by (auto simp: step Delete_Version api_delete_version_def delete_version_def drop_versions_def Let_def
          split: option.split prod.split dest!: drop_takes_versions(2))
    then show ?thesis using dropped_row [OF rowT _ T] kept there by fastforce
  next
    case (Save_Take a fs j u nt)
    show ?thesis
      by (rule disjI1, rule kept, rule disjI1)
        (auto simp: step Save_Take save_take_def split: option.split sum.split prod.split dest!: attach_versions)
  qed (rule disjI1, rule kept, rule disjI1, simp add: step soft_delete_song_def restore_song_def move_song_def queue_render_def Let_def
       api_delete_generation_def delete_generation_def api_delete_reference_def stamp_unused_def split: option.split sum.split)+
qed

subsection \<open>Along a run\<close>

fun throughout :: "(studio \<Rightarrow> bool) \<Rightarrow> studio \<Rightarrow> (nat \<times> studio_op) list \<Rightarrow> bool" where
  "throughout P S [] \<longleftrightarrow> P S"
| "throughout P S (x # xs) \<longleftrightarrow> P S \<and> throughout P (studio_step S x) xs"

lemma throughout_first: "throughout P S xs \<Longrightarrow> P S"
  by (cases xs) simp_all

lemma run_row:
  assumes "studio_ok S" and "list_all studio_legal xs" and "get_version_row vid S = Some v" and "throughout P S xs"
    and named: "\<And>T. P T \<Longrightarrow> version_has_takes vid T \<or> has_active_job_for_version vid (st_jobs T)"
    and keeps: "\<And>T w content. P T \<Longrightarrow> may_rewrite vid w content T \<Longrightarrow> rel (vn_content w) content"
    and rel: "\<And>c. rel c c" "\<And>c d e. rel c d \<Longrightarrow> rel d e \<Longrightarrow> rel c e"
  shows "\<exists>content. get_version_row vid (foldl studio_step S xs) = Some (v\<lparr>vn_content := content\<rparr>) \<and> rel (vn_content v) content"
  using assms(1-4)
proof (induction xs arbitrary: S v)
  case Nil
  have "v = v\<lparr>vn_content := vn_content v\<rparr>" by simp
  then show ?case using Nil(3) rel(1) by (intro exI [of _ "vn_content v"]) simp
next
  case (Cons x xs)
  have next_ok: "studio_ok (studio_step S x)" using Cons.prems studio_step_ok by simp
  have first: "P S" "P (studio_step S x)" using Cons.prems(4) throughout_first by auto
  then obtain w where w: "get_version_row vid (studio_step S x) = Some w" using named_row [OF next_ok named] by blast
  from step_row [OF Cons.prems(1,3) w] obtain content where content: "w = v\<lparr>vn_content := content\<rparr>" "rel (vn_content v) content"
    using keeps [OF first(1)] rel(1) by (metis version_row.surjective version_row.update_convs(4))
  obtain later where "get_version_row vid (foldl studio_step (studio_step S x) xs) = Some (w\<lparr>vn_content := later\<rparr>)"
      "rel (vn_content w) later"
    using Cons.IH [OF next_ok _ w] Cons.prems(2,4) by auto
  then show ?case using content rel(2) by (auto intro!: exI [of _ later])
qed

text \<open>C12: the words a take was sung with stay: as long as a version has takes, no save, rename, delete or
  daily run, in any order, changes its lyrics, style, tempo, length or key, and its row stays the song's.\<close>

theorem sung_words_stay:
  assumes "studio_ok S" and "list_all studio_legal xs" and "get_version_row vid S = Some v"
    and "throughout (version_has_takes vid) S xs"
  shows "\<exists>content. get_version_row vid (foldl studio_step S xs) = Some (v\<lparr>vn_content := content\<rparr>)
    \<and> \<not> creative_differs (vn_content v) content"
  using assms(1-3)
  by (rule run_row [where P = "version_has_takes vid"])
    (use assms(4) in \<open>auto simp: may_rewrite_def creative_differs_def\<close>)

text \<open>C13: a version that is being rendered is not touched: as long as one of its jobs is active, its row stays
  exactly as it was when the job was made.\<close>

theorem rendered_version_frozen:
  assumes "studio_ok S" and "list_all studio_legal xs" and "get_version_row vid S = Some v"
    and "throughout (\<lambda>T. has_active_job_for_version vid (st_jobs T)) S xs"
  shows "get_version_row vid (foldl studio_step S xs) = Some v"
proof -
  have "\<exists>content. get_version_row vid (foldl studio_step S xs) = Some (v\<lparr>vn_content := content\<rparr>) \<and> vn_content v = content"
    using assms by (rule run_row) (auto simp: may_rewrite_def)
  then show ?thesis by auto
qed

subsection \<open>What holds in every state\<close>

definition empty_studio :: "timestamp \<Rightarrow> string list \<Rightarrow> studio" where
  "empty_studio now albums = \<lparr>st_now = now, st_albums = albums, st_songs = [], st_versions = [],
     st_music = \<lparr>td_songs = [], td_takes = [], td_scores = [], td_ratings = []\<rparr>, st_references = [], st_jobs = [], st_work = []\<rparr>"

lemma empty_studio_ok: "studio_ok (empty_studio now albums)"
  by (simp add: studio_ok_def versions_ok_def links_ok_def renders_ok_def empty_studio_def version_links_def take_links_def stamps_true_def)

text \<open>C14: after any sequence of requests, saved takes, job writes and daily runs, a song's versions have
  different numbers, every take's version is a row of the take's song, every linked reference recording exists, and no
  recording that is kept or in use carries the stamp that counts towards its removal.\<close>

theorem studio_rows_consistent:
  assumes "list_all studio_legal xs" and "S = foldl studio_step (empty_studio now albums) xs"
  shows "distinct (map (\<lambda>v. (vn_song_id v, vn_version_number v)) (st_versions S))
    \<and> (\<forall>t \<in> set (studio_takes S). \<forall>vid. g_version_id t = Some vid \<longrightarrow> get_version vid (g_song_id t) S \<noteq> None)
    \<and> (\<forall>l \<in> set (version_links S @ take_links S). reference_exists (snd l) S)
    \<and> (\<forall>r \<in> set (st_references S). rr_unused_since r \<noteq> None \<longrightarrow>
         \<not> rr_is_kept r \<and> is_unlinked (reference_link_counts (version_links S) (take_links S) (rr_id r)))"
proof (intro conjI)
  have ok: "studio_ok S" unfolding assms(2) using empty_studio_ok assms(1) by (rule studio_machine.run_inv)
  then have vs: "versions_ok S" and links: "links_ok S" and renders: "renders_ok S" by (simp_all add: studio_ok_def)
  show "distinct (map (\<lambda>v. (vn_song_id v, vn_version_number v)) (st_versions S))"
    unfolding distinct_map
  proof (intro conjI inj_onI)
    show "distinct (st_versions S)" using versions_okD(1) [OF vs] by (simp add: distinct_map)
    fix v w assume v: "v \<in> set (st_versions S)" and w: "w \<in> set (st_versions S)"
      and "(vn_song_id v, vn_version_number v) = (vn_song_id w, vn_version_number w)"
    then have same: "vn_song_id v = vn_song_id w" "vn_version_number v = vn_version_number w" by simp_all
    then have "\<not> vn_created_at v < vn_created_at w" "\<not> vn_created_at w < vn_created_at v"
      using versions_okD(5) [OF vs v w] versions_okD(5) [OF vs w v] by auto
    then have "vn_id v = vn_id w" using versions_okD(6) [OF vs v w same(1)] by simp
    then show "v = w" using versions_okD(1) [OF vs] v w by (simp add: distinct_map inj_on_def)
  qed
  show "\<forall>t \<in> set (studio_takes S). \<forall>vid. g_version_id t = Some vid \<longrightarrow> get_version vid (g_song_id t) S \<noteq> None"
  proof (intro ballI allI impI)
    fix t vid assume "t \<in> set (studio_takes S)" "g_version_id t = Some vid"
    then have "(vid, g_song_id t) \<in> version_keys S" using renders unfolding renders_ok_def by blast
    then obtain v where "v \<in> set (st_versions S)" "vn_id v = vid" "vn_song_id v = g_song_id t" by (auto simp: version_keys_def)
    then show "get_version vid (g_song_id t) S \<noteq> None" using row_of [OF vs, of v] by (simp add: get_version_def)
  qed
  show "\<forall>l \<in> set (version_links S @ take_links S). reference_exists (snd l) S" using links by (simp add: links_ok_def)
  show "\<forall>r \<in> set (st_references S). rr_unused_since r \<noteq> None \<longrightarrow>
      \<not> rr_is_kept r \<and> is_unlinked (reference_link_counts (version_links S) (take_links S) (rr_id r))"
    using links by (simp add: links_ok_def stamps_true_def unlinked_iff)
qed

subsection \<open>A save is the latest version\<close>

lemma saved_version:
  assumes "studio_ok S" and "st_now S < now"
    and "api_update_song version_uuid u song_id save (S\<lparr>st_now := now\<rparr>) = (Inr (v, ids), S')"
  shows "latest_version song_id S' = Some v \<and> vn_content v = saved_content save (latest_version song_id S)
    \<and> filter (\<lambda>w. vn_id w \<noteq> vn_id v) (st_versions S') = filter (\<lambda>w. vn_id w \<noteq> vn_id v) (st_versions S)"
proof -
  define T where "T = S\<lparr>st_now := now\<rparr>"
  note T = tick_ok [OF assms(1,2), folded T_def]
  obtain S1 where attach: "attach_reference u (case sv_reference_recording_id save of Unset \<Rightarrow> None | Set_To r \<Rightarrow> r) T = Some S1"
    and upd: "update_song version_uuid song_id (save\<lparr>sv_edited_by := Some u\<rparr>) S1 = (Inr v, S')"
    using assms(3) by (auto simp: api_update_song_def T_def [symmetric] Let_def split: option.splits sum.splits prod.splits)
  have vs1: "st_versions S1 = st_versions S" "st_now S1 = now"
    using attached(3) [OF T(1) attach] by (auto simp: T_def)
  have ahead: "vn_created_at w < now" if "w \<in> set (st_versions S)" for w
    using T(2) that by (simp add: clock_ahead_def T_def)
  have latest: "latest_version song_id S1 = latest_version song_id S" by (simp add: latest_version_def vs1)
  have "studio_ok S'" using api_update_ok [OF T, of version_uuid u song_id save] assms(3) by (simp add: T_def)
  then have ok: "versions_ok S'" by (simp add: studio_ok_def)
  have content: "saved_content (save\<lparr>sv_edited_by := Some u\<rparr>) = saved_content save" by (rule ext) (simp add: saved_content_def)
  have added: "latest_version song_id S' = Some v \<and> filter (\<lambda>w. vn_id w \<noteq> vn_id v) (st_versions S') = filter (\<lambda>w. vn_id w \<noteq> vn_id v) (st_versions S)"
    if "st_versions S' = st_versions S @ [v]" "vn_song_id v = song_id" "vn_created_at v = now"
  proof
    show "latest_version song_id S' = Some v"
      using that ahead by (intro latest_is [OF ok]) (auto simp: less_imp_le)
  qed (simp add: that)
  have rewritten: "latest_version song_id S' = Some v \<and> filter (\<lambda>w. vn_id w \<noteq> vn_id v) (st_versions S') = filter (\<lambda>w. vn_id w \<noteq> vn_id v) (st_versions S)"
    if p: "latest_version song_id S = Some p" and v: "v = p\<lparr>vn_content := c\<rparr>"
      and rows: "st_versions S' = table_update vn_id (vn_id p) (\<lambda>v. v\<lparr>vn_content := c\<rparr>) (st_versions S)" for p c
  proof
    note p = latest_Some [OF p]
    show "latest_version song_id S' = Some v"
    proof (rule latest_is [OF ok])
      show "v \<in> set (st_versions S')" using p by (force simp: rows v table_update_def)
      show "vn_created_at w \<le> vn_created_at v" if "w \<in> set (st_versions S')" "vn_song_id w = song_id" for w
        using p that by (auto simp: rows v table_update_def)
    qed (use p in \<open>simp add: v\<close>)
    show "filter (\<lambda>w. vn_id w \<noteq> vn_id v) (st_versions S') = filter (\<lambda>w. vn_id w \<noteq> vn_id v) (st_versions S)"
      unfolding rows v table_update_def filter_map comp_def by (rule trans [OF map_idI]) (auto intro: filter_cong)
  qed
  show ?thesis
  proof (cases "latest_version song_id S")
    case None
    then show ?thesis using upd added
      by (auto simp: update_song_def latest content Let_def vs1 split: option.splits if_splits)
  next
    case (Some p)
    then show ?thesis using upd added rewritten [OF Some, of "saved_content save (Some p)"]
      by (auto simp: update_song_def latest content Let_def vs1 split: option.splits if_splits)
  qed
qed

lemma saved_fields:
  "c = saved_content save prev \<Longrightarrow> before = (case prev of Some p \<Rightarrow> vn_content p
        | None \<Rightarrow> \<lparr>vc_lyrics = '''', vc_prompt = '''', vc_bpm = 0, vc_audio_duration = 0, vc_key_scale = '''',
            vc_generation_params = None, vc_reference_recording_id = None\<rparr>) \<Longrightarrow>
    vc_lyrics c = (case sv_lyrics save of Some x \<Rightarrow> x | None \<Rightarrow> vc_lyrics before)
    \<and> vc_prompt c = (case sv_prompt save of Some x \<Rightarrow> x | None \<Rightarrow> vc_prompt before)
    \<and> vc_bpm c = (case sv_bpm save of Some x \<Rightarrow> x | None \<Rightarrow> vc_bpm before)
    \<and> vc_audio_duration c = (case sv_audio_duration save of Some x \<Rightarrow> x | None \<Rightarrow> vc_audio_duration before)
    \<and> vc_key_scale c = (case sv_key_scale save of Some x \<Rightarrow> x | None \<Rightarrow> vc_key_scale before)
    \<and> vc_generation_params c = (case sv_generation_params save of Unset \<Rightarrow> vc_generation_params before
        | Set_To g \<Rightarrow> if g = Some (J_Obj []) \<or> g = Some J_Null then None else g)
    \<and> vc_reference_recording_id c = (case sv_reference_recording_id save of Unset \<Rightarrow> vc_reference_recording_id before
        | Set_To r \<Rightarrow> r)"
  by (auto simp: saved_content_def version_value_def version_generation_params_def carried_unless_set_def json_or_none_def
      split: option.splits setting.splits)

text \<open>C15: a save that succeeds is what the song shows next: if the clock has moved on since the last change,
  the row it returns is the song's latest version.  Each field has the value the save gives, where it gives
  one, else the value of the version before, else the empty default; an empty object of settings is stored
  as none, and a cleared or new reference replaces the old one.  Every version but the returned one stays.\<close>

theorem save_is_latest:
  assumes "studio_ok S" and "st_now S < now"
    and "api_update_song version_uuid u song_id save (S\<lparr>st_now := now\<rparr>) = (Inr (v, ids), S')"
    and "c = vn_content v"
    and "before = (case latest_version song_id S of Some p \<Rightarrow> vn_content p
        | None \<Rightarrow> \<lparr>vc_lyrics = '''', vc_prompt = '''', vc_bpm = 0, vc_audio_duration = 0, vc_key_scale = '''',
            vc_generation_params = None, vc_reference_recording_id = None\<rparr>)"
  shows "latest_version song_id S' = Some v
    \<and> filter (\<lambda>w. vn_id w \<noteq> vn_id v) (st_versions S') = filter (\<lambda>w. vn_id w \<noteq> vn_id v) (st_versions S)
    \<and> vc_lyrics c = (case sv_lyrics save of Some x \<Rightarrow> x | None \<Rightarrow> vc_lyrics before)
    \<and> vc_prompt c = (case sv_prompt save of Some x \<Rightarrow> x | None \<Rightarrow> vc_prompt before)
    \<and> vc_bpm c = (case sv_bpm save of Some x \<Rightarrow> x | None \<Rightarrow> vc_bpm before)
    \<and> vc_audio_duration c = (case sv_audio_duration save of Some x \<Rightarrow> x | None \<Rightarrow> vc_audio_duration before)
    \<and> vc_key_scale c = (case sv_key_scale save of Some x \<Rightarrow> x | None \<Rightarrow> vc_key_scale before)
    \<and> vc_generation_params c = (case sv_generation_params save of Unset \<Rightarrow> vc_generation_params before
        | Set_To g \<Rightarrow> if g = Some (J_Obj []) \<or> g = Some J_Null then None else g)
    \<and> vc_reference_recording_id c = (case sv_reference_recording_id save of Unset \<Rightarrow> vc_reference_recording_id before
        | Set_To r \<Rightarrow> r)"
proof -
  note saved = saved_version [OF assms(1-3)]
  have "c = saved_content save (latest_version song_id S)" using saved assms(4) by simp
  from saved_fields [OF this assms(5)] saved show ?thesis by simp
qed

subsection \<open>Witnesses\<close>

definition demo_content :: "string \<Rightarrow> version_content" where
  "demo_content words = \<lparr>vc_lyrics = words, vc_prompt = ''folk'', vc_bpm = 90, vc_audio_duration = 120, vc_key_scale = ''C'',
     vc_generation_params = None, vc_reference_recording_id = None\<rparr>"

definition demo_take :: new_take where
  "demo_take = \<lparr>nt_id = ''t'', nt_song_id = ''s'', nt_version_id = ''v1'', nt_mp3_path = ''t.mp3'', nt_model_mode = ''sft'',
     nt_seed = None, nt_wav_path = None, nt_src_generation_id = None, nt_created_by = ''u'', nt_reference_recording_id = None, nt_now = 0\<rparr>"

definition demo_save :: "string \<Rightarrow> song_save" where
  "demo_save words = plain_save\<lparr>sv_lyrics := Some words, sv_force_new_version := False\<rparr>"

text \<open>A song, a job for its first version and a take of it.\<close>

definition demo_queued :: "(nat \<times> studio_op) list" where
  "demo_queued = [(0, Create_Song ''s'' ''v1'' ''u'' ''Song'' ''a'' ''song'' ''en'' (demo_content ''la'')),
     (0, Queue_Render ''j'' ''u'' ''s'' ''v1'')]"

definition demo_studio :: studio where
  "demo_studio = foldl studio_step (empty_studio 0 [''a'']) demo_queued"

definition demo_sung :: studio where
  "demo_sung = foldl studio_step (empty_studio 0 [''a'']) (demo_queued @ [(0, Save_Take [''audio''] [] ''j'' ''u'' demo_take)])"

definition demo_edits :: "(nat \<times> studio_op) list" where
  "demo_edits = [(0, Save_Song ''v2'' ''u'' ''s'' (demo_save ''lala'')), (0, Save_Song ''v3'' ''u'' ''s'' (demo_save ''lalala''))]"

lemma demo_ok: "studio_ok demo_studio" "studio_ok demo_sung"
  unfolding demo_studio_def demo_sung_def
  by (rule studio_machine.run_inv [OF empty_studio_ok], simp add: demo_queued_def)+

lemma sung_words_stay_witness:
  "\<exists>content. get_version_row ''v1'' (foldl studio_step demo_sung demo_edits)
      = Some (the (get_version_row ''v1'' demo_sung)\<lparr>vn_content := content\<rparr>)
    \<and> \<not> creative_differs (demo_content ''la'') content"
proof -
  have row: "get_version_row ''v1'' demo_sung = Some (the (get_version_row ''v1'' demo_sung))" by code_simp
  have "list_all studio_legal demo_edits" by code_simp
  moreover have "throughout (version_has_takes ''v1'') demo_sung demo_edits" by code_simp
  ultimately have "\<exists>content. get_version_row ''v1'' (foldl studio_step demo_sung demo_edits)
      = Some (the (get_version_row ''v1'' demo_sung)\<lparr>vn_content := content\<rparr>)
    \<and> \<not> creative_differs (vn_content (the (get_version_row ''v1'' demo_sung))) content"
    by (rule sung_words_stay [OF demo_ok(2) _ row])
  moreover have "vn_content (the (get_version_row ''v1'' demo_sung)) = demo_content ''la''" by code_simp
  ultimately show ?thesis by simp
qed

lemma rendered_version_frozen_witness:
  "get_version_row ''v1'' (foldl studio_step demo_studio demo_edits) = get_version_row ''v1'' demo_studio
    \<and> map vn_version_number (st_versions (foldl studio_step demo_studio demo_edits)) = [1, 2]"
proof -
  have row: "get_version_row ''v1'' demo_studio = Some (the (get_version_row ''v1'' demo_studio))" by code_simp
  have "list_all studio_legal demo_edits" by code_simp
  moreover have "throughout (\<lambda>T. has_active_job_for_version ''v1'' (st_jobs T)) demo_studio demo_edits" by code_simp
  ultimately have "get_version_row ''v1'' (foldl studio_step demo_studio demo_edits) = Some (the (get_version_row ''v1'' demo_studio))"
    by (rule rendered_version_frozen [OF demo_ok(1) _ row])
  moreover have "map vn_version_number (st_versions (foldl studio_step demo_studio demo_edits)) = [1, 2]" by code_simp
  ultimately show ?thesis using row by simp
qed

lemma studio_rows_consistent_witness:
  "let S = foldl studio_step demo_sung demo_edits
   in distinct (map (\<lambda>v. (vn_song_id v, vn_version_number v)) (st_versions S)) \<and> length (st_versions S) = 2"
proof -
  let ?xs = "demo_queued @ [(0, Save_Take [''audio''] [] ''j'' ''u'' demo_take)] @ demo_edits"
  have "list_all studio_legal ?xs" by code_simp
  moreover have "foldl studio_step demo_sung demo_edits = foldl studio_step (empty_studio 0 [''a'']) ?xs"
    by (simp add: demo_sung_def)
  ultimately have "distinct (map (\<lambda>v. (vn_song_id v, vn_version_number v)) (st_versions (foldl studio_step demo_sung demo_edits)))"
    using studio_rows_consistent by blast
  moreover have "length (st_versions (foldl studio_step demo_sung demo_edits)) = 2" by code_simp
  ultimately show ?thesis by simp
qed

lemma save_is_latest_witness:
  "let (r, T) = api_update_song ''v2'' ''u'' ''s'' (demo_save ''lala'') (demo_sung\<lparr>st_now := 9\<rparr>)
   in map_option (vc_lyrics \<circ> vn_content) (latest_version ''s'' T) = Some ''lala''"
proof -
  define T where "T = snd (api_update_song ''v2'' ''u'' ''s'' (demo_save ''lala'') (demo_sung\<lparr>st_now := 9\<rparr>))"
  define r where "r = projr (fst (api_update_song ''v2'' ''u'' ''s'' (demo_save ''lala'') (demo_sung\<lparr>st_now := 9\<rparr>)))"
  have "isl (fst (api_update_song ''v2'' ''u'' ''s'' (demo_save ''lala'') (demo_sung\<lparr>st_now := 9\<rparr>))) = False" by code_simp
  then have run: "api_update_song ''v2'' ''u'' ''s'' (demo_save ''lala'') (demo_sung\<lparr>st_now := 9\<rparr>) = (Inr (fst r, snd r), T)"
    by (simp add: T_def r_def prod_eq_iff)
  have "st_now demo_sung < 9" by code_simp
  from save_is_latest [OF demo_ok(2) this run refl refl]
  have "latest_version ''s'' T = Some (fst r)" "vc_lyrics (vn_content (fst r)) = ''lala''"
    by (simp_all add: demo_save_def plain_save_def)
  then show ?thesis by (simp add: run)
qed

end
