(* ===== verification/Spec2Isabelle.thy ===== *)
theory Spec2Isabelle
  imports Prelude Py_Strings Model_Cache Job_Types Redis_Ops Worker_Liveness Job_Store Task_Store Worker_Gpu
    Worker_Routes Scheduler Queue_Cache Audio_Paths Queue_Build Build_Lock Library_Pool Song_Types Playlists Library_Cursor Merging
    Library_Search Takes Shares Effects Lora_Rows Lora_Training Lora_Safety
    Lora_Reconcile Lora_Recovery Lora_Leftover Lora_Submission Lora_Handover Lora_Job
    Job_Messages Job_Runtime Generation_Failure Resource_Events References Song_Versions Studio Studio_Rows Studio_Safety
begin

text \<open>
  Songmaker turns lyrics and prompts into recorded takes.  A web application (\<open>songmaker_cli\<close>) keeps
  albums, songs, takes, playlists and voices in a database, queues background jobs, and hands
  generations and voice trainings to GPU workers (\<open>acestep_worker\<close>) over HTTP; web application and
  workers meet in Redis.  The theories below translate the parts with logic of their own, from
  \<open>src/src\<close>; each theory opens with what it holds.

  \<^bold>\<open>Conventions.\<close>  A Python dictionary is an association list in insertion order, a table the list of
  its rows, an integer an \<open>int\<close> (Python's are unbounded), a \<open>float\<close> an exact rational, a \<open>datetime\<close> a
  number of microseconds, a string a list of bytes in UTF-8.  An exception is the left side of a sum;
  an operation that can raise after changing state returns the state as well.  A transaction under a
  lock is one function; where the code lets others act in between, the model has several steps or
  takes the interference as an argument.  Clock readings, random identifiers, hashes, JSON, Redis,
  HTTP answers, ffmpeg and the engine are arguments with named hypotheses (\<open>redis_laws\<close>, \<open>reads_back\<close>,
  \<open>text_agrees\<close>, \<open>letterwise\<close>, \<open>honest\<close>), each shown satisfiable by a witness.  \<open>redis_laws\<close> covers the
  commands as they are called here: increments of integers, expiries above zero.

  \<^bold>\<open>The worker.\<close>  \<open>Model_Cache\<close> (\<open>model_cache.py\<close>): loading, pinning, use counts, eviction.
  \<open>Task_Store\<close> (\<open>task_store.py\<close>): tasks, result files, subscriptions, the sweep.  \<open>Worker_Gpu\<close>
  (\<open>wrapper.py\<close>, \<open>heartbeat.py\<close>, \<open>acestep_state.py\<close>): the queue counter and the hold in Redis, the
  requests to generate and train, their background ends with each clean-up; a request is one step,
  though the code of \<open>train_lora\<close> awaits between what it acquires.  \<open>Worker_Routes\<close> (\<open>wrapper.py\<close>,
  \<open>lm_failure.py\<close>, \<open>downloads.py\<close>): model routes, restart, path checks.

  \<^bold>\<open>Jobs.\<close>  \<open>Job_Types\<close> (\<open>constants.py\<close>), \<open>Job_Store\<close> (\<open>db/queries/jobs.py\<close>; the recovery at a restart
  reads and writes in two steps, as the code does), \<open>Worker_Liveness\<close> (\<open>worker_liveness.py\<close>),
  \<open>Redis_Ops\<close> (the commands used), \<open>Scheduler\<close> (\<open>scheduler.py\<close>: choosing a worker, reading its event
  stream, dispatch and result), \<open>Job_Messages\<close> (\<open>constants.py\<close>), \<open>Job_Runtime\<close> (\<open>jobs/_runtime.py\<close>: the
  message of an exception), \<open>Generation_Failure\<close> (\<open>jobs/generation_failure.py\<close>: what a failed
  generation records and what musicians see of it).

  \<^bold>\<open>Voices.\<close>  \<open>Effects\<close> is the small language of programs that may fail or be killed at any effect, in
  which file and database work is written.  \<open>Lora_Rows\<close> (\<open>db/queries/loras.py\<close>); from
  \<open>jobs/lora_training.py\<close>: \<open>Lora_Training\<close> (files, the record of a finished training, adopting the
  adapter, every failure path), \<open>Lora_Safety\<close> (an adapter is never lost), \<open>Lora_Reconcile\<close> and
  \<open>Lora_Recovery\<close> (the clean-up after a crash, and that it settles), \<open>Lora_Leftover\<close> (what a leftover
  \<open>lora.previous\<close> blocks), \<open>Lora_Submission\<close> and \<open>Lora_Handover\<close> (the GPU hold and its hand-over),
  \<open>Lora_Job\<close> (the whole job).

  \<^bold>\<open>Writing.\<close>  \<open>References\<close> (\<open>db/queries/reference_recordings.py\<close>), \<open>Song_Versions\<close>
  (\<open>db/queries/songs.py\<close>, \<open>versions.py\<close>), \<open>Studio\<close> (\<open>song_api.py\<close>, \<open>generation_api.py\<close>,
  \<open>reference_api.py\<close> and a job's saving of a take, as one machine), \<open>Studio_Rows\<close> and \<open>Studio_Safety\<close>
  (its invariants; its clock moves on with every step, where the source reads the wall clock).
  \<open>Resource_Events\<close> (\<open>resource_event_api.py\<close>, \<open>db/queries/resource_events.py\<close>): the ledger of events
  and its replayable stream; the ledger may grow and be pruned between any two reads.

  \<^bold>\<open>Music and listening.\<close>  \<open>Song_Types\<close> (rows), \<open>Takes\<close> (\<open>db/queries/generations.py\<close>, the retention
  of \<open>cleanup.py\<close>), \<open>Playlists\<close> (\<open>db/queries/playlists.py\<close>), \<open>Audio_Paths\<close> (\<open>audio_paths.py\<close>,
  \<open>audio_files.py\<close>), \<open>Queue_Cache\<close>, \<open>Queue_Build\<close>, \<open>Build_Lock\<close>, \<open>Library_Pool\<close>
  (\<open>queue_streams.py\<close>: the stream cache, builds, the lock between threads, the pool of takes),
  \<open>Library_Cursor\<close> (\<open>library_cursor.py\<close>), \<open>Library_Search\<close> over \<open>Merging\<close> (\<open>db/queries/library.py\<close>;
  Python's lower-casing and the database's, its \<open>ILIKE\<close> and its collation are four parameters,
  \<open>text_rules\<close>), \<open>Shares\<close> (\<open>sharing_api.py\<close>, \<open>db/queries/sharing.py\<close>).

  \<^bold>\<open>Interfaces.\<close>  \<open>ordered_dict\<close> and \<open>keyed_row\<close> state the laws of dictionaries and tables,
  \<open>invariant_machine\<close>, \<open>frozen_machine\<close> and \<open>simulation\<close> lift one step to runs, \<open>ranking\<close> states what
  an order of rows gives a merged and paged result, \<open>training_host\<close> what a training job relies on of
  the worker that holds the GPU; each is interpreted on the code's model.

  \<^bold>\<open>What is shown.\<close>  Invariants of reachable states (cache budget and use counts, running models, take,
  version and song rows, the lock); safety (holds exclude running generations, finished jobs stay,
  a voice keeps its adapter, sung words stay, confined paths, marked takes survive the retention,
  public addresses serve what the page presents); liveness (a crashed training is settled, an
  unused hold is released, a dropped stream is resumed, missed events are delivered); refinement
  (playlists are lists); equivalence (stale-job recovery and its policy); round trips (event stream,
  signed cursors, published streams); termination (reading pages ends).  Where the code does
  otherwise than it means to, a theorem says so: \<open>rejected_duplicate_forgets_claim\<close>,
  \<open>gap_stops_move\<close>, \<open>restored_voice_takes_wrong_mode\<close>, \<open>leftover_blocks_recovery\<close> and
  \<open>leftover_blocks_training\<close>, \<open>restart_overwrites_finished_job\<close>, \<open>title_page_repeats\<close>.

  \<^bold>\<open>Bounds and fuel.\<close>  \<open>read_pages\<close> takes the number of pages it may read and the theorem gives the
  number that is enough; \<open>reconcile_crashed_loras\<close> takes one step more than there are rows, and each
  step settles or skips one; \<open>iterate_from\<close> and \<open>connections_opened\<close> recurse on the reconnect budget.
  All other recursion is structural or has a termination proof.

  \<^bold>\<open>Not modelled.\<close>  Web routers and response models beyond the handlers named (calls of what is
  modelled), sign-in, covers, scoring and the co-writer (foreign models and image or signal
  libraries), the engine clients, process supervision, migrations, start-up.  Symbolic links, files
  that vanish between two calls of one request, and rounding of floating-point numbers are left out.
\<close>

end
